(* ===== verification/Rust_Text.thy ===== *)
theory Rust_Text
  imports FL_Prelude
begin

section \<open>Rust strings\<close>

text \<open>
  A Rust \<^verbatim>\<open>char\<close> is a Unicode scalar value and a \<^verbatim>\<open>str\<close> the sequence of them that its UTF-8 bytes
  encode. Here a character is its code point (\<open>nat\<close>) and a string a list of code points;
  \<open>utf8\<close> gives the bytes (\<^verbatim>\<open>as_bytes\<close>), \<open>from_utf8\<close> and \<open>from_utf8_lossy\<close> the standard library's
  decoders. The methods of \<^verbatim>\<open>char\<close>, \<^verbatim>\<open>str\<close> and \<^verbatim>\<open>String\<close> that the crates call are defined on this
  representation under their own names. Rust orders strings by their UTF-8 bytes, which is the
  lexicographic order of the code points, the order of \<open>List_Lexorder\<close>.
\<close>

type_synonym uchar = nat
type_synonym ustring = "uchar list"

text \<open>A string literal of the source, and a character literal.\<close>

definition lit :: "string \<Rightarrow> ustring" where
  "lit s = map of_char s"

abbreviation ch :: "char \<Rightarrow> uchar" where
  "ch c \<equiv> of_char c"

lemma lit_simps: "lit [] = []" "lit (c # cs) = of_char c # lit cs"
  by (simp_all add: lit_def)

lemma lit_eq_Nil [simp]: "lit xs = [] \<longleftrightarrow> xs = []" "[] = lit xs \<longleftrightarrow> xs = []"
  by (auto simp: lit_def)

lemma length_lit [simp]: "length (lit xs) = length xs"
  by (simp add: lit_def)

lemma lit_append: "lit (xs @ ys) = lit xs @ lit ys"
  by (simp add: lit_def)

lemma lit_inject [simp]: "lit xs = lit ys \<longleftrightarrow> xs = ys"
proof -
  have "inj (of_char :: char \<Rightarrow> nat)" by (simp add: inj_on_def)
  then show ?thesis unfolding lit_def by (rule inj_map_eq_map)
qed

subsection \<open>Character classes\<close>

text \<open>\<open>is_whitespace\<close> is the Unicode \<^verbatim>\<open>White_Space\<close> property, \<open>is_control\<close> the category \<^verbatim>\<open>Cc\<close>.\<close>

definition is_scalar :: "uchar \<Rightarrow> bool" where
  "is_scalar c \<longleftrightarrow> c < 0xD800 \<or> (0xE000 \<le> c \<and> c < 0x110000)"

definition is_whitespace :: "uchar \<Rightarrow> bool" where
  "is_whitespace c \<longleftrightarrow> (9 \<le> c \<and> c \<le> 13) \<or> c = 32 \<or> c = 0x85 \<or> c = 0xA0 \<or> c = 0x1680
     \<or> (0x2000 \<le> c \<and> c \<le> 0x200A) \<or> c = 0x2028 \<or> c = 0x2029 \<or> c = 0x202F \<or> c = 0x205F \<or> c = 0x3000"

definition is_control :: "uchar \<Rightarrow> bool" where
  "is_control c \<longleftrightarrow> c < 32 \<or> (0x7F \<le> c \<and> c \<le> 0x9F)"

definition is_ascii_digit :: "uchar \<Rightarrow> bool" where
  "is_ascii_digit c \<longleftrightarrow> 48 \<le> c \<and> c \<le> 57"

definition is_ascii_uppercase :: "uchar \<Rightarrow> bool" where
  "is_ascii_uppercase c \<longleftrightarrow> 65 \<le> c \<and> c \<le> 90"

definition is_ascii_lowercase :: "uchar \<Rightarrow> bool" where
  "is_ascii_lowercase c \<longleftrightarrow> 97 \<le> c \<and> c \<le> 122"

definition is_ascii_hexdigit :: "uchar \<Rightarrow> bool" where
  "is_ascii_hexdigit c \<longleftrightarrow> is_ascii_digit c \<or> (65 \<le> c \<and> c \<le> 70) \<or> (97 \<le> c \<and> c \<le> 102)"

definition is_ascii_alphanumeric :: "uchar \<Rightarrow> bool" where
  "is_ascii_alphanumeric c \<longleftrightarrow> is_ascii_digit c \<or> is_ascii_uppercase c \<or> is_ascii_lowercase c"

lemmas ascii_defs = is_ascii_digit_def is_ascii_uppercase_def is_ascii_lowercase_def
  is_ascii_hexdigit_def is_ascii_alphanumeric_def is_whitespace_def is_control_def

definition to_lower :: "uchar \<Rightarrow> uchar" where
  "to_lower c = (if is_ascii_uppercase c then c + 32 else c)"

definition to_upper :: "uchar \<Rightarrow> uchar" where
  "to_upper c = (if is_ascii_lowercase c then c - 32 else c)"

definition to_ascii_lowercase :: "ustring \<Rightarrow> ustring" where
  "to_ascii_lowercase s = map to_lower s"

definition to_ascii_uppercase :: "ustring \<Rightarrow> ustring" where
  "to_ascii_uppercase s = map to_upper s"

definition eq_ignore_ascii_case :: "ustring \<Rightarrow> ustring \<Rightarrow> bool" where
  "eq_ignore_ascii_case s t \<longleftrightarrow> to_ascii_lowercase s = to_ascii_lowercase t"

subsection \<open>String methods\<close>

definition trim_start :: "ustring \<Rightarrow> ustring" where
  "trim_start s = dropWhile is_whitespace s"

definition trim_end :: "ustring \<Rightarrow> ustring" where
  "trim_end s = rev (dropWhile is_whitespace (rev s))"

definition trim :: "ustring \<Rightarrow> ustring" where
  "trim s = trim_end (trim_start s)"

definition starts_with :: "ustring \<Rightarrow> ustring \<Rightarrow> bool" where
  "starts_with s p \<longleftrightarrow> prefix p s"

definition ends_with :: "ustring \<Rightarrow> ustring \<Rightarrow> bool" where
  "ends_with s p \<longleftrightarrow> suffix p s"

definition strip_prefix :: "ustring \<Rightarrow> ustring \<Rightarrow> ustring option" where
  "strip_prefix s p = (if prefix p s then Some (drop (length p) s) else None)"

definition strip_suffix :: "ustring \<Rightarrow> ustring \<Rightarrow> ustring option" where
  "strip_suffix s p = (if suffix p s then Some (take (length s - length p) s) else None)"

fun contains :: "ustring \<Rightarrow> ustring \<Rightarrow> bool" where
  "contains [] p = (p = [])"
| "contains (c # s) p = (prefix p (c # s) \<or> contains s p)"

definition replace_char :: "uchar \<Rightarrow> uchar \<Rightarrow> ustring \<Rightarrow> ustring" where
  "replace_char a b s = map (\<lambda>c. if c = a then b else c) s"

text \<open>\<^verbatim>\<open>split\<close> on a character predicate; \<^verbatim>\<open>rsplit\<close> yields the same pieces from the right.\<close>

fun split_on :: "(uchar \<Rightarrow> bool) \<Rightarrow> ustring \<Rightarrow> ustring list" where
  "split_on p [] = [[]]"
| "split_on p (c # s) =
     (if p c then [] # split_on p s
      else case split_on p s of [] \<Rightarrow> [[c]] | t # ts \<Rightarrow> (c # t) # ts)"

definition rsplit_on :: "(uchar \<Rightarrow> bool) \<Rightarrow> ustring \<Rightarrow> ustring list" where
  "rsplit_on p s = rev (split_on p s)"

definition is_separator :: "uchar \<Rightarrow> bool" where
  "is_separator c \<longleftrightarrow> c = ch CHR ''/'' \<or> c = 92"

text \<open>\<^verbatim>\<open>lines\<close>: pieces ended by a newline lose it and one carriage return before it; a last piece with
  no newline is kept as it is, and an empty one is no line.\<close>

definition chop_cr :: "ustring \<Rightarrow> ustring" where
  "chop_cr s = (if s \<noteq> [] \<and> last s = 13 then butlast s else s)"

fun lines_of :: "ustring list \<Rightarrow> ustring list" where
  "lines_of [] = []"
| "lines_of [s] = (if s = [] then [] else [s])"
| "lines_of (s # t # ts) = chop_cr s # lines_of (t # ts)"

definition str_lines :: "ustring \<Rightarrow> ustring list" where
  "str_lines s = lines_of (split_on (\<lambda>c. c = 10) s)"

fun join :: "ustring \<Rightarrow> ustring list \<Rightarrow> ustring" where
  "join sep [] = []"
| "join sep [s] = s"
| "join sep (s # t # ts) = s @ sep @ join sep (t # ts)"

lemma to_lower_idem [simp]: "to_lower (to_lower c) = to_lower c"
  by (simp add: to_lower_def is_ascii_uppercase_def)

lemma to_ascii_lowercase_idem [simp]:
  "to_ascii_lowercase (to_ascii_lowercase s) = to_ascii_lowercase s"
  by (simp add: to_ascii_lowercase_def)

lemma length_to_ascii_lowercase [simp]: "length (to_ascii_lowercase s) = length s"
  by (simp add: to_ascii_lowercase_def)

lemma length_to_ascii_uppercase [simp]: "length (to_ascii_uppercase s) = length s"
  by (simp add: to_ascii_uppercase_def)

lemma to_ascii_lowercase_no_upper: "c \<in> set (to_ascii_lowercase s) \<Longrightarrow> \<not> is_ascii_uppercase c"
  by (auto simp: to_ascii_lowercase_def to_lower_def is_ascii_uppercase_def)

lemma whitespace_to_lower [simp]: "is_whitespace (to_lower c) = is_whitespace c"
  by (auto simp: to_lower_def is_ascii_uppercase_def is_whitespace_def)

lemma set_trim_start: "set (trim_start s) \<subseteq> set s"
  by (auto simp: trim_start_def dest: set_dropWhileD)

lemma set_trim_end: "set (trim_end s) \<subseteq> set s"
  by (auto simp: trim_end_def dest: set_dropWhileD)

lemma set_trim: "set (trim s) \<subseteq> set s"
  using set_trim_end [of "trim_start s"] set_trim_start [of s] by (auto simp: trim_def)

lemma length_trim: "length (trim s) \<le> length s"
proof -
  have "length (dropWhile P xs) \<le> length xs" for P and xs :: ustring
    by (rule length_dropWhile_le)
  then show ?thesis unfolding trim_def trim_end_def trim_start_def
    by (metis length_rev order_trans)
qed

lemma map_trim:
  assumes "\<And>c. is_whitespace (f c) = is_whitespace c"
  shows "trim (map f s) = map f (trim s)"
proof -
  have eq: "is_whitespace \<circ> f = is_whitespace" using assms by auto
  have *: "dropWhile is_whitespace (map f t) = map f (dropWhile is_whitespace t)" for t
    by (simp add: dropWhile_map eq)
  show ?thesis
    by (simp add: trim_def trim_start_def trim_end_def * rev_map)
qed

lemma trim_to_ascii_lowercase: "trim (to_ascii_lowercase s) = to_ascii_lowercase (trim s)"
  unfolding to_ascii_lowercase_def by (rule map_trim) simp

lemma dropWhile_set_iff:
  "(\<forall>c \<in> set (dropWhile P s). P c) \<longleftrightarrow> (\<forall>c \<in> set s. P c)"
  by (induction s) auto

lemma trim_eq_Nil: "trim s = [] \<longleftrightarrow> (\<forall>c \<in> set s. is_whitespace c)"
  by (simp add: trim_def trim_end_def trim_start_def dropWhile_set_iff)

lemma trim_Nil [simp]: "trim [] = []"
  by (simp add: trim_eq_Nil)

lemma trim_end_no_trailing: "trim_end s \<noteq> [] \<Longrightarrow> \<not> is_whitespace (last (trim_end s))"
  unfolding trim_end_def
  by (metis hd_dropWhile last_rev rev_is_Nil_conv dropWhile_eq_Nil_conv)

lemma trim_end_prefix: "prefix (trim_end s) s"
proof -
  have "s = rev (dropWhile is_whitespace (rev s)) @ rev (takeWhile is_whitespace (rev s))"
    by (metis rev_append rev_rev_ident takeWhile_dropWhile_id)
  then show ?thesis unfolding trim_end_def by (metis prefixI)
qed

lemma trim_start_suffix: "suffix (trim_start s) s"
  unfolding trim_start_def by (rule suffix_dropWhile)

lemma trim_end_idem [simp]: "trim_end (trim_end s) = trim_end s"
  by (simp add: trim_end_def)

lemma hd_trim: "trim s \<noteq> [] \<Longrightarrow> \<not> is_whitespace (hd (trim s))"
proof -
  assume ne: "trim s \<noteq> []"
  obtain t where t: "trim_start s = trim s @ t"
    using trim_end_prefix [of "trim_start s"] by (auto simp: trim_def prefix_def)
  with ne have "hd (trim s) = hd (trim_start s)" by simp
  moreover have "trim_start s \<noteq> []" using t ne by auto
  ultimately show ?thesis unfolding trim_start_def by (simp add: hd_dropWhile)
qed

lemma trim_idem [simp]: "trim (trim s) = trim s"
proof (cases "trim s = []")
  case True
  then show ?thesis by simp
next
  case False
  then have "trim_start (trim s) = trim s"
    unfolding trim_start_def using hd_trim [OF False]
    by (cases "trim s") simp_all
  then have "trim (trim s) = trim_end (trim s)" by (simp add: trim_def [of "trim s"])
  also have "\<dots> = trim s" by (simp add: trim_def)
  finally show ?thesis .
qed

lemma split_on_nonempty [simp]: "split_on p s \<noteq> []"
  by (induction s) (auto split: list.splits)

lemma set_split_on: "t \<in> set (split_on p s) \<Longrightarrow> c \<in> set t \<Longrightarrow> c \<in> set s \<and> \<not> p c"
proof (induction s arbitrary: t)
  case (Cons a s)
  then show ?case by (cases "split_on p s") (fastforce split: if_splits)+
qed simp

lemma length_split_on: "t \<in> set (split_on p s) \<Longrightarrow> length t \<le> length s"
proof (induction s arbitrary: t)
  case (Cons a s)
  then show ?case by (cases "split_on p s") (fastforce split: if_splits)+
qed simp

lemma length_strip_suffix: "strip_suffix s p = Some t \<Longrightarrow> length t \<le> length s \<and> set t \<subseteq> set s"
  by (auto simp: strip_suffix_def split: if_splits dest: in_set_takeD)

lemma suffix_iff_drop: "suffix p s \<longleftrightarrow> length p \<le> length s \<and> drop (length s - length p) s = p"
  by (metis append_eq_conv_conj append_take_drop_id length_drop suffix_def suffix_length_le
      diff_diff_cancel length_append add_diff_cancel_right')

lemma contains_iff: "contains s p \<longleftrightarrow> (\<exists>xs ys. s = xs @ p @ ys)"
proof (induction s)
  case (Cons c s)
  have "(\<exists>xs ys. c # s = xs @ p @ ys) \<longleftrightarrow> prefix p (c # s) \<or> (\<exists>xs ys. s = xs @ p @ ys)"
    by (auto simp: prefix_def Cons_eq_append_conv)
  with Cons.IH show ?case by simp
qed auto

subsection \<open>Hexadecimal text\<close>

definition hex_lower :: "nat \<Rightarrow> uchar" where
  "hex_lower d = (if d < 10 then 48 + d else 87 + d)"

definition hex_upper :: "nat \<Rightarrow> uchar" where
  "hex_upper d = (if d < 10 then 48 + d else 55 + d)"

text \<open>\<open>to_hex\<close> is \<^verbatim>\<open>{:x}\<close> (with \<open>hex_upper\<close>: \<^verbatim>\<open>{:X}\<close>); \<open>pad_hex\<close> adds the leading zeros of \<^verbatim>\<open>{:0wX}\<close>.\<close>

fun to_hex :: "(nat \<Rightarrow> uchar) \<Rightarrow> nat \<Rightarrow> ustring" where
  "to_hex dig n = (if n < 16 then [dig n] else to_hex dig (n div 16) @ [dig (n mod 16)])"

declare to_hex.simps [simp del]

definition pad_hex :: "(nat \<Rightarrow> uchar) \<Rightarrow> nat \<Rightarrow> nat \<Rightarrow> ustring" where
  "pad_hex dig w n = replicate (w - length (to_hex dig n)) (ch CHR ''0'') @ to_hex dig n"

definition hex_value :: "uchar \<Rightarrow> nat option" where
  "hex_value c =
     (if is_ascii_digit c then Some (c - 48)
      else if 97 \<le> c \<and> c \<le> 102 then Some (c - 87)
      else if 65 \<le> c \<and> c \<le> 70 then Some (c - 55)
      else None)"

text \<open>\<^verbatim>\<open>u64::from_str_radix(s, 16)\<close>: one leading \<^verbatim>\<open>+\<close> is accepted, no digit or an overflow is an error.\<close>

fun hex_digits :: "nat \<Rightarrow> ustring \<Rightarrow> nat option" where
  "hex_digits acc [] = Some acc"
| "hex_digits acc (c # s) =
     (case hex_value c of None \<Rightarrow> None
      | Some d \<Rightarrow> if acc * 16 + d \<le> u64_max then hex_digits (acc * 16 + d) s else None)"

definition parse_hex_u64 :: "ustring \<Rightarrow> nat option" where
  "parse_hex_u64 s =
     (let t = (if s \<noteq> [] \<and> hd s = ch CHR ''+'' then tl s else s)
      in if t = [] then None else hex_digits 0 t)"

lemma hex_value_digits [simp]:
  "d < 16 \<Longrightarrow> hex_value (hex_lower d) = Some d"
  "d < 16 \<Longrightarrow> hex_value (hex_upper d) = Some d"
  by (auto simp: hex_value_def hex_lower_def hex_upper_def is_ascii_digit_def)

lemma hex_value_less: "hex_value c = Some d \<Longrightarrow> d < 16"
  by (auto simp: hex_value_def is_ascii_digit_def split: if_splits)

lemma to_hex_nonempty [simp]: "to_hex dig n \<noteq> []"
  by (subst to_hex.simps) simp

lemma hex_digits_append:
  "hex_digits acc (s @ t) = (case hex_digits acc s of None \<Rightarrow> None | Some v \<Rightarrow> hex_digits v t)"
  by (induction s arbitrary: acc) (auto split: option.splits)

lemma hex_digits_zeros: "hex_digits 0 (replicate k (ch CHR ''0'') @ s) = hex_digits 0 s"
  by (induction k) (simp_all add: hex_value_def is_ascii_digit_def)

lemma hex_digits_to_hex:
  assumes dig: "\<And>d. d < 16 \<Longrightarrow> hex_value (dig d) = Some d" and "n \<le> u64_max"
  shows "hex_digits 0 (to_hex dig n) = Some n"
  using assms(2)
proof (induction n rule: less_induct)
  case (less n)
  show ?case
  proof (cases "n < 16")
    case True
    with less.prems show ?thesis by (subst to_hex.simps) (simp add: dig)
  next
    case False
    then have "n div 16 < n" and "n div 16 \<le> u64_max" using less.prems by auto
    then have IH: "hex_digits 0 (to_hex dig (n div 16)) = Some (n div 16)" by (rule less.IH)
    have "n div 16 * 16 + n mod 16 = n" by simp
    with False IH less.prems show ?thesis
      by (subst to_hex.simps) (simp add: hex_digits_append dig)
  qed
qed

lemma to_hex_chars: "c \<in> set (to_hex dig n) \<Longrightarrow> \<exists>d < 16. c = dig d"
proof (induction n rule: less_induct)
  case (less n)
  show ?case
  proof (cases "n < 16")
    case True
    with less.prems show ?thesis by (subst (asm) to_hex.simps) auto
  next
    case False
    with less.prems consider "c \<in> set (to_hex dig (n div 16))" | "c = dig (n mod 16)"
      by (subst (asm) to_hex.simps) auto
    then show ?thesis
    proof cases
      case 1
      with False show ?thesis by (intro less.IH [of "n div 16"]) auto
    next
      case 2
      then show ?thesis by (intro exI [of _ "n mod 16"]) simp
    qed
  qed
qed

lemma pad_hex_nonempty [simp]: "pad_hex dig w n \<noteq> []"
  by (simp add: pad_hex_def)

lemma parse_hex_pad:
  assumes dig: "\<And>d. d < 16 \<Longrightarrow> hex_value (dig d) = Some d" and "n \<le> u64_max"
  shows "parse_hex_u64 (pad_hex dig w n) = Some n"
proof -
  have "hd (pad_hex dig w n) \<in> set (pad_hex dig w n)" by simp
  then consider "hd (pad_hex dig w n) = ch CHR ''0''"
    | d where "d < 16" "hd (pad_hex dig w n) = dig d"
    using to_hex_chars [of _ dig n] unfolding pad_hex_def by fastforce
  then have "hex_value (hd (pad_hex dig w n)) \<noteq> None"
  proof cases
    case 1
    then show ?thesis by (simp add: hex_value_def is_ascii_digit_def)
  next
    case (2 d)
    then show ?thesis by (simp add: dig)
  qed
  then have "hd (pad_hex dig w n) \<noteq> ch CHR ''+''"
    by (auto simp: hex_value_def is_ascii_digit_def)
  moreover have "hex_digits 0 (pad_hex dig w n) = Some n"
    unfolding pad_hex_def hex_digits_zeros using assms by (rule hex_digits_to_hex)
  ultimately show ?thesis by (simp add: parse_hex_u64_def Let_def)
qed

lemma parse_hex_to_hex:
  assumes "\<And>d. d < 16 \<Longrightarrow> hex_value (dig d) = Some d" and "n \<le> u64_max"
  shows "parse_hex_u64 (to_hex dig n) = Some n"
  using parse_hex_pad [OF assms, of 0] by (simp add: pad_hex_def)

lemma hex_digits_le: "hex_digits acc s = Some n \<Longrightarrow> acc \<le> u64_max \<Longrightarrow> n \<le> u64_max"
  by (induction acc s rule: hex_digits.induct) (auto split: option.splits if_splits)

lemma parse_hex_u64_le: "parse_hex_u64 s = Some n \<Longrightarrow> n \<le> u64_max"
  by (auto simp: parse_hex_u64_def Let_def split: if_splits dest!: hex_digits_le)

end
