(* ===== verification/Ordered_Map.thy ===== *)
theory Ordered_Map
  imports Rust_Text
begin

section \<open>Ordered maps\<close>

text \<open>
  Rust's \<^verbatim>\<open>BTreeMap\<close> (also the map of \<^verbatim>\<open>serde_json::Value::Object\<close>) as the list of its entries in key
  order. \<open>om_alter k f\<close> is the entry API: \<^verbatim>\<open>entry(k).or_default()\<close> followed by an update. The locale
  \<open>entry_map\<close> states what clients use (what a lookup returns after an update, and that updates keep the
  order); its lemmas on maps that collect values per key are proved once and used through the
  interpretation on the list model.
\<close>

type_synonym ('k, 'v) ordered_map = "('k \<times> 'v) list"

definition om_get :: "('k, 'v) ordered_map \<Rightarrow> 'k \<Rightarrow> 'v option" where
  "om_get m k = map_of m k"

fun om_alter :: "'k :: linorder \<Rightarrow> ('v option \<Rightarrow> 'v) \<Rightarrow> ('k, 'v) ordered_map \<Rightarrow> ('k, 'v) ordered_map" where
  "om_alter k f [] = [(k, f None)]"
| "om_alter k f ((k', v) # m) =
     (if k < k' then (k, f None) # (k', v) # m
      else if k = k' then (k, f (Some v)) # m
      else (k', v) # om_alter k f m)"

definition om_keys :: "('k, 'v) ordered_map \<Rightarrow> 'k list" where
  "om_keys m = map fst m"

definition om_wf :: "('k :: linorder, 'v) ordered_map \<Rightarrow> bool" where
  "om_wf m \<longleftrightarrow> sorted_wrt (<) (om_keys m)"

text \<open>\<^verbatim>\<open>BTreeMap::insert\<close> and collecting entries into a map.\<close>

definition om_insert :: "'k :: linorder \<Rightarrow> 'v \<Rightarrow> ('k, 'v) ordered_map \<Rightarrow> ('k, 'v) ordered_map" where
  "om_insert k v m = om_alter k (\<lambda>_. v) m"

definition om_of_list :: "('k :: linorder \<times> 'v) list \<Rightarrow> ('k, 'v) ordered_map" where
  "om_of_list kvs = fold (\<lambda>(k, v). om_insert k v) kvs []"

subsection \<open>The entry interface\<close>

locale entry_map =
  fixes empty :: "'m"
    and get :: "'m \<Rightarrow> 'k \<Rightarrow> 'v option"
    and alter :: "'k \<Rightarrow> ('v option \<Rightarrow> 'v) \<Rightarrow> 'm \<Rightarrow> 'm"
    and wf :: "'m \<Rightarrow> bool"
  assumes get_empty: "get empty k = None"
    and wf_empty: "wf empty"
    and get_alter: "wf m \<Longrightarrow> get (alter k f m) k' = (if k' = k then Some (f (get m k)) else get m k')"
    and wf_alter: "wf m \<Longrightarrow> wf (alter k f m)"
begin

lemma wf_fold_alter: "wf m \<Longrightarrow> wf (fold (\<lambda>x. alter (key x) (upd x)) xs m)"
  by (induction xs arbitrary: m) (simp_all add: wf_alter)

text \<open>A loop over \<^verbatim>\<open>entry(key(x)).or_default()\<close> with an update by \<open>x\<close>: at key \<open>k\<close> it has run the
  updates of the elements with that key, in order, and no others.\<close>

lemma get_fold_alter:
  assumes "wf m"
  shows "get (fold (\<lambda>x. alter (key x) (upd x)) xs m) k
    = fold (\<lambda>x v. Some (upd x v)) (filter (\<lambda>x. key x = k) xs) (get m k)"
  using assms by (induction xs arbitrary: m) (auto simp: wf_alter get_alter)

end

lemma om_keys_alter: "set (om_keys (om_alter k f m)) = insert k (set (om_keys m))"
  by (induction k f m rule: om_alter.induct) (auto simp: om_keys_def)

lemma om_wf_alter: "om_wf m \<Longrightarrow> om_wf (om_alter k f m)"
proof (induction k f m rule: om_alter.induct)
  case (2 k f k' v m)
  have "om_wf m" and lt: "\<forall>x \<in> set (om_keys m). k' < x"
    using "2.prems" by (auto simp: om_wf_def om_keys_def)
  show ?case
  proof (cases "k' < k")
    case True
    then have "om_wf (om_alter k f m)" using 2 \<open>om_wf m\<close> by auto
    moreover have "\<forall>x \<in> set (om_keys (om_alter k f m)). k' < x"
      using lt True by (simp add: om_keys_alter)
    ultimately show ?thesis using True by (auto simp: om_wf_def om_keys_def)
  next
    case False
    with "2.prems" show ?thesis by (auto simp: om_wf_def om_keys_def not_less_iff_gr_or_eq)
  qed
qed (simp add: om_wf_def om_keys_def)

lemma om_get_less: "om_wf ((k', v) # m) \<Longrightarrow> k < k' \<Longrightarrow> om_get m k = None"
  by (auto simp: om_wf_def om_keys_def om_get_def map_of_eq_None_iff)

lemma om_get_alter:
  "om_wf m \<Longrightarrow> om_get (om_alter k f m) k' = (if k' = k then Some (f (om_get m k)) else om_get m k')"
proof (induction k f m rule: om_alter.induct)
  case (2 k f k'' v m)
  have "om_wf m" using "2.prems" by (auto simp: om_wf_def om_keys_def)
  with 2 om_get_less [OF "2.prems"] show ?case by (auto simp: om_get_def)
qed (simp add: om_get_def)

interpretation om: entry_map "[]" om_get om_alter om_wf
proof unfold_locales
  show "om_get [] k = None" for k :: 'a by (simp add: om_get_def)
  show "om_wf []" by (simp add: om_wf_def om_keys_def)
qed (simp_all add: om_get_alter om_wf_alter)

subsection \<open>Further facts of the list model\<close>

lemma om_get_Cons: "om_get ((k, v) # m) k' = (if k' = k then Some v else om_get m k')"
  by (simp add: om_get_def)

lemma om_get_None: "om_get m k = None \<longleftrightarrow> k \<notin> set (om_keys m)"
  by (auto simp: om_get_def om_keys_def map_of_eq_None_iff)

lemma om_wf_distinct: "om_wf m \<Longrightarrow> distinct (om_keys m)"
  by (auto simp: om_wf_def intro: strict_sorted_iff [THEN iffD1, THEN conjunct2])

lemma om_wf_insert: "om_wf m \<Longrightarrow> om_wf (om_insert k v m)"
  by (simp add: om_insert_def om_wf_alter)

lemma om_get_insert: "om_wf m \<Longrightarrow> om_get (om_insert k v m) k' = (if k' = k then Some v else om_get m k')"
  by (simp add: om_insert_def om_get_alter)

lemma om_length_alter:
  "om_wf m \<Longrightarrow> k \<notin> set (om_keys m) \<Longrightarrow> length (om_alter k f m) = Suc (length m)"
proof (induction k f m rule: om_alter.induct)
  case (2 k f k' v m)
  have "om_wf m" using "2.prems" by (auto simp: om_wf_def om_keys_def)
  with 2 show ?case by (auto simp: om_keys_def)
qed simp

lemma om_insert_step:
  assumes "om_wf m" and "distinct (map fst ((k, v) # kvs))"
    and "set (map fst ((k, v) # kvs)) \<inter> set (om_keys m) = {}"
  shows "om_wf (om_insert k v m)" and "distinct (map fst kvs)"
    and "set (map fst kvs) \<inter> set (om_keys (om_insert k v m)) = {}"
proof -
  show "om_wf (om_insert k v m)" using assms(1) by (rule om_wf_insert)
  show "distinct (map fst kvs)" using assms(2) by simp
  have "k \<notin> set (map fst kvs)" using assms(2) by simp
  then show "set (map fst kvs) \<inter> set (om_keys (om_insert k v m)) = {}"
    using assms(3) by (simp add: om_insert_def om_keys_alter)
qed

lemma om_of_list_facts:
  assumes "om_wf m" and "distinct (map fst kvs)" and "set (map fst kvs) \<inter> set (om_keys m) = {}"
  shows "om_wf (fold (\<lambda>(k, v). om_insert k v) kvs m)"
    and "om_get (fold (\<lambda>(k, v). om_insert k v) kvs m) k
      = (case map_of kvs k of Some v \<Rightarrow> Some v | None \<Rightarrow> om_get m k)"
    and "length (fold (\<lambda>(k, v). om_insert k v) kvs m) = length kvs + length m"
    and "set (om_keys (fold (\<lambda>(k, v). om_insert k v) kvs m)) = set (map fst kvs) \<union> set (om_keys m)"
  using assms
proof (induction kvs arbitrary: m)
  case (Cons kv kvs)
  obtain k' v' where kv: "kv = (k', v')" by (cases kv)
  let ?m = "om_insert k' v' m"
  { case 1
    note m = om_insert_step [OF 1 [unfolded kv]]
    show ?case using Cons.IH(1) [OF m] kv by simp }
  { case 2
    note m = om_insert_step [OF 2 [unfolded kv]]
    have "map_of kvs k' = None" using 2 kv by (auto simp: map_of_eq_None_iff)
    then show ?case using Cons.IH(2) [OF m] kv 2 by (auto simp: om_get_insert split: option.splits) }
  { case 3
    note m = om_insert_step [OF 3 [unfolded kv]]
    show ?case using Cons.IH(3) [OF m] kv 3 by (auto simp: om_length_alter om_insert_def) }
  { case 4
    note m = om_insert_step [OF 4 [unfolded kv]]
    show ?case using Cons.IH(4) [OF m] kv by (auto simp: om_insert_def om_keys_alter) }
qed (simp_all)

lemma om_of_list_simps:
  assumes "distinct (map fst kvs)"
  shows "om_wf (om_of_list kvs)"
    and "om_get (om_of_list kvs) k = map_of kvs k"
    and "length (om_of_list kvs) = length kvs"
    and "set (om_keys (om_of_list kvs)) = set (map fst kvs)"
  using om_of_list_facts [OF om.wf_empty assms]
  by (auto simp: om_of_list_def om_get_def om_keys_def split: option.splits)

lemma om_get_mem: "om_get m k = Some v \<Longrightarrow> (k, v) \<in> set m"
  by (auto simp: om_get_def dest: map_of_SomeD)

lemma om_mem_get: "om_wf m \<Longrightarrow> (k, v) \<in> set m \<Longrightarrow> om_get m k = Some v"
  using om_wf_distinct [of m] by (auto simp: om_get_def om_keys_def)

end
