(* ===== verification/Json_Value.thy ===== *)
theory Json_Value
  imports Ordered_Map
begin

section \<open>JSON values\<close>

text \<open>
  \<^verbatim>\<open>serde_json::Value\<close> as the crates use it: the constructors, the accessors (\<^verbatim>\<open>as_str\<close>, \<^verbatim>\<open>as_u64\<close>, ...) and
  the objects that \<^verbatim>\<open>derive(Serialize)\<close> builds. An object is a map in key order (the crate's default, a
  \<^verbatim>\<open>BTreeMap\<close>), so two objects with the same entries are equal. A number is an unsigned integer, a
  negative integer or a float, given by its bits. Turning text into values is the library's parser and
  stays a parameter of the functions that read bytes.
\<close>

datatype json_number = PosInt nat | NegInt int | Float "64 word"

datatype json =
  JNull
| JBool bool
| JNumber json_number
| JString ustring
| JArray "json list"
| JObject "(ustring \<times> json) list"

type_synonym json_map = "(ustring, json) ordered_map"

subsection \<open>Accessors\<close>

fun as_object :: "json \<Rightarrow> json_map option" where
  "as_object (JObject m) = Some m"
| "as_object _ = None"

fun as_array :: "json \<Rightarrow> json list option" where
  "as_array (JArray vs) = Some vs"
| "as_array _ = None"

fun as_str :: "json \<Rightarrow> ustring option" where
  "as_str (JString s) = Some s"
| "as_str _ = None"

fun as_u64 :: "json \<Rightarrow> nat option" where
  "as_u64 (JNumber (PosInt n)) = Some n"
| "as_u64 _ = None"

fun as_bool :: "json \<Rightarrow> bool option" where
  "as_bool (JBool b) = Some b"
| "as_bool _ = None"

definition is_null :: "json \<Rightarrow> bool" where "is_null v \<longleftrightarrow> v = JNull"
definition is_string :: "json \<Rightarrow> bool" where "is_string v \<longleftrightarrow> as_str v \<noteq> None"
definition is_u64 :: "json \<Rightarrow> bool" where "is_u64 v \<longleftrightarrow> as_u64 v \<noteq> None"
definition is_array :: "json \<Rightarrow> bool" where "is_array v \<longleftrightarrow> as_array v \<noteq> None"
definition is_object :: "json \<Rightarrow> bool" where "is_object v \<longleftrightarrow> as_object v \<noteq> None"

text \<open>\<^verbatim>\<open>Value::get(key)\<close>: \<open>None\<close> for a value that is no object.\<close>

definition json_get :: "json \<Rightarrow> ustring \<Rightarrow> json option" where
  "json_get v k = Option.bind (as_object v) (\<lambda>m. om_get m k)"

text \<open>A field of an object, read with an accessor: \<^verbatim>\<open>m.get(k).and_then(f)\<close>.\<close>

definition get_as :: "(json \<Rightarrow> 'a option) \<Rightarrow> json_map \<Rightarrow> ustring \<Rightarrow> 'a option" where
  "get_as f m k = Option.bind (om_get m k) f"

subsection \<open>Serialized values\<close>

text \<open>A struct is serialized field by field; a field with \<^verbatim>\<open>skip_serializing_if = "Option::is_none"\<close>
  only when it is there.\<close>

definition struct_map :: "(string \<times> json) list \<Rightarrow> json_map" where
  "struct_map kvs = om_of_list (map (\<lambda>(k, v). (lit k, v)) kvs)"

definition struct_json :: "(string \<times> json) list \<Rightarrow> json" where
  "struct_json kvs = JObject (struct_map kvs)"

definition unless_none :: "string \<Rightarrow> ('a \<Rightarrow> json) \<Rightarrow> 'a option \<Rightarrow> (string \<times> json) list" where
  "unless_none k f v = (case v of None \<Rightarrow> [] | Some a \<Rightarrow> [(k, f a)])"

definition nat_json :: "nat \<Rightarrow> json" where "nat_json n = JNumber (PosInt n)"

definition option_json :: "('a \<Rightarrow> json) \<Rightarrow> 'a option \<Rightarrow> json" where
  "option_json f v = (case v of None \<Rightarrow> JNull | Some a \<Rightarrow> f a)"

definition list_json :: "('a \<Rightarrow> json) \<Rightarrow> 'a list \<Rightarrow> json" where
  "list_json f vs = JArray (map f vs)"

definition map_json :: "('a \<Rightarrow> json) \<Rightarrow> (ustring, 'a) ordered_map \<Rightarrow> json" where
  "map_json f m = JObject (map (\<lambda>(k, v). (k, f v)) m)"

subsection \<open>Facts\<close>

lemma is_json_simps [json_simps]:
  "is_null JNull" "\<not> is_null (JString s)" "\<not> is_null (JNumber n)" "\<not> is_null (JObject m)" "\<not> is_null (JArray vs)"
  "is_string (JString s)" "\<not> is_string JNull" "\<not> is_string (JNumber n)" "\<not> is_string (JObject m)" "\<not> is_string (JArray vs)"
  "is_u64 (nat_json i)" "\<not> is_u64 JNull" "\<not> is_u64 (JString s)"
  "is_array (JArray vs)" "is_array (list_json f xs)" "is_object (JObject m)" "is_object (struct_json kvs)"
  "\<not> is_null (struct_json kvs)" "\<not> is_null (nat_json i)"
  by (simp_all add: struct_json_def is_null_def is_string_def is_u64_def is_array_def is_object_def nat_json_def list_json_def)

lemma as_json_simps [json_simps]:
  "as_u64 (nat_json n) = Some n"
  "as_array (list_json f xs) = Some (map f xs)"
  "as_object (map_json g m) = Some (map (\<lambda>(k, v). (k, g v)) m)"
  by (simp_all add: nat_json_def list_json_def map_json_def)

lemma map_fst_lit_keys: "map fst (map (\<lambda>(k, v). (lit k, v)) kvs) = map lit (map fst kvs)"
  by (induction kvs) auto

lemma distinct_lit_keys: "distinct (map fst (map (\<lambda>(k, v). (lit k, v)) kvs)) = distinct (map fst kvs)"
  unfolding map_fst_lit_keys by (subst distinct_map) (simp add: inj_on_def)

lemma map_of_lit_keys: "map_of (map (\<lambda>(k, v). (lit k, v)) kvs) (lit k) = map_of kvs k"
  by (induction kvs) auto

text \<open>Reading a serialized struct back.\<close>

lemma struct_map_facts:
  assumes "distinct (map fst kvs)"
  shows "om_wf (struct_map kvs)" and "om_get (struct_map kvs) (lit k) = map_of kvs k"
    and "length (struct_map kvs) = length kvs" and "set (om_keys (struct_map kvs)) = lit ` set (map fst kvs)"
proof -
  note m = om_of_list_simps [OF assms [folded distinct_lit_keys], folded struct_map_def]
  show "om_wf (struct_map kvs)" by (rule m(1))
  show "om_get (struct_map kvs) (lit k) = map_of kvs k" using m(2) by (simp add: map_of_lit_keys)
  show "length (struct_map kvs) = length kvs" using m(3) by simp
  show "set (om_keys (struct_map kvs)) = lit ` set (map fst kvs)" using m(4) unfolding map_fst_lit_keys set_map .
qed

lemma as_object_struct [json_simps]: "as_object (struct_json kvs) = Some (struct_map kvs)"
  by (simp add: struct_json_def)

lemma struct_json_get:
  "distinct (map fst kvs) \<Longrightarrow> json_get (struct_json kvs) (lit k) = map_of kvs k"
  by (simp add: json_get_def as_object_struct struct_map_facts)

text \<open>A struct is determined by its fields.\<close>

lemma struct_json_inject:
  assumes "map fst kvs = map fst kvs'" and "distinct (map fst kvs)" and "struct_json kvs = struct_json kvs'"
  shows "kvs = kvs'"
proof (rule nth_equalityI)
  show len: "length kvs = length kvs'" using assms(1) by (rule map_eq_imp_length_eq)
  fix i assume i: "i < length kvs"
  have keys: "fst (kvs ! i) = fst (kvs' ! i)" using assms(1) i len by (metis nth_map)
  have "map_of kvs (fst (kvs ! i)) = Some (snd (kvs ! i))" "map_of kvs' (fst (kvs' ! i)) = Some (snd (kvs' ! i))"
    using assms i len by (simp_all add: map_of_eq_Some_iff)
  moreover have "map_of kvs k = map_of kvs' k" for k
    using assms struct_json_get [of kvs k] struct_json_get [of kvs' k] by simp
  ultimately show "kvs ! i = kvs' ! i" using keys by (simp add: prod_eq_iff)
qed

lemma option_json_cases [json_simps]:
  "option_json f None = JNull" "option_json f (Some a) = f a"
  by (simp_all add: option_json_def)

lemma unless_none_simps [json_simps]:
  "unless_none k f None = []" "unless_none k f (Some a) = [(k, f a)]"
  by (simp_all add: unless_none_def)

lemma map_json_values: "(k, v) \<in> set (map (\<lambda>(k, v). (k, f v)) m) \<Longrightarrow> \<exists>a. v = f a"
  by auto

end
