(* ===== verification/Bounded_Readers.thy ===== *)
theory Bounded_Readers
  imports FL_Prelude
begin

section \<open>Bounded readers (crates/unreal, request.rs)\<close>

text \<open>
  The two counting readers of \<^verbatim>\<open>crates/unreal/src/request.rs\<close> and \<^verbatim>\<open>Read::read_exact\<close>. A reader is a
  function from its state and a buffer size to a result and the next state. The source of the
  compressed bytes and the zlib decoder between the two readers are parameters: \<open>'r\<close> with a read
  function, and the record \<open>zlib\<close> over any decoder state \<open>'d\<close> that owns the compressed reader.

  \<open>read_exact\<close> retries interrupted reads, so it may run forever: it is a partial function and \<open>None\<close>
  is not returning. Two interfaces are stated as locales. \<open>limited_reader\<close> is what a counting reader
  promises whatever it reads from (its count is exact and never passes its limit); both readers are
  interpretations. \<open>byte_stream\<close> is a reader that delivers a known content in chunks of any size;
  reading exactly \<open>n\<close> bytes then returns the next \<open>n\<close> bytes. The expanded reader over a decoder that
  delivers its content within the limits is an interpretation.
\<close>

datatype crash_request_error_kind =
    ReadFailed | CompressedTooLarge | InvalidCompression | ExpandedTooLarge | ExpansionRatioExceeded
  | UnsupportedEnvelope | InvalidHeader | TooManyFiles | FileTooLarge | UnsafeFilename
  | DuplicateCriticalFile | InvalidCrashContextUtf8 | InvalidCrashContext | TruncatedArchive
  | TrailingData | ExpandedSizeMismatch | FileCountMismatch

datatype io_error_kind = InvalidData | InvalidInput | UnexpectedEof | Interrupted | OtherIo

text \<open>An \<^verbatim>\<open>io::Error\<close>: one of the standard kinds, or the \<^verbatim>\<open>ReadLimitError\<close> that \<^verbatim>\<open>limit_error\<close> wraps.\<close>

datatype io_error = IoKind io_error_kind | LimitError crash_request_error_kind

type_synonym 's reader = "'s \<Rightarrow> nat \<Rightarrow> (io_error, byte list) result \<times> 's"

text \<open>What \<^verbatim>\<open>Read\<close> asks of an implementation: no more bytes than the buffer holds.\<close>

definition honest :: "'s reader \<Rightarrow> bool" where
  "honest rd \<longleftrightarrow> (\<forall>s n bs s'. rd s n = (Inr bs, s') \<longrightarrow> length bs \<le> n)"

subsection \<open>The compressed reader\<close>

record 'r compressed_reader =
  cr_inner :: 'r
  cr_limit :: nat
  cr_bytes_read :: nat

definition compressed_new :: "'r \<Rightarrow> nat \<Rightarrow> 'r compressed_reader" where
  "compressed_new input limit = \<lparr>cr_inner = input, cr_limit = limit, cr_bytes_read = 0\<rparr>"

definition compressed_read :: "'r reader \<Rightarrow> 'r compressed_reader reader" where
  "compressed_read rd s n =
     (if n = 0 then (Inr [], s)
      else if cr_bytes_read s = cr_limit s then
        (case rd (cr_inner s) 1 of
           (Inl e, r) \<Rightarrow> (Inl e, s\<lparr>cr_inner := r\<rparr>)
         | (Inr extra, r) \<Rightarrow>
             (if extra = [] then Inr [] else Inl (LimitError CompressedTooLarge), s\<lparr>cr_inner := r\<rparr>))
      else
        (let remaining = cr_limit s - cr_bytes_read s; allowed = min remaining n
         in case rd (cr_inner s) allowed of
              (Inl e, r) \<Rightarrow> (Inl e, s\<lparr>cr_inner := r\<rparr>)
            | (Inr bytes, r) \<Rightarrow>
                (Inr bytes,
                 s\<lparr>cr_inner := r, cr_bytes_read := saturating_add (cr_bytes_read s) (length bytes)\<rparr>)))"

subsection \<open>The expanded reader\<close>

record ('r, 'd) zlib =
  zlib_new :: "'r compressed_reader \<Rightarrow> 'd"
  zlib_read :: "'d reader"
  zlib_source :: "'d \<Rightarrow> 'r compressed_reader"
  zlib_fill_buf :: "'d \<Rightarrow> (io_error, byte list) result \<times> 'd"

record 'd expanded_reader =
  er_inner :: 'd
  er_limit :: nat
  er_ratio :: nat
  er_bytes_read :: nat

text \<open>\<^verbatim>\<open>compressed_bytes_read.get()\<close>, the cell the two readers share.\<close>

definition compressed_count :: "('r, 'd) zlib \<Rightarrow> 'd \<Rightarrow> nat" where
  "compressed_count z d = cr_bytes_read (zlib_source z d)"

definition expanded_read :: "('r, 'd) zlib \<Rightarrow> 'd expanded_reader reader" where
  "expanded_read z s n =
     (if n = 0 then (Inr [], s)
      else if er_bytes_read s = er_limit s then
        (case zlib_read z (er_inner s) 1 of
           (Inl e, d) \<Rightarrow> (Inl e, s\<lparr>er_inner := d\<rparr>)
         | (Inr extra, d) \<Rightarrow>
             (if extra = [] then Inr [] else Inl (LimitError ExpandedTooLarge), s\<lparr>er_inner := d\<rparr>))
      else
        (let remaining = er_limit s - er_bytes_read s; allowed = min remaining n
         in case zlib_read z (er_inner s) allowed of
              (Inl e, d) \<Rightarrow> (Inl e, s\<lparr>er_inner := d\<rparr>)
            | (Inr bytes, d) \<Rightarrow>
                (let s' = s\<lparr>er_inner := d, er_bytes_read := saturating_add (er_bytes_read s) (length bytes)\<rparr>;
                     ratio_limit = saturating_mul (compressed_count z d) (er_ratio s)
                 in if er_bytes_read s' > ratio_limit then (Inl (LimitError ExpansionRatioExceeded), s')
                    else (Inr bytes, s'))))"

subsection \<open>Reading exactly\<close>

partial_function (option) read_exact ::
  "'s reader \<Rightarrow> 's \<Rightarrow> nat \<Rightarrow> ((io_error, byte list) result \<times> 's) option" where
  "read_exact rd s n =
     (if n = 0 then Some (Inr [], s)
      else case rd s n of
        (Inl e, s') \<Rightarrow>
          (if e = IoKind Interrupted then read_exact rd s' n else Some (Inl e, s'))
      | (Inr bytes, s') \<Rightarrow>
          (if bytes = [] then Some (Inl (IoKind UnexpectedEof), s')
           else Option.bind (read_exact rd s' (n - length bytes))
             (\<lambda>(r, s''). Some (bindR r (\<lambda>rest. Inr (bytes @ rest)), s''))))"

text \<open>An induction over the reads that one \<open>read_exact\<close> performs.\<close>

lemma read_exact_induct:
  assumes ret: "read_exact rd s n = Some (r, t)"
    and zero: "\<And>s. P s 0 (Inr []) s"
    and interrupted: "\<And>s n s' r t. 0 < n \<Longrightarrow> rd s n = (Inl (IoKind Interrupted), s') \<Longrightarrow> P s' n r t \<Longrightarrow> P s n r t"
    and failed: "\<And>s n e s'. 0 < n \<Longrightarrow> rd s n = (Inl e, s') \<Longrightarrow> P s n (Inl e) s'"
    and eof: "\<And>s n s'. 0 < n \<Longrightarrow> rd s n = (Inr [], s') \<Longrightarrow> P s n (Inl (IoKind UnexpectedEof)) s'"
    and chunk: "\<And>s n bs s' r t. 0 < n \<Longrightarrow> rd s n = (Inr bs, s') \<Longrightarrow> bs \<noteq> [] \<Longrightarrow>
        P s' (n - length bs) r t \<Longrightarrow> P s n (bindR r (\<lambda>rest. Inr (bs @ rest))) t"
  shows "P s n r t"
proof -
  have "rd = rd \<longrightarrow> P s n (fst (r, t)) (snd (r, t))"
  proof (rule read_exact.raw_induct [where P = "\<lambda>rd' s n rt. rd' = rd \<longrightarrow> P s n (fst rt) (snd rt)", OF _ ret])
    fix f rd' s n and rt :: "(io_error, byte list) result \<times> 'a"
    assume IH: "\<And>rd' s n rt. f rd' s n = Some rt \<Longrightarrow> rd' = rd \<longrightarrow> P s n (fst rt) (snd rt)"
      and eq: "(if n = 0 then Some (Inr [], s)
        else case rd' s n of
          (Inl e, s') \<Rightarrow> (if e = IoKind Interrupted then f rd' s' n else Some (Inl e, s'))
        | (Inr bytes, s') \<Rightarrow> (if bytes = [] then Some (Inl (IoKind UnexpectedEof), s')
            else Option.bind (f rd' s' (n - length bytes))
              (\<lambda>(r, s''). Some (bindR r (\<lambda>rest. Inr (bytes @ rest)), s'')))) = Some rt"
    show "rd' = rd \<longrightarrow> P s n (fst rt) (snd rt)"
    proof
      assume rd: "rd' = rd"
      show "P s n (fst rt) (snd rt)"
      proof (cases "n = 0")
        case True
        with eq zero show ?thesis by auto
      next
        case n: False
        obtain o' s' where o: "rd s n = (o', s')" by (cases "rd s n")
        show ?thesis
        proof (cases o')
          case (Inl e)
          show ?thesis
          proof (cases "e = IoKind Interrupted")
            case True
            then have "f rd s' n = Some rt" using eq rd n o Inl by simp
            then have "P s' n (fst rt) (snd rt)" using IH by blast
            with n o Inl True show ?thesis by (intro interrupted [of n s s']) simp_all
          next
            case False
            then have rt: "rt = (Inl e, s')" using eq rd n o Inl by simp
            show ?thesis unfolding rt fst_conv snd_conv
              using n o Inl by (intro failed) simp_all
          qed
        next
          case (Inr bs)
          with eq rd n o show ?thesis
            using IH [of rd s' "n - length bs"]
            by (auto intro: eof chunk simp: Option.bind_eq_Some_conv split: if_splits)
        qed
      qed
    qed
  qed
  then show ?thesis by simp
qed

subsection \<open>What a counting reader promises\<close>

locale limited_reader =
  fixes read :: "'s reader"
    and count :: "'s \<Rightarrow> nat"
    and limit :: "'s \<Rightarrow> nat"
    and inv :: "'s \<Rightarrow> bool"
  assumes count_le: "inv s \<Longrightarrow> count s \<le> limit s"
    and read_ok: "inv s \<Longrightarrow> read s n = (Inr bs, s') \<Longrightarrow>
          inv s' \<and> limit s' = limit s \<and> length bs \<le> n \<and> count s' = count s + length bs"
    and read_err: "inv s \<Longrightarrow> read s n = (Inl (IoKind k), s') \<Longrightarrow>
          inv s' \<and> limit s' = limit s \<and> count s' = count s"
begin

lemma read_exact_limited:
  assumes "read_exact read s n = Some (Inr bs, t)" and "inv s"
  shows "inv t" and "limit t = limit s" and "length bs = n" and "count t = count s + n"
proof -
  have "inv s \<longrightarrow> (\<forall>cs. Inr bs = (Inr cs :: (io_error, byte list) result) \<longrightarrow>
      inv t \<and> limit t = limit s \<and> length cs = n \<and> count t = count s + n)"
    using assms(1)
  proof (rule read_exact_induct [where P = "\<lambda>s n r t. inv s \<longrightarrow> (\<forall>cs. r = Inr cs \<longrightarrow>
      inv t \<and> limit t = limit s \<and> length cs = n \<and> count t = count s + n)"])
    fix s :: 's and n bs s' and r :: "(io_error, byte list) result" and t
    assume rd: "read s n = (Inr bs, s')"
      and IH: "inv s' \<longrightarrow> (\<forall>cs. r = Inr cs \<longrightarrow> inv t \<and> limit t = limit s' \<and>
        length cs = n - length bs \<and> count t = count s' + (n - length bs))"
    show "inv s \<longrightarrow> (\<forall>cs. bindR r (\<lambda>rest. Inr (bs @ rest)) = Inr cs \<longrightarrow>
        inv t \<and> limit t = limit s \<and> length cs = n \<and> count t = count s + n)"
      using IH read_ok [OF _ rd] by (auto simp: result_simps)
  qed (auto dest: read_err)
  with assms(2) show "inv t" and "limit t = limit s" and "length bs = n" and "count t = count s + n"
    by blast+
qed

end

definition compressed_inv :: "'r reader \<Rightarrow> 'r compressed_reader \<Rightarrow> bool" where
  "compressed_inv rd s \<longleftrightarrow> honest rd \<and> cr_bytes_read s \<le> cr_limit s \<and> cr_limit s \<le> u64_max"

lemma honestD: "honest rd \<Longrightarrow> rd s n = (Inr bs, s') \<Longrightarrow> length bs \<le> n"
  by (auto simp: honest_def)

interpretation cr: limited_reader "compressed_read rd" cr_bytes_read cr_limit "compressed_inv rd" for rd
proof unfold_locales
  fix s :: "'a compressed_reader" and n bs s'
  assume inv: "compressed_inv rd s" and rd: "compressed_read rd s n = (Inr bs, s')"
  then show "compressed_inv rd s' \<and> cr_limit s' = cr_limit s \<and> length bs \<le> n
      \<and> cr_bytes_read s' = cr_bytes_read s + length bs"
    using honestD [of rd "cr_inner s" "min (cr_limit s - cr_bytes_read s) n"]
    by (fastforce simp: compressed_inv_def compressed_read_def Let_def saturating_add_def
        split: if_splits prod.splits sum.splits)
qed (auto simp: compressed_inv_def compressed_read_def Let_def saturating_add_def
    split: if_splits prod.splits sum.splits)

text \<open>A compressed reader after any number of reads.\<close>

inductive reads_from :: "'r reader \<Rightarrow> 'r compressed_reader \<Rightarrow> 'r compressed_reader \<Rightarrow> bool" for rd where
  unread: "reads_from rd c c"
| one_more: "reads_from rd c c' \<Longrightarrow> reads_from rd c (snd (compressed_read rd c' n))"

lemma compressed_read_keeps:
  assumes "compressed_inv rd c"
  shows "compressed_inv rd (snd (compressed_read rd c n))
    \<and> cr_limit (snd (compressed_read rd c n)) = cr_limit c
    \<and> cr_bytes_read c \<le> cr_bytes_read (snd (compressed_read rd c n))"
proof (cases "compressed_read rd c n")
  case (Pair r c')
  show ?thesis
  proof (cases r)
    case (Inr bs)
    with Pair cr.read_ok [OF assms, of n bs c'] show ?thesis by simp
  next
    case (Inl e)
    with Pair have "cr_limit c' = cr_limit c" "cr_bytes_read c' = cr_bytes_read c"
      by (auto simp: compressed_read_def Let_def split: if_splits prod.splits sum.splits)
    with Pair assms show ?thesis by (simp add: compressed_inv_def)
  qed
qed

lemma reads_from_keeps:
  "reads_from rd c c' \<Longrightarrow> compressed_inv rd c \<Longrightarrow>
     compressed_inv rd c' \<and> cr_limit c' = cr_limit c \<and> cr_bytes_read c \<le> cr_bytes_read c'"
proof (induction rule: reads_from.induct)
  case (one_more c c' n)
  then show ?case using compressed_read_keeps [of rd c' n] by auto
qed simp

text \<open>The decoder reads its compressed bytes only through the reader it was given, as its
  \<^verbatim>\<open>BufRead\<close> bound makes it.\<close>

definition reads_through :: "'r reader \<Rightarrow> ('r, 'd) zlib \<Rightarrow> bool" where
  "reads_through rd z \<longleftrightarrow>
     (\<forall>c. reads_from rd c (zlib_source z (zlib_new z c))) \<and>
     (\<forall>d n. reads_from rd (zlib_source z d) (zlib_source z (snd (zlib_read z d n)))) \<and>
     (\<forall>d. reads_from rd (zlib_source z d) (zlib_source z (snd (zlib_fill_buf z d))))"

definition expanded_inv :: "'r reader \<Rightarrow> ('r, 'd) zlib \<Rightarrow> nat \<Rightarrow> nat \<Rightarrow> 'd expanded_reader \<Rightarrow> bool" where
  "expanded_inv rd z cl ratio s \<longleftrightarrow>
     honest (zlib_read z) \<and> reads_through rd z \<and> compressed_inv rd (zlib_source z (er_inner s)) \<and>
     cr_limit (zlib_source z (er_inner s)) = cl \<and> er_ratio s = ratio \<and>
     er_bytes_read s \<le> er_limit s \<and> er_limit s \<le> u64_max \<and>
     er_bytes_read s \<le> compressed_count z (er_inner s) * er_ratio s"

lemma zlib_read_source:
  assumes "reads_through rd z" and "compressed_inv rd (zlib_source z d)" and "zlib_read z d n = (r, d')"
  shows "compressed_inv rd (zlib_source z d')" and "compressed_count z d \<le> compressed_count z d'"
    and "cr_limit (zlib_source z d') = cr_limit (zlib_source z d)"
proof -
  have "reads_from rd (zlib_source z d) (zlib_source z d')"
    using assms(1,3) unfolding reads_through_def by (metis snd_conv)
  from reads_from_keeps [OF this assms(2)]
  show "compressed_inv rd (zlib_source z d')" "compressed_count z d \<le> compressed_count z d'"
    "cr_limit (zlib_source z d') = cr_limit (zlib_source z d)"
    by (simp_all add: compressed_count_def)
qed

lemma expanded_read_ok:
  assumes "expanded_read z s n = (Inr bs, s')"
  shows "n = 0 \<and> bs = [] \<and> s' = s
    \<or> (\<exists>d. n \<noteq> 0 \<and> er_bytes_read s = er_limit s \<and> bs = []
        \<and> zlib_read z (er_inner s) 1 = (Inr [], d) \<and> s' = s\<lparr>er_inner := d\<rparr>)
    \<or> (\<exists>d. n \<noteq> 0 \<and> er_bytes_read s \<noteq> er_limit s
        \<and> zlib_read z (er_inner s) (min (er_limit s - er_bytes_read s) n) = (Inr bs, d)
        \<and> s' = s\<lparr>er_inner := d, er_bytes_read := saturating_add (er_bytes_read s) (length bs)\<rparr>
        \<and> saturating_add (er_bytes_read s) (length bs) \<le> saturating_mul (compressed_count z d) (er_ratio s))"
  using assms by (auto simp: expanded_read_def Let_def split: if_splits prod.splits sum.splits)

lemma expanded_read_io_err:
  assumes "expanded_read z s n = (Inl (IoKind k), s')"
  shows "\<exists>d m. zlib_read z (er_inner s) m = (Inl (IoKind k), d) \<and> s' = s\<lparr>er_inner := d\<rparr>"
  using assms by (auto simp: expanded_read_def Let_def split: if_splits prod.splits sum.splits)

lemma expanded_inv_inner:
  assumes "expanded_inv rd z cl ratio s" and "zlib_read z (er_inner s) n = (r, d)"
  shows "expanded_inv rd z cl ratio (s\<lparr>er_inner := d\<rparr>)"
proof -
  have inv: "reads_through rd z" "compressed_inv rd (zlib_source z (er_inner s))"
    and le: "er_bytes_read s \<le> compressed_count z (er_inner s) * er_ratio s"
    using assms(1) by (auto simp: expanded_inv_def)
  note step = zlib_read_source [OF inv assms(2)]
  have "er_bytes_read s \<le> compressed_count z d * er_ratio s"
    using le mult_le_mono1 [OF step(2)] by (rule order.trans)
  with assms(1) step(1,3) show ?thesis by (simp add: expanded_inv_def)
qed

interpretation er: limited_reader "expanded_read z" er_bytes_read er_limit "expanded_inv rd z cl ratio" for rd z cl ratio
proof unfold_locales
  fix s n bs s'
  assume inv: "expanded_inv rd z cl ratio s" and rd: "expanded_read z s n = (Inr bs, s')"
  from expanded_read_ok [OF rd]
  consider "n = 0" "bs = []" "s' = s"
    | d where "bs = []" "zlib_read z (er_inner s) 1 = (Inr [], d)" "s' = s\<lparr>er_inner := d\<rparr>"
    | d where "zlib_read z (er_inner s) (min (er_limit s - er_bytes_read s) n) = (Inr bs, d)"
        "s' = s\<lparr>er_inner := d, er_bytes_read := saturating_add (er_bytes_read s) (length bs)\<rparr>"
        "saturating_add (er_bytes_read s) (length bs) \<le> saturating_mul (compressed_count z d) (er_ratio s)"
    by blast
  then show "expanded_inv rd z cl ratio s' \<and> er_limit s' = er_limit s \<and> length bs \<le> n
      \<and> er_bytes_read s' = er_bytes_read s + length bs"
  proof cases
    case 1
    with inv show ?thesis by simp
  next
    case 2
    with expanded_inv_inner [OF inv, of 1 "Inr []" d] show ?thesis by simp
  next
    case (3 d)
    have len: "length bs \<le> min (er_limit s - er_bytes_read s) n"
      using honestD [of "zlib_read z", OF _ 3(1)] inv by (simp add: expanded_inv_def)
    have exact: "saturating_add (er_bytes_read s) (length bs) = er_bytes_read s + length bs"
      using inv len by (auto simp: expanded_inv_def saturating_add_def)
    have "er_bytes_read s + length bs \<le> compressed_count z d * er_ratio s"
      using 3(3) saturating_exact(1) [of "compressed_count z d" "er_ratio s"] exact by simp
    with expanded_inv_inner [OF inv 3(1)] 3(2) len exact inv show ?thesis
      by (auto simp: expanded_inv_def)
  qed
next
  fix s n k s'
  assume inv: "expanded_inv rd z cl ratio s" and rd: "expanded_read z s n = (Inl (IoKind k), s')"
  then show "expanded_inv rd z cl ratio s' \<and> er_limit s' = er_limit s \<and> er_bytes_read s' = er_bytes_read s"
    using expanded_inv_inner [OF inv] expanded_read_io_err [OF rd] by fastforce
qed (simp add: expanded_inv_def)

subsection \<open>Reading a known content\<close>

text \<open>A stream that is \<open>ready\<close> hands out its \<open>content\<close> front to back, in chunks of any size, and then
  reports the end.\<close>

locale byte_stream =
  fixes read :: "'s reader"
    and content :: "'s \<Rightarrow> byte list"
    and ready :: "'s \<Rightarrow> bool"
  assumes read_some: "ready s \<Longrightarrow> 0 < n \<Longrightarrow> content s \<noteq> [] \<Longrightarrow>
        \<exists>k s'. 0 < k \<and> k \<le> n \<and> k \<le> length (content s) \<and> read s n = (Inr (take k (content s)), s')
          \<and> ready s' \<and> content s' = drop k (content s)"
    and read_end: "ready s \<Longrightarrow> 0 < n \<Longrightarrow> content s = [] \<Longrightarrow>
        \<exists>s'. read s n = (Inr [], s') \<and> ready s' \<and> content s' = []"
begin

lemma read_exact_stream:
  "ready s \<Longrightarrow> n \<le> length (content s) \<Longrightarrow>
     \<exists>t. read_exact read s n = Some (Inr (take n (content s)), t)
       \<and> ready t \<and> content t = drop n (content s)"
proof (induction n arbitrary: s rule: less_induct)
  case (less n)
  show ?case
  proof (cases "n = 0")
    case True
    with less.prems show ?thesis by (simp add: read_exact.simps)
  next
    case n: False
    then have "content s \<noteq> []" using less.prems(2) by auto
    from read_some [OF less.prems(1) _ this, of n] n
    obtain k s' where k: "0 < k" "k \<le> n" "k \<le> length (content s)"
      and rd: "read s n = (Inr (take k (content s)), s')"
      and s': "ready s'" "content s' = drop k (content s)" by auto
    have "n - k \<le> length (drop k (content s))" using less.prems(2) by simp
    with less.IH [of "n - k" s'] k n s'
    obtain t where "read_exact read s' (n - k) = Some (Inr (take (n - k) (drop k (content s))), t)"
      "ready t" "content t = drop (n - k) (drop k (content s))" by auto
    moreover have "take k (content s) \<noteq> []" using k by auto
    moreover have "take k (content s) @ take (n - k) (drop k (content s)) = take n (content s)"
      using take_add [of k "n - k" "content s"] k(2) by simp
    ultimately show ?thesis
      using k n rd by (subst read_exact.simps) (simp add: min_absorb2)
  qed
qed

lemma read_exact_stream_eof:
  "ready s \<Longrightarrow> length (content s) < n \<Longrightarrow>
     \<exists>t. read_exact read s n = Some (Inl (IoKind UnexpectedEof), t)"
proof (induction "length (content s)" arbitrary: s n rule: less_induct)
  case less
  show ?case
  proof (cases "content s = []")
    case True
    with less.prems read_end [of s n] show ?thesis
      by (subst read_exact.simps) auto
  next
    case False
    with less.prems read_some [of s n]
    obtain k s' where k: "0 < k" "k \<le> length (content s)"
      and rd: "read s n = (Inr (take k (content s)), s')"
      and s': "ready s'" "content s' = drop k (content s)" by auto
    have "length (drop k (content s)) < n - k" using less.prems(2) k by simp
    with less.hyps [of s' "n - k"] k s' False
    obtain t where "read_exact read s' (n - k) = Some (Inl (IoKind UnexpectedEof), t)" by auto
    moreover have "take k (content s) \<noteq> []" using k by auto
    ultimately show ?thesis
      using k rd less.prems(2) by (subst read_exact.simps) (simp add: min_absorb2)
  qed
qed

end

text \<open>
  A decoder that delivers: \<open>plain d\<close> is what is left to decompress in a state that is \<open>going\<close>. Every read of
  at least one byte makes progress, and by the time a byte is delivered enough compressed input has been
  counted for the ratio limit \<open>ratio\<close>, where \<open>whole\<close> is the length of the whole content.
\<close>

definition delivers :: "('r, 'd) zlib \<Rightarrow> ('d \<Rightarrow> byte list) \<Rightarrow> ('d \<Rightarrow> bool) \<Rightarrow> nat \<Rightarrow> nat \<Rightarrow> bool" where
  "delivers z plain going whole ratio \<longleftrightarrow>
     (\<forall>d n. going d \<and> 0 < n \<and> plain d \<noteq> [] \<longrightarrow>
        (\<exists>k d'. 0 < k \<and> k \<le> n \<and> k \<le> length (plain d) \<and> zlib_read z d n = (Inr (take k (plain d)), d')
          \<and> going d' \<and> plain d' = drop k (plain d)
          \<and> whole - length (plain d') \<le> compressed_count z d' * ratio)) \<and>
     (\<forall>d n. going d \<and> 0 < n \<and> plain d = [] \<longrightarrow>
        (\<exists>d'. zlib_read z d n = (Inr [], d') \<and> going d' \<and> plain d' = []
          \<and> whole \<le> compressed_count z d' * ratio))"

definition expanded_ready ::
  "('r, 'd) zlib \<Rightarrow> ('d \<Rightarrow> byte list) \<Rightarrow> ('d \<Rightarrow> bool) \<Rightarrow> nat \<Rightarrow> nat \<Rightarrow> 'd expanded_reader \<Rightarrow> bool" where
  "expanded_ready z plain going whole ratio s \<longleftrightarrow>
     delivers z plain going whole ratio \<and> going (er_inner s) \<and> er_ratio s = ratio \<and>
     er_bytes_read s + length (plain (er_inner s)) = whole \<and> whole \<le> er_limit s \<and> er_limit s \<le> u64_max"

lemma expanded_read_data:
  assumes "expanded_ready z plain going whole ratio s" and "0 < n" and "plain (er_inner s) \<noteq> []"
  shows "\<exists>k s'. 0 < k \<and> k \<le> n \<and> k \<le> length (plain (er_inner s))
    \<and> expanded_read z s n = (Inr (take k (plain (er_inner s))), s')
    \<and> expanded_ready z plain going whole ratio s' \<and> plain (er_inner s') = drop k (plain (er_inner s))"
proof -
  let ?m = "min (er_limit s - er_bytes_read s) n"
  have room: "er_bytes_read s + length (plain (er_inner s)) \<le> er_limit s"
    and lim: "er_limit s \<le> u64_max" using assms(1) by (simp_all add: expanded_ready_def)
  moreover have "0 < length (plain (er_inner s))" using assms(3) by simp
  ultimately have "er_bytes_read s < er_limit s" by linarith
  then have m: "0 < ?m" using assms(2) by simp
  then obtain k d' where k: "0 < k" "k \<le> ?m" "k \<le> length (plain (er_inner s))"
    and rd: "zlib_read z (er_inner s) ?m = (Inr (take k (plain (er_inner s))), d')"
    and d': "going d'" "plain d' = drop k (plain (er_inner s))"
    and ratio: "whole - length (plain d') \<le> compressed_count z d' * ratio"
    using assms(1,3) unfolding expanded_ready_def delivers_def by blast
  let ?s' = "s\<lparr>er_inner := d', er_bytes_read := er_bytes_read s + k\<rparr>"
  have len: "length (take k (plain (er_inner s))) = k" using k by simp
  have "saturating_add (er_bytes_read s) k = er_bytes_read s + k"
    using room lim k by (simp add: saturating_add_def)
  moreover have "er_bytes_read s + k \<le> saturating_mul (compressed_count z d') (er_ratio s)"
    using ratio assms(1) room lim k d'(2) by (auto simp: expanded_ready_def saturating_mul_def)
  ultimately have "expanded_read z s n = (Inr (take k (plain (er_inner s))), ?s')"
    using rd m assms(2) len by (simp add: expanded_read_def Let_def del: length_take)
  moreover have "expanded_ready z plain going whole ratio ?s'"
    using assms(1) d' k by (auto simp: expanded_ready_def)
  ultimately show ?thesis using k d' by (intro exI [of _ k] exI [of _ ?s']) simp
qed

lemma expanded_read_end:
  assumes "expanded_ready z plain going whole ratio s" and "0 < n" and "plain (er_inner s) = []"
  shows "\<exists>s'. expanded_read z s n = (Inr [], s') \<and> er_bytes_read s' = er_bytes_read s
    \<and> (\<exists>m. s' = s\<lparr>er_inner := snd (zlib_read z (er_inner s) m)\<rparr> \<and> 0 < m)
    \<and> expanded_ready z plain going whole ratio s' \<and> plain (er_inner s') = []"
proof -
  define m where "m = (if er_bytes_read s = er_limit s then 1 else min (er_limit s - er_bytes_read s) n)"
  have whole: "er_bytes_read s = whole" "whole \<le> er_limit s" "er_limit s \<le> u64_max"
    using assms(1,3) by (simp_all add: expanded_ready_def)
  then have m: "0 < m" using assms(2) by (auto simp: m_def)
  then obtain d' where rd: "zlib_read z (er_inner s) m = (Inr [], d')"
    and d': "going d'" "plain d' = []" "whole \<le> compressed_count z d' * ratio"
    using assms(1,3) unfolding expanded_ready_def delivers_def by blast
  have "er_bytes_read s \<le> saturating_mul (compressed_count z d') (er_ratio s)"
    using d'(3) assms(1) whole by (auto simp: expanded_ready_def saturating_mul_def)
  moreover have "saturating_add (er_bytes_read s) 0 = er_bytes_read s"
    using whole by (simp add: saturating_add_def)
  ultimately have "expanded_read z s n = (Inr [], s\<lparr>er_inner := d'\<rparr>)"
    using rd assms(2) whole by (auto simp: expanded_read_def Let_def m_def split: if_splits)
  moreover have "expanded_ready z plain going whole ratio (s\<lparr>er_inner := d'\<rparr>)"
    using assms d' by (auto simp: expanded_ready_def)
  ultimately show ?thesis using d' m rd by (intro exI [of _ "s\<lparr>er_inner := d'\<rparr>"] conjI exI [of _ m]) simp_all
qed

interpretation es: byte_stream "expanded_read z" "\<lambda>s. plain (er_inner s)"
  "expanded_ready z plain going whole ratio" for z plain going whole ratio
proof unfold_locales
  fix s and n :: nat
  assume "expanded_ready z plain going whole ratio s" "0 < n" "plain (er_inner s) = []"
  then show "\<exists>s'. expanded_read z s n = (Inr [], s')
      \<and> expanded_ready z plain going whole ratio s' \<and> plain (er_inner s') = []"
    using expanded_read_end [of z plain going whole ratio s n] by blast
qed (rule expanded_read_data)

end
