(* ===== verification/Domain.thy ===== *)
theory Domain
  imports Rust_Text
begin

section \<open>Domain types (crates/domain)\<close>

text \<open>
  \<^verbatim>\<open>crates/domain/src/lib.rs\<close>: the crash classes and the pairs of an original and a normalized text
  that every other crate shares. \<open>nv_path\<close>, \<open>nv_module\<close>, \<open>nv_function\<close> and \<open>nv_platform\<close> are the
  constructors of \<^verbatim>\<open>NormalizedValue\<close>.
\<close>

datatype crash_type = CT_Crash | CT_Assert | CT_Ensure | CT_Unknown

definition classify :: "ustring \<Rightarrow> crash_type" where
  "classify error_type =
     (if error_type = lit ''Crash'' then CT_Crash
      else if error_type = lit ''Assert'' then CT_Assert
      else if error_type = lit ''Ensure'' then CT_Ensure
      else CT_Unknown)"

record normalized_value =
  original :: ustring
  normalized :: ustring

definition nv_path :: "ustring \<Rightarrow> normalized_value" where
  "nv_path value = \<lparr>original = value, normalized = replace_char 92 (ch CHR ''/'') value\<rparr>"

text \<open>The extension that \<^verbatim>\<open>strip_suffix(".dll").or_else(strip_suffix(".exe"))\<close> removes.\<close>

definition strip_module_extension :: "ustring \<Rightarrow> ustring" where
  "strip_module_extension file_name =
     unwrap_or (or_else (strip_suffix file_name (lit ''.dll'')) (strip_suffix file_name (lit ''.exe'')))
       file_name"

definition nv_module :: "ustring \<Rightarrow> normalized_value" where
  "nv_module value =
     (let file_name = to_ascii_lowercase (hd (rsplit_on is_separator value))
      in \<lparr>original = value, normalized = strip_module_extension file_name\<rparr>)"

definition nv_function :: "ustring \<Rightarrow> normalized_value" where
  "nv_function value = \<lparr>original = value, normalized = trim value\<rparr>"

definition nv_platform :: "ustring \<Rightarrow> normalized_value" where
  "nv_platform value =
     (let identifier = to_ascii_lowercase (trim value)
      in \<lparr>original = value,
          normalized = (if identifier \<in> {lit ''win64'', lit ''windows'', lit ''windowsnoeditor''}
                        then lit ''windows'' else identifier)\<rparr>)"

subsection \<open>Facts\<close>

lemma classify_cases:
  "classify s = CT_Unknown \<longleftrightarrow> s \<notin> {lit ''Crash'', lit ''Assert'', lit ''Ensure''}"
  by (auto simp: classify_def)

lemma strip_module_extension_set: "set (strip_module_extension s) \<subseteq> set s"
  using length_strip_suffix [of s "lit ''.dll''"] length_strip_suffix [of s "lit ''.exe''"]
  unfolding strip_module_extension_def
  by (cases "strip_suffix s (lit ''.dll'')"; cases "strip_suffix s (lit ''.exe'')") auto

lemma strip_module_extension_length: "length (strip_module_extension s) \<le> length s"
  using length_strip_suffix [of s "lit ''.dll''"] length_strip_suffix [of s "lit ''.exe''"]
  unfolding strip_module_extension_def
  by (cases "strip_suffix s (lit ''.dll'')"; cases "strip_suffix s (lit ''.exe'')") auto

lemma separator_to_lower [simp]: "is_separator (to_lower c) = is_separator c"
  by (auto simp: is_separator_def to_lower_def is_ascii_uppercase_def)

lemma to_ascii_lowercase_separator:
  "(\<forall>c \<in> set (to_ascii_lowercase s). \<not> is_separator c) \<longleftrightarrow> (\<forall>c \<in> set s. \<not> is_separator c)"
  by (simp add: to_ascii_lowercase_def)

lemma rsplit_piece: "t \<in> set (rsplit_on p s) \<Longrightarrow> \<forall>c \<in> set t. \<not> p c"
  by (auto simp: rsplit_on_def dest: set_split_on)

lemma hd_rsplit: "hd (rsplit_on p s) \<in> set (rsplit_on p s)"
  by (simp add: rsplit_on_def hd_rev)

lemma nv_module_chars:
  assumes "c \<in> set (normalized (nv_module v))"
  shows "\<not> is_separator c" and "\<not> is_ascii_uppercase c"
proof -
  let ?f = "to_ascii_lowercase (hd (rsplit_on is_separator v))"
  from assms have c: "c \<in> set ?f"
    using strip_module_extension_set [of ?f] by (auto simp: nv_module_def Let_def)
  then show "\<not> is_ascii_uppercase c" by (rule to_ascii_lowercase_no_upper)
  from rsplit_piece [OF hd_rsplit] have "\<forall>d \<in> set ?f. \<not> is_separator d"
    by (simp add: to_ascii_lowercase_separator)
  with c show "\<not> is_separator c" by blast
qed

lemma nv_platform_idem: "normalized (nv_platform (normalized (nv_platform v))) = normalized (nv_platform v)"
proof -
  let ?i = "to_ascii_lowercase (trim v)"
  have fix1: "to_ascii_lowercase (trim ?i) = ?i" by (simp add: trim_to_ascii_lowercase)
  have fix2: "to_ascii_lowercase (trim (lit ''windows'')) = lit ''windows''"
    by (simp add: trim_def trim_start_def trim_end_def to_ascii_lowercase_def to_lower_def ascii_defs lit_simps)
  define W where "W = {lit ''win64'', lit ''windows'', lit ''windowsnoeditor''}"
  have n: "normalized (nv_platform w) = (if to_ascii_lowercase (trim w) \<in> W then lit ''windows''
      else to_ascii_lowercase (trim w))" for w
    by (simp only: nv_platform_def Let_def normalized_value.simps W_def)
  have W: "lit ''windows'' \<in> W" by (simp only: W_def insert_iff) blast
  show ?thesis
  proof (cases "?i \<in> W")
    case True
    then show ?thesis by (simp only: n if_True fix2 W)
  next
    case False
    then show ?thesis by (simp only: n if_False fix1)
  qed
qed

lemma nv_path_chars: "92 \<notin> set (normalized (nv_path v))"
  by (auto simp: nv_path_def replace_char_def)

text \<open>normalization keeps the text it was given; a normalized path has no backslash and the same
  length, a normalized module name has neither a path separator nor an ASCII capital, a normalized
  function has no surrounding white space (a second trim changes nothing), and normalizing a
  normalized platform again changes nothing.\<close>

theorem normalized_values_canonical:
  "original (nv_path v) = v \<and> original (nv_module v) = v \<and> original (nv_function v) = v
     \<and> original (nv_platform v) = v
   \<and> 92 \<notin> set (normalized (nv_path v)) \<and> length (normalized (nv_path v)) = length v
   \<and> set (normalized (nv_module v)) \<inter> {c. is_separator c \<or> is_ascii_uppercase c} = {}
   \<and> trim (normalized (nv_function v)) = normalized (nv_function v)
   \<and> normalized (nv_platform (normalized (nv_platform v))) = normalized (nv_platform v)"
proof -
  have "set (normalized (nv_module v)) \<inter> {c. is_separator c \<or> is_ascii_uppercase c} = {}"
    using nv_module_chars [of _ v] by blast
  then show ?thesis using nv_path_chars nv_platform_idem
    by (simp add: nv_path_def nv_module_def nv_function_def nv_platform_def Let_def replace_char_def)
qed

end
