(* ===== verification/Crash_Context.thy ===== *)
theory Crash_Context
  imports Domain Ordered_Map
begin

section \<open>Crash contexts (crates/unreal)\<close>

text \<open>
  \<^verbatim>\<open>crates/unreal/src/lib.rs\<close>: the parser of Unreal's \<^verbatim>\<open>CrashContext.runtime-xml\<close>, the classification of
  a crash and the extraction of the normalized context. The XML library (roxmltree) is a parameter:
  the record \<open>roxml\<close> holds the document parser and the node accessors the code calls, over any type
  of documents and nodes. Sections and fields are nodes, as the one-field structs of the code are.
\<close>

subsection \<open>The XML library\<close>

datatype xml_error_kind = DtdDetected | NodesLimitReached | OtherXmlError

record xml_error =
  xml_kind :: xml_error_kind
  xml_row :: nat
  xml_col :: nat

record parsing_options =
  allow_dtd :: bool
  nodes_limit :: nat

record ('doc, 'node) roxml =
  parse_with_options :: "parsing_options \<Rightarrow> ustring \<Rightarrow> (xml_error, 'doc) result"
  root_element :: "'doc \<Rightarrow> 'node"
  root_pos :: "'doc \<Rightarrow> nat \<times> nat"
  children :: "'node \<Rightarrow> 'node list"
  is_element :: "'node \<Rightarrow> bool"
  tag_name :: "'node \<Rightarrow> ustring"
  node_text :: "'node \<Rightarrow> ustring option"

subsection \<open>Data\<close>

definition crash_context_root :: ustring where
  "crash_context_root = lit ''FGenericCrashContext''"

definition crash_context_parser_version :: nat where
  "crash_context_parser_version = 1"

record extraction_options =
  include_command_line :: bool

definition default_extraction_options :: extraction_options where
  "default_extraction_options = \<lparr>include_command_line = False\<rparr>"

record crash_context_property =
  prop_name :: ustring
  prop_value :: ustring

record crash_context_thread =
  call_stack :: "ustring option"
  crash_marker :: "ustring option"
  registers :: "ustring option"
  ctx_thread_id :: "ustring option"
  ctx_thread_name :: "ustring option"

type_synonym unknown_fields = "(ustring, (ustring, ustring list) ordered_map) ordered_map"

record crash_context_data =
  parser_version :: nat
  crash_guid :: "ustring option"
  ctx_crash_type :: crash_type
  error_message :: "ustring option"
  build_version :: "ustring option"
  engine_version :: "ustring option"
  platform :: "normalized_value option"
  architecture :: "ustring option"
  build_configuration :: "ustring option"
  command_line :: "ustring option"
  ctx_modules :: "normalized_value list"
  ctx_threads :: "crash_context_thread list"
  system_metadata :: "crash_context_property list"
  user_comment :: "ustring option"
  game_data :: "crash_context_property list"
  ctx_unknown_fields :: unknown_fields

datatype classification_confidence = High | Medium | Low

datatype crash_signal_kind = GpuCrash | OutOfMemory

record crash_signal =
  sig_kind :: crash_signal_kind
  sig_confidence :: classification_confidence
  sig_evidence :: "ustring list"

record crash_classification =
  cls_crash_type :: crash_type
  cls_confidence :: classification_confidence
  cls_evidence :: "ustring list"
  cls_signals :: "crash_signal list"

subsection \<open>Classification\<close>

definition normalize_classification_text :: "ustring \<Rightarrow> ustring" where
  "normalize_classification_text value = map to_lower (filter is_ascii_alphanumeric value)"

definition truthy :: "ustring \<Rightarrow> bool" where
  "truthy value \<longleftrightarrow> to_ascii_lowercase (trim value) \<in> {lit ''1'', lit ''true'', lit ''yes''}"

definition contains_any :: "ustring \<Rightarrow> ustring list \<Rightarrow> bool" where
  "contains_any value patterns \<longleftrightarrow> list_ex (contains value) patterns"

definition classify_crash_context ::
  "crash_type \<Rightarrow> ustring option \<Rightarrow> ustring option \<Rightarrow> bool \<Rightarrow> crash_classification" where
  "classify_crash_context ctype crash_type_source message structured_oom =
     (let source = unwrap_or (map_option normalize_classification_text crash_type_source) [];
          error = unwrap_or (map_option to_ascii_lowercase message) [];
          crash_type_oom = source \<in> {lit ''oom'', lit ''outofmemory'', lit ''outofmemorycrash''};
          error_oom = contains_any error
            [lit ''out of memory'', lit ''out-of-memory'', lit ''ran out of memory'', lit ''oom allocation''];
          oom =
            (if structured_oom \<or> crash_type_oom \<or> error_oom then
               [\<lparr>sig_kind = OutOfMemory,
                 sig_confidence = (if structured_oom \<or> crash_type_oom then High else Medium),
                 sig_evidence =
                   (if structured_oom then [lit ''crash_context.memory_stats.is_oom''] else [])
                   @ (if crash_type_oom then [lit ''crash_context.crash_type_oom''] else [])
                   @ (if error_oom then [lit ''crash_context.error_message_oom''] else [])\<rparr>]
             else []);
          crash_type_gpu = source \<in> {lit ''gpucrash'', lit ''gpucrashed'', lit ''gputimeout''};
          error_gpu = contains_any error
            [lit ''gpu crash'', lit ''gpu crashed'', lit ''gpu timeout'',
             lit ''dxgi_error_device_removed'', lit ''d3d device being lost''];
          gpu =
            (if crash_type_gpu \<or> error_gpu then
               [\<lparr>sig_kind = GpuCrash,
                 sig_confidence = (if crash_type_gpu then High else Medium),
                 sig_evidence =
                   (if crash_type_gpu then [lit ''crash_context.crash_type_gpu''] else [])
                   @ (if error_gpu then [lit ''crash_context.error_message_gpu''] else [])\<rparr>]
             else [])
      in \<lparr>cls_crash_type = ctype,
          cls_confidence = (if ctype = CT_Unknown then Low else High),
          cls_evidence = (if ctype = CT_Unknown then [] else [lit ''crash_context.crash_type'']),
          cls_signals = oom @ gpu\<rparr>)"

subsection \<open>Parsing\<close>

datatype parse_error_kind = InvalidXml | DtdForbidden | NodeLimitExceeded | UnexpectedRoot

record parse_error =
  parse_kind :: parse_error_kind
  parse_line :: nat
  parse_column :: nat

definition parse_error_from_xml :: "xml_error \<Rightarrow> parse_error" where
  "parse_error_from_xml error =
     \<lparr>parse_kind = (case xml_kind error of DtdDetected \<Rightarrow> DtdForbidden
        | NodesLimitReached \<Rightarrow> NodeLimitExceeded | OtherXmlError \<Rightarrow> InvalidXml),
      parse_line = xml_row error, parse_column = xml_col error\<rparr>"

definition unexpected_root :: "nat \<times> nat \<Rightarrow> parse_error" where
  "unexpected_root pos =
     \<lparr>parse_kind = UnexpectedRoot, parse_line = fst pos, parse_column = snd pos\<rparr>"

definition parse_context :: "('doc, 'node) roxml \<Rightarrow> nat \<Rightarrow> ustring \<Rightarrow> (parse_error, 'doc) result" where
  "parse_context x node_limit xml =
     bindR (map_err parse_error_from_xml
              (parse_with_options x \<lparr>allow_dtd = False, nodes_limit = node_limit\<rparr> xml))
       (\<lambda>document.
          if tag_name x (root_element x document) \<noteq> crash_context_root
          then Inl (unexpected_root (root_pos x document))
          else Inr document)"

definition sections :: "('doc, 'node) roxml \<Rightarrow> 'doc \<Rightarrow> 'node list" where
  "sections x document = filter (is_element x) (children x (root_element x document))"

definition section_named :: "('doc, 'node) roxml \<Rightarrow> 'doc \<Rightarrow> ustring \<Rightarrow> 'node option" where
  "section_named x document name = find (\<lambda>s. tag_name x s = name) (sections x document)"

definition fields :: "('doc, 'node) roxml \<Rightarrow> 'node \<Rightarrow> 'node list" where
  "fields x sec = filter (is_element x) (children x sec)"

definition field :: "('doc, 'node) roxml \<Rightarrow> 'node \<Rightarrow> ustring \<Rightarrow> 'node option" where
  "field x sec name = find (\<lambda>f. tag_name x f = name) (fields x sec)"

subsection \<open>Extraction\<close>

definition text_or_empty :: "('doc, 'node) roxml \<Rightarrow> 'node \<Rightarrow> ustring" where
  "text_or_empty x n = unwrap_or (node_text x n) []"

definition field_text :: "('doc, 'node) roxml \<Rightarrow> 'node option \<Rightarrow> ustring \<Rightarrow> ustring option" where
  "field_text x sec name =
     Option.bind (Option.bind sec (\<lambda>s. field x s name)) (node_text x)"

definition field_value :: "('doc, 'node) roxml \<Rightarrow> 'node option \<Rightarrow> ustring \<Rightarrow> ustring option" where
  "field_value x sec name =
     map_option (text_or_empty x) (Option.bind sec (\<lambda>s. field x s name))"

fun first_field_value :: "('doc, 'node) roxml \<Rightarrow> 'node option \<Rightarrow> ustring list \<Rightarrow> ustring option" where
  "first_field_value x sec [] = None"
| "first_field_value x sec (name # names) =
     (case field_value x sec name of Some v \<Rightarrow> Some v | None \<Rightarrow> first_field_value x sec names)"

definition normalized_architecture :: "ustring \<Rightarrow> ustring" where
  "normalized_architecture value =
     (let v = to_ascii_lowercase (trim value) in
      if v \<in> {lit ''x64'', lit ''amd64'', lit ''x86_64''} then lit ''x86_64''
      else if v \<in> {lit ''x86'', lit ''i386'', lit ''i686''} then lit ''x86''
      else if v \<in> {lit ''aarch64'', lit ''arm64''} then lit ''arm64''
      else trim value)"

definition property :: "('doc, 'node) roxml \<Rightarrow> 'node \<Rightarrow> crash_context_property" where
  "property x f = \<lparr>prop_name = tag_name x f, prop_value = text_or_empty x f\<rparr>"

definition section_properties :: "('doc, 'node) roxml \<Rightarrow> 'node option \<Rightarrow> crash_context_property list" where
  "section_properties x sec = (case sec of None \<Rightarrow> [] | Some s \<Rightarrow> map (property x) (fields x s))"

definition known_runtime_fields :: "ustring list" where
  "known_runtime_fields = map lit
     [''CrashGUID'', ''CrashType'', ''ErrorMessage'', ''BuildVersion'', ''EngineVersion'',
      ''PlatformName'', ''Architecture'', ''PlatformArchitecture'', ''BuildConfiguration'',
      ''CommandLine'', ''Modules'', ''Threads'', ''UserDescription'', ''UserComment'']"

definition is_metadata_field :: "ustring \<Rightarrow> bool" where
  "is_metadata_field name \<longleftrightarrow> starts_with name (lit ''Misc.'') \<or> starts_with name (lit ''MemoryStats.'')"

definition is_known_field :: "ustring \<Rightarrow> ustring \<Rightarrow> bool" where
  "is_known_field sec name =
     (if sec = lit ''GameData'' \<or> sec = lit ''PlatformProperties'' then True
      else if sec = lit ''RuntimeProperties''
      then name \<in> set known_runtime_fields \<or> is_metadata_field name
      else False)"

definition push_value :: "ustring \<Rightarrow> ustring list option \<Rightarrow> ustring list" where
  "push_value v vs = unwrap_or vs [] @ [v]"

definition extract_unknown_fields :: "('doc, 'node) roxml \<Rightarrow> 'doc \<Rightarrow> unknown_fields" where
  "extract_unknown_fields x document =
     fold (\<lambda>sec m.
         fold (\<lambda>f m.
             if is_known_field (tag_name x sec) (tag_name x f) then m
             else om_alter (tag_name x sec)
                    (\<lambda>inner. om_alter (tag_name x f) (push_value (text_or_empty x f)) (unwrap_or inner [])) m)
           (fields x sec) m)
       (sections x document) []"

definition child_value :: "('doc, 'node) roxml \<Rightarrow> 'node \<Rightarrow> ustring \<Rightarrow> ustring option" where
  "child_value x n name =
     map_option (text_or_empty x) (find (\<lambda>c. tag_name x c = name) (filter (is_element x) (children x n)))"

definition extract_threads :: "('doc, 'node) roxml \<Rightarrow> 'node option \<Rightarrow> crash_context_thread list" where
  "extract_threads x runtime =
     (case Option.bind runtime (\<lambda>s. field x s (lit ''Threads'')) of
        None \<Rightarrow> []
      | Some threads \<Rightarrow>
          map (\<lambda>n. \<lparr>call_stack = child_value x n (lit ''CallStack''),
                    crash_marker = child_value x n (lit ''IsCrashed''),
                    registers = child_value x n (lit ''Registers''),
                    ctx_thread_id = child_value x n (lit ''ThreadID''),
                    ctx_thread_name = child_value x n (lit ''ThreadName'')\<rparr>)
            (filter (\<lambda>n. tag_name x n = lit ''Thread'') (filter (is_element x) (children x threads))))"

definition module_values :: "ustring option \<Rightarrow> normalized_value list" where
  "module_values module_text =
     (case module_text of None \<Rightarrow> []
      | Some value \<Rightarrow> map nv_module (filter (\<lambda>line. line \<noteq> []) (map trim (str_lines value))))"

definition classification :: "('doc, 'node) roxml \<Rightarrow> 'doc \<Rightarrow> crash_classification" where
  "classification x document =
     (let runtime = section_named x document (lit ''RuntimeProperties'');
          crash_type_source = field_text x runtime (lit ''CrashType'');
          ctype = (case crash_type_source of None \<Rightarrow> CT_Unknown | Some s \<Rightarrow> classify s);
          structured_oom = is_some_and (field_text x runtime (lit ''MemoryStats.bIsOOM'')) truthy
      in classify_crash_context ctype crash_type_source (field_text x runtime (lit ''ErrorMessage''))
           structured_oom)"

definition extract_context :: "('doc, 'node) roxml \<Rightarrow> extraction_options \<Rightarrow> 'doc \<Rightarrow> crash_context_data" where
  "extract_context x options document =
     (let runtime = section_named x document (lit ''RuntimeProperties'');
          platform_properties = section_named x document (lit ''PlatformProperties'')
      in \<lparr>parser_version = crash_context_parser_version,
          crash_guid = field_value x runtime (lit ''CrashGUID''),
          ctx_crash_type = (case field_text x runtime (lit ''CrashType'') of None \<Rightarrow> CT_Unknown
                            | Some s \<Rightarrow> classify s),
          error_message = field_value x runtime (lit ''ErrorMessage''),
          build_version = field_value x runtime (lit ''BuildVersion''),
          engine_version = field_value x runtime (lit ''EngineVersion''),
          platform = map_option nv_platform (field_value x runtime (lit ''PlatformName'')),
          architecture = map_option normalized_architecture
            (or_else (first_field_value x runtime [lit ''Architecture'', lit ''PlatformArchitecture''])
               (field_value x platform_properties (lit ''HostArchitecture''))),
          build_configuration = field_value x runtime (lit ''BuildConfiguration''),
          command_line = (if include_command_line options then field_value x runtime (lit ''CommandLine'')
                          else None),
          ctx_modules = module_values (field_value x runtime (lit ''Modules'')),
          ctx_threads = extract_threads x runtime,
          system_metadata = section_properties x platform_properties
            @ (case runtime of None \<Rightarrow> []
               | Some r \<Rightarrow> map (property x) (filter (\<lambda>f. is_metadata_field (tag_name x f)) (fields x r))),
          user_comment = first_field_value x runtime [lit ''UserDescription'', lit ''UserComment''],
          game_data = section_properties x (section_named x document (lit ''GameData'')),
          ctx_unknown_fields = extract_unknown_fields x document\<rparr>)"

subsection \<open>Unknown fields are kept, and nothing else\<close>

text \<open>Every field element of the document, with its section, in document order.\<close>

definition all_fields :: "('doc, 'node) roxml \<Rightarrow> 'doc \<Rightarrow> ('node \<times> 'node) list" where
  "all_fields x document =
     concat (map (\<lambda>sec. map (\<lambda>f. (sec, f)) (fields x sec)) (sections x document))"

definition unknown_pairs :: "('doc, 'node) roxml \<Rightarrow> 'doc \<Rightarrow> ('node \<times> 'node) list" where
  "unknown_pairs x document =
     filter (\<lambda>(sec, f). \<not> is_known_field (tag_name x sec) (tag_name x f)) (all_fields x document)"

lemma fold_if_filter: "fold (\<lambda>a m. if p a then m else g a m) xs m = fold g (filter (\<lambda>a. \<not> p a) xs) m"
  by (induction xs arbitrary: m) auto

lemma extract_unknown_fields_fold:
  "extract_unknown_fields x document =
     fold (\<lambda>p. om_alter (tag_name x (fst p))
         (\<lambda>inner. om_alter (tag_name x (snd p)) (push_value (text_or_empty x (snd p))) (unwrap_or inner [])))
       (unknown_pairs x document) []"
proof -
  have "fold (\<lambda>sec m. fold (\<lambda>f m. if p sec f then m else g sec f m) (h sec) m) secs m
    = fold (\<lambda>q. g (fst q) (snd q)) (filter (\<lambda>(sec, f). \<not> p sec f)
        (concat (map (\<lambda>sec. map (\<lambda>f. (sec, f)) (h sec)) secs))) m"
    for p :: "'b \<Rightarrow> 'b \<Rightarrow> bool" and g :: "'b \<Rightarrow> 'b \<Rightarrow> unknown_fields \<Rightarrow> unknown_fields" and h secs m
    by (induction secs arbitrary: m) (simp_all add: fold_if_filter filter_map fold_map comp_def)
  then show ?thesis
    by (simp add: extract_unknown_fields_def unknown_pairs_def all_fields_def)
qed

lemma fold_Some_unwrap:
  "fold (\<lambda>a v. Some (g a (unwrap_or v []))) xs None = (if xs = [] then None else Some (fold g xs []))"
proof -
  have "fold (\<lambda>a v. Some (g a (unwrap_or v []))) xs (Some m) = Some (fold g xs m)" for m
    by (induction xs arbitrary: m) simp_all
  then show ?thesis by (cases xs) simp_all
qed

lemma fold_push_value:
  "fold (\<lambda>a v. Some (push_value (g a) v)) xs None = (if xs = [] then None else Some (map g xs))"
proof -
  have *: "fold (\<lambda>a v. Some (push_value (g a) v)) xs (Some m) = Some (m @ map g xs)" for m xs
    by (induction xs arbitrary: m) (simp_all add: push_value_def)
  show ?thesis by (cases xs) (simp_all add: *, simp add: push_value_def)
qed

text \<open>The field \<^verbatim>\<open>unknown_fields\<close> of an extracted context maps a section and a field name to exactly the texts
  of the fields with that name in the sections with that name, in document order, when the
  extraction does not know the field, and to nothing otherwise.\<close>

theorem extract_unknown_fields_exact:
  "Option.bind (om_get (extract_unknown_fields x document) sec) (\<lambda>inner. om_get inner name) =
     (let vs = map (\<lambda>p. text_or_empty x (snd p))
            (filter (\<lambda>p. tag_name x (fst p) = sec \<and> tag_name x (snd p) = name \<and> \<not> is_known_field sec name)
               (all_fields x document))
      in if vs = [] then None else Some vs)"
proof -
  let ?ps = "filter (\<lambda>p. tag_name x (fst p) = sec) (unknown_pairs x document)"
  let ?qs = "filter (\<lambda>p. tag_name x (snd p) = name) ?ps"
  let ?g = "\<lambda>p. om_alter (tag_name x (snd p)) (push_value (text_or_empty x (snd p)))"
  have outer: "om_get (extract_unknown_fields x document) sec
    = (if ?ps = [] then None else Some (fold ?g ?ps []))"
    unfolding extract_unknown_fields_fold om.get_fold_alter [OF om.wf_empty] om.get_empty
    by (rule fold_Some_unwrap)
  have inner: "om_get (fold ?g ?ps []) name
    = (if ?qs = [] then None else Some (map (\<lambda>p. text_or_empty x (snd p)) ?qs))"
    unfolding om.get_fold_alter [OF om.wf_empty] om.get_empty by (rule fold_push_value)
  have qs: "?qs = filter (\<lambda>p. tag_name x (fst p) = sec \<and> tag_name x (snd p) = name
      \<and> \<not> is_known_field sec name) (all_fields x document)"
    by (auto simp: unknown_pairs_def split_def intro!: filter_cong)
  show ?thesis
  proof (cases "?ps = []")
    case True
    then have "?qs = []" by simp
    then show ?thesis unfolding outer Let_def qs [symmetric] using True by simp
  next
    case False
    then show ?thesis unfolding outer Let_def qs [symmetric] using inner by simp
  qed
qed

subsection \<open>The command line stays private\<close>

text \<open>The texts of two documents agree except on \<^verbatim>\<open>CommandLine\<close> fields that only occur in
  \<^verbatim>\<open>RuntimeProperties\<close> sections.\<close>

definition same_but_command_line :: "('doc, 'node) roxml \<Rightarrow> 'doc \<Rightarrow> ('node \<Rightarrow> ustring option) \<Rightarrow> bool" where
  "same_but_command_line x document texts \<longleftrightarrow>
     (\<forall>n. texts n = node_text x n \<or>
        (tag_name x n = lit ''CommandLine'' \<and>
         (\<forall>sec \<in> set (sections x document). n \<in> set (fields x sec) \<longrightarrow>
            tag_name x sec = lit ''RuntimeProperties'')))"

lemma find_tag: "find (\<lambda>n. tag_name x n = name) ns = Some n \<Longrightarrow> n \<in> set ns \<and> tag_name x n = name"
  by (auto simp: find_Some_iff)

lemma section_named_Some:
  "section_named x document name = Some sec \<Longrightarrow> sec \<in> set (sections x document) \<and> tag_name x sec = name"
  unfolding section_named_def by (rule find_tag)

lemma hidden_accessors [simp]:
  "sections (x\<lparr>node_text := t\<rparr>) = sections x"
  "section_named (x\<lparr>node_text := t\<rparr>) = section_named x"
  "fields (x\<lparr>node_text := t\<rparr>) = fields x"
  "field (x\<lparr>node_text := t\<rparr>) = field x"
  "all_fields (x\<lparr>node_text := t\<rparr>) = all_fields x"
  "unknown_pairs (x\<lparr>node_text := t\<rparr>) = unknown_pairs x"
  by (simp_all add: sections_def section_named_def fields_def field_def all_fields_def
      unknown_pairs_def fun_eq_iff)

lemma visible_text:
  assumes "same_but_command_line x document t"
  shows "tag_name x n \<noteq> lit ''CommandLine'' \<Longrightarrow> t n = node_text x n"
    and "sec \<in> set (sections x document) \<Longrightarrow> n \<in> set (fields x sec) \<Longrightarrow>
      tag_name x sec \<noteq> lit ''RuntimeProperties'' \<Longrightarrow> t n = node_text x n"
  using assms by (auto simp: same_but_command_line_def)

lemma visible_text_or_empty: "t n = node_text x n \<Longrightarrow> text_or_empty (x\<lparr>node_text := t\<rparr>) n = text_or_empty x n"
  by (simp add: text_or_empty_def)

lemma visible_field_value:
  assumes "same_but_command_line x document t" and "name \<noteq> lit ''CommandLine''"
  shows "field_value (x\<lparr>node_text := t\<rparr>) sec name = field_value x sec name"
    and "field_text (x\<lparr>node_text := t\<rparr>) sec name = field_text x sec name"
    and "child_value (x\<lparr>node_text := t\<rparr>) n name = child_value x n name"
proof -
  have *: "t m = node_text x m" if "find (\<lambda>f. tag_name x f = name) ns = Some m" for m ns
    using find_tag [OF that] assms(2) by (intro visible_text(1) [OF assms(1)]) simp
  show "field_value (x\<lparr>node_text := t\<rparr>) sec name = field_value x sec name"
    using * by (cases sec) (auto simp: field_value_def field_def text_or_empty_def
        intro!: option.map_cong)
  show "field_text (x\<lparr>node_text := t\<rparr>) sec name = field_text x sec name"
    using * by (cases sec) (auto simp: field_text_def field_def intro!: bind_option_cong)
  show "child_value (x\<lparr>node_text := t\<rparr>) n name = child_value x n name"
    using * by (auto simp: child_value_def text_or_empty_def intro!: option.map_cong)
qed

lemma visible_first_field_value:
  assumes "same_but_command_line x document t" and "lit ''CommandLine'' \<notin> set names"
  shows "first_field_value (x\<lparr>node_text := t\<rparr>) sec names = first_field_value x sec names"
  using assms(2)
proof (induction names)
  case (Cons name names)
  then have "field_value (x\<lparr>node_text := t\<rparr>) sec name = field_value x sec name"
    by (intro visible_field_value(1) [OF assms(1)]) (auto)
  with Cons show ?case by (simp split: option.split)
qed simp

lemma visible_section_properties:
  assumes "same_but_command_line x document t" and "name \<noteq> lit ''RuntimeProperties''"
  shows "section_properties (x\<lparr>node_text := t\<rparr>) (section_named x document name)
    = section_properties x (section_named x document name)"
proof (cases "section_named x document name")
  case (Some sec)
  have "t f = node_text x f" if "f \<in> set (fields x sec)" for f
    using section_named_Some [OF Some] assms(2) that by (intro visible_text(2) [OF assms(1), of sec]) auto
  then show ?thesis by (simp add: Some section_properties_def property_def text_or_empty_def)
qed (simp add: section_properties_def)

lemma visible_unknown_fields:
  assumes "same_but_command_line x document t"
  shows "extract_unknown_fields (x\<lparr>node_text := t\<rparr>) document = extract_unknown_fields x document"
proof -
  have "text_or_empty (x\<lparr>node_text := t\<rparr>) (snd p) = text_or_empty x (snd p)"
    if "p \<in> set (unknown_pairs x document)" for p
  proof (rule visible_text_or_empty, rule ccontr)
    obtain sec f where p: "p = (sec, f)" by (cases p)
    with that have f: "sec \<in> set (sections x document)" "f \<in> set (fields x sec)"
      "\<not> is_known_field (tag_name x sec) (tag_name x f)"
      by (auto simp: unknown_pairs_def all_fields_def)
    assume "t (snd p) \<noteq> node_text x (snd p)"
    with p f visible_text [OF assms] have "tag_name x f = lit ''CommandLine''"
      "tag_name x sec = lit ''RuntimeProperties''" by auto
    moreover have "lit ''CommandLine'' \<in> set known_runtime_fields"
      unfolding known_runtime_fields_def by simp
    ultimately show False using f(3) by (simp add: is_known_field_def)
  qed
  then show ?thesis unfolding extract_unknown_fields_fold by (intro fold_cong) simp_all
qed

lemma metadata_not_command_line: "\<not> is_metadata_field (lit ''CommandLine'')"
  by (simp add: is_metadata_field_def starts_with_def lit_simps)

lemma extract_context_same:
  assumes "same_but_command_line x document t"
  shows "extract_context (x\<lparr>node_text := t\<rparr>) default_extraction_options document
    = extract_context x default_extraction_options document"
proof -
  have ne: "lit ''CommandLine'' \<notin> set (map lit [''CrashGUID'', ''CrashType'', ''ErrorMessage'',
      ''BuildVersion'', ''EngineVersion'', ''PlatformName'', ''Architecture'', ''PlatformArchitecture'',
      ''HostArchitecture'', ''BuildConfiguration'', ''Modules'', ''UserDescription'', ''UserComment'',
      ''CallStack'', ''IsCrashed'', ''Registers'', ''ThreadID'', ''ThreadName''])"
    by simp
  then have neqs: "name \<in> set [''CrashGUID'', ''CrashType'', ''ErrorMessage'',
      ''BuildVersion'', ''EngineVersion'', ''PlatformName'', ''Architecture'', ''PlatformArchitecture'',
      ''HostArchitecture'', ''BuildConfiguration'', ''Modules'', ''UserDescription'', ''UserComment'',
      ''CallStack'', ''IsCrashed'', ''Registers'', ''ThreadID'', ''ThreadName''] \<Longrightarrow>
      lit name \<noteq> lit ''CommandLine''" for name
    by auto
  have threads: "extract_threads (x\<lparr>node_text := t\<rparr>) sec = extract_threads x sec" for sec
    using visible_field_value(3) [OF assms neqs]
    by (auto simp: extract_threads_def split: option.splits)
  have "map (property (x\<lparr>node_text := t\<rparr>)) (filter (\<lambda>f. is_metadata_field (tag_name x f)) fs)
    = map (property x) (filter (\<lambda>f. is_metadata_field (tag_name x f)) fs)" for fs
    using visible_text(1) [OF assms] metadata_not_command_line
    by (auto simp: property_def text_or_empty_def) metis
  then have metadata: "(case sec of None \<Rightarrow> []
      | Some r \<Rightarrow> map (property (x\<lparr>node_text := t\<rparr>))
          (filter (\<lambda>f. is_metadata_field (tag_name (x\<lparr>node_text := t\<rparr>) f)) (fields (x\<lparr>node_text := t\<rparr>) r)))
    = (case sec of None \<Rightarrow> []
      | Some r \<Rightarrow> map (property x) (filter (\<lambda>f. is_metadata_field (tag_name x f)) (fields x r)))" for sec
    by (cases sec) simp_all
  show ?thesis
    using visible_field_value(1,2) [OF assms neqs] visible_first_field_value [OF assms]
      visible_section_properties [OF assms] visible_unknown_fields [OF assms] threads metadata
    by (simp add: extract_context_def default_extraction_options_def Let_def
        del: first_field_value.simps)
qed

lemma classification_same:
  assumes "same_but_command_line x document t"
  shows "classification (x\<lparr>node_text := t\<rparr>) document = classification x document"
  using visible_field_value(2) [OF assms] by (simp add: classification_def Let_def)

lemma parse_context_same [simp]: "parse_context (x\<lparr>node_text := t\<rparr>) = parse_context x"
  by (simp add: parse_context_def fun_eq_iff cong: if_cong)

text \<open>C15: with the default options the extracted context does not depend on the command line: any
  change to the texts of \<^verbatim>\<open>CommandLine\<close> fields of \<^verbatim>\<open>RuntimeProperties\<close> leaves every extracted value as
  it was.\<close>

theorem extract_context_hides_command_line:
  assumes "same_but_command_line x document t"
  shows "extract_context (x\<lparr>node_text := t\<rparr>) default_extraction_options document
    = extract_context x default_extraction_options document"
  by (rule extract_context_same [OF assms])

text \<open>A document with one section and two fields, as an instance of the XML library's interface.\<close>

definition sample_roxml :: "(unit, nat) roxml" where
  "sample_roxml =
     \<lparr>parse_with_options = (\<lambda>_ _. Inr ()), root_element = (\<lambda>_. 0), root_pos = (\<lambda>_. (1, 1)),
      children = (\<lambda>n. if n = 0 then [1] else if n = 1 then [2, 3] else []),
      is_element = (\<lambda>_. True),
      tag_name = (\<lambda>n. if n = 0 then crash_context_root else if n = 1 then lit ''RuntimeProperties''
                      else if n = 2 then lit ''CommandLine'' else lit ''CrashGUID''),
      node_text = (\<lambda>n. if n = 2 then Some (lit ''-token=abc'') else if n = 3 then Some (lit ''UECC-1'') else None)\<rparr>"

theorem extract_context_hides_command_line_witness:
  "same_but_command_line sample_roxml () (\<lambda>n. if n = 3 then Some (lit ''UECC-1'') else None) \<and>
   extract_context (sample_roxml\<lparr>node_text := (\<lambda>n. if n = 3 then Some (lit ''UECC-1'') else None)\<rparr>)
     default_extraction_options ()
   = extract_context sample_roxml default_extraction_options ()"
proof -
  have h: "same_but_command_line sample_roxml () (\<lambda>n. if n = 3 then Some (lit ''UECC-1'') else None)"
    by (auto simp: same_but_command_line_def sample_roxml_def sections_def fields_def)
  show ?thesis using h extract_context_hides_command_line [OF h] by blast
qed

subsection \<open>Signals rest on evidence\<close>

definition message_evidence :: "ustring list" where
  "message_evidence = [lit ''crash_context.error_message_oom'', lit ''crash_context.error_message_gpu'']"

text \<open>the classification of a document agrees with its extracted crash type and is certain exactly
  when that type is known; each kind of signal is reported at most once, always with distinct
  evidence, with high confidence exactly when some evidence is structured (not from the error
  message), and never with low confidence.\<close>

theorem classification_evidence:
  "cls_crash_type (classification x document) = ctx_crash_type (extract_context x options document)
   \<and> (cls_confidence (classification x document) = High
        \<longleftrightarrow> ctx_crash_type (extract_context x options document) \<noteq> CT_Unknown)
   \<and> distinct (map sig_kind (cls_signals (classification x document)))
   \<and> list_all (\<lambda>s. sig_evidence s \<noteq> [] \<and> distinct (sig_evidence s) \<and> sig_confidence s \<noteq> Low
        \<and> (sig_confidence s = High \<longleftrightarrow> \<not> set (sig_evidence s) \<subseteq> set message_evidence))
      (cls_signals (classification x document))"
  by (simp add: classification_def classify_crash_context_def extract_context_def Let_def
      message_evidence_def del: first_field_value.simps)

end
