(* ===== verification/Utf8.thy ===== *)
theory Utf8
  imports Rust_Text
begin

section \<open>UTF-8 and byte offsets into strings\<close>

text \<open>
  The bytes of a string, the two decoders of the standard library and slicing at byte offsets.
  \<open>utf8_next\<close> reads one scalar value or, at an ill-formed sequence, skips its maximal well-formed
  beginning, which \<^verbatim>\<open>String::from_utf8_lossy\<close> replaces by one U+FFFD and \<^verbatim>\<open>str::from_utf8\<close> rejects.
  \<open>slice_from s n\<close> is \<^verbatim>\<open>&s[n..]\<close>: \<open>None\<close> is the panic at an offset that is not a character boundary.
\<close>

subsection \<open>Encoding\<close>

definition utf8_char :: "uchar \<Rightarrow> byte list" where
  "utf8_char c = map byte_of
     (if c < 0x80 then [c]
      else if c < 0x800 then [0xC0 + c div 64, 0x80 + c mod 64]
      else if c < 0x10000 then [0xE0 + c div 4096, 0x80 + c div 64 mod 64, 0x80 + c mod 64]
      else [0xF0 + c div 262144, 0x80 + c div 4096 mod 64, 0x80 + c div 64 mod 64, 0x80 + c mod 64])"

definition utf8_len :: "uchar \<Rightarrow> nat" where
  "utf8_len c = (if c < 0x80 then 1 else if c < 0x800 then 2 else if c < 0x10000 then 3 else 4)"

definition utf8 :: "ustring \<Rightarrow> byte list" where
  "utf8 s = concat (map utf8_char s)"

text \<open>\<^verbatim>\<open>str::len\<close>\<close>

definition str_len :: "ustring \<Rightarrow> nat" where
  "str_len s = sum_list (map utf8_len s)"

lemma length_utf8_char [simp]: "length (utf8_char c) = utf8_len c"
  by (simp add: utf8_char_def utf8_len_def)

lemma utf8_len_bounds: "1 \<le> utf8_len c" "utf8_len c \<le> 4"
  by (simp_all add: utf8_len_def)

lemma utf8_char_nonempty [simp]: "utf8_char c \<noteq> []"
  by (simp add: utf8_char_def)

lemma length_utf8 [simp]: "length (utf8 s) = str_len s"
  by (induction s) (simp_all add: utf8_def str_len_def)

lemma utf8_simps [simp]:
  "utf8 [] = []" "utf8 (c # s) = utf8_char c @ utf8 s" "utf8 (s @ t) = utf8 s @ utf8 t"
  by (simp_all add: utf8_def)

lemma str_len_simps [simp]:
  "str_len [] = 0" "str_len (c # s) = utf8_len c + str_len s" "str_len (s @ t) = str_len s + str_len t"
  by (simp_all add: str_len_def)

lemma str_len_le: "str_len s \<le> 4 * length s"
proof (induction s)
  case (Cons c s)
  then show ?case using utf8_len_bounds(2) [of c] by simp
qed simp

lemma length_le_str_len: "length s \<le> str_len s"
proof (induction s)
  case (Cons c s)
  then show ?case using utf8_len_bounds(1) [of c] by simp
qed simp

lemma str_len_eq_0 [simp]: "str_len s = 0 \<longleftrightarrow> s = []"
  using length_le_str_len [of s] by (cases s) (auto simp: utf8_len_def)

subsection \<open>Decoding\<close>

definition is_cont :: "byte \<Rightarrow> bool" where
  "is_cont b \<longleftrightarrow> 0x80 \<le> unat b \<and> unat b \<le> 0xBF"

text \<open>The range of the second byte depends on the first: no overlong forms, surrogates or values
  above U+10FFFF.\<close>

definition second_ok :: "nat \<Rightarrow> byte \<Rightarrow> bool" where
  "second_ok n b \<longleftrightarrow>
     (if n = 0xE0 then 0xA0 else if n = 0xF0 then 0x90 else 0x80) \<le> unat b \<and>
     unat b \<le> (if n = 0xED then 0x9F else if n = 0xF4 then 0x8F else 0xBF)"

definition bits6 :: "byte \<Rightarrow> nat" where
  "bits6 b = unat b - 0x80"

fun utf8_tail3 :: "nat \<Rightarrow> byte list \<Rightarrow> uchar option \<times> byte list" where
  "utf8_tail3 n [] = (None, [])"
| "utf8_tail3 n [b1] = (None, if second_ok n b1 then [] else [b1])"
| "utf8_tail3 n (b1 # b2 # bs) =
     (if \<not> second_ok n b1 then (None, b1 # b2 # bs)
      else if \<not> is_cont b2 then (None, b2 # bs)
      else (Some ((n - 0xE0) * 4096 + bits6 b1 * 64 + bits6 b2), bs))"

fun utf8_tail4 :: "nat \<Rightarrow> byte list \<Rightarrow> uchar option \<times> byte list" where
  "utf8_tail4 n [] = (None, [])"
| "utf8_tail4 n [b1] = (None, if second_ok n b1 then [] else [b1])"
| "utf8_tail4 n [b1, b2] =
     (None, if \<not> second_ok n b1 then [b1, b2] else if is_cont b2 then [] else [b2])"
| "utf8_tail4 n (b1 # b2 # b3 # bs) =
     (if \<not> second_ok n b1 then (None, b1 # b2 # b3 # bs)
      else if \<not> is_cont b2 then (None, b2 # b3 # bs)
      else if \<not> is_cont b3 then (None, b3 # bs)
      else (Some ((n - 0xF0) * 262144 + bits6 b1 * 4096 + bits6 b2 * 64 + bits6 b3), bs))"

fun utf8_tail2 :: "nat \<Rightarrow> byte list \<Rightarrow> uchar option \<times> byte list" where
  "utf8_tail2 n [] = (None, [])"
| "utf8_tail2 n (b1 # bs) =
     (if is_cont b1 then (Some ((n - 0xC0) * 64 + bits6 b1), bs) else (None, b1 # bs))"

definition utf8_next :: "byte \<Rightarrow> byte list \<Rightarrow> uchar option \<times> byte list" where
  "utf8_next b bs =
     (let n = unat b in
      if n < 0x80 then (Some n, bs)
      else if 0xC2 \<le> n \<and> n \<le> 0xDF then utf8_tail2 n bs
      else if 0xE0 \<le> n \<and> n \<le> 0xEF then utf8_tail3 n bs
      else if 0xF0 \<le> n \<and> n \<le> 0xF4 then utf8_tail4 n bs
      else (None, bs))"

lemma utf8_tail_length:
  "length (snd (utf8_tail2 n bs)) \<le> length bs"
  "length (snd (utf8_tail3 n bs)) \<le> length bs"
  "length (snd (utf8_tail4 n bs)) \<le> length bs"
proof -
  show "length (snd (utf8_tail2 n bs)) \<le> length bs"
    by (induction n bs rule: utf8_tail2.induct) simp_all
  show "length (snd (utf8_tail3 n bs)) \<le> length bs"
    by (induction n bs rule: utf8_tail3.induct) simp_all
  show "length (snd (utf8_tail4 n bs)) \<le> length bs"
    by (induction n bs rule: utf8_tail4.induct) simp_all
qed

lemma utf8_next_length: "length (snd (utf8_next b bs)) \<le> length bs"
  by (simp add: utf8_next_def Let_def utf8_tail_length)

function from_utf8 :: "byte list \<Rightarrow> ustring option" where
  "from_utf8 [] = Some []"
| "from_utf8 (b # bs) =
     (case fst (utf8_next b bs) of
        None \<Rightarrow> None
      | Some c \<Rightarrow> map_option ((#) c) (from_utf8 (snd (utf8_next b bs))))"
  by pat_completeness auto
termination
  by (relation "measure length") (auto simp: less_Suc_eq_le utf8_next_length)

function from_utf8_lossy :: "byte list \<Rightarrow> ustring" where
  "from_utf8_lossy [] = []"
| "from_utf8_lossy (b # bs) =
     unwrap_or (fst (utf8_next b bs)) 0xFFFD # from_utf8_lossy (snd (utf8_next b bs))"
  by pat_completeness auto
termination
  by (relation "measure length") (auto simp: less_Suc_eq_le utf8_next_length)

subsection \<open>Round trips\<close>

text \<open>The 6-bit groups of a code point.\<close>

lemma groups3:
  obtains d m r where "c = d * 4096 + m * 64 + r" "m < 64" "r < 64"
    "c div 4096 = d" "c div 64 mod 64 = m" "c mod 64 = (r :: nat)"
proof (rule that [of "c div 4096" "c div 64 mod 64" "c mod 64"])
  have "c div 4096 = c div 64 div 64" by (simp flip: div_mult2_eq)
  moreover have "c div 64 div 64 * 64 + c div 64 mod 64 = c div 64" by simp
  moreover have "c div 64 * 64 + c mod 64 = c" by simp
  ultimately show "c = c div 4096 * 4096 + c div 64 mod 64 * 64 + c mod 64" by linarith
qed simp_all

lemma groups4:
  obtains e d m r where "c = e * 262144 + d * 4096 + m * 64 + r" "d < 64" "m < 64" "r < 64"
    "c div 262144 = e" "c div 4096 mod 64 = d" "c div 64 mod 64 = m" "c mod 64 = (r :: nat)"
proof -
  obtain x m r where x: "c = x * 4096 + m * 64 + r" "m < 64" "r < 64"
    "c div 4096 = x" "c div 64 mod 64 = m" "c mod 64 = r" by (rule groups3)
  have "c div 262144 = x div 64" by (simp flip: x(4) div_mult2_eq)
  moreover have "x div 64 * 64 + x mod 64 = x" by simp
  ultimately have "c = x div 64 * 262144 + x mod 64 * 4096 + m * 64 + r" "c div 262144 = x div 64"
    using x(1) by linarith+
  with x show thesis by (intro that [of "x div 64" "x mod 64" m r]) simp_all
qed

lemma groups3_eq:
  assumes "m < 64" "r < 64" "c = d * 4096 + m * 64 + (r :: nat)"
  shows "c div 4096 = d" "c div 64 mod 64 = m" "c mod 64 = r"
proof -
  have c: "c = r + (d * 64 + m) * 64" using assms by simp
  then have q: "c div 64 = d * 64 + m" using assms(2) by simp
  have "c mod 64 = r mod 64" unfolding c by (rule mod_mult_self1)
  with assms(2) have "c mod 64 = r" by simp
  show "c div 64 mod 64 = m" using q assms(1) by simp
  show "c mod 64 = r" by fact
  have "c div 4096 = c div 64 div 64" by (simp flip: div_mult2_eq)
  then show "c div 4096 = d" using q assms by simp
qed

lemma groups4_eq:
  assumes "d < 64" "m < 64" "r < 64" "c = e * 262144 + d * 4096 + m * 64 + (r :: nat)"
  shows "c div 262144 = e" "c div 4096 mod 64 = d" "c div 64 mod 64 = m" "c mod 64 = r"
proof -
  have c: "c = (e * 64 + d) * 4096 + m * 64 + r" using assms by simp
  note g = groups3_eq [OF assms(2,3) c]
  then show "c div 64 mod 64 = m" "c mod 64 = r" by simp_all
  show "c div 4096 mod 64 = d" using g(1) assms by simp
  have "c div 262144 = c div 4096 div 64" by (simp flip: div_mult2_eq)
  then show "c div 262144 = e" using g(1) assms by simp
qed

lemma utf8_next_char:
  assumes "is_scalar c" and "utf8_char c = b # bs"
  shows "utf8_next b (bs @ r) = (Some c, r)"
proof -
  consider (1) "c < 0x80" | (2) "0x80 \<le> c" "c < 0x800" | (3) "0x800 \<le> c" "c < 0x10000"
    | (4) "0x10000 \<le> c" by linarith
  then show ?thesis
  proof cases
    case 1
    with assms(2) have "b = byte_of c" "bs = []" by (auto simp: utf8_char_def)
    with 1 show ?thesis by (simp add: utf8_next_def unat_byte_of)
  next
    case 2
    with assms(2) have b: "b = byte_of (0xC0 + c div 64)" "bs = [byte_of (0x80 + c mod 64)]"
      by (auto simp: utf8_char_def)
    have "2 \<le> c div 64" "c div 64 < 32" using 2 by auto
    then have "unat b = 0xC0 + c div 64" by (simp add: b unat_byte_of)
    then show ?thesis using \<open>2 \<le> c div 64\<close> \<open>c div 64 < 32\<close>
      by (simp add: utf8_next_def b(2) is_cont_def bits6_def unat_byte_of)
  next
    case 3
    obtain d m r where g: "c = d * 4096 + m * 64 + r" "m < 64" "r < 64"
      "c div 4096 = d" "c div 64 mod 64 = m" "c mod 64 = r" by (rule groups3)
    from 3 assms(2) have b: "b = byte_of (0xE0 + d)" "bs = [byte_of (0x80 + m), byte_of (0x80 + r)]"
      by (auto simp: utf8_char_def g(4-6))
    have n: "d < 16" using 3 g by linarith
    moreover have "second_ok (0xE0 + d) (byte_of (0x80 + m))"
    proof -
      have "d = 0 \<Longrightarrow> 32 \<le> m" using 3 g by linarith
      moreover have "d = 13 \<Longrightarrow> m \<le> 31" using assms(1) g by (auto simp: is_scalar_def)
      ultimately show ?thesis using n g(2) by (auto simp: second_ok_def unat_byte_of)
    qed
    ultimately show ?thesis using g(2,3)
      by (simp add: utf8_next_def b is_cont_def bits6_def unat_byte_of) (simp add: g(1))
  next
    case 4
    obtain e d m r where g: "c = e * 262144 + d * 4096 + m * 64 + r" "d < 64" "m < 64" "r < 64"
      "c div 262144 = e" "c div 4096 mod 64 = d" "c div 64 mod 64 = m" "c mod 64 = r" by (rule groups4)
    from 4 assms(2) have b: "b = byte_of (0xF0 + e)"
      "bs = [byte_of (0x80 + d), byte_of (0x80 + m), byte_of (0x80 + r)]"
      by (auto simp: utf8_char_def g(5-8))
    have c: "c < 0x110000" using assms(1) 4 by (auto simp: is_scalar_def)
    then have n: "e < 5" using g by linarith
    moreover have "second_ok (0xF0 + e) (byte_of (0x80 + d))"
    proof -
      have "e = 0 \<Longrightarrow> 16 \<le> d" using 4 g by linarith
      moreover have "e = 4 \<Longrightarrow> d \<le> 15" using c g by linarith
      ultimately show ?thesis using n g(2) by (auto simp: second_ok_def unat_byte_of)
    qed
    ultimately show ?thesis using g(2-4)
      by (simp add: utf8_next_def b is_cont_def bits6_def unat_byte_of) (simp add: g(1))
  qed
qed

lemma from_utf8_utf8: "\<forall>c \<in> set s. is_scalar c \<Longrightarrow> from_utf8 (utf8 s) = Some s"
proof (induction s)
  case (Cons c s)
  obtain b bs where b: "utf8_char c = b # bs" by (cases "utf8_char c") auto
  with Cons.prems have "utf8_next b (bs @ utf8 s) = (Some c, utf8 s)"
    by (intro utf8_next_char) auto
  with Cons b show ?case by simp
qed simp

lemma from_utf8_lossy_utf8: "\<forall>c \<in> set s. is_scalar c \<Longrightarrow> from_utf8_lossy (utf8 s) = s"
proof (induction s)
  case (Cons c s)
  obtain b bs where b: "utf8_char c = b # bs" by (cases "utf8_char c") auto
  with Cons.prems have "utf8_next b (bs @ utf8 s) = (Some c, utf8 s)"
    by (intro utf8_next_char) auto
  with Cons b show ?case by simp
qed simp

lemma contD:
  assumes "is_cont b"
  shows "bits6 b < 64" and "byte_of (0x80 + bits6 b) = b"
  using assms by (auto simp: is_cont_def bits6_def)

lemma utf8_tail2_sound:
  assumes "utf8_tail2 (unat b) bs = (Some c, r)" and "0xC2 \<le> unat b" and "unat b \<le> 0xDF"
  shows "is_scalar c \<and> b # bs = utf8_char c @ r"
proof -
  from assms(1) obtain b1 where b1: "bs = b1 # r" "is_cont b1" "c = (unat b - 0xC0) * 64 + bits6 b1"
    by (cases bs) (auto split: if_splits)
  note six = contD [OF b1(2)]
  then have "c div 64 = unat b - 0xC0" "c mod 64 = bits6 b1" by (simp_all add: b1(3))
  moreover have "0x80 \<le> c" "c < 0x800" using assms(2,3) six by (auto simp: b1(3))
  ultimately show ?thesis using assms(2) six
    by (simp add: utf8_char_def is_scalar_def b1(1))
qed

lemma utf8_tail3_sound:
  assumes "utf8_tail3 (unat b) bs = (Some c, r)" and "0xE0 \<le> unat b" and "unat b \<le> 0xEF"
  shows "is_scalar c \<and> b # bs = utf8_char c @ r"
proof -
  from assms(1) obtain b1 b2 where bs: "bs = b1 # b2 # r" "second_ok (unat b) b1" "is_cont b2"
    and c: "c = (unat b - 0xE0) * 4096 + bits6 b1 * 64 + bits6 b2"
    by (cases "(unat b, bs)" rule: utf8_tail3.cases) (auto split: if_splits)
  have "is_cont b1" using bs(2) by (auto simp: second_ok_def is_cont_def split: if_splits)
  note six = contD [OF this] contD [OF bs(3)]
  note g = groups3_eq [OF six(1,3) c]
  have "0x800 \<le> c" "c < 0x10000" "\<not> (0xD800 \<le> c \<and> c < 0xE000)"
    using bs(2) six assms(2,3) by (auto simp: c second_ok_def bits6_def split: if_splits)
  then show ?thesis using assms(2) six
    by (auto simp: utf8_char_def is_scalar_def bs(1) g)
qed

lemma utf8_tail4_sound:
  assumes "utf8_tail4 (unat b) bs = (Some c, r)" and "0xF0 \<le> unat b" and "unat b \<le> 0xF4"
  shows "is_scalar c \<and> b # bs = utf8_char c @ r"
proof -
  from assms(1) obtain b1 b2 b3 where bs: "bs = b1 # b2 # b3 # r" "second_ok (unat b) b1"
      "is_cont b2" "is_cont b3"
    and c: "c = (unat b - 0xF0) * 262144 + bits6 b1 * 4096 + bits6 b2 * 64 + bits6 b3"
    by (cases "(unat b, bs)" rule: utf8_tail4.cases) (auto split: if_splits)
  have "is_cont b1" using bs(2) by (auto simp: second_ok_def is_cont_def split: if_splits)
  note six = contD [OF this] contD [OF bs(3)] contD [OF bs(4)]
  note g = groups4_eq [OF six(1,3,5) c]
  have b: "unat b = 0xF0 + (unat b - 0xF0)" "unat b - 0xF0 \<le> 4" using assms(2,3) by linarith+
  have "unat b - 0xF0 = 0 \<Longrightarrow> 16 \<le> bits6 b1" and "unat b - 0xF0 = 4 \<Longrightarrow> bits6 b1 \<le> 15"
    using bs(2) assms(2,3) unfolding second_ok_def bits6_def by (auto split: if_splits)
  then have "0x10000 \<le> c" "c < 0x110000"
    using six(1,3,5) b(2) unfolding c by linarith+
  then show ?thesis using assms(2) six
    by (simp add: utf8_char_def is_scalar_def bs(1) g)
qed

lemma utf8_next_sound:
  "utf8_next b bs = (Some c, r) \<Longrightarrow> is_scalar c \<and> b # bs = utf8_char c @ r"
  unfolding utf8_next_def Let_def
  using utf8_tail2_sound [of b bs c r] utf8_tail3_sound [of b bs c r] utf8_tail4_sound [of b bs c r]
  by (simp add: is_scalar_def utf8_char_def split: if_split_asm) auto

lemma from_utf8_sound: "from_utf8 bs = Some s \<Longrightarrow> utf8 s = bs \<and> (\<forall>c \<in> set s. is_scalar c)"
proof (induction bs arbitrary: s rule: from_utf8.induct)
  case (2 b bs)
  then obtain c r t where "utf8_next b bs = (Some c, r)" "from_utf8 r = Some t" "s = c # t"
    by (cases "utf8_next b bs") (auto split: option.splits)
  with 2 show ?case by (auto dest: utf8_next_sound)
qed simp

lemma from_utf8_lossy_scalar: "c \<in> set (from_utf8_lossy bs) \<Longrightarrow> is_scalar c"
proof (induction bs rule: from_utf8_lossy.induct)
  case (2 b bs)
  show ?case
  proof (cases "fst (utf8_next b bs)")
    case None
    with 2 show ?thesis by (auto simp: is_scalar_def)
  next
    case (Some d)
    then have "is_scalar d" using utf8_next_sound [of b bs d] by (metis prod.collapse)
    with 2 Some show ?thesis by auto
  qed
qed simp

subsection \<open>Byte offsets\<close>

fun slice_from :: "ustring \<Rightarrow> nat \<Rightarrow> ustring option" where
  "slice_from s 0 = Some s"
| "slice_from [] (Suc n) = None"
| "slice_from (c # s) (Suc n) = (if utf8_len c \<le> Suc n then slice_from s (Suc n - utf8_len c) else None)"

definition is_char_boundary :: "ustring \<Rightarrow> nat \<Rightarrow> bool" where
  "is_char_boundary s n \<longleftrightarrow> slice_from s n \<noteq> None"

text \<open>\<^verbatim>\<open>str::find(char)\<close>: the byte offset of the first occurrence.\<close>

fun str_find :: "uchar \<Rightarrow> ustring \<Rightarrow> nat option" where
  "str_find a [] = None"
| "str_find a (c # s) = (if c = a then Some 0 else map_option (\<lambda>n. utf8_len c + n) (str_find a s))"

lemma slice_from_eq_Some:
  "slice_from s n = Some t \<longleftrightarrow> (\<exists>u. s = u @ t \<and> str_len u = n)"
proof (induction s n rule: slice_from.induct)
  case (1 s)
  then show ?case by auto
next
  case (2 n)
  then show ?case by auto
next
  case (3 c s n)
  have pos: "1 \<le> utf8_len c" by (rule utf8_len_bounds)
  have "(\<exists>u. c # s = u @ t \<and> str_len u = Suc n) \<longleftrightarrow>
    (\<exists>v. s = v @ t \<and> utf8_len c + str_len v = Suc n)"
    by (auto simp: Cons_eq_append_conv)
  with 3 pos show ?case by (cases "utf8_len c \<le> Suc n") auto
qed

lemma is_char_boundary_iff:
  "is_char_boundary s n \<longleftrightarrow> (\<exists>u t. s = u @ t \<and> str_len u = n)"
  using slice_from_eq_Some [of s n] by (auto simp: is_char_boundary_def)

lemma slice_from_utf8: "slice_from s n = Some t \<Longrightarrow> utf8 t = drop n (utf8 s)"
  by (auto simp: slice_from_eq_Some)

lemma slice_from_len: "slice_from s n = Some t \<Longrightarrow> str_len t = str_len s - n \<and> n \<le> str_len s"
  by (auto simp: slice_from_eq_Some)

lemma slice_from_suffix: "slice_from s n = Some t \<Longrightarrow> suffix t s"
  by (auto simp: slice_from_eq_Some suffix_def)

lemma slice_from_slice:
  "slice_from s n = Some t \<Longrightarrow> slice_from t m = Some u \<Longrightarrow> slice_from s (n + m) = Some u"
  by (fastforce simp: slice_from_eq_Some)

lemma str_find_Some:
  "str_find a s = Some n \<Longrightarrow> \<exists>u t. s = u @ a # t \<and> a \<notin> set u \<and> str_len u = n"
proof (induction s arbitrary: n)
  case (Cons c s)
  show ?case
  proof (cases "c = a")
    case True
    with Cons.prems have "c # s = [] @ a # s \<and> a \<notin> set [] \<and> str_len [] = n" by simp
    then show ?thesis by blast
  next
    case False
    with Cons.prems obtain m where m: "str_find a s = Some m" "n = utf8_len c + m" by auto
    from Cons.IH [OF m(1)] obtain u t where "s = u @ a # t" "a \<notin> set u" "str_len u = m" by blast
    with False m(2) have "c # s = (c # u) @ a # t \<and> a \<notin> set (c # u) \<and> str_len (c # u) = n" by simp
    then show ?thesis by blast
  qed
qed simp

lemma str_find_None: "str_find a s = None \<longleftrightarrow> a \<notin> set s"
  by (induction s) auto

text \<open>A byte that starts a character of an encoded string is not a continuation byte, and a string's
  continuation bytes never equal an ASCII byte.\<close>

lemma hd_utf8_char: "is_scalar c \<Longrightarrow> \<not> is_cont (hd (utf8_char c))"
proof -
  assume "is_scalar c"
  then have "c < 0x110000" by (auto simp: is_scalar_def)
  then have "c div 262144 < 5" "c < 0x10000 \<Longrightarrow> c div 4096 < 16" "c < 0x800 \<Longrightarrow> c div 64 < 32"
    by auto
  then show ?thesis by (auto simp: utf8_char_def is_cont_def unat_byte_of)
qed

lemma tl_utf8_char: "is_scalar c \<Longrightarrow> b \<in> set (tl (utf8_char c)) \<Longrightarrow> is_cont b"
  by (auto simp: utf8_char_def is_cont_def unat_byte_of split: if_splits)

text \<open>The newline byte occurs in the encoding exactly where the newline character does.\<close>

lemma newline_in_utf8_char: "is_scalar c \<Longrightarrow> byte_of 10 \<in> set (utf8_char c) \<Longrightarrow> c = 10"
proof -
  assume c: "is_scalar c" and "byte_of 10 \<in> set (utf8_char c)"
  then consider "byte_of 10 = hd (utf8_char c)" | "byte_of 10 \<in> set (tl (utf8_char c))"
    by (metis list.collapse set_ConsD utf8_char_nonempty)
  then show "c = 10"
  proof cases
    case 1
    have "c < 0x110000" using c by (auto simp: is_scalar_def)
    then have b: "c div 262144 < 5" "c < 0x10000 \<Longrightarrow> c div 4096 < 16" "c < 0x800 \<Longrightarrow> c div 64 < 32"
      by auto
    have "unat (byte_of 10) = unat (hd (utf8_char c))" using 1 by simp
    with b show ?thesis by (auto simp: utf8_char_def unat_byte_of split: if_splits)
  next
    case 2
    then have "is_cont (byte_of 10)" using c by (rule tl_utf8_char [rotated])
    then show ?thesis by (simp add: is_cont_def unat_byte_of)
  qed
qed

end
