(* ===== verification/Log_Tail.thy ===== *)
theory Log_Tail
  imports Utf8 "HOL-Library.Monad_Syntax"
begin

unbundle bit_operations_syntax

section \<open>Bounded project log tails (crates/unreal)\<close>

text \<open>
  \<^verbatim>\<open>ProjectLogTail::extract\<close> of \<^verbatim>\<open>crates/unreal/src/lib.rs\<close> and its helpers: the last bytes of a log,
  cut at character and line boundaries. Every slice and index of the code that panics out of range
  or off a character boundary is \<open>None\<close> here; the lemmas show that this never happens, that the tail
  respects its limits, and that running it on the last \<^verbatim>\<open>max_bytes + 4\<close> bytes (what the request reader
  retains) gives the same tail as running it on the whole log.
\<close>

record project_log_tail =
  tail_text :: ustring
  truncated :: bool
  invalid_utf8 :: bool

text \<open>The \<^verbatim>\<open>width\<close> of \<^verbatim>\<open>next_utf8_boundary\<close>'s match on a first byte, \<open>None\<close> for its \<^verbatim>\<open>continue\<close>.\<close>

definition first_byte_width :: "byte \<Rightarrow> nat option" where
  "first_byte_width b =
     (let n = unat b in
      if 0xC2 \<le> n \<and> n \<le> 0xDF then Some 2
      else if 0xE0 \<le> n \<and> n \<le> 0xEF then Some 3
      else if 0xF0 \<le> n \<and> n \<le> 0xF4 then Some 4
      else None)"

definition boundary_candidate :: "byte list \<Rightarrow> nat \<Rightarrow> nat \<Rightarrow> nat option" where
  "boundary_candidate input start candidate =
     (case first_byte_width (input ! candidate) of
        None \<Rightarrow> None
      | Some width \<Rightarrow>
          (let e = candidate + width in
           if e > start \<and> e \<le> length input \<and> from_utf8 (take (e - candidate) (drop candidate input)) \<noteq> None
           then Some e else None))"

definition continuation_bits :: "byte \<Rightarrow> bool" where
  "continuation_bits b \<longleftrightarrow> b AND 0xC0 = 0x80"

definition next_utf8_boundary :: "byte list \<Rightarrow> nat \<Rightarrow> nat" where
  "next_utf8_boundary input start =
     (if start = 0 \<or> start \<ge> length input \<or> \<not> continuation_bits (input ! start) then start
      else unwrap_or (find_map (boundary_candidate input start) [start - 3..<start]) start)"

text \<open>The loop of \<^verbatim>\<open>suffix_start\<close>; the length is a boundary, so its second exit is never taken.\<close>

function next_char_boundary :: "ustring \<Rightarrow> nat \<Rightarrow> nat" where
  "next_char_boundary value start =
     (if is_char_boundary value start \<or> str_len value \<le> start then start
      else next_char_boundary value (Suc start))"
  by pat_completeness auto
termination
  by (relation "measure (\<lambda>(v, n). str_len v - n)") auto

declare next_char_boundary.simps [simp del]

definition suffix_start :: "ustring \<Rightarrow> nat \<Rightarrow> nat" where
  "suffix_start value max_bytes =
     (if str_len value \<le> max_bytes then 0 else next_char_boundary value (str_len value - max_bytes))"

fun scan_lines_back :: "byte list \<Rightarrow> nat \<Rightarrow> nat \<Rightarrow> nat \<Rightarrow> nat" where
  "scan_lines_back bytes 0 line_count max_lines = 0"
| "scan_lines_back bytes (Suc index) line_count max_lines =
     (if bytes ! index = byte_of 10
      then (if Suc line_count > max_lines then Suc index
            else scan_lines_back bytes index (Suc line_count) max_lines)
      else scan_lines_back bytes index line_count max_lines)"

definition last_lines_start :: "ustring \<Rightarrow> nat \<Rightarrow> nat" where
  "last_lines_start value max_lines =
     (let bytes = utf8 value;
          scan_end = (if bytes \<noteq> [] \<and> last bytes = byte_of 10 then length bytes - 1 else length bytes)
      in scan_lines_back bytes scan_end 1 max_lines)"

definition extract_tail :: "byte list \<Rightarrow> nat \<Rightarrow> nat \<Rightarrow> project_log_tail option" where
  "extract_tail input max_bytes max_lines =
     (if input = [] then Some \<lparr>tail_text = [], truncated = False, invalid_utf8 = False\<rparr>
      else if max_bytes = 0 \<or> max_lines = 0
      then Some \<lparr>tail_text = [], truncated = True, invalid_utf8 = False\<rparr>
      else do {
        let requested_start = length input - max_bytes;
        let source_start = next_utf8_boundary input requested_start;
        source \<leftarrow> get_range input source_start (length input);
        let invalid = (from_utf8 source = None);
        let decoded = from_utf8_lossy source;
        let byte_start = suffix_start decoded max_bytes;
        byte_bounded \<leftarrow> slice_from decoded byte_start;
        starts_mid_line \<leftarrow>
          (if byte_start > 0 then map_option (\<lambda>b. b \<noteq> byte_of 10) (get_at (utf8 decoded) (byte_start - 1))
           else if source_start > 0 then map_option (\<lambda>b. b \<noteq> byte_of 10) (get_at input (source_start - 1))
           else Some False);
        let partial_line_start =
          (if starts_mid_line
           then (case filter_option (\<lambda>index. index + 1 < str_len byte_bounded) (str_find 10 byte_bounded) of
                   None \<Rightarrow> 0 | Some index \<Rightarrow> index + 1)
           else 0);
        complete_lines \<leftarrow> slice_from byte_bounded partial_line_start;
        let line_start = last_lines_start complete_lines max_lines;
        kept \<leftarrow> slice_from complete_lines line_start;
        Some \<lparr>tail_text = kept,
              truncated = (source_start > 0 \<or> byte_start > 0 \<or> partial_line_start > 0 \<or> line_start > 0),
              invalid_utf8 = invalid\<rparr>
      })"

subsection \<open>The start of the source\<close>

lemma boundary_candidate_bounds:
  "boundary_candidate input start candidate = Some e \<Longrightarrow> start < e \<and> e \<le> length input"
  by (auto simp: boundary_candidate_def Let_def split: option.splits if_splits)

lemma next_utf8_boundary_ge: "start \<le> next_utf8_boundary input start"
proof (cases "find_map (boundary_candidate input start) [start - 3..<start]")
  case (Some e)
  then have "start < e" by (auto dest!: find_map_Some boundary_candidate_bounds)
  with Some show ?thesis by (simp add: next_utf8_boundary_def)
qed (simp add: next_utf8_boundary_def)

lemma next_utf8_boundary_le: "start \<le> length input \<Longrightarrow> next_utf8_boundary input start \<le> length input"
proof (cases "find_map (boundary_candidate input start) [start - 3..<start]")
  case (Some e)
  assume "start \<le> length input"
  moreover have "e \<le> length input" using Some by (auto dest!: find_map_Some boundary_candidate_bounds)
  ultimately show ?thesis using Some by (simp add: next_utf8_boundary_def)
qed (simp add: next_utf8_boundary_def)

lemma next_utf8_boundary_0 [simp]: "next_utf8_boundary input 0 = 0"
  by (simp add: next_utf8_boundary_def)

lemma boundary_candidate_shift:
  assumes "k + candidate < length input"
  shows "boundary_candidate (drop k input) start candidate =
    map_option (\<lambda>e. e - k) (boundary_candidate input (k + start) (k + candidate))"
  using assms
  by (auto simp: boundary_candidate_def Let_def add.commute add.left_commute split: option.splits)

lemma find_map_cong:
  "(\<And>x. x \<in> set xs \<Longrightarrow> f x = g x) \<Longrightarrow> find_map f xs = find_map g xs"
  by (induction xs) (auto split: option.splits)

lemma find_map_map: "find_map f (map g xs) = find_map (f \<circ> g) xs"
  by (induction xs) (auto split: option.splits)

lemma find_map_option: "find_map (\<lambda>x. map_option h (f x)) xs = map_option h (find_map f xs)"
  by (induction xs) (auto split: option.splits)

lemma next_utf8_boundary_shift:
  assumes "3 \<le> start" and "k \<le> length input"
  shows "next_utf8_boundary (drop k input) start = next_utf8_boundary input (k + start) - k"
proof (cases "k + start < length input \<and> continuation_bits (input ! (k + start))")
  case False
  then show ?thesis using assms by (auto simp: next_utf8_boundary_def)
next
  case True
  have "[k + start - 3..<k + start] = map ((+) k) [start - 3..<start]"
    using assms(1) by (intro nth_equalityI) auto
  then have "find_map (boundary_candidate input (k + start)) [k + start - 3..<k + start]
    = find_map (\<lambda>c. boundary_candidate input (k + start) (k + c)) [start - 3..<start]"
    by (simp add: find_map_map comp_def)
  moreover have "find_map (boundary_candidate (drop k input) start) [start - 3..<start]
    = map_option (\<lambda>e. e - k) (find_map (\<lambda>c. boundary_candidate input (k + start) (k + c)) [start - 3..<start])"
    unfolding find_map_option [symmetric]
    using True by (intro find_map_cong boundary_candidate_shift) auto
  ultimately have *: "find_map (boundary_candidate (drop k input) start) [start - 3..<start]
    = map_option (\<lambda>e. e - k) (find_map (boundary_candidate input (k + start)) [k + start - 3..<k + start])"
    by simp
  show ?thesis using True assms(1) unfolding next_utf8_boundary_def *
    by (cases "find_map (boundary_candidate input (k + start)) [k + start - 3..<k + start]") auto
qed

subsection \<open>The start of the text\<close>

lemma is_char_boundary_len: "is_char_boundary s (str_len s)"
  by (auto simp: is_char_boundary_iff)

lemma next_char_boundary_props:
  assumes "n \<le> str_len s"
  shows "n \<le> next_char_boundary s n" and "next_char_boundary s n \<le> str_len s"
    and "is_char_boundary s (next_char_boundary s n)"
  using assms
proof (induction s n rule: next_char_boundary.induct)
  case (1 s n)
  have *: "next_char_boundary s n = (if is_char_boundary s n \<or> str_len s \<le> n then n
      else next_char_boundary s (Suc n))" by (rule next_char_boundary.simps)
  { case 1 show ?case using "1.IH"(1) 1 by (subst *) (auto simp: not_less_eq_eq) }
  { case 2 show ?case using "1.IH"(2) 2 by (subst *) (auto simp: not_less_eq_eq) }
  { case 3 show ?case using "1.IH"(3) 3 is_char_boundary_len [of s]
      by (subst *) (auto simp: not_less_eq_eq dest: order.antisym) }
qed

lemma suffix_start_slice:
  obtains t where "slice_from s (suffix_start s max_bytes) = Some t" "str_len t \<le> max_bytes"
proof (cases "str_len s \<le> max_bytes")
  case True
  then show thesis by (intro that [of s]) (simp_all add: suffix_start_def)
next
  case False
  let ?n = "next_char_boundary s (str_len s - max_bytes)"
  have b: "str_len s - max_bytes \<le> ?n" "is_char_boundary s ?n"
    by (simp_all add: next_char_boundary_props)
  then obtain t where t: "slice_from s ?n = Some t" by (auto simp: is_char_boundary_def)
  have "str_len t \<le> max_bytes" using slice_from_len [OF t] b(1) by linarith
  with t False show thesis by (intro that [of t]) (simp_all add: suffix_start_def)
qed

lemma suffix_start_bounds: "suffix_start s max_bytes \<le> str_len s"
  by (simp add: suffix_start_def next_char_boundary_props)

lemma suffix_start_pos: "max_bytes < str_len s \<Longrightarrow> 0 < suffix_start s max_bytes"
  using next_char_boundary_props(1) [of "str_len s - max_bytes" s] by (simp add: suffix_start_def)

lemma str_find_slice:
  assumes "str_find 10 s = Some n"
  shows "\<exists>t. slice_from s (n + 1) = Some t"
proof -
  obtain u t where "s = u @ 10 # t" "str_len u = n" using str_find_Some [OF assms] by blast
  then have "s = (u @ [10]) @ t \<and> str_len (u @ [10]) = n + 1" by (simp add: utf8_len_def)
  then show ?thesis unfolding slice_from_eq_Some by blast
qed

subsection \<open>The last lines\<close>

text \<open>The number of lines of a text: its newlines, one more when the last line is not ended.\<close>

definition count_lines :: "byte list \<Rightarrow> nat" where
  "count_lines bs = count_list bs (byte_of 10) + (if bs \<noteq> [] \<and> last bs \<noteq> byte_of 10 then 1 else 0)"

lemma scan_lines_back_le: "scan_lines_back bytes n k max_lines \<le> n"
proof (induction n arbitrary: k)
  case (Suc n)
  then show ?case using le_SucI [OF Suc.IH] by auto
qed simp

lemma scan_lines_back_newline:
  "scan_lines_back bytes n k max_lines = Suc i \<Longrightarrow> bytes ! i = byte_of 10"
  by (induction n arbitrary: k) (auto split: if_splits)

lemma scan_lines_back_count:
  assumes "n \<le> length bytes" and "k \<le> max_lines"
  shows "k + count_list (drop (scan_lines_back bytes n k max_lines) (take n bytes)) (byte_of 10) \<le> max_lines"
  using assms
proof (induction n arbitrary: k)
  case (Suc n)
  have tk: "take (Suc n) bytes = take n bytes @ [bytes ! n]"
    using Suc.prems by (simp add: take_Suc_conv_app_nth)
  show ?case
  proof (cases "bytes ! n = byte_of 10")
    case False
    have "scan_lines_back bytes n k max_lines \<le> n" by (rule scan_lines_back_le)
    with Suc False show ?thesis by (simp add: tk)
  next
    case True
    show ?thesis
    proof (cases "Suc k > max_lines")
      case True
      with \<open>bytes ! n = byte_of 10\<close> Suc.prems show ?thesis by simp
    next
      case False
      have "scan_lines_back bytes n (Suc k) max_lines \<le> n" by (rule scan_lines_back_le)
      with Suc.IH [of "Suc k"] Suc.prems False True show ?thesis by (simp add: tk)
    qed
  qed
qed simp

lemma newline_byte:
  assumes "\<forall>c \<in> set s. is_scalar c" and "j < str_len s" and "utf8 s ! j = byte_of 10"
  shows "\<exists>u t. s = u @ 10 # t \<and> str_len u = j"
  using assms
proof (induction s arbitrary: j)
  case (Cons c s)
  show ?case
  proof (cases "j < utf8_len c")
    case True
    with Cons.prems have "byte_of 10 = utf8_char c ! j" by (simp add: nth_append)
    with True have "byte_of 10 \<in> set (utf8_char c)" by (metis length_utf8_char nth_mem)
    with Cons.prems have "c = 10" by (intro newline_in_utf8_char) auto
    with True have "c # s = [] @ 10 # s \<and> str_len [] = j" by (simp add: utf8_len_def)
    then show ?thesis by blast
  next
    case False
    with Cons.prems have "utf8 s ! (j - utf8_len c) = byte_of 10" "j - utf8_len c < str_len s"
      by (auto simp: nth_append)
    with Cons.IH [of "j - utf8_len c"] Cons.prems(1)
    obtain u t where "s = u @ 10 # t" "str_len u = j - utf8_len c" by auto
    with False have "c # s = (c # u) @ 10 # t \<and> str_len (c # u) = j" by simp
    then show ?thesis by blast
  qed
qed simp

lemma last_lines_start_le: "last_lines_start s max_lines \<le> str_len s"
  using scan_lines_back_le [of "utf8 s" "str_len s - 1" 1 max_lines]
    scan_lines_back_le [of "utf8 s" "str_len s" 1 max_lines]
  by (auto simp: last_lines_start_def Let_def)

lemma last_lines_start_slice:
  assumes "\<forall>c \<in> set s. is_scalar c"
  shows "\<exists>t. slice_from s (last_lines_start s max_lines) = Some t"
proof (cases "last_lines_start s max_lines")
  case (Suc j)
  then have nl: "utf8 s ! j = byte_of 10"
    by (auto simp: last_lines_start_def Let_def dest: scan_lines_back_newline split: if_splits)
  have "j < str_len s" using last_lines_start_le [of s max_lines] Suc by simp
  with assms nl obtain u t where "s = u @ 10 # t" "str_len u = j" using newline_byte by blast
  then have "s = (u @ [10]) @ t \<and> str_len (u @ [10]) = Suc j" by (simp add: utf8_len_def)
  then show ?thesis unfolding slice_from_eq_Some Suc by blast
qed simp

lemma last_lines_count:
  assumes "slice_from s (last_lines_start s max_lines) = Some t" and "0 < max_lines"
  shows "count_lines (utf8 t) \<le> max_lines"
proof -
  let ?bs = "utf8 s" and ?i = "last_lines_start s max_lines"
  have t: "utf8 t = drop ?i ?bs" by (rule slice_from_utf8 [OF assms(1)])
  show ?thesis
  proof (cases "?bs \<noteq> [] \<and> last ?bs = byte_of 10")
    case True
    let ?n = "length ?bs - 1"
    have i: "?i = scan_lines_back ?bs ?n 1 max_lines" using True by (simp add: last_lines_start_def Let_def)
    then have "?i \<le> ?n" using scan_lines_back_le by metis
    moreover have "?bs = take ?n ?bs @ [byte_of 10]"
      using True by (metis append_butlast_last_id butlast_conv_take)
    ultimately have "drop ?i ?bs = drop ?i (take ?n ?bs) @ [byte_of 10]"
      by (metis drop_append length_take diff_is_0_eq' drop0 diff_le_self min.absorb2)
    moreover have "1 + count_list (drop ?i (take ?n ?bs)) (byte_of 10) \<le> max_lines"
      unfolding i using assms(2) by (intro scan_lines_back_count) auto
    ultimately show ?thesis by (simp add: t count_lines_def)
  next
    case False
    have i: "?i = scan_lines_back ?bs (length ?bs) 1 max_lines"
      using False by (auto simp: last_lines_start_def Let_def)
    have "1 + count_list (drop ?i (take (length ?bs) ?bs)) (byte_of 10) \<le> max_lines"
      unfolding i using assms(2) by (intro scan_lines_back_count) auto
    then show ?thesis by (simp add: t count_lines_def)
  qed
qed

subsection \<open>The tail\<close>

text \<open>Everything the code computes on the way to a tail, with every slice and index in range.\<close>

lemma extract_tail_run:
  assumes "input \<noteq> []" and "0 < max_bytes" and "0 < max_lines"
  obtains start tail where
    "extract_tail input max_bytes max_lines = Some tail"
    "start = next_utf8_boundary input (length input - max_bytes)" "start \<le> length input"
    "suffix (tail_text tail) (from_utf8_lossy (drop start input))"
    "str_len (tail_text tail) \<le> max_bytes"
    "count_lines (utf8 (tail_text tail)) \<le> max_lines"
    "invalid_utf8 tail = (from_utf8 (drop start input) = None)"
    "truncated tail \<longleftrightarrow> start > 0 \<or> tail_text tail \<noteq> from_utf8_lossy (drop start input)"
proof -
  define start where "start = next_utf8_boundary input (length input - max_bytes)"
  have le: "start \<le> length input" unfolding start_def by (rule next_utf8_boundary_le) simp
  define source where "source = drop start input"
  have src: "get_range input start (length input) = Some source"
    using le by (simp add: get_range_eq_Some source_def)
  define decoded where "decoded = from_utf8_lossy source"
  define bs where "bs = suffix_start decoded max_bytes"
  obtain bounded where b: "slice_from decoded bs = Some bounded" "str_len bounded \<le> max_bytes"
    unfolding bs_def by (rule suffix_start_slice)
  have "bs \<le> str_len decoded" unfolding bs_def by (rule suffix_start_bounds)
  then have "(if bs > 0 then map_option (\<lambda>b. b \<noteq> byte_of 10) (get_at (utf8 decoded) (bs - 1))
      else if start > 0 then map_option (\<lambda>b. b \<noteq> byte_of 10) (get_at input (start - 1))
      else Some False) \<noteq> None"
    using le by (auto simp: get_at_def)
  then obtain mid where mid: "(if bs > 0 then map_option (\<lambda>b. b \<noteq> byte_of 10) (get_at (utf8 decoded) (bs - 1))
      else if start > 0 then map_option (\<lambda>b. b \<noteq> byte_of 10) (get_at input (start - 1))
      else Some False) = Some mid"
    by blast
  define part where "part = (if mid then (case filter_option (\<lambda>index. index + 1 < str_len bounded)
      (str_find 10 bounded) of None \<Rightarrow> 0 | Some index \<Rightarrow> index + 1) else 0)"
  have "slice_from bounded part \<noteq> None"
  proof (cases "part")
    case (Suc n)
    then have "str_find 10 bounded = Some n"
      by (auto simp: part_def result_simps split: if_splits option.splits)
    then show ?thesis using str_find_slice [of bounded n] Suc by auto
  qed simp
  then obtain complete where c: "slice_from bounded part = Some complete" by blast
  have "set complete \<subseteq> set decoded"
    using slice_from_suffix [OF b(1)] slice_from_suffix [OF c] by (auto simp: suffix_def)
  then have "\<forall>x \<in> set complete. is_scalar x"
    using from_utf8_lossy_scalar by (auto simp: decoded_def)
  then obtain kept where k: "slice_from complete (last_lines_start complete max_lines) = Some kept"
    using last_lines_start_slice by blast
  let ?tail = "\<lparr>tail_text = kept, truncated = (start > 0 \<or> bs > 0 \<or> part > 0
      \<or> last_lines_start complete max_lines > 0), invalid_utf8 = (from_utf8 source = None)\<rparr>"
  have nz: "(input = []) = False" "(max_bytes = 0 \<or> max_lines = 0) = False" using assms by auto
  have run: "extract_tail input max_bytes max_lines = Some ?tail"
    unfolding extract_tail_def Let_def
    by (simp only: nz if_False start_def [symmetric] src Option.bind.simps decoded_def [symmetric]
        bs_def [symmetric] b(1) mid part_def [symmetric] c k)
  let ?off = "bs + part + last_lines_start complete max_lines"
  have all: "slice_from decoded ?off = Some kept"
    using slice_from_slice [OF slice_from_slice [OF b(1) c] k] by (simp add: add.assoc)
  have "?off = 0 \<longleftrightarrow> kept = decoded"
    using all slice_from_len [OF all] by (cases "?off") auto
  moreover have "str_len kept \<le> max_bytes"
    using b(2) slice_from_len [OF c] slice_from_len [OF k] by linarith
  ultimately show thesis
    using run le slice_from_suffix [OF all] last_lines_count [OF k assms(3)]
    by (intro that [of ?tail start]) (auto simp: source_def decoded_def start_def)
qed

lemma extract_tail_spec:
  "\<exists>tail start. extract_tail input max_bytes max_lines = Some tail
     \<and> str_len (tail_text tail) \<le> max_bytes
     \<and> count_lines (utf8 (tail_text tail)) \<le> max_lines
     \<and> suffix (tail_text tail) (from_utf8_lossy (drop start input))
     \<and> (truncated tail \<or> tail_text tail = from_utf8_lossy input)"
proof (cases "input = [] \<or> max_bytes = 0 \<or> max_lines = 0")
  case True
  then show ?thesis
    by (intro exI [of _ "\<lparr>tail_text = [], truncated = (input \<noteq> []), invalid_utf8 = False\<rparr>"])
       (auto simp: extract_tail_def count_lines_def)
next
  case False
  then obtain start tail where "extract_tail input max_bytes max_lines = Some tail"
    "suffix (tail_text tail) (from_utf8_lossy (drop start input))"
    "str_len (tail_text tail) \<le> max_bytes" "count_lines (utf8 (tail_text tail)) \<le> max_lines"
    "truncated tail \<longleftrightarrow> start > 0 \<or> tail_text tail \<noteq> from_utf8_lossy (drop start input)"
    using extract_tail_run [of input max_bytes max_lines] by (metis neq0_conv)
  then show ?thesis by (intro exI [of _ tail] exI [of _ start]) auto
qed

lemma extract_tail_bounds:
  assumes "extract_tail input max_bytes max_lines = Some tail"
  shows "str_len (tail_text tail) \<le> max_bytes" and "count_lines (utf8 (tail_text tail)) \<le> max_lines"
  using assms extract_tail_spec [of input max_bytes max_lines] by auto

text \<open>The request reader may drop everything but the last \<open>max_bytes + 4\<close> bytes of a log before it
  extracts the tail: the tail, its truncation flag and its UTF-8 flag are those of the whole log.\<close>

lemma extract_tail_of_suffix:
  assumes "max_bytes + 4 \<le> length input"
  shows "extract_tail (drop (length input - (max_bytes + 4)) input) max_bytes max_lines
    = extract_tail input max_bytes max_lines"
proof -
  define k where "k = length input - (max_bytes + 4)"
  have ne: "(input = []) = False" "(drop k input = []) = False" using assms by (auto simp: k_def)
  have req: "length input - max_bytes = k + 4" "length (drop k input) - max_bytes = 4"
    using assms by (auto simp: k_def)
  define start where "start = next_utf8_boundary input (k + 4)"
  have start': "next_utf8_boundary (drop k input) 4 = start - k"
    unfolding start_def using assms by (intro next_utf8_boundary_shift) (auto simp: k_def)
  have ge: "k + 4 \<le> start" unfolding start_def by (rule next_utf8_boundary_ge)
  have le: "start \<le> length input" unfolding start_def
    using assms by (intro next_utf8_boundary_le) (auto simp: k_def)
  have src: "get_range (drop k input) (start - k) (length (drop k input)) = get_range input start (length input)"
    using ge le by (auto simp: get_range_def add.commute)
  have prev: "get_at (drop k input) (start - k - 1) = get_at input (start - 1)"
    using ge le by (auto simp: get_at_def)
  have pos: "(0 < start - k) = True" "(0 < start) = True" using ge by auto
  have "extract_tail (drop k input) max_bytes max_lines = extract_tail input max_bytes max_lines"
    unfolding extract_tail_def Let_def
    by (simp only: req start' start_def [symmetric] src prev pos ne if_False)
  then show ?thesis by (simp add: k_def)
qed

text \<open>C14: the tail of a log is computed without a panic for every input, holds at most \<open>max_bytes\<close>
  bytes and \<open>max_lines\<close> lines, and is a suffix of the (lossily decoded) end of the log; it is reported
  as not truncated only when it is the whole decoded log.\<close>

theorem extract_tail_bounded:
  "\<exists>tail start. extract_tail input max_bytes max_lines = Some tail
     \<and> str_len (tail_text tail) \<le> max_bytes
     \<and> count_lines (utf8 (tail_text tail)) \<le> max_lines
     \<and> suffix (tail_text tail) (from_utf8_lossy (drop start input))
     \<and> (truncated tail \<or> tail_text tail = from_utf8_lossy input)"
  by (rule extract_tail_spec)

end
