(* ===== verification/Rust_Path.thy ===== *)
theory Rust_Path
  imports Rust_Text
begin

section \<open>Paths\<close>

text \<open>
  The part of \<^verbatim>\<open>std::path::Path\<close> the code uses, on Unix: \<open>path_components\<close> drops empty and current-directory
  components, \<open>path_file_name\<close> is the last component unless it is the parent directory, \<open>path_extension\<close> is the
  part after the last dot of the file name, if the part before it is not empty.
\<close>

definition path_components :: "ustring \<Rightarrow> ustring list" where
  "path_components p = filter (\<lambda>c. c \<noteq> [] \<and> c \<noteq> lit ''.'') (split_on (\<lambda>c. c = ch CHR ''/'') p)"

definition path_file_name :: "ustring \<Rightarrow> ustring option" where
  "path_file_name p =
     (let cs = path_components p
      in if cs = [] \<or> last cs = lit ''..'' then None else Some (last cs))"

text \<open>\<^verbatim>\<open>rsplitn(2, c)\<close>: around the last \<open>c\<close>, if there is one.\<close>

definition rsplit_at :: "uchar \<Rightarrow> ustring \<Rightarrow> (ustring \<times> ustring) option" where
  "rsplit_at c name =
     (case dropWhile (\<lambda>x. x \<noteq> c) (rev name) of
        [] \<Rightarrow> None
      | _ # before \<Rightarrow> Some (rev before, rev (takeWhile (\<lambda>x. x \<noteq> c) (rev name))))"

definition path_extension :: "ustring \<Rightarrow> ustring option" where
  "path_extension p = Option.bind (path_file_name p) (\<lambda>name.
     case rsplit_at (ch CHR ''.'') name of None \<Rightarrow> None
     | Some (before, after) \<Rightarrow> if before = [] then None else Some after)"

lemma split_on_none: "\<forall>c \<in> set s. \<not> p c \<Longrightarrow> split_on p s = [s]"
  by (induction s) auto

lemma rsplit_at_Some:
  "rsplit_at c name = Some (before, after) \<longleftrightarrow> name = before @ c # after \<and> c \<notin> set after"
proof
  assume "rsplit_at c name = Some (before, after)"
  then obtain d where rest: "dropWhile (\<lambda>x. x \<noteq> c) (rev name) = d # rev before"
    and after: "after = rev (takeWhile (\<lambda>x. x \<noteq> c) (rev name))"
    by (auto simp: rsplit_at_def split: list.splits)
  have d: "d = c" using rest by (simp add: dropWhile_eq_Cons_conv)
  have "rev name = rev after @ c # rev before"
    using takeWhile_dropWhile_id [of "\<lambda>x. x \<noteq> c" "rev name"] rest after d by simp
  then have "rev (rev name) = rev (rev after @ c # rev before)" by simp
  moreover have "c \<notin> set after" using after by (auto dest: set_takeWhileD)
  ultimately show "name = before @ c # after \<and> c \<notin> set after" by simp
next
  assume a: "name = before @ c # after \<and> c \<notin> set after"
  then have "dropWhile (\<lambda>x. x \<noteq> c) (rev name) = c # rev before"
    by simp (subst dropWhile_append2; auto)
  moreover have "takeWhile (\<lambda>x. x \<noteq> c) (rev name) = rev after"
    using a by simp (subst takeWhile_append2; auto)
  ultimately show "rsplit_at c name = Some (before, after)" by (simp add: rsplit_at_def)
qed

text \<open>The extension of a leaf name.\<close>

lemma path_extension_leaf:
  assumes "ch CHR ''/'' \<notin> set name" and "name \<notin> {[], lit ''.'', lit ''..''}"
  shows "path_extension name = Some e \<longleftrightarrow>
    (\<exists>stem. stem \<noteq> [] \<and> rsplit_at (ch CHR ''.'') name = Some (stem, e))"
proof -
  have "split_on (\<lambda>c. c = ch CHR ''/'') name = [name]" using assms(1) by (intro split_on_none) auto
  then have "path_file_name name = Some name"
    using assms(2) by (simp add: path_file_name_def path_components_def Let_def)
  then show ?thesis by (simp add: path_extension_def split: option.split)
qed

end
