(* ===== verification/Crash_Request.thy ===== *)
theory Crash_Request
  imports Bounded_Readers Crash_Context Log_Tail Rust_Path
begin

section \<open>Crash requests (crates/unreal, request.rs)\<close>

text \<open>
  The decoder of \<^verbatim>\<open>crates/unreal/src/request.rs\<close>: the compressed \<^verbatim>\<open>CR1\<close> envelope that Unreal's Crash
  Report Client posts, read through the bounded readers of \<^theory_text>\<open>Bounded_Readers\<close>. A function of the code
  that reads is a \<open>reading\<close>: from a reader state to a result and the next state, or \<open>None\<close> when it
  does not return (an endlessly interrupted read, or a panic of the log tail).
\<close>

subsection \<open>Data\<close>

definition envelope_magic :: "byte list" where
  "envelope_magic = map byte_of [67, 82, 49]"

definition ansi_field_bytes :: nat where "ansi_field_bytes = 260"
definition read_buffer_bytes :: nat where "read_buffer_bytes = 8 * 1024"

record crash_request_limits =
  lim_compressed_bytes :: nat
  lim_expanded_bytes :: nat
  lim_expansion_ratio :: nat
  lim_files :: nat
  lim_file_bytes :: nat
  lim_crash_context_bytes :: nat
  lim_crash_context_nodes :: nat
  lim_minidump_bytes :: nat
  lim_log_tail_bytes :: nat
  lim_log_tail_lines :: nat

definition default_crash_request_limits :: crash_request_limits where
  "default_crash_request_limits =
     \<lparr>lim_compressed_bytes = 64 * 1024 * 1024, lim_expanded_bytes = 256 * 1024 * 1024,
      lim_expansion_ratio = 200, lim_files = 128, lim_file_bytes = 128 * 1024 * 1024,
      lim_crash_context_bytes = 4 * 1024 * 1024, lim_crash_context_nodes = 100000,
      lim_minidump_bytes = 64 * 1024 * 1024, lim_log_tail_bytes = 64 * 1024, lim_log_tail_lines = 200\<rparr>"

datatype crash_request_file_kind = CrashContextFile | MinidumpFile | LogFile | UnknownFile

record crash_request_file =
  file_index :: nat
  file_name :: ustring
  file_size :: nat
  file_of_kind :: crash_request_file_kind

record crash_request_manifest =
  schema_version :: nat
  envelope :: ustring
  directory_name :: ustring
  archive_name :: ustring
  compressed_size :: nat
  expanded_size :: nat
  manifest_files :: "crash_request_file list"

record crash_request_log =
  log_name :: ustring
  log_tail :: project_log_tail

record crash_request_contents =
  manifest :: crash_request_manifest
  crash_context :: "ustring option"
  minidump :: "byte list option"
  log_contents :: "crash_request_log option"

record crash_request_error =
  error_kind :: crash_request_error_kind
  xml_error_of :: "parse_error option"

definition request_error :: "crash_request_error_kind \<Rightarrow> crash_request_error" where
  "request_error k = \<lparr>error_kind = k, xml_error_of = None\<rparr>"

definition request_xml_error :: "parse_error \<Rightarrow> crash_request_error" where
  "request_xml_error e = \<lparr>error_kind = InvalidCrashContext, xml_error_of = Some e\<rparr>"

definition map_read_error :: "io_error \<Rightarrow> crash_request_error" where
  "map_read_error e = request_error (case e of
       LimitError k \<Rightarrow> k
     | IoKind InvalidData \<Rightarrow> InvalidCompression
     | IoKind InvalidInput \<Rightarrow> InvalidCompression
     | IoKind UnexpectedEof \<Rightarrow> TruncatedArchive
     | IoKind Interrupted \<Rightarrow> ReadFailed
     | IoKind OtherIo \<Rightarrow> ReadFailed)"

subsection \<open>Readings\<close>

type_synonym ('s, 'a) reading = "'s \<Rightarrow> ((crash_request_error, 'a) result \<times> 's) option"

definition returns :: "'a \<Rightarrow> ('s, 'a) reading" where
  "returns a s = Some (Inr a, s)"

definition fails :: "crash_request_error_kind \<Rightarrow> ('s, 'a) reading" where
  "fails k s = Some (Inl (request_error k), s)"

text \<open>The \<^verbatim>\<open>?\<close> operator on a call that reads.\<close>

definition and_then :: "('s, 'a) reading \<Rightarrow> ('a \<Rightarrow> ('s, 'b) reading) \<Rightarrow> ('s, 'b) reading" where
  "and_then m f s = Option.bind (m s) (\<lambda>(r, s'). case r of Inl e \<Rightarrow> Some (Inl e, s') | Inr a \<Rightarrow> f a s')"

definition lift_result :: "(crash_request_error, 'a) result \<Rightarrow> ('s, 'a) reading" where
  "lift_result r s = Some (r, s)"

definition check :: "bool \<Rightarrow> crash_request_error_kind \<Rightarrow> ('s, unit) reading" where
  "check good k = (if good then returns () else fails k)"

subsection \<open>Primitive reads\<close>

definition read_exact_or :: "'s reader \<Rightarrow> nat \<Rightarrow> ('s, byte list) reading" where
  "read_exact_or rd n s = map_option (\<lambda>(r, s'). (map_err map_read_error r, s')) (read_exact rd s n)"

definition read_i32 :: "'s reader \<Rightarrow> ('s, int) reading" where
  "read_i32 rd = and_then (read_exact_or rd 4) (\<lambda>bytes. returns (i32_of (le_nat bytes)))"

definition read_count :: "'s reader \<Rightarrow> ('s, nat) reading" where
  "read_count rd = and_then (read_i32 rd)
     (\<lambda>value. if value < 0 then fails InvalidHeader else returns (nat value))"

definition leaf_byte :: "byte \<Rightarrow> bool" where
  "leaf_byte b \<longleftrightarrow> 0x20 \<le> unat b \<and> unat b \<le> 0x7e
     \<and> unat b \<notin> set (lit [CHR ''<'', CHR ''>'', CHR '':'', CHR 0x22, CHR ''/'', CHR 0x5C, CHR ''|'', CHR ''?'', CHR ''*''])"

definition safe_leaf_name :: "ustring \<Rightarrow> bool" where
  "safe_leaf_name value \<longleftrightarrow>
     value \<noteq> [] \<and> value \<noteq> lit ''.'' \<and> value \<noteq> lit ''..''
     \<and> last value \<notin> {ch CHR ''.'', ch CHR '' ''}
     \<and> list_all leaf_byte (utf8 value)"

definition read_ansi_field :: "'s reader \<Rightarrow> ('s, ustring) reading" where
  "read_ansi_field rd =
     and_then (read_i32 rd) (\<lambda>len.
     if len \<noteq> int ansi_field_bytes then fails InvalidHeader
     else and_then (read_exact_or rd ansi_field_bytes) (\<lambda>bytes.
       let value_length = unwrap_or (position (\<lambda>b. b = 0) bytes) (length bytes)
       in if list_ex (\<lambda>b. b \<noteq> 0) (drop value_length bytes) then fails InvalidHeader
          else case from_utf8 (take value_length bytes) of
              None \<Rightarrow> fails UnsafeFilename
            | Some value \<Rightarrow> if \<not> safe_leaf_name value then fails UnsafeFilename else returns value))"

definition file_kind :: "ustring \<Rightarrow> crash_request_file_kind" where
  "file_kind name =
     (if eq_ignore_ascii_case name (lit ''crashcontext.runtime-xml'') then CrashContextFile
      else if is_some_and (path_extension name) (\<lambda>e. eq_ignore_ascii_case e (lit ''dmp'')) then MinidumpFile
      else if is_some_and (path_extension name) (\<lambda>e. eq_ignore_ascii_case e (lit ''log'')) then LogFile
      else UnknownFile)"

lemma chunk_smaller: "remaining \<noteq> 0 \<Longrightarrow> remaining - min remaining read_buffer_bytes < remaining"
  by (simp add: read_buffer_bytes_def)

function discard :: "'s reader \<Rightarrow> nat \<Rightarrow> ('s, unit) reading" where
  "discard rd remaining =
     (if remaining = 0 then returns ()
      else let count = min remaining read_buffer_bytes
           in and_then (read_exact_or rd count) (\<lambda>_. discard rd (remaining - count)))"
  by auto

termination
  by (relation "measure snd") (auto simp: chunk_smaller)

definition read_bytes :: "'s reader \<Rightarrow> nat \<Rightarrow> ('s, byte list) reading" where
  "read_bytes rd len = (if len > u64_max then fails FileTooLarge else read_exact_or rd len)"

text \<open>The loop of \<^verbatim>\<open>read_log_tail\<close>: chunks are appended to the suffix, which keeps its last \<open>retain\<close> bytes.\<close>

function retain_suffix :: "'s reader \<Rightarrow> nat \<Rightarrow> nat \<Rightarrow> byte list \<Rightarrow> ('s, byte list) reading" where
  "retain_suffix rd retain remaining kept =
     (if remaining = 0 then returns kept
      else let count = min remaining read_buffer_bytes
           in and_then (read_exact_or rd count) (\<lambda>bytes.
                let more = kept @ bytes
                in retain_suffix rd retain (remaining - count) (drop (length more - retain) more)))"
  by auto

termination
  by (relation "measure (\<lambda>(_, _, remaining, _). remaining)") (auto simp: chunk_smaller)

declare discard.simps [simp del] and retain_suffix.simps [simp del]

definition read_log_tail :: "'s reader \<Rightarrow> nat \<Rightarrow> nat \<Rightarrow> nat \<Rightarrow> ('s, project_log_tail) reading" where
  "read_log_tail rd len max_bytes max_lines =
     and_then (retain_suffix rd (saturating_add max_bytes 4) len [])
       (\<lambda>suffix s. map_option (\<lambda>tail. (Inr tail, s)) (extract_tail suffix max_bytes max_lines))"

subsection \<open>The files of a request\<close>

definition read_crash_context ::
  "('doc, 'node) roxml \<Rightarrow> 's reader \<Rightarrow> nat \<Rightarrow> crash_request_limits \<Rightarrow> ('s, ustring) reading" where
  "read_crash_context x rd len limits =
     (if len > lim_crash_context_bytes limits then fails FileTooLarge
      else and_then (read_bytes rd len) (\<lambda>bytes.
        case from_utf8 bytes of
          None \<Rightarrow> fails InvalidCrashContextUtf8
        | Some xml \<Rightarrow>
            and_then (lift_result (map_err request_xml_error (parse_context x (lim_crash_context_nodes limits) xml)))
              (\<lambda>_. returns xml)))"

text \<open>The local variables of the loop of \<^verbatim>\<open>inspect_files\<close>.\<close>

record inspected =
  ins_files :: "crash_request_file list"
  ins_critical :: "crash_request_file_kind set"
  ins_filenames :: "ustring set"
  ins_crash_context :: "ustring option"
  ins_minidump :: "byte list option"
  ins_log :: "crash_request_log option"

definition critical :: "crash_request_file_kind \<Rightarrow> bool" where
  "critical kind \<longleftrightarrow> kind = CrashContextFile \<or> kind = MinidumpFile"

text \<open>The \<^verbatim>\<open>match kind\<close> of the loop body: reads or discards the contents of one file.\<close>

definition inspect_body ::
  "('doc, 'node) roxml \<Rightarrow> 's reader \<Rightarrow> crash_request_limits \<Rightarrow> bool \<Rightarrow> bool \<Rightarrow> ustring \<Rightarrow> nat \<Rightarrow> inspected
   \<Rightarrow> ('s, inspected) reading" where
  "inspect_body x rd limits retain_contents validate name len ins =
     (case file_kind name of
        CrashContextFile \<Rightarrow>
          (if validate then
             and_then (read_crash_context x rd len limits) (\<lambda>xml.
               returns (if retain_contents then ins\<lparr>ins_crash_context := Some xml\<rparr> else ins))
           else if len > lim_crash_context_bytes limits then fails FileTooLarge
           else and_then (discard rd len) (\<lambda>_. returns ins))
      | MinidumpFile \<Rightarrow>
          (if retain_contents then
             (if len > lim_minidump_bytes limits then fails FileTooLarge
              else and_then (read_bytes rd len) (\<lambda>bytes. returns (ins\<lparr>ins_minidump := Some bytes\<rparr>)))
           else and_then (discard rd len) (\<lambda>_. returns ins))
      | LogFile \<Rightarrow>
          (if retain_contents \<and> ins_log ins = None then
             and_then (read_log_tail rd len (lim_log_tail_bytes limits) (lim_log_tail_lines limits))
               (\<lambda>tail. returns (ins\<lparr>ins_log := Some \<lparr>log_name = name, log_tail = tail\<rparr>\<rparr>))
           else and_then (discard rd len) (\<lambda>_. returns ins))
      | UnknownFile \<Rightarrow> and_then (discard rd len) (\<lambda>_. returns ins))"

definition inspect_file ::
  "('doc, 'node) roxml \<Rightarrow> 's reader \<Rightarrow> crash_request_limits \<Rightarrow> bool \<Rightarrow> bool \<Rightarrow> nat \<Rightarrow> inspected
   \<Rightarrow> ('s, inspected) reading" where
  "inspect_file x rd limits retain_contents validate expected_index ins =
     and_then (read_count rd) (\<lambda>index.
     and_then (check (index = expected_index) FileCountMismatch) (\<lambda>_.
     and_then (read_ansi_field rd) (\<lambda>name.
     let kind = file_kind name; lower = to_ascii_lowercase name in
     and_then (check (\<not> (critical kind \<and> kind \<in> ins_critical ins)) DuplicateCriticalFile) (\<lambda>_.
     let ins = (if critical kind then ins\<lparr>ins_critical := insert kind (ins_critical ins)\<rparr> else ins) in
     and_then (check (lower \<notin> ins_filenames ins) DuplicateCriticalFile) (\<lambda>_.
     let ins = ins\<lparr>ins_filenames := insert lower (ins_filenames ins)\<rparr> in
     and_then (read_count rd) (\<lambda>len.
     and_then (check (len \<le> lim_file_bytes limits) FileTooLarge) (\<lambda>_.
     and_then (inspect_body x rd limits retain_contents validate name len ins) (\<lambda>ins.
     and_then (check (index \<le> u32_max) FileCountMismatch) (\<lambda>_.
     returns (ins\<lparr>ins_files := ins_files ins
       @ [\<lparr>file_index = index, file_name = name, file_size = len, file_of_kind = kind\<rparr>]\<rparr>))))))))))"

fun inspect_each ::
  "('doc, 'node) roxml \<Rightarrow> 's reader \<Rightarrow> crash_request_limits \<Rightarrow> bool \<Rightarrow> bool \<Rightarrow> nat list \<Rightarrow> inspected
   \<Rightarrow> ('s, inspected) reading" where
  "inspect_each x rd limits retain_contents validate [] ins = returns ins"
| "inspect_each x rd limits retain_contents validate (i # is) ins =
     and_then (inspect_file x rd limits retain_contents validate i ins)
       (inspect_each x rd limits retain_contents validate is)"

definition nothing_inspected :: inspected where
  "nothing_inspected = \<lparr>ins_files = [], ins_critical = {}, ins_filenames = {},
     ins_crash_context = None, ins_minidump = None, ins_log = None\<rparr>"

definition inspect_files ::
  "('doc, 'node) roxml \<Rightarrow> 's reader \<Rightarrow> nat \<Rightarrow> crash_request_limits \<Rightarrow> bool \<Rightarrow> bool \<Rightarrow> ('s, inspected) reading" where
  "inspect_files x rd file_count limits retain_contents validate =
     and_then (check (file_count \<le> u64_max) TooManyFiles) (\<lambda>_.
     inspect_each x rd limits retain_contents validate [0..<file_count] nothing_inspected)"

subsection \<open>The request\<close>

text \<open>The reads of \<^verbatim>\<open>decode_crash_request\<close> up to the end of the archive.\<close>

definition decode_archive ::
  "('doc, 'node) roxml \<Rightarrow> 's reader \<Rightarrow> crash_request_limits \<Rightarrow> bool \<Rightarrow> bool
   \<Rightarrow> ('s, ustring \<times> ustring \<times> nat \<times> inspected) reading" where
  "decode_archive x rd limits retain_contents validate =
     and_then (read_exact_or rd (length envelope_magic)) (\<lambda>magic.
     and_then (check (magic = envelope_magic) UnsupportedEnvelope) (\<lambda>_.
     and_then (read_ansi_field rd) (\<lambda>directory.
     and_then (read_ansi_field rd) (\<lambda>archive.
     and_then (read_count rd) (\<lambda>reported_size.
     and_then (check (reported_size \<le> lim_expanded_bytes limits) ExpandedTooLarge) (\<lambda>_.
     and_then (read_count rd) (\<lambda>reported_count.
     and_then (check (reported_count \<le> lim_files limits) TooManyFiles) (\<lambda>_.
     and_then (inspect_files x rd reported_count limits retain_contents validate) (\<lambda>contents.
     returns (directory, archive, reported_size, contents))))))))))"

definition read_end ::  "'s reader \<Rightarrow> ('s, unit) reading" where
  "read_end rd s =
     (case rd s 1 of
        (Inl e, s') \<Rightarrow> Some (Inl (map_read_error e), s')
      | (Inr extra, s') \<Rightarrow> Some (if extra \<noteq> [] then Inl (request_error ExpandedSizeMismatch) else Inr (), s'))"

definition expanded_new :: "'d \<Rightarrow> nat \<Rightarrow> nat \<Rightarrow> 'd expanded_reader" where
  "expanded_new d limit ratio = \<lparr>er_inner = d, er_limit = limit, er_ratio = ratio, er_bytes_read = 0\<rparr>"

definition decode_crash_request ::
  "('doc, 'node) roxml \<Rightarrow> ('r, 'd) zlib \<Rightarrow> 'r \<Rightarrow> crash_request_limits \<Rightarrow> bool \<Rightarrow> bool
   \<Rightarrow> (crash_request_error, crash_request_contents) result option" where
  "decode_crash_request x z input limits retain_contents validate =
     (let compressed = compressed_new input (lim_compressed_bytes limits);
          expanded = expanded_new (zlib_new z compressed) (lim_expanded_bytes limits) (lim_expansion_ratio limits)
      in map_option fst (and_then (decode_archive x (expanded_read z) limits retain_contents validate)
           (\<lambda>(directory, archive, reported_size, contents).
            and_then (read_end (expanded_read z)) (\<lambda>_ expanded.
            and_then (check (er_bytes_read expanded = reported_size) ExpandedSizeMismatch) (\<lambda>_ expanded.
              (let (filled, d) = zlib_fill_buf z (er_inner expanded)
               in and_then (lift_result (map_err map_read_error filled)) (\<lambda>rest.
                  and_then (check (rest = []) TrailingData) (\<lambda>_.
                  returns
                    \<lparr>manifest =
                       \<lparr>schema_version = 1, envelope = lit ''cr1'', directory_name = directory,
                        archive_name = archive, compressed_size = compressed_count z d,
                        expanded_size = er_bytes_read expanded, manifest_files = ins_files contents\<rparr>,
                     crash_context = ins_crash_context contents, minidump = ins_minidump contents,
                     log_contents = ins_log contents\<rparr>)) expanded)) expanded)) expanded))"

definition inspect_crash_request where
  "inspect_crash_request x z input limits =
     map_option (\<lambda>r. bindR r (\<lambda>c. Inr (manifest c))) (decode_crash_request x z input limits False True)"

definition inspect_crash_envelope where
  "inspect_crash_envelope x z input limits =
     map_option (\<lambda>r. bindR r (\<lambda>c. Inr (manifest c))) (decode_crash_request x z input limits False False)"

definition read_crash_request where
  "read_crash_request x z input limits = decode_crash_request x z input limits True True"

subsection \<open>Accounting for the bytes read\<close>

lemma and_then_eq_Some [result_simps]:
  "and_then m f s = Some (Inr b, t) \<longleftrightarrow> (\<exists>a s'. m s = Some (Inr a, s') \<and> f a s' = Some (Inr b, t))"
proof (cases "m s")
  case (Some p)
  then show ?thesis by (cases p; cases "fst p") (auto simp: and_then_def)
qed (simp add: and_then_def)

lemma returns_eq [result_simps]: "returns a s = Some (Inr b, t) \<longleftrightarrow> b = a \<and> t = s"
  by (auto simp: returns_def)

lemma fails_eq [result_simps]: "fails k s = Some (Inr b, t) \<longleftrightarrow> False"
  by (simp add: fails_def)

lemma check_eq [result_simps]: "check good k s = Some (Inr b, t) \<longleftrightarrow> good \<and> t = s"
  by (simp add: check_def result_simps)

lemma lift_result_eq [result_simps]: "lift_result r s = Some (Inr b, t) \<longleftrightarrow> r = Inr b \<and> t = s"
  by (auto simp: lift_result_def)

lemma read_exact_or_eq [result_simps]:
  "read_exact_or rd n s = Some (Inr bs, t) \<longleftrightarrow> read_exact rd s n = Some (Inr bs, t)"
  by (auto simp: read_exact_or_def result_simps)

definition file_within :: "crash_request_limits \<Rightarrow> bool \<Rightarrow> crash_request_file \<Rightarrow> bool" where
  "file_within limits retain_contents f \<longleftrightarrow>
     safe_leaf_name (file_name f) \<and> file_of_kind f = file_kind (file_name f)
     \<and> file_size f \<le> lim_file_bytes limits
     \<and> (file_of_kind f = CrashContextFile \<longrightarrow> file_size f \<le> lim_crash_context_bytes limits)
     \<and> (file_of_kind f = MinidumpFile \<and> retain_contents \<longrightarrow> file_size f \<le> lim_minidump_bytes limits)"

definition files_within :: "crash_request_limits \<Rightarrow> bool \<Rightarrow> crash_request_file list \<Rightarrow> bool" where
  "files_within limits retain_contents fs \<longleftrightarrow>
     list_all (file_within limits retain_contents) fs
     \<and> map file_index fs = [0..<length fs]
     \<and> distinct (map (\<lambda>f. to_ascii_lowercase (file_name f)) fs)
     \<and> distinct (filter critical (map file_of_kind fs))"

definition contents_within ::
  "('doc, 'node) roxml \<Rightarrow> crash_request_limits \<Rightarrow> ustring option \<Rightarrow> byte list option \<Rightarrow> crash_request_log option \<Rightarrow> bool" where
  "contents_within x limits context dump log \<longleftrightarrow>
     is_none_or context (\<lambda>xml. str_len xml \<le> lim_crash_context_bytes limits
        \<and> is_ok (parse_context x (lim_crash_context_nodes limits) xml))
     \<and> is_none_or dump (\<lambda>bytes. length bytes \<le> lim_minidump_bytes limits)
     \<and> is_none_or log (\<lambda>l. str_len (tail_text (log_tail l)) \<le> lim_log_tail_bytes limits
        \<and> count_lines (utf8 (tail_text (log_tail l))) \<le> lim_log_tail_lines limits)"

text \<open>The bytes of the archive a file takes: index, name field, size and contents.\<close>

definition framed_size :: "crash_request_file \<Rightarrow> nat" where
  "framed_size f = 4 + (4 + ansi_field_bytes) + 4 + file_size f"

definition inspected_ok :: "('doc, 'node) roxml \<Rightarrow> crash_request_limits \<Rightarrow> bool \<Rightarrow> inspected \<Rightarrow> bool" where
  "inspected_ok x limits retain_contents ins \<longleftrightarrow>
     files_within limits retain_contents (ins_files ins)
     \<and> ins_filenames ins = set (map (\<lambda>f. to_ascii_lowercase (file_name f)) (ins_files ins))
     \<and> ins_critical ins = set (filter critical (map file_of_kind (ins_files ins)))
     \<and> contents_within x limits (ins_crash_context ins) (ins_minidump ins) (ins_log ins)"

definition mark_seen :: "ustring \<Rightarrow> inspected \<Rightarrow> inspected" where
  "mark_seen name ins =
     ins\<lparr>ins_critical := (if critical (file_kind name) then insert (file_kind name) (ins_critical ins) else ins_critical ins),
        ins_filenames := insert (to_ascii_lowercase name) (ins_filenames ins)\<rparr>"

text \<open>What the contents of one file may change, and the size limits that were checked on the way.\<close>

definition body_effect ::
  "('doc, 'node) roxml \<Rightarrow> crash_request_limits \<Rightarrow> bool \<Rightarrow> ustring \<Rightarrow> nat \<Rightarrow> inspected \<Rightarrow> inspected \<Rightarrow> bool" where
  "body_effect x limits retain_contents name len ins ins' \<longleftrightarrow>
     ins_files ins' = ins_files ins \<and> ins_critical ins' = ins_critical ins
     \<and> ins_filenames ins' = ins_filenames ins
     \<and> contents_within x limits (ins_crash_context ins') (ins_minidump ins') (ins_log ins')
     \<and> (file_kind name = CrashContextFile \<longrightarrow> len \<le> lim_crash_context_bytes limits)
     \<and> (file_kind name = MinidumpFile \<and> retain_contents \<longrightarrow> len \<le> lim_minidump_bytes limits)"

text \<open>The bytes of the archive before the first file: magic, two name fields, size and file count.\<close>

definition header_size :: nat where
  "header_size = length envelope_magic + 2 * (4 + ansi_field_bytes) + 4 + 4"

text \<open>What an accepted file has been through.\<close>

lemma inspect_file_run:
  assumes "inspect_file x rd limits retain_contents validate i ins s = Some (Inr ins', t)"
  obtains name len s1 s2 s3 ins1 where
    "read_count rd s = Some (Inr i, s1)" "read_ansi_field rd s1 = Some (Inr name, s2)"
    "\<not> (critical (file_kind name) \<and> file_kind name \<in> ins_critical ins)"
    "to_ascii_lowercase name \<notin> ins_filenames ins"
    "read_count rd s2 = Some (Inr len, s3)" "len \<le> lim_file_bytes limits"
    "inspect_body x rd limits retain_contents validate name len (mark_seen name ins) s3 = Some (Inr ins1, t)"
    "ins' = ins1\<lparr>ins_files := ins_files ins1
      @ [\<lparr>file_index = i, file_name = name, file_size = len, file_of_kind = file_kind name\<rparr>]\<rparr>"
proof -
  have mark: "(let ins = (if critical (file_kind name)
        then ins\<lparr>ins_critical := insert (file_kind name) (ins_critical ins)\<rparr> else ins)
      in ins\<lparr>ins_filenames := insert (to_ascii_lowercase name) (ins_filenames ins)\<rparr>) = mark_seen name ins" for name
    by (simp add: mark_seen_def Let_def)
  have names: "ins_filenames (if critical (file_kind name)
        then ins\<lparr>ins_critical := insert (file_kind name) (ins_critical ins)\<rparr> else ins) = ins_filenames ins" for name
    by simp
  from assms show thesis
    unfolding inspect_file_def Let_def and_then_eq_Some check_eq returns_eq names
      mark [unfolded Let_def names]
    by (elim exE conjE) (rule that; assumption?; simp)
qed

context limited_reader
begin

text \<open>When a reading returns, the invariant holds, and its value and the number of bytes it took satisfy \<open>Q\<close>.\<close>

definition accounts :: "('s, 'a) reading \<Rightarrow> ('a \<Rightarrow> nat \<Rightarrow> bool) \<Rightarrow> bool" where
  "accounts m Q \<longleftrightarrow> (\<forall>s a s'. inv s \<longrightarrow> m s = Some (Inr a, s') \<longrightarrow>
     inv s' \<and> limit s' = limit s \<and> count s \<le> count s' \<and> Q a (count s' - count s))"

lemma accounts_and_then:
  assumes "accounts m Q" and "\<And>a k. Q a k \<Longrightarrow> accounts (f a) (\<lambda>b j. R b (k + j))"
  shows "accounts (and_then m f) R"
  unfolding accounts_def
proof (intro allI impI)
  fix s b t
  assume inv: "inv s" and run: "and_then m f s = Some (Inr b, t)"
  then obtain a s' where m: "m s = Some (Inr a, s')" and f: "f a s' = Some (Inr b, t)"
    by (auto simp: result_simps)
  have 1: "inv s'" "limit s' = limit s" "count s \<le> count s'" "Q a (count s' - count s)"
    using assms(1) inv m by (auto simp: accounts_def)
  have 2: "inv t" "limit t = limit s'" "count s' \<le> count t" "R b (count s' - count s + (count t - count s'))"
    using assms(2) [OF 1(4)] 1(1) f unfolding accounts_def by blast+
  have "count s' - count s + (count t - count s') = count t - count s" using 1(3) 2(3) by simp
  with 1 2 show "inv t \<and> limit t = limit s \<and> count s \<le> count t \<and> R b (count t - count s)" by simp
qed

lemma accounts_returns: "Q a 0 \<Longrightarrow> accounts (returns a) Q"
  by (auto simp: accounts_def result_simps)

lemma accounts_fails: "accounts (fails k) Q"
  by (auto simp: accounts_def result_simps)

lemma accounts_check: "(good \<Longrightarrow> Q () 0) \<Longrightarrow> accounts (check good k) Q"
  by (auto simp: accounts_def result_simps)

lemma accounts_lift: "(\<And>a. r = Inr a \<Longrightarrow> Q a 0) \<Longrightarrow> accounts (lift_result r) Q"
  by (auto simp: accounts_def result_simps)

lemma accounts_read_exact: "(\<And>bs. length bs = n \<Longrightarrow> Q bs n) \<Longrightarrow> accounts (read_exact_or read n) Q"
  unfolding accounts_def by (simp add: read_exact_limited result_simps)

lemma accounts_read_i32: 
  assumes Q: "\<And>v. v < 2 ^ 31 \<Longrightarrow> Q v 4"
  shows "accounts (read_i32 read) Q"
  unfolding read_i32_def
proof (rule accounts_and_then)
  show "accounts (read_exact_or read 4) (\<lambda>bs k. length bs = 4 \<and> k = 4)"
    by (rule accounts_read_exact) simp
  fix bs :: "byte list" and k :: nat
  assume bs: "length bs = 4 \<and> k = 4"
  then have "le_nat bs < 2 ^ 32" using le_nat_bound [of bs] by simp
  then have "i32_of (le_nat bs) < 2 ^ 31" by (simp add: i32_of_def)
  with Q bs show "accounts (returns (i32_of (le_nat bs))) (\<lambda>b j. Q b (k + j))"
    by (intro accounts_returns) simp
qed

lemma accounts_read_count: "(\<And>v. v < 2 ^ 31 \<Longrightarrow> Q v 4) \<Longrightarrow> accounts (read_count read) Q"
  unfolding read_count_def
  by (rule accounts_and_then, rule accounts_read_i32 [where Q = "\<lambda>v k. v < 2 ^ 31 \<and> k = 4"], simp)
     (auto intro!: accounts_fails accounts_returns)

lemma accounts_read_ansi_field:
  assumes "\<And>name. safe_leaf_name name \<Longrightarrow> Q name (4 + ansi_field_bytes)"
  shows "accounts (read_ansi_field read) Q"
  unfolding read_ansi_field_def
proof (rule accounts_and_then, rule accounts_read_i32 [where Q = "\<lambda>v k. k = 4"], simp)
  fix v k
  assume "k = (4 :: nat)"
  then show "accounts (if v \<noteq> int ansi_field_bytes then fails InvalidHeader else
      and_then (read_exact_or read ansi_field_bytes) (\<lambda>bytes.
        let value_length = unwrap_or (position (\<lambda>b. b = 0) bytes) (length bytes)
        in if list_ex (\<lambda>b. b \<noteq> 0) (drop value_length bytes) then fails InvalidHeader
           else case from_utf8 (take value_length bytes) of None \<Rightarrow> fails UnsafeFilename
             | Some value \<Rightarrow> if \<not> safe_leaf_name value then fails UnsafeFilename else returns value))
      (\<lambda>b j. Q b (k + j))"
    using assms
    by (auto simp: Let_def intro!: accounts_fails accounts_returns
        accounts_and_then [OF accounts_read_exact [where Q = "\<lambda>_ k. k = ansi_field_bytes"]] split: option.split)
qed

lemma accounts_discard: "Q () len \<Longrightarrow> accounts (discard read len) Q"
proof (induction len arbitrary: Q rule: less_induct)
  case (less len)
  show ?case
  proof (cases "len = 0")
    case True
    with less.prems show ?thesis by (simp add: discard.simps accounts_returns)
  next
    case False
    let ?n = "min len read_buffer_bytes"
    have "accounts (and_then (read_exact_or read ?n) (\<lambda>_. discard read (len - ?n))) Q"
      using less.prems chunk_smaller [OF False]
      by (intro accounts_and_then [OF accounts_read_exact [where Q = "\<lambda>_ k. k = ?n"]] less.IH) auto
    with False show ?thesis by (subst discard.simps) (simp add: Let_def)
  qed
qed

lemma accounts_retain_suffix: "(\<And>bs. Q bs len) \<Longrightarrow> accounts (retain_suffix read retain len kept) Q"
proof (induction len arbitrary: Q kept rule: less_induct)
  case (less len)
  show ?case
  proof (cases "len = 0")
    case True
    with less.prems show ?thesis by (simp add: retain_suffix.simps accounts_returns)
  next
    case False
    let ?n = "min len read_buffer_bytes"
    have "accounts (and_then (read_exact_or read ?n) (\<lambda>bytes. let more = kept @ bytes
        in retain_suffix read retain (len - ?n) (drop (length more - retain) more))) Q"
      unfolding Let_def using less.prems chunk_smaller [OF False]
      by (intro accounts_and_then [OF accounts_read_exact [where Q = "\<lambda>_ k. k = ?n"]] less.IH) auto
    with False show ?thesis by (subst retain_suffix.simps) (simp add: Let_def)
  qed
qed

lemma accounts_read_bytes: "(\<And>bs. length bs = len \<Longrightarrow> Q bs len) \<Longrightarrow> accounts (read_bytes read len) Q"
  by (simp add: read_bytes_def accounts_fails accounts_read_exact)

lemma accounts_read_log_tail:
  assumes "\<And>tail. str_len (tail_text tail) \<le> max_bytes \<Longrightarrow> count_lines (utf8 (tail_text tail)) \<le> max_lines \<Longrightarrow>
    Q tail len"
  shows "accounts (read_log_tail read len max_bytes max_lines) Q"
  unfolding read_log_tail_def
proof (rule accounts_and_then, rule accounts_retain_suffix [where Q = "\<lambda>_ k. k = len"], simp)
  fix bs k
  assume "k = len"
  with assms extract_tail_bounds [of bs max_bytes max_lines]
  show "accounts (\<lambda>s. map_option (\<lambda>tail. (Inr tail, s)) (extract_tail bs max_bytes max_lines)) (\<lambda>b j. Q b (k + j))"
    by (auto simp: accounts_def)
qed

lemma accounts_read_crash_context:
  assumes "\<And>xml. len \<le> lim_crash_context_bytes limits \<Longrightarrow> str_len xml = len \<Longrightarrow>
    is_ok (parse_context x (lim_crash_context_nodes limits) xml) \<Longrightarrow> Q xml len"
  shows "accounts (read_crash_context x read len limits) Q"
proof (cases "len > lim_crash_context_bytes limits")
  case False
  have Q: "Q xml len" if "from_utf8 bs = Some xml" "length bs = len"
    "parse_context x (lim_crash_context_nodes limits) xml = Inr doc" for xml bs doc
    using assms [of xml] False that from_utf8_sound [OF that(1)] length_utf8 [of xml] by auto
  have "accounts (case from_utf8 bs of None \<Rightarrow> fails InvalidCrashContextUtf8
        | Some xml \<Rightarrow> and_then (lift_result (map_err request_xml_error
            (parse_context x (lim_crash_context_nodes limits) xml))) (\<lambda>_. returns xml)) (\<lambda>b j. Q b (k + j))"
    if "length bs = len \<and> k = len" for bs k
  proof (cases "from_utf8 bs")
    case (Some xml)
    have "accounts (lift_result (map_err request_xml_error
        (parse_context x (lim_crash_context_nodes limits) xml))) (\<lambda>_ k. k = 0 \<and> Q xml len)"
      using Q that Some by (intro accounts_lift) (auto simp: result_simps)
    then have "accounts (and_then (lift_result (map_err request_xml_error
        (parse_context x (lim_crash_context_nodes limits) xml))) (\<lambda>_. returns xml)) (\<lambda>b j. Q b (k + j))"
      using that by (auto intro!: accounts_and_then accounts_returns)
    with Some show ?thesis by simp
  qed (simp add: accounts_fails)
  with False show ?thesis
    unfolding read_crash_context_def
    by (auto intro: accounts_and_then [OF accounts_read_bytes [where Q = "\<lambda>bs k. length bs = len \<and> k = len"]])
qed (simp add: read_crash_context_def accounts_fails)

lemma accounts_inspect_body:
  assumes ok: "contents_within x limits (ins_crash_context ins) (ins_minidump ins) (ins_log ins)"
  shows "accounts (inspect_body x read limits retain_contents validate name len ins)
    (\<lambda>ins' k. k = len \<and> body_effect x limits retain_contents name len ins ins')"
    (is "accounts _ ?Q")
proof -
  have discard: "accounts (and_then (discard read len) (\<lambda>_. returns ins)) ?Q"
    if "file_kind name = CrashContextFile \<longrightarrow> len \<le> lim_crash_context_bytes limits"
      "\<not> (file_kind name = MinidumpFile \<and> retain_contents)"
    using ok that
    by (intro accounts_and_then [OF accounts_discard [where Q = "\<lambda>_ k. k = len"]] accounts_returns)
       (auto simp: body_effect_def)
  show ?thesis
  proof (cases "file_kind name")
    case CrashContextFile
    have "accounts (and_then (read_crash_context x read len limits)
        (\<lambda>xml. returns (if retain_contents then ins\<lparr>ins_crash_context := Some xml\<rparr> else ins))) ?Q"
      using ok CrashContextFile
      by (intro accounts_and_then [OF accounts_read_crash_context [where Q = "\<lambda>xml k. k = len
            \<and> len \<le> lim_crash_context_bytes limits \<and> str_len xml = len
            \<and> is_ok (parse_context x (lim_crash_context_nodes limits) xml)"]] accounts_returns)
         (auto simp: contents_within_def body_effect_def)
    with discard show ?thesis using CrashContextFile by (auto simp: inspect_body_def intro: accounts_fails)
  next
    case MinidumpFile
    have "accounts (and_then (read_bytes read len) (\<lambda>bytes. returns (ins\<lparr>ins_minidump := Some bytes\<rparr>))) ?Q"
      if "len \<le> lim_minidump_bytes limits"
      using ok MinidumpFile that
      by (intro accounts_and_then [OF accounts_read_bytes [where Q = "\<lambda>bs k. length bs = len \<and> k = len"]] accounts_returns)
         (auto simp: contents_within_def body_effect_def)
    with discard show ?thesis using MinidumpFile by (auto simp: inspect_body_def intro: accounts_fails)
  next
    case LogFile
    have "accounts (and_then (read_log_tail read len (lim_log_tail_bytes limits) (lim_log_tail_lines limits))
        (\<lambda>tail. returns (ins\<lparr>ins_log := Some \<lparr>log_name = name, log_tail = tail\<rparr>\<rparr>))) ?Q"
      using ok LogFile
      by (intro accounts_and_then [OF accounts_read_log_tail [where Q = "\<lambda>tail k. k = len
            \<and> str_len (tail_text tail) \<le> lim_log_tail_bytes limits
            \<and> count_lines (utf8 (tail_text tail)) \<le> lim_log_tail_lines limits"]] accounts_returns)
         (auto simp: contents_within_def body_effect_def)
    with discard show ?thesis using LogFile
      by (cases "retain_contents \<and> ins_log ins = None") (auto simp: inspect_body_def)
  next
    case UnknownFile
    with discard show ?thesis by (simp add: inspect_body_def)
  qed
qed

lemma accountsD:
  "accounts m Q \<Longrightarrow> inv s \<Longrightarrow> m s = Some (Inr a, t) \<Longrightarrow>
     inv t \<and> limit t = limit s \<and> (\<exists>k. count t = count s + k \<and> Q a k)"
  unfolding accounts_def by (metis le_add_diff_inverse)

lemma accountsI:
  "(\<And>s a t. inv s \<Longrightarrow> m s = Some (Inr a, t) \<Longrightarrow>
      inv t \<and> limit t = limit s \<and> (\<exists>k. count t = count s + k \<and> Q a k)) \<Longrightarrow> accounts m Q"
  unfolding accounts_def by (metis add_diff_cancel_left' le_add1)

lemma accounts_inspect_file:
  assumes ok: "inspected_ok x limits retain_contents ins" and i: "i = length (ins_files ins)"
  shows "accounts (inspect_file x read limits retain_contents validate i ins)
    (\<lambda>ins' k. inspected_ok x limits retain_contents ins'
      \<and> (\<exists>f. ins_files ins' = ins_files ins @ [f] \<and> k = framed_size f))"
proof (rule accountsI)
  fix s ins' t
  assume inv: "inv s" and run: "inspect_file x read limits retain_contents validate i ins s = Some (Inr ins', t)"
  from run obtain name len s1 s2 s3 ins1 where
    r1: "read_count read s = Some (Inr i, s1)" and r2: "read_ansi_field read s1 = Some (Inr name, s2)"
    and new: "\<not> (critical (file_kind name) \<and> file_kind name \<in> ins_critical ins)"
      "to_ascii_lowercase name \<notin> ins_filenames ins"
    and r3: "read_count read s2 = Some (Inr len, s3)" and len: "len \<le> lim_file_bytes limits"
    and r4: "inspect_body x read limits retain_contents validate name len (mark_seen name ins) s3 = Some (Inr ins1, t)"
    and ins': "ins' = ins1\<lparr>ins_files := ins_files ins1
      @ [\<lparr>file_index = i, file_name = name, file_size = len, file_of_kind = file_kind name\<rparr>]\<rparr>"
    by (rule inspect_file_run)
  have 1: "inv s1 \<and> limit s1 = limit s \<and> count s1 = count s + 4"
    using accountsD [OF accounts_read_count [where Q = "\<lambda>_ k. k = 4"] inv r1] by auto
  have 2: "inv s2 \<and> limit s2 = limit s1 \<and> count s2 = count s1 + (4 + ansi_field_bytes) \<and> safe_leaf_name name"
    using accountsD [OF accounts_read_ansi_field [where Q = "\<lambda>n k. k = 4 + ansi_field_bytes \<and> safe_leaf_name n"] _ r2] 1
    by auto
  have 3: "inv s3 \<and> limit s3 = limit s2 \<and> count s3 = count s2 + 4"
    using accountsD [OF accounts_read_count [where Q = "\<lambda>_ k. k = 4"] _ r3] 2 by auto
  have "contents_within x limits (ins_crash_context (mark_seen name ins)) (ins_minidump (mark_seen name ins))
      (ins_log (mark_seen name ins))"
    using ok by (simp add: inspected_ok_def mark_seen_def)
  from accountsD [OF accounts_inspect_body [OF this] _ r4] 3
  have 4: "inv t \<and> limit t = limit s3 \<and> count t = count s3 + len"
    and eff: "body_effect x limits retain_contents name len (mark_seen name ins) ins1" by auto
  let ?f = "\<lparr>file_index = i, file_name = name, file_size = len, file_of_kind = file_kind name\<rparr>"
  have "file_within limits retain_contents ?f"
    using 2 eff len by (auto simp: file_within_def body_effect_def)
  then have "inspected_ok x limits retain_contents ins'" and "ins_files ins' = ins_files ins @ [?f]"
    using ok eff new i
    by (auto simp: ins' inspected_ok_def files_within_def body_effect_def mark_seen_def)
  moreover have "count t = count s + framed_size ?f"
    using 1 2 3 4 by (simp add: framed_size_def)
  ultimately show "inv t \<and> limit t = limit s \<and> (\<exists>k. count t = count s + k \<and>
      inspected_ok x limits retain_contents ins' \<and> (\<exists>f. ins_files ins' = ins_files ins @ [f] \<and> k = framed_size f))"
    using 1 2 3 4 by auto
qed

lemma accounts_inspect_each:
  assumes "inspected_ok x limits retain_contents ins" and "is = [length (ins_files ins)..<n]"
    and "length (ins_files ins) \<le> n"
  shows "accounts (inspect_each x read limits retain_contents validate is ins)
    (\<lambda>ins' k. inspected_ok x limits retain_contents ins' \<and> length (ins_files ins') = n
      \<and> sum_list (map framed_size (ins_files ins')) = sum_list (map framed_size (ins_files ins)) + k)"
  using assms
proof (induction "is" arbitrary: ins)
  case Nil
  then have "length (ins_files ins) = n" by (metis diff_is_0_eq le_antisym length_upt list.size(3))
  with Nil show ?case by (auto intro!: accounts_returns)
next
  case (Cons i "is")
  have "[length (ins_files ins)..<n] = i # is" using Cons.prems(2) by simp
  then have i: "i = length (ins_files ins)" and "is": "is = [Suc i..<n]" "Suc i \<le> n"
    by (auto simp: upt_eq_Cons_conv)
  show ?case
    unfolding inspect_each.simps
  proof (rule accounts_and_then [OF accounts_inspect_file [OF Cons.prems(1) i]])
    fix ins' k
    assume a: "inspected_ok x limits retain_contents ins'
      \<and> (\<exists>f. ins_files ins' = ins_files ins @ [f] \<and> k = framed_size f)"
    then have "accounts (inspect_each x read limits retain_contents validate is ins')
      (\<lambda>ins'' k. inspected_ok x limits retain_contents ins'' \<and> length (ins_files ins'') = n
        \<and> sum_list (map framed_size (ins_files ins'')) = sum_list (map framed_size (ins_files ins')) + k)"
      using "is" i by (intro Cons.IH) auto
    with a show "accounts (inspect_each x read limits retain_contents validate is ins')
      (\<lambda>ins'' j. inspected_ok x limits retain_contents ins'' \<and> length (ins_files ins'') = n
        \<and> sum_list (map framed_size (ins_files ins'')) = sum_list (map framed_size (ins_files ins)) + (k + j))"
      by (auto simp: add.assoc)
  qed
qed

lemma accounts_decode_archive:
  "accounts (decode_archive x read limits retain_contents validate)
    (\<lambda>(directory, archive, reported, ins) k. safe_leaf_name directory \<and> safe_leaf_name archive
      \<and> reported \<le> lim_expanded_bytes limits \<and> inspected_ok x limits retain_contents ins
      \<and> length (ins_files ins) \<le> lim_files limits
      \<and> k = header_size + sum_list (map framed_size (ins_files ins)))"
proof (rule accountsI)
  fix s r t
  assume inv: "inv s" and run: "decode_archive x read limits retain_contents validate s = Some (Inr r, t)"
  from run obtain dir arc reported n s1 s2 s3 s4 s5 ins where
    r1: "read_exact read s (length envelope_magic) = Some (Inr envelope_magic, s1)"
    and r2: "read_ansi_field read s1 = Some (Inr dir, s2)" and r3: "read_ansi_field read s2 = Some (Inr arc, s3)"
    and r4: "read_count read s3 = Some (Inr reported, s4)" and r5: "read_count read s4 = Some (Inr n, s5)"
    and le: "reported \<le> lim_expanded_bytes limits" "n \<le> lim_files limits"
    and r6: "inspect_each x read limits retain_contents validate [0..<n] nothing_inspected s5 = Some (Inr ins, t)"
    and r: "r = (dir, arc, reported, ins)"
    unfolding decode_archive_def inspect_files_def by (auto simp: result_simps)
  have 1: "inv s1 \<and> limit s1 = limit s \<and> count s1 = count s + 3"
    using read_exact_limited [OF r1 inv] by (simp add: envelope_magic_def)
  have 2: "inv s2 \<and> limit s2 = limit s1 \<and> count s2 = count s1 + (4 + ansi_field_bytes) \<and> safe_leaf_name dir"
    using accountsD [OF accounts_read_ansi_field [where Q = "\<lambda>n k. k = 4 + ansi_field_bytes \<and> safe_leaf_name n"] _ r2] 1
    by auto
  have 3: "inv s3 \<and> limit s3 = limit s2 \<and> count s3 = count s2 + (4 + ansi_field_bytes) \<and> safe_leaf_name arc"
    using accountsD [OF accounts_read_ansi_field [where Q = "\<lambda>n k. k = 4 + ansi_field_bytes \<and> safe_leaf_name n"] _ r3] 2
    by auto
  have 4: "inv s4 \<and> limit s4 = limit s3 \<and> count s4 = count s3 + 4"
    using accountsD [OF accounts_read_count [where Q = "\<lambda>_ k. k = 4"] _ r4] 3 by auto
  have 5: "inv s5 \<and> limit s5 = limit s4 \<and> count s5 = count s4 + 4"
    using accountsD [OF accounts_read_count [where Q = "\<lambda>_ k. k = 4"] _ r5] 4 by auto
  have "accounts (inspect_each x read limits retain_contents validate [0..<n] nothing_inspected)
    (\<lambda>ins' k. inspected_ok x limits retain_contents ins' \<and> length (ins_files ins') = n
      \<and> sum_list (map framed_size (ins_files ins')) = sum_list (map framed_size (ins_files nothing_inspected)) + k)"
    by (intro accounts_inspect_each)
       (auto simp: nothing_inspected_def inspected_ok_def files_within_def contents_within_def)
  from accountsD [OF this _ r6] 5
  have 6: "inv t \<and> limit t = limit s5 \<and> inspected_ok x limits retain_contents ins \<and> length (ins_files ins) = n
      \<and> count t = count s5 + sum_list (map framed_size (ins_files ins))"
    by (auto simp: nothing_inspected_def)
  then have "count t = count s + (header_size + sum_list (map framed_size (ins_files ins)))"
    using 1 2 3 4 5 by (simp add: header_size_def envelope_magic_def)
  with 1 2 3 4 5 6 le r show "inv t \<and> limit t = limit s \<and> (\<exists>k. count t = count s + k \<and>
      (case r of (directory, archive, reported, ins) \<Rightarrow> \<lambda>k. safe_leaf_name directory \<and> safe_leaf_name archive
      \<and> reported \<le> lim_expanded_bytes limits \<and> inspected_ok x limits retain_contents ins
      \<and> length (ins_files ins) \<le> lim_files limits
      \<and> k = header_size + sum_list (map framed_size (ins_files ins))) k)"
    by auto
qed

end

text \<open>What an accepted request has been through.\<close>

lemma decode_crash_request_run:
  assumes "decode_crash_request x z input limits retain_contents validate = Some (Inr c)"
  obtains dir arc reported ins s t d where
    "decode_archive x (expanded_read z) limits retain_contents validate
       (expanded_new (zlib_new z (compressed_new input (lim_compressed_bytes limits)))
          (lim_expanded_bytes limits) (lim_expansion_ratio limits)) = Some (Inr (dir, arc, reported, ins), s)"
    "expanded_read z s 1 = (Inr [], t)" "er_bytes_read t = reported"
    "zlib_fill_buf z (er_inner t) = (Inr [], d)"
    "c = \<lparr>manifest = \<lparr>schema_version = 1, envelope = lit ''cr1'', directory_name = dir, archive_name = arc,
        compressed_size = compressed_count z d, expanded_size = reported, manifest_files = ins_files ins\<rparr>,
      crash_context = ins_crash_context ins, minidump = ins_minidump ins, log_contents = ins_log ins\<rparr>"
proof -
  have fst: "map_option fst v = Some r \<longleftrightarrow> (\<exists>t. v = Some (r, t))" for v :: "('a \<times> 'b) option" and r
    by (cases v) auto
  have stop: "read_end rd s = Some (Inr u, t) \<longleftrightarrow> rd s 1 = (Inr [], t)" for rd :: "'s reader" and s u t
    by (auto simp: read_end_def split: prod.splits sum.splits if_splits)
  from assms show thesis
    unfolding decode_crash_request_def Let_def
    by (auto simp: fst stop result_simps simp del: One_nat_def split: prod.splits)
       (metis (no_types, lifting) surj_pair that)
qed

text \<open>The assumptions on the code around the request reader: the source and the decoder return no more
  than they are asked for, and the decoder reads its input only through the compressed reader.\<close>

definition sound_decoder :: "'r reader \<Rightarrow> ('r, 'd) zlib \<Rightarrow> bool" where
  "sound_decoder rd z \<longleftrightarrow> honest rd \<and> honest (zlib_read z) \<and> reads_through rd z"

definition limits_fit :: "crash_request_limits \<Rightarrow> bool" where
  "limits_fit limits \<longleftrightarrow> lim_compressed_bytes limits \<le> u64_max \<and> lim_expanded_bytes limits \<le> u64_max"

lemma expanded_new_inv:
  assumes "sound_decoder rd z" and "limits_fit limits"
  shows "expanded_inv rd z (lim_compressed_bytes limits) ratio
    (expanded_new (zlib_new z (compressed_new input (lim_compressed_bytes limits))) (lim_expanded_bytes limits) ratio)"
proof -
  let ?c = "compressed_new input (lim_compressed_bytes limits)"
  have "compressed_inv rd ?c" using assms
    by (simp add: compressed_inv_def compressed_new_def sound_decoder_def limits_fit_def)
  moreover have "reads_from rd ?c (zlib_source z (zlib_new z ?c))"
    using assms by (simp add: sound_decoder_def reads_through_def)
  ultimately have "compressed_inv rd (zlib_source z (zlib_new z ?c))"
    "cr_limit (zlib_source z (zlib_new z ?c)) = cr_limit ?c" using reads_from_keeps by blast+
  with assms show ?thesis
    by (simp add: expanded_inv_def expanded_new_def sound_decoder_def limits_fit_def compressed_new_def)
qed

text \<open>C9: a request that the decoder accepts is within every limit, whatever it was made of: the
  compressed bytes read, the expanded bytes, their ratio, the number of files, the size of every file, of
  the crash context and of the retained minidump, and the bytes and lines of the retained log tail. The
  expanded size is exactly the header and the framed files. The files are numbered from 0, their names are
  safe leaf names, different even when case is ignored, and at most one is a crash context and at most one
  a minidump; a retained crash context parses. The zlib decoder and the byte source are any that return no
  more than they are asked for and read only through the compressed reader.\<close>

theorem accepted_request_within_limits:
  assumes "sound_decoder rd z" and "limits_fit limits"
    and "decode_crash_request x z input limits retain_contents validate = Some (Inr c)"
  shows "compressed_size (manifest c) \<le> lim_compressed_bytes limits
    \<and> expanded_size (manifest c) \<le> lim_expanded_bytes limits
    \<and> expanded_size (manifest c) \<le> compressed_size (manifest c) * lim_expansion_ratio limits
    \<and> length (manifest_files (manifest c)) \<le> lim_files limits
    \<and> expanded_size (manifest c) = header_size + sum_list (map framed_size (manifest_files (manifest c)))
    \<and> safe_leaf_name (directory_name (manifest c)) \<and> safe_leaf_name (archive_name (manifest c))
    \<and> files_within limits retain_contents (manifest_files (manifest c))
    \<and> contents_within x limits (crash_context c) (minidump c) (log_contents c)"
proof -
  let ?s = "expanded_new (zlib_new z (compressed_new input (lim_compressed_bytes limits)))
    (lim_expanded_bytes limits) (lim_expansion_ratio limits)"
  let ?inv = "expanded_inv rd z (lim_compressed_bytes limits) (lim_expansion_ratio limits)"
  obtain dir arc reported ins s t d where
    run: "decode_archive x (expanded_read z) limits retain_contents validate ?s = Some (Inr (dir, arc, reported, ins), s)"
    and stop: "expanded_read z s 1 = (Inr [], t)" "er_bytes_read t = reported"
    and fill: "zlib_fill_buf z (er_inner t) = (Inr [], d)"
    and c: "c = \<lparr>manifest = \<lparr>schema_version = 1, envelope = lit ''cr1'', directory_name = dir, archive_name = arc,
        compressed_size = compressed_count z d, expanded_size = reported, manifest_files = ins_files ins\<rparr>,
      crash_context = ins_crash_context ins, minidump = ins_minidump ins, log_contents = ins_log ins\<rparr>"
    by (rule decode_crash_request_run [OF assms(3)])
  have inv: "?inv ?s" using assms(1,2) by (rule expanded_new_inv)
  from er.accountsD [OF er.accounts_decode_archive inv run]
  have s: "?inv s" "er_limit s = lim_expanded_bytes limits"
    and count: "er_bytes_read s = header_size + sum_list (map framed_size (ins_files ins))"
    and ok: "safe_leaf_name dir" "safe_leaf_name arc" "inspected_ok x limits retain_contents ins"
      "length (ins_files ins) \<le> lim_files limits"
    by (auto simp: expanded_new_def)
  from er.read_ok [OF s(1) stop(1)]
  have t: "?inv t" "er_limit t = lim_expanded_bytes limits" "er_bytes_read t = er_bytes_read s"
    using s by simp_all
  have ratio: "er_ratio t = lim_expansion_ratio limits" using t(1) by (simp add: expanded_inv_def)
  have "reads_from rd (zlib_source z (er_inner t)) (zlib_source z d)"
    using assms(1) fill unfolding sound_decoder_def reads_through_def by (metis snd_conv)
  with t(1) have d: "compressed_inv rd (zlib_source z d)" "cr_limit (zlib_source z d) = lim_compressed_bytes limits"
    "compressed_count z (er_inner t) \<le> compressed_count z d"
    using reads_from_keeps [of rd "zlib_source z (er_inner t)" "zlib_source z d"]
    by (auto simp: expanded_inv_def compressed_count_def)
  have "reported \<le> compressed_count z (er_inner t) * lim_expansion_ratio limits"
    using t(1) stop(2) ratio by (auto simp: expanded_inv_def)
  also have "\<dots> \<le> compressed_count z d * lim_expansion_ratio limits" using d(3) by simp
  finally show ?thesis
    using d t ok count stop(2) by (auto simp: c compressed_inv_def compressed_count_def expanded_inv_def inspected_ok_def)
qed

subsection \<open>Reading what was written\<close>

text \<open>The encoder of the request tests (\<^verbatim>\<open>crates/unreal/tests/request.rs\<close>), for any directory and archive name.\<close>

definition write_i32 :: "nat \<Rightarrow> byte list" where
  "write_i32 v = le_bytes 4 v"

definition write_ansi_field :: "ustring \<Rightarrow> byte list" where
  "write_ansi_field value = write_i32 ansi_field_bytes @ utf8 value @ replicate (ansi_field_bytes - str_len value) 0"

fun write_files :: "nat \<Rightarrow> (ustring \<times> byte list) list \<Rightarrow> byte list" where
  "write_files i [] = []"
| "write_files i ((name, contents) # files) =
     write_i32 i @ write_ansi_field name @ write_i32 (length contents) @ contents @ write_files (Suc i) files"

definition archive_size :: "(ustring \<times> byte list) list \<Rightarrow> nat" where
  "archive_size files = header_size + sum_list (map (\<lambda>(name, contents). 272 + length contents) files)"

definition expanded_request :: "ustring \<Rightarrow> ustring \<Rightarrow> (ustring \<times> byte list) list \<Rightarrow> byte list" where
  "expanded_request directory archive files =
     envelope_magic @ write_ansi_field directory @ write_ansi_field archive
     @ write_i32 (archive_size files) @ write_i32 (length files) @ write_files 0 files"

text \<open>A name that fits its field.\<close>

definition field_name :: "ustring \<Rightarrow> bool" where
  "field_name name \<longleftrightarrow> safe_leaf_name name \<and> list_all is_scalar name \<and> str_len name \<le> ansi_field_bytes"

text \<open>What one file adds to the inspected files when contents are retained.\<close>

definition retain_file :: "crash_request_limits \<Rightarrow> ustring \<Rightarrow> byte list \<Rightarrow> inspected \<Rightarrow> inspected" where
  "retain_file limits name contents ins =
     (case file_kind name of
        CrashContextFile \<Rightarrow> ins\<lparr>ins_crash_context := from_utf8 contents\<rparr>
      | MinidumpFile \<Rightarrow> ins\<lparr>ins_minidump := Some contents\<rparr>
      | LogFile \<Rightarrow>
          if ins_log ins = None
          then ins\<lparr>ins_log := map_option (\<lambda>tail. \<lparr>log_name = name, log_tail = tail\<rparr>)
                 (extract_tail contents (lim_log_tail_bytes limits) (lim_log_tail_lines limits))\<rparr>
          else ins
      | UnknownFile \<Rightarrow> ins)"

definition absorb :: "crash_request_limits \<Rightarrow> nat \<Rightarrow> ustring \<Rightarrow> byte list \<Rightarrow> inspected \<Rightarrow> inspected" where
  "absorb limits i name contents ins =
     (let ins' = retain_file limits name contents (mark_seen name ins)
      in ins'\<lparr>ins_files := ins_files ins'
        @ [\<lparr>file_index = i, file_name = name, file_size = length contents, file_of_kind = file_kind name\<rparr>]\<rparr>)"

text \<open>Contents the decoder accepts for a file of that name.\<close>

definition file_encodable :: "('doc, 'node) roxml \<Rightarrow> crash_request_limits \<Rightarrow> ustring \<Rightarrow> byte list \<Rightarrow> bool" where
  "file_encodable x limits name contents \<longleftrightarrow>
     field_name name \<and> length contents \<le> lim_file_bytes limits \<and> length contents < 2 ^ 31
     \<and> (file_kind name = CrashContextFile \<longrightarrow> length contents \<le> lim_crash_context_bytes limits
        \<and> is_some_and (from_utf8 contents) (\<lambda>xml. is_ok (parse_context x (lim_crash_context_nodes limits) xml)))
     \<and> (file_kind name = MinidumpFile \<longrightarrow> length contents \<le> lim_minidump_bytes limits)"

fun absorb_all :: "crash_request_limits \<Rightarrow> nat \<Rightarrow> (ustring \<times> byte list) list \<Rightarrow> inspected \<Rightarrow> inspected" where
  "absorb_all limits i [] ins = ins"
| "absorb_all limits i ((name, contents) # files) ins = absorb_all limits (Suc i) files (absorb limits i name contents ins)"

definition first_of :: "crash_request_file_kind \<Rightarrow> (ustring \<times> byte list) list \<Rightarrow> (ustring \<times> byte list) option" where
  "first_of kind files = find (\<lambda>(name, _). file_kind name = kind) files"

definition listed_files :: "nat \<Rightarrow> (ustring \<times> byte list) list \<Rightarrow> crash_request_file list" where
  "listed_files i files = map (\<lambda>(j, name, contents).
     \<lparr>file_index = j, file_name = name, file_size = length contents, file_of_kind = file_kind name\<rparr>) (enumerate i files)"

definition request_encodable ::
  "('doc, 'node) roxml \<Rightarrow> crash_request_limits \<Rightarrow> ustring \<Rightarrow> ustring \<Rightarrow> (ustring \<times> byte list) list \<Rightarrow> bool" where
  "request_encodable x limits directory archive files \<longleftrightarrow>
     field_name directory \<and> field_name archive \<and> length files \<le> lim_files limits
     \<and> archive_size files \<le> lim_expanded_bytes limits \<and> archive_size files < 2 ^ 31
     \<and> list_all (\<lambda>(name, contents). file_encodable x limits name contents) files
     \<and> distinct (map (\<lambda>(name, _). to_ascii_lowercase name) files)
     \<and> distinct (filter critical (map (\<lambda>(name, _). file_kind name) files))
     \<and> lim_log_tail_bytes limits + 4 \<le> u64_max"

lemma absorb_fields [simp]:
  "ins_files (absorb limits i name contents ins) = ins_files ins
     @ [\<lparr>file_index = i, file_name = name, file_size = length contents, file_of_kind = file_kind name\<rparr>]"
  "ins_filenames (absorb limits i name contents ins) = insert (to_ascii_lowercase name) (ins_filenames ins)"
  "ins_critical (absorb limits i name contents ins)
     = (if critical (file_kind name) then insert (file_kind name) (ins_critical ins) else ins_critical ins)"
  "ins_crash_context (absorb limits i name contents ins)
     = (if file_kind name = CrashContextFile then from_utf8 contents else ins_crash_context ins)"
  "ins_minidump (absorb limits i name contents ins)
     = (if file_kind name = MinidumpFile then Some contents else ins_minidump ins)"
  "ins_log (absorb limits i name contents ins)
     = (if file_kind name = LogFile \<and> ins_log ins = None
        then map_option (\<lambda>tail. \<lparr>log_name = name, log_tail = tail\<rparr>)
               (extract_tail contents (lim_log_tail_bytes limits) (lim_log_tail_lines limits))
        else ins_log ins)"
  by (cases "file_kind name"; simp add: absorb_def retain_file_def mark_seen_def Let_def)+

lemma absorb_all_files: "ins_files (absorb_all limits i files ins) = ins_files ins @ listed_files i files"
  by (induction limits i files ins rule: absorb_all.induct) (simp_all add: listed_files_def)

lemma first_of_simps [simp]:
  "first_of kind [] = None"
  "first_of kind ((name, contents) # files)
     = (if file_kind name = kind then Some (name, contents) else first_of kind files)"
  by (simp_all add: first_of_def)

lemma first_of_absent: "kind \<notin> (\<lambda>(name, _). file_kind name) ` set files \<Longrightarrow> first_of kind files = None"
  by (force simp: first_of_def find_None_iff)

lemma absorb_all_crash_context:
  "distinct (filter critical (map (\<lambda>(name, _). file_kind name) files)) \<Longrightarrow>
   ins_crash_context (absorb_all limits i files ins) = (case first_of CrashContextFile files of
       None \<Rightarrow> ins_crash_context ins | Some (_, contents) \<Rightarrow> from_utf8 contents)"
  by (induction limits i files ins rule: absorb_all.induct)
     (auto simp: critical_def first_of_absent split: if_splits option.split)

lemma absorb_all_minidump:
  "distinct (filter critical (map (\<lambda>(name, _). file_kind name) files)) \<Longrightarrow>
   ins_minidump (absorb_all limits i files ins) = (case first_of MinidumpFile files of
       None \<Rightarrow> ins_minidump ins | Some (_, contents) \<Rightarrow> Some contents)"
  by (induction limits i files ins rule: absorb_all.induct)
     (auto simp: critical_def first_of_absent split: if_splits option.split)

lemma absorb_all_log:
  "ins_log (absorb_all limits i files ins) = (case ins_log ins of
       Some l \<Rightarrow> Some l
     | None \<Rightarrow> Option.bind (first_of LogFile files) (\<lambda>(name, contents).
         map_option (\<lambda>tail. \<lparr>log_name = name, log_tail = tail\<rparr>)
           (extract_tail contents (lim_log_tail_bytes limits) (lim_log_tail_lines limits))))"
proof (induction limits i files ins rule: absorb_all.induct)
  case (2 limits i name contents files ins)
  obtain tail where "extract_tail contents (lim_log_tail_bytes limits) (lim_log_tail_lines limits) = Some tail"
    using extract_tail_spec by blast
  with 2 show ?case by (simp split: option.split)
qed (simp split: option.split)

lemma safe_name_bytes:
  assumes "field_name name"
  shows "from_utf8 (utf8 name) = Some name" and "0 \<notin> set (utf8 name)"
proof -
  show "from_utf8 (utf8 name) = Some name"
    using assms from_utf8_utf8 by (simp add: field_name_def list_all_iff)
  have "list_all leaf_byte (utf8 name)" using assms by (simp add: field_name_def safe_leaf_name_def)
  then show "0 \<notin> set (utf8 name)" by (auto simp: list_all_iff leaf_byte_def)
qed

lemma position_append:
  "a \<notin> set xs \<Longrightarrow> unwrap_or (position (\<lambda>b. b = a) (xs @ replicate n a)) (length xs + n) = length xs"
proof (induction xs)
  case Nil
  then show ?case by (cases n) simp_all
next
  case (Cons x xs)
  then show ?case by (cases "position (\<lambda>b. b = a) (xs @ replicate n a)") auto
qed

lemma drop_to_last: "k \<le> length ys - r \<Longrightarrow> drop (length (drop k ys) - r) (drop k ys) = drop (length ys - r) ys"
proof -
  assume "k \<le> length ys - r"
  then have "length ys - k - r + k = length ys - r" by simp
  then show ?thesis by (metis drop_drop length_drop)
qed

context byte_stream
begin

text \<open>From any point of the stream where \<open>bs\<close> comes next, the reading returns \<open>a\<close> and leaves the rest.\<close>

definition consumes :: "('s, 'a) reading \<Rightarrow> byte list \<Rightarrow> 'a \<Rightarrow> bool" where
  "consumes m bs a \<longleftrightarrow> (\<forall>s rest. ready s \<and> content s = bs @ rest \<longrightarrow>
     (\<exists>t. m s = Some (Inr a, t) \<and> ready t \<and> content t = rest))"

lemma consumes_and_then:
  assumes "consumes m bs a" and "consumes (f a) cs b"
  shows "consumes (and_then m f) (bs @ cs) b"
  unfolding consumes_def
proof (intro allI impI)
  fix s rest
  assume "ready s \<and> content s = (bs @ cs) @ rest"
  then obtain s' where "m s = Some (Inr a, s')" "ready s'" "content s' = cs @ rest"
    using assms(1) unfolding consumes_def by fastforce
  moreover from this obtain t where "f a s' = Some (Inr b, t)" "ready t" "content t = rest"
    using assms(2) unfolding consumes_def by blast
  ultimately show "\<exists>t. and_then m f s = Some (Inr b, t) \<and> ready t \<and> content t = rest"
    by (auto simp: result_simps)
qed

lemma consumes_returns: "consumes (returns a) [] a"
  by (simp add: consumes_def returns_def)

lemma consumes_check: "good \<Longrightarrow> consumes (check good k) [] ()"
  by (simp add: check_def consumes_returns)

lemma consumes_lift: "r = Inr a \<Longrightarrow> consumes (lift_result r) [] a"
  by (simp add: consumes_def lift_result_def)

lemma consumes_then_nil: "consumes m [] a \<Longrightarrow> consumes (f a) cs b \<Longrightarrow> consumes (and_then m f) cs b"
  using consumes_and_then [of m "[]" a f cs b] by simp

lemma consumes_then_end: "consumes m bs a \<Longrightarrow> consumes (f a) [] b \<Longrightarrow> consumes (and_then m f) bs b"
  using consumes_and_then [of m bs a f "[]" b] by simp

lemma consumes_read_exact: "n = length bs \<Longrightarrow> consumes (read_exact_or read n) bs bs"
  unfolding consumes_def
proof (intro allI impI)
  fix s rest
  assume "n = length bs" and s: "ready s \<and> content s = bs @ rest"
  then show "\<exists>t. read_exact_or read n s = Some (Inr bs, t) \<and> ready t \<and> content t = rest"
    using read_exact_stream [of s n] by (auto simp: read_exact_or_def)
qed

lemma consumes_read_i32: "v < 2 ^ 31 \<Longrightarrow> consumes (read_i32 read) (write_i32 v) (int v)"
  unfolding read_i32_def write_i32_def
  using consumes_then_end [OF consumes_read_exact consumes_returns, of 4 "le_bytes 4 v" "\<lambda>bs. i32_of (le_nat bs)"]
  by (simp add: le_nat_le_bytes i32_of_small)

lemma consumes_read_count: "v < 2 ^ 31 \<Longrightarrow> consumes (read_count read) (write_i32 v) v"
  unfolding read_count_def
  by (rule consumes_then_end [OF consumes_read_i32]) (simp_all add: consumes_returns)

lemma consumes_read_ansi_field:
  assumes "field_name name"
  shows "consumes (read_ansi_field read) (write_ansi_field name) name"
proof -
  let ?bytes = "utf8 name @ replicate (ansi_field_bytes - str_len name) 0"
  have len: "length ?bytes = ansi_field_bytes" using assms by (simp add: field_name_def)
  have "unwrap_or (position (\<lambda>b. b = 0) ?bytes) (length ?bytes) = str_len name"
    using position_append [OF safe_name_bytes(2) [OF assms]] by simp
  then have "consumes (let value_length = unwrap_or (position (\<lambda>b. b = 0) ?bytes) (length ?bytes)
       in if list_ex (\<lambda>b. b \<noteq> 0) (drop value_length ?bytes) then fails InvalidHeader
          else case from_utf8 (take value_length ?bytes) of None \<Rightarrow> fails UnsafeFilename
            | Some value \<Rightarrow> if \<not> safe_leaf_name value then fails UnsafeFilename else returns value) [] name"
    using assms safe_name_bytes(1) [OF assms]
    by (simp add: Let_def list_ex_iff field_name_def consumes_returns)
  note this = consumes_then_end [OF consumes_read_exact [OF len [symmetric]], of
      "\<lambda>bytes. let value_length = unwrap_or (position (\<lambda>b. b = 0) bytes) (length bytes)
       in if list_ex (\<lambda>b. b \<noteq> 0) (drop value_length bytes) then fails InvalidHeader
          else case from_utf8 (take value_length bytes) of None \<Rightarrow> fails UnsafeFilename
            | Some value \<Rightarrow> if \<not> safe_leaf_name value then fails UnsafeFilename else returns value", OF this]
  note rest = this
  have small: "ansi_field_bytes < 2 ^ 31" by (simp add: ansi_field_bytes_def)
  show ?thesis
    unfolding read_ansi_field_def write_ansi_field_def
    by (rule consumes_and_then [OF consumes_read_i32 [OF small]]) (simp add: rest)
qed

lemma consumes_discard: "consumes (discard read (length bs)) bs ()"
proof (induction bs rule: length_induct)
  case (1 bs)
  show ?case
  proof (cases "bs = []")
    case True
    then show ?thesis by (simp add: discard.simps consumes_returns)
  next
    case False
    define n where "n = min (length bs) read_buffer_bytes"
    have n: "0 < n" "n \<le> length bs" using False by (simp_all add: n_def read_buffer_bytes_def)
    then have "length (drop n bs) < length bs" by simp
    with 1 have "consumes (discard read (length (drop n bs))) (drop n bs) ()" by blast
    with n have "consumes (and_then (read_exact_or read n) (\<lambda>_. discard read (length (drop n bs))))
        (take n bs @ drop n bs) ()"
      by (intro consumes_and_then [OF consumes_read_exact [of n "take n bs"]]) auto
    with False show ?thesis by (subst discard.simps) (simp add: Let_def n_def)
  qed
qed

lemma consumes_retain_suffix:
  "length kept \<le> retain \<Longrightarrow>
     consumes (retain_suffix read retain (length bs) kept) bs (drop (length (kept @ bs) - retain) (kept @ bs))"
proof (induction bs arbitrary: kept rule: length_induct)
  case (1 bs)
  show ?case
  proof (cases "bs = []")
    case True
    with 1 show ?thesis by (simp add: retain_suffix.simps consumes_returns)
  next
    case False
    define n where "n = min (length bs) read_buffer_bytes"
    define more where "more = kept @ take n bs"
    define kept' where "kept' = drop (length more - retain) more"
    have n: "0 < n" "n \<le> length bs" using False by (simp_all add: n_def read_buffer_bytes_def)
    then have "length (drop n bs) < length bs" "length kept' \<le> retain" by (simp_all add: kept'_def)
    with 1(1) have run: "consumes (retain_suffix read retain (length (drop n bs)) kept') (drop n bs)
        (drop (length (kept' @ drop n bs) - retain) (kept' @ drop n bs))" by blast
    have all: "more @ drop n bs = kept @ bs" by (simp add: more_def)
    have "kept' @ drop n bs = drop (length more - retain) (kept @ bs)"
      unfolding all [symmetric] kept'_def by simp
    moreover have "length more - retain \<le> length (kept @ bs) - retain" using n by (simp add: more_def)
    ultimately have drop: "drop (length (kept' @ drop n bs) - retain) (kept' @ drop n bs)
        = drop (length (kept @ bs) - retain) (kept @ bs)" by (simp only: drop_to_last)
    from run have "consumes (and_then (read_exact_or read n) (\<lambda>bytes. let more = kept @ bytes
        in retain_suffix read retain (length bs - n) (drop (length more - retain) more)))
        (take n bs @ drop n bs) (drop (length (kept @ bs) - retain) (kept @ bs))"
      unfolding Let_def drop using n
      by (intro consumes_and_then [OF consumes_read_exact [of n "take n bs"]]) (auto simp: kept'_def more_def)
    with False show ?thesis by (subst retain_suffix.simps) (simp add: Let_def n_def)
  qed
qed

lemma consumes_read_bytes: "length bs \<le> u64_max \<Longrightarrow> consumes (read_bytes read (length bs)) bs bs"
  by (simp add: read_bytes_def consumes_read_exact)

lemma consumes_read_log_tail:
  assumes "max_bytes + 4 \<le> u64_max" and "extract_tail bs max_bytes max_lines = Some tail"
  shows "consumes (read_log_tail read (length bs) max_bytes max_lines) bs tail"
proof -
  let ?kept = "drop (length bs - (max_bytes + 4)) bs"
  have sat: "saturating_add max_bytes 4 = max_bytes + 4" using assms(1) by (simp add: saturating_add_def)
  have "consumes (retain_suffix read (max_bytes + 4) (length bs) []) bs ?kept"
    using consumes_retain_suffix [of "[]" "max_bytes + 4" bs] by simp
  moreover have "extract_tail ?kept max_bytes max_lines = Some tail"
    using assms(2) extract_tail_of_suffix [of max_bytes bs max_lines] by (cases "max_bytes + 4 \<le> length bs") auto
  then have "consumes (\<lambda>s. map_option (\<lambda>tail. (Inr tail, s)) (extract_tail ?kept max_bytes max_lines)) [] tail"
    by (simp add: consumes_def)
  ultimately show ?thesis unfolding read_log_tail_def sat by (rule consumes_then_end)
qed

lemma consumes_read_crash_context:
  assumes "length bs \<le> lim_crash_context_bytes limits" and "length bs \<le> u64_max"
    and "from_utf8 bs = Some xml" and "is_ok (parse_context x (lim_crash_context_nodes limits) xml)"
  shows "consumes (read_crash_context x read (length bs) limits) bs xml"
proof -
  obtain doc where "parse_context x (lim_crash_context_nodes limits) xml = Inr doc"
    using assms(4) by (auto simp: is_ok_iff)
  then have "consumes (and_then (lift_result (map_err request_xml_error
      (parse_context x (lim_crash_context_nodes limits) xml))) (\<lambda>_. returns xml)) [] xml"
    by (intro consumes_then_nil [OF consumes_lift] consumes_returns) simp
  with assms(3) show ?thesis
    unfolding read_crash_context_def using assms(1)
    by (simp add: consumes_then_end [OF consumes_read_bytes [OF assms(2)]])
qed

lemma consumes_inspect_body:
  assumes "file_encodable x limits name bs" and "lim_log_tail_bytes limits + 4 \<le> u64_max"
  shows "consumes (inspect_body x read limits True True name (length bs) ins) bs (retain_file limits name bs ins)"
proof -
  have small: "length bs \<le> u64_max" using assms(1) by (simp add: file_encodable_def u64_max_def)
  obtain tail where tail: "extract_tail bs (lim_log_tail_bytes limits) (lim_log_tail_lines limits) = Some tail"
    using extract_tail_spec by blast
  have discard: "consumes (and_then (discard read (length bs)) (\<lambda>_. returns ins)) bs ins"
    by (rule consumes_then_end [OF consumes_discard consumes_returns])
  show ?thesis
  proof (cases "file_kind name")
    case CrashContextFile
    with assms(1) obtain xml where "from_utf8 bs = Some xml" "is_ok (parse_context x (lim_crash_context_nodes limits) xml)"
      "length bs \<le> lim_crash_context_bytes limits" by (auto simp: file_encodable_def is_some_and_iff)
    with CrashContextFile small show ?thesis
      by (simp add: inspect_body_def retain_file_def consumes_returns consumes_then_end [OF consumes_read_crash_context])
  next
    case MinidumpFile
    with assms(1) small show ?thesis
      by (simp add: file_encodable_def inspect_body_def retain_file_def consumes_returns
          consumes_then_end [OF consumes_read_bytes])
  next
    case LogFile
    with assms(2) tail discard show ?thesis
      by (simp add: inspect_body_def retain_file_def consumes_returns consumes_then_end [OF consumes_read_log_tail])
  next
    case UnknownFile
    with discard show ?thesis by (simp add: inspect_body_def retain_file_def)
  qed
qed

lemma consumes_inspect_file:
  assumes "file_encodable x limits name bs" and "lim_log_tail_bytes limits + 4 \<le> u64_max" and "i < 2 ^ 31"
    and "\<not> (critical (file_kind name) \<and> file_kind name \<in> ins_critical ins)"
    and "to_ascii_lowercase name \<notin> ins_filenames ins"
  shows "consumes (inspect_file x read limits True True i ins)
    (write_i32 i @ write_ansi_field name @ write_i32 (length bs) @ bs) (absorb limits i name bs ins)"
proof -
  have name: "field_name name" and len: "length bs < 2 ^ 31" "length bs \<le> lim_file_bytes limits"
    using assms(1) by (simp_all add: file_encodable_def)
  have mark: "(if critical (file_kind name) then ins\<lparr>ins_critical := insert (file_kind name) (ins_critical ins)\<rparr>
      else ins)\<lparr>ins_filenames := insert (to_ascii_lowercase name) (ins_filenames (if critical (file_kind name)
      then ins\<lparr>ins_critical := insert (file_kind name) (ins_critical ins)\<rparr> else ins))\<rparr> = mark_seen name ins"
    by (simp add: mark_seen_def)
  have u32: "i \<le> u32_max" using assms(3) by (simp add: u32_max_def)
  show ?thesis
    unfolding inspect_file_def Let_def mark absorb_def
    by (rule consumes_and_then [OF consumes_read_count [OF assms(3)]], rule consumes_then_nil [OF consumes_check], simp,
        rule consumes_and_then [OF consumes_read_ansi_field [OF name]],
        rule consumes_then_nil [OF consumes_check [OF assms(4)]], rule consumes_then_nil [OF consumes_check], simp add: assms(5),
        rule consumes_and_then [OF consumes_read_count [OF len(1)]], rule consumes_then_nil [OF consumes_check [OF len(2)]],
        unfold mark, rule consumes_then_end [OF consumes_inspect_body [OF assms(1,2)]],
        rule consumes_then_nil [OF consumes_check [OF u32] consumes_returns])
qed

lemma consumes_inspect_each:
  assumes "list_all (\<lambda>(name, contents). file_encodable x limits name contents) files"
    and "lim_log_tail_bytes limits + 4 \<le> u64_max" and "i + length files \<le> 2 ^ 31"
    and "distinct (map (\<lambda>(name, _). to_ascii_lowercase name) files)"
    and "distinct (filter critical (map (\<lambda>(name, _). file_kind name) files))"
    and "set (map (\<lambda>(name, _). to_ascii_lowercase name) files) \<inter> ins_filenames ins = {}"
    and "set (filter critical (map (\<lambda>(name, _). file_kind name) files)) \<inter> ins_critical ins = {}"
  shows "consumes (inspect_each x read limits True True [i..<i + length files] ins) (write_files i files)
    (absorb_all limits i files ins)"
  using assms
proof (induction files arbitrary: i ins)
  case Nil
  then show ?case by (simp add: consumes_returns)
next
  case (Cons f files)
  obtain name bs where f: "f = (name, bs)" by (cases f)
  have "consumes (inspect_each x read limits True True [Suc i..<Suc i + length files] (absorb limits i name bs ins))
      (write_files (Suc i) files) (absorb_all limits (Suc i) files (absorb limits i name bs ins))"
    using Cons.prems by (intro Cons.IH) (auto simp: f split: if_splits)
  moreover have "consumes (inspect_file x read limits True True i ins)
      (write_i32 i @ write_ansi_field name @ write_i32 (length bs) @ bs) (absorb limits i name bs ins)"
    using Cons.prems by (intro consumes_inspect_file) (auto simp: f)
  ultimately have "consumes (and_then (inspect_file x read limits True True i ins)
      (inspect_each x read limits True True [Suc i..<Suc i + length files]))
      ((write_i32 i @ write_ansi_field name @ write_i32 (length bs) @ bs) @ write_files (Suc i) files)
      (absorb_all limits i (f # files) ins)"
    by (intro consumes_and_then) (auto simp: f)
  then show ?case by (simp add: f upt_conv_Cons del: upt_Suc)
qed

lemma consumes_decode_archive:
  assumes "request_encodable x limits directory archive files"
  shows "consumes (decode_archive x read limits True True) (expanded_request directory archive files)
    (directory, archive, archive_size files, absorb_all limits 0 files nothing_inspected)"
proof -
  have enc: "field_name directory" "field_name archive" "archive_size files < 2 ^ 31"
    "archive_size files \<le> lim_expanded_bytes limits" "length files \<le> lim_files limits"
    using assms by (simp_all add: request_encodable_def)
  have "length files \<le> archive_size files"
    by (induction files) (auto simp: archive_size_def)
  with enc(3) have n: "length files < 2 ^ 31" "length files \<le> u64_max" by (simp_all add: u64_max_def)
  have each: "consumes (inspect_each x read limits True True [0..<length files] nothing_inspected) (write_files 0 files)
      (absorb_all limits 0 files nothing_inspected)"
    using consumes_inspect_each [of x limits files 0 nothing_inspected] assms n
    by (simp add: request_encodable_def nothing_inspected_def)
  show ?thesis
    unfolding decode_archive_def inspect_files_def expanded_request_def
    by (rule consumes_and_then [OF consumes_read_exact [OF refl]], rule consumes_then_nil [OF consumes_check [OF refl]],
        rule consumes_and_then [OF consumes_read_ansi_field [OF enc(1)]],
        rule consumes_and_then [OF consumes_read_ansi_field [OF enc(2)]],
        rule consumes_and_then [OF consumes_read_count [OF enc(3)]], rule consumes_then_nil [OF consumes_check [OF enc(4)]],
        rule consumes_and_then [OF consumes_read_count [OF n(1)]], rule consumes_then_nil [OF consumes_check [OF enc(5)]],
        rule consumes_then_end [OF consumes_then_nil [OF consumes_check [OF n(2)] each] consumes_returns])
qed

end

text \<open>
  A decoder state that decompresses to \<open>bytes\<close>: it delivers them under the ratio limit, and once it has
  reported the end of the stream no compressed input is left in its buffer.
\<close>

definition decompresses :: "('r, 'd) zlib \<Rightarrow> 'd \<Rightarrow> byte list \<Rightarrow> nat \<Rightarrow> bool" where
  "decompresses z d bytes ratio \<longleftrightarrow> (\<exists>plain going. delivers z plain going (length bytes) ratio
     \<and> going d \<and> plain d = bytes
     \<and> (\<forall>d n. going d \<and> plain d = [] \<and> 0 < n \<longrightarrow> (\<exists>d'. zlib_fill_buf z (snd (zlib_read z d n)) = (Inr [], d'))))"

lemma length_expanded_request:
  assumes "request_encodable x limits directory archive files"
  shows "length (expanded_request directory archive files) = archive_size files"
proof -
  have field: "field_name name \<Longrightarrow> length (write_ansi_field name) = 4 + ansi_field_bytes" for name
    by (simp add: write_ansi_field_def write_i32_def field_name_def)
  have "list_all (\<lambda>(name, contents). file_encodable x limits name contents) files \<Longrightarrow>
      length (write_files i files) = sum_list (map (\<lambda>(name, contents). 272 + length contents) files)" for i
    by (induction i files rule: write_files.induct)
       (auto simp: field file_encodable_def write_i32_def ansi_field_bytes_def)
  with assms field show ?thesis
    by (simp add: request_encodable_def expanded_request_def archive_size_def header_size_def write_i32_def)
qed

lemma decode_written:
  assumes "request_encodable x limits directory archive files" and "limits_fit limits"
    and "decompresses z (zlib_new z (compressed_new input (lim_compressed_bytes limits)))
           (expanded_request directory archive files) (lim_expansion_ratio limits)"
  shows "\<exists>compressed. read_crash_request x z input limits = Some (Inr
    \<lparr>manifest = \<lparr>schema_version = 1, envelope = lit ''cr1'', directory_name = directory, archive_name = archive,
       compressed_size = compressed, expanded_size = archive_size files, manifest_files = listed_files 0 files\<rparr>,
     crash_context = Option.bind (first_of CrashContextFile files) (\<lambda>(_, contents). from_utf8 contents),
     minidump = map_option snd (first_of MinidumpFile files),
     log_contents = Option.bind (first_of LogFile files) (\<lambda>(name, contents).
       map_option (\<lambda>tail. \<lparr>log_name = name, log_tail = tail\<rparr>)
         (extract_tail contents (lim_log_tail_bytes limits) (lim_log_tail_lines limits)))\<rparr>)"
proof -
  let ?d = "zlib_new z (compressed_new input (lim_compressed_bytes limits))"
  let ?s = "expanded_new ?d (lim_expanded_bytes limits) (lim_expansion_ratio limits)"
  let ?ins = "absorb_all limits 0 files nothing_inspected"
  obtain plain going where del: "delivers z plain going (archive_size files) (lim_expansion_ratio limits)"
    and d: "going ?d" "plain ?d = expanded_request directory archive files"
    and fill: "\<And>d n. going d \<Longrightarrow> plain d = [] \<Longrightarrow> 0 < n \<Longrightarrow> \<exists>d'. zlib_fill_buf z (snd (zlib_read z d n)) = (Inr [], d')"
    using assms(3) length_expanded_request [OF assms(1)] unfolding decompresses_def by auto
  let ?ready = "expanded_ready z plain going (archive_size files) (lim_expansion_ratio limits)"
  have "?ready ?s"
    using del d assms(1,2) length_expanded_request [OF assms(1)]
    by (simp add: expanded_ready_def expanded_new_def request_encodable_def limits_fit_def)
  then obtain s where arch: "decode_archive x (expanded_read z) limits True True ?s
      = Some (Inr (directory, archive, archive_size files, ?ins), s)"
    and s: "?ready s" "plain (er_inner s) = []"
    using es.consumes_decode_archive [OF assms(1), unfolded es.consumes_def] d(2)
    by (fastforce simp: expanded_new_def)
  obtain t n where stop: "expanded_read z s 1 = (Inr [], t)" "er_bytes_read t = er_bytes_read s"
    and t: "t = s\<lparr>er_inner := snd (zlib_read z (er_inner s) n)\<rparr>" "0 < n"
    using expanded_read_end [OF s(1) _ s(2), of 1] by auto
  obtain d' where d': "zlib_fill_buf z (er_inner t) = (Inr [], d')"
    using fill [of "er_inner s" n] s t by (auto simp: expanded_ready_def)
  have count: "er_bytes_read t = archive_size files" using s stop(2) by (simp add: expanded_ready_def)
  have crit: "distinct (filter critical (map (\<lambda>(name, _). file_kind name) files))"
    using assms(1) by (simp add: request_encodable_def)
  have ins: "ins_files ?ins = listed_files 0 files"
    "ins_crash_context ?ins = Option.bind (first_of CrashContextFile files) (\<lambda>(_, contents). from_utf8 contents)"
    "ins_minidump ?ins = map_option snd (first_of MinidumpFile files)"
    "ins_log ?ins = Option.bind (first_of LogFile files) (\<lambda>(name, contents).
       map_option (\<lambda>tail. \<lparr>log_name = name, log_tail = tail\<rparr>)
         (extract_tail contents (lim_log_tail_bytes limits) (lim_log_tail_lines limits)))"
    by (simp_all add: absorb_all_files absorb_all_crash_context [OF crit] absorb_all_minidump [OF crit] absorb_all_log
        nothing_inspected_def split: option.split)
  show ?thesis
    unfolding read_crash_request_def decode_crash_request_def Let_def
    using arch stop d' count
    by (simp add: and_then_def read_end_def check_def returns_def lift_result_def ins
        split del: if_split cong: if_cong)
qed

text \<open>C10: reading what was written. When the compressed request decompresses to the archive that the
  reference encoder writes for a directory name, an archive name and files within the limits, the request is
  accepted: the manifest lists the names, sizes and kinds in order with the archive's exact size, and the
  crash context, the minidump and the tail of the first log are those of the files.\<close>

theorem read_crash_request_of_written:
  assumes "request_encodable x limits directory archive files" and "limits_fit limits"
    and "decompresses z (zlib_new z (compressed_new input (lim_compressed_bytes limits)))
           (expanded_request directory archive files) (lim_expansion_ratio limits)"
  shows "\<exists>compressed. read_crash_request x z input limits = Some (Inr
    \<lparr>manifest = \<lparr>schema_version = 1, envelope = lit ''cr1'', directory_name = directory, archive_name = archive,
       compressed_size = compressed, expanded_size = archive_size files, manifest_files = listed_files 0 files\<rparr>,
     crash_context = Option.bind (first_of CrashContextFile files) (\<lambda>(_, contents). from_utf8 contents),
     minidump = map_option snd (first_of MinidumpFile files),
     log_contents = Option.bind (first_of LogFile files) (\<lambda>(name, contents).
       map_option (\<lambda>tail. \<lparr>log_name = name, log_tail = tail\<rparr>)
         (extract_tail contents (lim_log_tail_bytes limits) (lim_log_tail_lines limits)))\<rparr>)"
  using assms by (rule decode_written)

text \<open>C13: the tail that a retained log gets is the tail of the whole log, although only its last
  \<open>max_bytes + 4\<close> bytes are kept while it is read in chunks; the reader is left at the end of the log.\<close>

theorem read_log_tail_of_whole_log:
  assumes "expanded_ready z plain going whole ratio s" and "plain (er_inner s) = log @ rest"
    and "max_bytes + 4 \<le> u64_max"
  shows "\<exists>tail t. read_log_tail (expanded_read z) (length log) max_bytes max_lines s = Some (Inr tail, t)
    \<and> extract_tail log max_bytes max_lines = Some tail \<and> plain (er_inner t) = rest"
proof -
  obtain tail where "extract_tail log max_bytes max_lines = Some tail" using extract_tail_spec by blast
  then show ?thesis
    using es.consumes_read_log_tail [OF assms(3), of log max_lines tail] assms(1,2)
    unfolding es.consumes_def by blast
qed

subsection \<open>A stored request\<close>

text \<open>A byte list as the source, and a decoder that passes its input through: an instance on which the
  hypotheses above hold.\<close>

definition list_read :: "byte list reader" where
  "list_read bs n = (Inr (take n bs), drop n bs)"

definition stored_zlib :: "(byte list, byte list compressed_reader) zlib" where
  "stored_zlib = \<lparr>zlib_new = \<lambda>c. c, zlib_read = compressed_read list_read, zlib_source = \<lambda>d. d,
     zlib_fill_buf = \<lambda>d. compressed_read list_read d 8192\<rparr>"

definition any_xml :: "(unit, unit) roxml" where
  "any_xml = \<lparr>parse_with_options = \<lambda>_ _. Inr (), root_element = \<lambda>_. (), root_pos = \<lambda>_. (1, 1),
     children = \<lambda>_. [], is_element = \<lambda>_. True, tag_name = \<lambda>_. crash_context_root, node_text = \<lambda>_. None\<rparr>"

lemma stored_sound: "sound_decoder list_read stored_zlib"
proof -
  have "honest list_read" by (simp add: honest_def list_read_def)
  moreover from this have "honest (compressed_read list_read)"
    unfolding honest_def list_read_def compressed_read_def by (auto simp: Let_def split: if_splits)
  moreover have "reads_from list_read d (snd (compressed_read list_read d n))" for d n
    by (rule reads_from.one_more [OF reads_from.unread])
  ultimately show ?thesis
    by (simp add: sound_decoder_def stored_zlib_def reads_through_def reads_from.unread)
qed

lemma stored_step:
  assumes "cr_bytes_read d + length (cr_inner d) \<le> cr_limit d" and "cr_limit d \<le> u64_max" and "0 < n"
  shows "\<exists>k. (cr_inner d \<noteq> [] \<longrightarrow> 0 < k) \<and> k \<le> n \<and> k \<le> length (cr_inner d)
    \<and> compressed_read list_read d n = (Inr (take k (cr_inner d)),
        d\<lparr>cr_inner := drop k (cr_inner d), cr_bytes_read := cr_bytes_read d + k\<rparr>)"
proof (cases "cr_bytes_read d = cr_limit d")
  case True
  with assms have "cr_inner d = []" by simp
  with True assms(3) show ?thesis by (intro exI [of _ 0]) (simp add: compressed_read_def list_read_def)
next
  case False
  let ?k = "min (min (cr_limit d - cr_bytes_read d) n) (length (cr_inner d))"
  have "saturating_add (cr_bytes_read d) ?k = cr_bytes_read d + ?k" using assms by (simp add: saturating_add_def)
  with False assms show ?thesis
    by (intro exI [of _ ?k]) (auto simp: compressed_read_def list_read_def Let_def min_def)
qed

lemma stored_decompresses:
  assumes "length bs \<le> limit" and "limit \<le> u64_max" and "1 \<le> ratio"
  shows "decompresses stored_zlib (zlib_new stored_zlib (compressed_new bs limit)) bs ratio"
proof -
  let ?going = "\<lambda>d. cr_bytes_read d + length (cr_inner d) = length bs \<and> cr_limit d = limit"
  have step: "\<exists>k. (cr_inner d \<noteq> [] \<longrightarrow> 0 < k) \<and> k \<le> n \<and> k \<le> length (cr_inner d)
      \<and> compressed_read list_read d n = (Inr (take k (cr_inner d)),
          d\<lparr>cr_inner := drop k (cr_inner d), cr_bytes_read := cr_bytes_read d + k\<rparr>)" if "?going d" "0 < n"
    for d :: "byte list compressed_reader" and n using that assms by (intro stored_step) auto
  have ratio: "m \<le> k * ratio" if "m \<le> k" for m k
    using that assms(3) by (metis le_trans mult.commute mult_le_mono nat_mult_1)
  have "delivers stored_zlib cr_inner ?going (length bs) ratio"
    unfolding delivers_def
  proof (intro conjI allI impI)
    fix d :: "byte list compressed_reader" and n :: nat
    assume "?going d \<and> 0 < n \<and> cr_inner d \<noteq> []"
    then obtain k where "0 < k" "k \<le> n" "k \<le> length (cr_inner d)"
      "compressed_read list_read d n = (Inr (take k (cr_inner d)),
          d\<lparr>cr_inner := drop k (cr_inner d), cr_bytes_read := cr_bytes_read d + k\<rparr>)" using step by blast
    with \<open>?going d \<and> 0 < n \<and> cr_inner d \<noteq> []\<close>
    show "\<exists>k d'. 0 < k \<and> k \<le> n \<and> k \<le> length (cr_inner d) \<and> zlib_read stored_zlib d n = (Inr (take k (cr_inner d)), d')
        \<and> ?going d' \<and> cr_inner d' = drop k (cr_inner d)
        \<and> length bs - length (cr_inner d') \<le> compressed_count stored_zlib d' * ratio"
      by (intro exI [of _ k] exI [of _ "d\<lparr>cr_inner := drop k (cr_inner d), cr_bytes_read := cr_bytes_read d + k\<rparr>"])
         (auto simp: stored_zlib_def compressed_count_def intro!: ratio)
  next
    fix d :: "byte list compressed_reader" and n :: nat
    assume "?going d \<and> 0 < n \<and> cr_inner d = []"
    with step [of d n] show "\<exists>d'. zlib_read stored_zlib d n = (Inr [], d') \<and> ?going d' \<and> cr_inner d' = []
        \<and> length bs \<le> compressed_count stored_zlib d' * ratio"
      by (auto simp: stored_zlib_def compressed_count_def intro!: ratio)
  qed
  moreover have "\<exists>d'. zlib_fill_buf stored_zlib (snd (zlib_read stored_zlib d n)) = (Inr [], d')"
    if "?going d" "cr_inner d = []" "0 < n" for d n
    using step [of d n] step [of "d\<lparr>cr_inner := [], cr_bytes_read := length bs\<rparr>" 8192] that by (auto simp: stored_zlib_def)
  ultimately show ?thesis
    unfolding decompresses_def
    by (intro exI [of _ cr_inner] exI [of _ ?going]) (auto simp: stored_zlib_def compressed_new_def assms)
qed

text \<open>A request with a minidump, a crash context and a log.\<close>

definition sample_files :: "(ustring \<times> byte list) list" where
  "sample_files = [(lit ''UEMinidump.dmp'', map byte_of [77, 68, 77, 80]),
     (lit ''CrashContext.runtime-xml'', map byte_of [60, 97, 47, 62]),
     (lit ''Game.log'', map byte_of [65, 10, 66])]"

definition sample_request :: "byte list" where
  "sample_request = expanded_request (lit ''UECC-Windows'') (lit ''UECC-Windows.uecrash'') sample_files"

lemmas name_eval = lit_simps field_name_def safe_leaf_name_def leaf_byte_def utf8_char_def unat_byte_of is_scalar_def
  utf8_len_def ansi_field_bytes_def

lemma sample_names:
  "field_name (lit ''UECC-Windows'')" "field_name (lit ''UECC-Windows.uecrash'')" "field_name (lit ''UEMinidump.dmp'')"
  "field_name (lit ''CrashContext.runtime-xml'')" "field_name (lit ''Game.log'')"
  by (simp_all add: name_eval)

lemma sample_kinds:
  "file_kind (lit ''UEMinidump.dmp'') = MinidumpFile" "file_kind (lit ''CrashContext.runtime-xml'') = CrashContextFile"
  "file_kind (lit ''Game.log'') = LogFile"
  by code_simp+

lemma sample_encodable_if:
  assumes "is_ok (parse_context x 100000 (lit ''<a/>''))"
  shows "request_encodable x default_crash_request_limits (lit ''UECC-Windows'') (lit ''UECC-Windows.uecrash'') sample_files"
proof -
  note assms
  moreover have "from_utf8 (map byte_of [60, 97, 47, 62]) = Some (lit ''<a/>'')" by code_simp
  moreover have "distinct [to_ascii_lowercase (lit ''UEMinidump.dmp''),
      to_ascii_lowercase (lit ''CrashContext.runtime-xml''), to_ascii_lowercase (lit ''Game.log'')]" by code_simp
  ultimately show ?thesis
    by (simp add: request_encodable_def sample_files_def file_encodable_def sample_names sample_kinds archive_size_def
        header_size_def envelope_magic_def ansi_field_bytes_def default_crash_request_limits_def critical_def u64_max_def)
qed

lemma sample_encodable:
  "request_encodable any_xml default_crash_request_limits (lit ''UECC-Windows'') (lit ''UECC-Windows.uecrash'') sample_files"
  by (rule sample_encodable_if) (simp add: parse_context_def any_xml_def)

lemma default_limits_fit: "limits_fit default_crash_request_limits"
  by (simp add: limits_fit_def default_crash_request_limits_def u64_max_def)

lemma sample_decompresses:
  "decompresses stored_zlib
     (zlib_new stored_zlib (compressed_new sample_request (lim_compressed_bytes default_crash_request_limits)))
     sample_request (lim_expansion_ratio default_crash_request_limits)"
proof (rule stored_decompresses)
  have "length sample_request = archive_size sample_files"
    unfolding sample_request_def by (rule length_expanded_request [OF sample_encodable])
  also have "\<dots> = 1366"
    by (simp add: archive_size_def header_size_def envelope_magic_def ansi_field_bytes_def sample_files_def)
  finally show "length sample_request \<le> lim_compressed_bytes default_crash_request_limits"
    by (simp add: default_crash_request_limits_def)
qed (simp_all add: default_crash_request_limits_def u64_max_def)

theorem read_crash_request_of_written_witness:
  "\<exists>c. read_crash_request any_xml stored_zlib sample_request default_crash_request_limits = Some (Inr c)
     \<and> map file_size (manifest_files (manifest c)) = [4, 4, 3]
     \<and> minidump c = Some (map byte_of [77, 68, 77, 80])"
proof -
  have files: "map file_size (listed_files 0 sample_files) = [4, 4, 3]"
    "map_option snd (first_of MinidumpFile sample_files) = Some (map byte_of [77, 68, 77, 80])"
    by (simp_all add: listed_files_def sample_files_def sample_kinds)
  show ?thesis
    using read_crash_request_of_written [OF sample_encodable default_limits_fit
        sample_decompresses [unfolded sample_request_def]] files
    by (auto simp: sample_request_def)
qed

theorem accepted_request_within_limits_witness:
  "\<exists>c. decode_crash_request any_xml stored_zlib sample_request default_crash_request_limits True True = Some (Inr c)
     \<and> expanded_size (manifest c) \<le> compressed_size (manifest c) * 200
     \<and> length (manifest_files (manifest c)) \<le> 128"
proof -
  obtain c where c: "decode_crash_request any_xml stored_zlib sample_request default_crash_request_limits True True
      = Some (Inr c)"
    using decode_written [OF sample_encodable default_limits_fit sample_decompresses [unfolded sample_request_def]]
    unfolding read_crash_request_def sample_request_def by blast
  then show ?thesis
    using accepted_request_within_limits [OF stored_sound default_limits_fit c]
    by (auto simp: default_crash_request_limits_def)
qed

theorem read_log_tail_of_whole_log_witness:
  "\<exists>tail t. read_log_tail (expanded_read stored_zlib) (length (map byte_of [65, 10, 66])) 64 2
      (expanded_new (compressed_new (map byte_of [65, 10, 66]) 100) 100 1) = Some (Inr tail, t)
    \<and> extract_tail (map byte_of [65, 10, 66]) 64 2 = Some tail"
proof -
  let ?log = "map byte_of [65, 10, 66]"
  have "decompresses stored_zlib (zlib_new stored_zlib (compressed_new ?log 100)) ?log 1"
    by (rule stored_decompresses) (simp_all add: u64_max_def)
  then obtain plain going where p: "delivers stored_zlib plain going (length ?log) 1"
    "going (compressed_new ?log 100)" "plain (compressed_new ?log 100) = ?log"
    unfolding decompresses_def by (auto simp: stored_zlib_def)
  then have ready: "expanded_ready stored_zlib plain going (length ?log) 1 (expanded_new (compressed_new ?log 100) 100 1)"
    by (simp add: expanded_ready_def expanded_new_def u64_max_def)
  have "plain (er_inner (expanded_new (compressed_new ?log 100) 100 1)) = ?log @ []" "64 + 4 \<le> u64_max"
    using p(3) by (simp_all add: expanded_new_def u64_max_def)
  from read_log_tail_of_whole_log [OF ready this, of 2] show ?thesis by blast
qed

end
