(* ===== verification/Artifacts.thy ===== *)
theory Artifacts
  imports Rust_Path Utf8
begin

section \<open>Symbol artifacts and their companions (crates/symbols, lib.rs)\<close>

text \<open>
  The data of an artifact scan, the text forms of debug identities, and \<^verbatim>\<open>match_artifacts\<close>, which pairs
  executables with program databases. The code updates the artifacts in place while it compares them; the
  lemmas show that the result is the one of comparing all artifacts as they were parsed.
\<close>

subsection \<open>Data\<close>

datatype artifact_type = PeExecutable | PeDynamicLibrary | PdbFile

datatype architecture = X86 | X86_64 | Arm64

datatype match_state = Matched | MissingCompanion | Mismatched | Invalid

datatype artifact_error_code =
  Malformed | MissingDebugIdentity | Unreadable | UnsupportedArchitecture | UnsupportedFormat

record artifact_record =
  ar_path :: ustring
  ar_module :: ustring
  ar_type :: artifact_type
  ar_architecture :: "architecture option"
  ar_size :: "nat option"
  ar_debug_id :: "ustring option"
  ar_code_id :: "ustring option"
  ar_match_state :: match_state
  ar_matches :: "ustring list"
  ar_error :: "artifact_error_code option"

record artifact_scan =
  scan_schema_version :: nat
  scan_artifacts_of :: "artifact_record list"

record identity =
  id_guid :: "byte list"
  id_age :: nat
  id_original_age :: "nat option"

record parsed_artifact =
  pa_record :: artifact_record
  pa_identity :: "identity option"
  pa_expected_pdb_name :: "ustring option"

subsection \<open>Debug identities\<close>

definition canonical_pe_guid :: "byte list \<Rightarrow> byte list" where
  "canonical_pe_guid raw = map (\<lambda>i. raw ! i) [3, 2, 1, 0, 5, 4, 7, 6, 8, 9, 10, 11, 12, 13, 14, 15]"

definition hex_bytes :: "byte list \<Rightarrow> ustring" where
  "hex_bytes bs = concat (map (\<lambda>b. pad_hex hex_upper 2 (unat b)) bs)"

definition format_debug_id :: "byte list \<Rightarrow> nat \<Rightarrow> ustring" where
  "format_debug_id guid age =
     hex_bytes (take 4 guid) @ lit ''-'' @ hex_bytes (take 2 (drop 4 guid)) @ lit ''-''
     @ hex_bytes (take 2 (drop 6 guid)) @ lit ''-'' @ hex_bytes (take 2 (drop 8 guid)) @ lit ''-''
     @ hex_bytes (take 6 (drop 10 guid)) @ lit ''-'' @ to_hex hex_upper age"

definition format_code_id :: "nat \<Rightarrow> nat \<Rightarrow> ustring" where
  "format_code_id timestamp image_size = pad_hex hex_upper 8 timestamp @ to_hex hex_upper image_size"

definition code_view_file_name :: "byte list \<Rightarrow> ustring" where
  "code_view_file_name path = unwrap_or (get_at (rsplit_on is_separator (from_utf8_lossy path)) 0) []"

subsection \<open>Matching\<close>

definition is_pe :: "artifact_type \<Rightarrow> bool" where
  "is_pe t \<longleftrightarrow> t = PeExecutable \<or> t = PeDynamicLibrary"

definition compatible :: "parsed_artifact \<Rightarrow> parsed_artifact \<Rightarrow> bool" where
  "compatible left right =
     (let lt = ar_type (pa_record left); rt = ar_type (pa_record right);
          pair = (if is_pe lt \<and> rt = PdbFile then Some (left, right)
                  else if lt = PdbFile \<and> is_pe rt then Some (right, left) else None)
      in case pair of
           None \<Rightarrow> False
         | Some (pe, pdb) \<Rightarrow>
             (case (pa_identity pe, pa_identity pdb) of
                (Some pe_identity, Some pdb_identity) \<Rightarrow>
                  ar_architecture (pa_record pe) = ar_architecture (pa_record pdb)
                  \<and> id_guid pe_identity = id_guid pdb_identity
                  \<and> id_age pdb_identity \<ge> id_age pe_identity
                  \<and> is_none_or (id_original_age pdb_identity) (\<lambda>age. age = id_age pe_identity)
              | _ \<Rightarrow> False))"

definition has_named_mismatch :: "nat \<Rightarrow> parsed_artifact list \<Rightarrow> bool" where
  "has_named_mismatch index artifacts =
     (let artifact = artifacts ! index
      in list_ex (\<lambda>other_index. let other = artifacts ! other_index in
           index \<noteq> other_index \<and> ar_match_state (pa_record other) \<noteq> Invalid \<and>
           (if is_pe (ar_type (pa_record artifact)) \<and> ar_type (pa_record other) = PdbFile then
              is_some_and (pa_expected_pdb_name artifact)
                (\<lambda>name. eq_ignore_ascii_case name (ar_module (pa_record other)))
            else if ar_type (pa_record artifact) = PdbFile \<and> is_pe (ar_type (pa_record other)) then
              is_some_and (pa_expected_pdb_name other)
                (\<lambda>name. eq_ignore_ascii_case name (ar_module (pa_record artifact)))
            else False)) [0..<length artifacts])"

text \<open>The body of the outer loop for the index \<open>left\<close>.\<close>

definition match_step :: "nat \<Rightarrow> parsed_artifact list \<Rightarrow> parsed_artifact list" where
  "match_step left artifacts =
     (if ar_match_state (pa_record (artifacts ! left)) = Invalid then artifacts
      else
        let matches = sort (map (\<lambda>right. ar_path (pa_record (artifacts ! right)))
              (filter (\<lambda>right. left \<noteq> right \<and> compatible (artifacts ! left) (artifacts ! right))
                [0..<length artifacts]));
            state = (if matches = [] then
                       (if has_named_mismatch left artifacts then Mismatched else MissingCompanion)
                     else Matched);
            artifact = artifacts ! left
        in artifacts[left := artifact\<lparr>pa_record := (pa_record artifact)
             \<lparr>ar_match_state := state, ar_matches := matches\<rparr>\<rparr>])"

definition match_artifacts :: "parsed_artifact list \<Rightarrow> parsed_artifact list" where
  "match_artifacts artifacts = fold match_step [0..<length artifacts] artifacts"

subsection \<open>Debug identities: lemmas\<close>

lemma length_to_hex_byte: "n < 256 \<Longrightarrow> length (to_hex dig n) = (if n < 16 then 1 else 2)"
  using less_mult_imp_div_less [of n 16 16] by (simp add: to_hex.simps [of dig n] to_hex.simps [of dig "n div 16"])

lemma length_pad_hex_byte [simp]: "length (pad_hex dig 2 (unat (b :: byte))) = 2"
  using unat_byte_less [of b] by (simp add: pad_hex_def length_to_hex_byte)

lemma length_hex_bytes [simp]: "length (hex_bytes bs) = 2 * length bs"
  by (induction bs) (simp_all add: hex_bytes_def)

lemma pad_hex_inject:
  "m \<le> u64_max \<Longrightarrow> n \<le> u64_max \<Longrightarrow> pad_hex hex_upper w m = pad_hex hex_upper w n \<longleftrightarrow> m = n"
  using parse_hex_pad [OF hex_value_digits(2), of m w] parse_hex_pad [OF hex_value_digits(2), of n w]
  by (metis option.inject)

lemma to_hex_inject: "m \<le> u64_max \<Longrightarrow> n \<le> u64_max \<Longrightarrow> to_hex hex_upper m = to_hex hex_upper n \<longleftrightarrow> m = n"
  using pad_hex_inject [of m n 0] by (simp add: pad_hex_def)

lemma unat_byte_u64 [simp]: "unat (b :: byte) \<le> u64_max"
  using unat_byte_less [of b] by (simp add: u64_max_def)

lemma hex_bytes_inject: "length bs = length cs \<Longrightarrow> hex_bytes bs = hex_bytes cs \<longleftrightarrow> bs = cs"
proof (induction bs cs rule: list_induct2)
  case (Cons b bs c cs)
  have "hex_bytes (b # bs) = hex_bytes (c # cs)
      \<longleftrightarrow> pad_hex hex_upper 2 (unat b) = pad_hex hex_upper 2 (unat c) \<and> hex_bytes bs = hex_bytes cs"
    by (simp add: hex_bytes_def)
  with Cons.IH show ?case by (simp add: pad_hex_inject word_unat_eq_iff)
qed (simp add: hex_bytes_def)

lemma take_drop_next: "take n (drop m xs) @ drop (m + n) xs = drop m xs"
  by (metis add.commute append_take_drop_id drop_drop)

lemma format_debug_id_inject:
  assumes "length g = 16" and "length h = 16" and "a \<le> u64_max" and "b \<le> u64_max"
  shows "format_debug_id g a = format_debug_id h b \<longleftrightarrow> g = h \<and> a = b"
proof
  assume eq: "format_debug_id g a = format_debug_id h b"
  have split: "g = take 4 g @ take 2 (drop 4 g) @ take 2 (drop 6 g) @ take 2 (drop 8 g) @ take 6 (drop 10 g)"
    if "length g = 16" for g :: "byte list"
    using that take_drop_next [of 4 0 g] take_drop_next [of 2 4 g] take_drop_next [of 2 6 g] take_drop_next [of 2 8 g]
    by simp
  from eq assms have "take 4 g = take 4 h" "take 2 (drop 4 g) = take 2 (drop 4 h)"
    "take 2 (drop 6 g) = take 2 (drop 6 h)" "take 2 (drop 8 g) = take 2 (drop 8 h)"
    "take 6 (drop 10 g) = take 6 (drop 10 h)" "to_hex hex_upper a = to_hex hex_upper b"
    by (simp_all add: format_debug_id_def hex_bytes_inject append_eq_append_conv)
  with split [OF assms(1)] split [OF assms(2)] assms(3,4) show "g = h \<and> a = b"
    by (metis to_hex_inject)
qed simp

lemma canonical_pe_guid_involution:
  assumes "length raw = 16"
  shows "canonical_pe_guid (canonical_pe_guid raw) = raw"
proof -
  have "canonical_pe_guid (canonical_pe_guid raw) = map ((!) raw) [0..<16]"
    by (simp add: canonical_pe_guid_def upt_rec) (simp add: numeral_eq_Suc)
  also have "\<dots> = raw" using assms map_nth [of raw] by simp
  finally show ?thesis .
qed

lemma length_canonical_pe_guid [simp]: "length (canonical_pe_guid raw) = 16"
  by (simp add: canonical_pe_guid_def)

lemma canonical_pe_guid_inject:
  "length g = 16 \<Longrightarrow> length h = 16 \<Longrightarrow> canonical_pe_guid g = canonical_pe_guid h \<longleftrightarrow> g = h"
  by (metis canonical_pe_guid_involution)

subsection \<open>Matching: lemmas\<close>

text \<open>What matching reads of an artifact, apart from its match state being invalid, does not change.\<close>

definition same_facts :: "parsed_artifact \<Rightarrow> parsed_artifact \<Rightarrow> bool" where
  "same_facts a b \<longleftrightarrow>
     pa_identity a = pa_identity b \<and> pa_expected_pdb_name a = pa_expected_pdb_name b
     \<and> ar_path (pa_record a) = ar_path (pa_record b) \<and> ar_module (pa_record a) = ar_module (pa_record b)
     \<and> ar_type (pa_record a) = ar_type (pa_record b)
     \<and> ar_architecture (pa_record a) = ar_architecture (pa_record b)
     \<and> (ar_match_state (pa_record a) = Invalid \<longleftrightarrow> ar_match_state (pa_record b) = Invalid)"

text \<open>The companions and the state of one artifact among artifacts as they were parsed.\<close>

definition companions :: "parsed_artifact list \<Rightarrow> nat \<Rightarrow> ustring list" where
  "companions artifacts i = sort (map (\<lambda>j. ar_path (pa_record (artifacts ! j)))
     (filter (\<lambda>j. i \<noteq> j \<and> compatible (artifacts ! i) (artifacts ! j)) [0..<length artifacts]))"

definition matched_artifact :: "parsed_artifact list \<Rightarrow> nat \<Rightarrow> parsed_artifact" where
  "matched_artifact artifacts i =
     (let artifact = artifacts ! i
      in if ar_match_state (pa_record artifact) = Invalid then artifact
         else artifact\<lparr>pa_record := (pa_record artifact)
           \<lparr>ar_match_state := (if companions artifacts i \<noteq> [] then Matched
               else if has_named_mismatch i artifacts then Mismatched else MissingCompanion),
             ar_matches := companions artifacts i\<rparr>\<rparr>)"

lemma same_facts_refl: "same_facts a a"
  by (simp add: same_facts_def)

lemma compatible_cong: "same_facts a a' \<Longrightarrow> same_facts b b' \<Longrightarrow> compatible a b = compatible a' b'"
  by (cases "ar_type (pa_record a')"; cases "ar_type (pa_record b')")
     (simp_all add: same_facts_def compatible_def is_pe_def Let_def split: option.split)

lemma has_named_mismatch_cong:
  assumes "list_all2 same_facts xs ys" and "i < length xs"
  shows "has_named_mismatch i xs = has_named_mismatch i ys"
proof -
  have len: "length xs = length ys" using assms(1) by (rule list_all2_lengthD)
  have "same_facts (xs ! j) (ys ! j)" if "j < length xs" for j using assms(1) that by (rule list_all2_nthD)
  with assms(2) len show ?thesis
    unfolding has_named_mismatch_def Let_def list_ex_iff set_upt atLeastLessThan_iff same_facts_def
    by (intro bex_cong) auto
qed

lemma companions_cong:
  assumes "list_all2 same_facts xs ys" and "i < length xs"
  shows "companions xs i = companions ys i"
proof -
  have len: "length xs = length ys" using assms(1) by (rule list_all2_lengthD)
  have same: "same_facts (xs ! j) (ys ! j)" if "j < length xs" for j using assms(1) that by (rule list_all2_nthD)
  have "filter (\<lambda>j. i \<noteq> j \<and> compatible (xs ! i) (xs ! j)) [0..<length xs]
      = filter (\<lambda>j. i \<noteq> j \<and> compatible (ys ! i) (ys ! j)) [0..<length ys]"
    unfolding len [symmetric] using compatible_cong [OF same [OF assms(2)] same] by (intro filter_cong) auto
  moreover have "ar_path (pa_record (xs ! j)) = ar_path (pa_record (ys ! j))" if "j < length ys" for j
    using same [of j] that len by (simp add: same_facts_def)
  ultimately show ?thesis unfolding companions_def by (auto intro!: arg_cong [where f = sort] map_cong)
qed

lemma same_facts_matched: "same_facts (matched_artifact xs i) (xs ! i)"
  by (simp add: matched_artifact_def same_facts_def Let_def)

lemma matched_artifact_cong:
  "xs ! k = ys ! k \<Longrightarrow> companions xs k = companions ys k \<Longrightarrow> has_named_mismatch k xs = has_named_mismatch k ys \<Longrightarrow>
     matched_artifact xs k = matched_artifact ys k"
  by (simp add: matched_artifact_def Let_def)

lemma match_step_matched: "match_step k xs = xs[k := matched_artifact xs k]"
  by (simp add: match_step_def matched_artifact_def companions_def Let_def)

text \<open>The loop computes every artifact's companions from the artifacts as they were parsed.\<close>

lemma match_artifacts_pointwise:
  "match_artifacts artifacts = map (matched_artifact artifacts) [0..<length artifacts]"
proof -
  let ?n = "length artifacts"
  let ?done = "\<lambda>k. map (\<lambda>i. if i < k then matched_artifact artifacts i else artifacts ! i) [0..<?n]"
  have "k \<le> ?n \<Longrightarrow> fold match_step [0..<k] artifacts = ?done k" for k
  proof (induction k)
    case 0
    then show ?case by (simp add: map_nth)
  next
    case (Suc k)
    then have k: "k < ?n" by simp
    have rel: "list_all2 same_facts (?done k) artifacts"
      by (rule list_all2_all_nthI) (simp_all add: same_facts_matched same_facts_refl)
    have at: "?done k ! k = artifacts ! k" using k by simp
    have facts: "companions (?done k) k = companions artifacts k"
      "has_named_mismatch k (?done k) = has_named_mismatch k artifacts"
      using companions_cong [OF rel] has_named_mismatch_cong [OF rel] k by simp_all
    have "matched_artifact (?done k) k = matched_artifact artifacts k"
      by (rule matched_artifact_cong [OF at facts])
    then have "match_step k (?done k) = (?done k)[k := matched_artifact artifacts k]"
      by (simp only: match_step_matched)
    also have "\<dots> = ?done (Suc k)"
      using k by (intro nth_equalityI) (auto simp: nth_list_update less_Suc_eq)
    finally show ?case using Suc by simp
  qed
  from this [of ?n] show ?thesis by (simp add: match_artifacts_def)
qed

lemma compatible_sym: "compatible a b = compatible b a"
  by (cases "ar_type (pa_record a)"; cases "ar_type (pa_record b)") (simp_all add: compatible_def is_pe_def Let_def)

text \<open>An artifact that failed to parse has no identity.\<close>

definition parsed_ok :: "parsed_artifact \<Rightarrow> bool" where
  "parsed_ok a \<longleftrightarrow>
     (ar_match_state (pa_record a) = Invalid \<longrightarrow> pa_identity a = None \<and> ar_matches (pa_record a) = [])
     \<and> is_none_or (pa_identity a) (\<lambda>i. length (id_guid i) = 16 \<and> id_age i \<le> u64_max
         \<and> ar_debug_id (pa_record a) = Some (format_debug_id (id_guid i) (id_age i)))"

lemma mem_companions:
  assumes "distinct (map (\<lambda>a. ar_path (pa_record a)) artifacts)" and "j < length artifacts"
  shows "ar_path (pa_record (artifacts ! j)) \<in> set (companions artifacts i)
    \<longleftrightarrow> i \<noteq> j \<and> compatible (artifacts ! i) (artifacts ! j)"
proof -
  have uniq: "k = j" if "ar_path (pa_record (artifacts ! j)) = ar_path (pa_record (artifacts ! k))" "k < length artifacts" for k
    using assms that by (auto simp: distinct_conv_nth)
  show ?thesis using assms(2) by (auto simp: companions_def dest: uniq)
qed

lemma incompatible_invalid:
  "parsed_ok a \<Longrightarrow> ar_match_state (pa_record a) = Invalid \<Longrightarrow> \<not> compatible a b"
  by (simp add: parsed_ok_def compatible_def Let_def split: option.split)

lemma matched_artifact_matches:
  assumes "parsed_ok (artifacts ! i)"
  shows "ar_matches (pa_record (matched_artifact artifacts i)) = companions artifacts i"
proof (cases "ar_match_state (pa_record (artifacts ! i)) = Invalid")
  case True
  then have "companions artifacts i = []"
    using incompatible_invalid [OF assms] by (simp add: companions_def)
  with True assms show ?thesis by (simp add: matched_artifact_def parsed_ok_def)
qed (simp add: matched_artifact_def Let_def)

text \<open>The two relations between a PE and a PDB that matching is about, apart from the code's case analysis: the
  PDB is the one the PE was built with, and the PE names a PDB of that module.\<close>

definition built_together :: "parsed_artifact \<Rightarrow> parsed_artifact \<Rightarrow> bool" where
  "built_together pe pdb \<longleftrightarrow>
     ar_type (pa_record pe) \<in> {PeExecutable, PeDynamicLibrary} \<and> ar_type (pa_record pdb) = PdbFile
     \<and> ar_architecture (pa_record pe) = ar_architecture (pa_record pdb)
     \<and> (\<exists>p d. pa_identity pe = Some p \<and> pa_identity pdb = Some d \<and> id_guid p = id_guid d \<and> id_age p \<le> id_age d
         \<and> id_original_age d \<in> {None, Some (id_age p)})"

definition names_pdb :: "parsed_artifact \<Rightarrow> parsed_artifact \<Rightarrow> bool" where
  "names_pdb pe pdb \<longleftrightarrow>
     ar_type (pa_record pe) \<in> {PeExecutable, PeDynamicLibrary} \<and> ar_type (pa_record pdb) = PdbFile
     \<and> (\<exists>name. pa_expected_pdb_name pe = Some name \<and> eq_ignore_ascii_case name (ar_module (pa_record pdb)))"

lemma compatible_iff: "compatible a b \<longleftrightarrow> built_together a b \<or> built_together b a"
  by (cases "ar_type (pa_record a)"; cases "ar_type (pa_record b)")
     (auto simp: compatible_def built_together_def is_pe_def is_none_or_def Let_def split: option.splits)

lemma has_named_mismatch_iff:
  "has_named_mismatch i artifacts \<longleftrightarrow>
     (\<exists>k < length artifacts. k \<noteq> i \<and> ar_match_state (pa_record (artifacts ! k)) \<noteq> Invalid
        \<and> (names_pdb (artifacts ! i) (artifacts ! k) \<or> names_pdb (artifacts ! k) (artifacts ! i)))"
proof -
  have "(if is_pe (ar_type (pa_record a)) \<and> ar_type (pa_record b) = PdbFile then
          is_some_and (pa_expected_pdb_name a) (\<lambda>name. eq_ignore_ascii_case name (ar_module (pa_record b)))
        else if ar_type (pa_record a) = PdbFile \<and> is_pe (ar_type (pa_record b)) then
          is_some_and (pa_expected_pdb_name b) (\<lambda>name. eq_ignore_ascii_case name (ar_module (pa_record a)))
        else False) \<longleftrightarrow> names_pdb a b \<or> names_pdb b a" for a b
    by (cases "ar_type (pa_record a)"; cases "ar_type (pa_record b)")
       (auto simp: names_pdb_def is_pe_def is_some_and_def split: option.splits)
  then have "has_named_mismatch i artifacts \<longleftrightarrow>
     (\<exists>k \<in> {0..<length artifacts}. i \<noteq> k \<and> ar_match_state (pa_record (artifacts ! k)) \<noteq> Invalid
        \<and> (names_pdb (artifacts ! i) (artifacts ! k) \<or> names_pdb (artifacts ! k) (artifacts ! i)))"
    by (simp add: has_named_mismatch_def Let_def list_ex_iff)
  then show ?thesis by fastforce
qed

text \<open>C17: matching pairs executables with program databases. For artifacts as the parsers produce them, with
  distinct paths: matching keeps every artifact and its order; one artifact lists another exactly when they
  are a PE and a PDB with the same architecture and GUID, a PDB age not below the PE's and an original
  age, where there is one, equal to it, so the relation is symmetric; the list is sorted. An artifact is
  \<open>Invalid\<close> exactly when it failed to parse, otherwise \<open>Matched\<close> when it lists a companion, otherwise
  \<open>Mismatched\<close> when it and another valid artifact are a PE and a PDB of the name the PE expects, otherwise
  \<open>MissingCompanion\<close>. All of it is about the artifacts as they were before the updates in place.\<close>

theorem match_artifacts_correct:
  assumes "list_all parsed_ok artifacts" and "distinct (map (\<lambda>a. ar_path (pa_record a)) artifacts)"
    and "i < length artifacts" and "j < length artifacts"
  shows "length (match_artifacts artifacts) = length artifacts
    \<and> set (ar_matches (pa_record (match_artifacts artifacts ! i))) = {ar_path (pa_record (artifacts ! k)) | k.
         k < length artifacts \<and> k \<noteq> i
         \<and> (built_together (artifacts ! i) (artifacts ! k) \<or> built_together (artifacts ! k) (artifacts ! i))}
    \<and> (ar_path (pa_record (artifacts ! j)) \<in> set (ar_matches (pa_record (match_artifacts artifacts ! i)))
       \<longleftrightarrow> i \<noteq> j \<and> (built_together (artifacts ! i) (artifacts ! j) \<or> built_together (artifacts ! j) (artifacts ! i)))
    \<and> (ar_path (pa_record (artifacts ! j)) \<in> set (ar_matches (pa_record (match_artifacts artifacts ! i)))
       \<longleftrightarrow> ar_path (pa_record (artifacts ! i)) \<in> set (ar_matches (pa_record (match_artifacts artifacts ! j))))
    \<and> sorted (ar_matches (pa_record (match_artifacts artifacts ! i)))
    \<and> ar_match_state (pa_record (match_artifacts artifacts ! i)) =
       (if ar_match_state (pa_record (artifacts ! i)) = Invalid then Invalid
        else if ar_matches (pa_record (match_artifacts artifacts ! i)) \<noteq> [] then Matched
        else if \<exists>k < length artifacts. k \<noteq> i \<and> ar_match_state (pa_record (artifacts ! k)) \<noteq> Invalid
             \<and> (names_pdb (artifacts ! i) (artifacts ! k) \<or> names_pdb (artifacts ! k) (artifacts ! i)) then Mismatched
        else MissingCompanion)
    \<and> ar_path (pa_record (match_artifacts artifacts ! i)) = ar_path (pa_record (artifacts ! i))"
proof -
  have at: "match_artifacts artifacts ! k = matched_artifact artifacts k"
    and matches: "ar_matches (pa_record (matched_artifact artifacts k)) = companions artifacts k"
    if "k < length artifacts" for k
    using that assms(1) by (simp_all add: match_artifacts_pointwise matched_artifact_matches list_all_length)
  have state: "ar_match_state (pa_record (matched_artifact artifacts i)) =
      (if ar_match_state (pa_record (artifacts ! i)) = Invalid then Invalid
       else if companions artifacts i \<noteq> [] then Matched
       else if has_named_mismatch i artifacts then Mismatched else MissingCompanion)"
    by (simp add: matched_artifact_def Let_def)
  have "sorted (companions artifacts i)" by (simp add: companions_def)
  moreover have "set (companions artifacts i) = {ar_path (pa_record (artifacts ! k)) | k.
         k < length artifacts \<and> k \<noteq> i
         \<and> (built_together (artifacts ! i) (artifacts ! k) \<or> built_together (artifacts ! k) (artifacts ! i))}"
    by (auto simp: companions_def compatible_iff)
  moreover have "ar_path (pa_record (matched_artifact artifacts i)) = ar_path (pa_record (artifacts ! i))"
    using same_facts_matched [of artifacts i] by (simp add: same_facts_def)
  moreover have "length (match_artifacts artifacts) = length artifacts" by (simp add: match_artifacts_pointwise)
  ultimately show ?thesis
    unfolding at [OF assms(3)] at [OF assms(4)] matches [OF assms(3)] matches [OF assms(4)]
      mem_companions [OF assms(2,3)] mem_companions [OF assms(2,4)] state compatible_iff has_named_mismatch_iff
    by (intro conjI) auto
qed

text \<open>The debug identity text is faithful. Two identities of 16-byte GUIDs have the same text only if
  GUID and age are the same, and bringing a PE's GUID into canonical order loses nothing.\<close>

theorem debug_id_faithful:
  assumes "length g = 16" and "length h = 16" and "a \<le> u32_max" and "b \<le> u32_max"
  shows "(format_debug_id (canonical_pe_guid g) a = format_debug_id (canonical_pe_guid h) b \<longleftrightarrow> g = h \<and> a = b)
    \<and> (format_debug_id g a = format_debug_id h b \<longleftrightarrow> g = h \<and> a = b)
    \<and> canonical_pe_guid (canonical_pe_guid g) = g"
proof -
  have "u32_max \<le> u64_max" by (simp add: u32_max_def u64_max_def)
  then show ?thesis
    using assms by (simp add: format_debug_id_inject canonical_pe_guid_inject canonical_pe_guid_involution)
qed

theorem debug_id_faithful_witness:
  "format_debug_id (map byte_of [0..<16]) 1 \<noteq> format_debug_id (map byte_of [0..<16]) 2"
proof -
  have "length (map byte_of [0..<16]) = 16" "(1 :: nat) \<le> u32_max" "(2 :: nat) \<le> u32_max"
    by (simp_all add: u32_max_def)
  from debug_id_faithful [OF this(1) this(1) this(2,3)] show ?thesis by simp
qed

text \<open>An executable and its program database.\<close>

definition sample_guid :: "byte list" where "sample_guid = map byte_of [0..<16]"

definition sample_artifact :: "ustring \<Rightarrow> artifact_type \<Rightarrow> nat option \<Rightarrow> parsed_artifact" where
  "sample_artifact path t original =
     \<lparr>pa_record = \<lparr>ar_path = path, ar_module = path, ar_type = t, ar_architecture = Some X86_64, ar_size = Some 1,
        ar_debug_id = Some (format_debug_id sample_guid 1), ar_code_id = None, ar_match_state = MissingCompanion,
        ar_matches = [], ar_error = None\<rparr>,
      pa_identity = Some \<lparr>id_guid = sample_guid, id_age = 1, id_original_age = original\<rparr>,
      pa_expected_pdb_name = None\<rparr>"

definition sample_pair :: "nat \<Rightarrow> parsed_artifact list" where
  "sample_pair n =
     [(sample_artifact (lit ''a.exe'') PeExecutable None)\<lparr>pa_expected_pdb_name := Some (lit ''a.pdb'')\<rparr>,
      sample_artifact (lit ''a.pdb'') PdbFile (Some n)]"

theorem match_artifacts_correct_witness:
  "ar_match_state (pa_record (match_artifacts (sample_pair 1) ! 0)) = Matched
   \<and> ar_match_state (pa_record (match_artifacts (sample_pair 2) ! 0)) = Mismatched"
proof -
  have ok: "list_all parsed_ok (sample_pair n)" "distinct (map (\<lambda>a. ar_path (pa_record a)) (sample_pair n))"
    "0 < length (sample_pair n)" "1 < length (sample_pair n)" for n
    by (simp_all add: parsed_ok_def sample_pair_def sample_artifact_def sample_guid_def u64_max_def)
  have "built_together (sample_pair 1 ! 0) (sample_pair 1 ! 1)"
    by (simp add: built_together_def sample_pair_def sample_artifact_def)
  then have "ar_matches (pa_record (match_artifacts (sample_pair 1) ! 0)) \<noteq> []"
    using match_artifacts_correct [OF ok, of 1] by auto
  moreover have "ar_match_state (pa_record (sample_pair n ! 0)) \<noteq> Invalid" for n
    by (simp add: sample_pair_def sample_artifact_def)
  moreover have "{ar_path (pa_record (sample_pair 2 ! k)) | k. k < length (sample_pair 2) \<and> k \<noteq> 0
       \<and> (built_together (sample_pair 2 ! 0) (sample_pair 2 ! k) \<or> built_together (sample_pair 2 ! k) (sample_pair 2 ! 0))} = {}"
    by (auto simp: built_together_def sample_pair_def sample_artifact_def less_Suc_eq)
  then have "ar_matches (pa_record (match_artifacts (sample_pair 2) ! 0)) = []"
    using match_artifacts_correct [OF ok, of 2] by (simp del: Collect_empty_eq)
  moreover have "\<exists>k < length (sample_pair 2). k \<noteq> 0 \<and> ar_match_state (pa_record (sample_pair 2 ! k)) \<noteq> Invalid
      \<and> (names_pdb (sample_pair 2 ! 0) (sample_pair 2 ! k) \<or> names_pdb (sample_pair 2 ! k) (sample_pair 2 ! 0))"
    by (rule exI [of _ 1]) (simp add: names_pdb_def sample_pair_def sample_artifact_def eq_ignore_ascii_case_def)
  ultimately show ?thesis
    using match_artifacts_correct [OF ok, of 1] match_artifacts_correct [OF ok, of 2] by presburger
qed

end
