(* ===== verification/Pdb_Reader.thy ===== *)
theory Pdb_Reader
  imports Artifacts
begin

section \<open>Reading program database headers (crates/symbols, lib.rs)\<close>

text \<open>
  The bounded reader of MSF containers: from the super block to the block map, the stream directory and
  the first page of the debug stream. A file is its bytes and the length its metadata report. Reservations
  of memory (\<^verbatim>\<open>try_reserve_exact\<close>) and conversions between 64-bit integer types are taken to succeed.
\<close>

subsection \<open>Data\<close>

definition max_metadata_read_bytes :: nat where "max_metadata_read_bytes = 16 * 1024 * 1024"
definition max_pdb_page_bytes :: nat where "max_pdb_page_bytes = 64 * 1024"
definition pdb_header_bytes :: nat where "pdb_header_bytes = 4096"
definition pdb_raw_header_bytes :: nat where "pdb_raw_header_bytes = 52"
definition pdb_dbi_header_bytes :: nat where "pdb_dbi_header_bytes = 64"
definition pdb_dbi_stream :: nat where "pdb_dbi_stream = 3"

definition pdb_magic :: "byte list" where
  "pdb_magic = utf8 (lit ''Microsoft C/C++ MSF 7.00'') @ map byte_of [13, 10, 26, 68, 83, 0, 0, 0]"

record pdb_layout =
  page_size :: nat
  pages_used :: nat
  directory_bytes :: nat
  layout_file_bytes :: nat

record open_file =
  metadata_len :: "nat option"
  content :: "byte list"

type_synonym 'a artifact_result = "(artifact_error_code, 'a) result"

subsection \<open>Operations\<close>

definition read_le_at :: "nat \<Rightarrow> byte list \<Rightarrow> nat \<Rightarrow> nat artifact_result" where
  "read_le_at w bytes offset =
     map_err (\<lambda>_. Malformed) (bindR (ok_or (get_range bytes offset (saturating_add offset w)) ())
       (\<lambda>bs. if length bs = w then Inr (le_nat bs) else Inl ()))"

definition read_u32_at :: "byte list \<Rightarrow> nat \<Rightarrow> nat artifact_result" where
  "read_u32_at bytes offset = read_le_at 4 bytes offset"

definition read_u16_at :: "byte list \<Rightarrow> nat \<Rightarrow> nat artifact_result" where
  "read_u16_at bytes offset = read_le_at 2 bytes offset"

definition read_file_bytes :: "open_file \<Rightarrow> nat \<Rightarrow> nat \<Rightarrow> nat \<Rightarrow> byte list artifact_result" where
  "read_file_bytes file offset bytes file_bytes =
     bindR (ok_or (filter_option (\<lambda>e. e \<le> file_bytes) (checked_add offset bytes)) Malformed) (\<lambda>_.
       if offset + bytes \<le> length (content file) \<or> bytes = 0
       then Inr (take bytes (drop offset (content file))) else Inl Malformed)"

fun is_power_of_two :: "nat \<Rightarrow> bool" where
  "is_power_of_two n = (if n = 0 then False else if n = 1 then True else even n \<and> is_power_of_two (n div 2))"

declare is_power_of_two.simps [simp del]

definition parse_pdb_layout :: "byte list \<Rightarrow> nat \<Rightarrow> pdb_layout artifact_result" where
  "parse_pdb_layout header file_bytes =
     bindR (require (get_range header 0 (length pdb_magic) = Some pdb_magic) Malformed) (\<lambda>_.
     bindR (read_u32_at header 32) (\<lambda>psize.
     bindR (read_u32_at header 40) (\<lambda>used.
     bindR (read_u32_at header 44) (\<lambda>directory.
     bindR (require (\<not> (\<not> is_power_of_two psize \<or> \<not> (0x100 \<le> psize \<and> psize \<le> max_pdb_page_bytes)
               \<or> used = 0 \<or> directory > max_metadata_read_bytes)) Malformed) (\<lambda>_.
     bindR (ok_or (checked_mul used psize) Malformed) (\<lambda>described.
     bindR (require (described \<le> file_bytes) Malformed) (\<lambda>_.
     Inr \<lparr>page_size = psize, pages_used = used, directory_bytes = directory, layout_file_bytes = file_bytes\<rparr>)))))))"

definition pages_needed :: "nat \<Rightarrow> nat \<Rightarrow> nat artifact_result" where
  "pages_needed bytes psize = ok_or (map_option (\<lambda>b. b div psize) (checked_add bytes (psize - 1))) Malformed"

definition read_page_number :: "byte list \<Rightarrow> nat \<Rightarrow> nat \<Rightarrow> nat artifact_result" where
  "read_page_number bytes offset used =
     bindR (read_u32_at bytes offset) (\<lambda>page. if page = 0 \<or> page \<ge> used then Inl Malformed else Inr page)"

definition read_pdb_pages :: "open_file \<Rightarrow> nat list \<Rightarrow> nat \<Rightarrow> nat \<Rightarrow> nat \<Rightarrow> byte list artifact_result" where
  "read_pdb_pages file pages psize bytes file_bytes =
     bindR (pages_needed bytes psize) (\<lambda>required.
     bindR (require (required \<le> length pages) Malformed) (\<lambda>_.
     fold_result (\<lambda>page output.
       let remaining = bytes - length output; chunk_bytes = min remaining psize
       in bindR (ok_or (checked_mul page psize) Malformed) (\<lambda>page_offset.
          bindR (read_file_bytes file page_offset chunk_bytes file_bytes) (\<lambda>chunk. Inr (output @ chunk))))
       (take required pages) []))"

definition read_pdb_directory :: "open_file \<Rightarrow> byte list \<Rightarrow> pdb_layout \<Rightarrow> byte list artifact_result" where
  "read_pdb_directory file header layout =
     bindR (pages_needed (directory_bytes layout) (page_size layout)) (\<lambda>directory_pages.
     bindR (ok_or (checked_mul directory_pages 4) Malformed) (\<lambda>block_map_bytes.
     bindR (pages_needed block_map_bytes (page_size layout)) (\<lambda>block_map_pages.
     bindR (ok_or (checked_mul block_map_pages 4) Malformed) (\<lambda>block_map_entries.
     bindR (ok_or (checked_add pdb_raw_header_bytes block_map_entries) Malformed) (\<lambda>block_map_end.
     bindR (require (block_map_end \<le> length header) Malformed) (\<lambda>_.
     bindR (traverse (\<lambda>index.
         bindR (ok_or (checked_mul index 4) Malformed) (\<lambda>entry.
         bindR (ok_or (checked_add pdb_raw_header_bytes entry) Malformed) (\<lambda>offset.
         read_page_number header offset (pages_used layout)))) [0..<block_map_pages]) (\<lambda>block_map.
     bindR (read_pdb_pages file block_map (page_size layout) block_map_bytes (layout_file_bytes layout)) (\<lambda>page_bytes.
     bindR (traverse (\<lambda>index.
         bindR (ok_or (checked_mul index 4) Malformed) (\<lambda>offset.
         read_page_number page_bytes offset (pages_used layout))) [0..<directory_pages]) (\<lambda>stream_table_pages.
     read_pdb_pages file stream_table_pages (page_size layout) (directory_bytes layout)
       (layout_file_bytes layout))))))))))"

definition stream_size :: "byte list \<Rightarrow> nat \<Rightarrow> nat artifact_result" where
  "stream_size directory stream =
     bindR (ok_or (checked_mul stream 4) Malformed) (\<lambda>entry.
     bindR (ok_or (checked_add 4 entry) Malformed) (\<lambda>offset. read_u32_at directory offset))"

definition pdb_stream_first_page :: "byte list \<Rightarrow> pdb_layout \<Rightarrow> nat artifact_result" where
  "pdb_stream_first_page directory layout =
     bindR (read_u32_at directory 0) (\<lambda>stream_count.
     bindR (require (stream_count > pdb_dbi_stream) Malformed) (\<lambda>_.
     bindR (ok_or (checked_mul stream_count 4) Malformed) (\<lambda>stream_sizes_bytes.
     bindR (ok_or (filter_option (\<lambda>offset. offset \<le> length directory) (checked_add 4 stream_sizes_bytes)) Malformed)
       (\<lambda>stream_pages_offset.
     bindR (fold_result (\<lambda>stream preceding.
         bindR (stream_size directory stream) (\<lambda>psize.
         if psize \<noteq> u32_max
         then bindR (pages_needed psize (page_size layout)) (\<lambda>pages. ok_or (checked_add preceding pages) Malformed)
         else Inr preceding)) [0..<pdb_dbi_stream] 0) (\<lambda>preceding_pages.
     bindR (stream_size directory pdb_dbi_stream) (\<lambda>debug_stream_bytes.
     bindR (require (\<not> (debug_stream_bytes = u32_max \<or> debug_stream_bytes < pdb_dbi_header_bytes)) Malformed) (\<lambda>_.
     bindR (pages_needed debug_stream_bytes (page_size layout)) (\<lambda>debug_pages.
     bindR (bindR (ok_or (checked_mul preceding_pages 4) Malformed)
              (\<lambda>entries. ok_or (checked_add stream_pages_offset entries) Malformed)) (\<lambda>first_offset.
     bindR (bindR (ok_or (checked_mul debug_pages 4) Malformed)
              (\<lambda>entries. ok_or (filter_option (\<lambda>e. e \<le> length directory) (checked_add first_offset entries)) Malformed))
       (\<lambda>list_end.
     bindR (read_page_number directory first_offset (pages_used layout)) (\<lambda>debug_page.
     bindR (for_each (\<lambda>k. bindR (read_page_number directory (first_offset + 4 * k) (pages_used layout)) (\<lambda>_. Inr ()))
              [0..<(list_end - first_offset + 3) div 4]) (\<lambda>_.
     Inr debug_page))))))))))))"

definition read_pdb_debug_header :: "open_file \<Rightarrow> (nat \<times> nat) artifact_result" where
  "read_pdb_debug_header file =
     bindR (ok_or (metadata_len file) Malformed) (\<lambda>file_bytes.
     bindR (read_file_bytes file 0 pdb_header_bytes file_bytes) (\<lambda>header.
     bindR (parse_pdb_layout header file_bytes) (\<lambda>layout.
     bindR (read_pdb_directory file header layout) (\<lambda>directory.
     bindR (pdb_stream_first_page directory layout) (\<lambda>debug_page.
     bindR (read_pdb_pages file [debug_page] (page_size layout) pdb_dbi_header_bytes (layout_file_bytes layout))
       (\<lambda>debug_header.
     bindR (read_u32_at debug_header 0) (\<lambda>signature.
     bindR (require (signature = u32_max) Malformed) (\<lambda>_.
     bindR (read_u32_at debug_header 8) (\<lambda>original_age.
     bindR (read_u16_at debug_header 58) (\<lambda>machine.
     Inr (machine, original_age)))))))))))"

subsection \<open>Reads and pages\<close>

lemma is_power_of_two_iff: "is_power_of_two n \<longleftrightarrow> (\<exists>k. n = 2 ^ k)"
proof (induction n rule: is_power_of_two.induct)
  case (1 n)
  show ?case
  proof (cases "n = 0 \<or> n = 1")
    case True
    then show ?thesis by (subst is_power_of_two.simps) (auto intro: exI [of _ 0])
  next
    case False
    with 1 have "is_power_of_two n \<longleftrightarrow> even n \<and> (\<exists>k. n div 2 = 2 ^ k)" by (subst is_power_of_two.simps) simp
    also have "\<dots> \<longleftrightarrow> (\<exists>k. n = 2 ^ k)"
    proof
      assume "even n \<and> (\<exists>k. n div 2 = 2 ^ k)"
      then obtain k where "n = 2 * 2 ^ k" by fastforce
      then show "\<exists>k. n = 2 ^ k" by (intro exI [of _ "Suc k"]) simp
    next
      assume "\<exists>k. n = 2 ^ k"
      then obtain k where k: "n = 2 ^ k" by blast
      with False obtain j where "k = Suc j" by (cases k) auto
      with k show "even n \<and> (\<exists>k. n div 2 = 2 ^ k)" by auto
    qed
    finally show ?thesis .
  qed
qed

lemma read_le_at_eq:
  "read_le_at w bytes offset = Inr v \<longleftrightarrow>
     offset + w \<le> u64_max \<and> offset + w \<le> length bytes \<and> v = le_nat (take w (drop offset bytes))"
  by (auto simp: read_le_at_def result_simps get_range_def saturating_add_def min_def split: if_splits)

lemma read_u32_at_eq [result_simps]:
  "read_u32_at bytes offset = Inr v \<longleftrightarrow>
     offset + 4 \<le> u64_max \<and> offset + 4 \<le> length bytes \<and> v = le_nat (take 4 (drop offset bytes))"
  by (simp add: read_u32_at_def read_le_at_eq)

lemma read_u16_at_eq [result_simps]:
  "read_u16_at bytes offset = Inr v \<longleftrightarrow>
     offset + 2 \<le> u64_max \<and> offset + 2 \<le> length bytes \<and> v = le_nat (take 2 (drop offset bytes))"
  by (simp add: read_u16_at_def read_le_at_eq)

lemma read_file_bytes_eq [result_simps]:
  "read_file_bytes file offset n file_bytes = Inr bs \<longleftrightarrow>
     offset + n \<le> u64_max \<and> offset + n \<le> file_bytes \<and> (offset + n \<le> length (content file) \<or> n = 0)
     \<and> bs = take n (drop offset (content file))"
  by (auto simp: read_file_bytes_def result_simps limit_simps)

lemma read_page_number_eq [result_simps]:
  "read_page_number bytes offset used = Inr page \<longleftrightarrow>
     read_u32_at bytes offset = Inr page \<and> 0 < page \<and> page < used"
  by (auto simp: read_page_number_def result_simps)

lemma pages_needed_eq [result_simps]:
  "pages_needed n psize = Inr k \<longleftrightarrow> n + (psize - 1) \<le> u64_max \<and> k = (n + (psize - 1)) div psize"
  by (auto simp: pages_needed_def result_simps limit_simps)

lemma pages_needed_covers:
  fixes n psize :: nat
  assumes "0 < psize"
  shows "n \<le> (n + (psize - 1)) div psize * psize" and "0 < n \<Longrightarrow> (n + (psize - 1)) div psize * psize < n + psize"
proof -
  let ?k = "(n + (psize - 1)) div psize"
  have 1: "?k * psize \<le> n + (psize - 1)" 
    using div_mult_mod_eq [of "n + (psize - 1)" psize] by linarith
  have "n + (psize - 1) < Suc ?k * psize"
    using assms by (metis dividend_less_div_times mult_Suc)
  then show "n \<le> ?k * psize" using assms by simp
  show "?k * psize < n + psize" using 1 assms by linarith
qed

text \<open>The bytes of a page.\<close>

definition page_content :: "byte list \<Rightarrow> nat \<Rightarrow> nat \<Rightarrow> byte list" where
  "page_content bytes psize page = take psize (drop (page * psize) bytes)"

text \<open>The first \<open>n\<close> bytes of the stream that a list of pages holds.\<close>

definition stream_content :: "byte list \<Rightarrow> nat \<Rightarrow> nat list \<Rightarrow> nat \<Rightarrow> byte list" where
  "stream_content bytes psize pages n = take n (concat (map (page_content bytes psize) pages))"

definition page_readable :: "open_file \<Rightarrow> nat \<Rightarrow> nat \<Rightarrow> nat \<Rightarrow> nat \<Rightarrow> bool" where
  "page_readable file file_bytes psize page n \<longleftrightarrow>
     page * psize + n \<le> u64_max \<and> page * psize + n \<le> file_bytes \<and> page * psize + n \<le> length (content file)"

lemma fold_result_Cons_Inr:
  "fold_result f (x # xs) s = Inr t \<longleftrightarrow> (\<exists>s'. f x s = Inr s' \<and> fold_result f xs s' = Inr t)"
  by (simp add: bindR_eq_Inr)

text \<open>The loop of \<^verbatim>\<open>read_pdb_pages\<close>: every page but the last is read whole.\<close>

lemma fold_pages:
  assumes "0 < psize" and "length acc + length pages * psize < n + psize"
  shows "fold_result (\<lambda>page acc.
       let remaining = n - length acc; chunk_bytes = min remaining psize
       in bindR (ok_or (checked_mul page psize) Malformed) (\<lambda>page_offset.
          bindR (read_file_bytes file page_offset chunk_bytes file_bytes) (\<lambda>chunk. Inr (acc @ chunk))))
       pages acc = Inr result
    \<longleftrightarrow> (\<forall>j < length pages. page_readable file file_bytes psize (pages ! j) (min (n - length acc - j * psize) psize))
      \<and> result = acc @ take (n - length acc) (concat (map (page_content (content file) psize) pages))"
  using assms(2)
proof (induction pages arbitrary: acc)
  case (Cons page pages)
  let ?c = "min (n - length acc) psize"
  let ?chunk = "take ?c (drop (page * psize) (content file))"
  have room: "length acc < n" using Cons.prems assms(1) by simp
  then have c: "0 < ?c" using assms(1) by simp
  have first: "(let remaining = n - length acc; chunk_bytes = min remaining psize
      in bindR (ok_or (checked_mul page psize) Malformed) (\<lambda>page_offset.
         bindR (read_file_bytes file page_offset chunk_bytes file_bytes) (\<lambda>chunk. Inr (acc @ chunk)))) = Inr acc'
      \<longleftrightarrow> page_readable file file_bytes psize page ?c \<and> acc' = acc @ ?chunk" for acc'
    using c by (auto simp: Let_def result_simps limit_simps page_readable_def)
  show ?case
  proof (cases "pages = []")
    case True
    have "take (n - length acc) (page_content (content file) psize page) = ?chunk"
      by (simp add: page_content_def)
    with True show ?thesis unfolding fold_result_Cons_Inr first by auto
  next
    case False
    then have "1 \<le> length pages" by (cases pages) auto
    then have "psize \<le> length pages * psize" by simp
    moreover have "length acc + length pages * psize < n" using Cons.prems by simp
    ultimately have full: "length acc + psize < n" by linarith
    then have c_full: "?c = psize" by simp
    have all: "(\<forall>j < length (page # pages). page_readable file file_bytes psize ((page # pages) ! j)
          (min (n - length acc - j * psize) psize))
        \<longleftrightarrow> page_readable file file_bytes psize page ?c \<and> (\<forall>j < length pages.
          page_readable file file_bytes psize (pages ! j) (min (n - (length acc + psize) - j * psize) psize))"
      by (simp add: All_less_Suc2 diff_diff_left add.assoc)
    show ?thesis
    proof (cases "page_readable file file_bytes psize page ?c")
      case False
      then show ?thesis unfolding fold_result_Cons_Inr first all by blast
    next
      case True
      have "page * psize + psize \<le> length (content file)" using True c_full by (simp add: page_readable_def)
      then have len: "length (acc @ ?chunk) = length acc + psize" and len_page: "length (page_content (content file) psize page) = psize"
        using c_full by (simp_all add: page_content_def)
      have chunk: "?chunk = page_content (content file) psize page" using c_full by (simp add: page_content_def)
      have "length (acc @ ?chunk) + length pages * psize < n + psize" using len Cons.prems by simp
      note IH = Cons.IH [OF this, unfolded len]
      have "take (n - length acc) (concat (map (page_content (content file) psize) (page # pages)))
          = ?chunk @ take (n - (length acc + psize)) (concat (map (page_content (content file) psize) pages))"
        unfolding chunk using len_page full by simp
      then show ?thesis
        using True IH unfolding fold_result_Cons_Inr first all by auto
    qed
  qed
qed auto

lemma read_pdb_pages_eq:
  assumes "0 < psize"
  shows "read_pdb_pages file pages psize n file_bytes = Inr result \<longleftrightarrow>
    (\<exists>k. pages_needed n psize = Inr k \<and> k \<le> length pages
      \<and> (\<forall>j < k. page_readable file file_bytes psize (pages ! j) (min (n - j * psize) psize))
      \<and> result = stream_content (content file) psize (take k pages) n)"
proof -
  have "length ([] :: byte list) + length (take k pages) * psize < n + psize" if "pages_needed n psize = Inr k" "k \<le> length pages" for k
  proof (cases "n = 0")
    case True
    with that assms show ?thesis by (simp add: pages_needed_eq)
  next
    case False
    with that show ?thesis using pages_needed_covers(2) [OF assms, of n] by (simp add: pages_needed_eq)
  qed
  note run = fold_pages [OF assms this]
  show ?thesis
    unfolding read_pdb_pages_def bindR_eq_Inr require_eq stream_content_def using run by auto
qed

subsection \<open>What an accepted header guarantees\<close>

lemma length_pdb_magic: "length pdb_magic = 32"
  by (simp add: pdb_magic_def lit_simps utf8_len_def)

definition layout_ok :: "pdb_layout \<Rightarrow> bool" where
  "layout_ok layout \<longleftrightarrow> is_power_of_two (page_size layout) \<and> 256 \<le> page_size layout
     \<and> page_size layout \<le> max_pdb_page_bytes \<and> 0 < pages_used layout
     \<and> directory_bytes layout \<le> max_metadata_read_bytes
     \<and> pages_used layout * page_size layout \<le> layout_file_bytes layout"

lemma parse_pdb_layout_ok:
  "parse_pdb_layout header file_bytes = Inr layout \<Longrightarrow>
     layout_ok layout \<and> layout_file_bytes layout = file_bytes \<and> take (length pdb_magic) header = pdb_magic"
  by (auto simp: parse_pdb_layout_def layout_ok_def result_simps limit_simps get_range_eq_Some)

lemma pdb_stream_first_page_range:
  "pdb_stream_first_page directory layout = Inr page \<Longrightarrow> 0 < page \<and> page < pages_used layout"
  by (auto simp: pdb_stream_first_page_def result_simps)

lemma pages_needed_dbi:
  assumes "layout_ok layout"
  shows "pages_needed pdb_dbi_header_bytes (page_size layout) = Inr 1"
proof -
  have "256 \<le> page_size layout" "page_size layout \<le> 65536" using assms by (simp_all add: layout_ok_def max_pdb_page_bytes_def)
  moreover from this have "(64 + (page_size layout - 1)) div page_size layout = 1" by (intro div_nat_eqI) auto
  ultimately show ?thesis by (simp add: pages_needed_eq pdb_dbi_header_bytes_def u64_max_def)
qed

text \<open>C18: reading the debug header of a program database stays inside the file. When it succeeds, the super
  block has the magic, a page size that is a power of two between 256 bytes and 64 KiB, a directory of at
  most 16 MiB, and pages that all fit in the file; the debug stream starts on one of these pages other than
  the super block, and the machine and age are those of the header found there, whose signature is checked.\<close>

theorem read_pdb_debug_header_sound:
  assumes "read_pdb_debug_header file = Inr (machine, age)"
  shows "\<exists>layout page. parse_pdb_layout (take pdb_header_bytes (content file)) (the (metadata_len file)) = Inr layout
    \<and> layout_ok layout \<and> take (length pdb_magic) (content file) = pdb_magic
    \<and> metadata_len file = Some (layout_file_bytes layout)
    \<and> 0 < page \<and> page < pages_used layout
    \<and> page * page_size layout + pdb_dbi_header_bytes \<le> length (content file)
    \<and> le_nat (take 4 (drop (page * page_size layout) (content file))) = u32_max
    \<and> age = le_nat (take 4 (drop (page * page_size layout + 8) (content file)))
    \<and> machine = le_nat (take 2 (drop (page * page_size layout + 58) (content file)))"
proof -
  from assms obtain file_bytes header layout directory page dbi where
    len: "metadata_len file = Some file_bytes"
    and header: "read_file_bytes file 0 pdb_header_bytes file_bytes = Inr header"
    and layout: "parse_pdb_layout header file_bytes = Inr layout"
    and page: "pdb_stream_first_page directory layout = Inr page"
    and dbi: "read_pdb_pages file [page] (page_size layout) pdb_dbi_header_bytes (layout_file_bytes layout) = Inr dbi"
    and words: "read_u32_at dbi 0 = Inr u32_max" "read_u32_at dbi 8 = Inr age" "read_u16_at dbi 58 = Inr machine"
    unfolding read_pdb_debug_header_def by (auto simp only: bindR_eq_Inr ok_or_eq require_eq sum.inject prod.inject)
  note ok = parse_pdb_layout_ok [OF layout]
  let ?off = "page * page_size layout"
  have psize: "0 < page_size layout" "64 \<le> page_size layout" using ok by (auto simp: layout_ok_def)
  have head: "header = take pdb_header_bytes (content file)" using header by (simp add: read_file_bytes_eq)
  have dbi': "dbi = take 64 (drop ?off (content file))" and fits: "?off + pdb_dbi_header_bytes \<le> length (content file)"
    using dbi pages_needed_dbi [of layout] ok psize
    by (auto simp: read_pdb_pages_eq [OF psize(1)] stream_content_def page_content_def page_readable_def
        pdb_dbi_header_bytes_def min_absorb1)
  have part: "take n (drop k dbi) = take n (drop (?off + k) (content file))" if "n + k \<le> 64" for n k
    using that by (simp add: dbi' drop_take min_absorb1 add.commute)
  with words have "le_nat (take 4 (drop ?off (content file))) = u32_max"
    "age = le_nat (take 4 (drop (?off + 8) (content file)))" "machine = le_nat (take 2 (drop (?off + 58) (content file)))"
    using part [of 4 0] part [of 4 8] part [of 2 58] by (simp_all add: read_u32_at_eq read_u16_at_eq)
  moreover have "take (length pdb_magic) (content file) = pdb_magic"
    using ok head by (simp add: pdb_header_bytes_def length_pdb_magic min_absorb1)
  ultimately show ?thesis
    using len layout ok fits pdb_stream_first_page_range [OF page] head
    by (intro exI [of _ layout] exI [of _ page]) simp
qed

subsection \<open>Reading a container that was written\<close>

text \<open>The layout of an MSF container: a stream directory is the stream count, the stream sizes and the page
  lists of the streams, as 32-bit words.\<close>

definition encode_words :: "nat list \<Rightarrow> byte list" where
  "encode_words ws = concat (map (le_bytes 4) ws)"

definition directory_words :: "nat list \<Rightarrow> nat list list \<Rightarrow> nat list" where
  "directory_words sizes pages = length sizes # sizes @ concat pages"

definition pages_of :: "nat \<Rightarrow> nat \<Rightarrow> nat" where
  "pages_of psize n = (n + (psize - 1)) div psize"

definition stream_pages :: "nat \<Rightarrow> nat \<Rightarrow> nat" where
  "stream_pages psize n = (if n = u32_max then 0 else pages_of psize n)"

definition directory_ok :: "nat \<Rightarrow> nat \<Rightarrow> nat list \<Rightarrow> nat list list \<Rightarrow> bool" where
  "directory_ok psize used sizes pages \<longleftrightarrow>
     3 < length sizes \<and> length pages = length sizes
     \<and> (\<forall>s < length sizes. sizes ! s \<le> u32_max \<and> length (pages ! s) = stream_pages psize (sizes ! s))
     \<and> list_all (list_all (\<lambda>p. 0 < p \<and> p < used)) pages
     \<and> sizes ! 3 \<noteq> u32_max \<and> 64 \<le> sizes ! 3
     \<and> 4 * length (directory_words sizes pages) \<le> max_metadata_read_bytes"

lemma length_encode_words [simp]: "length (encode_words ws) = 4 * length ws"
  by (induction ws) (simp_all add: encode_words_def)

lemma encode_words_at:
  "k < length ws \<Longrightarrow> take 4 (drop (4 * k) (encode_words ws)) = le_bytes 4 (ws ! k)"
proof (induction ws arbitrary: k)
  case (Cons w ws)
  then show ?case by (cases k) (simp_all add: encode_words_def)
qed simp

lemma read_word_at:
  assumes "k < length ws" and "ws ! k \<le> u32_max" and "length ws \<le> 2 ^ 32"
  shows "read_u32_at (encode_words ws) (4 * k) = Inr (ws ! k)"
proof -
  have "ws ! k < 256 ^ 4" using assms(2) by (simp add: u32_max_def)
  then have "le_nat (le_bytes 4 (ws ! k)) = ws ! k" by (rule le_nat_le_bytes)
  then show ?thesis using assms by (simp add: read_u32_at_eq encode_words_at u64_max_def)
qed

lemma nth_concat_pages:
  "k < length (xss ! s) \<Longrightarrow> s < length xss \<Longrightarrow>
     concat xss ! (sum_list (map length (take s xss)) + k) = xss ! s ! k
     \<and> sum_list (map length (take s xss)) + k < length (concat xss)"
proof (induction xss arbitrary: s)
  case (Cons xs xss)
  then show ?case by (cases s) (simp_all add: nth_append)
qed simp

lemma directory_word_bounds:
  assumes "directory_ok psize used sizes pages" and "used \<le> u32_max"
  shows "length (directory_words sizes pages) \<le> 2 ^ 32" and "list_all (\<lambda>w. w \<le> u32_max) (directory_words sizes pages)"
proof -
  have len: "length (directory_words sizes pages) \<le> 4194304"
    using assms(1) by (simp add: directory_ok_def max_metadata_read_bytes_def)
  then show "length (directory_words sizes pages) \<le> 2 ^ 32" by simp
  have "length sizes \<le> u32_max" using len by (simp add: directory_words_def u32_max_def)
  moreover have "\<forall>w \<in> set sizes. w \<le> u32_max" using assms(1) by (auto simp: directory_ok_def in_set_conv_nth)
  moreover have "\<forall>w \<in> set (concat pages). w \<le> u32_max"
    using assms by (fastforce simp: directory_ok_def list_all_iff)
  ultimately show "list_all (\<lambda>w. w \<le> u32_max) (directory_words sizes pages)"
    by (auto simp: directory_words_def list_all_iff)
qed

lemma stream_size_of_words:
  assumes "directory_ok psize used sizes pages" and "used \<le> u32_max" and "s < length sizes"
  shows "stream_size (encode_words (directory_words sizes pages)) s = Inr (sizes ! s)"
proof -
  have "directory_words sizes pages ! Suc s = sizes ! s" and "Suc s < length (directory_words sizes pages)"
    using assms(3) by (simp_all add: directory_words_def nth_append)
  moreover from this have "read_u32_at (encode_words (directory_words sizes pages)) (4 * Suc s)
      = Inr (directory_words sizes pages ! Suc s)"
    using directory_word_bounds [OF assms(1,2)] by (intro read_word_at) (auto simp: list_all_length)
  moreover have "s \<le> 4194304"
    using assms(1,3) by (simp add: directory_ok_def directory_words_def max_metadata_read_bytes_def)
  ultimately show ?thesis
    by (simp add: stream_size_def checked_mul_def checked_add_def u64_max_def add.commute mult.commute)
qed

lemma page_of_words:
  assumes "directory_ok psize used sizes pages" and "used \<le> u32_max" and "s < length sizes"
    and "k < length (pages ! s)"
  shows "read_page_number (encode_words (directory_words sizes pages))
      (4 + 4 * length sizes + 4 * (sum_list (map length (take s pages)) + k)) used = Inr (pages ! s ! k)"
proof -
  have s: "s < length pages" using assms(1,3) by (simp add: directory_ok_def)
  let ?i = "Suc (length sizes + (sum_list (map length (take s pages)) + k))"
  have at: "directory_words sizes pages ! ?i = pages ! s ! k" and lt: "?i < length (directory_words sizes pages)"
    using nth_concat_pages [OF assms(4) s] by (simp_all add: directory_words_def nth_append)
  have "read_u32_at (encode_words (directory_words sizes pages)) (4 * ?i) = Inr (pages ! s ! k)"
    unfolding at [symmetric]
    using directory_word_bounds [OF assms(1,2)] lt by (intro read_word_at) (auto simp: list_all_length)
  moreover have "4 + 4 * length sizes + 4 * (sum_list (map length (take s pages)) + k) = 4 * ?i" by simp
  moreover have "0 < pages ! s ! k" "pages ! s ! k < used"
    using assms(1,4) s by (auto simp: directory_ok_def list_all_length)
  ultimately show ?thesis by (simp only: read_page_number_def) simp
qed

lemma preceding_pages_fold:
  assumes ok: "directory_ok (page_size layout) used sizes pages" and used: "used \<le> u32_max"
    and small: "page_size layout \<le> max_pdb_page_bytes" and "n \<le> length sizes" and "m \<le> n"
  shows "fold_result (\<lambda>stream preceding.
         bindR (stream_size (encode_words (directory_words sizes pages)) stream) (\<lambda>psize.
         if psize \<noteq> u32_max
         then bindR (pages_needed psize (page_size layout)) (\<lambda>pages. ok_or (checked_add preceding pages) Malformed)
         else Inr preceding)) [m..<n] (sum_list (map length (take m pages)))
    = Inr (sum_list (map length (take n pages)))"
  using assms(5)
proof (induction "n - m" arbitrary: m)
  case 0
  then show ?case by simp
next
  case (Suc d)
  then have m: "m < n" by simp
  have len: "length pages = length sizes" "length (pages ! m) = stream_pages (page_size layout) (sizes ! m)"
    "sizes ! m \<le> u32_max"
    using ok m assms(4) by (auto simp: directory_ok_def)
  have next_sum: "sum_list (map length (take (Suc m) pages)) = sum_list (map length (take m pages)) + length (pages ! m)"
    using m assms(4) len(1) by (simp add: take_Suc_conv_app_nth)
  have "sum_list (map length (take (Suc m) pages)) \<le> length (concat pages)"
    by (metis append_take_drop_id concat_append le_add1 length_append length_concat)
  also have "\<dots> \<le> 4194304"
    using ok by (simp add: directory_ok_def directory_words_def max_metadata_read_bytes_def)
  finally have bound: "sum_list (map length (take m pages)) + length (pages ! m) \<le> u64_max"
    by (simp add: next_sum u64_max_def)
  have "sizes ! m + (page_size layout - 1) \<le> u64_max"
    using len(3) small by (simp add: u32_max_def u64_max_def max_pdb_page_bytes_def)
  then have "bindR (stream_size (encode_words (directory_words sizes pages)) m) (\<lambda>psize.
         if psize \<noteq> u32_max
         then bindR (pages_needed psize (page_size layout))
                (\<lambda>pgs. ok_or (checked_add (sum_list (map length (take m pages))) pgs) Malformed)
         else Inr (sum_list (map length (take m pages)))) = Inr (sum_list (map length (take (Suc m) pages)))"
    using len bound stream_size_of_words [OF ok used, of m] m assms(4)
    by (cases "sizes ! m = u32_max") (simp_all add: next_sum stream_pages_def pages_of_def pages_needed_def checked_add_def)
  moreover have "[m..<n] = m # [Suc m..<n]" using m by (rule upt_conv_Cons)
  ultimately show ?case using Suc by simp
qed

lemma first_page_of_directory:
  assumes ok: "directory_ok (page_size layout) (pages_used layout) sizes pages" and used: "pages_used layout \<le> u32_max"
    and psize: "0 < page_size layout" "page_size layout \<le> max_pdb_page_bytes"
  shows "pdb_stream_first_page (encode_words (directory_words sizes pages)) layout = Inr (hd (pages ! 3))"
proof -
  let ?dir = "encode_words (directory_words sizes pages)"
  let ?before = "sum_list (map length (take 3 pages))"
  have n: "3 < length sizes" "length pages = length sizes" and size3: "sizes ! 3 \<noteq> u32_max" "64 \<le> sizes ! 3" "sizes ! 3 \<le> u32_max"
    and total: "length (directory_words sizes pages) \<le> 4194304"
    using ok by (simp_all add: directory_ok_def max_metadata_read_bytes_def)
  have count: "read_u32_at ?dir 0 = Inr (length sizes)"
    using read_word_at [of 0 "directory_words sizes pages"] directory_word_bounds [OF ok used]
    by (simp add: directory_words_def list_all_iff)
  have fold: "fold_result (\<lambda>stream preceding. bindR (stream_size ?dir stream) (\<lambda>psize.
      if psize \<noteq> u32_max then bindR (pages_needed psize (page_size layout)) (\<lambda>pages. ok_or (checked_add preceding pages) Malformed)
      else Inr preceding)) [0..<pdb_dbi_stream] 0 = Inr ?before"
    using preceding_pages_fold [OF ok used psize(2), of 3 0] n by (simp add: pdb_dbi_stream_def)
  have P3: "length (pages ! 3) = pages_of (page_size layout) (sizes ! 3)"
    using ok n size3(1) by (simp add: directory_ok_def stream_pages_def)
  have need: "pages_needed (sizes ! 3) (page_size layout) = Inr (length (pages ! 3))"
    using P3 size3(3) psize by (simp add: pages_needed_eq pages_of_def u32_max_def u64_max_def max_pdb_page_bytes_def)
  have "0 < length (pages ! 3)"
    using P3 pages_needed_covers(1) [OF psize(1), of "sizes ! 3"] size3(2) by (auto simp: pages_of_def intro: gr0I)
  then have ne: "0 < length (pages ! 3)" "hd (pages ! 3) = pages ! 3 ! 0" by (simp_all add: hd_conv_nth)
  have nth_concat: "?before + (length (pages ! 3) - 1) < length (concat pages)"
    using nth_concat_pages [of "length (pages ! 3) - 1" pages 3] n ne(1) by linarith
  let ?first = "4 + 4 * length sizes + 4 * ?before"
  have list_end: "?first + 4 * length (pages ! 3) \<le> length ?dir"
    using nth_concat ne by (simp add: directory_words_def)
  have page: "read_page_number ?dir (?first + 4 * k) (pages_used layout) = Inr (pages ! 3 ! k)" if "k < length (pages ! 3)" for k
    using page_of_words [OF ok used, of 3 k] n that by (simp add: algebra_simps)
  have "(4 * length (pages ! 3) + 3) div 4 = length (pages ! 3)" by simp
  then have each: "for_each (\<lambda>k. bindR (read_page_number ?dir (?first + 4 * k) (pages_used layout)) (\<lambda>_. Inr ()))
      [0..<(?first + 4 * length (pages ! 3) - ?first + 3) div 4] = Inr ()"
    by (simp add: for_each_eq_Inr page del: diff_add_inverse)
  have small: "?first + 4 * length (pages ! 3) \<le> u64_max" "4 * length sizes + 4 \<le> u64_max"
    using list_end total by (simp_all add: u64_max_def directory_words_def)
  show ?thesis
    unfolding pdb_stream_first_page_def
    using n size3 small list_end each page [OF ne(1)] ne(2)
    by (simp add: count fold need stream_size_of_words [OF ok used] checked_mul_def checked_add_def
        pdb_dbi_header_bytes_def mult.commute)
       (simp add: pdb_dbi_stream_def stream_size_of_words [OF ok used] need checked_mul_def checked_add_def mult.commute)
qed

text \<open>A file that is an MSF container with these streams, whose debug stream has this header.\<close>

record container =
  msf_layout :: pdb_layout
  stream_sizes :: "nat list"
  stream_page_lists :: "nat list list"
  block_map_pages :: "nat list"
  directory_page_list :: "nat list"
  dbi_machine :: nat
  dbi_age :: nat

definition word_at :: "byte list \<Rightarrow> nat \<Rightarrow> nat \<Rightarrow> nat" where
  "word_at bytes w offset = le_nat (take w (drop offset bytes))"

definition holds_container :: "open_file \<Rightarrow> container \<Rightarrow> bool" where
  "holds_container file c \<longleftrightarrow>
     (let layout = msf_layout c; psize = page_size layout; used = pages_used layout; bytes = content file;
          dir = encode_words (directory_words (stream_sizes c) (stream_page_lists c));
          in_range = list_all (\<lambda>p. 0 < p \<and> p < used); dbi = hd (stream_page_lists c ! 3) * psize
      in metadata_len file = Some (length bytes) \<and> layout_file_bytes layout = length bytes
         \<and> pdb_header_bytes \<le> length bytes \<and> length bytes \<le> u64_max \<and> used \<le> u32_max
         \<and> layout_ok layout \<and> directory_ok psize used (stream_sizes c) (stream_page_lists c)
         \<and> directory_bytes layout = length dir
         \<and> take (length pdb_magic) bytes = pdb_magic \<and> word_at bytes 4 32 = psize \<and> word_at bytes 4 40 = used
         \<and> word_at bytes 4 44 = directory_bytes layout
         \<and> length (directory_page_list c) = pages_of psize (length dir)
         \<and> length (block_map_pages c) = pages_of psize (4 * length (directory_page_list c))
         \<and> in_range (directory_page_list c) \<and> in_range (block_map_pages c)
         \<and> pdb_raw_header_bytes + 4 * length (block_map_pages c) \<le> pdb_header_bytes
         \<and> (\<forall>i < length (block_map_pages c). word_at bytes 4 (pdb_raw_header_bytes + 4 * i) = block_map_pages c ! i)
         \<and> stream_content bytes psize (block_map_pages c) (4 * length (directory_page_list c))
             = encode_words (directory_page_list c)
         \<and> stream_content bytes psize (directory_page_list c) (length dir) = dir
         \<and> word_at bytes 4 dbi = u32_max \<and> word_at bytes 4 (dbi + 8) = dbi_age c \<and> word_at bytes 2 (dbi + 58) = dbi_machine c)"

lemma word_at_take: "k + w \<le> n \<Longrightarrow> word_at (take n bytes) w k = word_at bytes w k"
  by (simp add: word_at_def drop_take min_absorb1)

lemma read_pages_in_range:
  assumes "list_all (\<lambda>p. 0 < p \<and> p < used) pages" and "0 < psize" and "used * psize \<le> length (content file)"
    and "length (content file) \<le> u64_max" and "n + (psize - 1) \<le> u64_max" and "length pages = pages_of psize n"
  shows "read_pdb_pages file pages psize n (length (content file)) = Inr (stream_content (content file) psize pages n)"
proof -
  have "page_readable file (length (content file)) psize (pages ! j) (min (n - j * psize) psize)" if "j < length pages" for j
  proof -
    have "Suc (pages ! j) * psize \<le> used * psize" using assms(1) that by (intro mult_le_mono1) (auto simp: list_all_length)
    then have "pages ! j * psize + psize \<le> length (content file)" using assms(3) by simp
    moreover have "min (n - j * psize) psize \<le> psize" by simp
    ultimately show ?thesis using assms(4) unfolding page_readable_def by linarith
  qed
  with assms(5,6) show ?thesis
    by (simp add: read_pdb_pages_eq [OF assms(2)] pages_needed_eq pages_of_def)
qed

lemma traverse_upt:
  assumes "\<And>i. i < length xs \<Longrightarrow> f i = Inr (xs ! i)"
  shows "traverse f [0..<length xs] = Inr xs"
  using assms by (simp add: traverse_eq_Inr list_all2_conv_all_nth)

lemma container_facts:
  assumes "holds_container file c"
  shows "layout_ok (msf_layout c)"
    and "directory_ok (page_size (msf_layout c)) (pages_used (msf_layout c)) (stream_sizes c) (stream_page_lists c)"
    and "pages_used (msf_layout c) \<le> u32_max" and "length (content file) \<le> u64_max"
    and "layout_file_bytes (msf_layout c) = length (content file)"
    and "0 < page_size (msf_layout c)" and "page_size (msf_layout c) \<le> max_pdb_page_bytes"
    and "pages_used (msf_layout c) * page_size (msf_layout c) \<le> length (content file)"
    and "directory_bytes (msf_layout c) = length (encode_words (directory_words (stream_sizes c) (stream_page_lists c)))"
    and "directory_bytes (msf_layout c) \<le> max_metadata_read_bytes"
    and "pdb_header_bytes \<le> length (content file)"
  using assms by (auto simp: holds_container_def Let_def layout_ok_def)

lemma parse_layout_of_container:
  assumes "holds_container file c"
  shows "parse_pdb_layout (take pdb_header_bytes (content file)) (length (content file)) = Inr (msf_layout c)"
proof -
  let ?header = "take pdb_header_bytes (content file)"
  have len: "length ?header = 4096" using container_facts(11) [OF assms] by (simp add: pdb_header_bytes_def)
  have word: "read_u32_at ?header k = Inr (word_at (content file) 4 k)" if "k + 4 \<le> 4096" for k
    using that len word_at_take [of k 4 pdb_header_bytes "content file"]
    by (simp add: read_u32_at_eq word_at_def u64_max_def pdb_header_bytes_def)
  have "word_at (content file) 4 32 = page_size (msf_layout c)" "word_at (content file) 4 40 = pages_used (msf_layout c)"
    "word_at (content file) 4 44 = directory_bytes (msf_layout c)" "take (length pdb_magic) (content file) = pdb_magic"
    using assms by (auto simp: holds_container_def Let_def)
  moreover have "get_range ?header 0 (length pdb_magic) = Some (take (length pdb_magic) (content file))"
    using len by (simp add: get_range_eq_Some length_pdb_magic min_absorb1 pdb_header_bytes_def)
  moreover have "checked_mul (pages_used (msf_layout c)) (page_size (msf_layout c))
      = Some (pages_used (msf_layout c) * page_size (msf_layout c))"
    using container_facts(4,8) [OF assms] by (simp add: checked_mul_def)
  ultimately show ?thesis
    using container_facts(1,5) [OF assms]
    by (cases "msf_layout c") (simp add: parse_pdb_layout_def word layout_ok_def)
qed

lemma read_directory_of_container:
  assumes "holds_container file c"
  shows "read_pdb_directory file (take pdb_header_bytes (content file)) (msf_layout c)
    = Inr (encode_words (directory_words (stream_sizes c) (stream_page_lists c)))"
proof -
  let ?psize = "page_size (msf_layout c)" and ?used = "pages_used (msf_layout c)" and ?bytes = "content file"
  let ?n = "length (directory_page_list c)" and ?header = "take pdb_header_bytes (content file)"
  note facts = container_facts [OF assms]
  have psize: "0 < ?psize" "?psize \<le> 65536" "256 \<le> ?psize" and dir: "directory_bytes (msf_layout c) \<le> 16777216"
    using facts(1,7,10) by (auto simp: layout_ok_def max_pdb_page_bytes_def max_metadata_read_bytes_def)
  let ?dir = "encode_words (directory_words (stream_sizes c) (stream_page_lists c))"
  have c': "?n = pages_of ?psize (length ?dir)"
    "length (block_map_pages c) = pages_of ?psize (4 * ?n)"
    "list_all (\<lambda>p. 0 < p \<and> p < ?used) (directory_page_list c)" "list_all (\<lambda>p. 0 < p \<and> p < ?used) (block_map_pages c)"
    "pdb_raw_header_bytes + 4 * length (block_map_pages c) \<le> pdb_header_bytes"
    "\<forall>i < length (block_map_pages c). word_at ?bytes 4 (pdb_raw_header_bytes + 4 * i) = block_map_pages c ! i"
    "stream_content ?bytes ?psize (block_map_pages c) (4 * ?n) = encode_words (directory_page_list c)"
    "stream_content ?bytes ?psize (directory_page_list c) (length ?dir) = ?dir"
    using assms unfolding holds_container_def Let_def by blast+
  note c = c' [folded facts(9)]
  have "?n * 1 \<le> ?n * ?psize" using psize by simp
  also have "\<dots> \<le> directory_bytes (msf_layout c) + (?psize - 1)"
    using div_mult_mod_eq [of "directory_bytes (msf_layout c) + (?psize - 1)" ?psize] unfolding c(1) pages_of_def by linarith
  finally have n: "?n \<le> 16842752" using dir psize by simp
  have m: "4 * length (block_map_pages c) \<le> 4096" using c(5) by (simp add: pdb_header_bytes_def)
  have need: "pages_needed (directory_bytes (msf_layout c)) ?psize = Inr ?n"
    "pages_needed (?n * 4) ?psize = Inr (length (block_map_pages c))"
    using dir psize n unfolding c(1,2) by (auto simp: pages_needed_eq pages_of_def u64_max_def mult.commute)
  have len: "length ?header = 4096" using facts(11) by (simp add: pdb_header_bytes_def)
  have map_page: "read_page_number ?header (52 + i * 4) ?used = Inr (block_map_pages c ! i)" if "i < length (block_map_pages c)" for i
  proof -
    have i: "52 + 4 * i + 4 \<le> 4096" using that m c(5) by (simp add: pdb_raw_header_bytes_def pdb_header_bytes_def)
    have "le_nat (take 4 (drop (52 + 4 * i) ?header)) = block_map_pages c ! i"
      using c(6) that i word_at_take [of "52 + 4 * i" 4 pdb_header_bytes ?bytes]
      by (simp add: word_at_def pdb_raw_header_bytes_def pdb_header_bytes_def)
    then show ?thesis
      using i len c(4) that by (simp add: read_page_number_eq read_u32_at_eq u64_max_def list_all_length mult.commute)
  qed
  have dir_page: "read_page_number (encode_words (directory_page_list c)) (i * 4) ?used = Inr (directory_page_list c ! i)"
    if "i < ?n" for i
  proof -
    have "0 < directory_page_list c ! i" "directory_page_list c ! i < ?used" using c(3) that by (simp_all add: list_all_length)
    moreover from this have "read_u32_at (encode_words (directory_page_list c)) (4 * i) = Inr (directory_page_list c ! i)"
      using facts(3) n that by (intro read_word_at) auto
    ultimately show ?thesis by (simp add: read_page_number_def mult.commute)
  qed
  have trav1: "traverse (\<lambda>index. bindR (ok_or (checked_mul index 4) Malformed) (\<lambda>entry.
      bindR (ok_or (checked_add pdb_raw_header_bytes entry) Malformed) (\<lambda>offset. read_page_number ?header offset ?used)))
      [0..<length (block_map_pages c)] = Inr (block_map_pages c)"
    using m by (intro traverse_upt) (simp add: checked_mul_def checked_add_def pdb_raw_header_bytes_def map_page u64_max_def)
  have trav2: "traverse (\<lambda>index. bindR (ok_or (checked_mul index 4) Malformed)
      (\<lambda>offset. read_page_number (encode_words (directory_page_list c)) offset ?used)) [0..<?n] = Inr (directory_page_list c)"
    using n by (intro traverse_upt) (simp add: checked_mul_def dir_page u64_max_def)
  have pages1: "read_pdb_pages file (block_map_pages c) ?psize (?n * 4) (length ?bytes) = Inr (encode_words (directory_page_list c))"
    using read_pages_in_range [OF c(4) psize(1) facts(8,4), of "4 * ?n"] c(2,7) n psize by (simp add: u64_max_def mult.commute)
  have pages2: "read_pdb_pages file (directory_page_list c) ?psize (directory_bytes (msf_layout c)) (length ?bytes)
      = Inr (encode_words (directory_words (stream_sizes c) (stream_page_lists c)))"
    using read_pages_in_range [OF c(3) psize(1) facts(8,4), of "directory_bytes (msf_layout c)"] c(1,8) dir psize
    by (simp add: u64_max_def)
  have "checked_mul ?n 4 = Some (?n * 4)" "checked_mul (length (block_map_pages c)) 4 = Some (length (block_map_pages c) * 4)"
    "checked_add pdb_raw_header_bytes (length (block_map_pages c) * 4) = Some (52 + length (block_map_pages c) * 4)"
    using n m by (simp_all add: checked_mul_def checked_add_def u64_max_def pdb_raw_header_bytes_def)
  moreover have "52 + length (block_map_pages c) * 4 \<le> length ?header" using c(5) len by (simp add: pdb_raw_header_bytes_def pdb_header_bytes_def)
  ultimately show ?thesis
    by (simp add: read_pdb_directory_def need trav1 trav2 pages1 pages2 facts(5))
qed

lemma read_container:
  assumes "holds_container file c"
  shows "read_pdb_debug_header file = Inr (dbi_machine c, dbi_age c)"
proof -
  let ?psize = "page_size (msf_layout c)" and ?bytes = "content file" and ?page = "hd (stream_page_lists c ! 3)"
  let ?dir = "encode_words (directory_words (stream_sizes c) (stream_page_lists c))"
  note facts = container_facts [OF assms]
  have first: "pdb_stream_first_page ?dir (msf_layout c) = Inr ?page"
    using first_page_of_directory facts(2,3,6,7) by blast
  have psize: "64 \<le> ?psize" using facts(1) by (simp add: layout_ok_def)
  have range: "list_all (\<lambda>p. 0 < p \<and> p < pages_used (msf_layout c)) [?page]"
    using pdb_stream_first_page_range [OF first] by simp
  have "pages_of ?psize 64 = 1" using pages_needed_dbi [OF facts(1)] by (simp add: pages_needed_eq pages_of_def pdb_dbi_header_bytes_def)
  then have dbi: "read_pdb_pages file [?page] ?psize pdb_dbi_header_bytes (layout_file_bytes (msf_layout c))
      = Inr (take 64 (drop (?page * ?psize) ?bytes))"
    using read_pages_in_range [OF range facts(6,8,4), of 64] facts(5,7) psize
    by (simp add: stream_content_def page_content_def min_absorb1 pdb_dbi_header_bytes_def u64_max_def max_pdb_page_bytes_def)
  have "Suc ?page * ?psize \<le> pages_used (msf_layout c) * ?psize" using range by (intro mult_le_mono1) simp
  then have fits: "?page * ?psize + 64 \<le> length ?bytes" using facts(8) psize by simp
  have word: "word_at (take 64 (drop (?page * ?psize) ?bytes)) w k = word_at ?bytes w (?page * ?psize + k)" if "k + w \<le> 64" for w k
    using that word_at_take [of k w 64] by (simp add: word_at_def add.commute)
  have vals: "word_at ?bytes 4 (?page * ?psize) = u32_max" "word_at ?bytes 4 (?page * ?psize + 8) = dbi_age c"
    "word_at ?bytes 2 (?page * ?psize + 58) = dbi_machine c" and meta: "metadata_len file = Some (length ?bytes)"
    using assms by (simp_all add: holds_container_def Let_def)
  have "read_u32_at (take 64 (drop (?page * ?psize) ?bytes)) 0 = Inr u32_max"
    "read_u32_at (take 64 (drop (?page * ?psize) ?bytes)) 8 = Inr (dbi_age c)"
    "read_u16_at (take 64 (drop (?page * ?psize) ?bytes)) 58 = Inr (dbi_machine c)"
    using fits word [of 0 4] word [of 8 4] word [of 58 2] vals
    by (simp_all add: read_u32_at_eq read_u16_at_eq word_at_def u64_max_def)
  moreover have "read_file_bytes file 0 pdb_header_bytes (length ?bytes) = Inr (take pdb_header_bytes ?bytes)"
    using facts(11) by (simp add: read_file_bytes_eq pdb_header_bytes_def u64_max_def)
  ultimately show ?thesis
    by (simp add: read_pdb_debug_header_def meta parse_layout_of_container [OF assms]
        read_directory_of_container [OF assms] first dbi)
qed

text \<open>C19: a well-formed container is read. When a file holds an MSF container within the bounds (page size,
  directory size, block map inside the super block's 4096 bytes), the reader follows block map and directory
  to the debug stream, whatever pages these are on, and returns the machine and the age of its header.\<close>

theorem read_pdb_debug_header_of_container:
  assumes "holds_container file c"
  shows "read_pdb_debug_header file = Inr (dbi_machine c, dbi_age c)"
  using assms by (rule read_container)

subsection \<open>A four-page program database\<close>

definition sample_page :: "byte list \<Rightarrow> byte list" where
  "sample_page bs = bs @ replicate (4096 - length bs) 0"

definition sample_pages :: "byte list list" where
  "sample_pages = map sample_page
     [pdb_magic @ encode_words [4096, 1, 4, 24, 0, 1], encode_words [2], encode_words [4, 0, 0, 0, 64, 3],
      encode_words [u32_max, 0, 7, 0, 0, 0, 0, 0, 0, 0, 0, 0, 0, 0] @ [0, 0] @ le_bytes 2 34404]"

definition sample_pdb :: open_file where
  "sample_pdb = \<lparr>metadata_len = Some 16384, content = concat sample_pages\<rparr>"

definition sample_container :: container where
  "sample_container = \<lparr>msf_layout = \<lparr>page_size = 4096, pages_used = 4, directory_bytes = 24, layout_file_bytes = 16384\<rparr>,
     stream_sizes = [0, 0, 0, 64], stream_page_lists = [[], [], [], [3]], block_map_pages = [1],
     directory_page_list = [2], dbi_machine = 34404, dbi_age = 7\<rparr>"

lemma page_content_concat:
  "list_all (\<lambda>p. length p = n) ps \<Longrightarrow> i < length ps \<Longrightarrow> page_content (concat ps) n i = ps ! i"
proof (induction ps arbitrary: i)
  case (Cons p ps)
  then show ?case by (cases i) (simp_all add: page_content_def)
qed simp

lemma word_at_page:
  assumes "list_all (\<lambda>p. length p = n) ps" and "i < length ps" and "k + w \<le> n"
  shows "word_at (concat ps) w (i * n + k) = word_at (ps ! i) w k"
  using word_at_take [OF assms(3), of "drop (i * n) (concat ps)"] page_content_concat [OF assms(1,2)]
  by (simp add: page_content_def word_at_def add.commute)

lemma length_sample_page: "length bs \<le> 4096 \<Longrightarrow> length (sample_page bs) = 4096"
  by (simp add: sample_page_def)

lemma sample_pages_facts:
  "length sample_pages = 4" "list_all (\<lambda>p. length p = 4096) sample_pages"
  by (simp_all add: sample_pages_def length_sample_page length_pdb_magic)

lemma length_sample: "length (concat sample_pages) = 16384"
  by (simp add: sample_pages_def length_sample_page length_pdb_magic)

lemma word_at_prefix: "k + w \<le> length bs \<Longrightarrow> word_at (bs @ rest) w k = word_at bs w k"
  by (simp add: word_at_def)

lemma word_at_skip: "word_at (bs @ rest) w (length bs + k) = word_at rest w k"
  by (simp add: word_at_def)

lemma word_at_words:
  "k < length ws \<Longrightarrow> ws ! k \<le> u32_max \<Longrightarrow> word_at (encode_words ws) 4 (4 * k) = ws ! k"
  by (simp add: word_at_def encode_words_at le_nat_le_bytes u32_max_def)

lemma word_at_sample_page:
  "k + w \<le> length bs \<Longrightarrow> length bs \<le> 4096 \<Longrightarrow> i < 4 \<Longrightarrow> sample_pages ! i = sample_page bs \<Longrightarrow>
     word_at (concat sample_pages) w (i * 4096 + k) = word_at bs w k"
  using word_at_page [OF sample_pages_facts(2), of i k w] word_at_prefix [of k w bs]
  by (simp add: sample_pages_facts(1) sample_page_def)

lemma sample_header_words:
  assumes "k < 6"
  shows "word_at (concat sample_pages) 4 (32 + 4 * k) = [4096, 1, 4, 24, 0, 1] ! k"
proof -
  let ?ws = "[4096, 1, 4, 24, 0, 1] :: nat list"
  have "word_at (concat sample_pages) 4 (0 * 4096 + (32 + 4 * k)) = word_at (pdb_magic @ encode_words ?ws) 4 (32 + 4 * k)"
    using assms by (intro word_at_sample_page) (simp_all add: sample_pages_def length_pdb_magic)
  also have "\<dots> = word_at (encode_words ?ws) 4 (4 * k)"
    using word_at_skip [of pdb_magic "encode_words ?ws" 4 "4 * k"] by (simp add: length_pdb_magic)
  also have "\<dots> = ?ws ! k"
  proof (rule word_at_words)
    have "list_all (\<lambda>w. w \<le> u32_max) ?ws" by (simp add: u32_max_def)
    then show "?ws ! k \<le> u32_max" using assms by (simp add: list_all_length)
  qed (use assms in simp)
  finally show ?thesis by simp
qed

lemma sample_dbi_words:
  "word_at (concat sample_pages) 4 12288 = u32_max" "word_at (concat sample_pages) 4 12296 = 7"
  "word_at (concat sample_pages) 2 12346 = 34404"
proof -
  let ?ws = "[u32_max, 0, 7, 0, 0, 0, 0, 0, 0, 0, 0, 0, 0, 0] :: nat list"
  let ?tl = "[0, 0] @ le_bytes 2 34404"
  have page: "sample_pages ! 3 = sample_page (encode_words ?ws @ ?tl)" by (simp add: sample_pages_def)
  have at: "word_at (concat sample_pages) w (3 * 4096 + k) = word_at (encode_words ?ws @ ?tl) w k" if "k + w \<le> 60" for w k
    using that by (intro word_at_sample_page [OF _ _ _ page]) simp_all
  have pre: "word_at (encode_words ?ws @ ?tl) 4 (4 * k) = ?ws ! k" if "k < 14" for k
  proof -
    have "list_all (\<lambda>w. w \<le> u32_max) ?ws" by (simp add: u32_max_def)
    then show ?thesis using that word_at_words [of k ?ws] word_at_prefix [of "4 * k" 4 "encode_words ?ws"]
      by (simp add: list_all_length)
  qed
  show "word_at (concat sample_pages) 4 12288 = u32_max" using at [of 0 4] pre [of 0] by simp
  show "word_at (concat sample_pages) 4 12296 = 7" using at [of 8 4] pre [of 2] by simp
  have "word_at (encode_words ?ws @ ?tl) 2 (length (encode_words ?ws @ [0, 0]) + 0) = word_at (le_bytes 2 34404) 2 0"
    using word_at_skip [of "encode_words ?ws @ [0, 0]" "le_bytes 2 34404" 2 0] by simp
  then show "word_at (concat sample_pages) 2 12346 = 34404"
    using at [of 58 2] by (simp add: word_at_def le_nat_le_bytes)
qed

lemma stream_content_sample_page:
  "page_content (concat sample_pages) 4096 i = sample_page bs \<Longrightarrow> n = length bs \<Longrightarrow> length bs \<le> 4096 \<Longrightarrow>
     stream_content (concat sample_pages) 4096 [i] n = bs"
  by (simp add: stream_content_def sample_page_def)

lemma all_less_4: "(\<forall>s < (4 :: nat). P s) \<longleftrightarrow> P 0 \<and> P 1 \<and> P 2 \<and> P 3"
proof
  assume a: "P 0 \<and> P 1 \<and> P 2 \<and> P 3"
  have "s = 0 \<or> s = 1 \<or> s = 2 \<or> s = 3" if "s < 4" for s :: nat using that by linarith
  with a show "\<forall>s < 4. P s" by blast
qed simp

lemma sample_holds: "holds_container sample_pdb sample_container"
proof -
  let ?bytes = "concat sample_pages"
  have "page_content ?bytes 4096 1 = sample_page (encode_words [2])"
    "page_content ?bytes 4096 2 = sample_page (encode_words [4, 0, 0, 0, 64, 3])"
    using page_content_concat [OF sample_pages_facts(2)] by (simp_all add: sample_pages_def)
  then have streams: "stream_content ?bytes 4096 [1] 4 = encode_words [2]"
    "stream_content ?bytes 4096 [2] 24 = encode_words [4, 0, 0, 0, 64, 3]"
    by (auto intro!: stream_content_sample_page)
  have magic: "take 32 ?bytes = pdb_magic"
    by (simp add: sample_pages_def sample_page_def length_pdb_magic)
  have power: "is_power_of_two 4096" unfolding is_power_of_two_iff by (rule exI [of _ 12]) simp
  have header: "word_at ?bytes 4 32 = 4096" "word_at ?bytes 4 40 = 4" "word_at ?bytes 4 44 = 24" "word_at ?bytes 4 52 = 1"
    using sample_header_words [of 0] sample_header_words [of 2] sample_header_words [of 3] sample_header_words [of 5] by simp_all
  have words: "directory_words [0, 0, 0, 64] [[], [], [], [3]] = [4, 0, 0, 0, 64, 3]"
    by (simp add: directory_words_def)
  have four: "length [0, 0, 0, 64 :: nat] = 4" by simp
  have dir: "directory_ok 4096 4 [0, 0, 0, 64] [[], [], [], [3]]"
    unfolding directory_ok_def four all_less_4
    by (simp add: directory_words_def stream_pages_def pages_of_def u32_max_def max_metadata_read_bytes_def)
  show ?thesis
    unfolding holds_container_def Let_def sample_pdb_def sample_container_def
    using dir streams
    by (simp add: length_sample header magic length_pdb_magic power layout_ok_def words
        pages_of_def pdb_header_bytes_def pdb_raw_header_bytes_def u32_max_def u64_max_def
        max_pdb_page_bytes_def max_metadata_read_bytes_def sample_dbi_words [unfolded u32_max_def])
qed

theorem read_pdb_debug_header_of_container_witness:
  "read_pdb_debug_header sample_pdb = Inr (34404, 7)"
  using read_pdb_debug_header_of_container [OF sample_holds] by (simp add: sample_container_def)

theorem read_pdb_debug_header_sound_witness:
  "\<exists>page. 0 < page \<and> le_nat (take 4 (drop (page * 4096) (content sample_pdb))) = u32_max
     \<and> 7 = le_nat (take 4 (drop (page * 4096 + 8) (content sample_pdb)))"
proof -
  have layout: "parse_pdb_layout (take pdb_header_bytes (content sample_pdb)) 16384 = Inr (msf_layout sample_container)"
    using parse_layout_of_container [OF sample_holds] by (simp add: sample_pdb_def length_sample)
  have "read_pdb_debug_header sample_pdb = Inr (34404, 7)"
    using read_container [OF sample_holds] by (simp add: sample_container_def)
  from read_pdb_debug_header_sound [OF this] layout show ?thesis
    by (auto simp: sample_pdb_def sample_container_def)
qed

end
