(* ===== verification/Artifact_Scan.thy ===== *)
theory Artifact_Scan
  imports Pdb_Reader
begin

section \<open>Scanning symbol artifacts (crates/symbols, lib.rs)\<close>

text \<open>
  The scan of an artifact file or directory tree: the discovery of files within the limits, the readers of
  PE images and program databases, and the composition \<^verbatim>\<open>scan_artifacts_with_limits\<close>. The PE and PDB parsers
  of the object and pdb crates are parameters (the records \<open>object_library\<close> and \<open>pdb_library\<close>), as is the
  file system (the record \<open>artifact_fs\<close>, over any type of I/O errors). File names are taken to be UTF-8.
\<close>

subsection \<open>The libraries\<close>

datatype object_file_kind = Pe32 | Pe64 | OtherFileKind
datatype object_architecture = ObjectI386 | ObjectX86_64 | ObjectAarch64 | OtherObjectArchitecture
datatype object_kind = DynamicObject | ExecutableObject | OtherObject
datatype machine_type = MachineX86 | MachineAmd64 | MachineArm64 | OtherMachine

text \<open>\<^verbatim>\<open>ReadRef\<close>: the length, a read of a range, and a read up to a delimiter.\<close>

record read_ref =
  ref_len :: "nat option"
  ref_read :: "nat \<Rightarrow> nat \<Rightarrow> byte list option"
  ref_until :: "nat \<Rightarrow> nat \<Rightarrow> byte \<Rightarrow> byte list option"

record 'p object_library =
  read_cache :: "open_file \<Rightarrow> read_ref"
  parse_file_kind :: "read_ref \<Rightarrow> object_file_kind option"
  parse_pe_file :: "object_file_kind \<Rightarrow> read_ref \<Rightarrow> 'p option"
  pe_architecture :: "'p \<Rightarrow> object_architecture"
  pe_debug_directory :: "'p \<Rightarrow> (nat \<times> nat) option option"
  pe_time_date_stamp :: "'p \<Rightarrow> nat"
  pe_size_of_image :: "'p \<Rightarrow> nat"
  pe_object_kind :: "'p \<Rightarrow> object_kind"

record source_slice =
  slice_offset :: nat
  slice_size :: nat

record 'b pdb_library =
  pdb_open :: "(source_slice list \<Rightarrow> byte list option) \<Rightarrow> 'b option"
  pdb_information :: "'b \<Rightarrow> (byte list \<times> nat) option"
  pdb_machine_type :: "nat \<Rightarrow> machine_type"

subsection \<open>PE images\<close>

definition max_debug_directory_bytes :: nat where "max_debug_directory_bytes = 64 * 1024"
definition max_codeview_bytes :: nat where "max_codeview_bytes = 64 * 1024"
definition image_debug_directory_bytes :: nat where "image_debug_directory_bytes = 28"
definition image_debug_type_codeview :: nat where "image_debug_type_codeview = 2"

definition bounded_pe_reader :: "read_ref \<Rightarrow> read_ref" where
  "bounded_pe_reader inner =
     \<lparr>ref_len = ref_len inner,
      ref_read = (\<lambda>offset n. if n > max_metadata_read_bytes then None else ref_read inner offset n),
      ref_until = (\<lambda>start end delimiter.
        if is_none_or (checked_sub end start) (\<lambda>n. n > max_metadata_read_bytes) then None
        else ref_until inner start end delimiter)\<rparr>"

record pe_code_view =
  cv_guid :: "byte list"
  cv_age :: nat
  cv_path :: "byte list"

function chunks_exact :: "nat \<Rightarrow> 'a list \<Rightarrow> 'a list list" where
  "chunks_exact n xs = (if n = 0 \<or> length xs < n then [] else take n xs # chunks_exact n (drop n xs))"
  by auto

termination by (relation "measure (\<lambda>(n, xs). length xs)") auto

declare chunks_exact.simps [simp del]

fun find_code_view :: "read_ref \<Rightarrow> byte list list \<Rightarrow> pe_code_view option artifact_result" where
  "find_code_view data [] = Inr None"
| "find_code_view data (entry # entries) =
     bindR (read_u32_at entry 12) (\<lambda>kind.
     if kind \<noteq> image_debug_type_codeview then find_code_view data entries
     else
       bindR (read_u32_at entry 16) (\<lambda>code_view_size.
       bindR (read_u32_at entry 24) (\<lambda>code_view_offset.
       if code_view_size > max_codeview_bytes then Inl Malformed
       else
         bindR (ok_or (ref_read data code_view_offset code_view_size) Malformed) (\<lambda>code_view.
         if get_range code_view 0 4 \<noteq> Some (utf8 (lit ''RSDS'')) \<or> length code_view < 25
         then find_code_view data entries
         else
           bindR (ok_or (get_range code_view 4 20) Malformed) (\<lambda>guid.
           bindR (read_u32_at code_view 20) (\<lambda>age.
           bindR (ok_or (map_option (\<lambda>e. take e (drop 24 code_view))
                    (position (\<lambda>b. b = 0) (drop 24 code_view))) Malformed) (\<lambda>path.
           Inr (Some \<lparr>cv_guid = guid, cv_age = age, cv_path = path\<rparr>))))))))"

definition read_pe_code_view ::
  "'p object_library \<Rightarrow> read_ref \<Rightarrow> 'p \<Rightarrow> pe_code_view option artifact_result" where
  "read_pe_code_view lib data file =
     (case pe_debug_directory lib file of
        None \<Rightarrow> Inr None
      | Some file_range \<Rightarrow>
          bindR (ok_or file_range Malformed) (\<lambda>(offset, len).
          bindR (require (\<not> (len > max_debug_directory_bytes \<or> len mod image_debug_directory_bytes \<noteq> 0)) Malformed) (\<lambda>_.
          bindR (ok_or (ref_read data offset len) Malformed) (\<lambda>bytes.
          find_code_view data (chunks_exact image_debug_directory_bytes bytes)))))"

definition object_architecture_of :: "object_architecture \<Rightarrow> architecture artifact_result" where
  "object_architecture_of a =
     (case a of ObjectI386 \<Rightarrow> Inr X86 | ObjectX86_64 \<Rightarrow> Inr X86_64 | ObjectAarch64 \<Rightarrow> Inr Arm64
      | OtherObjectArchitecture \<Rightarrow> Inl UnsupportedArchitecture)"

definition pdb_architecture_of :: "machine_type \<Rightarrow> architecture artifact_result" where
  "pdb_architecture_of m =
     (case m of MachineX86 \<Rightarrow> Inr X86 | MachineAmd64 \<Rightarrow> Inr X86_64 | MachineArm64 \<Rightarrow> Inr Arm64
      | OtherMachine \<Rightarrow> Inl UnsupportedArchitecture)"

definition pe_artifact_type :: "object_kind \<Rightarrow> artifact_type artifact_result" where
  "pe_artifact_type k =
     (case k of DynamicObject \<Rightarrow> Inr PeDynamicLibrary | ExecutableObject \<Rightarrow> Inr PeExecutable
      | OtherObject \<Rightarrow> Inl UnsupportedFormat)"

definition parse_pe_kind ::
  "'p object_library \<Rightarrow> object_file_kind \<Rightarrow> read_ref \<Rightarrow> nat option \<Rightarrow> parsed_artifact artifact_result" where
  "parse_pe_kind lib kind data len =
     bindR (ok_or (parse_pe_file lib kind data) Malformed) (\<lambda>file.
     bindR (object_architecture_of (pe_architecture lib file)) (\<lambda>arch.
     bindR (bindR (read_pe_code_view lib data file) (\<lambda>found. ok_or found MissingDebugIdentity)) (\<lambda>code_view.
     let guid = canonical_pe_guid (cv_guid code_view); age = cv_age code_view in
     bindR (pe_artifact_type (pe_object_kind lib file)) (\<lambda>artifact_type.
     Inr \<lparr>pa_record =
            \<lparr>ar_path = [], ar_module = [], ar_type = artifact_type, ar_architecture = Some arch, ar_size = len,
             ar_debug_id = Some (format_debug_id guid age),
             ar_code_id = Some (format_code_id (pe_time_date_stamp lib file) (pe_size_of_image lib file)),
             ar_match_state = MissingCompanion, ar_matches = [], ar_error = None\<rparr>,
          pa_identity = Some \<lparr>id_guid = guid, id_age = age, id_original_age = None\<rparr>,
          pa_expected_pdb_name = Some (code_view_file_name (cv_path code_view))\<rparr>))))"

definition parse_pe :: "'p object_library \<Rightarrow> open_file \<Rightarrow> nat option \<Rightarrow> parsed_artifact artifact_result" where
  "parse_pe lib file len =
     (let data = bounded_pe_reader (read_cache lib file)
      in bindR (ok_or (parse_file_kind lib data) Malformed) (\<lambda>kind.
         if kind = Pe32 \<or> kind = Pe64 then parse_pe_kind lib kind data len else Inl UnsupportedFormat))"

subsection \<open>Program databases\<close>

text \<open>\<^verbatim>\<open>BoundedPdbSource::view\<close>: at most 16 MiB in one view.\<close>

definition bounded_pdb_view :: "open_file \<Rightarrow> source_slice list \<Rightarrow> byte list option" where
  "bounded_pdb_view file slices =
     ok (bindR (fold_result (\<lambda>slice total. ok_or
            (filter_option (\<lambda>n. n \<le> max_metadata_read_bytes) (checked_add total (slice_size slice))) ()) slices 0) (\<lambda>_.
         fold_result (\<lambda>slice bytes.
            bindR (ok_or (checked_add (length bytes) (slice_size slice)) ()) (\<lambda>_.
            if slice_offset slice + slice_size slice \<le> length (content file) \<or> slice_size slice = 0
            then Inr (bytes @ take (slice_size slice) (drop (slice_offset slice) (content file))) else Inl ())) slices []))"

definition parse_pdb :: "'b pdb_library \<Rightarrow> open_file \<Rightarrow> nat option \<Rightarrow> parsed_artifact artifact_result" where
  "parse_pdb lib file len =
     bindR (read_pdb_debug_header file) (\<lambda>(machine, original_age).
     bindR (ok_or (pdb_open lib (bounded_pdb_view file)) Malformed) (\<lambda>pdb.
     bindR (ok_or (pdb_information lib pdb) Malformed) (\<lambda>(guid, age).
     bindR (pdb_architecture_of (pdb_machine_type lib machine)) (\<lambda>arch.
     Inr \<lparr>pa_record =
            \<lparr>ar_path = [], ar_module = [], ar_type = PdbFile, ar_architecture = Some arch, ar_size = len,
             ar_debug_id = Some (format_debug_id guid age), ar_code_id = None,
             ar_match_state = MissingCompanion, ar_matches = [], ar_error = None\<rparr>,
          pa_identity = Some \<lparr>id_guid = guid, id_age = age, id_original_age = Some original_age\<rparr>,
          pa_expected_pdb_name = None\<rparr>))))"

subsection \<open>Files and directories\<close>

record artifact_scan_limits =
  lim_entries :: nat
  lim_depth :: nat
  lim_artifact_files :: nat
  lim_artifact_bytes :: nat
  lim_total_bytes :: nat

definition unlimited_scan :: artifact_scan_limits where
  "unlimited_scan = \<lparr>lim_entries = u64_max, lim_depth = u64_max, lim_artifact_files = u64_max,
     lim_artifact_bytes = u64_max, lim_total_bytes = u64_max\<rparr>"

datatype 'e scan_error = InspectRoot 'e | ReadDirectory 'e | TooManyEntries | DirectoryDepthExceeded
  | TooManyArtifacts | ArtifactTooLarge | TotalSizeExceeded

datatype file_type = RegularFile | DirectoryFile | OtherFileType

record 'e dir_entry =
  entry_name :: ustring
  entry_type :: "('e, file_type) result"
  entry_len :: "('e, nat) result"

record 'e artifact_fs =
  fs_symlink_metadata :: "ustring \<Rightarrow> ('e, file_type \<times> nat) result"
  fs_read_dir :: "ustring \<Rightarrow> ('e, ('e, 'e dir_entry) result list) result"
  fs_open :: "ustring \<Rightarrow> ('e, open_file) result"
  fs_len :: "ustring \<Rightarrow> nat option"

text \<open>\<^verbatim>\<open>Path::join\<close>: an absolute path replaces, a separator is added unless there is one.\<close>

definition path_join :: "ustring \<Rightarrow> ustring \<Rightarrow> ustring" where
  "path_join p name =
     (if name \<noteq> [] \<and> hd name = ch CHR ''/'' then name
      else if p = [] \<or> last p = ch CHR ''/'' then p @ name
      else p @ lit ''/'' @ name)"

definition normalize_path :: "ustring \<Rightarrow> ustring" where
  "normalize_path p = join (lit ''/'') (path_components p)"

definition path_leaf :: "ustring \<Rightarrow> ustring" where
  "path_leaf p = unwrap_or (path_file_name p) p"

definition has_extension :: "string \<Rightarrow> ustring \<Rightarrow> bool" where
  "has_extension e p \<longleftrightarrow> is_some_and (path_extension p) (\<lambda>x. eq_ignore_ascii_case x (lit e))"

definition supported_extension :: "ustring \<Rightarrow> bool" where
  "supported_extension p \<longleftrightarrow> has_extension ''exe'' p \<or> has_extension ''dll'' p \<or> has_extension ''pdb'' p"

definition inferred_artifact_type :: "ustring \<Rightarrow> artifact_type" where
  "inferred_artifact_type p =
     (if has_extension ''pdb'' p then PdbFile else if has_extension ''dll'' p then PeDynamicLibrary else PeExecutable)"

text \<open>The local variables of the discovery: the files found (path and relative name), the bytes they hold,
  the entries seen, and the stack of directories to read with their depths, its top first.\<close>

record discovery =
  found_files :: "(ustring \<times> ustring) list"
  found_bytes :: nat
  entries_seen :: nat
  directories :: "(ustring \<times> nat) list"

definition add_file ::
  "artifact_scan_limits \<Rightarrow> ustring \<Rightarrow> ustring \<Rightarrow> nat \<Rightarrow> discovery \<Rightarrow> ('e scan_error, discovery) result" where
  "add_file limits path relative len d =
     (if length (found_files d) \<ge> lim_artifact_files limits then Inl TooManyArtifacts
      else if len > lim_artifact_bytes limits then Inl ArtifactTooLarge
      else bindR (ok_or (filter_option (\<lambda>t. t \<le> lim_total_bytes limits) (checked_add (found_bytes d) len)) TotalSizeExceeded)
        (\<lambda>whole. Inr (d\<lparr>found_bytes := whole, found_files := found_files d @ [(path, relative)]\<rparr>)))"

text \<open>The body of the inner loop: one entry of the directory \<open>relative\<close> at \<open>depth\<close>.\<close>

definition discover_entry ::
  "ustring \<Rightarrow> artifact_scan_limits \<Rightarrow> ustring \<Rightarrow> nat \<Rightarrow> ('e, 'e dir_entry) result \<Rightarrow> discovery
   \<Rightarrow> ('e scan_error, discovery) result" where
  "discover_entry root limits relative depth entry d =
     bindR (ok_or (filter_option (\<lambda>n. n \<le> lim_entries limits) (checked_add (entries_seen d) 1)) TooManyEntries) (\<lambda>seen.
     let d = d\<lparr>entries_seen := seen\<rparr> in
     bindR (map_err ReadDirectory entry) (\<lambda>entry.
     bindR (map_err ReadDirectory (entry_type entry)) (\<lambda>ftype.
     let child_relative = path_join relative (entry_name entry) in
     if ftype = DirectoryFile then Inr (d\<lparr>directories := (child_relative, saturating_add depth 1) # directories d\<rparr>)
     else if ftype = RegularFile \<and> supported_extension child_relative then
       bindR (map_err ReadDirectory (entry_len entry)) (\<lambda>len.
       add_file limits (path_join (path_join root relative) (entry_name entry)) (normalize_path child_relative) len d)
     else Inr d)))"

lemma add_file_keeps:
  "add_file limits path relative len d = Inr d' \<Longrightarrow>
     directories d' = directories d \<and> entries_seen d' = entries_seen d"
  by (auto simp: add_file_def result_simps split: if_splits)

lemma discover_entry_measure:
  assumes "discover_entry root limits relative depth entry d = Inr d'"
  shows "entries_seen d' \<le> lim_entries limits
    \<and> (lim_entries limits - entries_seen d') + length (directories d')
       \<le> (lim_entries limits - entries_seen d) + length (directories d)
    \<and> entries_seen d' = Suc (entries_seen d)"
proof -
  have "Suc (entries_seen d) \<le> lim_entries limits \<and> entries_seen d' = Suc (entries_seen d)
      \<and> length (directories d') \<le> Suc (length (directories d))"
    using assms by (auto simp: discover_entry_def result_simps limit_simps Let_def split: if_splits dest!: add_file_keeps)
  then show ?thesis by auto
qed

lemma discover_entries_measure:
  "fold_result (discover_entry root limits relative depth) entries d = Inr d' \<Longrightarrow>
     (lim_entries limits - entries_seen d') + length (directories d')
        \<le> (lim_entries limits - entries_seen d) + length (directories d)"
proof (induction entries arbitrary: d)
  case (Cons entry entries)
  then obtain d1 where "discover_entry root limits relative depth entry d = Inr d1"
    "fold_result (discover_entry root limits relative depth) entries d1 = Inr d'" by (auto simp: result_simps)
  with Cons.IH [of d1] discover_entry_measure [of root limits relative depth entry d d1]
  show ?case by fastforce
qed simp

text \<open>The outer loop. Every directory on the stack but the first was counted as an entry, so the loop ends.\<close>

function discover_loop ::
  "'e artifact_fs \<Rightarrow> ustring \<Rightarrow> artifact_scan_limits \<Rightarrow> discovery \<Rightarrow> ('e scan_error, discovery) result" where
  "discover_loop fs root limits d =
     (case directories d of
        [] \<Rightarrow> Inr d
      | (relative, depth) # rest \<Rightarrow>
          if depth > lim_depth limits then Inl DirectoryDepthExceeded
          else
            bindR (map_err ReadDirectory (fs_read_dir fs (path_join root relative))) (\<lambda>entries.
            bindR (fold_result (discover_entry root limits relative depth) entries (d\<lparr>directories := rest\<rparr>)) (\<lambda>d'.
            discover_loop fs root limits d')))"
  by auto

termination
proof (relation "measure (\<lambda>(fs, root, limits, d). (lim_entries limits - entries_seen d) + length (directories d))", goal_cases)
  case (2 fs root limits d p rest relative depth entries d')
  from discover_entries_measure [OF 2(5)] 2(1) show ?case by simp
qed simp

declare discover_loop.simps [simp del]

definition discover_files ::
  "'e artifact_fs \<Rightarrow> ustring \<Rightarrow> artifact_scan_limits \<Rightarrow> discovery \<Rightarrow> ('e scan_error, discovery) result" where
  "discover_files fs root limits d =
     discover_loop fs root limits (d\<lparr>directories := [([], 0)], entries_seen := 0\<rparr>)"

definition parse_artifact ::
  "'e artifact_fs \<Rightarrow> 'p object_library \<Rightarrow> 'b pdb_library \<Rightarrow> ustring \<Rightarrow> ustring \<Rightarrow> parsed_artifact" where
  "parse_artifact fs objects pdbs path relative =
     (let artifact_type = inferred_artifact_type path; module = path_leaf path; len = fs_len fs path;
          parsed = (case fs_open fs path of
              Inl _ \<Rightarrow> Inl Unreadable
            | Inr file \<Rightarrow> if artifact_type = PdbFile then parse_pdb pdbs file len else parse_pe objects file len)
      in case parsed of
           Inr artifact \<Rightarrow> artifact\<lparr>pa_record := (pa_record artifact)\<lparr>ar_path := relative, ar_module := module\<rparr>\<rparr>
         | Inl code \<Rightarrow>
             \<lparr>pa_record = \<lparr>ar_path = relative, ar_module = module, ar_type = artifact_type, ar_architecture = None,
                ar_size = len, ar_debug_id = None, ar_code_id = None, ar_match_state = Invalid, ar_matches = [],
                ar_error = Some code\<rparr>,
              pa_identity = None, pa_expected_pdb_name = None\<rparr>)"

definition scan_artifacts_with_limits ::
  "'e artifact_fs \<Rightarrow> 'p object_library \<Rightarrow> 'b pdb_library \<Rightarrow> ustring \<Rightarrow> artifact_scan_limits
   \<Rightarrow> ('e scan_error, artifact_scan) result" where
  "scan_artifacts_with_limits fs objects pdbs root limits =
     bindR (map_err InspectRoot (fs_symlink_metadata fs root)) (\<lambda>(ftype, len).
     let start = \<lparr>found_files = [], found_bytes = 0, entries_seen = 0, directories = []\<rparr> in
     bindR (if ftype = RegularFile then
              (if supported_extension root then add_file limits root (path_leaf root) len start else Inr start)
            else if ftype = DirectoryFile then discover_files fs root limits start
            else Inr start) (\<lambda>d.
     let files = sort_key snd (found_files d);
         artifacts = match_artifacts (map (\<lambda>(path, relative). parse_artifact fs objects pdbs path relative) files)
     in Inr \<lparr>scan_schema_version = 1, scan_artifacts_of = map pa_record artifacts\<rparr>))"

definition scan_artifacts ::
  "'e artifact_fs \<Rightarrow> 'p object_library \<Rightarrow> 'b pdb_library \<Rightarrow> ustring \<Rightarrow> ('e scan_error, artifact_scan) result" where
  "scan_artifacts fs objects pdbs root = scan_artifacts_with_limits fs objects pdbs root unlimited_scan"

subsection \<open>Discovery: lemmas\<close>

lemma discover_loop_invariant:
  fixes fs :: "'e artifact_fs"
  shows "discover_loop fs root limits d = Inr d' \<Longrightarrow> P d \<Longrightarrow>
     (\<And>relative depth (e :: ('e, 'e dir_entry) result) d d'. P d \<Longrightarrow> discover_entry root limits relative depth e d = Inr d' \<Longrightarrow> P d') \<Longrightarrow>
     (\<And>d ds. P d \<Longrightarrow> P (d\<lparr>directories := ds\<rparr>)) \<Longrightarrow> P d' \<and> directories d' = []"
proof (induction fs root limits d rule: discover_loop.induct [case_names step])
  case (step fs root limits d)
  note entry = step.prems(3) and pop = step.prems(4)
  show ?case
  proof (cases "directories d")
    case Nil
    with step.prems(1,2) show ?thesis by (simp add: discover_loop.simps)
  next
    case (Cons p rest)
    obtain relative depth where p: "p = (relative, depth)" by (cases p)
    from step.prems(1) Cons p obtain entries d1 where
      entries: "fs_read_dir fs (path_join root relative) = Inr entries" and depth: "\<not> depth > lim_depth limits"
      and run: "fold_result (discover_entry root limits relative depth) entries (d\<lparr>directories := rest\<rparr>) = Inr d1"
      and next_run: "discover_loop fs root limits d1 = Inr d'"
      by (subst (asm) discover_loop.simps) (auto simp: result_simps split: if_splits)
    have "P d1"
    proof (rule fold_result_invariant [OF run])
      show "P (d\<lparr>directories := rest\<rparr>)" using step.prems(2) by (rule pop)
      fix e :: "('e, 'e dir_entry) result" and s s'
      assume "P s" and "discover_entry root limits relative depth e s = Inr s'"
      then show "P s'" by (rule entry)
    qed
    then show ?thesis using step.IH [OF Cons p [symmetric] depth _ run next_run] entries entry pop by simp
  qed
qed

definition discovery_ok :: "artifact_scan_limits \<Rightarrow> discovery \<Rightarrow> bool" where
  "discovery_ok limits d \<longleftrightarrow>
     length (found_files d) \<le> lim_artifact_files limits \<and> found_bytes d \<le> lim_total_bytes limits
     \<and> entries_seen d \<le> lim_entries limits"

lemma add_file_ok: "discovery_ok limits d \<Longrightarrow> add_file limits path relative len d = Inr d' \<Longrightarrow> discovery_ok limits d'"
  by (auto simp: add_file_def discovery_ok_def result_simps split: if_splits)

lemma discovery_ok_updates:
  "discovery_ok limits (d\<lparr>directories := ds\<rparr>) = discovery_ok limits d"
  "discovery_ok limits d \<Longrightarrow> n \<le> lim_entries limits \<Longrightarrow> discovery_ok limits (d\<lparr>entries_seen := n\<rparr>)"
  by (simp_all add: discovery_ok_def)

lemma discover_entry_ok:
  "discovery_ok limits d \<Longrightarrow> discover_entry root limits relative depth e d = Inr d' \<Longrightarrow> discovery_ok limits d'"
  by (auto simp: discover_entry_def result_simps Let_def discovery_ok_updates split: if_splits
      intro: add_file_ok [OF discovery_ok_updates(2)])

lemma discover_files_ok:
  assumes "discover_files fs root limits d = Inr d'" and "discovery_ok limits d"
  shows "discovery_ok limits d'" and "directories d' = []"
proof -
  have "discovery_ok limits (d\<lparr>directories := [([], 0)], entries_seen := 0\<rparr>)"
    using assms(2) by (simp add: discovery_ok_def)
  from discover_loop_invariant [where P = "discovery_ok limits", OF assms(1) [unfolded discover_files_def] this]
  show "discovery_ok limits d'" "directories d' = []"
    using discover_entry_ok discovery_ok_updates(1) by blast+
qed

subsection \<open>The files of a directory tree\<close>

text \<open>What the entries of one directory hold: its subdirectories, and its artifact files with their sizes.\<close>

definition listed_entries :: "'e artifact_fs \<Rightarrow> ustring \<Rightarrow> ustring \<times> nat \<Rightarrow> ('e, 'e dir_entry) result list" where
  "listed_entries fs root v = (case fs_read_dir fs (path_join root (fst v)) of Inl _ \<Rightarrow> [] | Inr entries \<Rightarrow> entries)"

definition subdirectory :: "ustring \<times> nat \<Rightarrow> ('e, 'e dir_entry) result \<Rightarrow> (ustring \<times> nat) list" where
  "subdirectory v entry =
     (case entry of
        Inl _ \<Rightarrow> []
      | Inr e \<Rightarrow> if entry_type e = Inr DirectoryFile
          then [(path_join (fst v) (entry_name e), saturating_add (snd v) 1)] else [])"

definition artifact_file ::
  "ustring \<Rightarrow> ustring \<times> nat \<Rightarrow> ('e, 'e dir_entry) result \<Rightarrow> ((ustring \<times> ustring) \<times> nat) list" where
  "artifact_file root v entry =
     (case entry of
        Inl _ \<Rightarrow> []
      | Inr e \<Rightarrow>
          (case entry_len e of
             Inl _ \<Rightarrow> []
           | Inr len \<Rightarrow>
               if entry_type e = Inr RegularFile \<and> supported_extension (path_join (fst v) (entry_name e))
               then [((path_join (path_join root (fst v)) (entry_name e), normalize_path (path_join (fst v) (entry_name e))), len)]
               else []))"

text \<open>A walk through a tree: every directory of it once, the one at the root and those listed in one of the walk.\<close>

definition complete_walk :: "'e artifact_fs \<Rightarrow> ustring \<Rightarrow> (ustring \<times> nat) list \<Rightarrow> (ustring \<times> nat) list \<Rightarrow> bool" where
  "complete_walk fs root start visited \<longleftrightarrow>
     mset visited = mset start + mset (concat (map (\<lambda>v. concat (map (subdirectory v) (listed_entries fs root v))) visited))"

definition walk_files :: "'e artifact_fs \<Rightarrow> ustring \<Rightarrow> (ustring \<times> nat) list \<Rightarrow> ((ustring \<times> ustring) \<times> nat) list" where
  "walk_files fs root visited = concat (map (\<lambda>v. concat (map (artifact_file root v) (listed_entries fs root v))) visited)"

text \<open>The steps of the discovery add what they read.\<close>

definition discovery_adds ::
  "artifact_scan_limits \<Rightarrow> discovery \<Rightarrow> nat \<Rightarrow> ((ustring \<times> ustring) \<times> nat) list \<Rightarrow> discovery \<Rightarrow> bool" where
  "discovery_adds limits d entries files d' \<longleftrightarrow>
     entries_seen d' = entries_seen d + entries \<and> found_files d' = found_files d @ map fst files
     \<and> found_bytes d' = found_bytes d + sum_list (map snd files)
     \<and> list_all (\<lambda>f. snd f \<le> lim_artifact_bytes limits) files"

lemma discovery_adds_none: "discovery_adds limits d 0 [] d"
  by (simp add: discovery_adds_def)

lemma discovery_adds_trans:
  "discovery_adds limits d m fs d' \<Longrightarrow> discovery_adds limits d' n gs d'' \<Longrightarrow> discovery_adds limits d (m + n) (fs @ gs) d''"
  by (simp add: discovery_adds_def)

lemma add_file_adds:
  "add_file limits path relative len d = Inr d' \<Longrightarrow> discovery_adds limits d 0 [((path, relative), len)] d'"
  by (auto simp: add_file_def discovery_adds_def result_simps limit_simps split: if_splits)

lemma discovery_adds_updates:
  "discovery_adds limits (d\<lparr>directories := ds\<rparr>) n files d' = discovery_adds limits d n files d'"
  "discovery_adds limits d n files (d'\<lparr>directories := ds\<rparr>) = discovery_adds limits d n files d'"
  "discovery_adds limits (d\<lparr>entries_seen := Suc (entries_seen d)\<rparr>) n files d' = discovery_adds limits d (Suc n) files d'"
  by (simp_all add: discovery_adds_def)

lemma discover_entry_adds:
  fixes entry :: "('e, 'e dir_entry) result"
  assumes "discover_entry root limits relative depth entry d = Inr d'"
  shows "discovery_adds limits d 1 (artifact_file root (relative, depth) entry) d'
    \<and> directories d' = subdirectory (relative, depth) entry @ directories d"
proof -
  let ?d = "d\<lparr>entries_seen := Suc (entries_seen d)\<rparr>"
  from assms obtain e ftype where e: "entry = Inr e" "entry_type e = Inr ftype"
    and rest: "(if ftype = DirectoryFile then Inr (?d\<lparr>directories := (path_join relative (entry_name e), saturating_add depth 1) # directories ?d\<rparr>)
     else if ftype = RegularFile \<and> supported_extension (path_join relative (entry_name e)) then
       bindR (map_err ReadDirectory (entry_len e)) (\<lambda>len.
       add_file limits (path_join (path_join root relative) (entry_name e)) (normalize_path (path_join relative (entry_name e))) len ?d)
     else Inr ?d) = Inr d'"
    by (auto simp: discover_entry_def result_simps limit_simps Let_def)
  have same: "discovery_adds limits d 1 [] ?d" by (simp add: discovery_adds_def)
  consider "ftype = DirectoryFile" | "ftype = RegularFile \<and> supported_extension (path_join relative (entry_name e))"
    | "ftype \<noteq> DirectoryFile" "\<not> (ftype = RegularFile \<and> supported_extension (path_join relative (entry_name e)))" by blast
  then show ?thesis
  proof cases
    case 1
    with rest same e show ?thesis
      by (auto simp: artifact_file_def subdirectory_def discovery_adds_updates split: sum.split)
  next
    case 2
    with rest obtain len where len: "entry_len e = Inr len"
      and add: "add_file limits (path_join (path_join root relative) (entry_name e))
        (normalize_path (path_join relative (entry_name e))) len ?d = (Inr d' :: ('e scan_error, discovery) result)" by (auto simp: result_simps)
    from add_file_adds [OF add] add_file_keeps [OF add] 2 e len show ?thesis
      by (simp add: artifact_file_def subdirectory_def discovery_adds_updates)
  next
    case 3
    with rest same e show ?thesis by (auto simp: artifact_file_def subdirectory_def split: sum.split)
  qed
qed

lemma discover_entries_add:
  "fold_result (discover_entry root limits relative depth) entries d = Inr d' \<Longrightarrow>
     discovery_adds limits d (length entries) (concat (map (artifact_file root (relative, depth)) entries)) d'
     \<and> mset (directories d') = mset (directories d) + mset (concat (map (subdirectory (relative, depth)) entries))"
proof (induction entries arbitrary: d)
  case (Cons entry entries)
  then obtain d1 where first: "discover_entry root limits relative depth entry d = Inr d1"
    and rest: "fold_result (discover_entry root limits relative depth) entries d1 = Inr d'" by (auto simp: result_simps)
  from discover_entry_adds [OF first] Cons.IH [OF rest] show ?case
    using discovery_adds_trans [of limits d 1 _ d1 "length entries"] by simp
qed (simp add: discovery_adds_none)

lemma discover_loop_adds:
  "discover_loop fs root limits d = Inr d' \<Longrightarrow>
     \<exists>visited. complete_walk fs root (directories d) visited
       \<and> list_all (\<lambda>v. snd v \<le> lim_depth limits \<and> is_ok (fs_read_dir fs (path_join root (fst v)))) visited
       \<and> discovery_adds limits d (sum_list (map (\<lambda>v. length (listed_entries fs root v)) visited)) (walk_files fs root visited) d'"
proof (induction fs root limits d rule: discover_loop.induct [case_names step])
  case (step fs root limits d)
  show ?case
  proof (cases "directories d")
    case Nil
    with step.prems show ?thesis
      by (intro exI [of _ "[]"]) (simp add: discover_loop.simps complete_walk_def walk_files_def discovery_adds_none)
  next
    case (Cons p rest)
    obtain relative depth where p: "p = (relative, depth)" by (cases p)
    from step.prems Cons p obtain entries d1 where
      entries: "fs_read_dir fs (path_join root relative) = Inr entries" and depth: "\<not> depth > lim_depth limits"
      and run: "fold_result (discover_entry root limits relative depth) entries (d\<lparr>directories := rest\<rparr>) = Inr d1"
      and next_run: "discover_loop fs root limits d1 = Inr d'"
      by (subst (asm) discover_loop.simps) (auto simp: result_simps split: if_splits)
    have "map_err ReadDirectory (fs_read_dir fs (path_join root relative)) = Inr entries" using entries by simp
    from step.IH [OF Cons p [symmetric] depth this run next_run] obtain visited where
      walk: "complete_walk fs root (directories d1) visited"
      and ok: "list_all (\<lambda>v. snd v \<le> lim_depth limits \<and> is_ok (fs_read_dir fs (path_join root (fst v)))) visited"
      and adds: "discovery_adds limits d1 (sum_list (map (\<lambda>v. length (listed_entries fs root v)) visited)) (walk_files fs root visited) d'"
      by blast
    have listed: "listed_entries fs root (relative, depth) = entries" by (simp add: listed_entries_def entries)
    note first = discover_entries_add [OF run]
    have "complete_walk fs root (directories d) (p # visited)"
      using walk first by (simp add: complete_walk_def Cons p listed)
    moreover have "discovery_adds limits d (sum_list (map (\<lambda>v. length (listed_entries fs root v)) (p # visited)))
        (walk_files fs root (p # visited)) d'"
      using discovery_adds_trans [OF _ adds] first by (simp add: discovery_adds_updates p listed walk_files_def)
    ultimately show ?thesis using ok depth entries p by (intro exI [of _ "p # visited"]) (simp add: is_ok_iff)
  qed
qed

subsection \<open>Parsed artifacts\<close>

definition parsed_new :: "parsed_artifact \<Rightarrow> bool" where
  "parsed_new a \<longleftrightarrow> ar_match_state (pa_record a) = MissingCompanion \<and> ar_error (pa_record a) = None
     \<and> ar_matches (pa_record a) = []
     \<and> (\<exists>i. pa_identity a = Some i \<and> length (id_guid i) = 16 \<and> id_age i \<le> u64_max
         \<and> ar_debug_id (pa_record a) = Some (format_debug_id (id_guid i) (id_age i)))"

lemma le_nat_take4: "le_nat (take 4 bs) \<le> u64_max"
proof -
  have "le_nat (take 4 bs) < 256 ^ length (take 4 bs)" by (rule le_nat_bound)
  also have "\<dots> \<le> 256 ^ 4" by (rule power_increasing) simp_all
  finally show ?thesis by (simp add: u64_max_def)
qed

lemma find_code_view_age:
  "find_code_view data entries = Inr (Some cv) \<Longrightarrow> length (cv_guid cv) = 16 \<and> cv_age cv \<le> u64_max"
  by (induction data entries rule: find_code_view.induct)
     (auto simp: result_simps get_range_eq_Some le_nat_take4 split: if_splits)

lemma parse_pe_new: "parse_pe lib file len = Inr a \<Longrightarrow> parsed_new a"
  by (auto simp: parse_pe_def parse_pe_kind_def parsed_new_def read_pe_code_view_def result_simps Let_def
      dest!: find_code_view_age split: if_splits option.splits)

text \<open>What the PDB library promises of the identity it reads.\<close>

definition pdb_identities_ok :: "'b pdb_library \<Rightarrow> bool" where
  "pdb_identities_ok lib \<longleftrightarrow>
     (\<forall>pdb guid age. pdb_information lib pdb = Some (guid, age) \<longrightarrow> length guid = 16 \<and> age \<le> u64_max)"

lemma parse_pdb_new: "pdb_identities_ok lib \<Longrightarrow> parse_pdb lib file len = Inr a \<Longrightarrow> parsed_new a"
  by (auto simp: parse_pdb_def parsed_new_def pdb_identities_ok_def result_simps)

lemma parse_artifact_cases:
  assumes "pdb_identities_ok pdbs"
  shows "parsed_ok (parse_artifact fs objects pdbs path relative)"
    and "ar_path (pa_record (parse_artifact fs objects pdbs path relative)) = relative"
    and "ar_match_state (pa_record (parse_artifact fs objects pdbs path relative)) = Invalid
      \<longleftrightarrow> ar_error (pa_record (parse_artifact fs objects pdbs path relative)) \<noteq> None"
    and "ar_match_state (pa_record (parse_artifact fs objects pdbs path relative)) = Invalid
      \<Longrightarrow> ar_debug_id (pa_record (parse_artifact fs objects pdbs path relative)) = None"
proof -
  let ?parsed = "case fs_open fs path of Inl _ \<Rightarrow> Inl Unreadable
    | Inr file \<Rightarrow> if inferred_artifact_type path = PdbFile then parse_pdb pdbs file (fs_len fs path)
        else parse_pe objects file (fs_len fs path)"
  have new: "parsed_new a" if "?parsed = Inr a" for a
    using that parse_pdb_new [OF assms] parse_pe_new by (auto split: sum.splits if_splits)
  show "parsed_ok (parse_artifact fs objects pdbs path relative)"
    and "ar_path (pa_record (parse_artifact fs objects pdbs path relative)) = relative"
    and "ar_match_state (pa_record (parse_artifact fs objects pdbs path relative)) = Invalid
      \<longleftrightarrow> ar_error (pa_record (parse_artifact fs objects pdbs path relative)) \<noteq> None"
    and "ar_match_state (pa_record (parse_artifact fs objects pdbs path relative)) = Invalid
      \<Longrightarrow> ar_debug_id (pa_record (parse_artifact fs objects pdbs path relative)) = None"
    using new unfolding parse_artifact_def Let_def
    by (cases ?parsed; auto simp: parsed_new_def parsed_ok_def)+
qed

subsection \<open>The scan\<close>

text \<open>What a scanned artifact looks like among the artifacts of its scan.\<close>

definition record_ok :: "artifact_record list \<Rightarrow> artifact_record \<Rightarrow> bool" where
  "record_ok artifacts a \<longleftrightarrow>
     (ar_match_state a = Invalid \<longleftrightarrow> ar_error a \<noteq> None) \<and> (ar_match_state a = Invalid \<longrightarrow> ar_debug_id a = None)
     \<and> (ar_match_state a = Matched \<longleftrightarrow> ar_matches a \<noteq> []) \<and> sorted (ar_matches a)
     \<and> list_all (\<lambda>m. list_ex (\<lambda>b. ar_path b = m \<and> is_pe (ar_type a) \<noteq> is_pe (ar_type b)
            \<and> ar_architecture a = ar_architecture b \<and> ar_path a \<in> set (ar_matches b)) artifacts) (ar_matches a)"

lemma compatible_types:
  "compatible a b \<Longrightarrow> is_pe (ar_type (pa_record a)) \<noteq> is_pe (ar_type (pa_record b))
     \<and> ar_architecture (pa_record a) = ar_architecture (pa_record b)"
  by (cases "ar_type (pa_record a)"; cases "ar_type (pa_record b)")
     (auto simp: compatible_def is_pe_def Let_def split: option.splits)

lemma matched_record_ok:
  assumes ok: "list_all parsed_ok ps" and i: "i < length ps"
    and err: "ar_match_state (pa_record (ps ! i)) = Invalid \<longleftrightarrow> ar_error (pa_record (ps ! i)) \<noteq> None"
      "ar_match_state (pa_record (ps ! i)) = Invalid \<Longrightarrow> ar_debug_id (pa_record (ps ! i)) = None"
  shows "record_ok (map pa_record (match_artifacts ps)) (pa_record (matched_artifact ps i))"
proof -
  let ?r = "\<lambda>k. pa_record (matched_artifact ps k)"
  have matches: "ar_matches (?r k) = companions ps k" if "k < length ps" for k
    using matched_artifact_matches ok that by (simp add: list_all_length)
  have facts: "ar_path (?r k) = ar_path (pa_record (ps ! k))" "ar_type (?r k) = ar_type (pa_record (ps ! k))"
    "ar_architecture (?r k) = ar_architecture (pa_record (ps ! k))" for k
    using same_facts_matched [of ps k] by (simp_all add: same_facts_def)
  have "\<exists>k < length ps. ar_path (?r k) = m \<and> is_pe (ar_type (?r i)) \<noteq> is_pe (ar_type (?r k))
      \<and> ar_architecture (?r i) = ar_architecture (?r k) \<and> ar_path (?r i) \<in> set (ar_matches (?r k))"
    if "m \<in> set (companions ps i)" for m
  proof -
    from that obtain k where k: "k < length ps" "i \<noteq> k" "compatible (ps ! i) (ps ! k)" "m = ar_path (pa_record (ps ! k))"
      by (auto simp: companions_def)
    have "ar_path (pa_record (ps ! i)) \<in> set (companions ps k)"
      using k i compatible_sym [of "ps ! i" "ps ! k"] by (auto simp: companions_def)
    with k facts compatible_types [OF k(3)] matches show ?thesis by auto
  qed
  then have "list_all (\<lambda>m. list_ex (\<lambda>b. ar_path b = m \<and> is_pe (ar_type (?r i)) \<noteq> is_pe (ar_type b)
            \<and> ar_architecture (?r i) = ar_architecture b \<and> ar_path (?r i) \<in> set (ar_matches b))
          (map pa_record (match_artifacts ps))) (ar_matches (?r i))"
    unfolding matches [OF i] list_all_iff list_ex_iff match_artifacts_pointwise by fastforce
  moreover have "ar_match_state (?r i) = Matched \<longleftrightarrow> companions ps i \<noteq> []"
    using incompatible_invalid [of "ps ! i"] ok i
    by (auto simp: matched_artifact_def Let_def list_all_length companions_def)
  moreover have "ar_match_state (?r i) = Invalid \<longleftrightarrow> ar_match_state (pa_record (ps ! i)) = Invalid"
    "ar_error (?r i) = ar_error (pa_record (ps ! i))" "ar_debug_id (?r i) = ar_debug_id (pa_record (ps ! i))"
    by (simp_all add: matched_artifact_def Let_def)
  moreover have "sorted (ar_matches (?r i))" unfolding matches [OF i] by (simp add: companions_def)
  ultimately show ?thesis unfolding record_ok_def using err matches [OF i] by simp
qed

text \<open>The artifacts of a list of files, parsed and matched.\<close>

lemma scanned_paths:
  assumes "pdb_identities_ok pdbs"
  shows "map ar_path (map pa_record (match_artifacts
    (map (\<lambda>(path, relative). parse_artifact fs objects pdbs path relative) files))) = map snd files"
    (is "map ar_path (map pa_record (match_artifacts ?ps)) = _")
proof -
  have "map ar_path (map pa_record (match_artifacts ?ps)) = map (\<lambda>p. ar_path (pa_record p)) ?ps"
    using same_facts_matched [of ?ps]
    by (intro nth_equalityI) (auto simp: match_artifacts_pointwise same_facts_def)
  also have "\<dots> = map snd files" using parse_artifact_cases(2) [OF assms] by auto
  finally show ?thesis .
qed

lemma scanned_records_ok:
  assumes "pdb_identities_ok pdbs"
  shows "list_all (record_ok (map pa_record (match_artifacts
      (map (\<lambda>(path, relative). parse_artifact fs objects pdbs path relative) files))))
    (map pa_record (match_artifacts (map (\<lambda>(path, relative). parse_artifact fs objects pdbs path relative) files)))"
    (is "list_all (record_ok (map pa_record (match_artifacts ?ps))) _")
proof -
  have ok: "list_all parsed_ok ?ps" using parse_artifact_cases(1) [OF assms(1)] by (auto simp: list_all_iff)
  have "record_ok (map pa_record (match_artifacts ?ps)) (pa_record (matched_artifact ?ps i))"
    if i: "i < length ?ps" for i
  proof (rule matched_record_ok [OF ok i])
    obtain path relative where at: "?ps ! i = parse_artifact fs objects pdbs path relative"
      using i by (cases "files ! i") auto
    show "ar_match_state (pa_record (?ps ! i)) = Invalid \<longleftrightarrow> ar_error (pa_record (?ps ! i)) \<noteq> None"
      unfolding at by (rule parse_artifact_cases(3) [OF assms(1)])
    show "ar_match_state (pa_record (?ps ! i)) = Invalid \<Longrightarrow> ar_debug_id (pa_record (?ps ! i)) = None"
      unfolding at by (rule parse_artifact_cases(4) [OF assms(1)])
  qed
  then show ?thesis by (auto simp: list_all_iff match_artifacts_pointwise)
qed

text \<open>The files a scan of \<open>root\<close> has to look at, given the walk through its tree.\<close>

definition scanned_files ::
  "'e artifact_fs \<Rightarrow> ustring \<Rightarrow> (ustring \<times> nat) list \<Rightarrow> ((ustring \<times> ustring) \<times> nat) list" where
  "scanned_files fs root visited =
     (case fs_symlink_metadata fs root of
        Inr (RegularFile, len) \<Rightarrow> if supported_extension root then [((root, path_leaf root), len)] else []
      | Inr (DirectoryFile, len) \<Rightarrow> walk_files fs root visited
      | _ \<Rightarrow> [])"

definition root_directories :: "'e artifact_fs \<Rightarrow> ustring \<Rightarrow> (ustring \<times> nat) list" where
  "root_directories fs root =
     (case fs_symlink_metadata fs root of Inr (DirectoryFile, len) \<Rightarrow> [([], 0)] | _ \<Rightarrow> [])"

lemma discovery_complete:
  assumes "fs_symlink_metadata fs root = Inr (ftype, len)"
    and "(if ftype = RegularFile then
              (if supported_extension root then add_file limits root (path_leaf root) len start else Inr start)
            else if ftype = DirectoryFile then discover_files fs root limits start
            else Inr start) = Inr d"
    and start: "start = \<lparr>found_files = [], found_bytes = 0, entries_seen = 0, directories = []\<rparr>"
  shows "\<exists>visited. complete_walk fs root (root_directories fs root) visited
    \<and> list_all (\<lambda>v. snd v \<le> lim_depth limits \<and> is_ok (fs_read_dir fs (path_join root (fst v)))) visited
    \<and> discovery_adds limits start (sum_list (map (\<lambda>v. length (listed_entries fs root v)) visited))
        (scanned_files fs root visited) d"
proof (cases "ftype = DirectoryFile")
  case True
  with assms have "discover_loop fs root limits (start\<lparr>directories := [([], 0)], entries_seen := 0\<rparr>) = Inr d"
    by (simp add: discover_files_def)
  from discover_loop_adds [OF this] obtain visited where
    walk: "complete_walk fs root [([], 0)] visited"
    and ok: "list_all (\<lambda>v. snd v \<le> lim_depth limits \<and> is_ok (fs_read_dir fs (path_join root (fst v)))) visited"
    and adds: "discovery_adds limits (start\<lparr>directories := [([], 0)], entries_seen := 0\<rparr>)
      (sum_list (map (\<lambda>v. length (listed_entries fs root v)) visited)) (walk_files fs root visited) d"
    by auto
  from adds have "discovery_adds limits start (sum_list (map (\<lambda>v. length (listed_entries fs root v)) visited))
      (walk_files fs root visited) d" by (simp add: discovery_adds_def start)
  with walk ok True assms(1) show ?thesis by (intro exI [of _ visited]) (simp add: scanned_files_def root_directories_def)
next
  case False
  have "discovery_adds limits start 0 (if ftype = RegularFile \<and> supported_extension root then [((root, path_leaf root), len)] else []) d"
    using assms(2) False add_file_adds [of limits root "path_leaf root" len start d]
    by (auto simp: discovery_adds_none split: if_splits)
  moreover have "scanned_files fs root [] =
      (if ftype = RegularFile \<and> supported_extension root then [((root, path_leaf root), len)] else [])"
    "root_directories fs root = []"
    using assms(1) False by (cases ftype; simp add: scanned_files_def root_directories_def)+
  ultimately show ?thesis by (intro exI [of _ "[]"]) (simp add: complete_walk_def)
qed

text \<open>C16: what a successful scan returns, for any file system and any parsers whose PDB identities have
  16-byte GUIDs. It read the whole tree and stayed within every limit: the directories visited are the root and
  each listed directory once, none deeper than the depth limit and none unreadable; their entries together are
  at most the entry limit; the artifacts are those of the supported regular files of these directories (or of
  the root itself), at most as many as the limit, each at most the artifact limit long and together at most the
  total limit. The artifacts are sorted by relative path; one is invalid exactly when it carries an error and
  then has no debug identity; it is matched exactly when it lists companions, and every companion it lists is an
  artifact of the scan, a PDB for a PE and a PE for a PDB, of the same architecture, that lists it back.\<close>

theorem scan_artifacts_sound:
  assumes "pdb_identities_ok pdbs" and "scan_artifacts_with_limits fs objects pdbs root limits = Inr scan"
  shows "(\<exists>visited. complete_walk fs root (root_directories fs root) visited
      \<and> list_all (\<lambda>v. snd v \<le> lim_depth limits \<and> is_ok (fs_read_dir fs (path_join root (fst v)))) visited
      \<and> sum_list (map (\<lambda>v. length (listed_entries fs root v)) visited) \<le> lim_entries limits
      \<and> mset (map ar_path (scan_artifacts_of scan)) = mset (map (\<lambda>f. snd (fst f)) (scanned_files fs root visited))
      \<and> list_all (\<lambda>f. snd f \<le> lim_artifact_bytes limits) (scanned_files fs root visited)
      \<and> sum_list (map snd (scanned_files fs root visited)) \<le> lim_total_bytes limits)
    \<and> length (scan_artifacts_of scan) \<le> lim_artifact_files limits
    \<and> sorted (map ar_path (scan_artifacts_of scan))
    \<and> list_all (record_ok (scan_artifacts_of scan)) (scan_artifacts_of scan)"
proof -
  let ?start = "\<lparr>found_files = [], found_bytes = 0, entries_seen = 0, directories = []\<rparr>"
  have start: "discovery_ok limits ?start" by (simp add: discovery_ok_def)
  from assms(2) obtain ftype len d where
    meta: "fs_symlink_metadata fs root = Inr (ftype, len)" and
    run: "(if ftype = RegularFile then
              (if supported_extension root then add_file limits root (path_leaf root) len ?start else Inr ?start)
            else if ftype = DirectoryFile then discover_files fs root limits ?start
            else Inr ?start) = Inr d"
    and result: "scan = \<lparr>scan_schema_version = 1, scan_artifacts_of = map pa_record (match_artifacts
      (map (\<lambda>(path, relative). parse_artifact fs objects pdbs path relative) (sort_key snd (found_files d))))\<rparr>"
    unfolding scan_artifacts_with_limits_def Let_def by (auto simp: result_simps)
  have d: "discovery_ok limits d"
    using run start add_file_ok [OF start] discover_files_ok(1) [OF _ start] by (auto split: if_splits)
  let ?ps = "map (\<lambda>(path, relative). parse_artifact fs objects pdbs path relative) (sort_key snd (found_files d))"
  have scan: "scan_artifacts_of scan = map pa_record (match_artifacts ?ps)" by (simp add: result)
  have paths: "map ar_path (scan_artifacts_of scan) = map snd (sort_key snd (found_files d))"
    unfolding scan by (rule scanned_paths [OF assms(1)])
  from discovery_complete [OF meta run refl] obtain visited where
    "complete_walk fs root (root_directories fs root) visited"
    "list_all (\<lambda>v. snd v \<le> lim_depth limits \<and> is_ok (fs_read_dir fs (path_join root (fst v)))) visited"
    and adds: "discovery_adds limits ?start (sum_list (map (\<lambda>v. length (listed_entries fs root v)) visited))
      (scanned_files fs root visited) d" by blast
  moreover have "mset (map ar_path (scan_artifacts_of scan)) = mset (map (\<lambda>f. snd (fst f)) (scanned_files fs root visited))"
    using adds unfolding paths by (simp add: discovery_adds_def image_mset.compositionality comp_def)
  ultimately have "\<exists>visited. complete_walk fs root (root_directories fs root) visited
      \<and> list_all (\<lambda>v. snd v \<le> lim_depth limits \<and> is_ok (fs_read_dir fs (path_join root (fst v)))) visited
      \<and> sum_list (map (\<lambda>v. length (listed_entries fs root v)) visited) \<le> lim_entries limits
      \<and> mset (map ar_path (scan_artifacts_of scan)) = mset (map (\<lambda>f. snd (fst f)) (scanned_files fs root visited))
      \<and> list_all (\<lambda>f. snd f \<le> lim_artifact_bytes limits) (scanned_files fs root visited)
      \<and> sum_list (map snd (scanned_files fs root visited)) \<le> lim_total_bytes limits"
    using d by (intro exI [of _ visited]) (simp add: discovery_adds_def discovery_ok_def)
  moreover have "list_all (record_ok (scan_artifacts_of scan)) (scan_artifacts_of scan)"
    unfolding scan by (rule scanned_records_ok [OF assms(1)])
  moreover have "length (scan_artifacts_of scan) \<le> lim_artifact_files limits"
    using d by (simp add: scan match_artifacts_pointwise discovery_ok_def)
  ultimately show ?thesis by (simp add: paths)
qed

text \<open>A directory with one executable that cannot be opened, and libraries that read nothing.\<close>

definition tiny_fs :: "unit artifact_fs" where
  "tiny_fs = \<lparr>fs_symlink_metadata = \<lambda>_. Inr (DirectoryFile, 0),
     fs_read_dir = \<lambda>_. Inr [Inr \<lparr>entry_name = lit ''a.exe'', entry_type = Inr RegularFile, entry_len = Inr 3\<rparr>],
     fs_open = \<lambda>_. Inl (), fs_len = \<lambda>_. Some 3\<rparr>"

definition no_objects :: "unit object_library" where
  "no_objects = \<lparr>read_cache = \<lambda>_. \<lparr>ref_len = None, ref_read = \<lambda>_ _. None, ref_until = \<lambda>_ _ _. None\<rparr>,
     parse_file_kind = \<lambda>_. None, parse_pe_file = \<lambda>_ _. None, pe_architecture = \<lambda>_. OtherObjectArchitecture,
     pe_debug_directory = \<lambda>_. None, pe_time_date_stamp = \<lambda>_. 0, pe_size_of_image = \<lambda>_. 0,
     pe_object_kind = \<lambda>_. OtherObject\<rparr>"

definition no_pdbs :: "unit pdb_library" where
  "no_pdbs = \<lparr>pdb_open = \<lambda>_. None, pdb_information = \<lambda>_. None, pdb_machine_type = \<lambda>_. OtherMachine\<rparr>"

lemma tiny_scan: "is_ok (scan_artifacts_with_limits tiny_fs no_objects no_pdbs (lit ''d'') unlimited_scan)"
proof -
  have "supported_extension (lit ''a.exe'')" by code_simp
  then show ?thesis
    by (simp add: scan_artifacts_with_limits_def tiny_fs_def discover_files_def discover_loop.simps discover_entry_def
        path_join_def add_file_def unlimited_scan_def checked_add_def u64_max_def Let_def)
qed

theorem scan_artifacts_sound_witness:
  "\<exists>scan. scan_artifacts_with_limits tiny_fs no_objects no_pdbs (lit ''d'') unlimited_scan = Inr scan
     \<and> list_all (record_ok (scan_artifacts_of scan)) (scan_artifacts_of scan)"
proof -
  obtain scan where scan: "scan_artifacts_with_limits tiny_fs no_objects no_pdbs (lit ''d'') unlimited_scan = Inr scan"
    using tiny_scan by (auto simp: is_ok_iff)
  have "pdb_identities_ok no_pdbs" by (simp add: pdb_identities_ok_def no_pdbs_def)
  from scan_artifacts_sound [OF this scan] scan show ?thesis by blast
qed

end
