(* ===== verification/Symbolication.thy ===== *)
theory Symbolication
  imports Artifact_Scan Ordered_Map "HOL-Library.Product_Lexorder"
begin

section \<open>Symbolication (crates/symbols, symbolicate.rs)\<close>

text \<open>
  The symbolication of one minidump: the checks on the dump, the choice of the artifacts of each module,
  the preparation of the modules for the unwinder, and the bounded result built from the state the
  unwinder returns. The minidump crates are the parameter \<open>minidump_library\<close>; what the operating system
  decides in a run (a thread that does not start, a time-out) is the parameter \<open>worker_run\<close>. Paths are
  taken to be UTF-8, so \<^verbatim>\<open>path_text\<close> never fails.
\<close>

subsection \<open>Limits and errors\<close>

record symbolication_limits =
  lim_dump_bytes :: nat
  lim_scan_entries :: nat
  lim_scan_depth :: nat
  lim_scan_artifacts :: nat
  lim_scan_artifact_bytes :: nat
  lim_scan_total_bytes :: nat
  lim_threads :: nat
  lim_modules :: nat
  lim_frames_per_thread :: nat
  lim_wall_time_ms :: nat

definition default_symbolication_limits :: symbolication_limits where
  "default_symbolication_limits =
     \<lparr>lim_dump_bytes = 64 * 1024 * 1024, lim_scan_entries = 4096, lim_scan_depth = 64, lim_scan_artifacts = 512,
      lim_scan_artifact_bytes = 1024 * 1024 * 1024, lim_scan_total_bytes = 4 * 1024 * 1024 * 1024,
      lim_threads = 512, lim_modules = 4096, lim_frames_per_thread = 512, lim_wall_time_ms = 2 * 60 * 1000\<rparr>"

datatype 'e symbolication_error =
  ReadDump 'e | DumpTooLarge | InvalidDump | UnsupportedPlatform | UnsupportedDumpArchitecture
| TooManyThreads | TooManyModules | InvalidSymbolRoot | InvalidSymCache | SymCacheTooLarge
| SymCacheIdentityMismatch | ArtifactScanError "'e scan_error" | UnsafeArtifactPath | RuntimeFailed 'e
| ProcessingFailed | TimedOut | WorkerFailed

datatype symbolication_error_kind =
  ReadDumpKind | DumpTooLargeKind | InvalidDumpKind | UnsupportedPlatformKind | UnsupportedArchitectureKind
| TooManyThreadsKind | TooManyModulesKind | InvalidSymbolRootKind | InvalidSymCacheKind | SymCacheTooLargeKind
| SymCacheIdentityMismatchKind | ArtifactScanKind | UnsafeArtifactPathKind | RuntimeFailedKind
| ProcessingFailedKind | TimedOutKind | WorkerFailedKind

fun symbolication_error_kind_of :: "'e symbolication_error \<Rightarrow> symbolication_error_kind" where
  "symbolication_error_kind_of (ReadDump _) = ReadDumpKind"
| "symbolication_error_kind_of DumpTooLarge = DumpTooLargeKind"
| "symbolication_error_kind_of InvalidDump = InvalidDumpKind"
| "symbolication_error_kind_of UnsupportedPlatform = UnsupportedPlatformKind"
| "symbolication_error_kind_of UnsupportedDumpArchitecture = UnsupportedArchitectureKind"
| "symbolication_error_kind_of TooManyThreads = TooManyThreadsKind"
| "symbolication_error_kind_of TooManyModules = TooManyModulesKind"
| "symbolication_error_kind_of InvalidSymbolRoot = InvalidSymbolRootKind"
| "symbolication_error_kind_of InvalidSymCache = InvalidSymCacheKind"
| "symbolication_error_kind_of SymCacheTooLarge = SymCacheTooLargeKind"
| "symbolication_error_kind_of SymCacheIdentityMismatch = SymCacheIdentityMismatchKind"
| "symbolication_error_kind_of (ArtifactScanError _) = ArtifactScanKind"
| "symbolication_error_kind_of UnsafeArtifactPath = UnsafeArtifactPathKind"
| "symbolication_error_kind_of (RuntimeFailed _) = RuntimeFailedKind"
| "symbolication_error_kind_of ProcessingFailed = ProcessingFailedKind"
| "symbolication_error_kind_of TimedOut = TimedOutKind"
| "symbolication_error_kind_of WorkerFailed = WorkerFailedKind"

subsection \<open>Results\<close>

datatype module_symbol_status = ModuleMatched | ModuleMissingPe | ModuleMissingPdb | ModuleMismatched
  | ModuleMissingIdentity

record symbolicated_module =
  sm_module :: ustring
  sm_base_address :: ustring
  sm_size :: nat
  sm_code_id :: "ustring option"
  sm_debug_id :: "ustring option"
  sm_status :: module_symbol_status
  sm_pe :: "ustring option"
  sm_pdb :: "ustring option"
  sm_symcache_format :: "nat option"

datatype frame_symbol_status = FrameResolved | FrameUnresolved | FrameMissingPe | FrameMissingPdb
  | FrameMismatched | FrameMissingIdentity | FrameUnknownModule

record inline_symbol =
  in_function :: ustring
  in_source_file :: "ustring option"
  in_source_line :: "nat option"

record symbolicated_frame =
  sf_instruction :: ustring
  sf_module :: "ustring option"
  sf_module_relative :: "ustring option"
  sf_trust :: ustring
  sf_symbol_status :: frame_symbol_status
  sf_function :: "ustring option"
  sf_source_file :: "ustring option"
  sf_source_line :: "nat option"
  sf_inlines :: "inline_symbol list"

datatype thread_unwind_status = UnwindOk | MissingContext | MissingMemory | UnsupportedCpu | DumpThreadSkipped

record symbolicated_thread =
  st_thread_id :: nat
  st_faulting :: bool
  st_name :: "ustring option"
  st_unwind_status :: thread_unwind_status
  st_frames_truncated :: bool
  st_frames :: "symbolicated_frame list"

record symbolication_result =
  sr_schema_version :: nat
  sr_symbolicator_version :: ustring
  sr_minidump_version :: ustring
  sr_minidump_processor_version :: ustring
  sr_minidump_unwind_version :: ustring
  sr_platform :: ustring
  sr_architecture :: ustring
  sr_faulting_thread_id :: "nat option"
  sr_exception_reason :: "ustring option"
  sr_assertion :: "ustring option"
  sr_modules :: "symbolicated_module list"
  sr_threads :: "symbolicated_thread list"

record artifact_selection =
  sel_pe :: "artifact_record option"
  sel_pdb :: "artifact_record option"
  sel_status :: module_symbol_status

definition symbolication_schema_version :: nat where "symbolication_schema_version = 2"
definition minidump_version :: ustring where "minidump_version = lit ''0.27.0''"
definition minidump_processor_version :: ustring where "minidump_processor_version = lit ''0.27.0''"
definition minidump_unwind_version :: ustring where "minidump_unwind_version = lit ''0.27.0''"
definition max_exception_reason_chars :: nat where "max_exception_reason_chars = 512"
definition max_assertion_chars :: nat where "max_assertion_chars = 4096"

text \<open>\<^verbatim>\<open>CARGO_PKG_VERSION\<close>, the version of the workspace.\<close>

definition cargo_pkg_version :: ustring where "cargo_pkg_version = lit ''0.1.0''"

subsection \<open>The minidump crates\<close>

datatype dump_os = WindowsOs | OtherOs
datatype dump_cpu = X86_64Cpu | OtherCpu

text \<open>A module: its name and the file name of its CodeView record, the parts the code rewrites, and the
  rest of it.\<close>

datatype code_view = Pdb20 "byte list" | Pdb70 "byte list" | OtherCodeView

record 'raw dump_module =
  dm_name :: ustring
  dm_codeview :: "code_view option"
  dm_raw :: 'raw

datatype call_stack_info = StackOk | StackMissingContext | StackMissingMemory | StackUnsupportedCpu
  | StackDumpThreadSkipped

record inline_frame =
  if_function_name :: ustring
  if_source_file_name :: "ustring option"
  if_source_line :: "nat option"

record 'raw stack_frame =
  fr_instruction :: nat
  fr_module :: "'raw dump_module option"
  fr_trust :: ustring
  fr_function_name :: "ustring option"
  fr_source_file_name :: "ustring option"
  fr_source_line :: "nat option"
  fr_inlines :: "inline_frame list"

record 'raw process_thread =
  pt_thread_id :: nat
  pt_thread_name :: "ustring option"
  pt_info :: call_stack_info
  pt_frames :: "'raw stack_frame list"

record 'raw process_state =
  ps_requesting_thread :: "nat option"
  ps_threads :: "'raw process_thread list"
  ps_exception_reason :: "ustring option"
  ps_assertion :: "ustring option"

record ('dump, 'raw) minidump_library =
  md_read :: "byte list \<Rightarrow> 'dump option"
  md_system_info :: "'dump \<Rightarrow> (dump_os \<times> dump_cpu) option"
  md_thread_count :: "'dump \<Rightarrow> nat option"
  md_modules :: "'dump \<Rightarrow> 'raw dump_module list option"
  md_base_address :: "'raw dump_module \<Rightarrow> nat"
  md_size :: "'raw dump_module \<Rightarrow> nat"
  md_code_identifier :: "'raw dump_module \<Rightarrow> ustring option"
  md_debug_identifier :: "'raw dump_module \<Rightarrow> ustring option"
  md_process :: "'dump \<Rightarrow> 'raw dump_module list \<Rightarrow> 'raw process_state option"

subsection \<open>The system\<close>

text \<open>The file system of the scan with \<^verbatim>\<open>canonicalize\<close>, and the outcome of a worker: a thread or runtime
  that does not start, and what the receiver sees.\<close>

record 'e symbol_fs = "'e artifact_fs" +
  fs_canonicalize :: "ustring \<Rightarrow> ('e, ustring) result"
  fs_read_to_end :: "ustring \<Rightarrow> ('e, byte list) result"

datatype received = Received | RecvTimeout | RecvDisconnected

record 'e worker_run =
  run_spawn :: "('e, unit) result"
  run_runtime :: "('e, unit) result"
  run_receive :: received

text \<open>\<^verbatim>\<open>Path::components\<close> and \<^verbatim>\<open>Path::starts_with\<close>.\<close>

datatype path_component = RootDir | CurDir | ParentDir | Normal ustring

definition components_of :: "ustring \<Rightarrow> path_component list" where
  "components_of p =
     (let pieces = split_on (\<lambda>c. c = ch CHR ''/'') p
      in (if p \<noteq> [] \<and> hd p = ch CHR ''/'' then [RootDir] else if hd pieces = lit ''.'' then [CurDir] else [])
         @ map (\<lambda>c. if c = lit ''..'' then ParentDir else Normal c) (path_components p))"

definition is_normal :: "path_component \<Rightarrow> bool" where
  "is_normal c = (case c of Normal _ \<Rightarrow> True | _ \<Rightarrow> False)"

definition path_starts_with :: "ustring \<Rightarrow> ustring \<Rightarrow> bool" where
  "path_starts_with p base = prefix (components_of base) (components_of p)"

subsection \<open>Names, addresses and text\<close>

definition leaf_name :: "ustring \<Rightarrow> ustring" where
  "leaf_name path = unwrap_or (find (\<lambda>part. part \<noteq> []) (rsplit_on is_separator path)) (lit ''unknown'')"

definition format_address :: "nat \<Rightarrow> ustring" where
  "format_address address = lit ''0x'' @ pad_hex hex_upper 16 address"

definition format_relative_address :: "nat \<Rightarrow> ustring" where
  "format_relative_address address = lit ''0x'' @ to_hex hex_upper address"

definition parse_address :: "ustring \<Rightarrow> nat option" where
  "parse_address address = Option.bind (strip_prefix address (lit ''0x'')) parse_hex_u64"

definition bounded_text :: "ustring \<Rightarrow> nat \<Rightarrow> ustring option" where
  "bounded_text value maximum =
     (let kept = take maximum (filter (\<lambda>c. \<not> is_control c \<or> c \<in> {10, 13, 9}) value)
      in if trim kept \<noteq> [] then Some kept else None)"

subsection \<open>Artifacts of a module\<close>

definition exact_pe :: "ustring \<Rightarrow> ustring option \<Rightarrow> artifact_record \<Rightarrow> bool" where
  "exact_pe expected_code debug_id a \<longleftrightarrow>
     is_pe (ar_type a) \<and> ar_error a = None \<and> ar_architecture a = Some X86_64
     \<and> ar_code_id a = Some expected_code \<and> is_none_or debug_id (\<lambda>expected. ar_debug_id a = Some expected)"

definition usable_pdb :: "ustring \<Rightarrow> artifact_record \<Rightarrow> bool" where
  "usable_pdb path a \<longleftrightarrow>
     ar_path a = path \<and> ar_type a = PdbFile \<and> ar_error a = None \<and> ar_architecture a = Some X86_64"

definition choose_artifacts ::
  "ustring \<Rightarrow> ustring option \<Rightarrow> ustring option \<Rightarrow> artifact_record list \<Rightarrow> artifact_selection" where
  "choose_artifacts module_name code_id debug_id artifacts =
     (case Option.bind code_id (\<lambda>expected_code. find (exact_pe expected_code debug_id) artifacts) of
        Some pe \<Rightarrow>
          if debug_id = None then \<lparr>sel_pe = Some pe, sel_pdb = None, sel_status = ModuleMissingIdentity\<rparr>
          else
            let pdb = find_map (\<lambda>path. find (usable_pdb path) artifacts) (ar_matches pe)
            in \<lparr>sel_pe = Some pe, sel_pdb = pdb,
                sel_status = (if pdb \<noteq> None then ModuleMatched else ModuleMissingPdb)\<rparr>
      | None \<Rightarrow>
          if code_id = None then \<lparr>sel_pe = None, sel_pdb = None, sel_status = ModuleMissingIdentity\<rparr>
          else
            let has_related_pe = list_ex (\<lambda>a. is_pe (ar_type a) \<and> ar_error a = None
                  \<and> (eq_ignore_ascii_case (ar_module a) module_name \<or> ar_code_id a = code_id
                     \<or> debug_id \<noteq> None \<and> ar_debug_id a = debug_id)) artifacts
            in \<lparr>sel_pe = None, sel_pdb = None,
                sel_status = (if has_related_pe then ModuleMismatched else ModuleMissingPe)\<rparr>)"

definition resolve_artifact ::
  "('e, 'x) symbol_fs_scheme \<Rightarrow> ustring \<Rightarrow> ustring \<Rightarrow> ('e symbolication_error, ustring) result" where
  "resolve_artifact fs root relative =
     (if list_ex (\<lambda>c. \<not> is_normal c) (components_of relative) then Inl UnsafeArtifactPath
      else
        let candidate = path_join root relative in
        bindR (map_err (\<lambda>_. UnsafeArtifactPath) (fs_symlink_metadata fs candidate)) (\<lambda>(ftype, _).
        if ftype \<noteq> RegularFile then Inl UnsafeArtifactPath
        else
          bindR (map_err (\<lambda>_. UnsafeArtifactPath) (fs_canonicalize fs candidate)) (\<lambda>canonical.
          if \<not> path_starts_with canonical root then Inl UnsafeArtifactPath else Inr canonical)))"

definition rewrite_debug_path :: "'raw dump_module \<Rightarrow> ustring \<Rightarrow> 'raw dump_module" where
  "rewrite_debug_path m path =
     (let bytes = utf8 path @ [0]
      in m\<lparr>dm_codeview := (case dm_codeview m of
             Some (Pdb20 _) \<Rightarrow> Some (Pdb20 bytes)
           | Some (Pdb70 _) \<Rightarrow> Some (Pdb70 bytes)
           | other \<Rightarrow> other)\<rparr>)"

text \<open>\<^verbatim>\<open>option.map(f).transpose()?\<close>\<close>

definition transpose_map :: "('a \<Rightarrow> ('e, 'b) result) \<Rightarrow> 'a option \<Rightarrow> ('e, 'b option) result" where
  "transpose_map f v = (case v of None \<Rightarrow> Inr None | Some a \<Rightarrow> bindR (f a) (\<lambda>b. Inr (Some b)))"

text \<open>The body of the loop of \<^verbatim>\<open>prepare_modules\<close>.\<close>

definition prepare_module ::
  "('e, 'x) symbol_fs_scheme \<Rightarrow> ('dump, 'raw) minidump_library \<Rightarrow> artifact_scan \<Rightarrow> ustring \<Rightarrow> 'raw dump_module
   \<Rightarrow> ('e symbolication_error, 'raw dump_module \<times> symbolicated_module) result" where
  "prepare_module fs lib scan root m =
     (let module_name = leaf_name (dm_name m);
          code_id = map_option to_ascii_uppercase (md_code_identifier lib m);
          debug_id = map_option to_ascii_uppercase (md_debug_identifier lib m);
          selection = choose_artifacts module_name code_id debug_id (scan_artifacts_of scan)
      in bindR (transpose_map (\<lambda>a. resolve_artifact fs root (ar_path a)) (sel_pe selection)) (\<lambda>pe.
         bindR (transpose_map (\<lambda>a. resolve_artifact fs root (ar_path a)) (sel_pdb selection)) (\<lambda>pdb.
         Inr (rewrite_debug_path (m\<lparr>dm_name := unwrap_or pe root\<rparr>) (unwrap_or pdb root),
              \<lparr>sm_module = module_name, sm_base_address = format_address (md_base_address lib m),
               sm_size = md_size lib m, sm_code_id = code_id, sm_debug_id = debug_id,
               sm_status = sel_status selection, sm_pe = map_option ar_path (sel_pe selection),
               sm_pdb = map_option ar_path (sel_pdb selection), sm_symcache_format = None\<rparr>))))"

definition prepare_modules ::
  "('e, 'x) symbol_fs_scheme \<Rightarrow> ('dump, 'raw) minidump_library \<Rightarrow> 'raw dump_module list \<Rightarrow> artifact_scan \<Rightarrow> ustring
   \<Rightarrow> ('e symbolication_error, 'raw dump_module list \<times> symbolicated_module list) result" where
  "prepare_modules fs lib modules scan root =
     bindR (traverse (prepare_module fs lib scan root) modules) (\<lambda>prepared.
     Inr (map fst prepared, sort_key (\<lambda>d. (sm_base_address d, sm_module d)) (map snd prepared)))"

subsection \<open>The result\<close>

definition frame_status :: "module_symbol_status \<Rightarrow> frame_symbol_status" where
  "frame_status s =
     (case s of ModuleMatched \<Rightarrow> FrameUnresolved | ModuleMissingPdb \<Rightarrow> FrameMissingPdb
      | ModuleMissingPe \<Rightarrow> FrameMissingPe | ModuleMismatched \<Rightarrow> FrameMismatched
      | ModuleMissingIdentity \<Rightarrow> FrameMissingIdentity)"

definition thread_status :: "call_stack_info \<Rightarrow> thread_unwind_status" where
  "thread_status s =
     (case s of StackOk \<Rightarrow> UnwindOk | StackMissingContext \<Rightarrow> MissingContext
      | StackMissingMemory \<Rightarrow> MissingMemory | StackUnsupportedCpu \<Rightarrow> UnsupportedCpu
      | StackDumpThreadSkipped \<Rightarrow> DumpThreadSkipped)"

definition map_frame ::
  "('dump, 'raw) minidump_library \<Rightarrow> 'raw stack_frame \<Rightarrow> (nat, module_symbol_status) ordered_map
   \<Rightarrow> symbolicated_frame" where
  "map_frame lib frame module_status =
     (let base = map_option (md_base_address lib) (fr_module frame);
          status = (if fr_function_name frame \<noteq> None then FrameResolved
                    else case Option.bind base (om_get module_status) of
                           None \<Rightarrow> FrameUnknownModule | Some s \<Rightarrow> frame_status s)
      in \<lparr>sf_instruction = format_address (fr_instruction frame),
          sf_module = map_option (\<lambda>m. leaf_name (dm_name m)) (fr_module frame),
          sf_module_relative = map_option format_relative_address
            (Option.bind base (checked_sub (fr_instruction frame))),
          sf_trust = fr_trust frame, sf_symbol_status = status, sf_function = fr_function_name frame,
          sf_source_file = fr_source_file_name frame, sf_source_line = fr_source_line frame,
          sf_inlines = map (\<lambda>i. \<lparr>in_function = if_function_name i, in_source_file = if_source_file_name i,
            in_source_line = if_source_line i\<rparr>) (fr_inlines frame)\<rparr>)"

definition faulting_index :: "'raw process_state \<Rightarrow> nat option" where
  "faulting_index state = filter_option (\<lambda>i. i < length (ps_threads state)) (ps_requesting_thread state)"

text \<open>The threads with their indices, the faulting one first, then by thread id and index.\<close>

definition indexed_threads :: "'raw process_state \<Rightarrow> (nat \<times> 'raw process_thread) list" where
  "indexed_threads state =
     sort_key (\<lambda>(i, t). (of_bool (Some i \<noteq> faulting_index state) :: nat, pt_thread_id t, i))
       (enumerate 0 (ps_threads state))"

definition module_statuses :: "symbolicated_module list \<Rightarrow> (nat, module_symbol_status) ordered_map" where
  "module_statuses modules =
     om_of_list (List.map_filter (\<lambda>m. map_option (\<lambda>base. (base, sm_status m)) (parse_address (sm_base_address m))) modules)"

definition result_thread ::
  "('dump, 'raw) minidump_library \<Rightarrow> symbolication_limits \<Rightarrow> nat option \<Rightarrow> (nat, module_symbol_status) ordered_map
   \<Rightarrow> nat \<times> 'raw process_thread \<Rightarrow> symbolicated_thread" where
  "result_thread lib limits faulting module_status = (\<lambda>(i, t).
     \<lparr>st_thread_id = pt_thread_id t, st_faulting = (Some i = faulting), st_name = pt_thread_name t,
      st_unwind_status = thread_status (pt_info t),
      st_frames_truncated = (length (pt_frames t) > lim_frames_per_thread limits),
      st_frames = map (\<lambda>f. map_frame lib f module_status) (take (lim_frames_per_thread limits) (pt_frames t))\<rparr>)"

definition build_result ::
  "('dump, 'raw) minidump_library \<Rightarrow> 'raw process_state \<Rightarrow> symbolicated_module list \<Rightarrow> symbolication_limits
   \<Rightarrow> symbolication_result" where
  "build_result lib state modules limits =
     (let faulting = faulting_index state
      in \<lparr>sr_schema_version = symbolication_schema_version, sr_symbolicator_version = cargo_pkg_version,
          sr_minidump_version = minidump_version, sr_minidump_processor_version = minidump_processor_version,
          sr_minidump_unwind_version = minidump_unwind_version, sr_platform = lit ''windows'',
          sr_architecture = lit ''x86_64'',
          sr_faulting_thread_id = map_option (\<lambda>i. pt_thread_id (ps_threads state ! i)) faulting,
          sr_exception_reason =
            Option.bind (ps_exception_reason state) (\<lambda>v. bounded_text v max_exception_reason_chars),
          sr_assertion = Option.bind (ps_assertion state) (\<lambda>v. bounded_text v max_assertion_chars),
          sr_modules = modules,
          sr_threads = map (result_thread lib limits faulting (module_statuses modules))
            (take (lim_threads limits) (indexed_threads state))\<rparr>)"

subsection \<open>Symbolicating a dump\<close>

definition read_dump :: "'e symbol_fs \<Rightarrow> ustring \<Rightarrow> nat \<Rightarrow> ('e symbolication_error, byte list) result" where
  "read_dump fs path limit =
     bindR (map_err ReadDump (fs_read_to_end fs path)) (\<lambda>contents.
     let bytes = take (saturating_add limit 1) contents
     in if length bytes > limit then Inl DumpTooLarge else Inr bytes)"

definition scan_limits_of :: "symbolication_limits \<Rightarrow> artifact_scan_limits" where
  "scan_limits_of limits =
     \<lparr>lim_entries = lim_scan_entries limits, lim_depth = lim_scan_depth limits,
      lim_artifact_files = lim_scan_artifacts limits, lim_artifact_bytes = lim_scan_artifact_bytes limits,
      lim_total_bytes = lim_scan_total_bytes limits\<rparr>"

definition scan_symbol_root ::
  "'e symbol_fs \<Rightarrow> 'p object_library \<Rightarrow> 'b pdb_library \<Rightarrow> ustring \<Rightarrow> symbolication_limits
   \<Rightarrow> ('e symbolication_error, ustring \<times> artifact_scan) result" where
  "scan_symbol_root fs objects pdbs root limits =
     bindR (map_err (\<lambda>_. InvalidSymbolRoot) (fs_symlink_metadata fs root)) (\<lambda>(ftype, _).
     if ftype \<noteq> DirectoryFile then Inl InvalidSymbolRoot
     else
       bindR (map_err (\<lambda>_. InvalidSymbolRoot) (fs_canonicalize fs root)) (\<lambda>canonical.
       bindR (map_err ArtifactScanError
                (scan_artifacts_with_limits (artifact_fs.truncate fs) objects pdbs canonical (scan_limits_of limits)))
         (\<lambda>scan. Inr (canonical, scan))))"

definition symbolicate_bytes_inner ::
  "'e symbol_fs \<Rightarrow> 'p object_library \<Rightarrow> 'b pdb_library \<Rightarrow> ('dump, 'raw) minidump_library \<Rightarrow> 'e worker_run
   \<Rightarrow> byte list \<Rightarrow> ustring \<Rightarrow> symbolication_limits \<Rightarrow> ('e symbolication_error, symbolication_result) result" where
  "symbolicate_bytes_inner fs objects pdbs lib run bytes symbol_root limits =
     bindR (ok_or (md_read lib bytes) InvalidDump) (\<lambda>dump.
     bindR (ok_or (md_system_info lib dump) InvalidDump) (\<lambda>(os, cpu).
     if os \<noteq> WindowsOs then Inl UnsupportedPlatform
     else if cpu \<noteq> X86_64Cpu then Inl UnsupportedDumpArchitecture
     else
       bindR (ok_or (md_thread_count lib dump) InvalidDump) (\<lambda>threads.
       if threads > lim_threads limits then Inl TooManyThreads
       else
         bindR (ok_or (md_modules lib dump) InvalidDump) (\<lambda>original_modules.
         if length original_modules > lim_modules limits then Inl TooManyModules
         else
           bindR (scan_symbol_root fs objects pdbs symbol_root limits) (\<lambda>(canonical_root, scan).
           bindR (prepare_modules fs lib original_modules scan canonical_root) (\<lambda>(modules, diagnostics).
           bindR (map_err RuntimeFailed (run_runtime run)) (\<lambda>_.
           bindR (ok_or (md_process lib dump modules) ProcessingFailed) (\<lambda>state.
           Inr (build_result lib state diagnostics limits)))))))))"

definition run_symbolicator ::
  "'e worker_run \<Rightarrow> symbolication_limits \<Rightarrow> ('e symbolication_error, symbolication_result) result
   \<Rightarrow> ('e symbolication_error, symbolication_result) result" where
  "run_symbolicator run limits operation =
     (if lim_wall_time_ms limits = 0 then Inl TimedOut
      else
        bindR (map_err RuntimeFailed (run_spawn run)) (\<lambda>_.
        case run_receive run of
          Received \<Rightarrow> operation
        | RecvTimeout \<Rightarrow> Inl TimedOut
        | RecvDisconnected \<Rightarrow> Inl WorkerFailed))"

definition symbolicate_minidump_bytes ::
  "'e symbol_fs \<Rightarrow> 'p object_library \<Rightarrow> 'b pdb_library \<Rightarrow> ('dump, 'raw) minidump_library \<Rightarrow> 'e worker_run
   \<Rightarrow> byte list \<Rightarrow> ustring \<Rightarrow> symbolication_limits \<Rightarrow> ('e symbolication_error, symbolication_result) result" where
  "symbolicate_minidump_bytes fs objects pdbs lib run dump symbol_root limits =
     (if length dump > lim_dump_bytes limits then Inl DumpTooLarge
      else run_symbolicator run limits
             (symbolicate_bytes_inner fs objects pdbs lib run dump symbol_root limits))"

definition symbolicate_inner ::
  "'e symbol_fs \<Rightarrow> 'p object_library \<Rightarrow> 'b pdb_library \<Rightarrow> ('dump, 'raw) minidump_library \<Rightarrow> 'e worker_run
   \<Rightarrow> ustring \<Rightarrow> ustring \<Rightarrow> symbolication_limits \<Rightarrow> ('e symbolication_error, symbolication_result) result" where
  "symbolicate_inner fs objects pdbs lib run dump_path symbol_root limits =
     bindR (read_dump fs dump_path (lim_dump_bytes limits)) (\<lambda>bytes.
     symbolicate_bytes_inner fs objects pdbs lib run bytes symbol_root limits)"

definition symbolicate_minidump ::
  "'e symbol_fs \<Rightarrow> 'p object_library \<Rightarrow> 'b pdb_library \<Rightarrow> ('dump, 'raw) minidump_library \<Rightarrow> 'e worker_run
   \<Rightarrow> ustring \<Rightarrow> ustring \<Rightarrow> symbolication_limits \<Rightarrow> ('e symbolication_error, symbolication_result) result" where
  "symbolicate_minidump fs objects pdbs lib run dump_path symbol_root limits =
     run_symbolicator run limits
       (symbolicate_inner fs objects pdbs lib run dump_path symbol_root limits)"

subsection \<open>Addresses and text\<close>

lemma parse_format_address: "a \<le> u64_max \<Longrightarrow> parse_address (format_address a) = Some a"
  by (simp add: parse_address_def format_address_def strip_prefix_def parse_hex_pad)

lemma parse_format_relative_address: "a \<le> u64_max \<Longrightarrow> parse_address (format_relative_address a) = Some a"
  by (simp add: parse_address_def format_relative_address_def strip_prefix_def parse_hex_to_hex)

lemma bounded_text_Some:
  "bounded_text value n = Some t \<Longrightarrow>
     length t \<le> n \<and> trim t \<noteq> [] \<and> (\<forall>c \<in> set t. \<not> is_control c \<or> c \<in> {10, 13, 9}) \<and> set t \<subseteq> set value"
  by (auto simp: bounded_text_def Let_def split: if_splits dest!: in_set_takeD)

subsection \<open>The choice of artifacts\<close>

lemma find_Some_mem: "find p xs = Some x \<Longrightarrow> x \<in> set xs \<and> p x"
  by (induction xs) (auto split: if_splits)

definition exact_artifacts :: "ustring option \<Rightarrow> ustring option \<Rightarrow> artifact_record list \<Rightarrow> artifact_record list" where
  "exact_artifacts code_id debug_id artifacts =
     filter (\<lambda>a. is_pe (ar_type a) \<and> ar_error a = None \<and> ar_architecture a = Some X86_64
       \<and> code_id \<noteq> None \<and> ar_code_id a = code_id \<and> (debug_id = None \<or> ar_debug_id a = debug_id)) artifacts"

lemma find_filter: "find p xs = (case filter p xs of [] \<Rightarrow> None | x # _ \<Rightarrow> Some x)"
  by (induction xs) auto

lemma exact_pe_found:
  "Option.bind code_id (\<lambda>c. find (exact_pe c debug_id) artifacts)
     = (case exact_artifacts code_id debug_id artifacts of [] \<Rightarrow> None | a # _ \<Rightarrow> Some a)"
proof (cases code_id)
  case (Some c)
  have "exact_pe c debug_id = (\<lambda>a. is_pe (ar_type a) \<and> ar_error a = None \<and> ar_architecture a = Some X86_64
      \<and> code_id \<noteq> None \<and> ar_code_id a = code_id \<and> (debug_id = None \<or> ar_debug_id a = debug_id))"
    by (rule ext, cases debug_id) (auto simp: exact_pe_def Some)
  then show ?thesis by (simp add: Some find_filter exact_artifacts_def)
qed (simp add: exact_artifacts_def)

lemma choose_artifacts_cases:
  fixes name :: ustring and code_id debug_id :: "ustring option" and artifacts :: "artifact_record list"
  defines "s \<equiv> choose_artifacts name code_id debug_id artifacts"
  shows "sel_pe s = (case exact_artifacts code_id debug_id artifacts of [] \<Rightarrow> None | a # _ \<Rightarrow> Some a)"
    and "sel_pdb s = (if debug_id = None then None
      else Option.bind (sel_pe s) (\<lambda>pe. find_map (\<lambda>path. find (usable_pdb path) artifacts) (ar_matches pe)))"
    and "sel_status s = ModuleMatched \<longleftrightarrow> sel_pdb s \<noteq> None"
    and "sel_status s = ModuleMissingPdb \<longleftrightarrow> sel_pe s \<noteq> None \<and> debug_id \<noteq> None \<and> sel_pdb s = None"
    and "sel_status s = ModuleMissingIdentity \<longleftrightarrow> code_id = None \<or> sel_pe s \<noteq> None \<and> debug_id = None"
  unfolding s_def choose_artifacts_def exact_pe_found Let_def
  by (cases code_id; cases "exact_artifacts code_id debug_id artifacts"; auto simp: exact_artifacts_def)+

lemma chosen_artifacts:
  assumes "s = choose_artifacts name code_id debug_id artifacts"
  shows "sel_pe s = Some pe \<Longrightarrow> pe \<in> set artifacts \<and> is_pe (ar_type pe) \<and> ar_error pe = None
      \<and> ar_architecture pe = Some X86_64 \<and> code_id \<noteq> None \<and> ar_code_id pe = code_id
      \<and> (debug_id \<noteq> None \<longrightarrow> ar_debug_id pe = debug_id)"
    and "sel_pdb s = Some pdb \<Longrightarrow> pdb \<in> set artifacts \<and> ar_type pdb = PdbFile \<and> ar_error pdb = None
      \<and> ar_architecture pdb = Some X86_64 \<and> debug_id \<noteq> None \<and> (\<exists>pe. sel_pe s = Some pe \<and> ar_path pdb \<in> set (ar_matches pe))"
proof -
  note c = choose_artifacts_cases [where name = name and code_id = code_id and debug_id = debug_id and artifacts = artifacts,
      folded assms]
  { assume "sel_pe s = Some pe"
    then have "pe \<in> set (exact_artifacts code_id debug_id artifacts)"
      using c(1) by (auto split: list.splits)
    then show "pe \<in> set artifacts \<and> is_pe (ar_type pe) \<and> ar_error pe = None
      \<and> ar_architecture pe = Some X86_64 \<and> code_id \<noteq> None \<and> ar_code_id pe = code_id
      \<and> (debug_id \<noteq> None \<longrightarrow> ar_debug_id pe = debug_id)" by (auto simp: exact_artifacts_def) }
  assume "sel_pdb s = Some pdb"
  then have "debug_id \<noteq> None" and "Option.bind (sel_pe s)
      (\<lambda>pe. find_map (\<lambda>path. find (usable_pdb path) artifacts) (ar_matches pe)) = Some pdb"
    unfolding c(2) by (simp_all split: if_splits)
  then obtain pe path where "sel_pe s = Some pe" "path \<in> set (ar_matches pe)" "find (usable_pdb path) artifacts = Some pdb"
    by (auto simp: bind_eq_Some_conv dest!: find_map_Some)
  with find_Some_mem [of "usable_pdb path" artifacts pdb] \<open>debug_id \<noteq> None\<close> show "pdb \<in> set artifacts \<and> ar_type pdb = PdbFile \<and> ar_error pdb = None
      \<and> ar_architecture pdb = Some X86_64 \<and> debug_id \<noteq> None \<and> (\<exists>pe. sel_pe s = Some pe \<and> ar_path pdb \<in> set (ar_matches pe))"
    by (auto simp: usable_pdb_def)
qed

subsection \<open>Prepared modules\<close>

lemma resolve_artifact_inside: "resolve_artifact fs root relative = Inr p \<Longrightarrow> path_starts_with p root"
  by (auto simp: resolve_artifact_def result_simps Let_def split: if_splits)

lemma transpose_map_Inr [result_simps]:
  "transpose_map f v = Inr w \<longleftrightarrow> (case v of None \<Rightarrow> w = None | Some a \<Rightarrow> \<exists>b. f a = Inr b \<and> w = Some b)"
  by (auto simp: transpose_map_def result_simps split: option.splits)

lemma path_starts_with_refl [simp]: "path_starts_with p p"
  by (simp add: path_starts_with_def)

definition debug_path_inside :: "ustring \<Rightarrow> 'raw dump_module \<Rightarrow> bool" where
  "debug_path_inside root m \<longleftrightarrow>
     (case dm_codeview m of
        Some (Pdb20 bytes) \<Rightarrow> \<exists>p. path_starts_with p root \<and> bytes = utf8 p @ [0]
      | Some (Pdb70 bytes) \<Rightarrow> \<exists>p. path_starts_with p root \<and> bytes = utf8 p @ [0]
      | _ \<Rightarrow> True)"

lemma prepare_module_ok:
  assumes "prepare_module fs lib scan root m = Inr (m', d)"
  shows "path_starts_with (dm_name m') root" and "debug_path_inside root m'" and "dm_raw m' = dm_raw m"
    and "sm_base_address d = format_address (md_base_address lib m)" and "sm_module d = leaf_name (dm_name m)"
    and "sm_status d = ModuleMatched \<longleftrightarrow> sm_pdb d \<noteq> None" and "sm_pdb d \<noteq> None \<Longrightarrow> sm_pe d \<noteq> None"
    and "sm_symcache_format d = None"
proof -
  let ?s = "choose_artifacts (leaf_name (dm_name m)) (map_option to_ascii_uppercase (md_code_identifier lib m))
    (map_option to_ascii_uppercase (md_debug_identifier lib m)) (scan_artifacts_of scan)"
  obtain pe pdb where pe: "transpose_map (\<lambda>a. resolve_artifact fs root (ar_path a)) (sel_pe ?s) = Inr pe"
    and pdb: "transpose_map (\<lambda>a. resolve_artifact fs root (ar_path a)) (sel_pdb ?s) = Inr pdb"
    and m': "m' = rewrite_debug_path (m\<lparr>dm_name := unwrap_or pe root\<rparr>) (unwrap_or pdb root)"
    and d: "d = \<lparr>sm_module = leaf_name (dm_name m), sm_base_address = format_address (md_base_address lib m),
               sm_size = md_size lib m, sm_code_id = map_option to_ascii_uppercase (md_code_identifier lib m),
               sm_debug_id = map_option to_ascii_uppercase (md_debug_identifier lib m),
               sm_status = sel_status ?s, sm_pe = map_option ar_path (sel_pe ?s),
               sm_pdb = map_option ar_path (sel_pdb ?s), sm_symcache_format = None\<rparr>"
    using assms unfolding prepare_module_def Let_def by (auto simp only: bindR_eq_Inr Inr_inject prod.inject)
  have inside: "path_starts_with (unwrap_or v root) root"
    if "transpose_map (\<lambda>a. resolve_artifact fs root (ar_path a)) (w :: artifact_record option) = Inr v" for v w
    using that by (auto simp: transpose_map_Inr resolve_artifact_inside split: option.splits)
  show "path_starts_with (dm_name m') root" using inside [OF pe] by (simp add: m' rewrite_debug_path_def Let_def)
  show "debug_path_inside root m'" using inside [OF pdb]
    by (auto simp: m' rewrite_debug_path_def Let_def debug_path_inside_def split: option.splits code_view.splits)
  show "dm_raw m' = dm_raw m" by (simp add: m' rewrite_debug_path_def Let_def)
  show "sm_base_address d = format_address (md_base_address lib m)" "sm_module d = leaf_name (dm_name m)"
    "sm_symcache_format d = None" by (simp_all add: d)
  show "sm_status d = ModuleMatched \<longleftrightarrow> sm_pdb d \<noteq> None" by (simp add: d choose_artifacts_cases(3))
  show "sm_pdb d \<noteq> None \<Longrightarrow> sm_pe d \<noteq> None" 
    using chosen_artifacts(2) [where s = ?s, OF refl] by (fastforce simp: d)
qed

lemma prepare_modules_ok:
  assumes "prepare_modules fs lib modules scan root = Inr (rewritten, diagnostics)"
  obtains ds where "list_all2 (\<lambda>m (m', d). prepare_module fs lib scan root m = Inr (m', d)) modules (zip rewritten ds)"
    and "length rewritten = length modules" and "length ds = length modules"
    and "diagnostics = sort_key (\<lambda>d. (sm_base_address d, sm_module d)) ds"
proof -
  from assms obtain prepared where p: "list_all2 (\<lambda>m q. prepare_module fs lib scan root m = Inr q) modules prepared"
    and eq: "rewritten = map fst prepared" "diagnostics = sort_key (\<lambda>d. (sm_base_address d, sm_module d)) (map snd prepared)"
    by (auto simp: prepare_modules_def result_simps)
  have "zip rewritten (map snd prepared) = prepared" unfolding eq(1) by (rule zip_map_fst_snd)
  with p have "list_all2 (\<lambda>m (m', d). prepare_module fs lib scan root m = Inr (m', d)) modules (zip rewritten (map snd prepared))"
    by (auto elim!: list_all2_mono)
  moreover have "length prepared = length modules" using p by (simp add: list_all2_lengthD)
  ultimately show thesis using that [of "map snd prepared"] eq by simp
qed

lemma prepared_nth:
  assumes "list_all2 (\<lambda>m (m', d). prepare_module fs lib scan root m = Inr (m', d)) modules (zip rewritten ds)"
    and "length rewritten = length modules" "length ds = length modules" and "i < length modules"
  shows "prepare_module fs lib scan root (modules ! i) = Inr (rewritten ! i, ds ! i)"
  using list_all2_nthD [OF assms(1,4)] assms by simp

subsection \<open>Threads of a result\<close>

lemma indexed_threads_facts:
  "mset (indexed_threads state) = mset (enumerate 0 (ps_threads state))"
  "distinct (map fst (indexed_threads state))"
  "sorted (map (\<lambda>(i, t). (of_bool (Some i \<noteq> faulting_index state) :: nat, pt_thread_id t, i)) (indexed_threads state))"
proof -
  show m: "mset (indexed_threads state) = mset (enumerate 0 (ps_threads state))"
    by (simp add: indexed_threads_def)
  from arg_cong [OF m, of "image_mset fst"] have "mset (map fst (indexed_threads state)) = mset (map fst (enumerate 0 (ps_threads state)))"
    by (simp only: mset_map)
  then show "distinct (map fst (indexed_threads state))" by (rule mset_eq_imp_distinct_iff [THEN iffD2]) (simp add: map_fst_enumerate)
  show "sorted (map (\<lambda>(i, t). (of_bool (Some i \<noteq> faulting_index state) :: nat, pt_thread_id t, i)) (indexed_threads state))"
    unfolding indexed_threads_def by (rule sorted_sort_key)
qed

lemma length_indexed_threads [simp]: "length (indexed_threads state) = length (ps_threads state)"
  by (simp add: indexed_threads_def)

lemma indexed_thread_nth: "(i, t) \<in> set (indexed_threads state) \<longleftrightarrow> i < length (ps_threads state) \<and> t = ps_threads state ! i"
proof -
  have "set (indexed_threads state) = set (enumerate 0 (ps_threads state))"
    by (simp add: indexed_threads_def)
  then show ?thesis by (auto simp: in_set_enumerate_eq)
qed

lemma sorted_prod_snd:
  "sorted (map (\<lambda>x. (c, f x)) xs) \<Longrightarrow> sorted (map f xs)"
  by (induction xs) auto

lemma sorted_thread_ids:
  assumes "sorted (map (\<lambda>(i, t). (of_bool (Some i \<noteq> f) :: nat, pt_thread_id t, i)) xs)"
    and "\<forall>(i, t) \<in> set xs. Some i \<noteq> f"
  shows "sorted (map (\<lambda>(i, t). pt_thread_id t) xs)"
  using assms by (induction xs) (fastforce simp: less_eq_prod_simp)+

text \<open>The faulting thread comes first.\<close>

lemma indexed_threads_faulting:
  assumes "faulting_index state = Some k"
  obtains rest where "indexed_threads state = (k, ps_threads state ! k) # rest"
    and "\<forall>(i, t) \<in> set rest. i \<noteq> k"
proof -
  note facts = indexed_threads_facts [of state]
  have k: "k < length (ps_threads state)" using assms by (auto simp: faulting_index_def result_simps)
  then have mem: "(k, ps_threads state ! k) \<in> set (indexed_threads state)" by (simp add: indexed_thread_nth)
  then obtain i t rest where xs: "indexed_threads state = (i, t) # rest" by (cases "indexed_threads state") auto
  have i: "i = k"
  proof (rule ccontr)
    assume ne: "i \<noteq> k"
    with mem xs have "(k, ps_threads state ! k) \<in> set rest" by simp
    moreover have "\<forall>y \<in> set rest. (\<lambda>(i, t). (of_bool (Some i \<noteq> faulting_index state) :: nat, pt_thread_id t, i)) (i, t)
        \<le> (\<lambda>(i, t). (of_bool (Some i \<noteq> faulting_index state), pt_thread_id t, i)) y"
      using facts(3) unfolding xs list.map sorted_simps(2) set_map by blast
    ultimately have "(\<lambda>(i, t). (of_bool (Some i \<noteq> faulting_index state) :: nat, pt_thread_id t, i)) (i, t)
        \<le> (\<lambda>(i, t). (of_bool (Some i \<noteq> faulting_index state), pt_thread_id t, i)) (k, ps_threads state ! k)"
      by blast
    with ne assms show False by simp
  qed
  have "t = ps_threads state ! k" using xs i indexed_thread_nth [of i t state] by simp
  moreover have "\<forall>(j, u) \<in> set rest. j \<noteq> k" using facts(2) xs i by force
  ultimately show thesis using that xs i by simp
qed

lemma result_thread_simps [simp]:
  "st_thread_id (result_thread lib limits f ms (i, t)) = pt_thread_id t"
  "st_faulting (result_thread lib limits f ms (i, t)) = (Some i = f)"
  by (simp_all add: result_thread_def)

lemma result_threads_no_fault:
  assumes "sorted (map (\<lambda>(i, t). (of_bool (Some i \<noteq> f) :: nat, pt_thread_id t, i)) xs)"
    and "\<forall>(i, t) \<in> set xs. Some i \<noteq> f"
  shows "list_all (\<lambda>u. \<not> st_faulting u) (map (result_thread lib limits f ms) (take n xs))"
    and "sorted (map st_thread_id (map (result_thread lib limits f ms) (take n xs)))"
proof -
  show "list_all (\<lambda>u. \<not> st_faulting u) (map (result_thread lib limits f ms) (take n xs))"
    using assms(2) by (auto simp: list_all_iff dest!: in_set_takeD)
  have "map st_thread_id (map (result_thread lib limits f ms) (take n xs)) = take n (map (\<lambda>(i, t). pt_thread_id t) xs)"
    by (auto simp: take_map)
  then show "sorted (map st_thread_id (map (result_thread lib limits f ms) (take n xs)))"
    using sorted_thread_ids [OF assms] by (simp add: sorted_wrt_take)
qed

lemma build_result_fields:
  "sr_threads (build_result lib state modules limits) = map (result_thread lib limits (faulting_index state)
      (module_statuses modules)) (take (lim_threads limits) (indexed_threads state))"
  "sr_faulting_thread_id (build_result lib state modules limits)
     = map_option (\<lambda>i. pt_thread_id (ps_threads state ! i)) (faulting_index state)"
  "sr_modules (build_result lib state modules limits) = modules"
  by (simp_all add: build_result_def Let_def)

lemma build_result_order:
  assumes r_def: "r = build_result lib state modules limits"
  shows "case faulting_index state of
      None \<Rightarrow> sr_faulting_thread_id r = None \<and> list_all (\<lambda>t. \<not> st_faulting t) (sr_threads r)
        \<and> sorted (map st_thread_id (sr_threads r))
    | Some k \<Rightarrow> sr_faulting_thread_id r = Some (pt_thread_id (ps_threads state ! k)) \<and>
        (lim_threads limits = 0 \<and> sr_threads r = [] \<or>
         (\<exists>t ts. sr_threads r = t # ts \<and> st_faulting t \<and> sr_faulting_thread_id r = Some (st_thread_id t)
            \<and> list_all (\<lambda>u. \<not> st_faulting u) ts \<and> sorted (map st_thread_id ts)))"
proof (cases "faulting_index state")
  case None
  with result_threads_no_fault [OF indexed_threads_facts(3), of state] show ?thesis
    by (auto simp: r_def build_result_fields)
next
  case (Some k)
  obtain rest where xs: "indexed_threads state = (k, ps_threads state ! k) # rest"
    and rest: "\<forall>(i, t) \<in> set rest. i \<noteq> k" using indexed_threads_faulting [OF Some] .
  show ?thesis
  proof (cases "lim_threads limits")
    case 0
    with Some show ?thesis by (simp add: r_def build_result_fields)
  next
    case (Suc n)
    let ?g = "result_thread lib limits (faulting_index state) (module_statuses modules)"
    have sr: "sr_threads r = ?g (k, ps_threads state ! k) # map ?g (take n rest)"
      by (simp add: r_def build_result_fields xs Suc)
    have "sorted (map (\<lambda>(i, t). (of_bool (Some i \<noteq> faulting_index state) :: nat, pt_thread_id t, i)) rest)"
      using indexed_threads_facts(3) [of state] by (simp add: xs)
    from result_threads_no_fault [OF this] rest Some
    have "list_all (\<lambda>u. \<not> st_faulting u) (map ?g (take n rest))" "sorted (map st_thread_id (map ?g (take n rest)))"
      by auto
    with Some sr show ?thesis by (simp add: r_def build_result_fields)
  qed
qed

subsection \<open>Statuses of frames\<close>

lemma module_statuses_get:
  assumes "\<forall>d \<in> set ds. \<exists>b \<le> u64_max. sm_base_address d = format_address b"
    and "distinct (map sm_base_address ds)" and "d \<in> set ds" and "sm_base_address d = format_address b" and "b \<le> u64_max"
  shows "om_get (module_statuses ds) b = Some (sm_status d)"
proof -
  let ?base = "\<lambda>d. the (parse_address (sm_base_address d))"
  have some: "parse_address (sm_base_address d) = Some (?base d) \<and> format_address (?base d) = sm_base_address d" if "d \<in> set ds" for d
    using assms(1) that parse_format_address by fastforce
  have "List.map_filter (\<lambda>m. map_option (\<lambda>base. (base, sm_status m)) (parse_address (sm_base_address m))) xs
      = map (\<lambda>d. (?base d, sm_status d)) xs" if "set xs \<subseteq> set ds" for xs
    using that
  proof (induction xs)
    case (Cons x xs)
    then obtain b where "parse_address (sm_base_address x) = Some b" using some by auto
    with Cons show ?case by (simp add: List.map_filter_simps)
  qed (simp add: List.map_filter_simps)
  then have eq: "module_statuses ds = om_of_list (map (\<lambda>d. (?base d, sm_status d)) ds)"
    by (simp add: module_statuses_def)
  have "distinct (map ?base ds)"
  proof (rule distinct_map [THEN iffD2], intro conjI)
    show "distinct ds" using assms(2) by (simp add: distinct_map)
    show "inj_on ?base (set ds)"
    proof (rule inj_onI)
      fix x y assume "x \<in> set ds" "y \<in> set ds" "?base x = ?base y"
      with some have "sm_base_address x = sm_base_address y" by metis
      with \<open>x \<in> set ds\<close> \<open>y \<in> set ds\<close> assms(2) show "x = y" by (auto simp: distinct_map dest: inj_onD)
    qed
  qed
  then have dist: "distinct (map fst (map (\<lambda>d. (?base d, sm_status d)) ds))" by (simp add: comp_def)
  have "?base d = b" using assms(4,5) by (simp add: parse_format_address)
  then have "(b, sm_status d) \<in> set (map (\<lambda>d. (?base d, sm_status d)) ds)" using assms(3) by force
  then show ?thesis unfolding eq om_of_list_simps(2) [OF dist] by (rule map_of_is_SomeI [OF dist])
qed

lemma format_address_inject: "a \<le> u64_max \<Longrightarrow> b \<le> u64_max \<Longrightarrow> format_address a = format_address b \<longleftrightarrow> a = b"
  by (metis parse_format_address option.inject)

lemma frame_status_of_prepared:
  assumes prep: "prepare_modules fs lib modules scan root = Inr (rewritten, diagnostics)"
    and "distinct (map (md_base_address lib) modules)" and le: "\<forall>m \<in> set modules. md_base_address lib m \<le> u64_max"
    and "m \<in> set modules" and "fr_module frame = Some m'" and "md_base_address lib m' = md_base_address lib m"
    and "fr_function_name frame = None" and "fr_instruction frame \<le> u64_max"
  shows "\<exists>d \<in> set diagnostics. sm_base_address d = format_address (md_base_address lib m)
    \<and> sm_module d = leaf_name (dm_name m)
    \<and> sf_symbol_status (map_frame lib frame (module_statuses diagnostics)) = frame_status (sm_status d)
    \<and> sf_module_relative (map_frame lib frame (module_statuses diagnostics))
      = (if md_base_address lib m \<le> fr_instruction frame
         then Some (format_relative_address (fr_instruction frame - md_base_address lib m)) else None)"
proof -
  obtain ds where ds: "list_all2 (\<lambda>m (m', d). prepare_module fs lib scan root m = Inr (m', d)) modules (zip rewritten ds)"
    and len: "length rewritten = length modules" "length ds = length modules"
    and diag: "diagnostics = sort_key (\<lambda>d. (sm_base_address d, sm_module d)) ds"
    using prepare_modules_ok [OF prep] .
  have at: "prepare_module fs lib scan root (modules ! i) = Inr (rewritten ! i, ds ! i)" if "i < length modules" for i
    using prepared_nth [OF ds len that] .
  have base: "sm_base_address (ds ! i) = format_address (md_base_address lib (modules ! i))" if "i < length modules" for i
    using prepare_module_ok(4) [OF at [OF that]] .
  have bases: "map sm_base_address ds = map (\<lambda>m. format_address (md_base_address lib m)) modules"
    using base len by (intro nth_equalityI) auto
  have "map sm_base_address ds = map format_address (map (md_base_address lib) modules)"
    by (simp add: bases)
  moreover have "inj_on format_address (set (map (md_base_address lib) modules))"
    using le format_address_inject by (auto intro!: inj_onI)
  ultimately have "distinct (map sm_base_address ds)" using assms(2) by (simp only: distinct_map)
  moreover have "mset (map sm_base_address diagnostics) = mset (map sm_base_address ds)" by (simp add: diag)
  ultimately have "distinct (map sm_base_address diagnostics)" by (metis mset_eq_imp_distinct_iff)
  moreover have "\<forall>d \<in> set diagnostics. \<exists>b \<le> u64_max. sm_base_address d = format_address b"
    unfolding diag set_sort
  proof
    fix d assume "d \<in> set ds"
    then obtain j where "j < length modules" "d = ds ! j" using len by (auto simp: in_set_conv_nth)
    then show "\<exists>b \<le> u64_max. sm_base_address d = format_address b" using base le by auto
  qed
  moreover obtain i where i: "i < length modules" "m = modules ! i" using assms(4) by (auto simp: in_set_conv_nth)
  moreover have "ds ! i \<in> set diagnostics" using i len by (simp add: diag)
  moreover have "md_base_address lib m \<le> u64_max" using le assms(4) by blast
  ultimately have "om_get (module_statuses diagnostics) (md_base_address lib m) = Some (sm_status (ds ! i))"
    using module_statuses_get base by blast
  with assms(5-7) have "sf_symbol_status (map_frame lib frame (module_statuses diagnostics)) = frame_status (sm_status (ds ! i))"
    "sf_module_relative (map_frame lib frame (module_statuses diagnostics))
      = (if md_base_address lib m \<le> fr_instruction frame
         then Some (format_relative_address (fr_instruction frame - md_base_address lib m)) else None)"
    by (simp_all add: map_frame_def Let_def checked_sub_def)
  moreover have "sm_module (ds ! i) = leaf_name (dm_name m)" using prepare_module_ok(5) [OF at [OF i(1)]] i(2) by simp
  ultimately show ?thesis using base [OF i(1)] i(2) \<open>ds ! i \<in> set diagnostics\<close> by blast
qed

subsection \<open>Results within their limits\<close>

definition result_within :: "symbolication_limits \<Rightarrow> symbolication_result \<Rightarrow> bool" where
  "result_within limits r \<longleftrightarrow>
     length (sr_modules r) \<le> lim_modules limits \<and> length (sr_threads r) \<le> lim_threads limits
     \<and> list_all (\<lambda>t. length (st_frames t) \<le> lim_frames_per_thread limits) (sr_threads r)
     \<and> is_none_or (sr_exception_reason r) (\<lambda>t. length t \<le> 512) \<and> is_none_or (sr_assertion r) (\<lambda>t. length t \<le> 4096)
     \<and> sorted (map (\<lambda>m. (sm_base_address m, sm_module m)) (sr_modules r))
     \<and> list_all (\<lambda>m. (sm_status m = ModuleMatched \<longleftrightarrow> sm_pdb m \<noteq> None) \<and> (sm_pdb m = None \<or> sm_pe m \<noteq> None)) (sr_modules r)"

lemma bind_bounded: "is_none_or (Option.bind v (\<lambda>x. bounded_text x n)) (\<lambda>t. length t \<le> n)"
  by (cases v; cases "bounded_text (the v) n") (auto dest: bounded_text_Some)

lemma prepared_diagnostics:
  assumes "prepare_modules fs lib modules scan root = Inr (rewritten, diagnostics)"
  shows "length diagnostics = length modules"
    and "sorted (map (\<lambda>m. (sm_base_address m, sm_module m)) diagnostics)"
    and "list_all (\<lambda>m. (sm_status m = ModuleMatched \<longleftrightarrow> sm_pdb m \<noteq> None) \<and> (sm_pdb m = None \<or> sm_pe m \<noteq> None)) diagnostics"
proof -
  obtain ds where ds: "list_all2 (\<lambda>m (m', d). prepare_module fs lib scan root m = Inr (m', d)) modules (zip rewritten ds)"
    and len: "length rewritten = length modules" "length ds = length modules"
    and diag: "diagnostics = sort_key (\<lambda>d. (sm_base_address d, sm_module d)) ds"
    using prepare_modules_ok [OF assms] .
  show "length diagnostics = length modules" by (simp add: diag len)
  show "sorted (map (\<lambda>m. (sm_base_address m, sm_module m)) diagnostics)"
    unfolding diag by (rule sorted_sort_key)
  have "(sm_status (ds ! i) = ModuleMatched \<longleftrightarrow> sm_pdb (ds ! i) \<noteq> None) \<and> (sm_pdb (ds ! i) = None \<or> sm_pe (ds ! i) \<noteq> None)"
    if "i < length ds" for i
    using prepare_module_ok(6,7) [OF prepared_nth [OF ds len, of i]] that len by auto
  then show "list_all (\<lambda>m. (sm_status m = ModuleMatched \<longleftrightarrow> sm_pdb m \<noteq> None) \<and> (sm_pdb m = None \<or> sm_pe m \<noteq> None)) diagnostics"
    unfolding list_all_iff diag set_sort by (metis in_set_conv_nth)
qed

lemma symbolicate_bytes_inner_within:
  assumes "symbolicate_bytes_inner fs objects pdbs lib run bytes root limits = Inr r"
  shows "result_within limits r"
proof -
  from assms obtain modules diagnostics state original canonical scan where
    "length original \<le> lim_modules limits"
    and prep: "prepare_modules fs lib original scan canonical = Inr (modules, diagnostics)"
    and r: "r = build_result lib state diagnostics limits"
    by (auto simp: symbolicate_bytes_inner_def result_simps linorder_not_less split: if_splits prod.splits)
  moreover have "length (st_frames (result_thread lib limits f ms p)) \<le> lim_frames_per_thread limits" for f ms p
    by (cases p) (simp add: result_thread_def)
  moreover have "is_none_or (sr_exception_reason r) (\<lambda>t. length t \<le> 512)"
    "is_none_or (sr_assertion r) (\<lambda>t. length t \<le> 4096)"
    using bind_bounded [of _ max_exception_reason_chars] bind_bounded [of _ max_assertion_chars]
    by (simp_all add: r build_result_def Let_def max_exception_reason_chars_def max_assertion_chars_def)
  ultimately show ?thesis using prepared_diagnostics [OF prep]
    by (simp add: result_within_def build_result_fields list_all_iff)
qed

subsection \<open>Properties\<close>



text \<open>C20: whatever the scan says, the unwinder only sees paths inside the canonical symbol root: every
  prepared module is named by the root or by a path below it, and so is its debug file; the rest of the
  module is the dump's. The diagnostics list every module of the dump once, by its address and leaf name.\<close>

theorem prepared_modules_inside_root:
  assumes "prepare_modules fs lib modules scan root = Inr (rewritten, diagnostics)"
  shows "map dm_raw rewritten = map dm_raw modules
    \<and> list_all (\<lambda>m. path_starts_with (dm_name m) root \<and> debug_path_inside root m) rewritten
    \<and> mset (map (\<lambda>d. (sm_base_address d, sm_module d)) diagnostics)
      = mset (map (\<lambda>m. (format_address (md_base_address lib m), leaf_name (dm_name m))) modules)"
proof -
  obtain ds where ds: "list_all2 (\<lambda>m (m', d). prepare_module fs lib scan root m = Inr (m', d)) modules (zip rewritten ds)"
    and len: "length rewritten = length modules" "length ds = length modules"
    and diag: "diagnostics = sort_key (\<lambda>d. (sm_base_address d, sm_module d)) ds"
    using prepare_modules_ok [OF assms] .
  note ok = prepare_module_ok [OF prepared_nth [OF ds len]]
  have "map (\<lambda>d. (sm_base_address d, sm_module d)) ds
      = map (\<lambda>m. (format_address (md_base_address lib m), leaf_name (dm_name m))) modules"
    using ok(4,5) len by (intro nth_equalityI) auto
  moreover have "mset (map (\<lambda>d. (sm_base_address d, sm_module d)) diagnostics)
      = mset (map (\<lambda>d. (sm_base_address d, sm_module d)) ds)" by (simp add: diag)
  ultimately have "mset (map (\<lambda>d. (sm_base_address d, sm_module d)) diagnostics)
      = mset (map (\<lambda>m. (format_address (md_base_address lib m), leaf_name (dm_name m))) modules)"
    by (simp only:)
  moreover have "map dm_raw rewritten = map dm_raw modules" using ok(3) len by (intro nth_equalityI) auto
  moreover have "list_all (\<lambda>m. path_starts_with (dm_name m) root \<and> debug_path_inside root m) rewritten"
    unfolding list_all_length using ok(1,2) len by auto
  ultimately show ?thesis by blast
qed

text \<open>the threads of a result start with the faulting one, if the dump has one and at least one
  thread is kept; no other thread is marked, the rest is ordered by thread id, and the faulting thread's id
  is the one the result names. No thread is invented or lost: up to the limit, the ids are those of the dump.\<close>

theorem faulting_thread_first:
  "(case faulting_index state of
      None \<Rightarrow> sr_faulting_thread_id (build_result lib state modules limits) = None
        \<and> list_all (\<lambda>t. \<not> st_faulting t) (sr_threads (build_result lib state modules limits))
        \<and> sorted (map st_thread_id (sr_threads (build_result lib state modules limits)))
    | Some k \<Rightarrow> sr_faulting_thread_id (build_result lib state modules limits) = Some (pt_thread_id (ps_threads state ! k)) \<and>
        (lim_threads limits = 0 \<and> sr_threads (build_result lib state modules limits) = [] \<or>
         (\<exists>t ts. sr_threads (build_result lib state modules limits) = t # ts \<and> st_faulting t
            \<and> sr_faulting_thread_id (build_result lib state modules limits) = Some (st_thread_id t)
            \<and> list_all (\<lambda>u. \<not> st_faulting u) ts \<and> sorted (map st_thread_id ts))))
   \<and> length (sr_threads (build_result lib state modules limits)) = min (lim_threads limits) (length (ps_threads state))
   \<and> mset (map st_thread_id (sr_threads (build_result lib state modules limits)))
      \<subseteq># mset (map pt_thread_id (ps_threads state))"
proof -
  let ?r = "build_result lib state modules limits"
  have "map st_thread_id (sr_threads ?r) = take (lim_threads limits) (map (\<lambda>p. pt_thread_id (snd p)) (indexed_threads state))"
    by (auto simp: build_result_fields take_map result_thread_def)
  moreover have "mset (take n xs) \<subseteq># mset xs" for n and xs :: "nat list"
    using mset_subset_eq_add_left [of "mset (take n xs)" "mset (drop n xs)"] by (simp flip: mset_append)
  moreover have "mset (map (\<lambda>p. pt_thread_id (snd p)) (indexed_threads state)) = mset (map pt_thread_id (ps_threads state))"
  proof -
    have "map (\<lambda>p. pt_thread_id (snd p)) (enumerate 0 (ps_threads state)) = map pt_thread_id (ps_threads state)"
      by (simp add: map_snd_enumerate flip: map_map [unfolded comp_def])
    then show ?thesis using arg_cong [OF indexed_threads_facts(1), of "image_mset (\<lambda>p. pt_thread_id (snd p))"]
      by (metis mset_map)
  qed
  ultimately have "mset (map st_thread_id (sr_threads ?r)) \<subseteq># mset (map pt_thread_id (ps_threads state))" by metis
  moreover have "length (sr_threads ?r) = min (lim_threads limits) (length (ps_threads state))"
    by (simp add: build_result_fields)
  ultimately show ?thesis using build_result_order [OF refl, of lib state modules limits] by blast
qed

text \<open>a frame without a function is reported with the status of the module that contains it, and with
  its offset in that module: the addresses in the diagnostics, read back from their text, identify the
  modules as long as their base addresses differ.\<close>

theorem frame_status_of_module:
  assumes "prepare_modules fs lib modules scan root = Inr (rewritten, diagnostics)"
    and "distinct (map (md_base_address lib) modules)" and "\<forall>m \<in> set modules. md_base_address lib m \<le> u64_max"
    and "m \<in> set modules" and "fr_module frame = Some m'" and "md_base_address lib m' = md_base_address lib m"
    and "fr_function_name frame = None" and "fr_instruction frame \<le> u64_max"
  shows "\<exists>d \<in> set diagnostics. sm_base_address d = format_address (md_base_address lib m)
    \<and> sm_module d = leaf_name (dm_name m)
    \<and> sf_symbol_status (map_frame lib frame (module_statuses diagnostics)) = frame_status (sm_status d)
    \<and> sf_module_relative (map_frame lib frame (module_statuses diagnostics))
      = (if md_base_address lib m \<le> fr_instruction frame
         then Some (format_relative_address (fr_instruction frame - md_base_address lib m)) else None)"
  using assms by (rule frame_status_of_prepared)

text \<open>C22: a symbolication that succeeds was given a dump within the limit and a wall time, and its result
  is within the limits: modules, threads, frames of each thread, and the texts of the exception and the
  assertion; its modules are ordered by address and matched exactly when they have a program database,
  which comes with an executable.\<close>

theorem symbolication_within_limits:
  assumes "symbolicate_minidump_bytes fs objects pdbs lib run dump root limits = Inr r"
  shows "result_within limits r \<and> length dump \<le> lim_dump_bytes limits \<and> lim_wall_time_ms limits \<noteq> 0
    \<and> run_receive run = Received"
  using assms symbolicate_bytes_inner_within [of fs objects pdbs lib run dump root limits r]
  by (auto simp: symbolicate_minidump_bytes_def run_symbolicator_def result_simps split: if_splits received.splits)

subsection \<open>A small dump\<close>

text \<open>One module, whose executable and program database were scanned, two threads, and a frame in the module.\<close>

definition sample_module :: "nat dump_module" where
  "sample_module = \<lparr>dm_name = lit ''C:/Game/a.exe'', dm_codeview = Some (Pdb70 [1, 0]), dm_raw = 16\<rparr>"

definition sample_frame :: "nat stack_frame" where
  "sample_frame = \<lparr>fr_instruction = 20, fr_module = Some sample_module, fr_trust = lit ''context'',
     fr_function_name = None, fr_source_file_name = None, fr_source_line = None, fr_inlines = []\<rparr>"

definition sample_state :: "nat process_state" where
  "sample_state = \<lparr>ps_requesting_thread = Some 1,
     ps_threads = [\<lparr>pt_thread_id = 3, pt_thread_name = None, pt_info = StackOk, pt_frames = []\<rparr>,
       \<lparr>pt_thread_id = 9, pt_thread_name = None, pt_info = StackOk, pt_frames = [sample_frame]\<rparr>],
     ps_exception_reason = None, ps_assertion = None\<rparr>"

definition sample_minidumps :: "(unit, nat) minidump_library" where
  "sample_minidumps = \<lparr>md_read = \<lambda>_. Some (), md_system_info = \<lambda>_. Some (WindowsOs, X86_64Cpu),
     md_thread_count = \<lambda>_. Some 2, md_modules = \<lambda>_. Some [sample_module], md_base_address = dm_raw,
     md_size = \<lambda>_. 100, md_code_identifier = \<lambda>_. Some (lit ''ab1''), md_debug_identifier = \<lambda>_. Some (lit ''cd1''),
     md_process = \<lambda>_ _. Some sample_state\<rparr>"

definition sample_artifact :: "ustring \<Rightarrow> artifact_type \<Rightarrow> ustring option \<Rightarrow> ustring list \<Rightarrow> artifact_record" where
  "sample_artifact path t code matches =
     \<lparr>ar_path = path, ar_module = path, ar_type = t, ar_architecture = Some X86_64, ar_size = None,
      ar_debug_id = Some (lit ''CD1''), ar_code_id = code, ar_match_state = Matched, ar_matches = matches, ar_error = None\<rparr>"

definition sample_artifacts :: artifact_scan where
  "sample_artifacts = \<lparr>scan_schema_version = 1, scan_artifacts_of =
     [sample_artifact (lit ''a.exe'') PeExecutable (Some (lit ''AB1'')) [lit ''a.pdb''],
      sample_artifact (lit ''a.pdb'') PdbFile None [lit ''a.exe'']]\<rparr>"

definition sample_fs :: "unit symbol_fs" where
  "sample_fs = \<lparr>fs_symlink_metadata = \<lambda>p. Inr (if p = lit ''/s'' then DirectoryFile else RegularFile, 0),
     fs_read_dir = \<lambda>_. Inr [], fs_open = \<lambda>_. Inl (), fs_len = \<lambda>_. None,
     fs_canonicalize = Inr, fs_read_to_end = \<lambda>_. Inr []\<rparr>"

definition sample_run :: "unit worker_run" where
  "sample_run = \<lparr>run_spawn = Inr (), run_runtime = Inr (), run_receive = Received\<rparr>"

lemma sample_prepared:
  "prepare_modules sample_fs sample_minidumps [sample_module] sample_artifacts (lit ''/s'') =
     Inr ([\<lparr>dm_name = lit ''/s/a.exe'', dm_codeview = Some (Pdb70 (utf8 (lit ''/s/a.pdb'') @ [0])), dm_raw = 16\<rparr>],
       [\<lparr>sm_module = lit ''a.exe'', sm_base_address = lit ''0x0000000000000010'', sm_size = 100,
         sm_code_id = Some (lit ''AB1''), sm_debug_id = Some (lit ''CD1''), sm_status = ModuleMatched,
         sm_pe = Some (lit ''a.exe''), sm_pdb = Some (lit ''a.pdb''), sm_symcache_format = None\<rparr>])"
  by code_simp

theorem prepared_modules_inside_root_witness:
  "path_starts_with (lit ''/s/a.exe'') (lit ''/s'')"
  using prepared_modules_inside_root [OF sample_prepared] by simp

theorem frame_status_of_module_witness:
  "sf_symbol_status (map_frame sample_minidumps sample_frame (module_statuses
     [\<lparr>sm_module = lit ''a.exe'', sm_base_address = lit ''0x0000000000000010'', sm_size = 100,
         sm_code_id = Some (lit ''AB1''), sm_debug_id = Some (lit ''CD1''), sm_status = ModuleMatched,
         sm_pe = Some (lit ''a.exe''), sm_pdb = Some (lit ''a.pdb''), sm_symcache_format = None\<rparr>])) = FrameUnresolved"
proof -
  let ?d = "\<lparr>sm_module = lit ''a.exe'', sm_base_address = lit ''0x0000000000000010'', sm_size = 100,
         sm_code_id = Some (lit ''AB1''), sm_debug_id = Some (lit ''CD1''), sm_status = ModuleMatched,
         sm_pe = Some (lit ''a.exe''), sm_pdb = Some (lit ''a.pdb''), sm_symcache_format = None\<rparr>"
  have "\<exists>d \<in> set [?d]. sf_symbol_status (map_frame sample_minidumps sample_frame (module_statuses [?d])) = frame_status (sm_status d)"
    using frame_status_of_module [OF sample_prepared, of sample_module sample_frame sample_module]
    by (fastforce simp: sample_minidumps_def sample_module_def sample_frame_def u64_max_def simp del: lit_inject)
  then show ?thesis by (simp add: frame_status_def)
qed

lemma sample_symbolication:
  "is_ok (symbolicate_minidump_bytes sample_fs no_objects no_pdbs sample_minidumps sample_run [1, 2] (lit ''/s'')
     default_symbolication_limits)"
proof -
  have prep: "is_ok (prepare_modules sample_fs sample_minidumps [sample_module]
      \<lparr>scan_schema_version = 1, scan_artifacts_of = []\<rparr> (lit ''/s''))"
    by (simp add: prepare_modules_def prepare_module_def choose_artifacts_def sample_minidumps_def transpose_map_def Let_def)
  have "scan_symbol_root sample_fs no_objects no_pdbs (lit ''/s'') default_symbolication_limits
      = Inr (lit ''/s'', \<lparr>scan_schema_version = 1, scan_artifacts_of = []\<rparr>)"
    by (simp add: scan_symbol_root_def scan_artifacts_with_limits_def sample_fs_def discover_files_def
        discover_loop.simps artifact_fs.truncate_def match_artifacts_def Let_def)
  with prep show ?thesis
    by (auto simp: symbolicate_minidump_bytes_def run_symbolicator_def symbolicate_bytes_inner_def sample_run_def
        sample_minidumps_def default_symbolication_limits_def is_ok_iff)
qed

theorem symbolication_within_limits_witness:
  "\<exists>r. symbolicate_minidump_bytes sample_fs no_objects no_pdbs sample_minidumps sample_run [1, 2] (lit ''/s'')
       default_symbolication_limits = Inr r \<and> result_within default_symbolication_limits r"
proof -
  obtain r where r: "symbolicate_minidump_bytes sample_fs no_objects no_pdbs sample_minidumps sample_run [1, 2] (lit ''/s'')
       default_symbolication_limits = Inr r" using sample_symbolication by (auto simp: is_ok_iff)
  from symbolication_within_limits [OF r] r show ?thesis by blast
qed

end
