(* ===== verification/Result_Json.thy ===== *)
theory Result_Json
  imports Json_Value Crash_Request Symbolication
begin

section \<open>Results as JSON\<close>

text \<open>
  What \<^verbatim>\<open>derive(Serialize)\<close> makes of the data that a processing result holds: the crash context, the request
  manifest, the classification, the log and the symbolication. Enums become their names in snake case,
  structs objects of their fields; the fields marked \<^verbatim>\<open>skip_serializing_if\<close> are left out when they are \<open>None\<close>.
\<close>

subsection \<open>The crash context\<close>

abbreviation string_json :: "string \<Rightarrow> json" where
  "string_json s \<equiv> JString (lit s)"

fun crash_type_json :: "crash_type \<Rightarrow> json" where
  "crash_type_json CT_Crash = string_json ''crash''"
| "crash_type_json CT_Assert = string_json ''assert''"
| "crash_type_json CT_Ensure = string_json ''ensure''"
| "crash_type_json CT_Unknown = string_json ''unknown''"

definition normalized_value_json :: "normalized_value \<Rightarrow> json" where
  "normalized_value_json v = struct_json
     [(''original'', JString (original v)), (''normalized'', JString (normalized v))]"

definition crash_context_property_json :: "crash_context_property \<Rightarrow> json" where
  "crash_context_property_json p = struct_json
     [(''name'', JString (prop_name p)), (''value'', JString (prop_value p))]"

definition crash_context_thread_json :: "crash_context_thread \<Rightarrow> json" where
  "crash_context_thread_json t = struct_json
     [(''call_stack'', option_json JString (call_stack t)), (''crash_marker'', option_json JString (crash_marker t)),
      (''registers'', option_json JString (registers t)), (''thread_id'', option_json JString (ctx_thread_id t)),
      (''thread_name'', option_json JString (ctx_thread_name t))]"

definition unknown_fields_json :: "unknown_fields \<Rightarrow> json" where
  "unknown_fields_json = map_json (map_json (list_json JString))"

definition crash_context_json :: "crash_context_data \<Rightarrow> json" where
  "crash_context_json c = struct_json
     ([(''parser_version'', nat_json (parser_version c)), (''crash_guid'', option_json JString (crash_guid c)),
       (''crash_type'', crash_type_json (ctx_crash_type c)), (''error_message'', option_json JString (error_message c)),
       (''build_version'', option_json JString (build_version c)), (''engine_version'', option_json JString (engine_version c)),
       (''platform'', option_json normalized_value_json (platform c)),
       (''architecture'', option_json JString (crash_context_data.architecture c)),
       (''build_configuration'', option_json JString (build_configuration c))]
      @ unless_none ''command_line'' JString (command_line c) @
      [(''modules'', list_json normalized_value_json (ctx_modules c)),
       (''threads'', list_json crash_context_thread_json (ctx_threads c)),
       (''system_metadata'', list_json crash_context_property_json (system_metadata c)),
       (''user_comment'', option_json JString (user_comment c)),
       (''game_data'', list_json crash_context_property_json (game_data c)),
       (''unknown_fields'', unknown_fields_json (ctx_unknown_fields c))])"

fun confidence_json :: "classification_confidence \<Rightarrow> json" where
  "confidence_json High = string_json ''high''"
| "confidence_json Medium = string_json ''medium''"
| "confidence_json Low = string_json ''low''"

fun signal_kind_json :: "crash_signal_kind \<Rightarrow> json" where
  "signal_kind_json GpuCrash = string_json ''gpu_crash''"
| "signal_kind_json OutOfMemory = string_json ''out_of_memory''"

definition crash_signal_json :: "crash_signal \<Rightarrow> json" where
  "crash_signal_json s = struct_json
     [(''kind'', signal_kind_json (sig_kind s)), (''confidence'', confidence_json (sig_confidence s)),
      (''evidence'', list_json JString (sig_evidence s))]"

definition classification_json :: "crash_classification \<Rightarrow> json" where
  "classification_json c = struct_json
     [(''crash_type'', crash_type_json (cls_crash_type c)), (''confidence'', confidence_json (cls_confidence c)),
      (''evidence'', list_json JString (cls_evidence c)), (''signals'', list_json crash_signal_json (cls_signals c))]"

subsection \<open>The request and its log\<close>

fun file_kind_json :: "crash_request_file_kind \<Rightarrow> json" where
  "file_kind_json CrashContextFile = string_json ''crash_context''"
| "file_kind_json MinidumpFile = string_json ''minidump''"
| "file_kind_json LogFile = string_json ''log''"
| "file_kind_json UnknownFile = string_json ''unknown''"

definition crash_request_file_json :: "crash_request_file \<Rightarrow> json" where
  "crash_request_file_json f = struct_json
     [(''index'', nat_json (file_index f)), (''name'', JString (file_name f)),
      (''size'', nat_json (file_size f)), (''kind'', file_kind_json (file_of_kind f))]"

definition manifest_json :: "crash_request_manifest \<Rightarrow> json" where
  "manifest_json m = struct_json
     [(''schema_version'', nat_json (schema_version m)), (''envelope'', JString (envelope m)),
      (''directory_name'', JString (directory_name m)), (''archive_name'', JString (archive_name m)),
      (''compressed_size'', nat_json (compressed_size m)), (''expanded_size'', nat_json (expanded_size m)),
      (''files'', list_json crash_request_file_json (manifest_files m))]"

definition log_tail_json :: "project_log_tail \<Rightarrow> json" where
  "log_tail_json t = struct_json
     [(''text'', JString (tail_text t)), (''truncated'', JBool (truncated t)),
      (''invalid_utf8'', JBool (invalid_utf8 t))]"

definition log_json :: "crash_request_log \<Rightarrow> json" where
  "log_json l = struct_json [(''name'', JString (log_name l)), (''tail'', log_tail_json (log_tail l))]"

subsection \<open>The symbolication\<close>

fun module_status_json :: "module_symbol_status \<Rightarrow> json" where
  "module_status_json ModuleMatched = string_json ''matched''"
| "module_status_json ModuleMissingPe = string_json ''missing_pe''"
| "module_status_json ModuleMissingPdb = string_json ''missing_pdb''"
| "module_status_json ModuleMismatched = string_json ''mismatched''"
| "module_status_json ModuleMissingIdentity = string_json ''missing_identity''"

fun frame_status_json :: "frame_symbol_status \<Rightarrow> json" where
  "frame_status_json FrameResolved = string_json ''resolved''"
| "frame_status_json FrameUnresolved = string_json ''unresolved''"
| "frame_status_json FrameMissingPe = string_json ''missing_pe''"
| "frame_status_json FrameMissingPdb = string_json ''missing_pdb''"
| "frame_status_json FrameMismatched = string_json ''mismatched''"
| "frame_status_json FrameMissingIdentity = string_json ''missing_identity''"
| "frame_status_json FrameUnknownModule = string_json ''unknown_module''"

fun unwind_status_json :: "thread_unwind_status \<Rightarrow> json" where
  "unwind_status_json UnwindOk = string_json ''ok''"
| "unwind_status_json MissingContext = string_json ''missing_context''"
| "unwind_status_json MissingMemory = string_json ''missing_memory''"
| "unwind_status_json UnsupportedCpu = string_json ''unsupported_cpu''"
| "unwind_status_json DumpThreadSkipped = string_json ''dump_thread_skipped''"

definition module_json :: "symbolicated_module \<Rightarrow> json" where
  "module_json m = struct_json
     ([(''module'', JString (sm_module m)), (''base_address'', JString (sm_base_address m)),
       (''size'', nat_json (sm_size m)), (''code_id'', option_json JString (sm_code_id m)),
       (''debug_id'', option_json JString (sm_debug_id m)), (''status'', module_status_json (sm_status m)),
       (''pe'', option_json JString (sm_pe m)), (''pdb'', option_json JString (sm_pdb m))]
      @ unless_none ''symcache_format'' nat_json (sm_symcache_format m))"

definition inline_json :: "inline_symbol \<Rightarrow> json" where
  "inline_json i = struct_json
     [(''function'', JString (in_function i)), (''source_file'', option_json JString (in_source_file i)),
      (''source_line'', option_json nat_json (in_source_line i))]"

definition frame_json :: "symbolicated_frame \<Rightarrow> json" where
  "frame_json f = struct_json
     [(''instruction'', JString (sf_instruction f)), (''module'', option_json JString (sf_module f)),
      (''module_relative'', option_json JString (sf_module_relative f)), (''trust'', JString (sf_trust f)),
      (''symbol_status'', frame_status_json (sf_symbol_status f)), (''function'', option_json JString (sf_function f)),
      (''source_file'', option_json JString (sf_source_file f)), (''source_line'', option_json nat_json (sf_source_line f)),
      (''inlines'', list_json inline_json (sf_inlines f))]"

definition thread_json :: "symbolicated_thread \<Rightarrow> json" where
  "thread_json t = struct_json
     [(''thread_id'', nat_json (st_thread_id t)), (''faulting'', JBool (st_faulting t)),
      (''name'', option_json JString (st_name t)), (''unwind_status'', unwind_status_json (st_unwind_status t)),
      (''frames_truncated'', JBool (st_frames_truncated t)), (''frames'', list_json frame_json (st_frames t))]"

definition symbolication_json :: "symbolication_result \<Rightarrow> json" where
  "symbolication_json r = struct_json
     [(''schema_version'', nat_json (sr_schema_version r)), (''symbolicator_version'', JString (sr_symbolicator_version r)),
      (''minidump_version'', JString (sr_minidump_version r)),
      (''minidump_processor_version'', JString (sr_minidump_processor_version r)),
      (''minidump_unwind_version'', JString (sr_minidump_unwind_version r)), (''platform'', JString (sr_platform r)),
      (''architecture'', JString (sr_architecture r)),
      (''faulting_thread_id'', option_json nat_json (sr_faulting_thread_id r)),
      (''exception_reason'', option_json JString (sr_exception_reason r)),
      (''assertion'', option_json JString (sr_assertion r)),
      (''modules'', list_json module_json (sr_modules r)), (''threads'', list_json thread_json (sr_threads r))]"

end
