(* ===== verification/Symcache.thy ===== *)
theory Symcache
  imports Symbolication
begin

section \<open>Derived symbol caches (crates/symbols, symcache.rs)\<close>

text \<open>
  The generation of a symbol cache from a program database, and the second pass of symbolication that
  resolves frames from caches. The symbolic crates (debug identifiers, objects, caches and their lookup)
  are the parameter \<open>symcache_library\<close>.
\<close>

subsection \<open>The symbolic crates\<close>

record source_location =
  loc_function :: ustring
  loc_file :: "ustring option"
  loc_line :: nat

record ('i, 'c, 'v, 'o, 'k) symcache_library =
  debug_id_of :: "ustring \<Rightarrow> 'i option"
  debug_id_text :: "'i \<Rightarrow> ustring"
  cache_parse :: "byte list \<Rightarrow> 'c option"
  cache_debug_id :: "'c \<Rightarrow> 'i"
  cache_is_latest :: "'c \<Rightarrow> bool"
  cache_version :: "'c \<Rightarrow> nat"
  cache_arch :: "'c \<Rightarrow> ustring"
  cache_lookup :: "'c \<Rightarrow> nat \<Rightarrow> source_location list"
  view_open :: "ustring \<Rightarrow> 'v option"
  object_parse :: "'v \<Rightarrow> 'o option"
  object_is_pdb :: "'o \<Rightarrow> bool"
  convert_object :: "'o \<Rightarrow> 'k option"
  serialize_cache :: "'k \<Rightarrow> byte list option"

subsection \<open>Data\<close>

record symcache_artifact =
  sca_debug_id :: ustring
  sca_path :: ustring

record symcache_metadata =
  scm_schema_version :: nat
  scm_processor_version :: ustring
  scm_format_version :: nat
  scm_debug_id :: ustring
  scm_architecture :: ustring
  scm_byte_size :: nat

datatype symcache_generation_error =
  InvalidInput | InputTooLarge | InvalidDebugFile | ConversionFailed | OutputTooLarge | WriteFailed

definition symcache_processor_version :: ustring where
  "symcache_processor_version = lit ''symbolic-symcache-13.3.1''"

definition max_symcache_bytes :: nat where "max_symcache_bytes = 64 * 1024 * 1024"

subsection \<open>Generation\<close>

text \<open>The result holds the bytes published at the output path with the metadata; \<open>publish\<close> tells whether
  creating, writing and syncing the new file succeeds.\<close>

definition generate_symcache ::
  "'e symbol_fs \<Rightarrow> ('i, 'c, 'v, 'o, 'k) symcache_library \<Rightarrow> (ustring \<Rightarrow> byte list \<Rightarrow> bool) \<Rightarrow> ustring \<Rightarrow> ustring \<Rightarrow> nat
   \<Rightarrow> (symcache_generation_error, byte list \<times> symcache_metadata) result" where
  "generate_symcache fs lib publish input output_path maximum_input_bytes =
     bindR (map_err (\<lambda>_. InvalidInput) (fs_symlink_metadata fs input)) (\<lambda>(ftype, len).
     if ftype \<noteq> RegularFile then Inl InvalidInput
     else if len > maximum_input_bytes then Inl InputTooLarge
     else
       bindR (ok_or (view_open lib input) InvalidInput) (\<lambda>view.
       bindR (ok_or (object_parse lib view) InvalidDebugFile) (\<lambda>object.
       if \<not> object_is_pdb lib object then Inl InvalidDebugFile
       else
         bindR (ok_or (convert_object lib object) ConversionFailed) (\<lambda>converter.
         bindR (ok_or (serialize_cache lib converter) ConversionFailed) (\<lambda>bytes.
         if length bytes > max_symcache_bytes then Inl OutputTooLarge
         else
           bindR (ok_or (cache_parse lib bytes) ConversionFailed) (\<lambda>cache.
           if \<not> cache_is_latest lib cache then Inl ConversionFailed
           else if \<not> publish output_path bytes then Inl WriteFailed
           else Inr (bytes,
             \<lparr>scm_schema_version = 1, scm_processor_version = symcache_processor_version,
              scm_format_version = cache_version lib cache,
              scm_debug_id = to_ascii_uppercase (debug_id_text lib (cache_debug_id lib cache)),
              scm_architecture = cache_arch lib cache, scm_byte_size = length bytes\<rparr>)))))))"

subsection \<open>Symbolication from caches\<close>

definition read_cache_file :: "'e symbol_fs \<Rightarrow> ustring \<Rightarrow> ('e symbolication_error, byte list) result" where
  "read_cache_file fs path =
     bindR (map_err (\<lambda>_. InvalidSymCache) (fs_symlink_metadata fs path)) (\<lambda>(ftype, len).
     if ftype \<noteq> RegularFile then Inl InvalidSymCache
     else if len > max_symcache_bytes then Inl SymCacheTooLarge
     else
       bindR (map_err (\<lambda>_. InvalidSymCache) (fs_read_to_end fs path)) (\<lambda>contents.
       let bytes = take (max_symcache_bytes + 1) contents
       in if length bytes > max_symcache_bytes then Inl SymCacheTooLarge else Inr bytes))"

definition parse_relative_address :: "ustring \<Rightarrow> nat option" where
  "parse_relative_address value = Option.bind (strip_prefix value (lit ''0x'')) parse_hex_u64"

definition known_function :: "ustring \<Rightarrow> bool" where
  "known_function function \<longleftrightarrow> function \<noteq> [] \<and> function \<noteq> lit ''?''"

definition location_line :: "source_location \<Rightarrow> nat option" where
  "location_line l = (if loc_line l > 0 then Some (loc_line l) else None)"

text \<open>The inlined functions after the first location.\<close>

definition location_inlines :: "source_location list \<Rightarrow> inline_symbol list" where
  "location_inlines ls =
     List.map_filter (\<lambda>l. if known_function (loc_function l)
       then Some \<lparr>in_function = loc_function l, in_source_file = loc_file l, in_source_line = location_line l\<rparr>
       else None) ls"

text \<open>The body of the loop over frames: the frame, and whether it was resolved.\<close>

definition resolve_frame ::
  "('i, 'c, 'v, 'o, 'k) symcache_library \<Rightarrow> 'c \<Rightarrow> ustring \<Rightarrow> symbolicated_frame \<Rightarrow> symbolicated_frame \<times> bool" where
  "resolve_frame lib cache module_name frame =
     (if is_none_or (sf_module frame) (\<lambda>v. \<not> eq_ignore_ascii_case v module_name) then (frame, False)
      else case Option.bind (sf_module_relative frame) parse_relative_address of
             None \<Rightarrow> (frame, False)
           | Some address \<Rightarrow>
               (case cache_lookup lib cache address of
                  [] \<Rightarrow> (frame, False)
                | location # locations \<Rightarrow>
                    if \<not> known_function (loc_function location) then (frame, False)
                    else (frame\<lparr>sf_function := Some (loc_function location), sf_source_file := loc_file location,
                            sf_source_line := location_line location, sf_inlines := location_inlines locations,
                            sf_symbol_status := FrameResolved\<rparr>, True)))"

definition resolve_thread ::
  "('i, 'c, 'v, 'o, 'k) symcache_library \<Rightarrow> 'c \<Rightarrow> ustring \<Rightarrow> symbolicated_thread \<Rightarrow> symbolicated_thread \<times> bool" where
  "resolve_thread lib cache module_name t =
     (let frames = map (resolve_frame lib cache module_name) (st_frames t)
      in (t\<lparr>st_frames := map fst frames\<rparr>, list_ex snd frames))"

text \<open>The loops over the threads and frames for one cache, and the mark on its module.\<close>

definition resolve_module ::
  "('i, 'c, 'v, 'o, 'k) symcache_library \<Rightarrow> 'c \<Rightarrow> nat \<Rightarrow> symbolication_result \<Rightarrow> symbolication_result" where
  "resolve_module lib cache i result =
     (let m = sr_modules result ! i;
          threads = map (resolve_thread lib cache (sm_module m)) (sr_threads result);
          resolved = list_ex snd threads
      in result\<lparr>sr_threads := map fst threads,
           sr_modules := (if resolved \<and> sm_pe m \<noteq> None
             then (sr_modules result)[i := m\<lparr>sm_status := ModuleMatched,
                    sm_symcache_format := Some (cache_version lib cache)\<rparr>]
             else sr_modules result)\<rparr>)"

text \<open>The body of the loop over modules.\<close>

definition apply_symcache ::
  "'e symbol_fs \<Rightarrow> ('i :: linorder, 'c, 'v, 'o, 'k) symcache_library \<Rightarrow> ('i, symcache_artifact) ordered_map
   \<Rightarrow> nat \<Rightarrow> symbolication_result \<Rightarrow> ('e symbolication_error, symbolication_result) result" where
  "apply_symcache fs lib artifacts i result =
     (let m = sr_modules result ! i
      in case Option.bind (sm_debug_id m) (debug_id_of lib) of
           None \<Rightarrow> Inr result
         | Some debug_id \<Rightarrow>
             (case om_get artifacts debug_id of
                None \<Rightarrow> Inr result
              | Some artifact \<Rightarrow>
                  bindR (read_cache_file fs (sca_path artifact)) (\<lambda>bytes.
                  bindR (ok_or (cache_parse lib bytes) InvalidSymCache) (\<lambda>cache.
                  if cache_debug_id lib cache \<noteq> debug_id \<or> \<not> cache_is_latest lib cache
                  then Inl SymCacheIdentityMismatch
                  else Inr (resolve_module lib cache i result)))))"

definition collect_symcaches ::
  "('i :: linorder, 'c, 'v, 'o, 'k) symcache_library \<Rightarrow> symcache_artifact list
   \<Rightarrow> ('e symbolication_error, ('i, symcache_artifact) ordered_map) result" where
  "collect_symcaches lib symcaches =
     fold_result (\<lambda>artifact artifacts.
       bindR (ok_or (debug_id_of lib (sca_debug_id artifact)) InvalidSymCache) (\<lambda>debug_id.
       if om_get artifacts debug_id \<noteq> None then Inl InvalidSymCache
       else Inr (om_insert debug_id artifact artifacts))) symcaches []"

definition symbolicate_with_symcaches ::
  "'e symbol_fs \<Rightarrow> 'p object_library \<Rightarrow> 'b pdb_library \<Rightarrow> ('dump, 'raw) minidump_library \<Rightarrow> 'e worker_run
   \<Rightarrow> ('i :: linorder, 'c, 'v, 'o, 'k) symcache_library \<Rightarrow> byte list \<Rightarrow> ustring \<Rightarrow> symcache_artifact list \<Rightarrow> symbolication_limits
   \<Rightarrow> ('e symbolication_error, symbolication_result) result" where
  "symbolicate_with_symcaches fs objects pdbs dumps run lib dump symbols symcaches limits =
     bindR (symbolicate_minidump_bytes fs objects pdbs dumps run dump symbols limits) (\<lambda>result.
     bindR (collect_symcaches lib symcaches) (\<lambda>artifacts.
     fold_result (apply_symcache fs lib artifacts) [0..<length (sr_modules result)] result))"

subsection \<open>The caches that were given\<close>

lemma collect_symcaches_spec:
  fixes lib :: "('i :: linorder, 'c, 'v, 'o, 'k) symcache_library"
  assumes "collect_symcaches lib symcaches
    = (Inr artifacts :: ('e symbolication_error, ('i, symcache_artifact) ordered_map) result)"
  shows "om_wf artifacts"
    and "distinct (map (\<lambda>a. debug_id_of lib (sca_debug_id a)) symcaches)"
    and "om_get artifacts d = Some a \<longleftrightarrow> a \<in> set symcaches \<and> debug_id_of lib (sca_debug_id a) = Some d"
proof -
  let ?step = "\<lambda>artifact artifacts.
       bindR (ok_or (debug_id_of lib (sca_debug_id artifact)) (InvalidSymCache :: 'e symbolication_error)) (\<lambda>debug_id.
       if om_get artifacts debug_id \<noteq> None then Inl InvalidSymCache
       else Inr (om_insert debug_id artifact artifacts))"
  have "fold_result ?step symcaches m = Inr artifacts \<Longrightarrow> om_wf m \<Longrightarrow>
      om_wf artifacts \<and> distinct (map (\<lambda>a. debug_id_of lib (sca_debug_id a)) symcaches)
      \<and> (\<forall>a \<in> set symcaches. \<forall>d. debug_id_of lib (sca_debug_id a) = Some d \<longrightarrow> om_get m d = None)
      \<and> (\<forall>a \<in> set symcaches. debug_id_of lib (sca_debug_id a) \<noteq> None)
      \<and> (\<forall>d a. om_get artifacts d = Some a \<longleftrightarrow> om_get m d = Some a
            \<or> a \<in> set symcaches \<and> debug_id_of lib (sca_debug_id a) = Some d)" for m
  proof (induction symcaches arbitrary: m)
    case (Cons s symcaches)
    from Cons.prems obtain i where i: "debug_id_of lib (sca_debug_id s) = Some i" "om_get m i = None"
      and run: "fold_result ?step symcaches (om_insert i s m) = Inr artifacts"
      by (auto simp: result_simps split: if_splits)
    have wf: "om_wf (om_insert i s m)" using Cons.prems(2) by (rule om_wf_insert)
    note IH = Cons.IH [OF run wf]
    have get: "om_get (om_insert i s m) d = (if d = i then Some s else om_get m d)" for d
      using Cons.prems(2) by (rule om_get_insert)
    have "debug_id_of lib (sca_debug_id a) \<noteq> Some i" if "a \<in> set symcaches" for a
      using IH that by (auto simp: get)
    then have "distinct (map (\<lambda>a. debug_id_of lib (sca_debug_id a)) (s # symcaches))" using IH i by force
    moreover have "om_get m d = None" if "a \<in> set symcaches" "debug_id_of lib (sca_debug_id a) = Some d" for a d
      using IH that by (auto simp: get split: if_splits)
    ultimately show ?case using IH i by (auto simp: get split: if_splits)
  qed auto
  from this [of "[]"] assms show "om_wf artifacts"
    and "distinct (map (\<lambda>a. debug_id_of lib (sca_debug_id a)) symcaches)"
    and "om_get artifacts d = Some a \<longleftrightarrow> a \<in> set symcaches \<and> debug_id_of lib (sca_debug_id a) = Some d"
    by (auto simp: collect_symcaches_def om.wf_empty om.get_empty)
qed

subsection \<open>What a second pass may change\<close>

definition frame_kept :: "symbolicated_frame \<Rightarrow> symbolicated_frame \<Rightarrow> bool" where
  "frame_kept f g \<longleftrightarrow>
     sf_instruction g = sf_instruction f \<and> sf_module g = sf_module f \<and> sf_module_relative g = sf_module_relative f
     \<and> sf_trust g = sf_trust f
     \<and> (g = f \<or> sf_symbol_status g = FrameResolved \<and> is_some_and (sf_function g) known_function)"

definition thread_kept :: "symbolicated_thread \<Rightarrow> symbolicated_thread \<Rightarrow> bool" where
  "thread_kept t u \<longleftrightarrow> u = t\<lparr>st_frames := st_frames u\<rparr> \<and> list_all2 frame_kept (st_frames t) (st_frames u)"

definition module_kept :: "('i \<Rightarrow> bool) \<Rightarrow> (ustring \<Rightarrow> 'i option) \<Rightarrow> symbolicated_module \<Rightarrow> symbolicated_module \<Rightarrow> bool" where
  "module_kept given id_of m n \<longleftrightarrow>
     n = m \<or> (\<exists>version. n = m\<lparr>sm_status := ModuleMatched, sm_symcache_format := Some version\<rparr>)
        \<and> sm_pe m \<noteq> None \<and> is_some_and (Option.bind (sm_debug_id m) id_of) given"

definition result_kept ::
  "('i \<Rightarrow> bool) \<Rightarrow> (ustring \<Rightarrow> 'i option) \<Rightarrow> symbolication_result \<Rightarrow> symbolication_result \<Rightarrow> bool" where
  "result_kept given id_of r s \<longleftrightarrow>
     s = r\<lparr>sr_modules := sr_modules s, sr_threads := sr_threads s\<rparr>
     \<and> list_all2 thread_kept (sr_threads r) (sr_threads s)
     \<and> list_all2 (module_kept given id_of) (sr_modules r) (sr_modules s)"

lemma kept_refl [simp]: "frame_kept f f" "thread_kept t t" "module_kept given id_of m m" "result_kept given id_of r r"
  by (simp_all add: frame_kept_def thread_kept_def module_kept_def result_kept_def list_all2_same)

lemma frame_kept_trans: "frame_kept f g \<Longrightarrow> frame_kept g h \<Longrightarrow> frame_kept f h"
  by (auto simp: frame_kept_def)

lemma thread_kept_trans: "thread_kept t u \<Longrightarrow> thread_kept u v \<Longrightarrow> thread_kept t v"
proof -
  assume tu: "thread_kept t u" and uv: "thread_kept u v"
  have "list_all2 frame_kept (st_frames t) (st_frames v)"
  proof (rule list_all2_trans [of frame_kept frame_kept frame_kept])
    show "list_all2 frame_kept (st_frames t) (st_frames u)" using tu by (simp add: thread_kept_def)
    show "list_all2 frame_kept (st_frames u) (st_frames v)" using uv by (simp add: thread_kept_def)
  qed (rule frame_kept_trans)
  moreover have "v = t\<lparr>st_frames := st_frames v\<rparr>"
    using tu uv by (cases t; cases u; cases v) (simp add: thread_kept_def)
  ultimately show ?thesis by (simp add: thread_kept_def)
qed

lemma module_kept_trans:
  "module_kept given id_of m n \<Longrightarrow> module_kept given id_of n k \<Longrightarrow> module_kept given id_of m k"
  by (auto simp: module_kept_def)

lemma result_kept_trans:
  assumes "result_kept given id_of r s" and "result_kept given id_of s t"
  shows "result_kept given id_of r t"
proof -
  have "list_all2 thread_kept (sr_threads r) (sr_threads t)"
    using assms thread_kept_trans unfolding result_kept_def by (blast intro: list_all2_trans [of thread_kept thread_kept])
  moreover have "list_all2 (module_kept given id_of) (sr_modules r) (sr_modules t)"
    using assms module_kept_trans unfolding result_kept_def
    by (blast intro: list_all2_trans [of "module_kept given id_of" "module_kept given id_of"])
  moreover have "t = r\<lparr>sr_modules := sr_modules t, sr_threads := sr_threads t\<rparr>"
    using assms by (cases r; cases s; cases t) (simp add: result_kept_def)
  ultimately show ?thesis by (simp add: result_kept_def)
qed

lemma resolve_frame_kept: "frame_kept f (fst (resolve_frame lib cache name f))"
  by (simp add: resolve_frame_def frame_kept_def split: option.split list.split)

lemma resolve_thread_kept: "thread_kept t (fst (resolve_thread lib cache name t))"
  by (simp add: resolve_thread_def thread_kept_def Let_def list_all2_conv_all_nth resolve_frame_kept)

lemma resolve_module_kept:
  assumes "i < length (sr_modules r)" and "is_some_and (Option.bind (sm_debug_id (sr_modules r ! i)) id_of) given"
  shows "result_kept given id_of r (resolve_module lib cache i r)"
proof -
  let ?s = "resolve_module lib cache i r"
  have "list_all2 thread_kept (sr_threads r) (sr_threads ?s)"
    by (simp add: resolve_module_def Let_def list_all2_conv_all_nth resolve_thread_kept)
  moreover have "module_kept given id_of (sr_modules r ! j) (sr_modules ?s ! j)" if "j < length (sr_modules r)" for j
  proof (cases "j = i")
    case True
    then show ?thesis using that assms by (auto simp: resolve_module_def Let_def module_kept_def)
  next
    case False
    then have "sr_modules ?s ! j = sr_modules r ! j" by (simp add: resolve_module_def Let_def)
    then show ?thesis by simp
  qed
  then have "list_all2 (module_kept given id_of) (sr_modules r) (sr_modules ?s)"
    by (simp add: list_all2_conv_all_nth) (simp add: resolve_module_def Let_def)
  moreover have "?s = r\<lparr>sr_modules := sr_modules ?s, sr_threads := sr_threads ?s\<rparr>"
    by (cases r) (simp add: resolve_module_def Let_def)
  ultimately show ?thesis by (simp add: result_kept_def)
qed

lemma apply_symcache_kept:
  assumes "apply_symcache fs lib artifacts i r = Inr s" and "i < length (sr_modules r)"
  shows "result_kept (\<lambda>d. om_get artifacts d \<noteq> None) (debug_id_of lib) r s"
  using assms
  by (auto simp: apply_symcache_def Let_def result_simps intro!: resolve_module_kept split: option.splits if_splits)

lemma apply_symcaches_kept:
  fixes lib :: "('i :: linorder, 'c, 'v, 'o, 'k) symcache_library"
  assumes "fold_result (apply_symcache fs lib artifacts) is r = Inr s" and "\<forall>i \<in> set is. i < length (sr_modules r)"
  shows "result_kept (\<lambda>d. om_get artifacts d \<noteq> None) (debug_id_of lib) r s"
  using assms
proof (induction "is" arbitrary: r)
  case (Cons i "is")
  from Cons.prems(1) obtain t where t: "apply_symcache fs lib artifacts i r = Inr t"
    and run: "fold_result (apply_symcache fs lib artifacts) is t = Inr s"
    by (auto simp: result_simps)
  have kept: "result_kept (\<lambda>d. om_get artifacts d \<noteq> None) (debug_id_of lib) r t"
    using apply_symcache_kept [OF t] Cons.prems(2) by simp
  then have "length (sr_modules t) = length (sr_modules r)"
    unfolding result_kept_def by (metis list_all2_lengthD)
  with Cons.prems(2) have "result_kept (\<lambda>d. om_get artifacts d \<noteq> None) (debug_id_of lib) t s"
    by (intro Cons.IH [OF run]) auto
  with kept show ?case by (rule result_kept_trans)
qed simp

lemma symbolicate_with_symcaches_kept:
  fixes fs :: "'e symbol_fs" and lib :: "('i :: linorder, 'c, 'v, 'o, 'k) symcache_library"
  assumes "symbolicate_with_symcaches fs objects pdbs dumps run lib dump symbols symcaches limits = Inr s"
  shows "\<exists>r. symbolicate_minidump_bytes fs objects pdbs dumps run dump symbols limits = Inr r
    \<and> result_kept (\<lambda>d. d \<in> {d. \<exists>a \<in> set symcaches. debug_id_of lib (sca_debug_id a) = Some d}) (debug_id_of lib) r s
    \<and> distinct (map (\<lambda>a. debug_id_of lib (sca_debug_id a)) symcaches)"
proof -
  from assms obtain r artifacts where
    r: "symbolicate_minidump_bytes fs objects pdbs dumps run dump symbols limits = Inr r"
    and artifacts: "collect_symcaches lib symcaches = (Inr artifacts :: ('e symbolication_error, ('i, symcache_artifact) ordered_map) result)"
    and run: "fold_result (apply_symcache fs lib artifacts) [0..<length (sr_modules r)] r = Inr s"
    by (auto simp: symbolicate_with_symcaches_def result_simps)
  have "result_kept (\<lambda>d. om_get artifacts d \<noteq> None) (debug_id_of lib) r s"
    using apply_symcaches_kept [OF run] by simp
  moreover have "(\<lambda>d. om_get artifacts d \<noteq> None)
      = (\<lambda>d. d \<in> {d. \<exists>a \<in> set symcaches. debug_id_of lib (sca_debug_id a) = Some d})"
    using collect_symcaches_spec(3) [OF artifacts] by auto
  ultimately show ?thesis using r collect_symcaches_spec(2) [OF artifacts] by metis
qed

subsection \<open>Properties\<close>

text \<open>C23: symbolication with caches gives the result it gives without them, except that frames may have been
  resolved (then to a known function) and modules marked as matched. Every thread, frame, address and name
  stays; a module is marked only if its executable was found and a cache with its debug identity was
  given, no two caches having the same identity.\<close>

theorem symcaches_only_resolve:
  fixes fs :: "'e symbol_fs" and lib :: "('i :: linorder, 'c, 'v, 'o, 'k) symcache_library"
  assumes "symbolicate_with_symcaches fs objects pdbs dumps run lib dump symbols symcaches limits = Inr s"
  shows "\<exists>r. symbolicate_minidump_bytes fs objects pdbs dumps run dump symbols limits = Inr r
    \<and> result_kept (\<lambda>d. d \<in> {d. \<exists>a \<in> set symcaches. debug_id_of lib (sca_debug_id a) = Some d}) (debug_id_of lib) r s
    \<and> distinct (map (\<lambda>a. debug_id_of lib (sca_debug_id a)) symcaches)"
  using assms by (rule symbolicate_with_symcaches_kept)

text \<open>a cache that was generated is within the size limit, carries its own identity in its metadata, and
  is accepted by symbolication wherever it is stored unchanged: applying it to a module with its debug
  identity never fails.\<close>

theorem generated_symcache_accepted:
  fixes lib :: "('i :: linorder, 'c, 'v, 'o, 'k) symcache_library"
  assumes "generate_symcache fs lib publish input output_path maximum = Inr (bytes, meta)"
    and "fs_symlink_metadata gs (sca_path a) = Inr (RegularFile, length bytes)" and "fs_read_to_end gs (sca_path a) = Inr bytes"
  shows "\<exists>cache. cache_parse lib bytes = Some cache \<and> scm_byte_size meta = length bytes \<and> length bytes \<le> max_symcache_bytes
    \<and> scm_debug_id meta = to_ascii_uppercase (debug_id_text lib (cache_debug_id lib cache)) \<and> publish output_path bytes
    \<and> (\<forall>artifacts r i. om_get artifacts (cache_debug_id lib cache) = Some a
        \<and> Option.bind (sm_debug_id (sr_modules r ! i)) (debug_id_of lib) = Some (cache_debug_id lib cache)
        \<longrightarrow> apply_symcache gs lib artifacts i r = Inr (resolve_module lib cache i r))"
proof -
  from assms(1) obtain cache where cache: "cache_parse lib bytes = Some cache" "cache_is_latest lib cache"
    and meta: "scm_byte_size meta = length bytes" "length bytes \<le> max_symcache_bytes"
      "scm_debug_id meta = to_ascii_uppercase (debug_id_text lib (cache_debug_id lib cache))" "publish output_path bytes"
    by (auto simp: generate_symcache_def result_simps linorder_not_less split: if_splits)
  have "read_cache_file gs (sca_path a) = Inr bytes"
    using assms(2,3) meta(2) by (simp add: read_cache_file_def)
  with cache meta show ?thesis by (intro exI [of _ cache]) (simp add: apply_symcache_def Let_def)
qed

subsection \<open>A small cache\<close>

definition sample_caches :: "(nat, nat, unit, unit, unit) symcache_library" where
  "sample_caches = \<lparr>debug_id_of = \<lambda>s. if s = lit ''CD1'' then Some 7 else None, debug_id_text = \<lambda>_. lit ''cd1'',
     cache_parse = \<lambda>_. Some 7, cache_debug_id = \<lambda>c. c, cache_is_latest = \<lambda>_. True, cache_version = \<lambda>_. 8,
     cache_arch = \<lambda>_. lit ''x86_64'',
     cache_lookup = \<lambda>_ _. [\<lparr>loc_function = lit ''Crash'', loc_file = None, loc_line = 3\<rparr>],
     view_open = \<lambda>_. Some (), object_parse = \<lambda>_. Some (), object_is_pdb = \<lambda>_. True,
     convert_object = \<lambda>_. Some (), serialize_cache = \<lambda>_. Some [1, 2]\<rparr>"

definition sample_cache :: symcache_artifact where
  "sample_cache = \<lparr>sca_debug_id = lit ''CD1'', sca_path = lit ''/c''\<rparr>"

definition cache_fs :: "unit symbol_fs" where
  "cache_fs = sample_fs\<lparr>fs_symlink_metadata := \<lambda>_. Inr (RegularFile, 2), fs_read_to_end := \<lambda>_. Inr [1, 2]\<rparr>"

theorem generated_symcache_accepted_witness:
  "\<exists>meta. generate_symcache cache_fs sample_caches (\<lambda>_ _. True) (lit ''/a.pdb'') (lit ''/c'') 10 = Inr ([1, 2], meta)
     \<and> (\<forall>r i. Option.bind (sm_debug_id (sr_modules r ! i)) (debug_id_of sample_caches) = Some 7
         \<longrightarrow> is_ok (apply_symcache cache_fs sample_caches [(7, sample_cache)] i r))"
proof -
  obtain meta where meta:
    "generate_symcache cache_fs sample_caches (\<lambda>_ _. True) (lit ''/a.pdb'') (lit ''/c'') 10 = Inr ([1, 2], meta)"
    by (simp add: generate_symcache_def cache_fs_def sample_caches_def max_symcache_bytes_def)
  have "fs_symlink_metadata cache_fs (sca_path sample_cache) = Inr (RegularFile, length [1, 2 :: byte])"
    "fs_read_to_end cache_fs (sca_path sample_cache) = Inr [1, 2]" by (simp_all add: cache_fs_def)
  from generated_symcache_accepted [OF meta this] obtain cache where "cache_parse sample_caches [1, 2] = Some cache"
    and accepted: "\<And>artifacts r i. om_get artifacts (cache_debug_id sample_caches cache) = Some sample_cache \<Longrightarrow>
        Option.bind (sm_debug_id (sr_modules r ! i)) (debug_id_of sample_caches) = Some (cache_debug_id sample_caches cache)
        \<Longrightarrow> apply_symcache cache_fs sample_caches artifacts i r = Inr (resolve_module sample_caches cache i r)" by blast
  then have "cache = 7" by (simp add: sample_caches_def)
  with accepted [of "[(7, sample_cache)]"] meta show ?thesis by (auto simp: sample_caches_def om_get_def)
qed

lemma sample_with_caches:
  "is_ok (symbolicate_with_symcaches sample_fs no_objects no_pdbs sample_minidumps sample_run sample_caches [1, 2] (lit ''/s'')
     [sample_cache] default_symbolication_limits)"
proof -
  obtain r where r: "symbolicate_minidump_bytes sample_fs no_objects no_pdbs sample_minidumps sample_run [1, 2] (lit ''/s'')
     default_symbolication_limits = Inr r"
    using sample_symbolication by (auto simp: is_ok_iff)
  have "collect_symcaches sample_caches [sample_cache]
      = (Inr [(7, sample_cache)] :: (unit symbolication_error, (nat, symcache_artifact) ordered_map) result)"
    by (simp add: collect_symcaches_def sample_caches_def sample_cache_def om_get_def om_insert_def)
  moreover have "is_ok (apply_symcache sample_fs sample_caches [(7, sample_cache)] i s)" for i s
    by (simp add: apply_symcache_def Let_def read_cache_file_def sample_fs_def sample_cache_def sample_caches_def
        max_symcache_bytes_def om_get_def split: option.split)
  then have "is_ok (fold_result (apply_symcache sample_fs sample_caches [(7, sample_cache)]) is s)" for "is" s
    by (induction "is" arbitrary: s) (simp, metis bindR_simps(2) fold_result.simps(2) is_ok_iff)
  ultimately show ?thesis by (simp add: symbolicate_with_symcaches_def r)
qed

theorem symcaches_only_resolve_witness:
  "\<exists>r s. symbolicate_with_symcaches sample_fs no_objects no_pdbs sample_minidumps sample_run sample_caches [1, 2] (lit ''/s'')
      [sample_cache] default_symbolication_limits = Inr s
    \<and> result_kept (\<lambda>d. d \<in> {d. \<exists>a \<in> set [sample_cache]. debug_id_of sample_caches (sca_debug_id a) = Some d})
        (debug_id_of sample_caches) r s"
proof -
  obtain s where s: "symbolicate_with_symcaches sample_fs no_objects no_pdbs sample_minidumps sample_run sample_caches [1, 2]
      (lit ''/s'') [sample_cache] default_symbolication_limits = Inr s"
    using sample_with_caches by (auto simp: is_ok_iff)
  from symcaches_only_resolve [OF s] s show ?thesis by blast
qed

end
