(* ===== verification/Processing.thy ===== *)
theory Processing
  imports Result_Json Symcache
begin

section \<open>Processing results (crates/processing)\<close>

text \<open>
  The composition of a crash request, its crash context and its symbolication into one versioned result, the
  bounded history of earlier attempts, and the validators that decide whether a stored result is one. Each
  validator is the conjunction of the checks the code makes, with its error. The parser of the stored bytes
  (\<^verbatim>\<open>serde_json::from_slice\<close>) is a parameter; serializing these types cannot fail.
\<close>

definition result_schema_version :: nat where "result_schema_version = 1"
definition processing_version :: nat where "processing_version = 2"
definition max_processing_history :: nat where "max_processing_history = 16"
definition max_crash_context_nodes :: nat where "max_crash_context_nodes = 100000"

datatype processing_result_error =
  MissingCrashIdentity | InvalidPrevious | UnsupportedPreviousSchema | UnsupportedPreviousProcessing
| PreviousIdentityMismatch | PreviousHistoryTooLong | SerializeFailed

datatype 'e crash_processing_error =
  RequestError crash_request_error | ContextParseError parse_error | SymbolicateError "'e symbolication_error"
| MissingCrashContext | MissingMinidump | ResultError processing_result_error

record previous_processing =
  prev_current :: json
  prev_history :: "json list"

type_synonym 'a checked = "(processing_result_error, 'a) result"

subsection \<open>Helpers\<close>

definition only_keys :: "json_map \<Rightarrow> string list \<Rightarrow> bool" where
  "only_keys object allowed \<longleftrightarrow> list_all (\<lambda>k. k \<in> set (map lit allowed)) (om_keys object)"

definition nullable_string :: "json \<Rightarrow> bool" where
  "nullable_string v \<longleftrightarrow> is_null v \<or> is_string v"

definition valid_crash_type :: "ustring \<Rightarrow> bool" where
  "valid_crash_type v \<longleftrightarrow> v \<in> set (map lit [''crash'', ''assert'', ''ensure'', ''unknown''])"

definition valid_confidence :: "ustring \<Rightarrow> bool" where
  "valid_confidence v \<longleftrightarrow> v \<in> set (map lit [''high'', ''medium'', ''low''])"

definition string_array :: "json \<Rightarrow> bool" where
  "string_array v = is_some_and (as_array v) (list_all is_string)"

definition object_of :: "json \<Rightarrow> json_map checked" where
  "object_of v = ok_or (as_object v) InvalidPrevious"

definition validate_array :: "json_map \<Rightarrow> string \<Rightarrow> (json \<Rightarrow> unit checked) \<Rightarrow> unit checked" where
  "validate_array object key validator =
     bindR (ok_or (get_as as_array object (lit key)) InvalidPrevious) (for_each validator)"

text \<open>\<^verbatim>\<open>m.get(k).is_some_and(p)\<close>\<close>

definition has_field :: "json_map \<Rightarrow> string \<Rightarrow> (json \<Rightarrow> bool) \<Rightarrow> bool" where
  "has_field object key p = is_some_and (om_get object (lit key)) p"

definition has_text :: "json_map \<Rightarrow> string \<Rightarrow> (ustring \<Rightarrow> bool) \<Rightarrow> bool" where
  "has_text object key p = is_some_and (get_as as_str object (lit key)) p"

subsection \<open>The crash context\<close>

definition validate_string_object :: "json \<Rightarrow> string list \<Rightarrow> unit checked" where
  "validate_string_object v names =
     bindR (object_of v) (\<lambda>object.
     require (length object = length names \<and> only_keys object names
       \<and> list_all (\<lambda>key. has_field object key is_string) names) InvalidPrevious)"

definition validate_normalized_value :: "json \<Rightarrow> unit checked" where
  "validate_normalized_value v = validate_string_object v [''original'', ''normalized'']"

definition validate_property :: "json \<Rightarrow> unit checked" where
  "validate_property v = validate_string_object v [''name'', ''value'']"

definition context_thread_fields :: "string list" where
  "context_thread_fields = [''call_stack'', ''crash_marker'', ''registers'', ''thread_id'', ''thread_name'']"

definition validate_context_thread :: "json \<Rightarrow> unit checked" where
  "validate_context_thread v =
     bindR (object_of v) (\<lambda>thread.
     require (length thread = length context_thread_fields \<and> only_keys thread context_thread_fields
       \<and> list_all (\<lambda>key. has_field thread key nullable_string) context_thread_fields) InvalidPrevious)"

definition validate_unknown_fields :: "json \<Rightarrow> unit checked" where
  "validate_unknown_fields v =
     bindR (object_of v) (\<lambda>parts.
     for_each (\<lambda>names. bindR (object_of names) (\<lambda>names.
       require (list_all string_array (map snd names)) InvalidPrevious)) (map snd parts))"

definition crash_context_fields :: "string list" where
  "crash_context_fields = [''parser_version'', ''crash_guid'', ''crash_type'', ''error_message'', ''build_version'',
     ''engine_version'', ''platform'', ''architecture'', ''build_configuration'', ''command_line'', ''modules'',
     ''threads'', ''system_metadata'', ''user_comment'', ''game_data'', ''unknown_fields'']"

definition validate_crash_context :: "json_map \<Rightarrow> unit checked" where
  "validate_crash_context context =
     bindR (require (length context \<in> {15, 16} \<and> only_keys context crash_context_fields
       \<and> get_as as_u64 context (lit ''parser_version'') = Some crash_context_parser_version
       \<and> has_field context ''crash_guid'' nullable_string
       \<and> has_text context ''crash_type'' valid_crash_type
       \<and> list_all (\<lambda>key. has_field context key nullable_string)
           [''error_message'', ''build_version'', ''engine_version'', ''architecture'', ''build_configuration'', ''user_comment'']
       \<and> is_none_or (om_get context (lit ''command_line'')) is_string
       \<and> has_field context ''platform'' (\<lambda>v. is_null v \<or> is_ok (validate_normalized_value v))) InvalidPrevious) (\<lambda>_.
     bindR (validate_array context ''modules'' validate_normalized_value) (\<lambda>_.
     bindR (validate_array context ''threads'' validate_context_thread) (\<lambda>_.
     bindR (validate_array context ''system_metadata'' validate_property) (\<lambda>_.
     bindR (validate_array context ''game_data'' validate_property) (\<lambda>_.
     bindR (ok_or (om_get context (lit ''unknown_fields'')) InvalidPrevious) validate_unknown_fields)))))"

subsection \<open>The request, the classification and the log\<close>

definition validate_request_file :: "json \<Rightarrow> unit checked" where
  "validate_request_file v =
     bindR (object_of v) (\<lambda>file.
     require (length file = 4 \<and> only_keys file [''index'', ''name'', ''size'', ''kind'']
       \<and> get_as as_u64 file (lit ''index'') \<noteq> None \<and> get_as as_str file (lit ''name'') \<noteq> None
       \<and> get_as as_u64 file (lit ''size'') \<noteq> None
       \<and> has_text file ''kind'' (\<lambda>kind. kind \<in> set (map lit [''crash_context'', ''minidump'', ''log'', ''unknown''])))
       InvalidPrevious)"

definition validate_request :: "json \<Rightarrow> unit checked" where
  "validate_request v =
     bindR (object_of v) (\<lambda>request.
     bindR (require (length request = 7
       \<and> only_keys request [''schema_version'', ''envelope'', ''directory_name'', ''archive_name'', ''compressed_size'',
           ''expanded_size'', ''files'']
       \<and> get_as as_u64 request (lit ''schema_version'') = Some 1
       \<and> get_as as_str request (lit ''envelope'') = Some (lit ''cr1'')
       \<and> list_all (\<lambda>key. get_as as_str request (lit key) \<noteq> None) [''directory_name'', ''archive_name'']
       \<and> list_all (\<lambda>key. get_as as_u64 request (lit key) \<noteq> None) [''compressed_size'', ''expanded_size''])
       InvalidPrevious) (\<lambda>_.
     validate_array request ''files'' validate_request_file))"

definition validate_signal :: "json \<Rightarrow> unit checked" where
  "validate_signal v =
     bindR (object_of v) (\<lambda>signal.
     require (length signal = 3 \<and> only_keys signal [''kind'', ''confidence'', ''evidence'']
       \<and> has_text signal ''kind'' (\<lambda>kind. kind \<in> set (map lit [''gpu_crash'', ''out_of_memory'']))
       \<and> has_text signal ''confidence'' valid_confidence
       \<and> has_field signal ''evidence'' string_array) InvalidPrevious)"

definition validate_classification :: "json \<Rightarrow> unit checked" where
  "validate_classification v =
     bindR (object_of v) (\<lambda>classification.
     bindR (require (length classification = 4
       \<and> only_keys classification [''crash_type'', ''confidence'', ''evidence'', ''signals'']
       \<and> has_text classification ''crash_type'' valid_crash_type
       \<and> has_text classification ''confidence'' valid_confidence
       \<and> has_field classification ''evidence'' string_array) InvalidPrevious) (\<lambda>_.
     validate_array classification ''signals'' validate_signal))"

definition validate_log :: "json \<Rightarrow> unit checked" where
  "validate_log v =
     bindR (object_of v) (\<lambda>log.
     bindR (require (length log = 2 \<and> only_keys log [''name'', ''tail''] \<and> get_as as_str log (lit ''name'') \<noteq> None)
       InvalidPrevious) (\<lambda>_.
     bindR (ok_or (get_as as_object log (lit ''tail'')) InvalidPrevious) (\<lambda>tail.
     require (length tail = 3 \<and> only_keys tail [''text'', ''truncated'', ''invalid_utf8'']
       \<and> get_as as_str tail (lit ''text'') \<noteq> None \<and> get_as as_bool tail (lit ''truncated'') \<noteq> None
       \<and> get_as as_bool tail (lit ''invalid_utf8'') \<noteq> None) InvalidPrevious)))"

subsection \<open>The symbolication\<close>

definition validate_symbolication_header :: "json_map \<Rightarrow> nat \<Rightarrow> unit checked" where
  "validate_symbolication_header symbolication version =
     (let names = [''schema_version'', ''symbolicator_version'', ''minidump_version'', ''minidump_processor_version'',
            ''minidump_unwind_version'', ''platform'', ''architecture'', ''faulting_thread_id'', ''modules'', ''threads'']
            @ (if version = 1 then [] else [''exception_reason'', ''assertion'']);
          expected_schema = (if version = 1 then 1 else 2)
      in bindR (require (length symbolication = length names \<and> only_keys symbolication names
           \<and> get_as as_u64 symbolication (lit ''schema_version'') = Some expected_schema
           \<and> get_as as_str symbolication (lit ''platform'') = Some (lit ''windows'')
           \<and> get_as as_str symbolication (lit ''architecture'') = Some (lit ''x86_64'')
           \<and> has_field symbolication ''modules'' is_array \<and> has_field symbolication ''threads'' is_array) InvalidPrevious) (\<lambda>_.
         bindR (require (\<not> (version = 2 \<and>
             \<not> list_all (\<lambda>key. has_field symbolication key nullable_string) [''exception_reason'', ''assertion'']))
             InvalidPrevious) (\<lambda>_.
         bindR (for_each (\<lambda>key. require (has_text symbolication key (\<lambda>s. s \<noteq> [])) InvalidPrevious)
           [''symbolicator_version'', ''minidump_version'', ''minidump_processor_version'', ''minidump_unwind_version'']) (\<lambda>_.
         bindR (ok_or (om_get symbolication (lit ''faulting_thread_id'')) InvalidPrevious) (\<lambda>faulting_thread.
         require (is_null faulting_thread \<or> is_u64 faulting_thread) InvalidPrevious)))))"

definition module_statuses_text :: "string list" where
  "module_statuses_text = [''matched'', ''missing_pe'', ''missing_pdb'', ''mismatched'', ''missing_identity'']"

definition validate_module :: "json \<Rightarrow> unit checked" where
  "validate_module v =
     bindR (object_of v) (\<lambda>m.
     require (only_keys m [''module'', ''base_address'', ''size'', ''code_id'', ''debug_id'', ''status'', ''pe'', ''pdb'',
           ''symcache_format'']
       \<and> length m \<in> {8, 9}
       \<and> get_as as_str m (lit ''module'') \<noteq> None \<and> get_as as_str m (lit ''base_address'') \<noteq> None
       \<and> get_as as_u64 m (lit ''size'') \<noteq> None
       \<and> has_text m ''status'' (\<lambda>status. status \<in> set (map lit module_statuses_text))
       \<and> list_all (\<lambda>key. has_field m key nullable_string) [''code_id'', ''debug_id'', ''pe'', ''pdb'']
       \<and> is_none_or (om_get m (lit ''symcache_format'')) is_u64) InvalidPrevious)"

definition validate_modules :: "json list \<Rightarrow> unit checked" where
  "validate_modules modules = for_each validate_module modules"

definition nullable_u64 :: "json \<Rightarrow> bool" where
  "nullable_u64 v \<longleftrightarrow> is_null v \<or> is_u64 v"

definition validate_inline :: "json \<Rightarrow> unit checked" where
  "validate_inline v =
     bindR (object_of v) (\<lambda>inline.
     require (length inline = 3 \<and> only_keys inline [''function'', ''source_file'', ''source_line'']
       \<and> get_as as_str inline (lit ''function'') \<noteq> None \<and> has_field inline ''source_file'' nullable_string
       \<and> has_field inline ''source_line'' nullable_u64) InvalidPrevious)"

definition frame_statuses_text :: "string list" where
  "frame_statuses_text = [''resolved'', ''unresolved'', ''missing_pe'', ''missing_pdb'', ''mismatched'',
     ''missing_identity'', ''unknown_module'']"

definition validate_frame :: "json \<Rightarrow> unit checked" where
  "validate_frame v =
     bindR (object_of v) (\<lambda>frame.
     bindR (require (length frame = 9
       \<and> only_keys frame [''instruction'', ''module'', ''module_relative'', ''trust'', ''symbol_status'', ''function'',
           ''source_file'', ''source_line'', ''inlines'']
       \<and> get_as as_str frame (lit ''instruction'') \<noteq> None
       \<and> has_text frame ''trust'' (\<lambda>s. s \<noteq> [])
       \<and> has_text frame ''symbol_status'' (\<lambda>status. status \<in> set (map lit frame_statuses_text))
       \<and> list_all (\<lambda>key. has_field frame key nullable_string) [''module'', ''module_relative'', ''function'', ''source_file'']
       \<and> has_field frame ''source_line'' nullable_u64 \<and> has_field frame ''inlines'' is_array) InvalidPrevious) (\<lambda>_.
     bindR (ok_or (get_as as_array frame (lit ''inlines'')) InvalidPrevious) (for_each validate_inline)))"

definition unwind_statuses_text :: "string list" where
  "unwind_statuses_text = [''ok'', ''missing_context'', ''missing_memory'', ''unsupported_cpu'', ''dump_thread_skipped'']"

definition validate_thread :: "json \<Rightarrow> unit checked" where
  "validate_thread v =
     bindR (object_of v) (\<lambda>thread.
     bindR (require (length thread = 6
       \<and> only_keys thread [''thread_id'', ''faulting'', ''name'', ''unwind_status'', ''frames_truncated'', ''frames'']
       \<and> get_as as_u64 thread (lit ''thread_id'') \<noteq> None \<and> get_as as_bool thread (lit ''faulting'') \<noteq> None
       \<and> has_field thread ''name'' nullable_string
       \<and> has_text thread ''unwind_status'' (\<lambda>status. status \<in> set (map lit unwind_statuses_text))
       \<and> get_as as_bool thread (lit ''frames_truncated'') \<noteq> None
       \<and> has_field thread ''frames'' is_array) InvalidPrevious) (\<lambda>_.
     bindR (ok_or (get_as as_array thread (lit ''frames'')) InvalidPrevious) (for_each validate_frame)))"

definition validate_threads :: "json list \<Rightarrow> unit checked" where
  "validate_threads threads = for_each validate_thread threads"

definition validate_symbolication :: "json \<Rightarrow> nat \<Rightarrow> unit checked" where
  "validate_symbolication v version =
     bindR (object_of v) (\<lambda>symbolication.
     bindR (validate_symbolication_header symbolication version) (\<lambda>_.
     bindR (bindR (ok_or (get_as as_array symbolication (lit ''modules'')) InvalidPrevious) validate_modules) (\<lambda>_.
     bindR (ok_or (get_as as_array symbolication (lit ''threads'')) InvalidPrevious) validate_threads)))"

subsection \<open>Attempts and results\<close>

definition validate_attempt :: "json \<Rightarrow> unit checked" where
  "validate_attempt v =
     bindR (object_of v) (\<lambda>attempt.
     bindR (require (length attempt = 3 \<and> om_get attempt (lit ''parser_version'') \<noteq> None
       \<and> has_field attempt ''symbolication'' is_object) InvalidPrevious) (\<lambda>_.
     bindR (case get_as as_u64 attempt (lit ''processing_version'') of
              Some version \<Rightarrow> if 1 \<le> version \<and> version \<le> processing_version then Inr version
                else Inl UnsupportedPreviousProcessing
            | None \<Rightarrow> Inl InvalidPrevious) (\<lambda>version.
     bindR (require (has_field attempt ''parser_version'' is_u64) InvalidPrevious) (\<lambda>_.
     bindR (ok_or (om_get attempt (lit ''symbolication'')) InvalidPrevious) (\<lambda>symbolication.
     validate_symbolication symbolication version)))))"

definition result_fields :: "string list" where
  "result_fields = [''schema_version'', ''crash_guid'', ''crash_context'', ''request'', ''classification'', ''log'',
     ''current'', ''history'']"

definition validate_optional :: "json_map \<Rightarrow> string \<Rightarrow> (json \<Rightarrow> unit checked) \<Rightarrow> unit checked" where
  "validate_optional object key validator =
     (case om_get object (lit key) of None \<Rightarrow> Inr () | Some v \<Rightarrow> validator v)"

definition validate_processing_contract :: "json \<Rightarrow> ustring option \<Rightarrow> bool \<Rightarrow> unit checked" where
  "validate_processing_contract v expected_crash_guid require_current =
     bindR (object_of v) (\<lambda>result.
     bindR (require (only_keys result result_fields) InvalidPrevious) (\<lambda>_.
     bindR (case get_as as_u64 result (lit ''schema_version'') of
              Some version \<Rightarrow> require (version = result_schema_version) UnsupportedPreviousSchema
            | None \<Rightarrow> Inl InvalidPrevious) (\<lambda>_.
     bindR (ok_or (filter_option (\<lambda>s. trim s \<noteq> []) (get_as as_str result (lit ''crash_guid''))) InvalidPrevious) (\<lambda>guid.
     bindR (require (is_none_or expected_crash_guid (\<lambda>expected. expected = guid)) PreviousIdentityMismatch) (\<lambda>_.
     bindR (ok_or (get_as as_array result (lit ''history'')) InvalidPrevious) (\<lambda>history.
     bindR (require (length history \<le> max_processing_history) PreviousHistoryTooLong) (\<lambda>_.
     bindR (ok_or (om_get result (lit ''current'')) InvalidPrevious) (\<lambda>current.
     bindR (require (\<not> (require_current \<and>
         Option.bind (json_get current (lit ''processing_version'')) as_u64 \<noteq> Some processing_version))
         UnsupportedPreviousProcessing) (\<lambda>_.
     bindR (validate_attempt current) (\<lambda>_.
     bindR (for_each validate_attempt history) (\<lambda>_.
     bindR (ok_or (get_as as_object result (lit ''crash_context'')) InvalidPrevious) (\<lambda>context.
     bindR (require (get_as as_str context (lit ''crash_guid'') = Some guid) PreviousIdentityMismatch) (\<lambda>_.
     bindR (validate_crash_context context) (\<lambda>_.
     bindR (require (Option.bind (Option.bind (om_get result (lit ''current'')) (\<lambda>c. json_get c (lit ''parser_version''))) as_u64
         = get_as as_u64 context (lit ''parser_version'')) InvalidPrevious) (\<lambda>_.
     bindR (validate_optional result ''request'' validate_request) (\<lambda>_.
     bindR (validate_optional result ''classification'' validate_classification) (\<lambda>_.
     validate_optional result ''log'' validate_log)))))))))))))))))"

definition validate_processing_result :: "json \<Rightarrow> ustring option \<Rightarrow> unit checked" where
  "validate_processing_result v expected = validate_processing_contract v expected False"

definition validate_current_processing_result :: "json \<Rightarrow> ustring option \<Rightarrow> unit checked" where
  "validate_current_processing_result v expected = validate_processing_contract v expected True"

text \<open>The public \<^verbatim>\<open>crash_guid\<close>, under a name of its own.\<close>

definition crash_guid_of :: "crash_context_data \<Rightarrow> ustring checked" where
  "crash_guid_of context = ok_or (filter_option (\<lambda>v. trim v \<noteq> []) (crash_guid context)) MissingCrashIdentity"

definition push_bounded_history :: "json list \<Rightarrow> json \<Rightarrow> json list" where
  "push_bounded_history history attempt =
     (if length history \<ge> max_processing_history
      then drop (length history - max_processing_history + 1) history
      else history) @ [attempt]"

definition attempt_json :: "crash_context_data \<Rightarrow> symbolication_result \<Rightarrow> json" where
  "attempt_json context symbolication = struct_json
     [(''processing_version'', nat_json processing_version), (''parser_version'', nat_json (parser_version context)),
      (''symbolication'', symbolication_json symbolication)]"

definition result_json ::
  "ustring \<Rightarrow> crash_context_data \<Rightarrow> crash_request_manifest option \<Rightarrow> crash_classification option \<Rightarrow> crash_request_log option
   \<Rightarrow> json \<Rightarrow> json list \<Rightarrow> json" where
  "result_json guid context request cls rlog current history = struct_json
     ([(''schema_version'', nat_json result_schema_version), (''crash_guid'', JString guid),
       (''crash_context'', crash_context_json context)]
      @ unless_none ''request'' manifest_json request
      @ unless_none ''classification'' classification_json cls
      @ unless_none ''log'' log_json rlog
      @ [(''current'', current), (''history'', JArray history)])"

definition build_processing_result ::
  "crash_context_data \<Rightarrow> symbolication_result \<Rightarrow> previous_processing option \<Rightarrow> crash_request_manifest option
   \<Rightarrow> crash_classification option \<Rightarrow> crash_request_log option \<Rightarrow> json checked" where
  "build_processing_result context symbolication previous request cls rlog =
     bindR (crash_guid_of context) (\<lambda>guid.
     let current = attempt_json context symbolication;
         history = (case previous of None \<Rightarrow> []
           | Some p \<Rightarrow> if prev_current p \<noteq> current then push_bounded_history (prev_history p) (prev_current p)
                       else prev_history p)
     in Inr (result_json guid context request cls rlog current history))"

definition parse_previous_processing ::
  "(byte list \<Rightarrow> json option) \<Rightarrow> byte list \<Rightarrow> ustring \<Rightarrow> previous_processing checked" where
  "parse_previous_processing from_slice bytes guid =
     bindR (ok_or (from_slice bytes) InvalidPrevious) (\<lambda>v.
     bindR (validate_processing_result v (Some guid)) (\<lambda>_.
     bindR (object_of v) (\<lambda>result.
     bindR (ok_or (om_get result (lit ''current'')) InvalidPrevious) (\<lambda>current.
     bindR (ok_or (get_as as_array result (lit ''history'')) InvalidPrevious) (\<lambda>history.
     Inr \<lparr>prev_current = current, prev_history = history\<rparr>)))))"

text \<open>One crash request; \<open>None\<close> is a reader that never returns.\<close>

definition process_crash_request where
  "process_crash_request x z fs objects pdbs dumps run caches from_slice input symbols symcaches previous =
     map_option (\<lambda>contents.
       bindR (map_err RequestError contents) (\<lambda>contents.
       bindR (ok_or (crash_context contents) MissingCrashContext) (\<lambda>xml.
       bindR (map_err ContextParseError (parse_context x max_crash_context_nodes xml)) (\<lambda>parsed.
       let classified = classification x parsed; context = extract_context x default_extraction_options parsed in
       bindR (map_err ResultError (transpose_map
         (\<lambda>bytes. bindR (crash_guid_of context) (parse_previous_processing from_slice bytes)) previous)) (\<lambda>previous.
       bindR (ok_or (minidump contents) MissingMinidump) (\<lambda>dump.
       bindR (map_err SymbolicateError
         (if symcaches = [] then
            symbolicate_minidump_bytes fs objects pdbs dumps run dump symbols default_symbolication_limits
          else symbolicate_with_symcaches fs objects pdbs dumps run caches dump symbols symcaches
            default_symbolication_limits)) (\<lambda>symbolication.
       map_err ResultError (build_processing_result context symbolication previous (Some (manifest contents))
         (Some classified) (log_contents contents)))))))))
     (read_crash_request x z input default_crash_request_limits)"

end
