(* ===== verification/Processing_Valid.thy ===== *)
theory Processing_Valid
  imports Processing
begin

section \<open>Serialized results are valid\<close>

text \<open>
  The validators accept what the serializers write: every component of a result, an attempt, and a whole
  result, whichever of its optional parts it has.
\<close>

subsection \<open>Serialized values are valid\<close>

lemma struct_reads [json_simps]:
  assumes "distinct (map fst kvs)"
  shows "has_field (struct_map kvs) k p = is_some_and (map_of kvs k) p"
    and "get_as f (struct_map kvs) (lit k) = Option.bind (map_of kvs k) f"
    and "has_text (struct_map kvs) k q = is_some_and (Option.bind (map_of kvs k) as_str) q"
    and "only_keys (struct_map kvs) allowed = list_all (\<lambda>k. k \<in> set allowed) (map fst kvs)"
    and "validate_array (struct_map kvs) k v = bindR (ok_or (Option.bind (map_of kvs k) as_array) InvalidPrevious) (for_each v)"
proof -
  note facts = struct_map_facts [OF assms]
  show "has_field (struct_map kvs) k p = is_some_and (map_of kvs k) p" by (simp add: has_field_def facts)
  show "get_as f (struct_map kvs) (lit k) = Option.bind (map_of kvs k) f" by (simp add: get_as_def facts)
  show "has_text (struct_map kvs) k q = is_some_and (Option.bind (map_of kvs k) as_str) q"
    by (simp add: has_text_def get_as_def facts)
  show "validate_array (struct_map kvs) k v = bindR (ok_or (Option.bind (map_of kvs k) as_array) InvalidPrevious) (for_each v)"
    by (simp add: validate_array_def get_as_def facts)
  have "only_keys (struct_map kvs) allowed \<longleftrightarrow> set (om_keys (struct_map kvs)) \<subseteq> lit ` set allowed"
    by (auto simp: only_keys_def list_all_iff)
  also have "\<dots> \<longleftrightarrow> set (map fst kvs) \<subseteq> set allowed"
    unfolding facts(4) by (rule inj_image_subset_iff) (simp add: inj_def)
  finally show "only_keys (struct_map kvs) allowed = list_all (\<lambda>k. k \<in> set allowed) (map fst kvs)"
    by (auto simp: list_all_iff)
qed

lemma nullable_option [json_simps]:
  "nullable_string (option_json JString v)" "nullable_u64 (option_json nat_json n)"
  by (cases v; simp add: nullable_string_def json_simps) (cases n; simp add: nullable_u64_def json_simps)

lemma string_array_json [json_simps]: "string_array (list_json JString xs)"
  by (simp add: string_array_def json_simps list_all_iff)

lemma for_each_list [json_simps]: "for_each v (map f xs) = Inr () \<longleftrightarrow> (\<forall>x \<in> set xs. v (f x) = Inr ())"
  by (simp add: result_simps)

lemmas struct_simps = json_simps struct_map_facts(2,3) object_of_def result_simps

lemma inline_json_valid: "validate_inline (inline_json i) = Inr ()"
  by (simp add: validate_inline_def inline_json_def struct_simps)

lemma frame_status_text:
  "\<exists>s \<in> set frame_statuses_text. frame_status_json st = JString (lit s)"
  by (cases st) (simp_all add: frame_statuses_text_def)

lemma frame_json_valid: "validate_frame (frame_json f) = Inr () \<longleftrightarrow> sf_trust f \<noteq> []"
proof -
  obtain s where "s \<in> set frame_statuses_text" "frame_status_json (sf_symbol_status f) = JString (lit s)"
    using frame_status_text by blast
  then show ?thesis by (simp add: validate_frame_def frame_json_def struct_simps inline_json_valid image_iff)
qed

lemma thread_json_valid: "validate_thread (thread_json t) = Inr () \<longleftrightarrow> list_all (\<lambda>f. sf_trust f \<noteq> []) (st_frames t)"
proof -
  obtain s where "s \<in> set unwind_statuses_text" "unwind_status_json (st_unwind_status t) = JString (lit s)"
    by (cases "st_unwind_status t") (simp_all add: unwind_statuses_text_def)
  then show ?thesis
    by (simp add: validate_thread_def thread_json_def struct_simps frame_json_valid image_iff list_all_iff)
qed

lemma nat_json_nullable: "n \<noteq> None \<longrightarrow> is_u64 (option_json nat_json n)"
  by (cases n) (simp_all add: json_simps)

lemma module_json_valid: "validate_module (module_json m) = Inr ()"
proof -
  obtain s where s: "s \<in> set module_statuses_text" "module_status_json (sm_status m) = JString (lit s)"
    by (cases "sm_status m") (simp_all add: module_statuses_text_def)
  show ?thesis
  proof (cases "sm_symcache_format m")
    case None
    with s show ?thesis by (simp add: validate_module_def module_json_def struct_simps image_iff)
  next
    case (Some n)
    with s show ?thesis by (simp add: validate_module_def module_json_def struct_simps image_iff)
  qed
qed

text \<open>What the minidump crates promise of a result: trust levels have names.\<close>

definition trusts_named :: "symbolication_result \<Rightarrow> bool" where
  "trusts_named r \<longleftrightarrow> list_all (\<lambda>t. list_all (\<lambda>f. sf_trust f \<noteq> []) (st_frames t)) (sr_threads r)"

text \<open>The constants that \<^verbatim>\<open>build_result\<close> puts into every result.\<close>

definition current_schema :: "symbolication_result \<Rightarrow> bool" where
  "current_schema r \<longleftrightarrow> sr_schema_version r = symbolication_schema_version \<and> sr_symbolicator_version r = cargo_pkg_version
     \<and> sr_minidump_version r = minidump_version \<and> sr_minidump_processor_version r = minidump_processor_version
     \<and> sr_minidump_unwind_version r = minidump_unwind_version \<and> sr_platform r = lit ''windows''
     \<and> sr_architecture r = lit ''x86_64''"

lemma symbolication_json_valid:
  assumes "current_schema r"
  shows "validate_symbolication (symbolication_json r) 2 = Inr () \<longleftrightarrow> trusts_named r"
proof -
  have "is_null (option_json nat_json n) \<or> is_u64 (option_json nat_json n)" for n
    by (cases n) (simp_all add: json_simps)
  with assms show ?thesis
    by (simp add: validate_symbolication_def validate_symbolication_header_def symbolication_json_def struct_simps
        current_schema_def symbolication_schema_version_def cargo_pkg_version_def minidump_version_def
        minidump_processor_version_def minidump_unwind_version_def validate_modules_def validate_threads_def
        module_json_valid thread_json_valid trusts_named_def list_all_iff)
qed

lemma normalized_value_json_valid: "validate_normalized_value (normalized_value_json v) = Inr ()"
  by (simp add: validate_normalized_value_def validate_string_object_def normalized_value_json_def struct_simps)

lemma property_json_valid: "validate_property (crash_context_property_json v) = Inr ()"
  by (simp add: validate_property_def validate_string_object_def crash_context_property_json_def struct_simps)

lemma context_thread_json_valid: "validate_context_thread (crash_context_thread_json t) = Inr ()"
  by (simp add: validate_context_thread_def context_thread_fields_def crash_context_thread_json_def struct_simps)

lemma unknown_fields_json_valid: "validate_unknown_fields (unknown_fields_json u) = Inr ()"
  by (auto simp: validate_unknown_fields_def unknown_fields_json_def struct_simps list_all_iff case_prod_beta)

lemma crash_type_json_valid: "\<exists>s. valid_crash_type s \<and> crash_type_json c = JString s"
  by (cases c) (simp_all add: valid_crash_type_def)

lemma confidence_json_valid: "\<exists>s. valid_confidence s \<and> confidence_json c = JString s"
  by (cases c) (simp_all add: valid_confidence_def)

lemma crash_context_json_valid:
  assumes "parser_version c = crash_context_parser_version"
  shows "\<exists>m. as_object (crash_context_json c) = Some m \<and> validate_crash_context m = Inr ()
    \<and> get_as as_str m (lit ''crash_guid'') = crash_guid c \<and> get_as as_u64 m (lit ''parser_version'') = Some (parser_version c)"
proof -
  obtain s where s: "valid_crash_type s" "crash_type_json (ctx_crash_type c) = JString s"
    using crash_type_json_valid by blast
  have platform: "is_null (option_json normalized_value_json v) \<or> is_ok (validate_normalized_value (option_json normalized_value_json v))" for v
    by (cases v) (simp_all add: json_simps normalized_value_json_valid)
  have guid: "as_str (option_json JString v) = v" for v by (cases v) (simp_all add: json_simps)
  show ?thesis
  proof (cases "command_line c")
    case None
    with s assms platform guid show ?thesis
      by (simp add: crash_context_json_def validate_crash_context_def crash_context_fields_def struct_simps
          normalized_value_json_valid property_json_valid context_thread_json_valid unknown_fields_json_valid)
  next
    case (Some line)
    with s assms platform guid show ?thesis
      by (simp add: crash_context_json_def validate_crash_context_def crash_context_fields_def struct_simps
          normalized_value_json_valid property_json_valid context_thread_json_valid unknown_fields_json_valid)
  qed
qed

lemma request_file_json_valid: "validate_request_file (crash_request_file_json f) = Inr ()"
  by (cases "file_of_kind f") (simp_all add: validate_request_file_def crash_request_file_json_def struct_simps)

lemma manifest_json_valid:
  "schema_version m = 1 \<Longrightarrow> envelope m = lit ''cr1'' \<Longrightarrow> validate_request (manifest_json m) = Inr ()"
  by (simp add: validate_request_def manifest_json_def struct_simps request_file_json_valid)

lemma signal_json_valid: "validate_signal (crash_signal_json s) = Inr ()"
proof -
  obtain c where "valid_confidence c" "confidence_json (sig_confidence s) = JString c" using confidence_json_valid by blast
  then show ?thesis
    by (cases "sig_kind s") (simp_all add: validate_signal_def crash_signal_json_def struct_simps)
qed

lemma classification_json_valid: "validate_classification (classification_json c) = Inr ()"
proof -
  obtain v where "valid_confidence v" "confidence_json (cls_confidence c) = JString v" using confidence_json_valid by blast
  moreover obtain t where "valid_crash_type t" "crash_type_json (cls_crash_type c) = JString t"
    using crash_type_json_valid by blast
  ultimately show ?thesis
    by (simp add: validate_classification_def classification_json_def struct_simps signal_json_valid)
qed

lemma log_json_valid: "validate_log (log_json l) = Inr ()"
  by (simp add: validate_log_def log_json_def log_tail_json_def struct_simps)

subsection \<open>Valid attempts and results\<close>

lemma attempt_json_valid:
  "current_schema r \<Longrightarrow> trusts_named r \<Longrightarrow> validate_attempt (attempt_json c r) = Inr ()"
  by (simp add: validate_attempt_def attempt_json_def struct_simps processing_version_def symbolication_json_valid)
     (simp add: symbolication_json_def json_simps)

lemma attempt_json_versions:
  "json_get (attempt_json c r) (lit ''processing_version'') = Some (nat_json 2)"
  "json_get (attempt_json c r) (lit ''parser_version'') = Some (nat_json (parser_version c))"
  by (simp_all add: attempt_json_def struct_json_get processing_version_def)

text \<open>A result of a valid context, request, current attempt and history.\<close>

lemma result_json_valid:
  assumes "crash_guid c = Some guid" and "trim guid \<noteq> []" and "parser_version c = crash_context_parser_version"
    and "is_none_or request (\<lambda>m. schema_version m = 1 \<and> envelope m = lit ''cr1'')"
    and "validate_attempt current = Inr ()" and "json_get current (lit ''processing_version'') = Some (nat_json 2)"
    and "json_get current (lit ''parser_version'') = Some (nat_json (parser_version c))"
    and "\<forall>a \<in> set history. validate_attempt a = Inr ()" and "length history \<le> 16"
  shows "validate_processing_contract (result_json guid c request cls rlog current history) expected require_current
    = require (is_none_or expected (\<lambda>e. e = guid)) PreviousIdentityMismatch"
proof -
  obtain m where m: "as_object (crash_context_json c) = Some m" "validate_crash_context m = Inr ()"
    "get_as as_str m (lit ''crash_guid'') = crash_guid c" "get_as as_u64 m (lit ''parser_version'') = Some (parser_version c)"
    using crash_context_json_valid [OF assms(3)] by blast
  have history: "for_each validate_attempt history = Inr ()" using assms(8) by (simp add: result_simps)
  show ?thesis
    using assms(1-7,9) m history
    by (cases "is_none_or expected (\<lambda>e. e = guid)"; cases request; cases cls; cases rlog)
       (simp_all add: validate_processing_contract_def result_json_def json_simps struct_map_facts(2,3) object_of_def
          max_processing_history_def processing_version_def result_schema_version_def result_fields_def
          validate_optional_def manifest_json_valid classification_json_valid log_json_valid)
qed

end
