(* ===== verification/Processing_History.thy ===== *)
theory Processing_History
  imports Processing_Valid
begin

section \<open>The history of a crash and the results of processing\<close>

text \<open>
  The history is a bounded log. The locale \<open>bounded_history\<close> states what a client needs of
  \<^verbatim>\<open>push_bounded_history\<close> (it keeps the newest entries); its lemmas are used through the interpretation on the
  code's function. The abstract specification is the unbounded log of the attempts of a crash in which
  no attempt repeats the one before; a stored result holds its last entry as the current attempt and the
  newest 16 earlier ones. Building a result from a stored one refines the step of that log.
\<close>

subsection \<open>Bounded logs\<close>

definition last_n :: "nat \<Rightarrow> 'a list \<Rightarrow> 'a list" where
  "last_n n xs = drop (length xs - n) xs"

lemma length_last_n [simp]: "length (last_n n xs) = min (length xs) n"
  by (simp add: last_n_def)

lemma last_n_suffix: "suffix (last_n n xs) xs"
  by (simp add: last_n_def suffix_drop)

lemma set_last_n: "x \<in> set (last_n n xs) \<Longrightarrow> x \<in> set xs"
  by (auto simp: last_n_def dest: in_set_dropD)

lemma last_n_all: "length xs \<le> n \<Longrightarrow> last_n n xs = xs"
  by (simp add: last_n_def)

lemma last_n_append_last_n: "last_n n (last_n n xs @ [x]) = last_n n (xs @ [x])"
  by (cases "length xs \<le> n") (auto simp: last_n_def Suc_diff_le)

locale bounded_history =
  fixes push :: "'a list \<Rightarrow> 'a \<Rightarrow> 'a list" and capacity :: nat
  assumes push_newest: "push h a = last_n capacity (h @ [a])"
begin

lemma length_push: "length (push h a) \<le> capacity"
  by (simp add: push_newest)

lemma push_last_n: "push (last_n capacity h) a = last_n capacity (h @ [a])"
  by (simp add: push_newest last_n_append_last_n)

lemma set_push: "x \<in> set (push h a) \<Longrightarrow> x \<in> set h \<or> x = a"
  by (auto simp: push_newest dest: set_last_n)

lemma push_keeps_new: "0 < capacity \<Longrightarrow> last (push h a) = a"
  by (simp add: push_newest last_n_def Suc_diff_le)

lemma fold_push: "fold (\<lambda>a h. push h a) as [] = last_n capacity as"
proof (induction as rule: rev_induct)
  case (snoc a as)
  then show ?case by (simp add: push_last_n)
qed (simp add: last_n_def)

end

lemma push_bounded_history_newest: "push_bounded_history h a = last_n 16 (h @ [a])"
proof (cases "16 \<le> length h")
  case True
  then have "Suc (length h - 16) = length h - 15" by simp
  with True show ?thesis by (simp add: push_bounded_history_def last_n_def max_processing_history_def)
qed (simp add: push_bounded_history_def last_n_def max_processing_history_def)

interpretation attempts: bounded_history push_bounded_history 16
  by unfold_locales (rule push_bounded_history_newest)

subsection \<open>Previous results\<close>

definition previous_ok :: "previous_processing \<Rightarrow> bool" where
  "previous_ok p \<longleftrightarrow> validate_attempt (prev_current p) = Inr ()
     \<and> (\<forall>a \<in> set (prev_history p). validate_attempt a = Inr ()) \<and> length (prev_history p) \<le> 16"

text \<open>What the contract checks, in one formula.\<close>

definition result_accepted :: "json_map \<Rightarrow> ustring \<Rightarrow> json \<Rightarrow> json list \<Rightarrow> json_map \<Rightarrow> bool" where
  "result_accepted m guid current history context \<longleftrightarrow>
     only_keys m result_fields \<and> get_as as_u64 m (lit ''schema_version'') = Some 1
     \<and> get_as as_str m (lit ''crash_guid'') = Some guid \<and> trim guid \<noteq> []
     \<and> get_as as_array m (lit ''history'') = Some history \<and> length history \<le> 16 \<and> om_get m (lit ''current'') = Some current
     \<and> validate_attempt current = Inr () \<and> (\<forall>a \<in> set history. validate_attempt a = Inr ())
     \<and> get_as as_object m (lit ''crash_context'') = Some context
     \<and> get_as as_str context (lit ''crash_guid'') = Some guid \<and> validate_crash_context context = Inr ()
     \<and> Option.bind (json_get current (lit ''parser_version'')) as_u64 = get_as as_u64 context (lit ''parser_version'')
     \<and> validate_optional m ''request'' validate_request = Inr ()
     \<and> validate_optional m ''classification'' validate_classification = Inr ()
     \<and> validate_optional m ''log'' validate_log = Inr ()"

lemma validate_contract_iff:
  "validate_processing_contract v expected require_current = Inr () \<longleftrightarrow>
     (\<exists>m guid current history context. as_object v = Some m \<and> result_accepted m guid current history context
        \<and> is_none_or expected (\<lambda>e. e = guid)
        \<and> (require_current \<longrightarrow> Option.bind (json_get current (lit ''processing_version'')) as_u64 = Some 2))"
proof -
  have schema: "(case get_as as_u64 m (lit ''schema_version'') of
        Some version \<Rightarrow> require (version = result_schema_version) UnsupportedPreviousSchema | None \<Rightarrow> Inl InvalidPrevious) = Inr ()
      \<longleftrightarrow> get_as as_u64 m (lit ''schema_version'') = Some 1" for m
    by (auto simp: result_simps result_schema_version_def split: option.splits)
  have unit: "(\<exists>a. r = Inr a \<and> f a = Inr ()) \<longleftrightarrow> r = Inr () \<and> f () = Inr ()" for r :: "unit checked" and f :: "unit \<Rightarrow> unit checked"
    by auto
  show ?thesis
    unfolding validate_processing_contract_def object_of_def result_accepted_def
    by (simp add: bindR_eq_Inr schema ok_or_eq require_eq filter_option_eq_Some for_each_eq_Inr
        max_processing_history_def processing_version_def) (rule iffI; elim exE conjE; intro exI conjI; (assumption | simp))
qed

lemma result_accepted_unique:
  "result_accepted m guid current history context \<Longrightarrow> result_accepted m guid' current' history' context' \<Longrightarrow>
     guid = guid' \<and> current = current' \<and> history = history' \<and> context = context'"
  by (simp add: result_accepted_def)

lemma parse_previous_processing_iff:
  "parse_previous_processing from_slice bytes guid = Inr p \<longleftrightarrow>
     (\<exists>v m current history context. from_slice bytes = Some v \<and> as_object v = Some m
        \<and> result_accepted m guid current history context \<and> p = \<lparr>prev_current = current, prev_history = history\<rparr>)"
  unfolding parse_previous_processing_def validate_processing_result_def object_of_def
proof -
  have current_history: "om_get m (lit ''current'') = Some current \<and> get_as as_array m (lit ''history'') = Some history"
    if "result_accepted m guid current history ctx" for m guid current history ctx
    using that by (simp add: result_accepted_def)
  have "(\<exists>u. validate_processing_contract v (Some guid) False = Inr u) \<longleftrightarrow> validate_processing_contract v (Some guid) False = Inr ()" for v
    by auto
  then show "(bindR (ok_or (from_slice bytes) InvalidPrevious)
     (\<lambda>v. bindR (validate_processing_contract v (Some guid) False) (\<lambda>_. bindR (ok_or (as_object v) InvalidPrevious)
       (\<lambda>result. bindR (ok_or (om_get result (lit ''current'')) InvalidPrevious)
         (\<lambda>current. bindR (ok_or (get_as as_array result (lit ''history'')) InvalidPrevious)
           (\<lambda>history. Inr \<lparr>prev_current = current, prev_history = history\<rparr>))))) = Inr p) =
    (\<exists>v m current history context. from_slice bytes = Some v \<and> as_object v = Some m
        \<and> result_accepted m guid current history context \<and> p = \<lparr>prev_current = current, prev_history = history\<rparr>)"
    using current_history by (auto simp: bindR_eq_Inr ok_or_eq validate_contract_iff) blast+
qed

lemma parse_previous_ok: "parse_previous_processing from_slice bytes guid = Inr p \<Longrightarrow> previous_ok p"
  by (auto simp: parse_previous_processing_iff previous_ok_def result_accepted_def)

subsection \<open>Building a result\<close>

text \<open>The inputs of one attempt, and when they come from the pipeline for the crash \<open>guid\<close>.\<close>

record processing_input =
  in_context :: crash_context_data
  in_symbolication :: symbolication_result
  in_request :: "crash_request_manifest option"
  in_classification :: "crash_classification option"
  in_log :: "crash_request_log option"

definition build_from :: "processing_input \<Rightarrow> previous_processing option \<Rightarrow> json checked" where
  "build_from i previous = build_processing_result (in_context i) (in_symbolication i) previous (in_request i)
     (in_classification i) (in_log i)"

definition attempt_of :: "processing_input \<Rightarrow> json" where
  "attempt_of i = attempt_json (in_context i) (in_symbolication i)"

definition input_ok :: "ustring \<Rightarrow> processing_input \<Rightarrow> bool" where
  "input_ok guid i \<longleftrightarrow> crash_guid (in_context i) = Some guid \<and> trim guid \<noteq> []
     \<and> parser_version (in_context i) = crash_context_parser_version
     \<and> current_schema (in_symbolication i) \<and> trusts_named (in_symbolication i)
     \<and> is_none_or (in_request i) (\<lambda>m. schema_version m = 1 \<and> envelope m = lit ''cr1'')"

definition next_history :: "previous_processing option \<Rightarrow> json \<Rightarrow> json list" where
  "next_history previous current =
     (case previous of None \<Rightarrow> []
      | Some p \<Rightarrow> if prev_current p \<noteq> current then push_bounded_history (prev_history p) (prev_current p)
                  else prev_history p)"

lemma build_from_eq:
  assumes "input_ok guid i"
  shows "build_from i previous = Inr (result_json guid (in_context i) (in_request i) (in_classification i) (in_log i)
     (attempt_of i) (next_history previous (attempt_of i)))"
  using assms by (simp add: build_from_def build_processing_result_def crash_guid_of_def input_ok_def attempt_of_def
      next_history_def Let_def cong: option.case_cong)

lemma attempt_of_valid: "input_ok guid i \<Longrightarrow> validate_attempt (attempt_of i) = Inr ()"
  by (simp add: input_ok_def attempt_of_def attempt_json_valid)

lemma next_history_valid:
  assumes "is_none_or previous previous_ok"
  shows "\<forall>a \<in> set (next_history previous current). validate_attempt a = Inr ()"
    and "length (next_history previous current) \<le> 16"
proof -
  have "(\<forall>a \<in> set (next_history previous current). validate_attempt a = Inr ()) \<and> length (next_history previous current) \<le> 16"
  proof (cases previous)
    case (Some p)
    with assms have p: "validate_attempt (prev_current p) = Inr ()" "\<forall>a \<in> set (prev_history p). validate_attempt a = Inr ()"
      "length (prev_history p) \<le> 16" by (simp_all add: previous_ok_def)
    then show ?thesis using attempts.length_push attempts.set_push
      by (simp add: next_history_def Some) blast
  qed (simp add: next_history_def)
  then show "\<forall>a \<in> set (next_history previous current). validate_attempt a = Inr ()"
    and "length (next_history previous current) \<le> 16" by blast+
qed

lemma built_result_contract:
  assumes "input_ok guid i" and "is_none_or previous previous_ok"
  shows "validate_processing_contract (result_json guid (in_context i) (in_request i) (in_classification i) (in_log i)
      (attempt_of i) (next_history previous (attempt_of i))) expected require_current
    = require (is_none_or expected (\<lambda>e. e = guid)) PreviousIdentityMismatch"
  using assms next_history_valid [OF assms(2)]
  by (intro result_json_valid) (auto simp: input_ok_def attempt_of_def attempt_json_versions attempt_json_valid)

lemma result_json_reads:
  "json_get (result_json guid c request cls rlog current history) (lit ''current'') = Some current"
  "json_get (result_json guid c request cls rlog current history) (lit ''history'') = Some (JArray history)"
  "json_get (result_json guid c request cls rlog current history) (lit ''crash_guid'') = Some (JString guid)"
  unfolding result_json_def
  by (cases request; cases cls; cases rlog; simp add: struct_json_get json_simps)+

lemma parse_built:
  assumes i: "input_ok guid i" and p: "is_none_or previous previous_ok" and v: "build_from i previous = Inr v"
    and "from_slice bytes = Some v"
  shows "parse_previous_processing from_slice bytes guid
    = Inr \<lparr>prev_current = attempt_of i, prev_history = next_history previous (attempt_of i)\<rparr>"
proof -
  have v: "v = result_json guid (in_context i) (in_request i) (in_classification i) (in_log i)
     (attempt_of i) (next_history previous (attempt_of i))" using v build_from_eq [OF i] by simp
  have "validate_processing_contract v (Some guid) False = Inr ()"
    by (simp add: v built_result_contract [OF i p] result_simps)
  then obtain m current history ctx where acc: "as_object v = Some m" "result_accepted m guid current history ctx"
    by (auto simp: validate_contract_iff)
  have "json_get v (lit ''current'') = Some current" "json_get v (lit ''history'') = Some (JArray history)"
    using acc by (auto simp: json_get_def result_accepted_def get_as_def bind_eq_Some_conv elim!: as_array.elims)
  with result_json_reads have "current = attempt_of i" "history = next_history previous (attempt_of i)"
    by (simp_all add: v)
  with acc assms(4) show ?thesis by (auto simp: parse_previous_processing_iff)
qed

subsection \<open>Refinement of the log of attempts\<close>

definition record_attempt :: "json \<Rightarrow> json list \<Rightarrow> json list" where
  "record_attempt a log = (if log \<noteq> [] \<and> last log = a then log else log @ [a])"

definition represents :: "json \<Rightarrow> json list \<Rightarrow> bool" where
  "represents v log \<longleftrightarrow> log \<noteq> [] \<and> json_get v (lit ''current'') = Some (last log)
     \<and> json_get v (lit ''history'') = Some (JArray (last_n 16 (butlast log)))"

text \<open>One run of the pipeline on the stored result of the run before, as \<^verbatim>\<open>process_crash_request\<close> composes it.\<close>

definition reprocess ::
  "(byte list \<Rightarrow> json option) \<Rightarrow> (json \<Rightarrow> byte list) \<Rightarrow> processing_input \<Rightarrow> json option \<Rightarrow> json option checked" where
  "reprocess from_slice stored i previous =
     bindR (transpose_map (\<lambda>v. bindR (crash_guid_of (in_context i)) (parse_previous_processing from_slice (stored v))) previous) (\<lambda>p.
     bindR (build_from i p) (\<lambda>v. Inr (Some v)))"

lemma built_represents:
  assumes i: "input_ok guid i" and v: "build_from i previous = Inr v"
    and log: "case previous of None \<Rightarrow> log = []
      | Some p \<Rightarrow> log \<noteq> [] \<and> prev_current p = last log \<and> prev_history p = last_n 16 (butlast log)"
  shows "represents v (record_attempt (attempt_of i) log)"
proof -
  have v: "v = result_json guid (in_context i) (in_request i) (in_classification i) (in_log i)
     (attempt_of i) (next_history previous (attempt_of i))" using v build_from_eq [OF i] by simp
  show ?thesis
  proof (cases previous)
    case None
    with log show ?thesis by (simp add: v represents_def result_json_reads record_attempt_def next_history_def last_n_def)
  next
    case (Some p)
    with log have p: "log \<noteq> []" "prev_current p = last log" "prev_history p = last_n 16 (butlast log)" by simp_all
    show ?thesis
    proof (cases "last log = attempt_of i")
      case True
      with p show ?thesis
        by (simp add: v represents_def result_json_reads record_attempt_def next_history_def Some)
    next
      case False
      have "push_bounded_history (last_n 16 (butlast log)) (last log) = last_n 16 (butlast log @ [last log])"
        by (rule attempts.push_last_n)
      with p False show ?thesis
        by (simp add: v represents_def result_json_reads record_attempt_def next_history_def Some)
    qed
  qed
qed

lemma built_previous_ok:
  "input_ok guid i \<Longrightarrow> is_none_or previous previous_ok
     \<Longrightarrow> previous_ok \<lparr>prev_current = attempt_of i, prev_history = next_history previous (attempt_of i)\<rparr>"
  by (simp add: previous_ok_def attempt_of_valid next_history_valid)

text \<open>A stored result: it came from an input of this crash and represents the log.\<close>

definition stored_result :: "ustring \<Rightarrow> json \<Rightarrow> json list \<Rightarrow> bool" where
  "stored_result guid v log \<longleftrightarrow>
     (\<exists>i previous. input_ok guid i \<and> is_none_or previous previous_ok \<and> build_from i previous = Inr v) \<and> represents v log"

lemma stored_result_valid:
  "stored_result guid v log \<Longrightarrow> validate_current_processing_result v (Some guid) = Inr ()"
  by (auto simp: stored_result_def validate_current_processing_result_def build_from_eq built_result_contract result_simps)

lemma parse_stored:
  assumes "stored_result guid v log" and "from_slice bytes = Some v"
  shows "parse_previous_processing from_slice bytes guid
      = Inr \<lparr>prev_current = last log, prev_history = last_n 16 (butlast log)\<rparr>" and "log \<noteq> []"
proof -
  from assms(1) obtain i previous where i: "input_ok guid i" "is_none_or previous previous_ok" "build_from i previous = Inr v"
    and r: "represents v log" by (auto simp: stored_result_def)
  define a n where "a = attempt_of i" and "n = next_history previous a"
  then have "v = result_json guid (in_context i) (in_request i) (in_classification i) (in_log i) a n"
    using i(3) build_from_eq [OF i(1)] by simp
  then have "json_get v (lit ''current'') = Some a" "json_get v (lit ''history'') = Some (JArray n)"
    by (simp_all add: result_json_reads)
  with r have "a = last log" "n = last_n 16 (butlast log)" by (simp_all add: represents_def)
  moreover have "parse_previous_processing from_slice bytes guid = Inr \<lparr>prev_current = a, prev_history = n\<rparr>"
    unfolding n_def a_def using i assms(2) by (rule parse_built)
  ultimately show "parse_previous_processing from_slice bytes guid
      = Inr \<lparr>prev_current = last log, prev_history = last_n 16 (butlast log)\<rparr>" by simp
  show "log \<noteq> []" using r by (simp add: represents_def)
qed

lemma reprocess_step:
  assumes i: "input_ok guid i"
    and prev: "case previous of None \<Rightarrow> log = [] | Some v \<Rightarrow> stored_result guid v log \<and> from_slice (stored v) = Some v"
  shows "\<exists>w. reprocess from_slice stored i previous = Inr (Some w)
    \<and> stored_result guid w (record_attempt (attempt_of i) log)"
proof (cases previous)
  case None
  obtain w where w: "build_from i None = Inr w" using build_from_eq [OF i] by blast
  with None prev have "stored_result guid w (record_attempt (attempt_of i) log)"
    using i built_represents [OF i w, of log] unfolding stored_result_def
    by (intro conjI exI [of _ i] exI [of _ None]) simp_all
  with w None show ?thesis by (simp add: reprocess_def transpose_map_def)
next
  case (Some v)
  with prev have v: "stored_result guid v log" and store: "from_slice (stored v) = Some v" by simp_all
  let ?p = "\<lparr>prev_current = last log, prev_history = last_n 16 (butlast log)\<rparr>"
  have parse: "parse_previous_processing from_slice (stored v) guid = Inr ?p" and ne: "log \<noteq> []"
    using parse_stored [where from_slice = from_slice and bytes = "stored v", OF v store] by simp_all
  obtain w where w: "build_from i (Some ?p) = Inr w" using build_from_eq [OF i] by blast
  have "represents w (record_attempt (attempt_of i) log)"
    by (rule built_represents [OF i w]) (simp add: ne)
  moreover have "is_none_or (Some ?p) previous_ok" using parse_previous_ok [OF parse] by simp
  ultimately have "stored_result guid w (record_attempt (attempt_of i) log)"
    using i w unfolding stored_result_def by blast
  moreover have "crash_guid_of (in_context i) = Inr guid" using i by (simp add: input_ok_def crash_guid_of_def)
  then have "reprocess from_slice stored i previous = Inr (Some w)"
    using w parse by (simp add: reprocess_def transpose_map_def Some)
  ultimately show ?thesis by blast
qed

text \<open>Every intermediate result can be read back from what was stored of it.\<close>

definition stored_faithfully ::
  "(byte list \<Rightarrow> json option) \<Rightarrow> (json \<Rightarrow> byte list) \<Rightarrow> processing_input list \<Rightarrow> bool" where
  "stored_faithfully from_slice stored inputs \<longleftrightarrow>
     (\<forall>k < length inputs. \<forall>v. fold_result (reprocess from_slice stored) (take k inputs) None = Inr (Some v)
        \<longrightarrow> from_slice (stored v) = Some v)"

lemma fold_result_append:
  "fold_result f (xs @ ys) s = bindR (fold_result f xs s) (fold_result f ys)"
proof (induction xs arbitrary: s)
  case (Cons x xs)
  then show ?case by (cases "f x s") simp_all
qed simp

lemma reprocess_all:
  assumes "\<forall>i \<in> set inputs. input_ok guid i" and "stored_faithfully from_slice stored inputs"
  shows "\<exists>previous. fold_result (reprocess from_slice stored) inputs None = Inr previous
    \<and> (case previous of None \<Rightarrow> inputs = []
       | Some v \<Rightarrow> stored_result guid v (fold record_attempt (map attempt_of inputs) []))"
  using assms
proof (induction inputs rule: rev_induct)
  case (snoc i inputs)
  have store: "stored_faithfully from_slice stored inputs"
    unfolding stored_faithfully_def
  proof (intro allI impI)
    fix k v assume "k < length inputs" and "fold_result (reprocess from_slice stored) (take k inputs) None = Inr (Some v)"
    then show "from_slice (stored v) = Some v"
      using snoc.prems(2) unfolding stored_faithfully_def by (auto dest!: spec [of _ k])
  qed
  with snoc obtain previous where run: "fold_result (reprocess from_slice stored) inputs None = Inr previous"
    and log: "case previous of None \<Rightarrow> inputs = []
      | Some v \<Rightarrow> stored_result guid v (fold record_attempt (map attempt_of inputs) [])" by auto
  have "case previous of None \<Rightarrow> fold record_attempt (map attempt_of inputs) [] = []
      | Some v \<Rightarrow> stored_result guid v (fold record_attempt (map attempt_of inputs) []) \<and> from_slice (stored v) = Some v"
    using log run snoc.prems(2) unfolding stored_faithfully_def
    by (auto split: option.splits dest!: spec [of _ "length inputs"])
  from reprocess_step [OF _ this, of i] snoc.prems(1) run show ?case
    by (auto simp: fold_result_append)
qed simp

subsection \<open>Properties\<close>

text \<open>C7: reprocessing a crash any number of times refines an unbounded log of its attempts that skips
  repetitions. As long as each stored result can be read back, no run fails for the sake of the earlier
  ones; the last result is valid for the crash under the current contract, holds the newest attempt
  as its current one and exactly the newest 16 attempts before it, in order.\<close>

theorem history_refines_log:
  assumes "\<forall>i \<in> set inputs. input_ok guid i" and "stored_faithfully from_slice stored inputs" and "inputs \<noteq> []"
  shows "\<exists>v. fold_result (reprocess from_slice stored) inputs None = Inr (Some v)
    \<and> represents v (fold record_attempt (map attempt_of inputs) [])
    \<and> validate_current_processing_result v (Some guid) = Inr ()"
proof -
  from reprocess_all [OF assms(1,2)] obtain previous where
    run: "fold_result (reprocess from_slice stored) inputs None = Inr previous" and
    log: "case previous of None \<Rightarrow> inputs = []
       | Some v \<Rightarrow> stored_result guid v (fold record_attempt (map attempt_of inputs) [])" by blast
  with assms(3) obtain v where "previous = Some v"
    and v: "stored_result guid v (fold record_attempt (map attempt_of inputs) [])" by (auto split: option.splits)
  with run stored_result_valid [OF v] show ?thesis by (auto simp: stored_result_def)
qed

text \<open>A result that was built, stored and read back gives the previous processing that was built: parsing
  it for the same crash succeeds with its current attempt and its history.\<close>

theorem parse_previous_of_built:
  assumes "input_ok guid i" and "is_none_or previous previous_ok" and "build_from i previous = Inr v"
    and "from_slice bytes = Some v"
  shows "parse_previous_processing from_slice bytes guid
    = Inr \<lparr>prev_current = attempt_of i, prev_history = next_history previous (attempt_of i)\<rparr>"
  using assms by (rule parse_built)

text \<open>A stored result belongs to one crash. A valid result names its crash, and for any other expected
  crash identity validating it fails with an identity mismatch, never with another error and never by
  being accepted.\<close>

theorem result_of_other_crash_rejected:
  assumes "validate_processing_result v None = Inr ()"
  shows "\<exists>guid. json_get v (lit ''crash_guid'') = Some (JString guid) \<and> trim guid \<noteq> []
    \<and> (\<forall>expected. validate_processing_result v (Some expected)
         = (if expected = guid then Inr () else Inl PreviousIdentityMismatch))"
proof -
  from assms obtain m guid current history ctx where v: "as_object v = Some m"
    and acc: "result_accepted m guid current history ctx"
    by (auto simp: validate_processing_result_def validate_contract_iff)
  have "json_get v (lit ''crash_guid'') = Some (JString guid)" "trim guid \<noteq> []"
    using v acc by (auto simp: json_get_def result_accepted_def get_as_def bind_eq_Some_conv elim!: as_str.elims)
  moreover have "validate_processing_result v (Some expected)
      = (if expected = guid then Inr () else Inl PreviousIdentityMismatch)" for expected
  proof (cases "expected = guid")
    case True
    with v acc have "validate_processing_contract v (Some expected) False = Inr ()"
      unfolding validate_contract_iff by auto
    with True show ?thesis by (simp add: validate_processing_result_def)
  next
    case False
    with v acc show ?thesis
      by (simp add: validate_processing_result_def validate_processing_contract_def object_of_def result_accepted_def
          result_schema_version_def)
  qed
  ultimately show ?thesis by blast
qed

subsection \<open>Two runs of one crash\<close>

definition sample_context :: crash_context_data where
  "sample_context = \<lparr>parser_version = crash_context_parser_version, crash_guid = Some (lit ''G''), ctx_crash_type = CT_Crash,
     error_message = None, build_version = None, engine_version = None, platform = None, architecture = None,
     build_configuration = None, command_line = None, ctx_modules = [], ctx_threads = [], system_metadata = [],
     user_comment = None, game_data = [], ctx_unknown_fields = []\<rparr>"

definition sample_symbolication_result :: "nat option \<Rightarrow> symbolication_result" where
  "sample_symbolication_result faulting = \<lparr>sr_schema_version = symbolication_schema_version,
     sr_symbolicator_version = cargo_pkg_version, sr_minidump_version = minidump_version,
     sr_minidump_processor_version = minidump_processor_version, sr_minidump_unwind_version = minidump_unwind_version,
     sr_platform = lit ''windows'', sr_architecture = lit ''x86_64'', sr_faulting_thread_id = faulting,
     sr_exception_reason = None, sr_assertion = None, sr_modules = [], sr_threads = []\<rparr>"

definition sample_input :: "nat option \<Rightarrow> processing_input" where
  "sample_input faulting = \<lparr>in_context = sample_context, in_symbolication = sample_symbolication_result faulting,
     in_request = None, in_classification = None, in_log = None\<rparr>"

definition first_result :: json where
  "first_result = result_json (lit ''G'') sample_context None None None (attempt_of (sample_input None)) []"

lemma trim_G: "trim (lit ''G'') \<noteq> []"
  by (simp add: trim_eq_Nil lit_simps is_whitespace_def)

lemma sample_input_ok: "input_ok (lit ''G'') (sample_input faulting)"
  by (simp add: input_ok_def sample_input_def sample_context_def sample_symbolication_result_def current_schema_def
      trusts_named_def trim_G)

lemma first_build: "build_from (sample_input None) None = Inr first_result"
  by (simp add: build_from_eq [OF sample_input_ok] first_result_def next_history_def) (simp add: sample_input_def)

theorem parse_previous_of_built_witness:
  "parse_previous_processing (\<lambda>_. Some first_result) [] (lit ''G'')
     = Inr \<lparr>prev_current = attempt_of (sample_input None), prev_history = []\<rparr>"
  using parse_previous_of_built [OF sample_input_ok _ first_build, where from_slice = "\<lambda>_. Some first_result" and bytes = "[]"]
  by (simp add: next_history_def)

theorem history_refines_log_witness:
  "\<exists>v. fold_result (reprocess (\<lambda>_. Some first_result) (\<lambda>_. [])) [sample_input None, sample_input (Some 3)] None = Inr (Some v)
     \<and> represents v (fold record_attempt [attempt_of (sample_input None), attempt_of (sample_input (Some 3))] [])"
proof -
  have "reprocess (\<lambda>_. Some first_result) (\<lambda>_. []) (sample_input None) None = Inr (Some first_result)"
    by (simp add: reprocess_def transpose_map_def first_build)
  then have "stored_faithfully (\<lambda>_. Some first_result) (\<lambda>_. []) [sample_input None, sample_input (Some 3)]"
    by (auto simp: stored_faithfully_def less_Suc_eq)
  from history_refines_log [OF _ this, of "lit ''G''"] sample_input_ok show ?thesis by auto
qed

theorem result_of_other_crash_rejected_witness:
  "validate_processing_result first_result (Some (lit ''H'')) = Inl PreviousIdentityMismatch"
proof -
  have v: "first_result = result_json (lit ''G'') (in_context (sample_input None)) (in_request (sample_input None))
      (in_classification (sample_input None)) (in_log (sample_input None))
      (attempt_of (sample_input None)) (next_history None (attempt_of (sample_input None)))"
    by (simp add: first_result_def next_history_def sample_input_def)
  have "validate_processing_result first_result None = Inr ()"
    unfolding validate_processing_result_def v by (subst built_result_contract [OF sample_input_ok]) simp_all
  from result_of_other_crash_rejected [OF this] obtain guid where
    g: "json_get first_result (lit ''crash_guid'') = Some (JString guid)" and
    r: "\<And>expected. validate_processing_result first_result (Some expected)
         = (if expected = guid then Inr () else Inl PreviousIdentityMismatch)" by blast
  from g have "guid = lit ''G''" by (simp add: first_result_def result_json_reads)
  with r [of "lit ''H''"] show ?thesis by simp
qed

end
