(* ===== verification/Pipeline.thy ===== *)
theory Pipeline
  imports Processing_History
begin

section \<open>The whole pipeline\<close>

text \<open>
  \<^verbatim>\<open>process_crash_request\<close> composes the decoder of crash requests, the crash context parser, symbolication and
  the results: what its output is, whatever the request holds, and that it keeps the promises of its parts.
\<close>

subsection \<open>Symbolications from the pipeline\<close>

text \<open>The minidump crates name every trust level.\<close>

definition dumps_named :: "('dump, 'raw) minidump_library \<Rightarrow> bool" where
  "dumps_named dumps \<longleftrightarrow>
     (\<forall>d ms state. md_process dumps d ms = Some state
        \<longrightarrow> list_all (\<lambda>t. list_all (\<lambda>f. fr_trust f \<noteq> []) (pt_frames t)) (ps_threads state))"

lemma build_result_valid:
  assumes "list_all (\<lambda>t. list_all (\<lambda>f. fr_trust f \<noteq> []) (pt_frames t)) (ps_threads state)"
  shows "current_schema (build_result lib state modules limits)" and "trusts_named (build_result lib state modules limits)"
proof -
  show "current_schema (build_result lib state modules limits)" by (simp add: current_schema_def build_result_def Let_def)
  have "\<forall>f \<in> set (st_frames (result_thread lib limits k ms (i, t))). sf_trust f \<noteq> []"
    if "(i, t) \<in> set (take n (indexed_threads state))" for i t n k ms
  proof -
    have "t \<in> set (ps_threads state)" using that indexed_thread_nth [of i t state] by (auto dest: in_set_takeD)
    with assms show ?thesis
      by (auto simp: result_thread_def map_frame_def Let_def list_all_iff dest!: in_set_takeD)
  qed
  then show "trusts_named (build_result lib state modules limits)"
    by (auto simp: trusts_named_def build_result_fields list_all_iff)
qed

lemma symbolicate_minidump_bytes_valid:
  assumes "symbolicate_minidump_bytes fs objects pdbs lib run dump root limits = Inr r" and "dumps_named lib"
  shows "current_schema r" and "trusts_named r"
proof -
  have inner: "symbolicate_bytes_inner fs objects pdbs lib run dump root limits = Inr r"
    using assms(1) by (auto simp: symbolicate_minidump_bytes_def run_symbolicator_def result_simps split: if_splits received.splits)
  then obtain d ms state diagnostics where "md_process lib d ms = Some state" and r: "r = build_result lib state diagnostics limits"
    by (auto simp: symbolicate_bytes_inner_def result_simps split: if_splits prod.splits)
  then have "list_all (\<lambda>t. list_all (\<lambda>f. fr_trust f \<noteq> []) (pt_frames t)) (ps_threads state)"
    using assms(2) by (auto simp: dumps_named_def)
  from build_result_valid [OF this] show "current_schema r" "trusts_named r" by (simp_all add: r)
qed

lemma result_kept_valid:
  assumes kept: "result_kept given id_of r s" and r: "current_schema r" "trusts_named r"
  shows "current_schema s" and "trusts_named s"
proof -
  have "s = r\<lparr>sr_modules := sr_modules s, sr_threads := sr_threads s\<rparr>" using kept by (simp add: result_kept_def)
  then show "current_schema s" using r(1) by (cases r; cases s) (simp add: current_schema_def)
  have "list_all2 thread_kept (sr_threads r) (sr_threads s)" using kept by (simp add: result_kept_def)
  moreover have "list_all (\<lambda>f. sf_trust f \<noteq> []) (st_frames u)"
    if "thread_kept t u" "list_all (\<lambda>f. sf_trust f \<noteq> []) (st_frames t)" for t u
    using that by (auto simp: thread_kept_def list_all_length list_all2_conv_all_nth frame_kept_def)
  ultimately show "trusts_named s" using r(2)
    by (auto simp: trusts_named_def list_all_length list_all2_conv_all_nth)
qed

lemma read_crash_request_manifest:
  assumes "read_crash_request x z input limits = Some (Inr c)"
  shows "schema_version (manifest c) = 1 \<and> envelope (manifest c) = lit ''cr1''"
  using assms by (auto simp: read_crash_request_def decode_crash_request_def result_simps Let_def case_prod_beta)

lemma extract_context_facts:
  "parser_version (extract_context x default_extraction_options doc) = crash_context_parser_version"
  "command_line (extract_context x default_extraction_options doc) = None"
  by (simp_all add: extract_context_def Let_def default_extraction_options_def)

lemma result_json_context:
  "json_get (result_json guid c request cls rlog current history) (lit ''crash_context'') = Some (crash_context_json c)"
  unfolding result_json_def by (cases request; cases cls; cases rlog; simp add: struct_json_get json_simps)

lemma context_json_command_line:
  "command_line c = None \<Longrightarrow> json_get (crash_context_json c) (lit ''command_line'') = None"
  by (simp add: crash_context_json_def struct_json_get json_simps)

text \<open>Decoding a request parses its context, but reads no text of it.\<close>

lemma read_crash_context_same: "read_crash_context (x\<lparr>node_text := t\<rparr>) rd len limits = read_crash_context x rd len limits"
  by (simp add: read_crash_context_def cong: option.case_cong)

lemma inspect_body_same:
  "inspect_body (x\<lparr>node_text := t\<rparr>) rd limits r v name len ins = inspect_body x rd limits r v name len ins"
  by (cases "file_kind name") (simp_all add: inspect_body_def read_crash_context_same)

lemma inspect_each_same:
  "inspect_each (x\<lparr>node_text := t\<rparr>) rd limits r v ks ins = inspect_each x rd limits r v ks ins"
proof (induction ks arbitrary: ins)
  case (Cons k ks)
  then have "inspect_each (x\<lparr>node_text := t\<rparr>) rd limits r v ks = inspect_each x rd limits r v ks" by blast
  then show ?case by (simp add: inspect_file_def inspect_body_same)
qed simp

lemma read_crash_request_same: "read_crash_request (x\<lparr>node_text := t\<rparr>) z input limits = read_crash_request x z input limits"
  by (simp add: read_crash_request_def decode_crash_request_def decode_archive_def inspect_files_def inspect_each_same)

lemma process_crash_request_same:
  assumes "read_crash_request x z input default_crash_request_limits = Some (Inr contents)"
    and "crash_context contents = Some xml" and "parse_context x max_crash_context_nodes xml = Inr doc"
    and "same_but_command_line x doc t"
  shows "process_crash_request (x\<lparr>node_text := t\<rparr>) z fs objects pdbs dumps run caches from_slice input symbols symcaches previous
    = process_crash_request x z fs objects pdbs dumps run caches from_slice input symbols symcaches previous"
  using assms by (simp add: process_crash_request_def read_crash_request_same extract_context_same classification_same Let_def)

subsection \<open>Properties\<close>

text \<open>C1: whatever a crash request holds, a result that the pipeline emits is the one of the crash that the
  request's own context names: the request decodes, its crash context file parses, the \<^verbatim>\<open>CrashGUID\<close> field of
  its \<^verbatim>\<open>RuntimeProperties\<close> is the crash identity of the result, and the result passes the validator for
  current results of that crash (its history within the limit included). The context of the result is the one
  extracted from that file, it has no command line, and the whole result does not depend on the command line:
  any other texts of the \<^verbatim>\<open>CommandLine\<close> fields give the same result. A previous result was used only if it
  was valid for the same crash.\<close>

theorem process_crash_request_valid:
  assumes "process_crash_request x z fs objects pdbs dumps run caches from_slice input symbols symcaches previous = Some (Inr v)"
    and "dumps_named dumps"
  shows "\<exists>contents xml doc guid. read_crash_request x z input default_crash_request_limits = Some (Inr contents)
    \<and> crash_context contents = Some xml \<and> parse_context x max_crash_context_nodes xml = Inr doc
    \<and> field_value x (section_named x doc (lit ''RuntimeProperties'')) (lit ''CrashGUID'') = Some guid
    \<and> json_get v (lit ''crash_guid'') = Some (JString guid)
    \<and> validate_current_processing_result v (Some guid) = Inr ()
    \<and> json_get v (lit ''crash_context'') = Some (crash_context_json (extract_context x default_extraction_options doc))
    \<and> json_get (crash_context_json (extract_context x default_extraction_options doc)) (lit ''command_line'') = None
    \<and> (\<forall>t. same_but_command_line x doc t \<longrightarrow>
         process_crash_request (x\<lparr>node_text := t\<rparr>) z fs objects pdbs dumps run caches from_slice input symbols symcaches previous
           = Some (Inr v))
    \<and> is_none_or previous (\<lambda>bytes. is_ok (parse_previous_processing from_slice bytes guid))"
proof -
  from assms(1) obtain contents xml doc p dump r where
    contents: "read_crash_request x z input default_crash_request_limits = Some (Inr contents)" and
    xml: "crash_context contents = Some xml" and
    doc: "parse_context x max_crash_context_nodes xml = Inr doc" and
    p: "transpose_map (\<lambda>bytes. bindR (crash_guid_of (extract_context x default_extraction_options doc))
         (parse_previous_processing from_slice bytes)) previous = Inr p" and
    r: "(if symcaches = [] then
            symbolicate_minidump_bytes fs objects pdbs dumps run dump symbols default_symbolication_limits
          else symbolicate_with_symcaches fs objects pdbs dumps run caches dump symbols symcaches
            default_symbolication_limits) = Inr r" and
    v: "build_processing_result (extract_context x default_extraction_options doc) r p (Some (manifest contents))
         (Some (classification x doc)) (log_contents contents) = Inr v"
    unfolding process_crash_request_def by (auto simp: bindR_eq_Inr map_err_eq ok_or_eq Let_def simp del: transpose_map_Inr)
  define i where "i = \<lparr>in_context = extract_context x default_extraction_options doc, in_symbolication = r,
    in_request = Some (manifest contents), in_classification = Some (classification x doc), in_log = log_contents contents\<rparr>"
  from v obtain guid where guid: "crash_guid (in_context i) = Some guid" "trim guid \<noteq> []"
    by (auto simp: build_processing_result_def crash_guid_of_def result_simps i_def)
  have "current_schema r \<and> trusts_named r"
  proof (cases "symcaches = []")
    case True
    with r show ?thesis using symbolicate_minidump_bytes_valid [OF _ assms(2)] by (simp only: if_True simp_thms) blast
  next
    case False
    with r obtain r' where base: "symbolicate_minidump_bytes fs objects pdbs dumps run dump symbols default_symbolication_limits = Inr r'"
      and kept: "result_kept (\<lambda>d. d \<in> {d. \<exists>a \<in> set symcaches. debug_id_of caches (sca_debug_id a) = Some d}) (debug_id_of caches) r' r"
      using symbolicate_with_symcaches_kept [of fs objects pdbs dumps run caches dump symbols symcaches
          default_symbolication_limits r] by auto
    from symbolicate_minidump_bytes_valid [OF base assms(2)] result_kept_valid [OF kept] show ?thesis by simp
  qed
  then have i: "input_ok guid i"
    using guid read_crash_request_manifest [OF contents] by (simp add: input_ok_def i_def extract_context_facts)
  have build: "build_from i p = Inr v" using v by (simp add: build_from_def i_def)
  have crash_id: "crash_guid_of (in_context i) = Inr guid" using guid by (simp add: crash_guid_of_def)
  have prev: "is_none_or previous (\<lambda>bytes. is_ok (parse_previous_processing from_slice bytes guid))"
    and p_ok: "is_none_or p previous_ok"
    using p crash_id parse_previous_ok [of from_slice _ guid]
    by (auto simp: transpose_map_def i_def bindR_eq_Inr is_ok_iff split: option.splits)
  have v: "v = result_json guid (in_context i) (in_request i) (in_classification i) (in_log i)
      (attempt_of i) (next_history p (attempt_of i))" using build build_from_eq [OF i, of p] by simp
  have "validate_current_processing_result v (Some guid) = Inr ()"
    unfolding validate_current_processing_result_def v built_result_contract [OF i p_ok] by simp
  moreover have "field_value x (section_named x doc (lit ''RuntimeProperties'')) (lit ''CrashGUID'') = Some guid"
    using guid(1) by (simp add: i_def extract_context_def Let_def)
  moreover have "json_get v (lit ''crash_context'') = Some (crash_context_json (extract_context x default_extraction_options doc))"
    unfolding v by (simp only: result_json_context) (simp add: i_def)
  moreover have "json_get v (lit ''crash_guid'') = Some (JString guid)" unfolding v by (rule result_json_reads(3))
  moreover have "\<forall>t. same_but_command_line x doc t \<longrightarrow>
      process_crash_request (x\<lparr>node_text := t\<rparr>) z fs objects pdbs dumps run caches from_slice input symbols symcaches previous
        = Some (Inr v)"
    using assms(1) by (simp add: process_crash_request_same [OF contents xml doc])
  ultimately show ?thesis
    using contents xml doc prev context_json_command_line [OF extract_context_facts(2)]
    by (intro exI conjI) assumption+
qed

subsection \<open>One request\<close>

text \<open>A crash context whose only field is the crash identity.\<close>

definition guid_xml :: "(unit, nat) roxml" where
  "guid_xml = \<lparr>parse_with_options = \<lambda>_ _. Inr (), root_element = \<lambda>_. 0, root_pos = \<lambda>_. (1, 1),
     children = \<lambda>n. if n = 0 then [1] else if n = 1 then [2] else [], is_element = \<lambda>_. True,
     tag_name = \<lambda>n. if n = 0 then crash_context_root else if n = 1 then lit ''RuntimeProperties'' else lit ''CrashGUID'',
     node_text = \<lambda>_. Some (lit ''G'')\<rparr>"

lemma guid_context: "crash_guid (extract_context guid_xml options ()) = Some (lit ''G'')"
proof -
  have "section_named guid_xml () (lit ''RuntimeProperties'') = Some 1"
    by (simp add: section_named_def sections_def guid_xml_def)
  moreover have "field_value guid_xml (Some 1) (lit ''CrashGUID'') = Some (lit ''G'')"
    by (simp add: field_value_def field_def Crash_Context.fields_def text_or_empty_def guid_xml_def crash_context_root_def)
  ultimately show ?thesis by (simp add: extract_context_def Let_def)
qed

lemma sample_dumps_named: "dumps_named sample_minidumps"
  by (simp add: dumps_named_def sample_minidumps_def sample_state_def sample_frame_def)

lemma sample_symbolication_of: "length dump \<le> 64 * 1024 * 1024 \<Longrightarrow>
  is_ok (symbolicate_minidump_bytes sample_fs no_objects no_pdbs sample_minidumps sample_run dump (lit ''/s'')
     default_symbolication_limits)"
  using sample_symbolication
  by (simp add: symbolicate_minidump_bytes_def symbolicate_bytes_inner_def default_symbolication_limits_def
      sample_minidumps_def)

lemma sample_process:
  "\<exists>v. process_crash_request guid_xml stored_zlib sample_fs no_objects no_pdbs sample_minidumps sample_run sample_caches
     (\<lambda>_. None) sample_request (lit ''/s'') [] None = Some (Inr v)"
proof -
  have parse: "parse_context guid_xml n xml = Inr ()" for n xml
    by (simp add: parse_context_def guid_xml_def)
  then have "request_encodable guid_xml default_crash_request_limits (lit ''UECC-Windows'') (lit ''UECC-Windows.uecrash'') sample_files"
    by (intro sample_encodable_if) simp
  from decode_written [OF this default_limits_fit sample_decompresses [unfolded sample_request_def]]
  obtain c where c: "read_crash_request guid_xml stored_zlib sample_request default_crash_request_limits = Some (Inr c)"
    and dump: "minidump c = map_option snd (first_of MinidumpFile sample_files)"
    and ctx: "crash_context c = Option.bind (first_of CrashContextFile sample_files) (\<lambda>(_, contents). from_utf8 contents)"
    unfolding sample_request_def by fastforce
  have "first_of CrashContextFile sample_files = Some (lit ''CrashContext.runtime-xml'', map byte_of [60, 97, 47, 62])"
    "first_of MinidumpFile sample_files = Some (lit ''UEMinidump.dmp'', map byte_of [77, 68, 77, 80])"
    by (simp_all add: sample_files_def sample_kinds)
  moreover have "from_utf8 (map byte_of [60, 97, 47, 62]) = Some (lit ''<a/>'')" by code_simp
  ultimately have "crash_context c = Some (lit ''<a/>'')" "minidump c = Some (map byte_of [77, 68, 77, 80])"
    using ctx dump by simp_all
  moreover obtain r where "symbolicate_minidump_bytes sample_fs no_objects no_pdbs sample_minidumps sample_run
      (map byte_of [77, 68, 77, 80]) (lit ''/s'') default_symbolication_limits = Inr r"
    using sample_symbolication_of [of "map byte_of [77, 68, 77, 80]"] by (auto simp: is_ok_iff)
  ultimately show ?thesis
    using c parse by (simp add: process_crash_request_def transpose_map_def build_processing_result_def crash_guid_of_def
        guid_context trim_G Let_def)
qed

theorem process_crash_request_valid_witness:
  "\<exists>v guid. process_crash_request guid_xml stored_zlib sample_fs no_objects no_pdbs sample_minidumps sample_run sample_caches
     (\<lambda>_. None) sample_request (lit ''/s'') [] None = Some (Inr v) \<and> validate_current_processing_result v (Some guid) = Inr ()"
proof -
  obtain v where "process_crash_request guid_xml stored_zlib sample_fs no_objects no_pdbs sample_minidumps sample_run sample_caches
     (\<lambda>_. None) sample_request (lit ''/s'') [] None = Some (Inr v)" using sample_process by blast
  with process_crash_request_valid [OF this sample_dumps_named] show ?thesis by blast
qed

end
