(* ===== verification/Templates.thy ===== *)
theory Templates
  imports Rust_Text "HOL-Library.Sublist"
begin

section \<open>Normalized texts (crates/grouping)\<close>

text \<open>
  How grouping makes texts comparable: white space collapsed, letters lowered, lengths bounded, and in
  error messages the GUIDs, timestamps, addresses and numbers replaced by placeholders. A message is a
  list of characters that a loop walks by index; \<open>scan_while\<close> is its inner loops.
\<close>

definition max_component_chars :: nat where "max_component_chars = 512"
definition max_error_input_chars :: nat where "max_error_input_chars = 4096"
definition max_error_template_chars :: nat where "max_error_template_chars = 1024"
definition max_title_chars :: nat where "max_title_chars = 160"

definition bounded :: "ustring \<Rightarrow> nat \<Rightarrow> ustring" where
  "bounded value maximum = take maximum value"

subsection \<open>White space\<close>

definition space :: uchar where "space = 32"

text \<open>\<^verbatim>\<open>if !output.is_empty() && !output.ends_with(' ') { output.push(' ') }\<close>\<close>

definition push_space :: "ustring \<Rightarrow> ustring" where
  "push_space out = (if out \<noteq> [] \<and> \<not> ends_with out [space] then out @ [space] else out)"

definition collapse_step :: "uchar \<Rightarrow> ustring \<Rightarrow> ustring" where
  "collapse_step c out =
     (if is_whitespace c then push_space out else if \<not> is_control c then out @ [c] else out)"

definition collapse_whitespace :: "ustring \<Rightarrow> ustring" where
  "collapse_whitespace value = trim (fold collapse_step value [])"

definition normalize_function :: "ustring \<Rightarrow> ustring" where
  "normalize_function value = bounded (collapse_whitespace value) max_component_chars"

definition normalize_token :: "ustring \<Rightarrow> ustring" where
  "normalize_token value = bounded (to_ascii_lowercase (collapse_whitespace value)) max_component_chars"

definition normalize_source_path :: "ustring \<Rightarrow> ustring" where
  "normalize_source_path value =
     bounded (to_ascii_lowercase (trim (replace_char 92 (ch CHR ''/'') value))) max_component_chars"

definition normalize_module :: "ustring \<Rightarrow> ustring" where
  "normalize_module value =
     (let leaf = to_ascii_lowercase (trim (unwrap_or (find (\<lambda>part. part \<noteq> []) (rsplit_on is_separator value)) value));
          stem = unwrap_or (or_else (strip_suffix leaf (lit ''.dll'')) (strip_suffix leaf (lit ''.exe''))) leaf
      in bounded stem max_component_chars)"

definition normalize_relative :: "ustring \<Rightarrow> ustring option" where
  "normalize_relative value =
     (let t = trim value in
      Option.bind (or_else (strip_prefix t (lit ''0x'')) (strip_prefix t (lit ''0X''))) (\<lambda>digits.
      map_option (\<lambda>n. lit ''0x'' @ to_hex hex_lower n) (parse_hex_u64 digits)))"

subsection \<open>Scanning a message\<close>

text \<open>\<^verbatim>\<open>characters.get(i).is_some_and(p)\<close>\<close>

definition char_at :: "ustring \<Rightarrow> nat \<Rightarrow> (uchar \<Rightarrow> bool) \<Rightarrow> bool" where
  "char_at cs i p = is_some_and (get_at cs i) p"

lemma char_at_iff: "char_at cs i p \<longleftrightarrow> i < length cs \<and> p (cs ! i)"
  by (auto simp: char_at_def get_at_def is_some_and_def)

function scan_while :: "(uchar \<Rightarrow> bool) \<Rightarrow> ustring \<Rightarrow> nat \<Rightarrow> nat" where
  "scan_while p cs i = (if char_at cs i p then scan_while p cs (i + 1) else i)"
  by auto
termination
  by (relation "measure (\<lambda>(p, cs, i). length cs - i)") (auto simp: char_at_iff)

declare scan_while.simps [simp del]

text \<open>The groups of a GUID: so many hexadecimal digits each, a dash after every one but the last.\<close>

fun guid_digits :: "ustring \<Rightarrow> nat \<Rightarrow> nat \<Rightarrow> nat option" where
  "guid_digits cs 0 i = Some i"
| "guid_digits cs (Suc n) i = (if char_at cs i is_ascii_hexdigit then guid_digits cs n (i + 1) else None)"

fun guid_groups :: "ustring \<Rightarrow> nat list \<Rightarrow> nat \<Rightarrow> nat option" where
  "guid_groups cs [] i = Some i"
| "guid_groups cs [n] i = guid_digits cs n i"
| "guid_groups cs (n # m # ns) i =
     Option.bind (guid_digits cs n i) (\<lambda>i.
     if get_at cs i \<noteq> Some (ch CHR ''-'') then None else guid_groups cs (m # ns) (i + 1))"

definition guid_end :: "ustring \<Rightarrow> nat \<Rightarrow> nat option" where
  "guid_end cs start = guid_groups cs [8, 4, 4, 4, 12] start"

definition date_char :: "nat \<Rightarrow> uchar \<Rightarrow> bool" where
  "date_char offset c = (if offset = 4 \<or> offset = 7 then c = ch CHR ''-'' else is_ascii_digit c)"

definition time_char :: "uchar \<Rightarrow> bool" where
  "time_char c \<longleftrightarrow> is_ascii_digit c \<or> c \<in> set (lit '':.+-Zz'')"

definition timestamp_end :: "ustring \<Rightarrow> nat \<Rightarrow> nat option" where
  "timestamp_end cs start =
     (if \<not> list_all (\<lambda>offset. char_at cs (start + offset) (date_char offset)) [0..<10] then None
      else let e = start + 10 in
        Some (if char_at cs e (\<lambda>c. c \<in> set (lit ''Tt '')) then scan_while time_char cs (e + 1) else e))"

definition address_end :: "ustring \<Rightarrow> nat \<Rightarrow> nat option" where
  "address_end cs start =
     (if get_at cs start \<noteq> Some (ch CHR ''0'') \<or> \<not> char_at cs (start + 1) (\<lambda>c. c \<in> set (lit ''xX''))
        \<or> \<not> char_at cs (start + 2) is_ascii_hexdigit
      then None else Some (scan_while is_ascii_hexdigit cs (start + 3)))"

definition push_template :: "ustring \<Rightarrow> string \<Rightarrow> ustring" where
  "push_template out placeholder = (if ends_with out (lit placeholder) then out else out @ lit placeholder)"

text \<open>One pass of the loop, from an index inside the message and the output so far.\<close>

definition template_step :: "ustring \<Rightarrow> nat \<Rightarrow> ustring \<Rightarrow> nat \<times> ustring" where
  "template_step cs i out =
     (case guid_end cs i of Some e \<Rightarrow> (e, push_template out ''<guid>'')
      | None \<Rightarrow> case timestamp_end cs i of Some e \<Rightarrow> (e, push_template out ''<timestamp>'')
      | None \<Rightarrow> case address_end cs i of Some e \<Rightarrow> (e, push_template out ''<address>'')
      | None \<Rightarrow>
          if is_ascii_digit (cs ! i) then (scan_while is_ascii_digit cs (i + 1), push_template out ''<number>'')
          else if is_whitespace (cs ! i) then (i + 1, push_space out)
          else if is_control (cs ! i) then (i + 1, out)
          else (i + 1, out @ [to_lower (cs ! i)]))"

lemma scan_while_ge: "i \<le> scan_while p cs i"
proof (induction p cs i rule: scan_while.induct)
  case (1 p cs i)
  then show ?case by (subst scan_while.simps) auto
qed

lemma scan_while_le: "i \<le> length cs \<Longrightarrow> scan_while p cs i \<le> length cs"
proof (induction p cs i rule: scan_while.induct)
  case (1 p cs i)
  then show ?case by (subst scan_while.simps) (auto simp: char_at_iff)
qed

lemma guid_digits_Some: "guid_digits cs n i = Some e \<Longrightarrow> i \<le> length cs \<Longrightarrow> e = i + n \<and> e \<le> length cs"
  by (induction cs n i rule: guid_digits.induct) (auto simp: char_at_iff split: if_splits)

lemma guid_groups_Some:
  "guid_groups cs ns i = Some e \<Longrightarrow> i \<le> length cs \<Longrightarrow> i + sum_list ns \<le> e \<and> e \<le> length cs"
proof (induction cs ns i rule: guid_groups.induct)
  case (3 cs n m ns i)
  from "3.prems"(1) obtain j where j: "guid_digits cs n i = Some j"
    and get: "get_at cs j = Some (ch CHR ''-'')" and rest: "guid_groups cs (m # ns) (j + 1) = Some e"
    by (auto simp: bind_eq_Some_conv split: if_splits)
  from guid_digits_Some [OF j "3.prems"(2)] have "j = i + n" by simp
  moreover have "j + 1 \<le> length cs" using get by (simp add: get_at_eq_Some)
  with "3.IH" [OF j _ rest] get have "j + 1 + sum_list (m # ns) \<le> e \<and> e \<le> length cs" by simp
  ultimately show ?case by simp
qed (auto dest: guid_digits_Some)

text \<open>Every pass makes progress and stays inside the message.\<close>

lemma template_step_progress:
  assumes "i < length cs"
  shows "i < fst (template_step cs i out) \<and> fst (template_step cs i out) \<le> length cs"
proof -
  have g: "guid_end cs i = Some e \<Longrightarrow> i < e \<and> e \<le> length cs" for e
    using guid_groups_Some [of cs "[8, 4, 4, 4, 12]" i e] assms by (simp add: guid_end_def)
  have t: "timestamp_end cs i = Some e \<Longrightarrow> i < e \<and> e \<le> length cs" for e
  proof -
    assume e: "timestamp_end cs i = Some e"
    then have "list_all (\<lambda>offset. char_at cs (i + offset) (date_char offset)) [0..<10]"
      by (simp add: timestamp_end_def split: if_splits)
    then have "\<forall>offset \<in> set [0..<10]. i + offset < length cs" by (simp only: list_all_iff char_at_iff) blast
    from bspec [OF this, of 9] have len: "i + 10 \<le> length cs" by simp
    from e have "e = i + 10 \<or> (i + 10 < length cs \<and> e = scan_while time_char cs (i + 10 + 1))"
      by (auto simp: timestamp_end_def char_at_iff Let_def simp del: upt_rec_numeral split: if_splits)
    then show ?thesis
      using len scan_while_ge [of "i + 10 + 1" time_char cs] scan_while_le [of "i + 10 + 1" cs time_char] by linarith
  qed
  have a: "address_end cs i = Some e \<Longrightarrow> i < e \<and> e \<le> length cs" for e
    using scan_while_ge [of "i + 3" is_ascii_hexdigit cs] scan_while_le [of "i + 3" cs is_ascii_hexdigit]
    by (auto simp: address_end_def char_at_iff split: if_splits)
  have d: "i < scan_while is_ascii_digit cs (i + 1)" "scan_while is_ascii_digit cs (i + 1) \<le> length cs"
    using scan_while_ge [of "i + 1" is_ascii_digit cs] scan_while_le [of "i + 1" cs is_ascii_digit] assms by auto
  show ?thesis using g t a d assms unfolding template_step_def by (simp split: option.split)
qed

function template_loop :: "ustring \<Rightarrow> nat \<Rightarrow> ustring \<Rightarrow> ustring" where
  "template_loop cs i out =
     (if i < length cs then (let (j, out) = template_step cs i out in template_loop cs j out) else out)"
  by auto
termination
proof (relation "measure (\<lambda>(cs, i, out). length cs - i)", goal_cases)
  case (2 cs i out p j out')
  then show ?case using template_step_progress [of i cs out] by (cases "template_step cs i out") auto
qed simp

declare template_loop.simps [simp del]

definition normalize_template :: "ustring \<Rightarrow> ustring" where
  "normalize_template value =
     bounded (trim (template_loop (bounded value max_error_input_chars) 0 [])) max_error_template_chars"

definition generic_tokens :: "string list" where
  "generic_tokens = [''address'', ''allocate'', ''allocation'', ''assert'', ''assertion'', ''at'', ''being'', ''byte'',
     ''bytes'', ''check'', ''condition'', ''crash'', ''crashed'', ''d3d'', ''device'', ''dxgi'', ''ensure'', ''error'',
     ''failed'', ''failure'', ''fatal'', ''for'', ''gpu'', ''guid'', ''line'', ''lost'', ''memory'', ''number'', ''of'',
     ''oom'', ''out'', ''removed'', ''timeout'', ''timestamp'', ''unknown'']"

text \<open>\<^verbatim>\<open>char::is_alphanumeric\<close> reads the Unicode tables and is the parameter \<open>alnum\<close>.\<close>

definition has_specific_template_token :: "(uchar \<Rightarrow> bool) \<Rightarrow> ustring \<Rightarrow> bool" where
  "has_specific_template_token alnum value =
     list_ex (\<lambda>token. token \<notin> set (map lit generic_tokens))
       (filter (\<lambda>token. token \<noteq> []) (split_on (\<lambda>c. \<not> alnum c) value))"

definition sanitize_char :: "uchar \<Rightarrow> ustring" where
  "sanitize_char c = (if c \<in> set (lit ''<>&'') \<or> c = 39 \<or> c = 34 then [ch CHR ''_''] else if \<not> is_control c then [c] else [])"

definition sanitize_title :: "ustring \<Rightarrow> ustring" where
  "sanitize_title value =
     (let title = concat (map sanitize_char (take max_title_chars (collapse_whitespace value)))
      in if title = [] then lit ''Crash'' else title)"

subsection \<open>What normalized texts look like\<close>

text \<open>Tidy: every character satisfies \<open>P\<close>, white space is single spaces, none at the start.\<close>

definition tidy :: "(uchar \<Rightarrow> bool) \<Rightarrow> ustring \<Rightarrow> bool" where
  "tidy P s \<longleftrightarrow> (\<forall>c \<in> set s. P c \<and> (is_whitespace c \<longrightarrow> c = space)) \<and> (s \<noteq> [] \<longrightarrow> hd s \<noteq> space)
     \<and> successively (\<lambda>a b. a \<noteq> space \<or> b \<noteq> space) s"

lemma tidy_Nil [simp]: "tidy P []"
  by (simp add: tidy_def)

lemma ends_with_single: "ends_with s [c] \<longleftrightarrow> s \<noteq> [] \<and> last s = c"
  by (cases s rule: rev_cases) (auto simp: ends_with_def)

lemma is_whitespace_space [simp]: "is_whitespace space"
  by (simp add: is_whitespace_def space_def)

lemma tidy_push_space: "tidy P s \<Longrightarrow> P space \<Longrightarrow> tidy P (push_space s)"
  by (auto simp: tidy_def push_space_def ends_with_single successively_append_iff)

lemma tidy_snoc: "tidy P s \<Longrightarrow> P c \<Longrightarrow> \<not> is_whitespace c \<Longrightarrow> tidy P (s @ [c])"
  by (cases "s = []") (auto simp: tidy_def successively_append_iff)

lemma tidy_append: "tidy P s \<Longrightarrow> \<forall>c \<in> set t. P c \<and> \<not> is_whitespace c \<Longrightarrow> tidy P (s @ t)"
proof (induction t rule: rev_induct)
  case (snoc c t)
  then have "tidy P ((s @ t) @ [c])" by (intro tidy_snoc) auto
  then show ?case by simp
qed simp

lemma tidy_take: "tidy P s \<Longrightarrow> tidy P (take n s)"
proof -
  assume t: "tidy P s"
  have "successively (\<lambda>a b. a \<noteq> space \<or> b \<noteq> space) (take n s @ drop n s)" using t by (simp add: tidy_def)
  then have "successively (\<lambda>a b. a \<noteq> space \<or> b \<noteq> space) (take n s)" unfolding successively_append_iff by blast
  then show ?thesis using t by (auto simp: tidy_def hd_take dest: in_set_takeD)
qed

lemma prefix_take_length: "prefix p s \<Longrightarrow> p = take (length p) s"
  by (auto simp: prefix_def)

lemma tidy_trim: assumes "tidy P s" shows "tidy P (trim s)"
proof -
  have "trim_start s = s" using assms by (cases s) (auto simp: trim_start_def tidy_def)
  then have "trim s = take (length (trim s)) s"
    using prefix_take_length [OF trim_end_prefix [of s]] by (simp add: trim_def)
  then show ?thesis using tidy_take [OF assms] by metis
qed

lemma tidy_fold_collapse: "tidy (\<lambda>c. \<not> is_control c) out \<Longrightarrow> tidy (\<lambda>c. \<not> is_control c) (fold collapse_step s out)"
proof (induction s arbitrary: out)
  case (Cons c s)
  have "\<not> is_control space" by (simp add: is_control_def space_def)
  then have "tidy (\<lambda>c. \<not> is_control c) (collapse_step c out)"
    using Cons.prems by (simp add: collapse_step_def tidy_push_space tidy_snoc)
  then show ?case using Cons.IH by simp
qed simp

lemma tidy_collapse: "tidy (\<lambda>c. \<not> is_control c) (collapse_whitespace s)"
  unfolding collapse_whitespace_def by (intro tidy_trim tidy_fold_collapse tidy_Nil)

definition template_char :: "uchar \<Rightarrow> bool" where
  "template_char c \<longleftrightarrow> \<not> is_ascii_digit c \<and> \<not> is_ascii_uppercase c \<and> \<not> is_control c"

lemma placeholder_chars:
  "placeholder \<in> {''<guid>'', ''<timestamp>'', ''<address>'', ''<number>''} \<Longrightarrow>
     \<forall>c \<in> set (lit placeholder). template_char c \<and> \<not> is_whitespace c"
  by (auto simp: lit_simps template_char_def ascii_defs)

lemma tidy_template_step: "tidy template_char out \<Longrightarrow> tidy template_char (snd (template_step cs i out))"
proof -
  assume t: "tidy template_char out"
  have p: "tidy template_char (push_template out placeholder)"
    if "placeholder \<in> {''<guid>'', ''<timestamp>'', ''<address>'', ''<number>''}" for placeholder
    using t tidy_append [OF t placeholder_chars [OF that]] by (simp add: push_template_def)
  have s: "template_char space" by (simp add: template_char_def space_def ascii_defs)
  have c: "template_char (to_lower c)" if "\<not> is_ascii_digit c" "\<not> is_control c" for c
    using that by (auto simp: template_char_def to_lower_def is_ascii_uppercase_def is_ascii_digit_def is_control_def)
  show ?thesis unfolding template_step_def
    by (simp add: p tidy_push_space [OF t s] tidy_snoc [OF t] c t split: option.split)
qed

lemma tidy_template_loop: "tidy template_char out \<Longrightarrow> tidy template_char (template_loop cs i out)"
proof (induction cs i out rule: template_loop.induct)
  case (1 cs i out)
  obtain j out' where st: "template_step cs i out = (j, out')" by (cases "template_step cs i out")
  with tidy_template_step [OF "1.prems", of cs i] have "tidy template_char out'" by simp
  with "1.IH" [OF _ st [symmetric] refl] show ?case using "1.prems"
    by (subst template_loop.simps) (simp add: st)
qed

lemma tidy_template: "tidy template_char (normalize_template s)"
  unfolding normalize_template_def bounded_def by (intro tidy_take tidy_trim tidy_template_loop tidy_Nil)

lemma length_template: "length (normalize_template s) \<le> max_error_template_chars"
  by (simp add: normalize_template_def bounded_def)

text \<open>The loop takes at most one pass per character.\<close>

lemma template_passes:
  "i \<le> length cs \<Longrightarrow> \<exists>n \<le> length cs - i.
     ((\<lambda>(i, out). template_step cs i out) ^^ n) (i, out) = (length cs, template_loop cs i out)"
proof (induction cs i out rule: template_loop.induct)
  case (1 cs i out)
  show ?case
  proof (cases "i < length cs")
    case True
    obtain j out' where st: "template_step cs i out = (j, out')" by (cases "template_step cs i out")
    then have j: "i < j" "j \<le> length cs" using template_step_progress [OF True, of out] by auto
    from "1.IH" [OF True st [symmetric] refl j(2)] obtain n where "n \<le> length cs - j"
      and n: "((\<lambda>(i, out). template_step cs i out) ^^ n) (j, out') = (length cs, template_loop cs j out')" by blast
    then have "((\<lambda>(i, out). template_step cs i out) ^^ Suc n) (i, out) = (length cs, template_loop cs i out)"
      by (subst template_loop.simps) (simp add: True st funpow_Suc_right del: funpow.simps)
    moreover have "Suc n \<le> length cs - i" using \<open>n \<le> length cs - j\<close> j by linarith
    ultimately show ?thesis by blast
  next
    case False
    then show ?thesis using "1.prems" by (intro exI [of _ 0]) (simp add: template_loop.simps)
  qed
qed

lemma sanitize_char_chars:
  "d \<in> set (sanitize_char c) \<Longrightarrow> d \<notin> set (lit ''<>&'') \<and> d \<noteq> 39 \<and> d \<noteq> 34 \<and> \<not> is_control d"
  by (auto simp: sanitize_char_def is_control_def lit_simps split: if_splits)

lemma length_sanitize: "length (concat (map sanitize_char cs)) \<le> length cs"
  by (induction cs) (auto simp: sanitize_char_def)

lemma sanitized_title:
  "sanitize_title s \<noteq> [] \<and> length (sanitize_title s) \<le> max_title_chars
   \<and> (\<forall>c \<in> set (sanitize_title s). c \<notin> set (lit ''<>&'') \<and> c \<noteq> 39 \<and> c \<noteq> 34 \<and> \<not> is_control c)"
proof -
  let ?t = "concat (map sanitize_char (take max_title_chars (collapse_whitespace s)))"
  have "length ?t \<le> max_title_chars"
    using length_sanitize [of "take max_title_chars (collapse_whitespace s)"] by simp
  moreover have "\<forall>c \<in> set ?t. c \<notin> set (lit ''<>&'') \<and> c \<noteq> 39 \<and> c \<noteq> 34 \<and> \<not> is_control c"
    by (auto dest: sanitize_char_chars)
  moreover have "\<forall>c \<in> set (lit ''Crash''). c \<notin> set (lit ''<>&'') \<and> c \<noteq> 39 \<and> c \<noteq> 34 \<and> \<not> is_control c"
    by (auto simp: lit_simps is_control_def)
  ultimately show ?thesis by (auto simp: sanitize_title_def Let_def max_title_chars_def)
qed

end
