(* ===== verification/Grouping.thy ===== *)
theory Grouping
  imports Templates Processing "HOL-Library.Option_ord"
begin

section \<open>Grouping (crates/grouping)\<close>

text \<open>
  The fingerprints under which crashes are grouped into issues: evidence taken from a validated processing
  result (crash type, signals, exception, assertion, frames of the faulting thread), normalized, listed as
  tagged components and hashed with their lengths. SHA-256 (\<open>sha\<close>) and \<^verbatim>\<open>char::is_alphanumeric\<close> (\<open>alnum\<close>)
  are parameters.
\<close>

definition max_project_frames :: nat where "max_project_frames = 8"
definition max_engine_frames :: nat where "max_engine_frames = 5"
definition max_unresolved_frames :: nat where "max_unresolved_frames = 8"
definition max_variant_frames :: nat where "max_variant_frames = 32"

definition engine_modules :: "string list" where
  "engine_modules = [''applicationcore'', ''audioengine'', ''core'', ''coreuobject'', ''d3d11rhi'', ''d3d12rhi'',
     ''engine'', ''inputcore'', ''metalrhi'', ''openglDrv'', ''pakfile'', ''projects'', ''rendercore'', ''rhi'',
     ''slate'', ''slatecore'', ''vulkanrhi'']"

definition system_modules :: "string list" where
  "system_modules = [''amdxx64'', ''atidxx64'', ''combase'', ''d3d11'', ''d3d12'', ''dxgi'', ''gdi32'', ''igd10iumd64'',
     ''kernel32'', ''kernelbase'', ''msvcp140'', ''ntdll'', ''nvwgf2umx'', ''ucrtbase'', ''user32'', ''vcruntime140'',
     ''win32u'', ''xaudio2_9'']"

record fingerprint_data =
  issue_fingerprint :: ustring
  variant_fingerprint :: ustring
  fp_title :: ustring
  quality :: int

datatype grouping_outcome = Grouped fingerprint_data | Insufficient

datatype grouping_error = InvalidProcessingResult

type_synonym 'a grouping = "(grouping_error, 'a) result"

subsection \<open>Components\<close>

type_synonym components = "(string \<times> ustring) list"

definition push_component :: "string \<Rightarrow> ustring \<Rightarrow> components \<Rightarrow> components" where
  "push_component tag value cs =
     (let value = bounded value max_component_chars in if value \<noteq> [] then cs @ [(tag, value)] else cs)"

definition push_all :: "string \<Rightarrow> ustring list \<Rightarrow> components \<Rightarrow> components" where
  "push_all tag values cs = fold (push_component tag) values cs"

definition push_opt :: "string \<Rightarrow> ustring option \<Rightarrow> components \<Rightarrow> components" where
  "push_opt tag v cs = (case v of None \<Rightarrow> cs | Some value \<Rightarrow> push_component tag value cs)"

subsection \<open>Frames\<close>

datatype frame_kind = ProjectFrame | EngineFrame | SystemFrame | UnknownFrame

record resolved_frame_data =
  rf_category :: frame_kind
  rf_component :: ustring
  rf_module :: ustring
  rf_function :: ustring

record module_identity =
  mi_debug_id :: "ustring option"
  mi_code_id :: "ustring option"

record unresolved_frame_data =
  uf_category :: frame_kind
  uf_component :: ustring
  uf_module :: ustring
  uf_relative :: ustring

record frame_evidence_data =
  fe_project :: "resolved_frame_data list"
  fe_engine :: "resolved_frame_data list"
  fe_unresolved :: "unresolved_frame_data list"
  fe_variant :: "ustring list"

definition object_at :: "json \<Rightarrow> string list \<Rightarrow> json_map grouping" where
  "object_at v pointer =
     ok_or (Option.bind (fold (\<lambda>k w. Option.bind w (\<lambda>w. json_get w (lit k))) pointer (Some v)) as_object)
       InvalidProcessingResult"

definition string_field :: "json_map \<Rightarrow> string \<Rightarrow> ustring grouping" where
  "string_field m key = ok_or (get_as as_str m (lit key)) InvalidProcessingResult"

text \<open>\<^verbatim>\<open>value.get(key).and_then(Value::as_str)\<close>\<close>

definition text_at :: "json \<Rightarrow> string \<Rightarrow> ustring option" where
  "text_at v key = Option.bind (json_get v (lit key)) as_str"

definition normalized_signals :: "json list \<Rightarrow> ustring list" where
  "normalized_signals signals =
     dedup (sort (map normalize_token
       (filter (\<lambda>kind. kind \<in> set (map lit [''gpu_crash'', ''out_of_memory'']))
         (List.map_filter (\<lambda>v. text_at v ''kind'') signals))))"

definition normalized_id :: "json \<Rightarrow> string \<Rightarrow> ustring option" where
  "normalized_id v key = filter_option (\<lambda>t. t \<noteq> []) (map_option normalize_token (text_at v key))"

definition identity_key :: "module_identity \<Rightarrow> ustring option \<times> ustring option" where
  "identity_key i = (mi_debug_id i, mi_code_id i)"

definition add_identity :: "module_identity \<Rightarrow> module_identity list option \<Rightarrow> module_identity list" where
  "add_identity i entry = dedup (sort_key identity_key (unwrap_or entry [] @ [i]))"

type_synonym identity_map = "(ustring, module_identity list) ordered_map"

definition module_identities :: "json_map \<Rightarrow> identity_map grouping" where
  "module_identities symbolication =
     bindR (ok_or (get_as as_array symbolication (lit ''modules'')) InvalidProcessingResult) (\<lambda>modules.
     fold_result (\<lambda>m identities.
       bindR (ok_or (text_at m ''module'') InvalidProcessingResult) (\<lambda>name.
       Inr (om_alter (normalize_module name)
         (add_identity \<lparr>mi_debug_id = normalized_id m ''debug_id'', mi_code_id = normalized_id m ''code_id''\<rparr>)
         identities))) modules [])"

definition is_faulting :: "json \<Rightarrow> bool" where
  "is_faulting thread \<longleftrightarrow> Option.bind (json_get thread (lit ''faulting'')) as_bool = Some True"

definition faulting_frames :: "json_map \<Rightarrow> json list grouping" where
  "faulting_frames symbolication =
     ok_or (Option.bind (get_as as_array symbolication (lit ''threads'')) (\<lambda>threads.
            Option.bind (find is_faulting threads) (\<lambda>thread.
            Option.bind (json_get thread (lit ''frames'')) as_array))) InvalidProcessingResult"

definition frame_category :: "ustring \<Rightarrow> ustring list \<Rightarrow> frame_kind" where
  "frame_category m source_paths =
     (if list_ex (\<lambda>path. starts_with path (lit ''engine/source/'') \<or> contains path (lit ''/engine/source/''))
          (map normalize_source_path source_paths)
        \<or> starts_with m (lit ''unrealeditor-'') \<or> starts_with m (lit ''ue4editor-'')
        \<or> list_ex (\<lambda>known. eq_ignore_ascii_case m (lit known)) engine_modules then EngineFrame
      else if list_ex (\<lambda>known. eq_ignore_ascii_case m (lit known)) system_modules then SystemFrame
      else if m = [] \<or> m = lit ''unknown'' then UnknownFrame
      else ProjectFrame)"

definition option_list :: "'a option \<Rightarrow> 'a list" where
  "option_list v = (case v of None \<Rightarrow> [] | Some a \<Rightarrow> [a])"

definition resolved_frame :: "json \<Rightarrow> resolved_frame_data option" where
  "resolved_frame frame =
     (if text_at frame ''symbol_status'' \<noteq> Some (lit ''resolved'') then None
      else
        Option.bind (text_at frame ''module'') (\<lambda>m.
        let m = normalize_module m in
        Option.bind (text_at frame ''function'') (\<lambda>f.
        let f = normalize_function f in
        if m = [] \<or> f = [] then None
        else
          Option.bind (Option.bind (json_get frame (lit ''inlines'')) as_array) (\<lambda>inlines.
          let functions = filter (\<lambda>t. t \<noteq> []) (map normalize_function
                (List.map_filter (\<lambda>inline. text_at inline ''function'') inlines)) @ [f];
              cat = frame_category m (option_list (text_at frame ''source_file'')
                @ List.map_filter (\<lambda>inline. text_at inline ''source_file'') inlines)
          in Some \<lparr>rf_category = cat, rf_component = m @ lit ''|'' @ join (lit ''>'') functions,
               rf_module = m, rf_function = f\<rparr>))))"

definition unresolved_frame :: "json \<Rightarrow> identity_map \<Rightarrow> unresolved_frame_data option" where
  "unresolved_frame frame modules =
     (if text_at frame ''symbol_status'' = Some (lit ''resolved'') then None
      else
        Option.bind (text_at frame ''module'') (\<lambda>m.
        let m = normalize_module m in
        Option.bind (Option.bind (text_at frame ''module_relative'') normalize_relative) (\<lambda>relative.
        Option.bind (om_get modules m) (\<lambda>identities.
        case identities of
          [identity] \<Rightarrow>
            if mi_debug_id identity = None \<and> mi_code_id identity = None then None
            else Some \<lparr>uf_category = frame_category m [],
                   uf_component = m @ lit ''|'' @ unwrap_or (mi_debug_id identity) [] @ lit ''|''
                     @ unwrap_or (mi_code_id identity) [] @ lit ''|'' @ relative,
                   uf_module = m, uf_relative = relative\<rparr>
        | _ \<Rightarrow> None))))"

text \<open>The three lists that the loop over the faulting frames fills: resolved, unresolved, variant.\<close>

type_synonym sorted_frames = "resolved_frame_data list \<times> unresolved_frame_data list \<times> ustring list"

definition push_variant :: "ustring \<Rightarrow> ustring list \<Rightarrow> ustring list" where
  "push_variant v variant = (if length variant < max_variant_frames then variant @ [v] else variant)"

definition sort_frame :: "identity_map \<Rightarrow> json \<Rightarrow> sorted_frames \<Rightarrow> sorted_frames" where
  "sort_frame modules frame = (\<lambda>(resolved, unresolved, variant).
     case resolved_frame frame of
       Some f \<Rightarrow> (resolved @ [f], unresolved, push_variant (lit ''resolved|'' @ rf_component f) variant)
     | None \<Rightarrow>
         (case unresolved_frame frame modules of
            Some f \<Rightarrow> (resolved, unresolved @ [f], push_variant (lit ''unresolved|'' @ uf_component f) variant)
          | None \<Rightarrow> (resolved, unresolved, variant)))"

definition frame_evidence :: "json_map \<Rightarrow> frame_evidence_data grouping" where
  "frame_evidence symbolication =
     bindR (module_identities symbolication) (\<lambda>modules.
     bindR (faulting_frames symbolication) (\<lambda>frames.
     let (resolved, unresolved, variant) = fold (sort_frame modules) frames ([], [], []);
         project = take max_project_frames (filter (\<lambda>f. rf_category f = ProjectFrame) resolved);
         engine = (if project = [] then take max_engine_frames (filter (\<lambda>f. rf_category f = EngineFrame) resolved) else []);
         unresolved = (if project = [] \<and> engine = [] then take max_unresolved_frames unresolved else [])
     in Inr \<lparr>fe_project = project, fe_engine = engine, fe_unresolved = unresolved, fe_variant = variant\<rparr>))"

subsection \<open>The fingerprint\<close>

text \<open>\<^verbatim>\<open>i32::try_from(len).unwrap_or(i32::MAX)\<close>\<close>

definition i32_len :: "'a list \<Rightarrow> int" where
  "i32_len xs = (if length xs \<le> 2147483647 then int (length xs) else 2147483647)"

definition grouping_quality :: "frame_evidence_data \<Rightarrow> bool \<Rightarrow> bool \<Rightarrow> int" where
  "grouping_quality frames has_assertion stable_error =
     min (i32_len (fe_project frames)) 8 * 100 + min (i32_len (fe_engine frames)) 5 * 10
     + min (i32_len (fe_unresolved frames)) 8 * 5 + of_bool has_assertion * 3 + of_bool stable_error"

definition classification_variant :: "json_map option \<Rightarrow> components \<Rightarrow> components" where
  "classification_variant cls variant =
     (case cls of None \<Rightarrow> variant
      | Some c \<Rightarrow>
          let variant = push_opt ''classification_confidence''
                (map_option normalize_token (get_as as_str c (lit ''confidence''))) variant
          in case get_as as_array c (lit ''evidence'') of None \<Rightarrow> variant
             | Some evidence \<Rightarrow>
                 push_all ''classification_evidence'' (take 8 (dedup (sort (filter (\<lambda>t. t \<noteq> [])
                   (map normalize_template (List.map_filter as_str evidence)))))) variant)"

definition first_of_list :: "'a list \<Rightarrow> 'a option" where
  "first_of_list xs = (case xs of [] \<Rightarrow> None | x # _ \<Rightarrow> Some x)"

definition title_text ::
  "ustring \<Rightarrow> ustring list \<Rightarrow> resolved_frame_data list \<Rightarrow> resolved_frame_data list \<Rightarrow> unresolved_frame_data list \<Rightarrow> ustring" where
  "title_text crash_type signals project engine unresolved = sanitize_title
     (case or_else (first_of_list project) (first_of_list engine) of
        Some frame \<Rightarrow> rf_function frame @ lit '' in '' @ rf_module frame
      | None \<Rightarrow> case first_of_list unresolved of
        Some frame \<Rightarrow> uf_module frame @ lit ''+'' @ uf_relative frame
      | None \<Rightarrow>
          if lit ''gpu_crash'' \<in> set signals then lit ''GPU crash''
          else if lit ''out_of_memory'' \<in> set signals then lit ''Out of memory''
          else if crash_type = lit ''assert'' then lit ''Assertion failure''
          else if crash_type = lit ''ensure'' then lit ''Ensure failure''
          else lit ''Crash'')"

text \<open>What is hashed: the domain, then every tag and value, each after its length in four bytes, big end first.\<close>

definition length_prefixed :: "byte list \<Rightarrow> byte list" where
  "length_prefixed value = rev (le_bytes 4 (min (length value) u32_max)) @ value"

definition digest_input :: "string \<Rightarrow> components \<Rightarrow> byte list" where
  "digest_input domain cs = length_prefixed (utf8 (lit domain))
     @ concat (map (\<lambda>(tag, value). length_prefixed (utf8 (lit tag)) @ length_prefixed (utf8 value)) cs)"

definition lower_hex :: "byte list \<Rightarrow> ustring" where
  "lower_hex bytes = concat (map (\<lambda>b. pad_hex hex_lower 2 (unat b)) bytes)"

definition digest :: "(byte list \<Rightarrow> byte list) \<Rightarrow> string \<Rightarrow> components \<Rightarrow> ustring" where
  "digest sha domain cs = lower_hex (sha (digest_input domain cs))"

definition signals_of :: "json_map option \<Rightarrow> ustring list" where
  "signals_of cls = (case Option.bind cls (\<lambda>c. get_as as_array c (lit ''signals'')) of
     None \<Rightarrow> [] | Some signals \<Rightarrow> normalized_signals signals)"

definition exception_of :: "json_map \<Rightarrow> ustring option" where
  "exception_of symbolication =
     filter_option (\<lambda>t. t \<noteq> []) (map_option normalize_template (get_as as_str symbolication (lit ''exception_reason'')))"

definition specific_template :: "(uchar \<Rightarrow> bool) \<Rightarrow> json_map \<Rightarrow> string \<Rightarrow> ustring option" where
  "specific_template alnum m key =
     filter_option (has_specific_template_token alnum) (map_option normalize_template (get_as as_str m (lit key)))"

definition issue_components ::
  "json_map \<Rightarrow> json_map \<Rightarrow> ustring \<Rightarrow> ustring list \<Rightarrow> ustring option \<Rightarrow> frame_evidence_data \<Rightarrow> bool \<Rightarrow> ustring option
   \<Rightarrow> components" where
  "issue_components context symbolication crash_type signals assertion frames specific_error error_template =
     (let issue = push_component ''crash_type'' crash_type [];
          issue = push_all ''signal'' signals issue;
          issue = push_opt ''exception'' (exception_of symbolication) issue;
          issue = push_opt ''assertion'' assertion issue;
          issue = push_all ''project_frame'' (map rf_component (fe_project frames)) issue;
          issue = push_all ''engine_frame'' (map rf_component (fe_engine frames)) issue;
          issue = push_all ''unresolved_frame'' (map uf_component (fe_unresolved frames)) issue;
          issue = (if specific_error \<and> assertion = None then push_opt ''error_template'' error_template issue else issue);
          platform_specific = (lit ''gpu_crash'' \<in> set signals
            \<or> is_some_and (first_of_list (fe_unresolved frames)) (\<lambda>f. uf_category f = SystemFrame))
      in if platform_specific
         then push_opt ''platform'' (map_option normalize_token
           (Option.bind (Option.bind (om_get context (lit ''platform'')) (\<lambda>v. json_get v (lit ''normalized''))) as_str)) issue
         else issue)"

definition fingerprint :: "(byte list \<Rightarrow> byte list) \<Rightarrow> (uchar \<Rightarrow> bool) \<Rightarrow> json \<Rightarrow> grouping_outcome grouping" where
  "fingerprint sha alnum v =
     bindR (map_err (\<lambda>_. InvalidProcessingResult) (validate_processing_result v None)) (\<lambda>_.
     bindR (object_at v [''crash_context'']) (\<lambda>context.
     bindR (object_at v [''current'', ''symbolication'']) (\<lambda>symbolication.
     bindR (string_field context ''crash_type'') (\<lambda>crash_type.
     let cls = Option.bind (json_get v (lit ''classification'')) as_object;
         signals = signals_of cls;
         assertion = specific_template alnum symbolication ''assertion'' in
     bindR (frame_evidence symbolication) (\<lambda>frames.
     let specific_error = (crash_type \<in> set (map lit [''assert'', ''ensure'']) \<or> signals \<noteq> []);
         error_template = specific_template alnum context ''error_message'';
         stable_error = (assertion \<noteq> None \<or> specific_error \<and> error_template \<noteq> None) in
     if fe_project frames = [] \<and> fe_engine frames = [] \<and> fe_unresolved frames = [] \<and> \<not> stable_error
     then Inr Insufficient
     else
       let issue = issue_components context symbolication crash_type signals assertion frames specific_error error_template;
           variant = push_all ''variant_frame'' (fe_variant frames) (classification_variant cls issue)
       in Inr (Grouped
         \<lparr>issue_fingerprint = digest sha ''faultlane:issue:stack:1'' issue,
          variant_fingerprint = digest sha ''faultlane:variant:stack:1'' variant,
          fp_title = title_text crash_type signals (fe_project frames) (fe_engine frames) (fe_unresolved frames),
          quality = grouping_quality frames (assertion \<noteq> None) stable_error\<rparr>))))))"

end
