(* ===== verification/Grouping_Facts.thy ===== *)
theory Grouping_Facts
  imports Grouping Processing_History
begin

section \<open>What fingerprints say\<close>

text \<open>
  When grouping fails, what a fingerprint is bounded by, how the two fingerprints of a crash relate, and
  what they depend on.
\<close>

subsection \<open>Normalized messages\<close>

text \<open>C28: normalizing a message ends after at most one pass of its loop per character: every pass moves the
  index forward and none leaves the message.\<close>

theorem template_loop_ends:
  "\<exists>n \<le> length cs. ((\<lambda>(i, out). template_step cs i out) ^^ n) (0, []) = (length cs, template_loop cs 0 [])"
  using template_passes [of 0 cs "[]"] by simp

text \<open>a normalized message has at most 1024 characters, no digit, no upper-case letter and no control
  character; its white space is single spaces, and none is at the start.\<close>

theorem normalized_message_tidy:
  "length (normalize_template message) \<le> max_error_template_chars \<and> tidy template_char (normalize_template message)"
  by (simp add: length_template tidy_template)

subsection \<open>Reading a valid result\<close>

definition frames_at :: "json \<Rightarrow> json list option" where
  "frames_at thread = Option.bind (json_get thread (lit ''frames'')) as_array"

lemma object_at_eq:
  "object_at v [k] = Inr m \<longleftrightarrow> Option.bind (json_get v (lit k)) as_object = Some m"
  "object_at v [k, l] = Inr m \<longleftrightarrow> Option.bind (Option.bind (json_get v (lit k)) (\<lambda>w. json_get w (lit l))) as_object = Some m"
  by (auto simp: object_at_def ok_or_eq)

lemma validate_module_name: "validate_module v = Inr () \<Longrightarrow> text_at v ''module'' \<noteq> None"
  by (auto simp: validate_module_def object_of_def result_simps text_at_def json_get_def get_as_def)

lemma validate_thread_frames: "validate_thread v = Inr () \<Longrightarrow> frames_at v \<noteq> None"
  by (auto simp: validate_thread_def object_of_def result_simps frames_at_def json_get_def get_as_def)

lemma valid_symbolication:
  assumes "validate_symbolication v version = Inr ()"
  obtains s modules threads where "as_object v = Some s" "get_as as_array s (lit ''modules'') = Some modules"
    "\<forall>m \<in> set modules. text_at m ''module'' \<noteq> None" "get_as as_array s (lit ''threads'') = Some threads"
    "\<forall>t \<in> set threads. frames_at t \<noteq> None"
proof -
  from assms obtain s modules threads where "as_object v = Some s"
    "get_as as_array s (lit ''modules'') = Some modules" "validate_modules modules = Inr ()"
    "get_as as_array s (lit ''threads'') = Some threads" "validate_threads threads = Inr ()"
    unfolding validate_symbolication_def object_of_def by (auto simp: bindR_eq_Inr ok_or_eq)
  then show ?thesis using validate_module_name validate_thread_frames
    by (intro that [of s modules threads]) (auto simp: validate_modules_def validate_threads_def for_each_eq_Inr)
qed

lemma valid_attempt:
  assumes "validate_attempt v = Inr ()"
  obtains w version where "json_get v (lit ''symbolication'') = Some w" "validate_symbolication w version = Inr ()"
  using assms unfolding validate_attempt_def object_of_def
  by (auto simp: bindR_eq_Inr ok_or_eq json_get_def)

lemma valid_crash_type_at: "validate_crash_context m = Inr () \<Longrightarrow> \<exists>t. get_as as_str m (lit ''crash_type'') = Some t"
  by (auto simp: validate_crash_context_def bindR_eq_Inr require_eq has_text_def is_some_and_def split: option.splits)

lemma valid_result_views:
  assumes "validate_processing_result v None = Inr ()"
  obtains ctx crash_type s modules threads where "object_at v [''crash_context''] = Inr ctx"
    "string_field ctx ''crash_type'' = Inr crash_type" "object_at v [''current'', ''symbolication''] = Inr s"
    "get_as as_array s (lit ''modules'') = Some modules" "\<forall>m \<in> set modules. text_at m ''module'' \<noteq> None"
    "get_as as_array s (lit ''threads'') = Some threads" "\<forall>t \<in> set threads. frames_at t \<noteq> None"
proof -
  from assms obtain m guid current history ctx where m: "as_object v = Some m"
    and acc: "result_accepted m guid current history ctx"
    by (auto simp: validate_processing_result_def validate_contract_iff)
  from acc have cur: "json_get v (lit ''current'') = Some current" and valid: "validate_attempt current = Inr ()"
    and ctx: "object_at v [''crash_context''] = Inr ctx" and ok: "validate_crash_context ctx = Inr ()"
    by (auto simp: result_accepted_def m json_get_def get_as_def object_at_eq bind_eq_Some_conv)
  from valid obtain w version where w: "json_get current (lit ''symbolication'') = Some w"
    and vw: "validate_symbolication w version = Inr ()" by (rule valid_attempt)
  from vw obtain s modules threads where s: "as_object w = Some s" "get_as as_array s (lit ''modules'') = Some modules"
    "\<forall>m \<in> set modules. text_at m ''module'' \<noteq> None" "get_as as_array s (lit ''threads'') = Some threads"
    "\<forall>t \<in> set threads. frames_at t \<noteq> None" by (rule valid_symbolication)
  have "object_at v [''current'', ''symbolication''] = Inr s" by (simp add: object_at_eq cur w s)
  moreover obtain t where "string_field ctx ''crash_type'' = Inr t"
    using valid_crash_type_at [OF ok] by (auto simp: string_field_def ok_or_eq)
  ultimately show ?thesis using ctx s by (intro that)
qed

subsection \<open>When grouping fails\<close>

definition threads_at :: "json \<Rightarrow> json list" where
  "threads_at v = (case object_at v [''current'', ''symbolication''] of
     Inl _ \<Rightarrow> [] | Inr s \<Rightarrow> unwrap_or (get_as as_array s (lit ''threads'')) [])"

lemma fold_result_ok: "(\<And>x s. x \<in> set xs \<Longrightarrow> is_ok (f x s)) \<Longrightarrow> is_ok (fold_result f xs s)"
proof (induction xs arbitrary: s)
  case (Cons x xs)
  then obtain s' where "f x s = Inr s'" unfolding is_ok_iff by (metis list.set_intros(1))
  with Cons show ?case by simp
qed simp

lemma module_identities_ok:
  assumes "get_as as_array s (lit ''modules'') = Some modules" and "\<forall>m \<in> set modules. text_at m ''module'' \<noteq> None"
  shows "is_ok (module_identities s)"
  unfolding module_identities_def using assms by (auto intro!: fold_result_ok)

lemma find_is_None: "find p xs = None \<longleftrightarrow> \<not> list_ex p xs"
  by (auto simp: find_None_iff list_ex_iff)

lemma faulting_frames_ok:
  assumes "get_as as_array s (lit ''threads'') = Some threads" and "\<forall>t \<in> set threads. frames_at t \<noteq> None"
  shows "is_ok (faulting_frames s) \<longleftrightarrow> list_ex is_faulting threads"
proof (cases "find is_faulting threads")
  case None
  then have "faulting_frames s = Inl InvalidProcessingResult" using assms(1) by (simp add: faulting_frames_def)
  with None show ?thesis by (simp add: find_is_None)
next
  case (Some t)
  then obtain fs where "frames_at t = Some fs" using assms(2) by (auto dest!: find_Some_mem)
  moreover have "list_ex is_faulting threads" using Some find_is_None [of is_faulting threads] by simp
  ultimately show ?thesis using assms(1) Some by (simp add: faulting_frames_def frames_at_def)
qed

lemma is_ok_bindR: "is_ok (bindR r f) \<longleftrightarrow> (\<exists>a. r = Inr a \<and> is_ok (f a))"
  by (cases r) simp_all

lemma frame_evidence_ok: "is_ok (frame_evidence s) \<longleftrightarrow> is_ok (module_identities s) \<and> is_ok (faulting_frames s)"
proof -
  have "frame_evidence s = Inr fe \<Longrightarrow> is_ok (module_identities s) \<and> is_ok (faulting_frames s)" for fe
    unfolding frame_evidence_def by (auto simp only: bindR_eq_Inr is_ok_iff)
  moreover have "is_ok (frame_evidence s)" if "module_identities s = Inr ms" "faulting_frames s = Inr fs" for ms fs
    by (cases "fold (sort_frame ms) fs ([], [], [])") (simp add: frame_evidence_def that Let_def)
  ultimately show ?thesis unfolding is_ok_iff by blast
qed

lemma fingerprint_errors:
  "fingerprint sha alnum v = Inl InvalidProcessingResult \<longleftrightarrow>
     validate_processing_result v None \<noteq> Inr () \<or> \<not> list_ex is_faulting (threads_at v)"
proof (cases "validate_processing_result v None = Inr ()")
  case True
  from valid_result_views [OF True] obtain ctx crash_type s modules threads where
    views: "object_at v [''crash_context''] = Inr ctx" "string_field ctx ''crash_type'' = Inr crash_type"
      "object_at v [''current'', ''symbolication''] = Inr s"
    and modules: "get_as as_array s (lit ''modules'') = Some modules" "\<forall>m \<in> set modules. text_at m ''module'' \<noteq> None"
    and threads: "get_as as_array s (lit ''threads'') = Some threads" "\<forall>t \<in> set threads. frames_at t \<noteq> None"
    by metis
  have "is_ok (frame_evidence s) \<longleftrightarrow> list_ex is_faulting threads"
    using frame_evidence_ok module_identities_ok [OF modules] faulting_frames_ok [OF threads] by simp
  moreover have "threads_at v = threads" by (simp add: threads_at_def views threads unwrap_or_def)
  moreover have "fingerprint sha alnum v = Inl InvalidProcessingResult \<longleftrightarrow> \<not> is_ok (frame_evidence s)"
  proof (cases "frame_evidence s")
    case (Inl e)
    then show ?thesis by (cases e) (simp add: fingerprint_def True views)
  next
    case (Inr frames)
    then show ?thesis by (simp add: fingerprint_def True views Let_def)
  qed
  ultimately show ?thesis using True by simp
next
  case False
  then obtain e where "validate_processing_result v None = Inl e" by (cases "validate_processing_result v None") auto
  then show ?thesis by (simp add: fingerprint_def)
qed

text \<open>C27: grouping fails exactly when the result breaks the contract or none of its threads is marked as
  faulting; so a valid result without a faulting thread is refused too.\<close>

theorem fingerprint_fails_exactly:
  "fingerprint sha alnum v = Inl InvalidProcessingResult \<longleftrightarrow>
     \<not> (validate_processing_result v None = Inr () \<and> list_ex is_faulting (threads_at v))"
  unfolding fingerprint_errors by (rule de_Morgan_conj [symmetric])

subsection \<open>Components\<close>

text \<open>\<open>cs'\<close> is \<open>cs\<close> with more components, of these tags and of bounded length.\<close>

definition extends :: "string set \<Rightarrow> components \<Rightarrow> components \<Rightarrow> bool" where
  "extends tags cs cs' \<longleftrightarrow> (\<exists>more. cs' = cs @ more
     \<and> (\<forall>(tag, value) \<in> set more. tag \<in> tags \<and> length value \<le> max_component_chars))"

lemma extends_refl: "extends tags cs cs"
  by (simp add: extends_def)

lemma extends_trans: "extends tags cs cs' \<Longrightarrow> extends tags cs' cs'' \<Longrightarrow> extends tags cs cs''"
  by (fastforce simp: extends_def)

lemma extends_push: "tag \<in> tags \<Longrightarrow> extends tags cs (push_component tag v cs)"
  by (auto simp: extends_def push_component_def bounded_def Let_def)

lemma extends_push_all: "tag \<in> tags \<Longrightarrow> extends tags cs (push_all tag vs cs)"
  unfolding push_all_def
proof (induction vs arbitrary: cs)
  case (Cons v vs)
  then show ?case using extends_trans [OF extends_push [of tag tags cs v]] by simp
qed (simp add: extends_refl)

lemma extends_push_opt: "tag \<in> tags \<Longrightarrow> extends tags cs (push_opt tag v cs)"
  by (simp add: push_opt_def extends_refl extends_push split: option.split)

lemma extends_if: "extends tags cs a \<Longrightarrow> extends tags cs b \<Longrightarrow> extends tags cs (if p then a else b)"
  by simp

lemmas extends_steps = extends_if extends_trans [OF _ extends_push] extends_trans [OF _ extends_push_all]
  extends_trans [OF _ extends_push_opt] extends_refl

definition issue_tags :: "string set" where
  "issue_tags = {''crash_type'', ''signal'', ''exception'', ''assertion'', ''project_frame'', ''engine_frame'',
     ''unresolved_frame'', ''error_template'', ''platform''}"

definition variant_tags :: "string set" where
  "variant_tags = {''classification_confidence'', ''classification_evidence'', ''variant_frame''}"

lemma tags_disjoint: "issue_tags \<inter> variant_tags = {}"
  by (simp add: issue_tags_def variant_tags_def)

lemma tags_short: "tag \<in> issue_tags \<union> variant_tags \<Longrightarrow> length tag \<le> 512"
  by (auto simp: issue_tags_def variant_tags_def)

lemma issue_components_extend:
  "extends issue_tags [] (issue_components ctx s crash_type signals assertion frames specific_error error_template)"
  unfolding issue_components_def Let_def by (intro extends_steps) (simp_all add: issue_tags_def)

lemma classification_variant_extends: "extends variant_tags cs (classification_variant cls cs)"
  unfolding classification_variant_def Let_def
  by (cases cls; simp; (rule extends_refl)?) (auto simp: variant_tags_def split: option.split intro!: extends_steps)

subsection \<open>Digests\<close>

definition component_bytes :: "string \<times> ustring \<Rightarrow> byte list \<times> byte list" where
  "component_bytes c = (utf8 (lit (fst c)), utf8 (snd c))"

definition fields_input :: "(byte list \<times> byte list) list \<Rightarrow> byte list" where
  "fields_input fs = concat (map (\<lambda>(tag, value). length_prefixed tag @ length_prefixed value) fs)"

lemma digest_input_fields:
  "digest_input domain cs = length_prefixed (utf8 (lit domain)) @ fields_input (map component_bytes cs)"
proof -
  have "map (\<lambda>(tag, value). length_prefixed (utf8 (lit tag)) @ length_prefixed (utf8 value)) cs
    = map (\<lambda>(tag, value). length_prefixed tag @ length_prefixed value) (map component_bytes cs)"
    by (simp add: component_bytes_def comp_def split_def)
  then show ?thesis by (simp only: digest_input_def fields_input_def)
qed

lemma length_prefixed_inject:
  assumes "length a \<le> u32_max" and "length b \<le> u32_max"
    and eq: "length_prefixed a @ xs = length_prefixed b @ ys"
  shows "a = b \<and> xs = ys"
proof -
  from eq have "rev (le_bytes 4 (min (length a) u32_max)) = rev (le_bytes 4 (min (length b) u32_max))"
    and rest: "a @ xs = b @ ys" by (simp_all add: length_prefixed_def)
  then have "le_bytes 4 (length a) = le_bytes 4 (length b)" using assms(1,2) by (simp add: min_absorb1)
  moreover have "length a < 256 ^ 4" "length b < 256 ^ 4" using assms(1,2) by (simp_all add: u32_max_def)
  ultimately have "length a = length b" by (metis le_nat_le_bytes)
  with rest show ?thesis by simp
qed

definition short_field :: "byte list \<times> byte list \<Rightarrow> bool" where
  "short_field f \<longleftrightarrow> length (fst f) \<le> u32_max \<and> length (snd f) \<le> u32_max"

lemma length_prefixed_nonempty: "length_prefixed a \<noteq> []"
proof
  assume "length_prefixed a = []"
  then have "length (length_prefixed a) = 0" by simp
  then show False by (simp add: length_prefixed_def)
qed

lemma fields_input_inject:
  "list_all short_field fs \<Longrightarrow> list_all short_field gs \<Longrightarrow> fields_input fs = fields_input gs \<Longrightarrow> fs = gs"
proof (induction fs arbitrary: gs)
  case Nil
  then show ?case by (cases gs) (simp_all add: fields_input_def length_prefixed_nonempty split_def)
next
  case (Cons f fs)
  show ?case
  proof (cases gs)
    case Nil
    then show ?thesis using Cons.prems by (simp add: fields_input_def length_prefixed_nonempty split_def)
  next
    case (Cons g gs')
    have "length_prefixed (fst f) @ length_prefixed (snd f) @ fields_input fs
      = length_prefixed (fst g) @ length_prefixed (snd g) @ fields_input gs'"
      using Cons.prems(3) Cons by (simp add: fields_input_def split_def)
    moreover have "short_field f" "short_field g" using Cons.prems Cons by simp_all
    ultimately have "fst f = fst g" "snd f = snd g" "fields_input fs = fields_input gs'"
      unfolding short_field_def by (metis length_prefixed_inject)+
    with Cons.IH [of gs'] Cons.prems Cons show ?thesis by (simp add: prod_eq_iff)
  qed
qed

lemma short_component:
  assumes "tag \<in> issue_tags \<union> variant_tags" and "length value \<le> max_component_chars"
  shows "short_field (component_bytes (tag, value))"
  using str_len_le [of "lit tag"] str_len_le [of "value"] tags_short [OF assms(1)] assms(2)
  by (simp add: short_field_def component_bytes_def max_component_chars_def u32_max_def)

lemma utf8_lit_inject: "utf8 (lit s) = utf8 (lit t) \<longleftrightarrow> s = t"
proof
  have scalar: "\<forall>c \<in> set (lit u). is_scalar c" for u
  proof -
    have "of_char c < (0xD800 :: nat)" for c :: char by (rule less_trans [OF nat_of_char_less_256]) simp
    then show ?thesis by (auto simp: lit_def is_scalar_def)
  qed
  assume "utf8 (lit s) = utf8 (lit t)"
  then have "Some (lit s) = Some (lit t)" using from_utf8_utf8 scalar by metis
  then show "s = t" by simp
qed simp

lemma digest_input_of_parts:
  assumes "extends issue_tags [] issue" and "extends issue_tags [] issue'"
    and "extends variant_tags issue variant" and "extends variant_tags issue' variant'"
    and eq: "digest_input domain variant = digest_input domain variant'"
  shows "digest_input domain' issue = digest_input domain' issue'"
proof -
  let ?p = "\<lambda>f :: byte list \<times> byte list. fst f \<in> (\<lambda>t. utf8 (lit t)) ` issue_tags"
  have parts: "list_all short_field (map component_bytes v) \<and> filter ?p (map component_bytes v) = map component_bytes i"
    if "extends issue_tags [] i" "extends variant_tags i v" for i v
  proof -
    from that obtain more where v: "v = i @ more"
      and i: "\<forall>(tag, value) \<in> set i. tag \<in> issue_tags \<and> length value \<le> max_component_chars"
      and more: "\<forall>(tag, value) \<in> set more. tag \<in> variant_tags \<and> length value \<le> max_component_chars"
      by (auto simp: extends_def)
    have "filter ?p (map component_bytes i) = map component_bytes i"
      using i by (intro filter_True) (auto simp: component_bytes_def)
    moreover have "filter ?p (map component_bytes more) = []"
      using more tags_disjoint by (auto simp: filter_empty_conv component_bytes_def utf8_lit_inject)
    moreover have "list_all short_field (map component_bytes v)"
      using i more short_component by (auto simp: v list_all_iff)
    ultimately show ?thesis by (simp add: v)
  qed
  from eq have "fields_input (map component_bytes variant) = fields_input (map component_bytes variant')"
    by (simp add: digest_input_fields)
  then have "map component_bytes variant = map component_bytes variant'"
    using parts [OF assms(1,3)] parts [OF assms(2,4)] by (intro fields_input_inject) simp_all
  then have "map component_bytes issue = map component_bytes issue'"
    using parts [OF assms(1,3)] parts [OF assms(2,4)] by metis
  then show ?thesis by (simp add: digest_input_fields)
qed

lemma lower_hex_inject: "lower_hex a = lower_hex b \<longleftrightarrow> a = b"
proof
  have p: "parse_hex_u64 (pad_hex hex_lower 2 (unat c)) = Some (unat c)" for c :: byte
    using unat_byte_less [of c] by (intro parse_hex_pad hex_value_digits) (simp_all add: u64_max_def)
  have inj: "pad_hex hex_lower 2 (unat c) = pad_hex hex_lower 2 (unat d) \<Longrightarrow> c = d" for c d :: byte
    by (metis p option.inject byte_of_unat)
  show "lower_hex a = lower_hex b \<Longrightarrow> a = b"
  proof (induction a arbitrary: b)
    case Nil
    then show ?case by (cases b) (auto simp: lower_hex_def)
  next
    case (Cons c a)
    show ?case
    proof (cases b)
      case Nil
      with Cons.prems show ?thesis by (simp add: lower_hex_def)
    next
      case (Cons d b')
      with Cons.prems have "pad_hex hex_lower 2 (unat c) = pad_hex hex_lower 2 (unat d)" "lower_hex a = lower_hex b'"
        by (simp_all add: lower_hex_def)
      with inj Cons.IH Cons show ?thesis by blast
    qed
  qed
qed simp

subsection \<open>The shape of a fingerprint\<close>

definition groups_as :: "(uchar \<Rightarrow> bool) \<Rightarrow> json \<Rightarrow> components \<Rightarrow> components \<Rightarrow> ustring \<Rightarrow> int \<Rightarrow> bool" where
  "groups_as alnum v issue variant title q \<longleftrightarrow> (\<forall>sha. fingerprint sha alnum v = Inr (Grouped
      \<lparr>issue_fingerprint = digest sha ''faultlane:issue:stack:1'' issue,
       variant_fingerprint = digest sha ''faultlane:variant:stack:1'' variant,
       fp_title = sanitize_title title, quality = q\<rparr>))"

lemma fingerprint_grouped:
  assumes "fingerprint sha alnum v = Inr (Grouped f)"
  obtains issue variant title s frames a b where
    "extends issue_tags [] issue" and "extends variant_tags issue variant"
    and "groups_as alnum v issue variant title (grouping_quality frames a b)"
    and "object_at v [''current'', ''symbolication''] = Inr s" and "frame_evidence s = Inr frames"
    and "fe_project frames \<noteq> [] \<or> fe_engine frames \<noteq> [] \<or> fe_unresolved frames \<noteq> [] \<or> b" and "a \<longrightarrow> b"
proof -
  from assms obtain u ctx s t frames where facts: "validate_processing_result v None = Inr u"
    "object_at v [''crash_context''] = Inr ctx" "object_at v [''current'', ''symbolication''] = Inr s"
    "string_field ctx ''crash_type'' = Inr t" "frame_evidence s = Inr frames"
    unfolding fingerprint_def Let_def by (auto simp only: bindR_eq_Inr map_err_eq)
  define signals where "signals = signals_of (Option.bind (json_get v (lit ''classification'')) as_object)"
  define assertion where "assertion = specific_template alnum s ''assertion''"
  define template where "template = specific_template alnum ctx ''error_message''"
  define specific where "specific = (t \<in> set (map lit [''assert'', ''ensure'']) \<or> signals \<noteq> [])"
  define stable where "stable = (assertion \<noteq> None \<or> specific \<and> template \<noteq> None)"
  define issue where "issue = issue_components ctx s t signals assertion frames specific template"
  define variant where "variant = push_all ''variant_frame'' (fe_variant frames)
    (classification_variant (Option.bind (json_get v (lit ''classification'')) as_object) issue)"
  have eq: "fingerprint sha' alnum v =
    (if fe_project frames = [] \<and> fe_engine frames = [] \<and> fe_unresolved frames = [] \<and> \<not> stable then Inr Insufficient
     else Inr (Grouped \<lparr>issue_fingerprint = digest sha' ''faultlane:issue:stack:1'' issue,
       variant_fingerprint = digest sha' ''faultlane:variant:stack:1'' variant,
       fp_title = title_text t signals (fe_project frames) (fe_engine frames) (fe_unresolved frames),
       quality = grouping_quality frames (assertion \<noteq> None) stable\<rparr>))" for sha'
    unfolding fingerprint_def facts bindR_simps map_err_simps Let_def
    by (simp only: facts bindR_simps signals_def assertion_def template_def specific_def stable_def issue_def variant_def)
  have "extends variant_tags issue variant"
    unfolding variant_def using classification_variant_extends
    by (rule extends_trans) (rule extends_push_all, simp add: variant_tags_def)
  moreover have found: "\<not> (fe_project frames = [] \<and> fe_engine frames = [] \<and> fe_unresolved frames = [] \<and> \<not> stable)"
    using assms unfolding eq by (auto split: if_splits)
  moreover have "extends issue_tags [] issue" unfolding issue_def by (rule issue_components_extend)
  moreover have "assertion \<noteq> None \<longrightarrow> stable" by (simp add: stable_def)
  moreover obtain title where "groups_as alnum v issue variant title (grouping_quality frames (assertion \<noteq> None) stable)"
    unfolding groups_as_def using eq found by (simp only: if_False title_text_def) blast
  ultimately show ?thesis using facts(3,5) by (intro that [of issue variant title frames "assertion \<noteq> None" stable s]) blast+
qed

definition hashed_as_variant :: "(uchar \<Rightarrow> bool) \<Rightarrow> json \<Rightarrow> byte list \<Rightarrow> bool" where
  "hashed_as_variant alnum v bytes \<longleftrightarrow>
     (\<exists>f. fingerprint (\<lambda>bs. bs) alnum v = Inr (Grouped f) \<and> variant_fingerprint f = lower_hex bytes)"

lemma variant_determines_issue:
  assumes f: "fingerprint sha alnum v = Inr (Grouped f)" and g: "fingerprint sha alnum w = Inr (Grouped g)"
    and no_collision: "\<And>a b. hashed_as_variant alnum v a \<Longrightarrow> hashed_as_variant alnum w b \<Longrightarrow> sha a = sha b \<Longrightarrow> a = b"
    and eq: "variant_fingerprint f = variant_fingerprint g"
  shows "issue_fingerprint f = issue_fingerprint g"
proof -
  from f obtain issue variant title q where i: "extends issue_tags [] issue" "extends variant_tags issue variant"
    and f': "groups_as alnum v issue variant title q" by (rule fingerprint_grouped) (rule that)
  from g obtain issue' variant' title' q' where i': "extends issue_tags [] issue'" "extends variant_tags issue' variant'"
    and g': "groups_as alnum w issue' variant' title' q'" by (rule fingerprint_grouped) (rule that)
  let ?in = "digest_input ''faultlane:variant:stack:1''"
  have hashed: "hashed_as_variant alnum v (?in variant)" "hashed_as_variant alnum w (?in variant')"
    
    using f' g' by (simp_all add: hashed_as_variant_def groups_as_def digest_def)
  have "variant_fingerprint f = lower_hex (sha (?in variant))" using f f' by (auto simp: groups_as_def digest_def)
  moreover have "variant_fingerprint g = lower_hex (sha (?in variant'))" using g g' by (auto simp: groups_as_def digest_def)
  ultimately have "sha (?in variant) = sha (?in variant')" using eq by (simp add: lower_hex_inject)
  with no_collision hashed have "?in variant = ?in variant'" by blast
  then have "digest_input ''faultlane:issue:stack:1'' issue = digest_input ''faultlane:issue:stack:1'' issue'"
    by (rule digest_input_of_parts [OF i(1) i'(1) i(2) i'(2)])
  then show ?thesis using f f' g g' by (auto simp: groups_as_def digest_def)
qed

subsection \<open>Bounds\<close>

lemma unresolved_not_resolved: "resolved_frame f = Some r \<Longrightarrow> unresolved_frame f ms = None"
  by (auto simp: resolved_frame_def unresolved_frame_def split: if_splits)

lemma map_filter_Cons_append: "List.map_filter g (x # xs) = List.map_filter g [x] @ List.map_filter g xs"
  by (simp add: map_filter_simps split: option.split)

lemma fold_sort_frame:
  "\<exists>variant'. fold (sort_frame ms) fs (resolved, unresolved, variant) =
     (resolved @ List.map_filter resolved_frame fs, unresolved @ List.map_filter (\<lambda>f. unresolved_frame f ms) fs, variant')"
proof (induction fs arbitrary: resolved unresolved variant)
  case (Cons f fs)
  obtain w where st: "sort_frame ms f (resolved, unresolved, variant)
    = (resolved @ List.map_filter resolved_frame [f], unresolved @ List.map_filter (\<lambda>f. unresolved_frame f ms) [f], w)"
    using unresolved_not_resolved [of f _ ms]
    by (cases "resolved_frame f"; cases "unresolved_frame f ms") (simp_all add: sort_frame_def map_filter_simps)
  have eq: "fold (sort_frame ms) (f # fs) (resolved, unresolved, variant) = fold (sort_frame ms) fs
    (resolved @ List.map_filter resolved_frame [f], unresolved @ List.map_filter (\<lambda>f. unresolved_frame f ms) [f], w)"
    by (simp only: fold_simps st)
  show ?case
    unfolding eq map_filter_Cons_append [of resolved_frame f fs] map_filter_Cons_append [of "\<lambda>f. unresolved_frame f ms" f fs]
      append_assoc [symmetric] by (rule Cons.IH)
qed (simp add: map_filter_simps)

lemma frame_evidence_spec:
  assumes "frame_evidence s = Inr fe"
  obtains ms fs where "module_identities s = Inr ms" "faulting_frames s = Inr fs"
    "fe_project fe = take 8 (filter (\<lambda>f. rf_category f = ProjectFrame) (List.map_filter resolved_frame fs))"
    "fe_engine fe = (if fe_project fe = [] then take 5 (filter (\<lambda>f. rf_category f = EngineFrame)
       (List.map_filter resolved_frame fs)) else [])"
    "fe_unresolved fe = (if fe_project fe = [] \<and> fe_engine fe = []
       then take 8 (List.map_filter (\<lambda>f. unresolved_frame f ms) fs) else [])"
proof -
  from assms obtain ms fs where "module_identities s = Inr ms" "faulting_frames s = Inr fs"
    unfolding frame_evidence_def by (auto simp only: bindR_eq_Inr)
  moreover obtain variant where "fold (sort_frame ms) fs ([], [], [])
    = (List.map_filter resolved_frame fs, List.map_filter (\<lambda>f. unresolved_frame f ms) fs, variant)"
    using fold_sort_frame [of ms fs "[]" "[]" "[]"] by auto
  ultimately show ?thesis using assms
    by (intro that [of ms fs])
      (auto simp: frame_evidence_def Let_def max_project_frames_def max_engine_frames_def max_unresolved_frames_def)
qed

definition project_frame :: "json \<Rightarrow> bool" where
  "project_frame frame = is_some_and (resolved_frame frame) (\<lambda>r. rf_category r = ProjectFrame)"

definition faulting_at :: "json \<Rightarrow> json list" where
  "faulting_at v = (case object_at v [''current'', ''symbolication''] of Inl _ \<Rightarrow> []
     | Inr s \<Rightarrow> (case faulting_frames s of Inl _ \<Rightarrow> [] | Inr fs \<Rightarrow> fs))"

lemma i32_len_small: "length xs \<le> 8 \<Longrightarrow> i32_len xs = int (length xs)"
  by (simp add: i32_len_def)

lemma quality_arith:
  fixes p e u :: nat
  assumes "p \<le> 8" "e \<le> 5" "u \<le> 8" and "0 < p \<Longrightarrow> e = 0 \<and> u = 0" and "0 < e \<Longrightarrow> u = 0"
    and "0 < p \<or> 0 < e \<or> 0 < u \<or> b" and "a \<longrightarrow> b"
  shows "1 \<le> int p * 100 + int e * 10 + int u * 5 + of_bool a * 3 + of_bool b
    \<and> int p * 100 + int e * 10 + int u * 5 + of_bool a * 3 + of_bool b \<le> 804
    \<and> (100 \<le> int p * 100 + int e * 10 + int u * 5 + of_bool a * 3 + of_bool b \<longleftrightarrow> 0 < p)"
proof (cases "0 < p")
  case True
  then show ?thesis using assms by (cases a; cases b) auto
next
  case False
  then show ?thesis using assms by (cases "0 < e"; cases a; cases b) auto
qed

lemma quality_bounds:
  assumes "frame_evidence s = Inr fe" and "faulting_frames s = Inr fs"
    and "fe_project fe \<noteq> [] \<or> fe_engine fe \<noteq> [] \<or> fe_unresolved fe \<noteq> [] \<or> b" and "a \<longrightarrow> b"
  shows "1 \<le> grouping_quality fe a b \<and> grouping_quality fe a b \<le> 804
    \<and> (100 \<le> grouping_quality fe a b \<longleftrightarrow> list_ex project_frame fs)"
proof -
  from assms(1) obtain ms where spec:
    "fe_project fe = take 8 (filter (\<lambda>f. rf_category f = ProjectFrame) (List.map_filter resolved_frame fs))"
    "fe_engine fe = (if fe_project fe = [] then take 5 (filter (\<lambda>f. rf_category f = EngineFrame)
       (List.map_filter resolved_frame fs)) else [])"
    "fe_unresolved fe = (if fe_project fe = [] \<and> fe_engine fe = []
       then take 8 (List.map_filter (\<lambda>f. unresolved_frame f ms) fs) else [])"
    by (rule frame_evidence_spec) (use assms(2) in auto)
  have len: "length (fe_project fe) \<le> 8" "length (fe_engine fe) \<le> 5" "length (fe_unresolved fe) \<le> 8"
    by (simp_all add: spec)
  have excl: "fe_project fe \<noteq> [] \<Longrightarrow> fe_engine fe = [] \<and> fe_unresolved fe = []"
    "fe_engine fe \<noteq> [] \<Longrightarrow> fe_unresolved fe = []"
    unfolding spec by auto
  have q: "grouping_quality fe a b = int (length (fe_project fe)) * 100 + int (length (fe_engine fe)) * 10
      + int (length (fe_unresolved fe)) * 5 + of_bool a * 3 + of_bool b"
    using len by (simp add: grouping_quality_def i32_len_small)
  have project: "fe_project fe \<noteq> [] \<longleftrightarrow> list_ex project_frame fs"
    unfolding spec
    by (auto simp: filter_empty_conv list_ex_iff project_frame_def is_some_and_def List.map_filter_def split: option.splits)
  have pos: "0 < length (fe_project fe) \<or> 0 < length (fe_engine fe) \<or> 0 < length (fe_unresolved fe) \<or> b"
    using assms(3) by auto
  have excl_len: "0 < length (fe_project fe) \<Longrightarrow> length (fe_engine fe) = 0 \<and> length (fe_unresolved fe) = 0"
    "0 < length (fe_engine fe) \<Longrightarrow> length (fe_unresolved fe) = 0" using excl by auto
  from quality_arith [OF len excl_len pos assms(4)] project q show ?thesis by simp
qed

definition hex_text :: "ustring \<Rightarrow> bool" where
  "hex_text s \<longleftrightarrow> (\<forall>c \<in> set s. \<exists>d < 16. c = hex_lower d)"

lemma hex_text_digest: "hex_text (digest sha domain cs)"
proof -
  have zero: "\<exists>d < 16. ch CHR ''0'' = hex_lower d" by (rule exI [of _ 0]) (simp add: hex_lower_def)
  have "\<exists>d < 16. c = hex_lower d" if "c \<in> set (pad_hex hex_lower 2 n)" for c n
    using that to_hex_chars [of c hex_lower n] zero unfolding pad_hex_def by fastforce
  then show ?thesis unfolding hex_text_def digest_def lower_hex_def by auto
qed

lemma grouped_bounds:
  assumes "fingerprint sha alnum v = Inr (Grouped f)"
  shows "1 \<le> quality f \<and> quality f \<le> 804 \<and> (100 \<le> quality f \<longleftrightarrow> list_ex project_frame (faulting_at v))
    \<and> fp_title f \<noteq> [] \<and> length (fp_title f) \<le> 160
    \<and> list_all (\<lambda>c. c \<notin> set (lit ''<>&'') \<and> c \<noteq> 39 \<and> c \<noteq> 34 \<and> \<not> is_control c) (fp_title f)
    \<and> hex_text (issue_fingerprint f) \<and> hex_text (variant_fingerprint f)"
proof -
  from assms obtain issue variant title s frames a b where
    f': "groups_as alnum v issue variant title (grouping_quality frames a b)"
    and s: "object_at v [''current'', ''symbolication''] = Inr s" and ev: "frame_evidence s = Inr frames"
    and some: "fe_project frames \<noteq> [] \<or> fe_engine frames \<noteq> [] \<or> fe_unresolved frames \<noteq> [] \<or> b" "a \<longrightarrow> b"
    by (rule fingerprint_grouped)
  from ev obtain fs where fs: "faulting_frames s = Inr fs" by (rule frame_evidence_spec)
  then have "faulting_at v = fs" by (simp add: faulting_at_def s)
  with quality_bounds [OF ev fs some] assms f' sanitized_title [of title]
  show ?thesis by (auto simp: groups_as_def hex_text_digest max_title_chars_def list_all_iff)
qed

text \<open>A valid result with a project frame on its faulting stack is grouped.\<close>

lemma project_frame_grouped:
  assumes valid: "validate_processing_result v None = Inr ()" and project: "list_ex project_frame (faulting_at v)"
  shows "\<exists>f. fingerprint sha alnum v = Inr (Grouped f)"
proof -
  from valid_result_views [OF valid] obtain ctx t s where facts: "object_at v [''crash_context''] = Inr ctx"
    "string_field ctx ''crash_type'' = Inr t" "object_at v [''current'', ''symbolication''] = Inr s" by metis
  obtain fs where fs: "faulting_frames s = Inr fs" and ex: "list_ex project_frame fs"
    using project by (cases "faulting_frames s") (simp_all add: faulting_at_def facts)
  from valid_result_views [OF valid] obtain modules where "get_as as_array s (lit ''modules'') = Some modules"
    "\<forall>m \<in> set modules. text_at m ''module'' \<noteq> None" using facts(3) by (metis sum.inject(2))
  then have "is_ok (module_identities s)" by (rule module_identities_ok)
  then obtain fe where fe: "frame_evidence s = Inr fe" using frame_evidence_ok [of s] fs by (auto simp: is_ok_iff)
  then obtain ms fs' where fs': "faulting_frames s = Inr fs'" and pe:
    "fe_project fe = take 8 (filter (\<lambda>f. rf_category f = ProjectFrame) (List.map_filter resolved_frame fs'))"
    by (rule frame_evidence_spec)
  have "fe_project fe \<noteq> []"
    using ex fs fs' unfolding pe list_ex_iff project_frame_def
    by (auto simp: filter_empty_conv is_some_and_def List.map_filter_def split: option.splits)
  then show ?thesis by (simp add: fingerprint_def valid facts fe Let_def)
qed

end
