(* ===== verification/Grouping_Evidence.thy ===== *)
theory Grouping_Evidence
  imports Grouping_Facts
begin

section \<open>What fingerprints depend on\<close>

text \<open>
  The evidence of a processing result: the part of its inputs that grouping reads. Two results with the
  same evidence get the same fingerprints, whatever their crash identities, addresses, source lines,
  other threads, requests, logs and histories are.
\<close>

type_synonym frame_view = "frame_symbol_status \<times> ustring option \<times> ustring option \<times> ustring option
  \<times> ustring option \<times> (ustring \<times> ustring option) list"

definition frame_view :: "symbolicated_frame \<Rightarrow> frame_view" where
  "frame_view f = (sf_symbol_status f, sf_module f, sf_module_relative f, sf_function f, sf_source_file f,
     map (\<lambda>i. (in_function i, in_source_file i)) (sf_inlines f))"

definition module_view :: "symbolicated_module \<Rightarrow> ustring \<times> ustring option \<times> ustring option" where
  "module_view m = (sm_module m, sm_debug_id m, sm_code_id m)"

record evidence =
  ev_crash_type :: crash_type
  ev_error_message :: "ustring option"
  ev_platform :: "ustring option"
  ev_exception :: "ustring option"
  ev_assertion :: "ustring option"
  ev_modules :: "(ustring \<times> ustring option \<times> ustring option) list"
  ev_frames :: "frame_view list option"
  ev_classification :: "(classification_confidence \<times> ustring list \<times> crash_signal_kind list) option"

definition evidence_of :: "processing_input \<Rightarrow> evidence" where
  "evidence_of i =
     (let c = in_context i; r = in_symbolication i
      in \<lparr>ev_crash_type = ctx_crash_type c, ev_error_message = error_message c,
          ev_platform = map_option normalized (platform c),
          ev_exception = sr_exception_reason r, ev_assertion = sr_assertion r,
          ev_modules = map module_view (sr_modules r),
          ev_frames = map_option (\<lambda>t. map frame_view (st_frames t)) (find st_faulting (sr_threads r)),
          ev_classification = map_option (\<lambda>c. (cls_confidence c, cls_evidence c, map sig_kind (cls_signals c)))
            (in_classification i)\<rparr>)"

subsection \<open>Frames and modules\<close>

lemma as_str_option [json_simps]: "as_str (option_json JString v) = v"
  by (cases v) (simp_all add: json_simps)

lemma frame_reads:
  "text_at (frame_json f) ''symbol_status'' = as_str (frame_status_json (sf_symbol_status f))"
  "text_at (frame_json f) ''module'' = sf_module f"
  "text_at (frame_json f) ''module_relative'' = sf_module_relative f"
  "text_at (frame_json f) ''function'' = sf_function f"
  "text_at (frame_json f) ''source_file'' = sf_source_file f"
  "json_get (frame_json f) (lit ''inlines'') = Some (list_json inline_json (sf_inlines f))"
  by (simp_all add: text_at_def frame_json_def struct_json_get as_str_option)

lemma inline_reads:
  "text_at (inline_json i) ''function'' = Some (in_function i)"
  "text_at (inline_json i) ''source_file'' = in_source_file i"
  by (simp_all add: text_at_def inline_json_def struct_json_get as_str_option)

lemma map_filter_inlines:
  "List.map_filter (\<lambda>inline. text_at inline ''function'') (map inline_json is) = map in_function is"
  "List.map_filter (\<lambda>inline. text_at inline ''source_file'') (map inline_json is) = List.map_filter in_source_file is"
  by (induction "is") (simp_all add: map_filter_simps inline_reads split: option.split)

lemma inlines_view:
  assumes "map (\<lambda>i. (in_function i, in_source_file i)) is = map (\<lambda>i. (in_function i, in_source_file i)) js"
  shows "map in_function is = map in_function js" and "List.map_filter in_source_file is = List.map_filter in_source_file js"
proof -
  show "map in_function is = map in_function js" using arg_cong [OF assms, of "map fst"] by (simp add: comp_def)
  have eq: "List.map_filter in_source_file ks = List.map_filter snd (map (\<lambda>i. (in_function i, in_source_file i)) ks)" for ks
    by (induction ks) (simp_all add: map_filter_simps split: option.split)
  show "List.map_filter in_source_file is = List.map_filter in_source_file js" unfolding eq assms ..
qed

lemma frame_view_determines:
  assumes "frame_view f = frame_view g"
  shows "resolved_frame (frame_json f) = resolved_frame (frame_json g)"
    and "unresolved_frame (frame_json f) ms = unresolved_frame (frame_json g) ms"
proof -
  from assms have fields: "sf_symbol_status f = sf_symbol_status g" "sf_module f = sf_module g"
    "sf_module_relative f = sf_module_relative g" "sf_function f = sf_function g" "sf_source_file f = sf_source_file g"
    and inlines: "map (\<lambda>i. (in_function i, in_source_file i)) (sf_inlines f)
      = map (\<lambda>i. (in_function i, in_source_file i)) (sf_inlines g)"
    by (simp_all only: frame_view_def prod.inject)
  note inlines = inlines_view [OF inlines]
  show "resolved_frame (frame_json f) = resolved_frame (frame_json g)"
    unfolding resolved_frame_def frame_reads bind.bind_lunit as_json_simps map_filter_inlines fields inlines ..
  show "unresolved_frame (frame_json f) ms = unresolved_frame (frame_json g) ms"
    unfolding unresolved_frame_def frame_reads fields ..
qed

lemma fold_sort_frame_view:
  "map frame_view fs = map frame_view gs \<Longrightarrow>
     fold (sort_frame ms) (map frame_json fs) acc = fold (sort_frame ms) (map frame_json gs) acc"
proof (induction fs arbitrary: gs acc)
  case (Cons f fs)
  then obtain g gs' where gs: "gs = g # gs'" "frame_view f = frame_view g" "map frame_view fs = map frame_view gs'"
    by (cases gs) auto
  have "sort_frame ms (frame_json f) = sort_frame ms (frame_json g)"
    using frame_view_determines [OF gs(2)] by (simp add: sort_frame_def cong: option.case_cong)
  with Cons.IH [OF gs(3)] show ?case by (simp add: gs(1))
qed simp

lemma module_reads:
  "text_at (module_json m) ''module'' = Some (sm_module m)"
  "text_at (module_json m) ''debug_id'' = sm_debug_id m"
  "text_at (module_json m) ''code_id'' = sm_code_id m"
  by (cases "sm_symcache_format m"; simp add: text_at_def module_json_def struct_json_get json_simps as_str_option)+

lemma fold_module_view:
  "map module_view ms = map module_view ns \<Longrightarrow>
     fold_result (\<lambda>m identities. bindR (ok_or (text_at m ''module'') InvalidProcessingResult) (\<lambda>name.
       Inr (om_alter (normalize_module name)
         (add_identity \<lparr>mi_debug_id = normalized_id m ''debug_id'', mi_code_id = normalized_id m ''code_id''\<rparr>)
         identities))) (map module_json ms) acc =
     fold_result (\<lambda>m identities. bindR (ok_or (text_at m ''module'') InvalidProcessingResult) (\<lambda>name.
       Inr (om_alter (normalize_module name)
         (add_identity \<lparr>mi_debug_id = normalized_id m ''debug_id'', mi_code_id = normalized_id m ''code_id''\<rparr>)
         identities))) (map module_json ns) acc"
proof (induction ms arbitrary: ns acc)
  case (Cons m ms)
  then obtain n ns' where ns: "ns = n # ns'" "module_view m = module_view n" "map module_view ms = map module_view ns'"
    by (cases ns) auto
  with Cons.IH [OF ns(3)] show ?case
    by (simp add: module_view_def normalized_id_def module_reads)
qed simp

subsection \<open>The parts of a result\<close>

lemma symbolication_reads:
  assumes "as_object (symbolication_json r) = Some s"
  shows "get_as as_array s (lit ''modules'') = Some (map module_json (sr_modules r))"
    and "get_as as_array s (lit ''threads'') = Some (map thread_json (sr_threads r))"
    and "get_as as_str s (lit ''exception_reason'') = sr_exception_reason r"
    and "get_as as_str s (lit ''assertion'') = sr_assertion r"
  using assms by (auto simp: symbolication_json_def json_simps as_str_option)

lemma thread_reads:
  "is_faulting (thread_json t) \<longleftrightarrow> st_faulting t"
  "json_get (thread_json t) (lit ''frames'') = Some (list_json frame_json (st_frames t))"
  by (simp_all add: is_faulting_def thread_json_def struct_json_get)

lemma find_faulting: "find is_faulting (map thread_json ts) = map_option thread_json (find st_faulting ts)"
  by (induction ts) (simp_all add: thread_reads)

lemma faulting_frames_of:
  assumes "as_object (symbolication_json r) = Some s"
  shows "faulting_frames s = ok_or (map_option (\<lambda>t. map frame_json (st_frames t)) (find st_faulting (sr_threads r)))
    InvalidProcessingResult"
  using symbolication_reads(2) [OF assms]
  by (cases "find st_faulting (sr_threads r)")
     (simp_all add: faulting_frames_def find_faulting thread_reads json_simps)

lemma frame_evidence_cong:
  assumes s: "as_object (symbolication_json r) = Some s" and t: "as_object (symbolication_json q) = Some t"
    and modules: "map module_view (sr_modules r) = map module_view (sr_modules q)"
    and frames: "map_option (\<lambda>t. map frame_view (st_frames t)) (find st_faulting (sr_threads r))
      = map_option (\<lambda>t. map frame_view (st_frames t)) (find st_faulting (sr_threads q))"
  shows "frame_evidence s = frame_evidence t"
proof -
  have ids: "module_identities s = module_identities t"
    unfolding module_identities_def symbolication_reads(1) [OF s] symbolication_reads(1) [OF t] ok_or_simps bindR_simps
    by (rule fold_module_view [OF modules])
  from frames consider "find st_faulting (sr_threads r) = None" "find st_faulting (sr_threads q) = None"
    | a b where "find st_faulting (sr_threads r) = Some a" "find st_faulting (sr_threads q) = Some b"
      "map frame_view (st_frames a) = map frame_view (st_frames b)"
    by (cases "find st_faulting (sr_threads r)"; cases "find st_faulting (sr_threads q)") auto
  then show ?thesis
  proof cases
    case 1
    then show ?thesis by (simp add: frame_evidence_def ids faulting_frames_of [OF s] faulting_frames_of [OF t])
  next
    case 2
    then show ?thesis using fold_sort_frame_view [OF 2(3)]
      by (simp add: frame_evidence_def ids faulting_frames_of [OF s] faulting_frames_of [OF t])
  qed
qed

lemma context_reads:
  assumes "as_object (crash_context_json c) = Some m"
  shows "get_as as_str m (lit ''crash_type'') = as_str (crash_type_json (ctx_crash_type c))"
    and "get_as as_str m (lit ''error_message'') = error_message c"
    and "Option.bind (Option.bind (om_get m (lit ''platform'')) (\<lambda>v. json_get v (lit ''normalized''))) as_str
      = map_option normalized (platform c)"
proof -
  have m: "om_get m (lit k) = json_get (crash_context_json c) (lit k)" for k using assms by (simp add: json_get_def)
  have "json_get (crash_context_json c) (lit ''crash_type'') = Some (crash_type_json (ctx_crash_type c))"
    "json_get (crash_context_json c) (lit ''error_message'') = Some (option_json JString (error_message c))"
    "json_get (crash_context_json c) (lit ''platform'') = Some (option_json normalized_value_json (platform c))"
    by (cases "command_line c"; simp add: crash_context_json_def struct_json_get json_simps)+
  then have at: "om_get m (lit ''crash_type'') = Some (crash_type_json (ctx_crash_type c))"
    "om_get m (lit ''error_message'') = Some (option_json JString (error_message c))"
    "om_get m (lit ''platform'') = Some (option_json normalized_value_json (platform c))" by (simp_all only: m)
  show "get_as as_str m (lit ''crash_type'') = as_str (crash_type_json (ctx_crash_type c))"
    and "get_as as_str m (lit ''error_message'') = error_message c"
    by (simp_all add: get_as_def at as_str_option)
  have "json_get (normalized_value_json v) (lit ''normalized'') = Some (JString (normalized v))" for v
    by (simp add: normalized_value_json_def struct_json_get)
  then show "Option.bind (Option.bind (om_get m (lit ''platform'')) (\<lambda>v. json_get v (lit ''normalized''))) as_str
      = map_option normalized (platform c)"
    by (cases "platform c") (simp_all add: at json_simps json_get_def [of JNull])
qed

subsection \<open>Same evidence, same fingerprint\<close>

lemma fingerprint_cong:
  assumes "validate_processing_result v None = Inr ()" and "validate_processing_result w None = Inr ()"
    and "object_at v [''crash_context''] = Inr c" and "object_at w [''crash_context''] = Inr d"
    and "object_at v [''current'', ''symbolication''] = Inr s" and "object_at w [''current'', ''symbolication''] = Inr t"
    and "get_as as_str c (lit ''crash_type'') = get_as as_str d (lit ''crash_type'')"
    and "get_as as_str c (lit ''error_message'') = get_as as_str d (lit ''error_message'')"
    and "Option.bind (Option.bind (om_get c (lit ''platform'')) (\<lambda>v. json_get v (lit ''normalized''))) as_str
      = Option.bind (Option.bind (om_get d (lit ''platform'')) (\<lambda>v. json_get v (lit ''normalized''))) as_str"
    and "get_as as_str s (lit ''exception_reason'') = get_as as_str t (lit ''exception_reason'')"
    and "get_as as_str s (lit ''assertion'') = get_as as_str t (lit ''assertion'')"
    and "frame_evidence s = frame_evidence t"
    and "signals_of (Option.bind (json_get v (lit ''classification'')) as_object)
      = signals_of (Option.bind (json_get w (lit ''classification'')) as_object)"
    and "classification_variant (Option.bind (json_get v (lit ''classification'')) as_object)
      = classification_variant (Option.bind (json_get w (lit ''classification'')) as_object)"
  shows "fingerprint sha alnum v = fingerprint sha alnum w"
  unfolding fingerprint_def Let_def issue_components_def specific_template_def exception_of_def string_field_def
    assms bindR_simps map_err_simps by (rule refl)

lemma classification_reads:
  "json_get (classification_json c) (lit ''confidence'') = Some (confidence_json (cls_confidence c))"
  "json_get (classification_json c) (lit ''evidence'') = Some (list_json JString (cls_evidence c))"
  "json_get (classification_json c) (lit ''signals'') = Some (list_json crash_signal_json (cls_signals c))"
  by (simp_all add: classification_json_def struct_json_get)

lemma classification_view:
  assumes "as_object (classification_json a) = Some m" and "as_object (classification_json b) = Some n"
    and same: "cls_confidence a = cls_confidence b" "cls_evidence a = cls_evidence b"
      "map sig_kind (cls_signals a) = map sig_kind (cls_signals b)"
  shows "signals_of (Some m) = signals_of (Some n)"
    and "classification_variant (Some m) = classification_variant (Some n)"
proof -
  have m: "om_get m (lit k) = json_get (classification_json a) (lit k)"
    and n: "om_get n (lit k) = json_get (classification_json b) (lit k)" for k using assms(1,2) by (simp_all add: json_get_def)
  have "text_at (crash_signal_json x) ''kind'' = as_str (signal_kind_json (sig_kind x))" for x
    by (simp add: text_at_def crash_signal_json_def struct_json_get)
  then have kinds: "List.map_filter (\<lambda>v. text_at v ''kind'') (map crash_signal_json xs)
    = List.map_filter (\<lambda>k. as_str (signal_kind_json k)) (map sig_kind xs)" for xs
    by (induction xs) (simp_all add: map_filter_simps split: option.split)
  have signals: "get_as as_array m (lit ''signals'') = Some (map crash_signal_json (cls_signals a))"
    "get_as as_array n (lit ''signals'') = Some (map crash_signal_json (cls_signals b))"
    by (simp_all add: get_as_def m n classification_reads json_simps)
  show "signals_of (Some m) = signals_of (Some n)"
    unfolding signals_of_def bind.bind_lunit signals option.case normalized_signals_def kinds same ..
  show "classification_variant (Some m) = classification_variant (Some n)"
    by (simp add: classification_variant_def fun_eq_iff get_as_def m n classification_reads json_simps same)
qed

lemma result_parts:
  fixes guid c request cls rlog current history
  defines "v \<equiv> result_json guid c request cls rlog current history"
  shows "json_get v (lit ''crash_context'') = Some (crash_context_json c)"
    and "json_get v (lit ''classification'') = map_option classification_json cls"
  unfolding v_def result_json_def
  by (cases request; cases cls; cases rlog; simp add: struct_json_get json_simps)+

lemma attempt_symbolication:
  "json_get (attempt_of i) (lit ''symbolication'') = Some (symbolication_json (in_symbolication i))"
  by (simp add: attempt_of_def attempt_json_def struct_json_get)

lemma built_result_views:
  assumes "input_ok guid i" and "is_none_or p previous_ok" and "build_from i p = Inr v"
  obtains c s where "validate_processing_result v None = Inr ()"
    "as_object (crash_context_json (in_context i)) = Some c" "object_at v [''crash_context''] = Inr c"
    "as_object (symbolication_json (in_symbolication i)) = Some s" "object_at v [''current'', ''symbolication''] = Inr s"
    "json_get v (lit ''classification'') = map_option classification_json (in_classification i)"
proof -
  have v: "v = result_json guid (in_context i) (in_request i) (in_classification i) (in_log i)
      (attempt_of i) (next_history p (attempt_of i))" using assms(3) build_from_eq [OF assms(1)] by simp
  have "validate_processing_result v None = Inr ()"
    using built_result_contract [OF assms(1,2)] by (simp add: v validate_processing_result_def is_none_or_def)
  moreover obtain c where "as_object (crash_context_json (in_context i)) = Some c" by (simp add: crash_context_json_def json_simps)
  moreover obtain s where "as_object (symbolication_json (in_symbolication i)) = Some s"
    by (simp add: symbolication_json_def json_simps)
  ultimately show ?thesis
    by (intro that [of c s]) (simp_all add: v object_at_eq result_parts result_json_reads attempt_symbolication)
qed

lemma evidence_determines:
  assumes i: "input_ok guid i" "is_none_or p previous_ok" "build_from i p = Inr v"
    and j: "input_ok guid' j" "is_none_or q previous_ok" "build_from j q = Inr w"
    and same: "evidence_of i = evidence_of j"
  shows "fingerprint sha alnum v = fingerprint sha alnum w"
proof -
  from i obtain c s where v: "validate_processing_result v None = Inr ()"
    "as_object (crash_context_json (in_context i)) = Some c" "object_at v [''crash_context''] = Inr c"
    "as_object (symbolication_json (in_symbolication i)) = Some s" "object_at v [''current'', ''symbolication''] = Inr s"
    "json_get v (lit ''classification'') = map_option classification_json (in_classification i)" by (rule built_result_views)
  from j obtain d t where w: "validate_processing_result w None = Inr ()"
    "as_object (crash_context_json (in_context j)) = Some d" "object_at w [''crash_context''] = Inr d"
    "as_object (symbolication_json (in_symbolication j)) = Some t" "object_at w [''current'', ''symbolication''] = Inr t"
    "json_get w (lit ''classification'') = map_option classification_json (in_classification j)" by (rule built_result_views)
  note e = same [unfolded evidence_of_def Let_def evidence.ext_inject, simplified]
  let ?cls = "\<lambda>x. Option.bind (json_get x (lit ''classification'')) as_object"
  have cls: "signals_of (?cls v) = signals_of (?cls w) \<and> classification_variant (?cls v) = classification_variant (?cls w)"
  proof (cases "in_classification i")
    case None
    then have "in_classification j = None" using e by auto
    with None show ?thesis by (simp add: v(6) w(6))
  next
    case (Some a)
    then obtain b where b: "in_classification j = Some b" "cls_confidence a = cls_confidence b"
      "cls_evidence a = cls_evidence b" "map sig_kind (cls_signals a) = map sig_kind (cls_signals b)"
      using e by (cases "in_classification j") auto
    obtain m n where "as_object (classification_json a) = Some m" "as_object (classification_json b) = Some n"
      by (simp add: classification_json_def json_simps)
    with classification_view [OF this b(2-4)] Some b(1) show ?thesis by (simp add: v(6) w(6))
  qed
  have "frame_evidence s = frame_evidence t"
    by (rule frame_evidence_cong [OF v(4) w(4)]) (use e in simp_all)
  moreover have "Option.bind (Option.bind (om_get c (lit ''platform'')) (\<lambda>v. json_get v (lit ''normalized''))) as_str
      = Option.bind (Option.bind (om_get d (lit ''platform'')) (\<lambda>v. json_get v (lit ''normalized''))) as_str"
    unfolding context_reads(3) [OF v(2)] context_reads(3) [OF w(2)] using e by simp
  ultimately show ?thesis
    by (intro fingerprint_cong [OF v(1) w(1) v(3) w(3) v(5) w(5)];
        (assumption | simp add: cls e context_reads [OF v(2)] context_reads [OF w(2)]
          symbolication_reads [OF v(4)] symbolication_reads [OF w(4)]))
qed

text \<open>C25: two results of the pipeline with the same evidence get the same fingerprints, title and quality:
  crash identities, load addresses, source lines, sizes, other threads, requests, logs and the history of
  earlier attempts have no influence.\<close>

theorem fingerprint_depends_on_evidence:
  assumes "input_ok guid i" and "is_none_or p previous_ok" and "build_from i p = Inr v"
    and "input_ok guid' j" and "is_none_or q previous_ok" and "build_from j q = Inr w"
    and "evidence_of i = evidence_of j"
  shows "fingerprint sha alnum v = fingerprint sha alnum w"
  using assms by (rule evidence_determines)

subsection \<open>Variants and bounds\<close>

text \<open>C24: variants refine issues: two grouped results with the same variant fingerprint have the same issue
  fingerprint, unless SHA-256 collides on the two inputs that were hashed for the variants. The inputs
  are unambiguous: every tag and value is hashed after its length.\<close>

theorem variants_refine_issues:
  assumes "fingerprint sha alnum v = Inr (Grouped f)" and "fingerprint sha alnum w = Inr (Grouped g)"
    and "\<And>a b. hashed_as_variant alnum v a \<Longrightarrow> hashed_as_variant alnum w b \<Longrightarrow> sha a = sha b \<Longrightarrow> a = b"
    and "variant_fingerprint f = variant_fingerprint g"
  shows "issue_fingerprint f = issue_fingerprint g"
  using assms by (rule variant_determines_issue)

text \<open>C26: a fingerprint's quality is between 1 and 804, and at least 100 exactly if a frame of the project's
  own code is on the faulting stack; its title has 1 to 160 characters, no markup and no control
  characters; both fingerprints are lower-case hexadecimal.\<close>

theorem grouped_within_bounds:
  assumes "fingerprint sha alnum v = Inr (Grouped f)"
  shows "1 \<le> quality f \<and> quality f \<le> 804 \<and> (100 \<le> quality f \<longleftrightarrow> list_ex project_frame (faulting_at v))
    \<and> fp_title f \<noteq> [] \<and> length (fp_title f) \<le> 160
    \<and> list_all (\<lambda>c. c \<notin> set (lit ''<>&'') \<and> c \<noteq> 39 \<and> c \<noteq> 34 \<and> \<not> is_control c) (fp_title f)
    \<and> hex_text (issue_fingerprint f) \<and> hex_text (variant_fingerprint f)"
  using assms by (rule grouped_bounds)

subsection \<open>Two crashes of one issue\<close>

definition grouped_frame :: symbolicated_frame where
  "grouped_frame = \<lparr>sf_instruction = lit ''0x1'', sf_module = Some (lit ''Game.dll''), sf_module_relative = None,
     sf_trust = lit ''context'', sf_symbol_status = FrameResolved, sf_function = Some (lit ''Tick''),
     sf_source_file = None, sf_source_line = None, sf_inlines = []\<rparr>"

definition grouped_symbolication :: "nat \<Rightarrow> symbolication_result" where
  "grouped_symbolication thread = \<lparr>sr_schema_version = symbolication_schema_version,
     sr_symbolicator_version = cargo_pkg_version, sr_minidump_version = minidump_version,
     sr_minidump_processor_version = minidump_processor_version, sr_minidump_unwind_version = minidump_unwind_version, sr_platform = lit ''windows'',
     sr_architecture = lit ''x86_64'', sr_faulting_thread_id = Some thread, sr_exception_reason = None, sr_assertion = None,
     sr_modules = [], sr_threads = [\<lparr>st_thread_id = thread, st_faulting = True, st_name = None, st_unwind_status = UnwindOk,
       st_frames_truncated = False, st_frames = [grouped_frame]\<rparr>]\<rparr>"

definition grouped_context :: "string \<Rightarrow> crash_context_data" where
  "grouped_context guid = \<lparr>parser_version = crash_context_parser_version, crash_guid = Some (lit guid), ctx_crash_type = CT_Crash,
     error_message = None, build_version = None, engine_version = None, platform = None, architecture = None,
     build_configuration = None, command_line = None, ctx_modules = [], ctx_threads = [], system_metadata = [],
     user_comment = None, game_data = [], ctx_unknown_fields = []\<rparr>"

definition grouped_input :: "string \<Rightarrow> nat \<Rightarrow> processing_input" where
  "grouped_input guid thread = \<lparr>in_context = grouped_context guid, in_symbolication = grouped_symbolication thread,
     in_request = None, in_classification = None, in_log = None\<rparr>"

lemma sample_module: "normalize_module (lit ''Game.dll'') = lit ''game''"
  by (simp add: normalize_module_def bounded_def max_component_chars_def lit_simps rsplit_on_def is_separator_def
      unwrap_or_def trim_def trim_start_def trim_end_def is_whitespace_def to_ascii_lowercase_def to_lower_def
      is_ascii_uppercase_def strip_suffix_def or_else_def Let_def suffix_iff_drop)

lemma sample_function: "normalize_function (lit ''Tick'') = lit ''Tick''"
  by (simp add: normalize_function_def bounded_def max_component_chars_def collapse_whitespace_def collapse_step_def
      lit_simps is_whitespace_def is_control_def trim_def trim_start_def trim_end_def)

lemma sample_category: "frame_category (lit ''game'') [] = ProjectFrame"
  by code_simp

lemma grouped_project_frame: "project_frame (frame_json grouped_frame)"
  by (simp add: project_frame_def resolved_frame_def frame_reads grouped_frame_def json_simps sample_module
      sample_function sample_category map_filter_simps option_list_def is_some_and_def Let_def)

lemma grouped_input_ok: "guid \<in> {''G'', ''H''} \<Longrightarrow> input_ok (lit guid) (grouped_input guid thread)"
  by (auto simp: input_ok_def grouped_input_def grouped_context_def grouped_symbolication_def grouped_frame_def
      current_schema_def trusts_named_def is_none_or_def trim_def trim_start_def trim_end_def is_whitespace_def lit_simps)

lemma grouped_built:
  assumes "guid \<in> {''G'', ''H''}"
  obtains v where "build_from (grouped_input guid thread) None = Inr v" "validate_processing_result v None = Inr ()"
    "json_get v (lit ''crash_guid'') = Some (JString (lit guid))" "list_ex project_frame (faulting_at v)"
proof -
  note i = grouped_input_ok [OF assms, of thread]
  obtain v where v: "build_from (grouped_input guid thread) None = Inr v" using build_from_eq [OF i, of None] by blast
  have none: "is_none_or None previous_ok" by (simp add: is_none_or_def)
  from built_result_views [OF i none v] obtain s where valid: "validate_processing_result v None = Inr ()"
    and s: "as_object (symbolication_json (in_symbolication (grouped_input guid thread))) = Some s"
      "object_at v [''current'', ''symbolication''] = Inr s" by metis
  have "faulting_at v = [frame_json grouped_frame]"
    by (simp add: faulting_at_def s faulting_frames_of [OF s(1)]) (simp add: grouped_input_def grouped_symbolication_def)
  then have "list_ex project_frame (faulting_at v)" by (simp add: grouped_project_frame)
  moreover have "json_get v (lit ''crash_guid'') = Some (JString (lit guid))"
    using v build_from_eq [OF i, of None] by (auto simp: result_json_reads)
  ultimately show ?thesis using that v valid by blast
qed

lemma same_evidence: "evidence_of (grouped_input ''G'' 1) = evidence_of (grouped_input ''H'' 2)"
  by (simp add: evidence_of_def grouped_input_def grouped_context_def grouped_symbolication_def)

theorem fingerprint_depends_on_evidence_witness:
  "\<exists>v w. json_get v (lit ''crash_guid'') \<noteq> json_get w (lit ''crash_guid'')
     \<and> fingerprint (\<lambda>bs. bs) (\<lambda>_. True) v = fingerprint (\<lambda>bs. bs) (\<lambda>_. True) w"
proof -
  obtain v where v: "build_from (grouped_input ''G'' 1) None = Inr v" "json_get v (lit ''crash_guid'') = Some (JString (lit ''G''))"
    by (rule grouped_built [of "''G''" 1]) simp_all
  obtain w where w: "build_from (grouped_input ''H'' 2) None = Inr w" "json_get w (lit ''crash_guid'') = Some (JString (lit ''H''))"
    by (rule grouped_built [of "''H''" 2]) simp_all
  have none: "is_none_or None previous_ok" by (simp add: is_none_or_def)
  have i: "input_ok (lit ''G'') (grouped_input ''G'' 1)" "input_ok (lit ''H'') (grouped_input ''H'' 2)"
    by (simp_all add: grouped_input_ok)
  from fingerprint_depends_on_evidence [OF i(1) none v(1) i(2) none w(1) same_evidence] v(2) w(2)
  show ?thesis by (intro exI [of _ v] exI [of _ w]) simp
qed

theorem variants_refine_issues_witness:
  "\<exists>v w f g. v \<noteq> w \<and> fingerprint (\<lambda>bs. bs) (\<lambda>_. True) v = Inr (Grouped f)
     \<and> fingerprint (\<lambda>bs. bs) (\<lambda>_. True) w = Inr (Grouped g) \<and> issue_fingerprint f = issue_fingerprint g"
proof -
  obtain v where v: "build_from (grouped_input ''G'' 1) None = Inr v" "validate_processing_result v None = Inr ()"
    "json_get v (lit ''crash_guid'') = Some (JString (lit ''G''))" "list_ex project_frame (faulting_at v)"
    by (rule grouped_built [of "''G''" 1]) simp_all
  obtain w where w: "build_from (grouped_input ''H'' 2) None = Inr w" "validate_processing_result w None = Inr ()"
    "json_get w (lit ''crash_guid'') = Some (JString (lit ''H''))" "list_ex project_frame (faulting_at w)"
    by (rule grouped_built [of "''H''" 2]) simp_all
  have none: "is_none_or None previous_ok" by (simp add: is_none_or_def)
  have i: "input_ok (lit ''G'') (grouped_input ''G'' 1)" "input_ok (lit ''H'') (grouped_input ''H'' 2)"
    by (simp_all add: grouped_input_ok)
  let ?fp = "fingerprint (\<lambda>bs. bs) (\<lambda>_. True)"
  obtain f where f: "?fp v = Inr (Grouped f)" using project_frame_grouped [OF v(2,4)] by blast
  have g: "?fp w = Inr (Grouped f)"
    using f evidence_determines [OF i(1) none v(1) i(2) none w(1) same_evidence, of "\<lambda>bs. bs" "\<lambda>_. True"] by simp
  have "issue_fingerprint f = issue_fingerprint f" by (rule variants_refine_issues [OF f g]) simp_all
  moreover have "v \<noteq> w" using v(3) w(3) by auto
  ultimately show ?thesis using f g by blast
qed

theorem grouped_within_bounds_witness:
  "\<exists>v f. fingerprint (\<lambda>bs. bs) (\<lambda>_. True) v = Inr (Grouped f) \<and> 100 \<le> quality f \<and> fp_title f \<noteq> []"
proof -
  obtain v where v: "validate_processing_result v None = Inr ()" "list_ex project_frame (faulting_at v)"
    by (rule grouped_built [of "''G''" 1]) simp_all
  obtain f where f: "fingerprint (\<lambda>bs. bs) (\<lambda>_. True) v = Inr (Grouped f)" using project_frame_grouped [OF v] by blast
  with grouped_within_bounds [OF f] v(2) show ?thesis by blast
qed

end
