(* ===== verification/Data_Rules.thy ===== *)
theory Data_Rules
  imports Processing Crash_Request "HOL-Library.Product_Lexorder"
begin

section \<open>Data rules (apps/server/src/data\_rules.rs)\<close>

text \<open>
  The rules of a project: patterns that are redacted from a processing result before it is stored, and the
  game data keys that are indexed. A value that the code mutates in place (\<^verbatim>\<open>get_mut\<close>, \<^verbatim>\<open>pointer_mut\<close>) is
  returned updated. The row of the rules table is given by its three nullable columns.
\<close>

definition max_patterns :: nat where "max_patterns = 32"
definition max_pattern_bytes :: nat where "max_pattern_bytes = 256"
definition max_pattern_bytes_total :: nat where "max_pattern_bytes_total = 4096"
definition max_indexed_keys :: nat where "max_indexed_keys = 32"
definition max_key_bytes :: nat where "max_key_bytes = 128"
definition max_facet_value_chars :: nat where "max_facet_value_chars = 512"
definition redacted :: ustring where "redacted = lit ''[REDACTED]''"

record data_rules =
  rules_version :: int
  rules_patterns :: "ustring list"
  rules_keys :: "ustring list"

record context_facet =
  facet_key :: ustring
  facet_value :: ustring
  facet_truncated :: bool

datatype data_rules_error = InvalidRules

subsection \<open>Validation\<close>

definition bad_pattern :: "ustring \<Rightarrow> bool" where
  "bad_pattern p \<longleftrightarrow> p = [] \<or> trim p = [] \<or> contains redacted p \<or> str_len p > max_pattern_bytes \<or> list_ex is_control p"

definition key_char :: "uchar \<Rightarrow> bool" where
  "key_char c \<longleftrightarrow> is_ascii_alphanumeric c \<or> c \<in> set (lit ''_-.'')"

definition bad_key :: "ustring \<Rightarrow> bool" where
  "bad_key k \<longleftrightarrow> k = [] \<or> str_len k > max_key_bytes \<or> \<not> list_all key_char k"

text \<open>Longer patterns first, then by text.\<close>

definition pattern_key :: "ustring \<Rightarrow> int \<times> ustring" where
  "pattern_key p = (- int (str_len p), p)"

definition validate_rules :: "ustring list \<Rightarrow> ustring list \<Rightarrow> (data_rules_error, data_rules) result" where
  "validate_rules patterns keys =
     (if length patterns > max_patterns \<or> length keys > max_indexed_keys \<or> list_ex bad_pattern patterns
        \<or> sum_list (map str_len patterns) > max_pattern_bytes_total \<or> list_ex bad_key keys
      then Inl InvalidRules
      else Inr \<lparr>rules_version = 0, rules_patterns = dedup (sort_key pattern_key patterns), rules_keys = dedup (sort keys)\<rparr>)"

definition empty_rules :: data_rules where
  "empty_rules = \<lparr>rules_version = 0, rules_patterns = [], rules_keys = []\<rparr>"

definition rules_from_row ::
  "int option \<Rightarrow> ustring list option \<Rightarrow> ustring list option \<Rightarrow> (data_rules_error, data_rules) result" where
  "rules_from_row version patterns keys =
     bindR (validate_rules (unwrap_or patterns []) (unwrap_or keys [])) (\<lambda>rules.
     Inr (rules\<lparr>rules_version := unwrap_or version 0\<rparr>))"

subsection \<open>Redaction\<close>

text \<open>\<^verbatim>\<open>str::replace\<close>: the matches from the left, none overlapping another; an empty pattern matches at every
  character boundary.\<close>

function replace_matches :: "ustring \<Rightarrow> ustring \<Rightarrow> ustring \<Rightarrow> ustring" where
  "replace_matches p to [] = []"
| "replace_matches p to (c # s) =
     (if p \<noteq> [] \<and> prefix p (c # s) then to @ replace_matches p to (drop (length p) (c # s))
      else c # replace_matches p to s)"
  by pat_completeness auto
termination
proof (relation "measure (\<lambda>(p, to, s). length s)", goal_cases)
  case (2 p to c s)
  then show ?case by (cases p) auto
qed auto

definition str_replace :: "ustring \<Rightarrow> ustring \<Rightarrow> ustring \<Rightarrow> ustring" where
  "str_replace s p to = (if p = [] then to @ concat (map (\<lambda>c. c # to) s) else replace_matches p to s)"

definition redact_text :: "ustring list \<Rightarrow> ustring \<Rightarrow> ustring" where
  "redact_text patterns s = fold (\<lambda>p s. if contains s p then str_replace s p redacted else s) patterns s"

fun redact_value :: "ustring list \<Rightarrow> json \<Rightarrow> json" where
  "redact_value patterns (JString s) = JString (redact_text patterns s)"
| "redact_value patterns v = v"

text \<open>\<^verbatim>\<open>if let Some(x) = m.get_mut(k) { f(x) }\<close>, on a map and on a value.\<close>

definition om_modify :: "'k \<Rightarrow> ('v \<Rightarrow> 'v) \<Rightarrow> ('k, 'v) ordered_map \<Rightarrow> ('k, 'v) ordered_map" where
  "om_modify k f m = map (\<lambda>(k', v). (k', if k' = k then f v else v)) m"

fun json_modify :: "string \<Rightarrow> (json \<Rightarrow> json) \<Rightarrow> json \<Rightarrow> json" where
  "json_modify k f (JObject m) = JObject (om_modify (lit k) f m)"
| "json_modify k f v = v"

text \<open>\<^verbatim>\<open>for x in v.as_array_mut() { f(x) }\<close>\<close>

fun each_value :: "(json \<Rightarrow> json) \<Rightarrow> json \<Rightarrow> json" where
  "each_value f (JArray vs) = JArray (map f vs)"
| "each_value f v = v"

primrec redact_recursive :: "ustring list \<Rightarrow> json \<Rightarrow> json" where
  "redact_recursive patterns JNull = JNull"
| "redact_recursive patterns (JBool b) = JBool b"
| "redact_recursive patterns (JNumber n) = JNumber n"
| "redact_recursive patterns (JString s) = JString (redact_text patterns s)"
| "redact_recursive patterns (JArray vs) = JArray (map (redact_recursive patterns) vs)"
| "redact_recursive patterns (JObject m) = JObject (map (map_prod id (redact_recursive patterns)) m)"

definition redact_fields :: "string list \<Rightarrow> ustring list \<Rightarrow> json \<Rightarrow> json" where
  "redact_fields names patterns v = fold (\<lambda>name. json_modify name (redact_value patterns)) names v"

definition redact_array_fields :: "string list \<Rightarrow> ustring list \<Rightarrow> json \<Rightarrow> json" where
  "redact_array_fields names patterns = each_value (redact_fields names patterns)"

definition redacted_context_fields :: "string list" where
  "redacted_context_fields = [''error_message'', ''build_version'', ''engine_version'', ''architecture'',
     ''build_configuration'', ''command_line'', ''user_comment'']"

definition redact_context_map :: "ustring list \<Rightarrow> json_map \<Rightarrow> json_map" where
  "redact_context_map patterns context =
     (let context = fold (\<lambda>name. om_modify (lit name) (redact_value patterns)) redacted_context_fields context;
          context = om_modify (lit ''platform'') (redact_fields [''original'', ''normalized''] patterns) context;
          context = om_modify (lit ''modules'') (redact_array_fields [''original''] patterns) context;
          context = om_modify (lit ''threads'')
            (redact_array_fields [''call_stack'', ''registers'', ''thread_name''] patterns) context;
          context = om_modify (lit ''system_metadata'') (redact_array_fields [''value''] patterns) context;
          context = om_modify (lit ''game_data'') (redact_array_fields [''value''] patterns) context
      in om_modify (lit ''unknown_fields'') (redact_recursive patterns) context)"

fun map_object :: "(json_map \<Rightarrow> json_map) \<Rightarrow> json \<Rightarrow> json" where
  "map_object f (JObject m) = JObject (f m)"
| "map_object f v = v"

definition redact_crash_context :: "ustring list \<Rightarrow> json \<Rightarrow> json" where
  "redact_crash_context patterns v = json_modify ''crash_context'' (map_object (redact_context_map patterns)) v"

definition redact_log :: "ustring list \<Rightarrow> json \<Rightarrow> json" where
  "redact_log patterns v =
     json_modify ''log'' (json_modify ''tail'' (json_modify ''text'' (redact_value patterns)))
       (json_modify ''log'' (json_modify ''name'' (redact_value patterns)) v)"

definition redact_frame :: "ustring list \<Rightarrow> json \<Rightarrow> json" where
  "redact_frame patterns frame =
     json_modify ''inlines'' (each_value (json_modify ''source_file'' (redact_value patterns)))
       (json_modify ''source_file'' (redact_value patterns) frame)"

definition redact_symbolication :: "ustring list \<Rightarrow> json \<Rightarrow> json" where
  "redact_symbolication patterns v =
     json_modify ''current'' (json_modify ''symbolication'' (json_modify ''threads''
       (each_value (json_modify ''frames'' (each_value (redact_frame patterns)))))) v"

subsection \<open>Indexing\<close>

definition facet_of :: "ustring list \<Rightarrow> json \<Rightarrow> context_facet option" where
  "facet_of allowed v =
     Option.bind (Option.bind (json_get v (lit ''name'')) as_str) (\<lambda>key.
     Option.bind (Option.bind (json_get v (lit ''value'')) as_str) (\<lambda>raw.
     if key \<notin> set allowed \<or> raw = [] then None
     else let value = take max_facet_value_chars raw in
       Some \<lparr>facet_key = key, facet_value = value, facet_truncated = length value < length raw\<rparr>))"

definition facet_order :: "context_facet \<Rightarrow> ustring \<times> ustring \<times> bool" where
  "facet_order f = (facet_key f, facet_value f, facet_truncated f)"

definition context_facets :: "json \<Rightarrow> ustring list \<Rightarrow> context_facet list" where
  "context_facets v indexed_keys =
     (if indexed_keys = [] then []
      else case Option.bind (Option.bind (json_get v (lit ''crash_context'')) (\<lambda>c. json_get c (lit ''game_data''))) as_array of
        None \<Rightarrow> []
      | Some values \<Rightarrow> dedup (sort_key facet_order (List.map_filter (facet_of indexed_keys) values)))"

definition redact_and_index :: "json \<Rightarrow> data_rules \<Rightarrow> json \<times> context_facet list" where
  "redact_and_index v rules =
     (let v = (if rules_patterns rules \<noteq> []
               then redact_symbolication (rules_patterns rules) (redact_log (rules_patterns rules)
                      (redact_crash_context (rules_patterns rules) v))
               else v)
      in (v, context_facets v (rules_keys rules)))"

end
