(* ===== verification/Redaction.thy ===== *)
theory Redaction
  imports Data_Rules
begin

section \<open>Redaction is complete and keeps results valid\<close>

text \<open>
  The traversals of the redaction are shown equal to an abstract one that redacts the texts at a list of
  paths; from it follows that no pattern is left in those texts, whatever the value is. Since
  every redacted place holds free text, the result contract says the same before and after.
\<close>

subsection \<open>Texts without a pattern\<close>

definition unbracketed :: "ustring \<Rightarrow> bool" where
  "unbracketed p \<longleftrightarrow> ch CHR ''['' \<notin> set p \<and> ch CHR '']'' \<notin> set p"

lemma contains_sublist: "contains s p \<longleftrightarrow> sublist p s"
  by (auto simp: contains_iff sublist_def)

lemma redacted_brackets: "redacted \<noteq> []" "hd redacted = ch CHR ''[''" "last redacted = ch CHR '']''"
  by (simp_all add: redacted_def lit_simps)

text \<open>\<open>to\<close> is a marker that \<open>p\<close> cannot overlap: \<open>p\<close> has neither its first nor its last character.\<close>

definition apart :: "ustring \<Rightarrow> ustring \<Rightarrow> bool" where
  "apart p to \<longleftrightarrow> p \<noteq> [] \<and> to \<noteq> [] \<and> hd to \<notin> set p \<and> last to \<notin> set p \<and> \<not> sublist p to"

lemma apart_redacted: "unbracketed p \<Longrightarrow> p \<noteq> [] \<Longrightarrow> \<not> contains redacted p \<Longrightarrow> apart p redacted"
  by (simp add: apart_def unbracketed_def redacted_brackets contains_sublist)

text \<open>A text without the characters of the marker's ends that starts the output starts the input.\<close>

lemma prefix_replace:
  "to \<noteq> [] \<Longrightarrow> hd to \<notin> set p \<Longrightarrow> prefix p (replace_matches q to s) \<Longrightarrow> prefix p s"
proof (induction q to s arbitrary: p rule: replace_matches.induct)
  case (2 q to c s)
  show ?case
  proof (cases p)
    case (Cons d p')
    show ?thesis
    proof (cases "q \<noteq> [] \<and> prefix q (c # s)")
      case True
      then have "prefix (d # p') (to @ replace_matches q to (drop (length q) (c # s)))" using "2.prems"(3) Cons by simp
      then have "d = hd to" using "2.prems"(1) by (cases to) auto
      with "2.prems"(2) Cons show ?thesis by simp
    next
      case False
      then have "d = c" "prefix p' (replace_matches q to s)" using "2.prems"(3) Cons by auto
      with "2.IH"(2) [OF False "2.prems"(1)] "2.prems"(2) Cons show ?thesis by simp
    qed
  qed simp
qed simp

lemma sublist_marker_append:
  assumes "apart p to" and "\<not> sublist p s"
  shows "\<not> sublist p (to @ s)"
proof
  assume "sublist p (to @ s)"
  then obtain a b where p: "p = a @ b" "suffix a to" "prefix b s" using assms by (auto simp: sublist_append apart_def)
  show False
  proof (cases "a = []")
    case True
    then show False using p assms(2) prefix_imp_sublist by auto
  next
    case False
    then have "last a = last to" "last a \<in> set p" using p by (auto simp: suffix_def)
    then show False using assms(1) by (simp add: apart_def)
  qed
qed

lemma replace_keeps_free:
  "apart p to \<Longrightarrow> \<not> sublist p s \<or> p = q \<Longrightarrow> \<not> sublist p (replace_matches q to s)"
proof (induction q to s rule: replace_matches.induct)
  case (2 q to c s)
  show ?case
  proof (cases "q \<noteq> [] \<and> prefix q (c # s)")
    case True
    have "sublist (drop (length q) (c # s)) (c # s)" by (rule suffix_imp_sublist) (rule suffix_drop)
    then have "\<not> sublist p (drop (length q) (c # s)) \<or> p = q" using "2.prems"(2) sublist_order.order_trans by blast
    from sublist_marker_append [OF "2.prems"(1) "2.IH"(1) [OF True "2.prems"(1) this]] True show ?thesis by simp
  next
    case False
    have "\<not> sublist p s \<or> p = q" using "2.prems"(2) by (auto simp: sublist_Cons_right)
    then have rest: "\<not> sublist p (replace_matches q to s)" using "2.IH"(2) [OF False "2.prems"(1)] by blast
    have start: "\<not> prefix p (c # s)" using "2.prems" False prefix_imp_sublist by (auto simp: apart_def)
    have "\<not> prefix p (c # replace_matches q to s)"
      using prefix_replace [of to p q "c # s"] False start "2.prems"(1) by (auto simp: apart_def)
    with rest show ?thesis using False by (auto simp: sublist_Cons_right)
  qed
qed (simp add: apart_def)

lemma redact_text_free:
  assumes "\<forall>p \<in> set ps. apart p redacted" and "p \<in> set ps"
  shows "\<not> sublist p (redact_text ps s)"
proof -
  have keep: "\<not> sublist p s \<Longrightarrow> \<forall>q \<in> set qs. apart q redacted \<Longrightarrow>
      \<not> sublist p (fold (\<lambda>p s. if contains s p then str_replace s p redacted else s) qs s)" for qs s
    using assms replace_keeps_free [of p redacted]
    by (induction qs arbitrary: s) (auto simp: str_replace_def apart_def)
  from assms show ?thesis
    unfolding redact_text_def
  proof (induction ps arbitrary: s)
    case (Cons q qs)
    show ?case
    proof (cases "p = q")
      case True
      have "\<not> sublist p (if contains s q then str_replace s q redacted else s)"
        using True Cons.prems(1) replace_keeps_free [of q redacted s q] by (auto simp: str_replace_def apart_def contains_sublist)
      then show ?thesis using keep Cons.prems(1) by simp
    next
      case False
      with Cons show ?thesis by simp
    qed
  qed simp
qed

subsection \<open>Texts at a path\<close>

datatype path_step = Key string | Each | Deep

type_synonym json_path = "path_step list"

primrec all_texts :: "json \<Rightarrow> ustring list" where
  "all_texts JNull = []"
| "all_texts (JBool b) = []"
| "all_texts (JNumber n) = []"
| "all_texts (JString s) = [s]"
| "all_texts (JArray vs) = concat (map all_texts vs)"
| "all_texts (JObject m) = concat (map snd (map (map_prod id all_texts) m))"

fun texts_at :: "json_path \<Rightarrow> json \<Rightarrow> ustring list" where
  "texts_at [] v = (case as_str v of None \<Rightarrow> [] | Some s \<Rightarrow> [s])"
| "texts_at (Key k # path) v = (case json_get v (lit k) of None \<Rightarrow> [] | Some w \<Rightarrow> texts_at path w)"
| "texts_at (Each # path) v = (case as_array v of None \<Rightarrow> [] | Some vs \<Rightarrow> concat (map (texts_at path) vs))"
| "texts_at (Deep # path) v = all_texts v"

fun redact_at :: "json_path \<Rightarrow> ustring list \<Rightarrow> json \<Rightarrow> json" where
  "redact_at [] patterns = redact_value patterns"
| "redact_at (Key k # path) patterns = json_modify k (redact_at path patterns)"
| "redact_at (Each # path) patterns = each_value (redact_at path patterns)"
| "redact_at (Deep # path) patterns = redact_recursive patterns"

text \<open>Every place the rules cover.\<close>

definition context_paths :: "json_path list" where
  "context_paths = map (\<lambda>k. [Key k]) redacted_context_fields
     @ [[Key ''platform'', Key ''original''], [Key ''platform'', Key ''normalized''], [Key ''modules'', Each, Key ''original''],
        [Key ''threads'', Each, Key ''call_stack''], [Key ''threads'', Each, Key ''registers''],
        [Key ''threads'', Each, Key ''thread_name''], [Key ''system_metadata'', Each, Key ''value''],
        [Key ''game_data'', Each, Key ''value''], [Key ''unknown_fields'', Deep]]"

definition frame_paths :: "json_path list" where
  "frame_paths = map (\<lambda>path. [Key ''current'', Key ''symbolication'', Key ''threads'', Each, Key ''frames'', Each] @ path)
     [[Key ''source_file''], [Key ''inlines'', Each, Key ''source_file'']]"

definition covered_paths :: "json_path list" where
  "covered_paths = map ((#) (Key ''crash_context'')) context_paths
     @ [[Key ''log'', Key ''name''], [Key ''log'', Key ''tail'', Key ''text'']] @ frame_paths"

lemma om_get_modify: "om_get (om_modify k f m) k' = (if k' = k then map_option f (om_get m k') else om_get m k')"
  by (induction m) (auto simp: om_get_def om_modify_def)

lemma om_modify_comp: "om_modify k f (om_modify k g m) = om_modify k (\<lambda>x. f (g x)) m"
  by (auto simp: om_modify_def)

lemma json_modify_comp: "json_modify k f (json_modify k g v) = json_modify k (\<lambda>x. f (g x)) v"
  by (cases v) (simp_all add: om_modify_comp)

lemma each_value_comp: "each_value f (each_value g v) = each_value (\<lambda>x. f (g x)) v"
  by (cases v) simp_all

lemma fold_under: "(\<And>path. path \<in> set paths \<Longrightarrow> redact_at (step @ path) ps = h (redact_at path ps)) \<Longrightarrow>
    (\<And>f g v. h f (h g v) = h (\<lambda>x. f (g x)) v) \<Longrightarrow> paths \<noteq> [] \<Longrightarrow>
    fold (\<lambda>path. redact_at (step @ path) ps) paths v = h (fold (\<lambda>path. redact_at path ps) paths) v"
proof (induction paths arbitrary: v)
  case (Cons path paths)
  show ?case
  proof (cases "paths = []")
    case True
    then show ?thesis using Cons.prems(1) [of path] by simp
  next
    case False
    with Cons have "fold (\<lambda>path. redact_at (step @ path) ps) paths (h (redact_at path ps) v)
      = h (fold (\<lambda>path. redact_at path ps) paths) (h (redact_at path ps) v)" by simp
    with Cons.prems(1,2) show ?thesis by (simp add: comp_def)
  qed
qed simp

lemma redact_fields_fun: "redact_fields names ps = (\<lambda>v. fold (\<lambda>name. json_modify name (redact_value ps)) names v)"
  by (simp add: redact_fields_def fun_eq_iff)

lemma redact_context_paths: "map_object (redact_context_map ps) v = fold (\<lambda>path. redact_at path ps) context_paths v"
  by (cases v) (simp_all add: redact_context_map_def context_paths_def redacted_context_fields_def redact_array_fields_def
      redact_fields_fun each_value_comp json_modify_comp om_modify_comp Let_def)

lemma redact_frame_paths: "redact_frame ps v = fold (\<lambda>path. redact_at path ps) [[Key ''source_file''],
    [Key ''inlines'', Each, Key ''source_file'']] v"
  by (simp add: redact_frame_def)

lemma redact_paths:
  "redact_symbolication ps (redact_log ps (redact_crash_context ps v)) = fold (\<lambda>path. redact_at path ps) covered_paths v"
proof -
  have funs: "map_object (redact_context_map ps) = fold (\<lambda>path. redact_at path ps) context_paths"
    "redact_frame ps = fold (\<lambda>path. redact_at path ps) [[Key ''source_file''], [Key ''inlines'', Each, Key ''source_file'']]"
    by (rule ext, rule redact_context_paths) (rule ext, rule redact_frame_paths)
  have ctx: "redact_crash_context ps x = fold (\<lambda>path. redact_at ([Key ''crash_context''] @ path) ps) context_paths x" for x
    unfolding redact_crash_context_def funs
    by (rule fold_under [symmetric]) (simp_all add: json_modify_comp context_paths_def)
  let ?under = "\<lambda>f. json_modify ''current'' (json_modify ''symbolication'' (json_modify ''threads''
      (each_value (json_modify ''frames'' (each_value f)))))"
  have frames: "redact_symbolication ps x = fold (\<lambda>path. redact_at ([Key ''current'', Key ''symbolication'', Key ''threads'',
      Each, Key ''frames'', Each] @ path) ps) [[Key ''source_file''], [Key ''inlines'', Each, Key ''source_file'']] x" for x
    unfolding redact_symbolication_def funs
    by (rule fold_under [where h = ?under, symmetric]) (simp_all add: json_modify_comp each_value_comp)
  show ?thesis
    by (simp only: ctx frames redact_log_def covered_paths_def frame_paths_def fold_append fold_map comp_def
        fold_simps redact_at.simps append.simps list.map)
qed

subsection \<open>No pattern is left\<close>

lemma all_texts_redacted:
  assumes "\<And>t. P (redact_text ps t)"
  shows "t \<in> set (all_texts (redact_recursive ps v)) \<Longrightarrow> P t"
  by (induction v) (use assms in \<open>auto split: prod.splits\<close>)

lemma texts_at_own:
  assumes "\<And>t. P (redact_text ps t)"
  shows "t \<in> set (texts_at path (redact_at path ps v)) \<Longrightarrow> P t"
proof (induction path arbitrary: v)
  case Nil
  then show ?case using assms by (cases v) auto
next
  case (Cons step path)
  show ?case
  proof (cases step)
    case (Key k)
    then show ?thesis using Cons
      by (cases v) (auto simp: json_get_def om_get_modify split: option.splits)
  next
    case Each
    then show ?thesis using Cons by (cases v) auto
  next
    case Deep
    then show ?thesis using Cons.prems all_texts_redacted [of P ps] assms by auto
  qed
qed

lemma all_texts_kept:
  assumes "\<And>t. P (redact_text ps t)"
  shows "\<forall>t \<in> set (all_texts v). P t \<Longrightarrow> \<forall>t \<in> set (all_texts (redact_at path ps v)). P t"
proof (induction path arbitrary: v)
  case Nil
  then show ?case using assms by (cases v) auto
next
  case (Cons step path)
  show ?case
  proof (cases step)
    case (Key k)
    then show ?thesis using Cons by (cases v) (fastforce simp: om_modify_def split: if_splits)+
  next
    case Each
    then show ?thesis using Cons by (cases v) auto
  next
    case Deep
    then show ?thesis using all_texts_redacted [of P ps] assms by auto
  qed
qed

lemma texts_at_recursive:
  assumes "\<And>t. P (redact_text ps t)"
  shows "\<forall>t \<in> set (texts_at path (redact_recursive ps v)). P t"
proof (induction path arbitrary: v)
  case Nil
  then show ?case using assms by (cases v) auto
next
  case (Cons step path)
  show ?case
  proof (cases step)
    case (Key k)
    have "om_get (map (map_prod id (redact_recursive ps)) m) k' = map_option (redact_recursive ps) (om_get m k')" for m :: json_map and k'
      by (induction m) (auto simp: om_get_def)
    with Key show ?thesis using Cons by (cases v) (auto simp: json_get_def split: option.splits)
  next
    case Each
    then show ?thesis using Cons by (cases v) auto
  next
    case Deep
    then show ?thesis using all_texts_redacted [of P ps] assms by auto
  qed
qed

lemma texts_at_kept:
  assumes P: "\<And>t. P (redact_text ps t)"
  shows "\<forall>t \<in> set (texts_at path' v). P t \<Longrightarrow> \<forall>t \<in> set (texts_at path' (redact_at path ps v)). P t"
proof (induction path' arbitrary: v path)
  case Nil
  have "as_str (redact_at path ps v) = Some t \<Longrightarrow> as_str v = Some t \<or> (\<exists>s. t = redact_text ps s)" for t
  proof (cases path)
    case (Cons step rest)
    then show "as_str (redact_at path ps v) = Some t \<Longrightarrow> as_str v = Some t \<or> (\<exists>s. t = redact_text ps s)"
      by (cases step; cases v) auto
  qed (cases v, auto)
  with Nil P show ?case by (cases "as_str (redact_at path ps v)") auto
next
  case (Cons step' path')
  show ?case
  proof (cases path)
    case Nil
    then show ?thesis using Cons.prems P by (cases v; cases step') (auto simp: json_get_def)
  next
    case path: (Cons step rest)
    show ?thesis
    proof (cases "step = Deep \<or> step' = Deep")
      case True
      then consider "step = Deep" | "step' = Deep" by blast
      then show ?thesis
      proof cases
        case 1
        then show ?thesis using texts_at_recursive [of P ps] P path by simp
      next
        case 2
        then show ?thesis using Cons.prems all_texts_kept [of P ps v path] P by simp
      qed
    next
      case False
      show ?thesis
      proof (cases v)
        case (JArray vs)
        have "\<forall>x \<in> set vs. \<forall>t \<in> set (texts_at path' (redact_at rest ps x)). P t" if "step' = Each"
        proof
          fix x assume "x \<in> set vs"
          then have "\<forall>t \<in> set (texts_at path' x). P t" using Cons.prems that JArray by simp
          then show "\<forall>t \<in> set (texts_at path' (redact_at rest ps x)). P t" by (rule Cons.IH)
        qed
        then show ?thesis using False Cons.prems path JArray by (cases step; cases step') (simp_all add: json_get_def)
      next
        case (JObject m)
        have "om_get m (lit k) = Some w \<Longrightarrow> \<forall>t \<in> set (texts_at path' (redact_at rest ps w)). P t" if "step' = Key k" for k w
          using Cons.IH [of w rest] Cons.prems that JObject by (simp add: json_get_def)
        then show ?thesis using False Cons.prems path JObject
          by (cases step; cases step') (auto simp: json_get_def om_get_modify map_option_eq_Some dest!: sym [of "Some _"] split: option.split)
      qed (use False Cons.prems path in \<open>cases step; cases step'; simp\<close>)+
    qed
  qed
qed

lemma texts_at_fold:
  assumes P: "\<And>t. P (redact_text ps t)"
  shows "path \<in> set paths \<Longrightarrow> \<forall>t \<in> set (texts_at path (fold (\<lambda>path. redact_at path ps) paths v)). P t"
proof (induction paths arbitrary: v rule: rev_induct)
  case (snoc p paths)
  show ?case
  proof (cases "path = p")
    case True
    then show ?thesis using texts_at_own [of P ps] P by auto
  next
    case False
    with snoc have "\<forall>t \<in> set (texts_at path (fold (\<lambda>path. redact_at path ps) paths v)). P t" by simp
    with texts_at_kept [of P ps path _ p] P show ?thesis by simp
  qed
qed simp

lemma redacted_free:
  assumes "validate_rules patterns keys = Inr rules" and "list_all unbracketed patterns"
    and "path \<in> set covered_paths" and "p \<in> set patterns"
  shows "\<forall>t \<in> set (texts_at path (fst (redact_and_index v rules))). \<not> sublist p t"
proof -
  have ok: "\<not> list_ex bad_pattern patterns" and ps: "set (rules_patterns rules) = set patterns"
    using assms(1) by (auto simp: validate_rules_def split: if_splits)
  then have apart: "\<forall>q \<in> set (rules_patterns rules). apart q redacted"
    using assms(2) by (auto simp: list_ex_iff list_all_iff bad_pattern_def intro!: apart_redacted)
  have "\<not> sublist p (redact_text (rules_patterns rules) t)" for t
    using redact_text_free [OF apart] assms(4) ps by blast
  moreover have "rules_patterns rules \<noteq> []" using assms(4) ps by auto
  ultimately show ?thesis
    using texts_at_fold [of "\<lambda>t. \<not> sublist p t" "rules_patterns rules" path covered_paths v] assms(3)
    by (simp add: redact_and_index_def redact_paths Let_def)
qed

lemma facets_from_texts:
  assumes "f \<in> set (context_facets v keys)"
  shows "\<exists>t \<in> set (texts_at [Key ''crash_context'', Key ''game_data'', Each, Key ''value''] v). prefix (facet_value f) t"
proof -
  from assms obtain c g vs w where "json_get v (lit ''crash_context'') = Some c" "json_get c (lit ''game_data'') = Some g"
    "as_array g = Some vs" "w \<in> set vs" "facet_of keys w = Some f"
    by (cases "Option.bind (Option.bind (json_get v (lit ''crash_context'')) (\<lambda>c. json_get c (lit ''game_data''))) as_array")
       (auto simp: context_facets_def List.map_filter_def bind_eq_Some_conv split: if_splits)
  moreover from this obtain x t where "json_get w (lit ''value'') = Some x" "as_str x = Some t" "prefix (facet_value f) t"
    by (auto simp: facet_of_def bind_eq_Some_conv Let_def take_is_prefix split: if_splits)
  ultimately show ?thesis by (intro bexI [of _ t]) force+
qed

text \<open>C5: whatever result the rules are applied to, no pattern is left in any text that the rules cover: the
  messages, versions, comments, original module names, stacks, system and game data and unknown fields of
  the crash context, the log, and the source paths of the current stacks. Nor is one in an indexed value.
  This is for rules none of whose patterns contains a bracket, although the validator accepts such patterns:
  they can overlap the marker (\<open>bracketed_pattern_left\<close> below).\<close>

theorem redaction_leaves_no_pattern:
  assumes "validate_rules patterns keys = Inr rules" and "list_all unbracketed patterns"
    and "path \<in> set covered_paths" and "p \<in> set patterns"
  shows "\<not> list_ex (\<lambda>t. contains t p) (texts_at path (fst (redact_and_index v rules)))
    \<and> \<not> list_ex (\<lambda>f. contains (facet_value f) p) (snd (redact_and_index v rules))"
proof -
  have "[Key ''crash_context'', Key ''game_data'', Each, Key ''value''] \<in> set covered_paths"
    by (simp add: covered_paths_def context_paths_def)
  note free = redacted_free [OF assms(1,2) this assms(4), of v]
  have "\<not> sublist p (facet_value f)" if "f \<in> set (snd (redact_and_index v rules))" for f
  proof -
    have "f \<in> set (context_facets (fst (redact_and_index v rules)) (rules_keys rules))"
      using that by (simp add: redact_and_index_def Let_def)
    then obtain t where "\<not> sublist p t" "prefix (facet_value f) t" using facets_from_texts free by blast
    then show ?thesis using prefix_imp_sublist sublist_order.order_trans by blast
  qed
  then have "\<not> list_ex (\<lambda>f. contains (facet_value f) p) (snd (redact_and_index v rules))"
    by (auto simp: list_ex_iff contains_sublist)
  with redacted_free [OF assms] show ?thesis by (auto simp: list_ex_iff contains_sublist)
qed

theorem redaction_leaves_no_pattern_witness:
  "\<exists>rules. validate_rules [lit ''ab''] [] = Inr rules
     \<and> \<not> list_ex (\<lambda>t. contains t (lit ''ab''))
          (texts_at [Key ''log'', Key ''name''] (fst (redact_and_index (struct_json [(''log'', struct_json [(''name'', JString (lit ''xabx''))])]) rules)))"
proof -
  have "lit ''ab'' \<noteq> []" "trim (lit ''ab'') \<noteq> []" "\<not> contains redacted (lit ''ab'')" "str_len (lit ''ab'') = 2"
    "\<not> list_ex is_control (lit ''ab'')"
    by code_simp+
  then obtain rules where rules: "validate_rules [lit ''ab''] [] = Inr rules"
    by (simp add: validate_rules_def bad_pattern_def max_patterns_def max_indexed_keys_def max_pattern_bytes_def
        max_pattern_bytes_total_def)
  have plain: "list_all unbracketed [lit ''ab'']" by (simp add: unbracketed_def lit_simps)
  have "[Key ''log'', Key ''name''] \<in> set covered_paths" by (simp add: covered_paths_def)
  from redaction_leaves_no_pattern [OF rules plain this, of "lit ''ab''"] rules show ?thesis by fastforce
qed

text \<open>Without the condition on the patterns it is wrong: both of these patterns are accepted, and replacing the
  second one makes an occurrence of the first.\<close>

lemma bracketed_pattern_left:
  "\<exists>rules. validate_rules [lit '']b'', lit ''ab''] [] = Inr rules \<and> lit '']b'' \<in> set (rules_patterns rules)
     \<and> redact_text (rules_patterns rules) (lit ''abb'') = lit ''[REDACTED]b''
     \<and> contains (redact_text (rules_patterns rules) (lit ''abb'')) (lit '']b'')"
proof -
  have "lit ''ab'' \<noteq> []" "trim (lit ''ab'') \<noteq> []" "\<not> contains redacted (lit ''ab'')" "str_len (lit ''ab'') = 2"
    "\<not> list_ex is_control (lit ''ab'')" "lit '']b'' \<noteq> []" "trim (lit '']b'') \<noteq> []" "\<not> contains redacted (lit '']b'')"
    "str_len (lit '']b'') = 2" "\<not> list_ex is_control (lit '']b'')"
    "dedup (sort_key pattern_key [lit '']b'', lit ''ab'']) = [lit '']b'', lit ''ab'']"
    by code_simp+
  then obtain rules where rules: "validate_rules [lit '']b'', lit ''ab''] [] = Inr rules"
    and patterns: "rules_patterns rules = [lit '']b'', lit ''ab'']"
    by (simp add: validate_rules_def bad_pattern_def max_patterns_def max_indexed_keys_def max_pattern_bytes_def
        max_pattern_bytes_total_def del: sort_key_simps)
  have "redact_text [lit '']b'', lit ''ab''] (lit ''abb'') = lit ''[REDACTED]b''"
    "contains (lit ''[REDACTED]b'') (lit '']b'')"
    by code_simp+
  with rules patterns show ?thesis by auto
qed

subsection \<open>The contract before and after\<close>

text \<open>Redacting a value keeps its kind.\<close>

lemma redact_value_kind [json_simps]:
  "is_null (redact_value ps v) = is_null v" "is_string (redact_value ps v) = is_string v"
  "is_u64 (redact_value ps v) = is_u64 v" "is_array (redact_value ps v) = is_array v"
  "is_object (redact_value ps v) = is_object v"
  by (cases v; simp add: is_null_def is_string_def is_u64_def is_array_def is_object_def)+

lemma om_modify_facts [json_simps]:
  "length (om_modify k f m) = length m" "om_keys (om_modify k f m) = om_keys m"
  by (auto simp: om_modify_def om_keys_def)

lemma is_some_and_map: "is_some_and (map_option f v) p = is_some_and v (\<lambda>x. p (f x))"
  by (cases v) (simp_all add: is_some_and_def)

lemma is_none_or_map: "is_none_or (map_option f v) p = is_none_or v (\<lambda>x. p (f x))"
  by (cases v) (simp_all add: is_none_or_def)

lemma modify_reads [json_simps]:
  "(\<And>x. p (f x) = p x) \<Longrightarrow> has_field (om_modify (lit k) f m) k' p = has_field m k' p"
  "k' \<noteq> k \<Longrightarrow> has_field (om_modify (lit k) f m) k' p = has_field m k' p"
  "k' \<noteq> k \<Longrightarrow> get_as g (om_modify (lit k) f m) (lit k') = get_as g m (lit k')"
  "k' \<noteq> k \<Longrightarrow> has_text (om_modify (lit k) f m) k' q = has_text m k' q"
  "only_keys (om_modify (lit k) f m) allowed = only_keys m allowed"
  by (auto simp: has_field_def om_get_modify is_some_and_map get_as_def has_text_def only_keys_def om_modify_facts)

lemma is_none_or_modify [json_simps]:
  "(\<And>x. p (f x) = p x) \<Longrightarrow> is_none_or (om_get (om_modify k f m) k') p = is_none_or (om_get m k') p"
  by (cases "om_get m k") (auto simp: om_get_modify)

lemma as_object_modify: "as_object (json_modify k f v) = map_option (om_modify (lit k) f) (as_object v)"
  by (cases v) simp_all

lemma nullable_redacted [json_simps]: "nullable_string (redact_value ps v) = nullable_string v"
  by (simp add: nullable_string_def json_simps)

lemma object_of_modify: "object_of (json_modify k f v) = bindR (object_of v) (\<lambda>m. Inr (om_modify (lit k) f m))"
  by (cases v) (simp_all add: object_of_def)

lemma string_object_redacted [json_simps]:
  "validate_string_object (json_modify k (redact_value ps) v) names = validate_string_object v names"
  unfolding validate_string_object_def object_of_modify bindR_assoc
  by (simp add: json_simps)

lemma context_thread_redacted [json_simps]:
  "validate_context_thread (json_modify k (redact_value ps) v) = validate_context_thread v"
  unfolding validate_context_thread_def object_of_modify bindR_assoc
  by (simp add: json_simps context_thread_fields_def)

lemma for_each_map: "for_each g (map f xs) = for_each (\<lambda>x. g (f x)) xs"
  by (induction xs) simp_all

lemma validate_array_modify:
  assumes "k' = k \<Longrightarrow> (\<And>x. val (f x) = val x)"
  shows "validate_array (om_modify (lit k) (each_value f) m) k' val = validate_array m k' val"
proof -
  have "as_array (each_value f x) = map_option (map f) (as_array x)" for x by (cases x) simp_all
  then show ?thesis using assms
    by (cases "om_get m (lit k)"; cases "Option.bind (om_get m (lit k)) as_array")
       (auto simp: validate_array_def get_as_def om_get_modify for_each_map)
qed

lemma validate_array_other [json_simps]:
  "k' \<noteq> k \<Longrightarrow> validate_array (om_modify (lit k) f m) k' val = validate_array m k' val"
  by (simp add: validate_array_def modify_reads)

lemma string_array_redacted: "string_array (redact_recursive ps v) = string_array v"
proof -
  have "is_string (redact_recursive ps x) = is_string x" for x by (cases x) (simp_all add: is_string_def)
  then show ?thesis by (cases v) (simp_all add: string_array_def list_all_length)
qed

lemma unknown_fields_redacted: "validate_unknown_fields (redact_recursive ps v) = validate_unknown_fields v"
proof -
  have inner: "bindR (ok_or (as_object (redact_recursive ps w)) InvalidPrevious)
      (\<lambda>names. require (list_all string_array (map snd names)) InvalidPrevious)
    = bindR (ok_or (as_object w) InvalidPrevious) (\<lambda>names. require (list_all string_array (map snd names)) InvalidPrevious)" for w
    by (cases w) (simp_all add: object_of_def list.pred_map comp_def string_array_redacted)
  show ?thesis by (cases v) (simp_all add: validate_unknown_fields_def object_of_def for_each_map inner)
qed

lemma crash_context_redacted: "validate_crash_context (redact_context_map ps m) = validate_crash_context m"
proof -
  have text_kept: "validate_crash_context (om_modify (lit k) (redact_value ps) m) = validate_crash_context m"
    if "k \<in> set redacted_context_fields" for k m
  proof -
    have ne: "''parser_version'' \<noteq> k" "''crash_type'' \<noteq> k" "''platform'' \<noteq> k" "''modules'' \<noteq> k" "''threads'' \<noteq> k"
      "''system_metadata'' \<noteq> k" "''game_data'' \<noteq> k" "''unknown_fields'' \<noteq> k"
      using that by (auto simp: redacted_context_fields_def)
    have other: "om_get (om_modify (lit k) (redact_value ps) m) (lit ''unknown_fields'') = om_get m (lit ''unknown_fields'')"
      using ne by (simp add: om_get_modify)
    show ?thesis unfolding validate_crash_context_def other by (simp only: list.pred_inject ne json_simps not_False_eq_True)
  qed
  have fold_text: "validate_crash_context (fold (\<lambda>name. om_modify (lit name) (redact_value ps)) names m) = validate_crash_context m"
    if "set names \<subseteq> set redacted_context_fields" for names m
    using that by (induction names arbitrary: m) (simp_all add: text_kept)
  have fields: "val (redact_fields names ps v) = val v" if "\<And>k x. val (json_modify k (redact_value ps) x) = val x"
    for val :: "json \<Rightarrow> unit checked" and names v
    using that by (induction names arbitrary: v) (simp_all add: redact_fields_def)
  have normalized: "validate_normalized_value (redact_fields names ps v) = validate_normalized_value v" for names v
    by (rule fields) (simp add: validate_normalized_value_def json_simps)
  have prop_kept: "validate_property (redact_fields names ps v) = validate_property v" for names v
    by (rule fields) (simp add: validate_property_def json_simps)
  have thread: "validate_context_thread (redact_fields names ps v) = validate_context_thread v" for names v
    by (rule fields) (simp add: json_simps)
  have null: "is_null (redact_fields names ps v) = is_null v" for names v
  proof -
    have "is_null (json_modify k (redact_value ps) x) = is_null x" for k x by (cases x) (simp_all add: is_null_def)
    then show ?thesis by (induction names arbitrary: v) (simp_all add: redact_fields_def)
  qed
  have platform: "validate_crash_context (om_modify (lit ''platform'') (redact_fields names ps) m) = validate_crash_context m" for names m
    by (simp add: validate_crash_context_def json_simps om_get_modify normalized null)
  have arrays: "validate_crash_context (om_modify (lit k) (redact_array_fields names ps) m) = validate_crash_context m"
    if "k \<in> {''modules'', ''threads'', ''system_metadata'', ''game_data''}" for k names m
  proof -
    let ?m = "om_modify (lit k) (redact_array_fields names ps) m"
    have ne: "''parser_version'' \<noteq> k" "''crash_guid'' \<noteq> k" "''crash_type'' \<noteq> k" "''error_message'' \<noteq> k" "''build_version'' \<noteq> k"
      "''engine_version'' \<noteq> k" "''architecture'' \<noteq> k" "''build_configuration'' \<noteq> k" "''user_comment'' \<noteq> k"
      "''command_line'' \<noteq> k" "''platform'' \<noteq> k" "''unknown_fields'' \<noteq> k"
      using that by auto
    have reads: "om_get ?m (lit ''command_line'') = om_get m (lit ''command_line'')"
      "om_get ?m (lit ''unknown_fields'') = om_get m (lit ''unknown_fields'')"
      using ne by (simp_all add: om_get_modify)
    have arr: "validate_array ?m ''modules'' validate_normalized_value = validate_array m ''modules'' validate_normalized_value"
      "validate_array ?m ''threads'' validate_context_thread = validate_array m ''threads'' validate_context_thread"
      "validate_array ?m ''system_metadata'' validate_property = validate_array m ''system_metadata'' validate_property"
      "validate_array ?m ''game_data'' validate_property = validate_array m ''game_data'' validate_property"
      unfolding redact_array_fields_def by (rule validate_array_modify, simp only: normalized prop_kept thread)+
    show ?thesis
      unfolding validate_crash_context_def reads arr by (simp only: list.pred_inject ne json_simps not_False_eq_True)
  qed
  have unknown: "validate_crash_context (om_modify (lit ''unknown_fields'') (redact_recursive ps) m) = validate_crash_context m" for m
  proof -
    let ?m = "om_modify (lit ''unknown_fields'') (redact_recursive ps) m"
    have "bindR (ok_or (om_get ?m (lit ''unknown_fields'')) InvalidPrevious) validate_unknown_fields
      = bindR (ok_or (om_get m (lit ''unknown_fields'')) InvalidPrevious) validate_unknown_fields"
      by (cases "om_get m (lit ''unknown_fields'')") (simp_all add: om_get_modify unknown_fields_redacted)
    moreover have "om_get ?m (lit ''command_line'') = om_get m (lit ''command_line'')" by (simp add: om_get_modify)
    ultimately show ?thesis unfolding validate_crash_context_def by (simp add: json_simps)
  qed
  show ?thesis
    by (simp add: redact_context_map_def Let_def unknown arrays platform fold_text)
qed

lemma text_present: "(get_as as_str (om_modify (lit k) (redact_value ps) m) (lit k') = None) = (get_as as_str m (lit k') = None)"
proof -
  have "(as_str (redact_value ps x) = None) = (as_str x = None)" for x by (cases x) simp_all
  then show ?thesis by (cases "om_get m (lit k)") (auto simp: get_as_def om_get_modify)
qed

lemma text_present_ex [simp]:
  "(\<exists>y. get_as as_str (om_modify (lit k) (redact_value ps) m) (lit k') = Some y) \<longleftrightarrow> (\<exists>y. get_as as_str m (lit k') = Some y)"
  using text_present [of k ps m k'] by (simp flip: not_None_eq)

lemma log_redacted:
  "validate_log (json_modify ''name'' (redact_value ps) v) = validate_log v"
  "validate_log (json_modify ''tail'' (json_modify ''text'' (redact_value ps)) v) = validate_log v"
proof -
  show "validate_log (json_modify ''name'' (redact_value ps) v) = validate_log v"
    unfolding validate_log_def object_of_modify bindR_assoc by (simp add: json_simps text_present)
  have tail: "get_as as_object (om_modify (lit k) (json_modify k' f) m) (lit k) = map_option (om_modify (lit k') f) (get_as as_object m (lit k))"
    for k k' f and m :: json_map
    by (cases "om_get m (lit k)") (simp_all add: get_as_def om_get_modify as_object_modify)
  show "validate_log (json_modify ''tail'' (json_modify ''text'' (redact_value ps)) v) = validate_log v"
  proof (cases "as_object v")
    case (Some m)
    then show ?thesis
      by (cases "get_as as_object m (lit ''tail'')")
         (simp_all add: validate_log_def object_of_def as_object_modify tail json_simps text_present)
  qed (simp add: validate_log_def object_of_def as_object_modify)
qed

lemma array_modified:
  "get_as as_array (om_modify (lit k) (each_value f) m) (lit k) = map_option (map f) (get_as as_array m (lit k))"
proof -
  have "as_array (each_value f x) = map_option (map f) (as_array x)" for x by (cases x) simp_all
  then show ?thesis by (cases "om_get m (lit k)") (simp_all add: get_as_def om_get_modify)
qed

lemma each_value_kind [json_simps]: "is_array (each_value f v) = is_array v"
  by (cases v) (simp_all add: is_array_def)

text \<open>An array of checked values that are modified one by one.\<close>

lemma checked_array_modify:
  assumes "\<And>x. val (f x) = val x"
  shows "bindR (ok_or (get_as as_array (om_modify (lit k) (each_value f) m) (lit k)) e) (for_each val)
    = bindR (ok_or (get_as as_array m (lit k)) e) (for_each val)"
  by (cases "get_as as_array m (lit k)") (simp_all add: array_modified for_each_map assms)

lemma inline_redacted: "validate_inline (json_modify ''source_file'' (redact_value ps) v) = validate_inline v"
  unfolding validate_inline_def object_of_modify bindR_assoc by (simp add: json_simps)

lemma frame_redacted: "validate_frame (redact_frame ps v) = validate_frame v"
proof -
  have source: "validate_frame (json_modify ''source_file'' (redact_value ps) x) = validate_frame x" for x
    unfolding validate_frame_def object_of_modify bindR_assoc by (simp add: json_simps)
  have inlines: "validate_frame (json_modify ''inlines'' (each_value f) x) = validate_frame x"
    if "\<And>y. validate_inline (f y) = validate_inline y" for f x
    unfolding validate_frame_def object_of_modify bindR_assoc bindR_simps checked_array_modify [of validate_inline f, OF that] by (simp add: json_simps)
  show ?thesis unfolding redact_frame_def by (simp add: inlines inline_redacted source)
qed

lemma thread_redacted:
  assumes "\<And>y. validate_frame (f y) = validate_frame y"
  shows "validate_thread (json_modify ''frames'' (each_value f) v) = validate_thread v"
  unfolding validate_thread_def object_of_modify bindR_assoc bindR_simps checked_array_modify [of validate_frame f, OF assms]
  by (simp add: json_simps)

lemma symbolication_redacted:
  assumes "\<And>y. validate_thread (f y) = validate_thread y"
  shows "validate_symbolication (json_modify ''threads'' (each_value f) v) version = validate_symbolication v version"
proof -
  have threads: "bindR (ok_or (get_as as_array (om_modify (lit ''threads'') (each_value f) m) (lit ''threads'')) InvalidPrevious) validate_threads
    = bindR (ok_or (get_as as_array m (lit ''threads'')) InvalidPrevious) validate_threads" for m
    unfolding validate_threads_def [abs_def] by (rule checked_array_modify) (rule assms)
  have header: "validate_symbolication_header (om_modify (lit ''threads'') (each_value f) m) version
    = validate_symbolication_header m version" for m
    unfolding validate_symbolication_header_def Let_def by (simp add: json_simps om_get_modify)
  show ?thesis
    unfolding validate_symbolication_def object_of_modify bindR_assoc bindR_simps header threads by (simp add: json_simps)
qed

lemma attempt_redacted:
  assumes "\<And>y version. validate_symbolication (f y) version = validate_symbolication y version"
    and "\<And>y. is_object (f y) = is_object y"
  shows "validate_attempt (json_modify ''symbolication'' f v) = validate_attempt v"
proof (cases "as_object v")
  case (Some m)
  have sym: "bindR (ok_or (map_option f x) e) (\<lambda>s. validate_symbolication s version)
    = bindR (ok_or x e) (\<lambda>s. validate_symbolication s version)" for x e version
    by (cases x) (simp_all add: assms)
  show ?thesis
    unfolding validate_attempt_def object_of_def as_object_modify Some
    by (simp add: json_simps sym assms om_get_modify)
qed (simp add: validate_attempt_def object_of_def as_object_modify)

subsection \<open>The result contract\<close>

lemma optional_modified:
  "validate_optional (om_modify (lit k) f m) k' val
    = (if k' = k then validate_optional m k' (\<lambda>v. val (f v)) else validate_optional m k' val)"
  by (cases "om_get m (lit k)") (auto simp: validate_optional_def om_get_modify)

lemma contract_modify_log:
  assumes "\<And>x. validate_log (f x) = validate_log x"
  shows "validate_processing_contract (json_modify ''log'' f v) expected rc = validate_processing_contract v expected rc"
  unfolding validate_processing_contract_def object_of_modify bindR_assoc
  by (simp add: json_simps om_get_modify optional_modified assms)

lemma contract_modify_context:
  assumes "\<And>c. validate_crash_context (f c) = validate_crash_context c"
    and "\<And>c. om_get (f c) (lit ''crash_guid'') = om_get c (lit ''crash_guid'')"
    and "\<And>c. om_get (f c) (lit ''parser_version'') = om_get c (lit ''parser_version'')"
  shows "validate_processing_contract (json_modify ''crash_context'' (map_object f) v) expected rc
    = validate_processing_contract v expected rc"
proof -
  have reads: "get_as as_str (f c) (lit ''crash_guid'') = get_as as_str c (lit ''crash_guid'')"
    "get_as as_u64 (f c) (lit ''parser_version'') = get_as as_u64 c (lit ''parser_version'')" for c
    by (simp_all add: get_as_def assms)
  have "as_object (map_object f x) = map_option f (as_object x)" for x by (cases x) simp_all
  then have object: "get_as as_object (om_modify (lit ''crash_context'') (map_object f) m) (lit ''crash_context'')
      = map_option f (get_as as_object m (lit ''crash_context''))" for m
    by (cases "om_get m (lit ''crash_context'')") (simp_all add: get_as_def om_get_modify)
  have mapped: "bindR (ok_or (map_option f x) e) k = bindR (ok_or x e) (\<lambda>c. k (f c))"
    for x e and k :: "json_map \<Rightarrow> unit checked" by (cases x) simp_all
  show ?thesis
    unfolding validate_processing_contract_def object_of_modify bindR_assoc
    by (simp add: json_simps om_get_modify optional_modified object mapped reads assms(1))
qed

lemma contract_modify_current:
  assumes "\<And>c. validate_attempt (f c) = validate_attempt c"
    and "\<And>c. json_get (f c) (lit ''processing_version'') = json_get c (lit ''processing_version'')"
    and "\<And>c. json_get (f c) (lit ''parser_version'') = json_get c (lit ''parser_version'')"
  shows "validate_processing_contract (json_modify ''current'' f v) expected rc = validate_processing_contract v expected rc"
proof -
  have mapped: "bindR (ok_or (map_option f x) e) k = bindR (ok_or x e) (\<lambda>c. k (f c))"
    for x e and k :: "json \<Rightarrow> unit checked" by (cases x) simp_all
  have parser: "Option.bind (map_option f x) (\<lambda>c. Option.bind (json_get c (lit ''parser_version'')) as_u64)
      = Option.bind x (\<lambda>c. Option.bind (json_get c (lit ''parser_version'')) as_u64)" for x
    by (cases x) (simp_all add: assms)
  show ?thesis
    unfolding validate_processing_contract_def object_of_modify bindR_assoc
    by (simp add: json_simps om_get_modify optional_modified mapped parser assms)
qed

lemma json_get_modify: "k' \<noteq> k \<Longrightarrow> json_get (json_modify k f v) (lit k') = json_get v (lit k')"
  by (cases v) (simp_all add: json_get_def om_get_modify)

lemma context_map_reads:
  assumes "k \<notin> set (redacted_context_fields @ [''platform'', ''modules'', ''threads'', ''system_metadata'', ''game_data'', ''unknown_fields''])"
  shows "om_get (redact_context_map ps m) (lit k) = om_get m (lit k)"
proof -
  have "om_get (fold (\<lambda>name. om_modify (lit name) (redact_value ps)) names m) (lit k) = om_get m (lit k)"
    if "k \<notin> set names" for names
    using that by (induction names arbitrary: m) (simp_all add: om_get_modify)
  then show ?thesis using assms by (simp add: redact_context_map_def Let_def om_get_modify)
qed

lemma object_kept: "is_object (json_modify k f v) = is_object v"
  by (cases v) (simp_all add: is_object_def)

text \<open>C29: The redaction of any value under any rules changes nothing the result contract looks at: validation answers the
  same, error or not, before and after.\<close>

theorem redaction_keeps_contract:
  "validate_processing_contract (fst (redact_and_index v rules)) expected rc = validate_processing_contract v expected rc"
proof -
  let ?ps = "rules_patterns rules"
  have context_kept: "validate_processing_contract (redact_crash_context ?ps x) expected rc = validate_processing_contract x expected rc" for x
    unfolding redact_crash_context_def
    by (rule contract_modify_context) (rule crash_context_redacted, simp_all add: context_map_reads redacted_context_fields_def)
  have log_kept: "validate_processing_contract (redact_log ?ps x) expected rc = validate_processing_contract x expected rc" for x
    unfolding redact_log_def by (simp only: contract_modify_log log_redacted)
  have "validate_attempt (json_modify ''symbolication'' (json_modify ''threads''
      (each_value (json_modify ''frames'' (each_value (redact_frame ?ps))))) c) = validate_attempt c" for c
    by (simp only: attempt_redacted symbolication_redacted thread_redacted frame_redacted object_kept)
  then have symbolication_kept: "validate_processing_contract (redact_symbolication ?ps x) expected rc
      = validate_processing_contract x expected rc" for x
    unfolding redact_symbolication_def by (rule contract_modify_current) (simp_all add: json_get_modify)
  show ?thesis by (simp add: redact_and_index_def Let_def context_kept log_kept symbolication_kept)
qed

end
