(* ===== verification/Job_Queue.thy ===== *)
theory Job_Queue
  imports Rust_Text "HOL-Library.Product_Lexorder"
begin

section \<open>The job queue (apps/server/src/worker.rs)\<close>

text \<open>
  The statements by which the workers claim, renew, release and end jobs, and by which they serve the
  reprocessing requests. A table is the list of its rows with the columns the statements read or write, a
  statement a function on the tables; \<^verbatim>\<open>now()\<close> is the clock of the database in microseconds, the same
  during a transaction. A transaction is a function from the tables to an error, which leaves them as they
  were, or to the tables it commits; the rows that other transactions have locked are an argument of the
  statements that skip them. Identifiers and lease tokens are the texts of UUIDs. That the database cannot be
  reached is the outcome \<open>db_unavailable\<close> of a whole transaction and not modelled inside one. The columns
  that are only ever written (\<^verbatim>\<open>updated_at\<close>, \<^verbatim>\<open>payload\<close>) are left out.
\<close>

type_synonym uuid = ustring
type_synonym micros = int

datatype job_error = LostLease | Dependency | Deterministic string | Resource string | Transient string

definition db_unavailable :: job_error where "db_unavailable = Transient ''database_unavailable''"

definition lease_seconds :: int where "lease_seconds = 300"
definition reprocessing_request_lease_seconds :: int where "reprocessing_request_lease_seconds = 60"

definition seconds :: "int \<Rightarrow> micros" where "seconds n = n * 1000000"

subsection \<open>Tables\<close>

datatype job_state = Pending | Leased | Completed | Failed | Dead

record job_row =
  j_id :: uuid
  j_org :: uuid
  j_project :: uuid
  j_event :: "uuid option"
  j_upload :: "uuid option"
  j_cache :: "uuid option"
  j_type :: string
  j_state :: job_state
  j_priority :: int
  j_attempt :: int
  j_max_attempt :: int
  j_resource_failures :: int
  j_available_at :: micros
  j_created_at :: micros
  j_lease_owner :: "uuid option"
  j_lease_token :: "uuid option"
  j_lease_expires_at :: "micros option"
  j_heartbeat_at :: "micros option"
  j_failure_code :: "string option"
  j_completed_at :: "micros option"

text \<open>The columns of \<^verbatim>\<open>crash_events\<close> that the queue uses.\<close>

record event_row =
  e_id :: uuid
  e_org :: uuid
  e_project :: uuid
  e_current_result :: "uuid option"
  e_processing_state :: string
  e_state_reason :: "string option"
  e_retryable :: bool
  e_retry_at :: "micros option"
  e_requested :: int
  e_completed :: int

datatype work_state = Queued | Running | Done | Broken

text \<open>A row of \<^verbatim>\<open>crash_reprocessing_request_events\<close>; its states are \<^verbatim>\<open>queued\<close>, \<^verbatim>\<open>running\<close>, \<^verbatim>\<open>completed\<close>
  and \<^verbatim>\<open>failed\<close>.\<close>

record work_row =
  w_org :: uuid
  w_project :: uuid
  w_request :: uuid
  w_event :: uuid
  w_generation :: int
  w_previous_result :: "uuid option"
  w_result :: "uuid option"
  w_state :: work_state
  w_failure_code :: "string option"
  w_started_at :: "micros option"
  w_completed_at :: "micros option"

datatype request_state = Awaiting | Scheduling | Processing | Complete | Partial | Refused

text \<open>A row of \<^verbatim>\<open>crash_reprocessing_requests\<close>; its states are \<^verbatim>\<open>pending\<close>, \<^verbatim>\<open>scheduling\<close>, \<^verbatim>\<open>running\<close>,
  \<^verbatim>\<open>completed\<close>, \<^verbatim>\<open>partial\<close> and \<^verbatim>\<open>failed\<close>.\<close>

record request_row =
  r_id :: uuid
  r_org :: uuid
  r_project :: uuid
  r_source :: string
  r_state :: request_state
  r_attempt :: int
  r_max_attempt :: int
  r_available_at :: micros
  r_created_at :: micros
  r_lease_owner :: "uuid option"
  r_lease_token :: "uuid option"
  r_lease_expires_at :: "micros option"
  r_selection_complete :: bool
  r_selection_truncated :: bool
  r_selection_cursor :: "uuid option"
  r_next_cursor :: "uuid option"
  r_selected :: nat
  r_queued :: nat
  r_running :: nat
  r_completed :: nat
  r_failed :: nat
  r_failure_code :: "string option"
  r_completed_at :: "micros option"

text \<open>The columns of \<^verbatim>\<open>artifact_upload_sessions\<close>, \<^verbatim>\<open>release_manifest_artifacts\<close> and
  \<^verbatim>\<open>derived_symbol_caches\<close> that a failing job changes.\<close>

record session_row =
  s_id :: uuid
  s_org :: uuid
  s_project :: uuid
  s_manifest :: uuid
  s_state :: string
  s_failure_code :: "string option"

record manifest_row =
  m_id :: uuid
  m_org :: uuid
  m_project :: uuid
  m_state :: string
  m_failure_code :: "string option"
  m_debug_image :: "uuid option"

record cache_row =
  d_id :: uuid
  d_org :: uuid
  d_project :: uuid
  d_state :: string
  d_failure_code :: "string option"
  d_checksum :: "ustring option"
  d_byte_size :: "int option"

record tables =
  projects :: "(uuid \<times> uuid) list"
  jobs :: "job_row list"
  events :: "event_row list"
  works :: "work_row list"
  requests :: "request_row list"
  sessions :: "session_row list"
  manifests :: "manifest_row list"
  caches :: "cache_row list"

text \<open>A claimed job, as the worker remembers it (\<^verbatim>\<open>struct Job\<close>).\<close>

record job =
  c_id :: uuid
  c_org :: uuid
  c_project :: uuid
  c_event :: "uuid option"
  c_upload :: "uuid option"
  c_cache :: "uuid option"
  c_kind :: string
  c_attempt :: int
  c_max_attempt :: int
  c_resource_failures :: int
  c_lease_token :: uuid
  c_target_generation :: int
  c_project_active_jobs :: int
  c_queue_age_seconds :: int

subsection \<open>Statements\<close>

text \<open>\<^verbatim>\<open>UPDATE ... WHERE\<close>, and the number of rows it affects.\<close>

definition update_where :: "('r \<Rightarrow> bool) \<Rightarrow> ('r \<Rightarrow> 'r) \<Rightarrow> 'r list \<Rightarrow> 'r list" where
  "update_where p f rows = map (\<lambda>r. if p r then f r else r) rows"

definition affected :: "('r \<Rightarrow> bool) \<Rightarrow> 'r list \<Rightarrow> nat" where
  "affected p rows = length (filter p rows)"

text \<open>A transaction commits what its body returns, and nothing when the body returns early.\<close>

definition commit :: "(tables \<Rightarrow> ('e, 'a \<times> tables) result) \<Rightarrow> tables \<Rightarrow> ('e, 'a) result \<times> tables" where
  "commit body s = (case body s of Inl e \<Rightarrow> (Inl e, s) | Inr (a, s') \<Rightarrow> (Inr a, s'))"

definition unit_body :: "(tables \<Rightarrow> ('e, tables) result) \<Rightarrow> tables \<Rightarrow> ('e, unit \<times> tables) result" where
  "unit_body body s = bindR (body s) (\<lambda>s'. Inr ((), s'))"

text \<open>The job row of the statement: this job, leased by this worker with this token.\<close>

definition held_by :: "uuid \<Rightarrow> job \<Rightarrow> job_row \<Rightarrow> bool" where
  "held_by worker job r \<longleftrightarrow> j_id r = c_id job \<and> j_org r = c_org job \<and> j_project r = c_project job
     \<and> j_state r = Leased \<and> j_lease_owner r = Some worker \<and> j_lease_token r = Some (c_lease_token job)"

definition unexpired :: "micros \<Rightarrow> job_row \<Rightarrow> bool" where
  "unexpired now r \<longleftrightarrow> is_some_and (j_lease_expires_at r) (\<lambda>t. t > now)"

definition unlease :: "job_row \<Rightarrow> job_row" where
  "unlease r = r\<lparr>j_lease_owner := None, j_lease_token := None, j_lease_expires_at := None, j_heartbeat_at := None\<rparr>"

definition renew :: "micros \<Rightarrow> job_row \<Rightarrow> job_row" where
  "renew now r = r\<lparr>j_heartbeat_at := Some now, j_lease_expires_at := Some (now + seconds lease_seconds)\<rparr>"

text \<open>An update of the jobs that must affect exactly one row.\<close>

definition update_held :: "(job_row \<Rightarrow> bool) \<Rightarrow> (job_row \<Rightarrow> job_row) \<Rightarrow> tables \<Rightarrow> (job_error, tables) result" where
  "update_held p f s =
     (if affected p (jobs s) = 1 then Inr (s\<lparr>jobs := update_where p f (jobs s)\<rparr>) else Inl LostLease)"

definition lock_lease :: "micros \<Rightarrow> uuid \<Rightarrow> job \<Rightarrow> tables \<Rightarrow> (job_error, tables) result" where
  "lock_lease now worker job s =
     (let p = (\<lambda>r. held_by worker job r \<and> unexpired now r) in
      if affected p (jobs s) = 0 then Inl LostLease
      else Inr (s\<lparr>jobs := update_where p (renew now) (jobs s)\<rparr>))"

definition complete_row :: "micros \<Rightarrow> string option \<Rightarrow> job_row \<Rightarrow> job_row" where
  "complete_row now failure_code r =
     unlease (r\<lparr>j_state := Completed, j_failure_code := failure_code, j_completed_at := Some now\<rparr>)"

definition complete_job :: "micros \<Rightarrow> uuid \<Rightarrow> job \<Rightarrow> string option \<Rightarrow> tables \<Rightarrow> (job_error, tables) result" where
  "complete_job now worker job failure_code =
     update_held (held_by worker job) (complete_row now failure_code)"

definition fresh_pending :: "micros \<Rightarrow> job_row \<Rightarrow> job_row" where
  "fresh_pending now r = unlease (r\<lparr>j_state := Pending, j_priority := 200, j_attempt := 0, j_resource_failures := 0,
     j_available_at := now, j_failure_code := None, j_completed_at := None\<rparr>)"

definition requeue_job_for_new_generation :: "micros \<Rightarrow> uuid \<Rightarrow> job \<Rightarrow> tables \<Rightarrow> (job_error, tables) result" where
  "requeue_job_for_new_generation now worker job = update_held (held_by worker job) (fresh_pending now)"

definition terminal_row :: "micros \<Rightarrow> job_state \<Rightarrow> string \<Rightarrow> bool \<Rightarrow> job_row \<Rightarrow> job_row" where
  "terminal_row now state code resource_failure r =
     unlease (r\<lparr>j_state := state, j_failure_code := Some code,
       j_resource_failures := j_resource_failures r + (if resource_failure then 1 else 0), j_completed_at := Some now\<rparr>)"

definition terminal_job ::
  "micros \<Rightarrow> uuid \<Rightarrow> job \<Rightarrow> job_state \<Rightarrow> string \<Rightarrow> bool \<Rightarrow> tables \<Rightarrow> (job_error, tables) result" where
  "terminal_job now worker job state code resource_failure =
     update_held (held_by worker job) (terminal_row now state code resource_failure)"

definition lease_is_active :: "micros \<Rightarrow> uuid \<Rightarrow> uuid \<Rightarrow> tables \<Rightarrow> bool" where
  "lease_is_active now job_id lease_token s =
     list_ex (\<lambda>r. j_id r = job_id \<and> j_state r = Leased \<and> j_lease_token r = Some lease_token \<and> unexpired now r) (jobs s)"

text \<open>One beat of the heartbeat task: it goes on as long as it renews one row.\<close>

definition heartbeat :: "micros \<Rightarrow> uuid \<Rightarrow> job \<Rightarrow> tables \<Rightarrow> bool \<times> tables" where
  "heartbeat now worker job s =
     (affected (held_by worker job) (jobs s) = 1,
      s\<lparr>jobs := update_where (held_by worker job) (renew now) (jobs s)\<rparr>)"

subsection \<open>Progress of reprocessing requests\<close>

definition count_state :: "uuid \<Rightarrow> work_state \<Rightarrow> tables \<Rightarrow> nat" where
  "count_state request st s = affected (\<lambda>w. w_request w = request \<and> w_state w = st) (works s)"

definition next_request_state :: "tables \<Rightarrow> request_row \<Rightarrow> request_state" where
  "next_request_state s r =
     (let selected = affected (\<lambda>w. w_request w = r_id r) (works s);
          queued = count_state (r_id r) Queued s; running = count_state (r_id r) Running s;
          completed = count_state (r_id r) Done s; failed = count_state (r_id r) Broken s
      in if \<not> r_selection_complete r then r_state r
         else if r_failure_code r \<noteq> None \<and> completed > 0 then Partial
         else if r_failure_code r \<noteq> None then Refused
         else if selected = 0 then Complete
         else if queued + running > 0 then Processing
         else if completed > 0 \<and> failed > 0 then Partial
         else if failed > 0 then Refused
         else Complete)"

definition refreshed :: "micros \<Rightarrow> tables \<Rightarrow> request_row \<Rightarrow> request_row" where
  "refreshed now s r =
     r\<lparr>r_state := next_request_state s r,
       r_selected := affected (\<lambda>w. w_request w = r_id r) (works s),
       r_queued := count_state (r_id r) Queued s, r_running := count_state (r_id r) Running s,
       r_completed := count_state (r_id r) Done s, r_failed := count_state (r_id r) Broken s,
       r_completed_at := (if next_request_state s r \<in> {Complete, Partial, Refused}
          then (case r_completed_at r of None \<Rightarrow> Some now | Some t \<Rightarrow> Some t) else None)\<rparr>"

definition refresh_reprocessing_request :: "micros \<Rightarrow> uuid \<Rightarrow> tables \<Rightarrow> (job_error, tables) result" where
  "refresh_reprocessing_request now request s =
     (if affected (\<lambda>r. r_id r = request) (requests s) = 1
      then Inr (s\<lparr>requests := update_where (\<lambda>r. r_id r = request) (refreshed now s) (requests s)\<rparr>)
      else Inl (Deterministic ''reprocessing_request_missing''))"

text \<open>An update of the rows of one event up to a generation, which refreshes the requests it returns, each once and
  in order (\<^verbatim>\<open>BTreeSet::from_iter\<close>).\<close>

definition work_of :: "job \<Rightarrow> uuid \<Rightarrow> work_state list \<Rightarrow> work_row \<Rightarrow> bool" where
  "work_of job event states w \<longleftrightarrow> w_org w = c_org job \<and> w_project w = c_project job \<and> w_event w = event
     \<and> w_generation w \<le> c_target_generation job \<and> w_state w \<in> set states"

definition update_works ::
  "micros \<Rightarrow> (work_row \<Rightarrow> bool) \<Rightarrow> (work_row \<Rightarrow> work_row) \<Rightarrow> tables \<Rightarrow> (job_error, tables) result" where
  "update_works now p f s =
     fold_result (refresh_reprocessing_request now) (dedup (sort (map w_request (filter p (works s)))))
       (s\<lparr>works := update_where p f (works s)\<rparr>)"

definition mark_reprocessing_events_running :: "micros \<Rightarrow> job \<Rightarrow> tables \<Rightarrow> (job_error, tables) result" where
  "mark_reprocessing_events_running now job s =
     (if c_target_generation job = 0 then Inr s
      else case c_event job of
        None \<Rightarrow> Inr s
      | Some event \<Rightarrow> update_works now (work_of job event [Queued])
          (\<lambda>w. w\<lparr>w_state := Running,
             w_started_at := (case w_started_at w of None \<Rightarrow> Some now | Some t \<Rightarrow> Some t)\<rparr>) s)"

definition complete_reprocessing_request_events ::
  "micros \<Rightarrow> job \<Rightarrow> uuid \<Rightarrow> uuid \<Rightarrow> tables \<Rightarrow> (job_error, tables) result" where
  "complete_reprocessing_request_events now job event result s =
     (if c_target_generation job = 0 then Inr s
      else update_works now (work_of job event [Queued, Running])
        (\<lambda>w. w\<lparr>w_state := Done, w_result := Some result, w_failure_code := None, w_completed_at := Some now\<rparr>) s)"

end
