(* ===== verification/Job_Lifecycle.thy ===== *)
theory Job_Lifecycle
  imports Job_Queue
begin

section \<open>Claiming, running and ending jobs (apps/server/src/worker.rs)\<close>

text \<open>
  The transactions of a worker: it claims a job, and after running it publishes a result, releases the job
  for another attempt, or ends it. What the run of the job returned decides which (\<open>finish_result\<close>).
\<close>

subsection \<open>Claims\<close>

definition claimable :: "micros \<Rightarrow> job_row \<Rightarrow> bool" where
  "claimable now r \<longleftrightarrow>
     (j_state r = Pending \<and> j_available_at r \<le> now
        \<and> (j_attempt r < j_max_attempt r \<or> j_attempt r = j_max_attempt r \<and> j_resource_failures r = 1))
     \<or> (j_state r = Leased \<and> is_some_and (j_lease_expires_at r) (\<lambda>t. t \<le> now))"

definition in_project :: "uuid \<times> uuid \<Rightarrow> job_row \<Rightarrow> bool" where
  "in_project p r \<longleftrightarrow> j_project r = fst p \<and> j_org r = snd p"

definition active_jobs :: "micros \<Rightarrow> tables \<Rightarrow> uuid \<times> uuid \<Rightarrow> nat" where
  "active_jobs now s p = affected (\<lambda>r. in_project p r \<and> j_state r = Leased \<and> unexpired now r) (jobs s)"

text \<open>\<^verbatim>\<open>ORDER BY priority, available_at, created_at, id LIMIT 1\<close>\<close>

definition claim_order :: "job_row \<Rightarrow> int \<times> micros \<times> micros \<times> uuid" where
  "claim_order r = (j_priority r, j_available_at r, j_created_at r, j_id r)"

definition first_in_order :: "job_row list \<Rightarrow> job_row option" where
  "first_in_order rows = (case sort_key claim_order rows of [] \<Rightarrow> None | r # _ \<Rightarrow> Some r)"

definition candidate_project ::
  "micros \<Rightarrow> nat \<Rightarrow> (uuid \<times> uuid) list \<Rightarrow> tables \<Rightarrow> (uuid \<times> uuid) option" where
  "candidate_project now limit locked s =
     map_option (\<lambda>r. (j_project r, j_org r)) (first_in_order
       (filter (\<lambda>r. (j_project r, j_org r) \<in> set (projects s) \<and> (j_project r, j_org r) \<notin> set locked
          \<and> claimable now r \<and> active_jobs now s (j_project r, j_org r) < limit) (jobs s)))"

definition candidate :: "micros \<Rightarrow> uuid list \<Rightarrow> uuid \<times> uuid \<Rightarrow> tables \<Rightarrow> job_row option" where
  "candidate now locked p s =
     first_in_order (filter (\<lambda>r. in_project p r \<and> claimable now r \<and> j_id r \<notin> set locked) (jobs s))"

definition lease_to :: "micros \<Rightarrow> uuid \<Rightarrow> uuid \<Rightarrow> job_row \<Rightarrow> job_row" where
  "lease_to now worker token r =
     r\<lparr>j_state := Leased, j_attempt := j_attempt r + 1, j_lease_owner := Some worker, j_lease_token := Some token,
       j_lease_expires_at := Some (now + seconds lease_seconds), j_heartbeat_at := Some now\<rparr>"

definition event_of :: "tables \<Rightarrow> job_row \<Rightarrow> event_row option" where
  "event_of s r = Option.bind (j_event r) (\<lambda>event.
     find (\<lambda>e. e_id e = event \<and> e_org e = j_org r \<and> e_project e = j_project r) (events s))"

text \<open>\<^verbatim>\<open>GREATEST(0, EXTRACT(EPOCH FROM age)::bigint)\<close>: seconds, rounded.\<close>

definition queue_age :: "micros \<Rightarrow> micros \<Rightarrow> int" where
  "queue_age now created = max 0 ((now - created + 500000) div 1000000)"

definition claimed :: "micros \<Rightarrow> tables \<Rightarrow> uuid \<Rightarrow> uuid \<times> uuid \<Rightarrow> job_row \<Rightarrow> job" where
  "claimed now s token p r =
     \<lparr>c_id = j_id r, c_org = j_org r, c_project = j_project r, c_event = j_event r, c_upload = j_upload r,
      c_cache = j_cache r, c_kind = j_type r, c_attempt = j_attempt r + 1, c_max_attempt = j_max_attempt r,
      c_resource_failures = j_resource_failures r, c_lease_token = token,
      c_target_generation = (case event_of s r of None \<Rightarrow> 0 | Some e \<Rightarrow> e_requested e),
      c_project_active_jobs = int (active_jobs now s p) + 1, c_queue_age_seconds = queue_age now (j_created_at r)\<rparr>"

definition claim_body ::
  "micros \<Rightarrow> uuid \<Rightarrow> nat \<Rightarrow> uuid \<Rightarrow> (uuid \<times> uuid) list \<Rightarrow> uuid list \<Rightarrow> tables \<Rightarrow> (job_error, job option \<times> tables) result" where
  "claim_body now worker limit token locked_projects locked_jobs s =
     (case candidate_project now limit locked_projects s of
        None \<Rightarrow> Inr (None, s)
      | Some p \<Rightarrow>
        (case candidate now locked_jobs p s of
           None \<Rightarrow> Inr (None, s)
         | Some r \<Rightarrow>
             let job = claimed now s token p r;
                 s' = s\<lparr>jobs := update_where (\<lambda>r'. j_id r' = j_id r) (lease_to now worker token) (jobs s)\<rparr>
             in bindR (mark_reprocessing_events_running now job s') (\<lambda>s''. Inr (Some job, s''))))"

definition claim_job_with_project_limit ::
  "micros \<Rightarrow> uuid \<Rightarrow> nat \<Rightarrow> uuid \<Rightarrow> (uuid \<times> uuid) list \<Rightarrow> uuid list \<Rightarrow> tables \<Rightarrow> (job_error, job option) result \<times> tables" where
  "claim_job_with_project_limit now worker limit token locked_projects locked_jobs =
     commit (claim_body now worker limit token locked_projects locked_jobs)"

subsection \<open>Releases\<close>

definition release_row :: "micros \<Rightarrow> string \<Rightarrow> int \<Rightarrow> bool \<Rightarrow> bool \<Rightarrow> job_row \<Rightarrow> job_row" where
  "release_row now code delay resource dependency r =
     unlease (r\<lparr>j_state := Pending, j_available_at := now + seconds delay, j_failure_code := Some code,
       j_resource_failures := j_resource_failures r + (if resource then 1 else 0),
       j_attempt := j_attempt r - (if dependency then 1 else 0)\<rparr>)"

definition release_job ::
  "micros \<Rightarrow> uuid \<Rightarrow> job \<Rightarrow> string \<Rightarrow> int \<Rightarrow> bool \<Rightarrow> bool \<Rightarrow> tables \<Rightarrow> (job_error, tables) result" where
  "release_job now worker job code delay resource dependency s =
     bindR (update_held (held_by worker job) (release_row now code delay resource dependency) s) (\<lambda>s.
     case c_event job of
       None \<Rightarrow> Inr s
     | Some event \<Rightarrow>
         if c_target_generation job > 0
         then update_works now (work_of job event [Running]) (\<lambda>w. w\<lparr>w_state := Queued\<rparr>) s
         else Inr s)"

text \<open>\<^verbatim>\<open>u32::try_from(attempt.saturating_sub(1)).unwrap_or(10).min(6)\<close> on an \<^verbatim>\<open>i32\<close>\<close>

definition retry_exponent :: "int \<Rightarrow> nat" where
  "retry_exponent attempt =
     (let n = max (- (2 ^ 31)) (attempt - 1) in min (if n < 0 then 10 else nat n) 6)"

definition retry_seconds :: "int \<Rightarrow> int" where
  "retry_seconds attempt = min (2 ^ retry_exponent attempt) 60"

definition wait_for_dependency :: "micros \<Rightarrow> uuid \<Rightarrow> job \<Rightarrow> tables \<Rightarrow> (job_error, tables) result" where
  "wait_for_dependency now worker job = release_job now worker job ''dependency_pending'' 1 False True"

definition cancel_job :: "micros \<Rightarrow> uuid \<Rightarrow> job \<Rightarrow> tables \<Rightarrow> (job_error, tables) result" where
  "cancel_job now worker job = release_job now worker job ''processing_cancelled'' 0 False True"

definition retry :: "micros \<Rightarrow> uuid \<Rightarrow> job \<Rightarrow> string \<Rightarrow> bool \<Rightarrow> tables \<Rightarrow> (job_error, tables) result" where
  "retry now worker job code resource =
     release_job now worker job code (retry_seconds (c_attempt job)) resource False"

subsection \<open>Failures\<close>

definition event_matches :: "job \<Rightarrow> uuid \<Rightarrow> event_row \<Rightarrow> bool" where
  "event_matches job event e \<longleftrightarrow> e_id e = event \<and> e_org e = c_org job \<and> e_project e = c_project job"

definition fail_event_row :: "job \<Rightarrow> string \<Rightarrow> bool \<Rightarrow> event_row \<Rightarrow> event_row" where
  "fail_event_row job code quarantine e =
     (let e = e\<lparr>e_completed := max (e_completed e) (c_target_generation job)\<rparr> in
      if c_target_generation job > 0 \<and> e_current_result e \<noteq> None then e
      else e\<lparr>e_processing_state := (if quarantine then ''quarantined'' else ''failed''), e_state_reason := Some code,
             e_retryable := False, e_retry_at := None\<rparr>)"

text \<open>The first case of \<^verbatim>\<open>finish_failure\<close>: the requested generation of the event, with the tables.\<close>

definition fail_event :: "micros \<Rightarrow> job \<Rightarrow> string \<Rightarrow> bool \<Rightarrow> tables \<Rightarrow> (job_error, int \<times> tables) result" where
  "fail_event now job code quarantine s =
     (case c_event job of
        None \<Rightarrow> Inl db_unavailable
      | Some event \<Rightarrow>
        bindR (ok_or (find (event_matches job event) (events s)) LostLease) (\<lambda>e.
        let s = s\<lparr>events := update_where (event_matches job event) (fail_event_row job code quarantine) (events s)\<rparr> in
        bindR (if c_target_generation job > 0
               then update_works now (work_of job event [Queued, Running])
                 (\<lambda>w. w\<lparr>w_state := Broken, w_result := None, w_failure_code := Some code, w_completed_at := Some now\<rparr>) s
               else Inr s) (\<lambda>s.
        Inr (e_requested e, s))))"

definition fail_artifact :: "job \<Rightarrow> string \<Rightarrow> tables \<Rightarrow> (job_error, tables) result" where
  "fail_artifact job code s =
     (case c_upload job of
        None \<Rightarrow> Inl db_unavailable
      | Some upload \<Rightarrow>
        let of_job = (\<lambda>x. s_id x = upload \<and> s_org x = c_org job \<and> s_project x = c_project job);
            session = (\<lambda>x. of_job x \<and> s_state x = ''processing'');
            manifest = (\<lambda>m. list_ex (\<lambda>x. of_job x \<and> m_id m = s_manifest x \<and> m_org m = s_org x
               \<and> m_project m = s_project x) (sessions s) \<and> m_state m = ''processing'')
        in if affected session (sessions s) \<noteq> 1 \<or> affected manifest (manifests s) \<noteq> 1 then Inl LostLease
           else Inr (s\<lparr>sessions := update_where session (\<lambda>x. x\<lparr>s_state := ''failed'', s_failure_code := Some code\<rparr>) (sessions s),
             manifests := update_where manifest
               (\<lambda>m. m\<lparr>m_state := ''quarantined'', m_failure_code := Some code, m_debug_image := None\<rparr>) (manifests s)\<rparr>))"

definition fail_cache :: "job \<Rightarrow> string \<Rightarrow> bool \<Rightarrow> tables \<Rightarrow> (job_error, tables) result" where
  "fail_cache job code quarantine s =
     (case c_cache job of
        None \<Rightarrow> Inl db_unavailable
      | Some cache \<Rightarrow>
        let p = (\<lambda>d. d_id d = cache \<and> d_org d = c_org job \<and> d_project d = c_project job
                   \<and> d_state d \<in> {''pending'', ''processing''})
        in if affected p (caches s) \<noteq> 1 then Inl LostLease
           else Inr (s\<lparr>caches := update_where p (\<lambda>d. d\<lparr>d_state := (if quarantine then ''quarantined'' else ''failed''),
             d_failure_code := Some code, d_checksum := None, d_byte_size := None\<rparr>) (caches s)\<rparr>))"

text \<open>Whether a newer generation was requested meanwhile, after the target of the job is marked.\<close>

definition fail_target :: "micros \<Rightarrow> job \<Rightarrow> string \<Rightarrow> bool \<Rightarrow> tables \<Rightarrow> (job_error, bool \<times> tables) result" where
  "fail_target now job code quarantine s =
     (if c_kind job = ''process_crash'' then
        bindR (fail_event now job code quarantine s) (\<lambda>(requested, s). Inr (requested > c_target_generation job, s))
      else if c_kind job = ''index_artifact'' then bindR (fail_artifact job code s) (\<lambda>s. Inr (False, s))
      else if c_kind job = ''generate_symcache'' then bindR (fail_cache job code quarantine s) (\<lambda>s. Inr (False, s))
      else if c_kind job = ''delete_raw'' then Inr (False, s)
      else Inl (Deterministic ''unknown_job_type''))"

definition finish_failure ::
  "micros \<Rightarrow> uuid \<Rightarrow> job \<Rightarrow> string \<Rightarrow> bool \<Rightarrow> bool \<Rightarrow> tables \<Rightarrow> (job_error, tables) result" where
  "finish_failure now worker job code quarantine resource_failure s =
     bindR (lock_lease now worker job s) (\<lambda>s.
     bindR (fail_target now job code quarantine s) (\<lambda>(requeue_newer_generation, s).
     if requeue_newer_generation then requeue_job_for_new_generation now worker job s
     else terminal_job now worker job (if quarantine then Failed else Dead) code resource_failure s))"

definition quarantine :: "micros \<Rightarrow> uuid \<Rightarrow> job \<Rightarrow> string \<Rightarrow> tables \<Rightarrow> (job_error, tables) result" where
  "quarantine now worker job code = finish_failure now worker job code True False"

definition quarantine_resource :: "micros \<Rightarrow> uuid \<Rightarrow> job \<Rightarrow> string \<Rightarrow> tables \<Rightarrow> (job_error, tables) result" where
  "quarantine_resource now worker job code = finish_failure now worker job code True True"

definition fail :: "micros \<Rightarrow> uuid \<Rightarrow> job \<Rightarrow> string \<Rightarrow> tables \<Rightarrow> (job_error, tables) result" where
  "fail now worker job code = finish_failure now worker job code False False"

subsection \<open>Runs\<close>

text \<open>The first decision of \<^verbatim>\<open>run_job\<close>: an attempt beyond the limit is run only after one resource failure.\<close>

definition attempt_allowed :: "job \<Rightarrow> bool" where
  "attempt_allowed job \<longleftrightarrow> c_attempt job \<le> c_max_attempt job
     \<or> (c_resource_failures job = 1 \<and> c_attempt job = min (2 ^ 31 - 1) (c_max_attempt job + 1))"

definition known_kinds :: "string list" where
  "known_kinds = [''index_artifact'', ''generate_symcache'', ''process_crash'', ''delete_raw'']"

text \<open>What \<^verbatim>\<open>run_job\<close> passes on, when the operation of the job's kind returns \<open>outcome\<close>.\<close>

definition run_result :: "job \<Rightarrow> (job_error, unit) result \<Rightarrow> (job_error, unit) result" where
  "run_result job outcome =
     (if \<not> attempt_allowed job then Inl (Transient ''retry_exhausted'')
      else if c_kind job \<in> set known_kinds then outcome
      else Inl (Deterministic ''unknown_job_type''))"

definition apply_tables :: "(tables \<Rightarrow> (job_error, tables) result) \<Rightarrow> tables \<Rightarrow> tables" where
  "apply_tables body s = snd (commit (unit_body body) s)"

text \<open>The outcomes of the transactions are ignored: the job is then claimed again when its lease expires.\<close>

definition finish_result :: "micros \<Rightarrow> uuid \<Rightarrow> job \<Rightarrow> (job_error, unit) result \<Rightarrow> tables \<Rightarrow> tables" where
  "finish_result now worker job result =
     (case result of
        Inr _ \<Rightarrow> id
      | Inl LostLease \<Rightarrow> id
      | Inl Dependency \<Rightarrow> apply_tables (wait_for_dependency now worker job)
      | Inl (Deterministic code) \<Rightarrow> apply_tables (quarantine now worker job code)
      | Inl (Resource code) \<Rightarrow>
          if c_resource_failures job = 0 then apply_tables (retry now worker job code True)
          else apply_tables (quarantine_resource now worker job code)
      | Inl (Transient code) \<Rightarrow>
          if c_attempt job < c_max_attempt job then apply_tables (retry now worker job code False)
          else apply_tables (fail now worker job code))"

subsection \<open>Publications\<close>

definition publish_event_row :: "job \<Rightarrow> uuid \<Rightarrow> string \<Rightarrow> string \<Rightarrow> event_row \<Rightarrow> event_row" where
  "publish_event_row job result state reason e =
     e\<lparr>e_current_result := Some result, e_processing_state := state,
       e_state_reason := (if state = ''processed'' then None else Some reason), e_retryable := False, e_retry_at := None,
       e_completed := max (e_completed e) (c_target_generation job)\<rparr>"

text \<open>The end of the transaction of \<^verbatim>\<open>publish_crash_result\<close>, from the statement that makes the stored result the
  current one. What the transaction does to search, facets, waiters, releases and issues is not modelled;
  the requests and the \<^verbatim>\<open>delete_raw\<close> job that it may insert are steps of their own in \<open>Queue_System\<close>.\<close>

definition settle_publication ::
  "micros \<Rightarrow> uuid \<Rightarrow> job \<Rightarrow> uuid \<Rightarrow> uuid \<Rightarrow> string \<Rightarrow> string \<Rightarrow> tables \<Rightarrow> (job_error, tables) result" where
  "settle_publication now worker job event result state reason s =
     bindR (ok_or (find (event_matches job event) (events s)) LostLease) (\<lambda>e.
     let s = s\<lparr>events := update_where (event_matches job event) (publish_event_row job result state reason) (events s)\<rparr> in
     bindR (complete_reprocessing_request_events now job event result s) (\<lambda>s.
     if e_requested e > c_target_generation job then requeue_job_for_new_generation now worker job s
     else complete_job now worker job None s))"

definition publish_settled ::
  "micros \<Rightarrow> uuid \<Rightarrow> job \<Rightarrow> uuid \<Rightarrow> uuid \<Rightarrow> string \<Rightarrow> string \<Rightarrow> tables \<Rightarrow> (job_error, tables) result" where
  "publish_settled now worker job event result state reason s =
     bindR (lock_lease now worker job s) (settle_publication now worker job event result state reason)"

text \<open>The frame of the other publications: the lease is locked, and the job completed at the end.\<close>

definition publish_completed :: "micros \<Rightarrow> uuid \<Rightarrow> job \<Rightarrow> string option \<Rightarrow> tables \<Rightarrow> (job_error, tables) result" where
  "publish_completed now worker job code s = bindR (lock_lease now worker job s) (complete_job now worker job code)"

end
