(* ===== verification/Reprocessing.thy ===== *)
theory Reprocessing
  imports Job_Lifecycle
begin

section \<open>Reprocessing requests (apps/server/src/worker.rs)\<close>

text \<open>
  A request selects events page by page; each selected event gets a row with the generation that will serve
  it, and its job is made pending again. The selection itself, two queries over events, results and symbol
  waiters, is an argument: the identifiers of the events of the page.
\<close>

definition automatic_reprocessing_batch :: nat where "automatic_reprocessing_batch = 100"

subsection \<open>Claims of requests\<close>

text \<open>\<^verbatim>\<open>struct ReprocessingRequest\<close>, without the columns that only the selection reads.\<close>

record reprocessing_request =
  q_id :: uuid
  q_org :: uuid
  q_project :: uuid
  q_source :: string
  q_request_limit :: "int option"
  q_attempt :: int
  q_max_attempt :: int
  q_lease_token :: uuid
  q_exhausted :: bool

definition request_expired :: "micros \<Rightarrow> request_row \<Rightarrow> bool" where
  "request_expired now r \<longleftrightarrow> r_state r = Scheduling \<and> is_some_and (r_lease_expires_at r) (\<lambda>t. t \<le> now)"

definition request_claimable :: "micros \<Rightarrow> request_row \<Rightarrow> bool" where
  "request_claimable now r \<longleftrightarrow>
     (r_state r = Awaiting \<and> r_available_at r \<le> now \<and> r_attempt r < r_max_attempt r) \<or> request_expired now r"

definition request_order :: "request_row \<Rightarrow> nat \<times> micros \<times> micros" where
  "request_order r = (if r_source r = ''automatic'' then 0 else 1, r_available_at r, r_created_at r)"

definition request_exhausted :: "request_row \<Rightarrow> bool" where
  "request_exhausted r \<longleftrightarrow> r_state r = Scheduling \<and> r_attempt r \<ge> r_max_attempt r"

definition schedule_to :: "micros \<Rightarrow> uuid \<Rightarrow> uuid \<Rightarrow> bool \<Rightarrow> request_row \<Rightarrow> request_row" where
  "schedule_to now worker token exhausted r =
     r\<lparr>r_state := Scheduling, r_attempt := r_attempt r + (if exhausted then 0 else 1), r_lease_owner := Some worker,
       r_lease_token := Some token,
       r_lease_expires_at := Some (now + seconds reprocessing_request_lease_seconds), r_completed_at := None\<rparr>"

definition claim_reprocessing_request ::
  "micros \<Rightarrow> uuid \<Rightarrow> uuid \<Rightarrow> (uuid \<times> uuid) list \<Rightarrow> uuid list \<Rightarrow> (uuid \<Rightarrow> int option) \<Rightarrow> tables
     \<Rightarrow> reprocessing_request option \<times> tables" where
  "claim_reprocessing_request now worker token locked_projects locked limit_of s =
     (case sort_key request_order (filter (\<lambda>r. request_claimable now r
         \<and> (r_project r, r_org r) \<in> set (projects s) \<and> (r_project r, r_org r) \<notin> set locked_projects
         \<and> r_id r \<notin> set locked) (requests s)) of
        [] \<Rightarrow> (None, s)
      | r # _ \<Rightarrow>
          let r' = schedule_to now worker token (request_exhausted r) r in
          (Some \<lparr>q_id = r_id r, q_org = r_org r, q_project = r_project r, q_source = r_source r,
             q_request_limit = limit_of (r_id r), q_attempt = r_attempt r', q_max_attempt = r_max_attempt r,
             q_lease_token = token, q_exhausted = request_exhausted r\<rparr>,
           s\<lparr>requests := update_where (\<lambda>x. r_id x = r_id r) (schedule_to now worker token (request_exhausted r)) (requests s)\<rparr>))"

definition request_held :: "uuid \<Rightarrow> reprocessing_request \<Rightarrow> request_row \<Rightarrow> bool" where
  "request_held worker q r \<longleftrightarrow> r_id r = q_id q \<and> r_org r = q_org q \<and> r_project r = q_project q
     \<and> r_lease_owner r = Some worker \<and> r_lease_token r = Some (q_lease_token q)"

definition lock_reprocessing_request ::
  "micros \<Rightarrow> uuid \<Rightarrow> reprocessing_request \<Rightarrow> tables \<Rightarrow> (job_error, unit) result" where
  "lock_reprocessing_request now worker q s =
     (if list_ex (\<lambda>r. request_held worker q r \<and> r_state r = Scheduling
         \<and> is_some_and (r_lease_expires_at r) (\<lambda>t. t > now)) (requests s)
      then Inr () else Inl LostLease)"

subsection \<open>Scheduling a page\<close>

definition job_of_event :: "uuid \<Rightarrow> uuid \<Rightarrow> uuid \<Rightarrow> job_row \<Rightarrow> bool" where
  "job_of_event org project event r \<longleftrightarrow> j_org r = org \<and> j_project r = project \<and> j_event r = Some event
     \<and> j_type r = ''process_crash''"

text \<open>The generation that serves a new request: one that no running attempt has begun.\<close>

definition running_generation :: "tables \<Rightarrow> event_row \<Rightarrow> int" where
  "running_generation s e =
     Max (set (0 # map w_generation (filter (\<lambda>w. w_org w = e_org e \<and> w_project w = e_project e
        \<and> w_event w = e_id e \<and> w_state w = Running) (works s))))"

definition next_generation :: "tables \<Rightarrow> event_row \<Rightarrow> job_row \<Rightarrow> int" where
  "next_generation s e r =
     (if j_state r = Leased then
        (if e_requested e \<le> running_generation s e then e_requested e + 1 else e_requested e)
      else if e_requested e > e_completed e then e_requested e
      else e_requested e + 1)"

definition reactivate :: "micros \<Rightarrow> job_row \<Rightarrow> job_row" where
  "reactivate now r =
     (if j_state r = Leased then r
      else unlease (r\<lparr>j_state := Pending,
        j_priority := (if j_state r \<in> {Completed, Failed, Dead} then 200 else j_priority r), j_attempt := 0,
        j_resource_failures := 0, j_available_at := now, j_failure_code := None, j_completed_at := None\<rparr>))"

definition eligible :: "reprocessing_request \<Rightarrow> uuid list \<Rightarrow> tables \<Rightarrow> (event_row \<times> job_row) list" where
  "eligible q event_ids s =
     concat (map (\<lambda>e. map (Pair e) (filter (job_of_event (e_org e) (e_project e) (e_id e)) (jobs s)))
       (filter (\<lambda>e. e_org e = q_org q \<and> e_project e = q_project q \<and> e_id e \<in> set event_ids
          \<and> \<not> list_ex (\<lambda>w. w_request w = q_id q \<and> w_event w = e_id e) (works s)) (events s)))"

definition new_work :: "reprocessing_request \<Rightarrow> event_row \<Rightarrow> int \<Rightarrow> work_row" where
  "new_work q e generation =
     \<lparr>w_org = q_org q, w_project = q_project q, w_request = q_id q, w_event = e_id e, w_generation = generation,
      w_previous_result = e_current_result e, w_result = None, w_state = Queued, w_failure_code = None,
      w_started_at = None, w_completed_at = None\<rparr>"

definition schedule_reprocessing_events ::
  "micros \<Rightarrow> reprocessing_request \<Rightarrow> uuid list \<Rightarrow> tables \<Rightarrow> (job_error, tables) result" where
  "schedule_reprocessing_events now q event_ids s =
     bindR (require (sum_list (map (\<lambda>event. affected (job_of_event (q_org q) (q_project q) event) (jobs s)) event_ids)
         = length event_ids) (Deterministic ''event_job_missing'')) (\<lambda>_.
     let chosen = eligible q event_ids s;
         generation = (\<lambda>e. map_of (map (\<lambda>(e, r). (e_id e, next_generation s e r)) chosen) (e_id e));
         selected = (\<lambda>e. e_org e = q_org q \<and> e_project e = q_project q \<and> generation e \<noteq> None);
         advanced = update_where selected (\<lambda>e. e\<lparr>e_requested := the (generation e)\<rparr>) (events s);
         inserted = map (\<lambda>(e, r). new_work q e (next_generation s e r)) chosen;
         reactivated = (\<lambda>r. list_ex (\<lambda>w. job_of_event (q_org q) (q_project q) (w_event w) r) inserted)
     in bindR (require (length inserted = affected reactivated (jobs s)) (Deterministic ''event_job_missing'')) (\<lambda>_.
        Inr (s\<lparr>events := advanced, works := works s @ inserted,
          jobs := update_where reactivated (reactivate now) (jobs s)\<rparr>)))"

definition update_request ::
  "(request_row \<Rightarrow> bool) \<Rightarrow> (request_row \<Rightarrow> request_row) \<Rightarrow> tables \<Rightarrow> (job_error, tables) result" where
  "update_request p f s =
     (if affected p (requests s) = 1 then Inr (s\<lparr>requests := update_where p f (requests s)\<rparr>) else Inl LostLease)"

definition unlease_request :: "request_row \<Rightarrow> request_row" where
  "unlease_request r = r\<lparr>r_lease_owner := None, r_lease_token := None, r_lease_expires_at := None\<rparr>"

definition release_reprocessing_request_page ::
  "micros \<Rightarrow> uuid \<Rightarrow> reprocessing_request \<Rightarrow> uuid option \<Rightarrow> tables \<Rightarrow> (job_error, tables) result" where
  "release_reprocessing_request_page now worker q cursor =
     update_request (\<lambda>r. request_held worker q r \<and> r_state r = Scheduling)
       (\<lambda>r. unlease_request (r\<lparr>r_state := Awaiting, r_selection_cursor := cursor, r_attempt := 0, r_available_at := now,
          r_failure_code := None\<rparr>))"

definition complete_reprocessing_selection ::
  "uuid \<Rightarrow> reprocessing_request \<Rightarrow> bool \<Rightarrow> uuid option \<Rightarrow> tables \<Rightarrow> (job_error, tables) result" where
  "complete_reprocessing_selection worker q truncated next_cursor =
     update_request (\<lambda>r. request_held worker q r \<and> r_state r = Scheduling)
       (\<lambda>r. unlease_request (r\<lparr>r_state := Processing, r_selection_complete := True,
          r_selection_truncated := truncated, r_next_cursor := next_cursor, r_failure_code := None\<rparr>))"

text \<open>\<open>page\<close> are the events that the selection found, one more than the limit when there are more.\<close>

definition expand_reprocessing_request ::
  "micros \<Rightarrow> uuid \<Rightarrow> reprocessing_request \<Rightarrow> uuid list \<Rightarrow> tables \<Rightarrow> (job_error, tables) result" where
  "expand_reprocessing_request now worker q page s =
     bindR (lock_reprocessing_request now worker q s) (\<lambda>_.
     bindR (if q_source q = ''automatic'' then Inr automatic_reprocessing_batch
            else bindR (ok_or (q_request_limit q) (Deterministic ''reprocessing_request_invalid'')) (\<lambda>n.
              if n < 0 then Inl (Deterministic ''reprocessing_request_invalid'') else Inr (nat n))) (\<lambda>limit.
     let truncated = length page > limit;
         event_ids = take limit page;
         cursor = (if event_ids = [] then None else Some (last event_ids))
     in bindR (schedule_reprocessing_events now q event_ids s) (\<lambda>s.
        bindR (if q_source q = ''automatic'' \<and> truncated
               then release_reprocessing_request_page now worker q cursor s
               else complete_reprocessing_selection worker q truncated (if truncated then cursor else None) s) (\<lambda>s.
        refresh_reprocessing_request now (q_id q) s))))"

definition schedule_exponent :: "int \<Rightarrow> nat" where
  "schedule_exponent attempt = (let n = max (- (2 ^ 31)) (attempt - 1) in min (if n < 0 then 6 else nat n) 6)"

definition finish_reprocessing_schedule_failure ::
  "micros \<Rightarrow> uuid \<Rightarrow> reprocessing_request \<Rightarrow> string \<Rightarrow> tables \<Rightarrow> (job_error, tables) result" where
  "finish_reprocessing_schedule_failure now worker q code s =
     bindR (lock_reprocessing_request now worker q s) (\<lambda>_.
     if q_attempt q < q_max_attempt q
     then Inr (s\<lparr>requests := update_where (request_held worker q)
       (\<lambda>r. unlease_request (r\<lparr>r_state := Awaiting,
          r_available_at := now + seconds (min (2 ^ schedule_exponent (q_attempt q)) 60), r_failure_code := Some code\<rparr>))
       (requests s)\<rparr>)
     else refresh_reprocessing_request now (q_id q) (s\<lparr>requests := update_where (request_held worker q)
       (\<lambda>r. unlease_request (r\<lparr>r_state := Refused, r_selection_complete := True, r_failure_code := Some code,
          r_completed_at := Some now\<rparr>)) (requests s)\<rparr>))"

definition schedule_reprocessing_request ::
  "micros \<Rightarrow> uuid \<Rightarrow> reprocessing_request \<Rightarrow> uuid list \<Rightarrow> tables \<Rightarrow> tables" where
  "schedule_reprocessing_request now worker q page s =
     (let failed = apply_tables (finish_reprocessing_schedule_failure now worker q ''reprocessing_schedule_failed'') in
      if q_exhausted q then failed s
      else case commit (unit_body (expand_reprocessing_request now worker q page)) s of
        (Inl _, s) \<Rightarrow> failed s
      | (Inr _, s) \<Rightarrow> s)"

subsection \<open>Reconciliation\<close>

text \<open>The rows of requests whose job has ended without serving them. \<open>skipped\<close> tells the rows that other
  transactions have locked; the first hundred of the others are queued again.\<close>

definition unserved :: "tables \<Rightarrow> work_row \<Rightarrow> bool" where
  "unserved s w \<longleftrightarrow> w_state w \<in> {Queued, Running}
     \<and> list_ex (\<lambda>r. r_id r = w_request w \<and> r_org r = w_org w \<and> r_project r = w_project w
          \<and> r_state r \<in> {Processing, Partial, Refused}) (requests s)
     \<and> list_ex (\<lambda>e. e_id e = w_event w \<and> e_org e = w_org w \<and> e_project e = w_project w
          \<and> e_completed e < w_generation w) (events s)
     \<and> list_ex (\<lambda>j. job_of_event (w_org w) (w_project w) (w_event w) j \<and> j_state j \<in> {Completed, Failed, Dead}) (jobs s)"

definition reconciliation_batch :: nat where "reconciliation_batch = 100"

definition reconcile_reprocessing_event_jobs ::
  "micros \<Rightarrow> (work_row \<Rightarrow> bool) \<Rightarrow> tables \<Rightarrow> (job_error, bool \<times> tables) result" where
  "reconcile_reprocessing_event_jobs now skipped s =
     (let candidates = take reconciliation_batch (filter (\<lambda>w. unserved s w \<and> \<not> skipped w) (works s));
          chosen = (\<lambda>w. w \<in> set candidates);
          stale = (\<lambda>j. list_ex (\<lambda>w. j_event j = Some (w_event w)) candidates \<and> j_type j = ''process_crash''
             \<and> j_state j \<in> {Completed, Failed, Dead})
      in bindR (fold_result (refresh_reprocessing_request now) (dedup (sort (map w_request candidates)))
           (s\<lparr>works := update_where chosen (\<lambda>w. w\<lparr>w_state := Queued\<rparr>) (works s),
             jobs := update_where stale (fresh_pending now) (jobs s)\<rparr>)) (\<lambda>s'.
         Inr (affected stale (jobs s) > 0, s')))"

end
