(* ===== verification/Queue_System.thy ===== *)
theory Queue_System
  imports Reprocessing
begin

section \<open>The queue as a transition system\<close>

text \<open>
  Any number of workers run the transactions of the previous theories in any order; each takes effect at once,
  as the row locks of the database make it. The state has the tables, the clock, and as a ghost every claim
  that was ever made, newest first. A claim stays in it when it has lost its lease, so a worker may at any
  later time try to renew, publish or end it. The token of a claim is one that no claim had before
  (\<^verbatim>\<open>random_uuid\<close>).
\<close>

record queue =
  tb :: tables
  clock :: micros
  claims :: "(uuid \<times> job) list"

datatype action = Tick | Claim job | Beat job | Finish job job_error | Publish job | Cancel job
  | Ingest | Enqueue | Request | Schedule "uuid list" | Reconcile

definition terminal :: "job_state \<Rightarrow> bool" where
  "terminal st \<longleftrightarrow> st \<in> {Completed, Failed, Dead}"

text \<open>Two checks of the table \<^verbatim>\<open>jobs\<close>: \<^verbatim>\<open>failure_code IS NULL OR failure_code ~ '^[a-z0-9][a-z0-9_]{0,63}$'\<close>, and
  that a job has the target of its type and no other.\<close>

definition code_char :: "char \<Rightarrow> bool" where
  "code_char c \<longleftrightarrow> c \<in> set ''abcdefghijklmnopqrstuvwxyz0123456789''"

definition jobs_failure_code_check :: "string option \<Rightarrow> bool" where
  "jobs_failure_code_check code \<longleftrightarrow>
     (case code of
        None \<Rightarrow> True
      | Some [] \<Rightarrow> False
      | Some (c # cs) \<Rightarrow> code_char c \<and> length cs \<le> 63 \<and> list_all (\<lambda>d. code_char d \<or> d = CHR ''_'') cs)"

definition jobs_target_check :: "job_row \<Rightarrow> bool" where
  "jobs_target_check r \<longleftrightarrow>
     (j_type r \<in> {''process_crash'', ''delete_raw''} \<and> j_event r \<noteq> None \<and> j_upload r = None \<and> j_cache r = None)
     \<or> (j_type r = ''index_artifact'' \<and> j_event r = None \<and> j_upload r \<noteq> None \<and> j_cache r = None)
     \<or> (j_type r = ''generate_symcache'' \<and> j_event r = None \<and> j_upload r = None \<and> j_cache r \<noteq> None)"

text \<open>Every code of a \<^verbatim>\<open>JobError\<close> is a literal of the source that passes the first check.\<close>

definition error_code_ok :: "job_error \<Rightarrow> bool" where
  "error_code_ok e \<longleftrightarrow>
     (case e of Deterministic code \<Rightarrow> jobs_failure_code_check (Some code) | Resource code \<Rightarrow> jobs_failure_code_check (Some code)
      | Transient code \<Rightarrow> jobs_failure_code_check (Some code) | _ \<Rightarrow> True)"

text \<open>A row as the inserts of jobs leave it: the columns they do not name have their defaults.\<close>

definition new_job :: "job_row \<Rightarrow> bool" where
  "new_job r \<longleftrightarrow> j_state r = Pending \<and> j_attempt r = 0 \<and> j_resource_failures r = 0 \<and> j_max_attempt r = 5
     \<and> j_type r \<in> set known_kinds \<and> j_lease_owner r = None \<and> j_lease_token r = None
     \<and> j_lease_expires_at r = None \<and> j_heartbeat_at r = None \<and> j_completed_at r = None \<and> j_failure_code r = None
     \<and> jobs_target_check r"

text \<open>The columns of the tables that the other subsystems may change: uploads, manifests and caches.\<close>

definition elsewhere :: "tables \<Rightarrow> tables \<Rightarrow> bool" where
  "elsewhere s s' \<longleftrightarrow> projects s' = projects s \<and> jobs s' = jobs s \<and> events s' = events s \<and> works s' = works s
     \<and> requests s' = requests s"

inductive step :: "action \<Rightarrow> queue \<Rightarrow> queue \<Rightarrow> bool" where
  tick: "clock q \<le> t \<Longrightarrow> elsewhere (tb q) s \<Longrightarrow> step Tick q (q\<lparr>clock := t, tb := s\<rparr>)"
| claim: "claim_job_with_project_limit (clock q) worker limit token locked_projects locked_jobs (tb q) = (Inr (Some job), s)
    \<Longrightarrow> token \<notin> c_lease_token ` snd ` set (claims q)
    \<Longrightarrow> step (Claim job) q (q\<lparr>tb := s, claims := (worker, job) # claims q\<rparr>)"
| beat: "(worker, job) \<in> set (claims q)
    \<Longrightarrow> step (Beat job) q (q\<lparr>tb := snd (heartbeat (clock q) worker job (tb q))\<rparr>)"
| finish: "(worker, job) \<in> set (claims q) \<Longrightarrow> run_result job outcome = Inl e \<Longrightarrow> error_code_ok e
    \<Longrightarrow> step (Finish job e) q (q\<lparr>tb := finish_result (clock q) worker job (Inl e) (tb q)\<rparr>)"
| publish_crash: "(worker, job) \<in> set (claims q) \<Longrightarrow> attempt_allowed job \<Longrightarrow> c_kind job = ''process_crash''
    \<Longrightarrow> c_event job = Some event
    \<Longrightarrow> step (Publish job) q
          (q\<lparr>tb := apply_tables (publish_settled (clock q) worker job event result state reason) (tb q)\<rparr>)"
| publish_other: "(worker, job) \<in> set (claims q) \<Longrightarrow> attempt_allowed job \<Longrightarrow> c_kind job \<noteq> ''process_crash''
    \<Longrightarrow> jobs_failure_code_check code
    \<Longrightarrow> step (Publish job) q (q\<lparr>tb := apply_tables (publish_completed (clock q) worker job code) (tb q)\<rparr>)"
| cancel: "(worker, job) \<in> set (claims q)
    \<Longrightarrow> step (Cancel job) q (q\<lparr>tb := apply_tables (cancel_job (clock q) worker job) (tb q)\<rparr>)"
| ingest: "new_job r \<Longrightarrow> j_id r \<notin> j_id ` set (jobs (tb q)) \<Longrightarrow> j_type r = ''process_crash'' \<Longrightarrow> j_event r = Some (e_id e)
    \<Longrightarrow> j_org r = e_org e \<Longrightarrow> j_project r = e_project e \<Longrightarrow> e_id e \<notin> e_id ` set (events (tb q))
    \<Longrightarrow> Some (e_id e) \<notin> j_event ` set (jobs (tb q))
    \<Longrightarrow> e_requested e = 0 \<Longrightarrow> e_completed e = 0
    \<Longrightarrow> step Ingest q (q\<lparr>tb := (tb q)\<lparr>events := e # events (tb q), jobs := r # jobs (tb q)\<rparr>\<rparr>)"
| enqueue: "new_job r \<Longrightarrow> j_id r \<notin> j_id ` set (jobs (tb q)) \<Longrightarrow> j_type r \<noteq> ''process_crash''
    \<Longrightarrow> (\<And>event. j_event r = Some event \<Longrightarrow> event \<in> e_id ` set (events (tb q)))
    \<Longrightarrow> step Enqueue q (q\<lparr>tb := (tb q)\<lparr>jobs := r # jobs (tb q)\<rparr>\<rparr>)"
| request: "step Request q (q\<lparr>tb := (tb q)\<lparr>requests := rows\<rparr>\<rparr>)"
| schedule: "step (Schedule page) q
    (q\<lparr>tb := apply_tables (expand_reprocessing_request (clock q) worker request page) (tb q)\<rparr>)"
| reconcile: "step Reconcile q
    (q\<lparr>tb := snd (commit (reconcile_reprocessing_event_jobs (clock q) skipped) (tb q))\<rparr>)"

definition empty_tables :: "(uuid \<times> uuid) list \<Rightarrow> tables" where
  "empty_tables ps = \<lparr>projects = ps, jobs = [], events = [], works = [], requests = [], sessions = [], manifests = [],
     caches = []\<rparr>"

text \<open>The states that the actions of a kind reach from an empty queue.\<close>

inductive reachable_by :: "(action \<Rightarrow> bool) \<Rightarrow> queue \<Rightarrow> bool" for allowed :: "action \<Rightarrow> bool" where
  initial: "reachable_by allowed \<lparr>tb = empty_tables ps, clock = t, claims = []\<rparr>"
| next_step: "reachable_by allowed q \<Longrightarrow> step a q q' \<Longrightarrow> allowed a \<Longrightarrow> reachable_by allowed q'"

abbreviation reachable :: "queue \<Rightarrow> bool" where
  "reachable \<equiv> reachable_by (\<lambda>_. True)"

subsection \<open>What the transactions change\<close>

named_theorems queue_simps \<open>the effect of the statements on rows\<close>

lemma update_where_simps [queue_simps]:
  "set (update_where p f rows) = (\<lambda>r. if p r then f r else r) ` set rows"
  "length (update_where p f rows) = length rows"
  by (simp_all add: update_where_def)

lemma affected_0: "affected p rows = 0 \<longleftrightarrow> (\<forall>r \<in> set rows. \<not> p r)"
  by (auto simp: affected_def filter_empty_conv)

lemma update_none: "affected p rows = 0 \<Longrightarrow> update_where p f rows = rows"
  unfolding affected_0 update_where_def by (simp add: map_idI)

lemma unlease_simps [queue_simps]:
  "j_id (unlease r) = j_id r" "j_org (unlease r) = j_org r" "j_project (unlease r) = j_project r"
  "j_event (unlease r) = j_event r" "j_type (unlease r) = j_type r" "j_state (unlease r) = j_state r"
  "j_attempt (unlease r) = j_attempt r" "j_max_attempt (unlease r) = j_max_attempt r"
  "j_resource_failures (unlease r) = j_resource_failures r" "j_available_at (unlease r) = j_available_at r"
  "j_lease_owner (unlease r) = None" "j_lease_token (unlease r) = None" "j_lease_expires_at (unlease r) = None"
  "j_heartbeat_at (unlease r) = None" "j_completed_at (unlease r) = j_completed_at r"
  "j_failure_code (unlease r) = j_failure_code r" "j_priority (unlease r) = j_priority r"
  "j_created_at (unlease r) = j_created_at r" "j_upload (unlease r) = j_upload r" "j_cache (unlease r) = j_cache r"
  by (simp_all add: unlease_def)

text \<open>Renewing the lease before the row is changed makes no difference to the rows that an attempt's end writes.\<close>

lemma row_after_renew [queue_simps]:
  "complete_row now c (renew t r) = complete_row now c r"
  "fresh_pending now (renew t r) = fresh_pending now r"
  "terminal_row now st code b (renew t r) = terminal_row now st code b r"
  by (simp_all add: complete_row_def fresh_pending_def terminal_row_def unlease_def renew_def)

lemma held_by_renew [queue_simps]: "held_by w job (renew t r) = held_by w job r"
  by (simp add: held_by_def renew_def)

lemma update_locked:
  assumes "\<And>r. f (renew t r) = f r"
  shows "update_where (held_by w job) f (update_where (\<lambda>r. held_by w job r \<and> unexpired now r) (renew t) rows)
    = update_where (held_by w job) f rows"
  using assms by (simp add: update_where_def queue_simps)

lemma lock_lease_ok:
  "lock_lease now w job s = Inr s' \<longleftrightarrow> affected (\<lambda>r. held_by w job r \<and> unexpired now r) (jobs s) \<noteq> 0
     \<and> s' = s\<lparr>jobs := update_where (\<lambda>r. held_by w job r \<and> unexpired now r) (renew now) (jobs s)\<rparr>"
  by (auto simp: lock_lease_def Let_def)

lemma update_held_ok:
  "update_held p f s = Inr s' \<longleftrightarrow> affected p (jobs s) = 1 \<and> s' = s\<lparr>jobs := update_where p f (jobs s)\<rparr>"
  by (auto simp: update_held_def)

lemma refresh_tables:
  "refresh_reprocessing_request now request s = Inr s' \<Longrightarrow> \<exists>rows. s' = s\<lparr>requests := rows\<rparr>"
  by (auto simp: refresh_reprocessing_request_def split: if_splits)

lemma refresh_all_tables:
  "fold_result (refresh_reprocessing_request now) ids s = Inr s' \<Longrightarrow> \<exists>rows. s' = s\<lparr>requests := rows\<rparr>"
proof (induction ids arbitrary: s)
  case (Cons i ids)
  then obtain s1 where "refresh_reprocessing_request now i s = Inr s1"
    "fold_result (refresh_reprocessing_request now) ids s1 = Inr s'" by (auto simp: result_simps)
  with Cons.IH refresh_tables obtain rows rows' where "s1 = s\<lparr>requests := rows\<rparr>" "s' = s1\<lparr>requests := rows'\<rparr>" by blast
  then show ?case by auto
qed (auto intro: exI [of _ "requests s'"])

lemma update_works_tables:
  assumes "update_works now p f s = Inr s'"
  shows "\<exists>rows. s' = s\<lparr>works := update_where p f (works s), requests := rows\<rparr>"
  using refresh_all_tables [OF assms [unfolded update_works_def]] by auto

text \<open>Which rows of works are open, and what they are for: renewing, claiming and releasing keep this.\<close>

definition open_work :: "work_row \<Rightarrow> bool" where
  "open_work w \<longleftrightarrow> w_state w \<in> {Queued, Running}"

definition work_view :: "work_row \<Rightarrow> uuid \<times> uuid \<times> uuid \<times> int \<times> bool" where
  "work_view w = (w_org w, w_project w, w_event w, w_generation w, open_work w)"

lemma update_view:
  assumes "\<And>w. p w \<Longrightarrow> work_view (f w) = work_view w"
  shows "map work_view (update_where p f ws) = map work_view ws"
  using assms by (simp add: update_where_def)

lemma work_view_kept:
  "work_of job event [Queued] v \<Longrightarrow> work_view (v\<lparr>w_state := Running, w_started_at := t\<rparr>) = work_view v"
  "work_of job event [Running] v \<Longrightarrow> work_view (v\<lparr>w_state := Queued\<rparr>) = work_view v"
  by (simp_all add: work_view_def open_work_def work_of_def)

lemma mark_running_ok:
  assumes "mark_reprocessing_events_running now job s = Inr s'"
  shows "jobs s' = jobs s \<and> events s' = events s \<and> projects s' = projects s
    \<and> map work_view (works s') = map work_view (works s)"
proof (cases "c_target_generation job = 0 \<or> c_event job = None")
  case True
  then have "s' = s" using assms unfolding mark_reprocessing_events_running_def
    by (cases "c_target_generation job = 0") simp_all
  then show ?thesis by simp
next
  case False
  then obtain event where "c_event job = Some event" "c_target_generation job \<noteq> 0" by auto
  then obtain rows where "s' = s\<lparr>works := update_where (work_of job event [Queued]) (\<lambda>w. w\<lparr>w_state := Running,
      w_started_at := (case w_started_at w of None \<Rightarrow> Some now | Some t \<Rightarrow> Some t)\<rparr>) (works s), requests := rows\<rparr>"
    using assms update_works_tables by (fastforce simp: mark_reprocessing_events_running_def)
  then show ?thesis by (simp add: update_view [OF work_view_kept(1)])
qed

lemma release_job_ok:
  assumes "release_job now w job code delay resource dependency s = Inr s'"
  shows "jobs s' = update_where (held_by w job) (release_row now code delay resource dependency) (jobs s)
    \<and> events s' = events s \<and> projects s' = projects s \<and> map work_view (works s') = map work_view (works s)"
proof -
  let ?s = "s\<lparr>jobs := update_where (held_by w job) (release_row now code delay resource dependency) (jobs s)\<rparr>"
  from assms have body: "(case c_event job of None \<Rightarrow> Inr ?s | Some event \<Rightarrow>
      if c_target_generation job > 0 then update_works now (work_of job event [Running]) (\<lambda>w. w\<lparr>w_state := Queued\<rparr>) ?s
      else Inr ?s) = Inr s'"
    unfolding release_job_def bindR_eq_Inr update_held_ok by blast
  show ?thesis
  proof (cases "c_event job")
    case (Some event)
    show ?thesis
    proof (cases "c_target_generation job > 0")
      case True
      with body Some have "update_works now (work_of job event [Running]) (\<lambda>w. w\<lparr>w_state := Queued\<rparr>) ?s = Inr s'" by simp
      from update_works_tables [OF this] show ?thesis by (auto simp: update_view [OF work_view_kept(2)])
    qed (use body Some in auto)
  qed (use body in auto)
qed

text \<open>What a transaction does that ends an attempt and serves the generation of its job.\<close>

definition serves :: "micros \<Rightarrow> uuid \<Rightarrow> job \<Rightarrow> (job_row \<Rightarrow> job_row) \<Rightarrow> tables \<Rightarrow> tables \<Rightarrow> bool" where
  "serves now w job end_row s s' \<longleftrightarrow> projects s' = projects s \<and> list_ex (held_by w job) (jobs s) \<and>
     (if c_kind job = ''process_crash''
      then \<exists>event e f g. c_event job = Some event \<and> e \<in> set (events s) \<and> event_matches job event e
        \<and> events s' = update_where (event_matches job event) f (events s)
        \<and> (\<forall>e. e_id (f e) = e_id e \<and> e_org (f e) = e_org e \<and> e_project (f e) = e_project e \<and> e_requested (f e) = e_requested e
             \<and> e_completed (f e) = max (e_completed e) (c_target_generation job))
        \<and> (c_target_generation job \<le> 0 \<and> works s' = works s
             \<or> works s' = update_where (work_of job event [Queued, Running]) g (works s))
        \<and> (\<forall>w. \<not> open_work (g w))
        \<and> jobs s' = update_where (held_by w job)
             (if e_requested e > c_target_generation job then fresh_pending now else end_row) (jobs s)
      else events s' = events s \<and> works s' = works s \<and> jobs s' = update_where (held_by w job) end_row (jobs s))"

lemma apply_tables_cases:
  obtains (failed) "apply_tables body s = s" | (committed) s' where "body s = Inr s'" "apply_tables body s = s'"
  by (cases "body s") (auto simp: apply_tables_def commit_def unit_body_def)

lemma find_event:
  assumes "find (event_matches job event) es = Some e"
  shows "e \<in> set es \<and> event_matches job event e"
  using assms by (auto simp: find_Some_iff)

lemma end_held:
  assumes "\<And>r. f (renew t r) = f r"
    and "update_held (held_by w job) f s1 = Inr s'"
    and "jobs s1 = update_where (\<lambda>r. held_by w job r \<and> unexpired now r) (renew t) (jobs s)"
  shows "jobs s' = update_where (held_by w job) f (jobs s) \<and> events s' = events s1 \<and> works s' = works s1 \<and> projects s' = projects s1
    \<and> list_ex (held_by w job) (jobs s)"
proof -
  have "affected (held_by w job) (jobs s1) \<noteq> 0" using assms(2) by (auto simp: update_held_ok)
  then have "list_ex (held_by w job) (jobs s1)" unfolding affected_0 by (auto simp: list_ex_iff)
  then have "list_ex (held_by w job) (jobs s)"
    unfolding assms(3) by (auto simp: list_ex_iff queue_simps split: if_splits)
  then show ?thesis using assms(2,3) update_locked [of f t w job now "jobs s", OF assms(1)] by (auto simp: update_held_ok)
qed

lemma fail_event_ok:
  assumes "fail_event now job code qn s = Inr (n, s')"
  obtains event e f g where "c_event job = Some event" "e \<in> set (events s)" "event_matches job event e" "n = e_requested e"
    "jobs s' = jobs s" "projects s' = projects s"
    "events s' = update_where (event_matches job event) f (events s)"
    "\<forall>e. e_id (f e) = e_id e \<and> e_org (f e) = e_org e \<and> e_project (f e) = e_project e \<and> e_requested (f e) = e_requested e
       \<and> e_completed (f e) = max (e_completed e) (c_target_generation job)"
    "c_target_generation job \<le> 0 \<and> works s' = works s
       \<or> works s' = update_where (work_of job event [Queued, Running]) g (works s)"
    "\<forall>w. \<not> open_work (g w)"
proof -
  obtain event where event: "c_event job = Some event" using assms by (cases "c_event job") (simp_all add: fail_event_def)
  then obtain e where e: "find (event_matches job event) (events s) = Some e"
    using assms by (cases "find (event_matches job event) (events s)") (simp_all add: fail_event_def)
  let ?g = "\<lambda>w. w\<lparr>w_state := Broken, w_result := None, w_failure_code := Some code, w_completed_at := Some now\<rparr>"
  let ?f = "fail_event_row job code qn"
  let ?s = "s\<lparr>events := update_where (event_matches job event) ?f (events s)\<rparr>"
  have body: "n = e_requested e"
    "(if c_target_generation job > 0 then update_works now (work_of job event [Queued, Running]) ?g ?s else Inr ?s) = Inr s'"
    using assms unfolding fail_event_def Let_def event option.case e ok_or_simps bindR_simps bindR_eq_Inr by auto
  have "jobs s' = jobs s \<and> projects s' = projects s \<and> events s' = events ?s \<and> works s' = (if c_target_generation job \<le> 0 then works s
       else update_where (work_of job event [Queued, Running]) ?g (works s))"
  proof (cases "c_target_generation job > 0")
    case True
    with body update_works_tables [of now "work_of job event [Queued, Running]" ?g ?s s'] show ?thesis by auto
  qed (use body(2) in auto)
  then show ?thesis
    using find_event [OF e] body(1) event by (intro that [of event e ?f ?g]) (auto simp: fail_event_row_def open_work_def Let_def)
qed

lemma finish_failure_serves:
  assumes "finish_failure now w job code qn rf s = Inr s'"
  shows "serves now w job (terminal_row now (if qn then Failed else Dead) code rf) s s'"
proof -
  obtain s1 s2 newer where lock: "lock_lease now w job s = Inr s1" and target: "fail_target now job code qn s1 = Inr (newer, s2)"
    and ends: "(if newer then requeue_job_for_new_generation now w job s2
      else terminal_job now w job (if qn then Failed else Dead) code rf s2) = Inr s'"
    using assms by (auto simp: finish_failure_def result_simps)
  have s1: "jobs s1 = update_where (\<lambda>r. held_by w job r \<and> unexpired now r) (renew now) (jobs s)"
    "events s1 = events s" "works s1 = works s" "projects s1 = projects s" using lock by (auto simp: lock_lease_ok)
  have rows: "jobs s' = update_where (held_by w job) (if newer then fresh_pending now
      else terminal_row now (if qn then Failed else Dead) code rf) (jobs s)
      \<and> events s' = events s2 \<and> works s' = works s2 \<and> projects s' = projects s2
      \<and> list_ex (held_by w job) (jobs s)" if "jobs s2 = jobs s1"
  proof (rule end_held [where t = now and now = now])
    show "update_held (held_by w job) (if newer then fresh_pending now
      else terminal_row now (if qn then Failed else Dead) code rf) s2 = Inr s'"
      using ends by (cases newer) (simp_all add: requeue_job_for_new_generation_def terminal_job_def)
  qed (use that s1 in \<open>simp_all add: queue_simps\<close>)
  show ?thesis
  proof (cases "c_kind job = ''process_crash''")
    case True
    then obtain n where n: "fail_event now job code qn s1 = Inr (n, s2)" "newer = (n > c_target_generation job)"
      using target by (auto simp: fail_target_def result_simps)
    from fail_event_ok [OF n(1)] show ?thesis
    proof cases
      case (1 event e f g)
      show ?thesis
        unfolding serves_def if_P [OF True]
        using 1 rows s1 n(2) by (intro conjI exI [of _ event] exI [of _ e] exI [of _ f] exI [of _ g]) simp_all
    qed
  next
    case False
    then have "\<not> newer \<and> jobs s2 = jobs s1 \<and> events s2 = events s1 \<and> works s2 = works s1 \<and> projects s2 = projects s1"
      using target by (auto simp: fail_target_def result_simps fail_artifact_def fail_cache_def Let_def split: if_splits option.splits)
    with rows s1 False show ?thesis by (simp add: serves_def)
  qed
qed

lemma publish_settled_serves:
  assumes "publish_settled now w job event result state reason s = Inr s'" and "c_kind job = ''process_crash''"
    and event: "c_event job = Some event"
  shows "serves now w job (complete_row now None) s s'"
proof -
  let ?f = "publish_event_row job result state reason"
  let ?g = "\<lambda>w. w\<lparr>w_state := Done, w_result := Some result, w_failure_code := None, w_completed_at := Some now\<rparr>"
  obtain s1 where lock: "lock_lease now w job s = Inr s1" and settle: "settle_publication now w job event result state reason s1 = Inr s'"
    using assms(1) by (auto simp: publish_settled_def result_simps)
  have s1: "jobs s1 = update_where (\<lambda>r. held_by w job r \<and> unexpired now r) (renew now) (jobs s)"
    "events s1 = events s" "works s1 = works s" "projects s1 = projects s" using lock by (auto simp: lock_lease_ok)
  let ?s = "s1\<lparr>events := update_where (event_matches job event) ?f (events s1)\<rparr>"
  obtain e s2 where e: "find (event_matches job event) (events s1) = Some e"
    and works: "complete_reprocessing_request_events now job event result ?s = Inr s2"
    and ends: "(if e_requested e > c_target_generation job then requeue_job_for_new_generation now w job s2
      else complete_job now w job None s2) = Inr s'"
    using settle by (auto simp: settle_publication_def result_simps)
  have s2: "jobs s2 = jobs s1 \<and> events s2 = events ?s \<and> projects s2 = projects s1
    \<and> works s2 = (if c_target_generation job = 0 then works s1 else update_where (work_of job event [Queued, Running]) ?g (works s1))"
    using works update_works_tables [of now "work_of job event [Queued, Running]" ?g ?s s2]
    by (auto simp: complete_reprocessing_request_events_def split: if_splits)
  have "jobs s' = update_where (held_by w job) (if e_requested e > c_target_generation job then fresh_pending now
      else complete_row now None) (jobs s) \<and> events s' = events s2 \<and> works s' = works s2 \<and> projects s' = projects s2
      \<and> list_ex (held_by w job) (jobs s)"
  proof (rule end_held [where t = now and now = now])
    show "update_held (held_by w job) (if e_requested e > c_target_generation job then fresh_pending now
      else complete_row now None) s2 = Inr s'"
      using ends by (cases "e_requested e > c_target_generation job")
        (simp_all add: requeue_job_for_new_generation_def complete_job_def)
  qed (use s1 s2 in \<open>simp_all add: queue_simps\<close>)
  then show ?thesis
    unfolding serves_def if_P [OF assms(2)]
    using s1 s2 event find_event [OF e]
    by (intro conjI exI [of _ event] exI [of _ e] exI [of _ ?f] exI [of _ ?g])
      (auto simp: publish_event_row_def open_work_def)
qed

lemma publish_completed_serves:
  assumes "publish_completed now w job code s = Inr s'" and "c_kind job \<noteq> ''process_crash''"
  shows "serves now w job (complete_row now code) s s'"
proof -
  obtain s1 where lock: "lock_lease now w job s = Inr s1" and ends: "update_held (held_by w job) (complete_row now code) s1 = Inr s'"
    using assms(1) by (auto simp: publish_completed_def complete_job_def result_simps)
  have "jobs s' = update_where (held_by w job) (complete_row now code) (jobs s)
    \<and> events s' = events s1 \<and> works s' = works s1 \<and> projects s' = projects s1 \<and> list_ex (held_by w job) (jobs s)"
    by (rule end_held [where t = now and now = now]) (use ends lock in \<open>auto simp: queue_simps lock_lease_ok\<close>)
  with assms(2) lock show ?thesis by (auto simp: serves_def lock_lease_ok)
qed

end
