(* ===== verification/Queue_Invariant.thy ===== *)
theory Queue_Invariant
  imports Queue_System
begin

section \<open>Leases are exclusive and requested work is not lost\<close>

text \<open>
  The invariant of the table of jobs: each row satisfies the checks of the schema, and a leased row is held by
  the newest of the claims that were made for it.
\<close>

subsection \<open>Rows and their claims\<close>

text \<open>The checks of the table \<^verbatim>\<open>jobs\<close> (src/migrations), in the stronger form that the statements keep: lease columns are set
  exactly while the job is leased, a job leaves the pending state only with an attempt, a second resource
  failure ends it, and an ended job that is not completed says why.\<close>

definition row_ok :: "job_row \<Rightarrow> bool" where
  "row_ok r \<longleftrightarrow> 0 \<le> j_attempt r \<and> 1 \<le> j_max_attempt r \<and> j_max_attempt r \<le> 20
     \<and> 0 \<le> j_resource_failures r \<and> j_resource_failures r \<le> (if terminal (j_state r) then 2 else 1)
     \<and> j_type r \<in> set known_kinds \<and> jobs_target_check r \<and> jobs_failure_code_check (j_failure_code r)
     \<and> (j_state r \<in> {Failed, Dead} \<longrightarrow> j_failure_code r \<noteq> None)
     \<and> (terminal (j_state r) \<longleftrightarrow> j_completed_at r \<noteq> None)
     \<and> (j_state r \<noteq> Pending \<longrightarrow> 1 \<le> j_attempt r)
     \<and> (if j_state r = Leased
        then j_lease_owner r \<noteq> None \<and> j_lease_token r \<noteq> None \<and> j_lease_expires_at r \<noteq> None \<and> j_heartbeat_at r \<noteq> None
        else j_lease_owner r = None \<and> j_lease_token r = None \<and> j_lease_expires_at r = None \<and> j_heartbeat_at r = None)"

text \<open>The claim remembers what the row says.\<close>

definition snapshot :: "job \<Rightarrow> job_row \<Rightarrow> bool" where
  "snapshot job r \<longleftrightarrow> c_kind job = j_type r \<and> c_event job = j_event r \<and> c_attempt job = j_attempt r
     \<and> c_max_attempt job = j_max_attempt r \<and> c_resource_failures job = j_resource_failures r"

lemma jobs_target_check_kept:
  "jobs_target_check (renew t r) = jobs_target_check r" "jobs_target_check (complete_row now code r) = jobs_target_check r"
  "jobs_target_check (fresh_pending now r) = jobs_target_check r"
  "jobs_target_check (terminal_row now st code' b r) = jobs_target_check r"
  "jobs_target_check (release_row now code' delay resource dependency r) = jobs_target_check r"
  "jobs_target_check (lease_to now w token r) = jobs_target_check r" "jobs_target_check (reactivate now r) = jobs_target_check r"
  by (simp_all add: jobs_target_check_def renew_def complete_row_def fresh_pending_def terminal_row_def release_row_def
      lease_to_def reactivate_def queue_simps)

lemma no_failure_code: "jobs_failure_code_check None"
  by (simp add: jobs_failure_code_check_def)

lemma literal_codes:
  "jobs_failure_code_check (Some ''dependency_pending'')" "jobs_failure_code_check (Some ''processing_cancelled'')"
  by (simp_all add: jobs_failure_code_check_def code_char_def)

definition newest_claim :: "(uuid \<times> job) list \<Rightarrow> uuid \<Rightarrow> (uuid \<times> job) option" where
  "newest_claim cs i = find (\<lambda>(w, job). c_id job = i) cs"

definition held_by_newest :: "(uuid \<times> job) list \<Rightarrow> job_row \<Rightarrow> bool" where
  "held_by_newest cs r = is_some_and (newest_claim cs (j_id r)) (\<lambda>(w, job). held_by w job r \<and> snapshot job r)"

definition leases_ok :: "queue \<Rightarrow> bool" where
  "leases_ok q \<longleftrightarrow> distinct (map j_id (jobs (tb q))) \<and> distinct (map (\<lambda>c. c_lease_token (snd c)) (claims q))
     \<and> (\<forall>r \<in> set (jobs (tb q)). row_ok r \<and> (j_state r = Leased \<longrightarrow> held_by_newest (claims q) r))"

lemma newest_claim_mem: "newest_claim cs i = Some c \<Longrightarrow> c \<in> set cs \<and> c_id (snd c) = i"
  by (auto simp: newest_claim_def find_Some_iff in_set_conv_nth)

lemma claim_of_token:
  assumes "distinct (map (\<lambda>c. c_lease_token (snd c)) cs)" and "(w, job) \<in> set cs" and "(w', job') \<in> set cs"
    and "c_lease_token job = c_lease_token job'"
  shows "(w, job) = (w', job')"
  using assms by (metis (no_types, lifting) distinct_map inj_onD snd_conv)

text \<open>Whoever holds the row made the newest claim of it, and remembers the row.\<close>

lemma held_is_newest:
  assumes "leases_ok q" and "(w, job) \<in> set (claims q)" and "r \<in> set (jobs (tb q))" and "held_by w job r"
  shows "newest_claim (claims q) (j_id r) = Some (w, job)" and "snapshot job r" and "row_ok r"
proof -
  have "j_state r = Leased" using assms(4) by (simp add: held_by_def)
  with assms(1,3) obtain w0 job0 where newest: "newest_claim (claims q) (j_id r) = Some (w0, job0)"
    and held: "held_by w0 job0 r" "snapshot job0 r"
    by (auto simp: leases_ok_def held_by_newest_def is_some_and_iff)
  have "c_lease_token job0 = c_lease_token job" using held assms(4) by (simp add: held_by_def)
  moreover have "distinct (map (\<lambda>c. c_lease_token (snd c)) (claims q))" "(w0, job0) \<in> set (claims q)"
    using assms(1) newest_claim_mem [OF newest] by (simp_all add: leases_ok_def)
  ultimately have "(w0, job0) = (w, job)" using claim_of_token [of "claims q" w0 job0 w job] assms(2) by blast
  with newest held show "newest_claim (claims q) (j_id r) = Some (w, job)" "snapshot job r" by simp_all
  show "row_ok r" using assms(1,3) by (simp add: leases_ok_def)
qed

lemma leases_ok_map:
  assumes "leases_ok q" and "jobs (tb q') = map f (jobs (tb q))" and "claims q' = claims q"
    and "\<And>r. r \<in> set (jobs (tb q)) \<Longrightarrow> f r = r \<or> (\<exists>t. j_state r = Leased \<and> f r = renew t r)
      \<or> (j_id (f r) = j_id r \<and> row_ok (f r) \<and> j_state (f r) \<noteq> Leased)"
  shows "leases_ok q'"
proof -
  have id: "j_id (f r) = j_id r" if "r \<in> set (jobs (tb q))" for r
    using assms(4) [OF that] by (auto simp: renew_def)
  then have ids: "map j_id (jobs (tb q')) = map j_id (jobs (tb q))" by (simp add: assms(2))
  have "row_ok (f r) \<and> (j_state (f r) = Leased \<longrightarrow> held_by_newest (claims q) (f r))" if "r \<in> set (jobs (tb q))" for r
  proof -
    have r: "row_ok r" "j_state r = Leased \<Longrightarrow> held_by_newest (claims q) r" using assms(1) that by (simp_all add: leases_ok_def)
    from assms(4) [OF that] show ?thesis
    proof (elim disjE exE conjE)
      fix t assume t: "j_state r = Leased" "f r = renew t r"
      have "row_ok (renew t r)"
        using r(1) t(1) by (simp add: row_ok_def jobs_target_check_kept) (simp add: renew_def terminal_def)
      moreover have "held_by_newest (claims q) (renew t r) = held_by_newest (claims q) r"
        by (simp add: held_by_newest_def held_by_renew snapshot_def) (simp add: renew_def)
      ultimately show ?thesis using r(2) t by simp
    qed (use r in simp_all)
  qed
  then show ?thesis using assms(1) unfolding leases_ok_def ids assms(3) by (auto simp: assms(2))
qed

text \<open>The ends of an attempt keep the constraints.\<close>

lemma ended_rows_ok:
  assumes "row_ok r" and "j_state r = Leased"
  shows "jobs_failure_code_check code \<Longrightarrow> row_ok (complete_row now code r)" "row_ok (fresh_pending now r)"
    "st \<in> {Failed, Dead} \<Longrightarrow> jobs_failure_code_check (Some code') \<Longrightarrow> row_ok (terminal_row now st code' b r)"
    "(resource \<Longrightarrow> j_resource_failures r = 0) \<Longrightarrow> jobs_failure_code_check (Some code')
       \<Longrightarrow> row_ok (release_row now code' delay resource dependency r)"
  using assms no_failure_code unfolding row_ok_def jobs_target_check_kept
  by (auto simp: complete_row_def fresh_pending_def terminal_row_def release_row_def queue_simps terminal_def)

lemma ended_rows_id [queue_simps]:
  "j_id (complete_row now code r) = j_id r" "j_id (fresh_pending now r) = j_id r"
  "j_id (terminal_row now st code' b r) = j_id r" "j_id (release_row now code' delay resource dependency r) = j_id r"
  "j_state (complete_row now code r) = Completed" "j_state (fresh_pending now r) = Pending"
  "j_state (terminal_row now st code' b r) = st" "j_state (release_row now code' delay resource dependency r) = Pending"
  by (simp_all add: complete_row_def fresh_pending_def terminal_row_def release_row_def queue_simps)

lemma serves_rows:
  assumes "serves now w job end_row s s'"
  obtains "jobs s' = update_where (held_by w job) end_row (jobs s)"
    | "jobs s' = update_where (held_by w job) (fresh_pending now) (jobs s)"
  using assms unfolding serves_def by (auto split: if_splits)

lemma held_update_ok:
  assumes "leases_ok q" and "(w, job) \<in> set (claims q)"
    and "jobs (tb q') = update_where (held_by w job) f (jobs (tb q))" and "claims q' = claims q"
    and "\<And>r. row_ok r \<Longrightarrow> snapshot job r \<Longrightarrow> j_state r = Leased \<Longrightarrow> row_ok (f r)"
    and "\<And>r. j_id (f r) = j_id r" and "\<And>r. j_state (f r) \<noteq> Leased"
  shows "leases_ok q'"
proof (rule leases_ok_map [OF assms(1) assms(3) [unfolded update_where_def] assms(4)])
  fix r assume r: "r \<in> set (jobs (tb q))"
  show "(if held_by w job r then f r else r) = r \<or> (\<exists>t. j_state r = Leased \<and> (if held_by w job r then f r else r) = renew t r)
      \<or> (j_id (if held_by w job r then f r else r) = j_id r \<and> row_ok (if held_by w job r then f r else r)
         \<and> j_state (if held_by w job r then f r else r) \<noteq> Leased)"
  proof (cases "held_by w job r")
    case True
    have "j_state r = Leased" using True by (simp add: held_by_def)
    with held_is_newest [OF assms(1,2) r True] assms(5-7) True show ?thesis by simp
  qed simp
qed

lemma serves_leases_ok:
  assumes "leases_ok q" and "(w, job) \<in> set (claims q)" and "serves now w job end_row (tb q) s'"
    and "\<And>r. row_ok r \<Longrightarrow> j_state r = Leased \<Longrightarrow> row_ok (end_row r)"
    and "\<And>r. j_id (end_row r) = j_id r" and "\<And>r. j_state (end_row r) \<noteq> Leased"
  shows "leases_ok (q\<lparr>tb := s'\<rparr>)"
  using assms(3)
proof (rule serves_rows)
  assume "jobs s' = update_where (held_by w job) end_row (jobs (tb q))"
  then show ?thesis by (intro held_update_ok [OF assms(1,2), where f = end_row]) (simp_all add: assms)
next
  assume "jobs s' = update_where (held_by w job) (fresh_pending now) (jobs (tb q))"
  then show ?thesis
    by (intro held_update_ok [OF assms(1,2), where f = "fresh_pending now"]) (simp_all add: ended_rows_ok queue_simps)
qed

lemma release_leases_ok:
  assumes "leases_ok q" and "(w, job) \<in> set (claims q)"
    and "release_job now w job code delay resource dependency (tb q) = Inr s'"
    and "resource \<Longrightarrow> c_resource_failures job = 0" and "jobs_failure_code_check (Some code)"
  shows "leases_ok (q\<lparr>tb := s'\<rparr>)"
  using release_job_ok [OF assms(3)] assms(4,5)
  by (intro held_update_ok [OF assms(1,2), where f = "release_row now code delay resource dependency"])
    (simp_all add: queue_simps snapshot_def ended_rows_ok(4))

lemma finish_failure_leases_ok:
  assumes "leases_ok q" and "(w, job) \<in> set (claims q)" and "finish_failure now w job code qn rf (tb q) = Inr s'"
    and "jobs_failure_code_check (Some code)"
  shows "leases_ok (q\<lparr>tb := s'\<rparr>)"
  by (rule serves_leases_ok [OF assms(1,2) finish_failure_serves [OF assms(3)]])
    (auto simp: queue_simps assms(4) intro!: ended_rows_ok)

text \<open>What ends an attempt: every transaction of \<open>finish_result\<close> is a release or a failure.\<close>

lemma finish_result_cases:
  obtains (kept) "finish_result now w job res s = s"
    | (released) code delay resource dependency s' where
        "release_job now w job code delay resource dependency s = Inr s'" "finish_result now w job res s = s'"
        "resource \<Longrightarrow> c_resource_failures job = 0 \<and> \<not> dependency \<and> (\<exists>c. res = Inl (Resource c))"
        "resource \<or> dependency \<or> c_attempt job < c_max_attempt job" "dependency \<longleftrightarrow> res = Inl Dependency"
        "(\<forall>e. res = Inl e \<longrightarrow> error_code_ok e) \<longrightarrow> jobs_failure_code_check (Some code)"
    | (failed) code qn rf s' where
        "finish_failure now w job code qn rf s = Inr s'" "finish_result now w job res s = s'"
        "(\<forall>e. res = Inl e \<longrightarrow> error_code_ok e) \<longrightarrow> jobs_failure_code_check (Some code)"
proof (cases res)
  case (Inl e)
  show ?thesis
  proof (cases e)
    case LostLease
    then show ?thesis using Inl kept by (simp add: finish_result_def)
  next
    case Dependency
    then have "finish_result now w job res s = apply_tables (release_job now w job ''dependency_pending'' 1 False True) s"
      using Inl by (simp add: finish_result_def wait_for_dependency_def)
    then show ?thesis using Inl Dependency kept released literal_codes(1)
      by (cases rule: apply_tables_cases [of "release_job now w job ''dependency_pending'' 1 False True" s]) auto
  next
    case (Deterministic code)
    have code: "(\<forall>e. res = Inl e \<longrightarrow> error_code_ok e) \<longrightarrow> jobs_failure_code_check (Some code)"
      using Inl Deterministic by (simp add: error_code_ok_def)
    from Deterministic have "finish_result now w job res s = apply_tables (finish_failure now w job code True False) s"
      using Inl by (simp add: finish_result_def quarantine_def)
    then show ?thesis using kept failed code
      by (cases rule: apply_tables_cases [of "finish_failure now w job code True False" s]) auto
  next
    case (Resource code)
    with Inl have code: "(\<forall>e. res = Inl e \<longrightarrow> error_code_ok e) \<longrightarrow> jobs_failure_code_check (Some code)"
      by (simp add: error_code_ok_def)
    show ?thesis
    proof (cases "c_resource_failures job = 0")
      case True
      let ?t = "release_job now w job code (retry_seconds (c_attempt job)) True False"
      have "finish_result now w job res s = apply_tables ?t s" using Inl Resource True by (simp add: finish_result_def retry_def)
      then show ?thesis using kept released [of code "retry_seconds (c_attempt job)" True False] Inl Resource True code
        by (cases rule: apply_tables_cases [of ?t s]) simp_all
    next
      case False
      then have "finish_result now w job res s = apply_tables (finish_failure now w job code True True) s"
        using Inl Resource by (simp add: finish_result_def quarantine_resource_def)
      then show ?thesis using kept failed code
        by (cases rule: apply_tables_cases [of "finish_failure now w job code True True" s]) auto
    qed
  next
    case (Transient code)
    with Inl have code: "(\<forall>e. res = Inl e \<longrightarrow> error_code_ok e) \<longrightarrow> jobs_failure_code_check (Some code)"
      by (simp add: error_code_ok_def)
    show ?thesis
    proof (cases "c_attempt job < c_max_attempt job")
      case True
      let ?t = "release_job now w job code (retry_seconds (c_attempt job)) False False"
      have "finish_result now w job res s = apply_tables ?t s" using Inl Transient True by (simp add: finish_result_def retry_def)
      then show ?thesis using kept released [of code "retry_seconds (c_attempt job)" False False] Inl Transient True code
        by (cases rule: apply_tables_cases [of ?t s]) simp_all
    next
      case False
      then have "finish_result now w job res s = apply_tables (finish_failure now w job code False False) s"
        using Inl Transient by (simp add: finish_result_def fail_def)
      then show ?thesis using kept failed code
        by (cases rule: apply_tables_cases [of "finish_failure now w job code False False" s]) auto
    qed
  qed
qed (use kept in \<open>simp add: finish_result_def\<close>)

subsection \<open>Every step keeps the leases\<close>

lemma sort_key_head:
  fixes key :: "'a \<Rightarrow> 'k :: linorder"
  assumes "sort_key key rows = r # rest"
  shows "r \<in> set rows" and "\<forall>r' \<in> set rows. key r \<le> key r'"
proof -
  have "sorted (map key (sort_key key rows))" by (rule sorted_sort_key)
  then have "\<forall>r' \<in> set (sort_key key rows). key r \<le> key r'" using assms by auto
  then show "\<forall>r' \<in> set rows. key r \<le> key r'" by simp
  have "r \<in> set (sort_key key rows)" using assms by simp
  then show "r \<in> set rows" by simp
qed

lemma first_in_order_Some:
  assumes "first_in_order rows = Some r"
  shows "r \<in> set rows \<and> (\<forall>r' \<in> set rows. claim_order r \<le> claim_order r')"
  using assms sort_key_head [of claim_order rows] by (auto simp: first_in_order_def split: list.splits)

text \<open>What a successful claim says.\<close>

lemma claim_ok:
  assumes "claim_job_with_project_limit now w limit token locked_projects locked_jobs s = (Inr (Some job), s')"
  obtains p r where "candidate_project now limit locked_projects s = Some p" "candidate now locked_jobs p s = Some r"
    "job = claimed now s token p r" "r \<in> set (jobs s)" "in_project p r" "claimable now r"
    "jobs s' = update_where (\<lambda>r'. j_id r' = j_id r) (lease_to now w token) (jobs s)" "events s' = events s"
    "projects s' = projects s" "map work_view (works s') = map work_view (works s)"
proof -
  have body: "claim_body now w limit token locked_projects locked_jobs s = Inr (Some job, s')"
    using assms by (auto simp: claim_job_with_project_limit_def commit_def split: sum.splits)
  then obtain p where p: "candidate_project now limit locked_projects s = Some p"
    by (cases "candidate_project now limit locked_projects s") (simp_all add: claim_body_def)
  with body obtain r where r: "candidate now locked_jobs p s = Some r"
    by (cases "candidate now locked_jobs p s") (simp_all add: claim_body_def)
  let ?s = "s\<lparr>jobs := update_where (\<lambda>r'. j_id r' = j_id r) (lease_to now w token) (jobs s)\<rparr>"
  have "job = claimed now s token p r" "mark_reprocessing_events_running now job ?s = Inr s'"
    using body p r by (auto simp: claim_body_def Let_def result_simps)
  moreover have "r \<in> set (jobs s) \<and> in_project p r \<and> claimable now r"
    using first_in_order_Some [OF r [unfolded candidate_def]] by simp
  ultimately show ?thesis using that [OF p r] mark_running_ok [of now job ?s s'] by simp
qed

lemma claim_leases_ok:
  assumes "leases_ok q" and "r \<in> set (jobs (tb q))" and "claimable now r" and "job = claimed now s token p r"
    and "token \<notin> c_lease_token ` snd ` set (claims q)"
    and "jobs s' = update_where (\<lambda>r'. j_id r' = j_id r) (lease_to now w token) (jobs (tb q))"
  shows "leases_ok (q\<lparr>tb := s', claims := (w, job) # claims q\<rparr>)"
proof -
  have ids: "map j_id (jobs s') = map j_id (jobs (tb q))"
    by (simp add: assms(6) update_where_def lease_to_def)
  have job: "c_id job = j_id r" "c_lease_token job = token" using assms(4) by (simp_all add: claimed_def)
  have rows: "row_ok x \<and> (j_state x = Leased \<longrightarrow> held_by_newest ((w, job) # claims q) x)" if x: "x \<in> set (jobs s')" for x
  proof -
    obtain y where y: "y \<in> set (jobs (tb q))" "x = (if j_id y = j_id r then lease_to now w token y else y)"
      using x unfolding assms(6) update_where_simps by blast
    have ok: "row_ok y" "j_state y = Leased \<longrightarrow> held_by_newest (claims q) y" using assms(1) y(1) by (simp_all add: leases_ok_def)
    show ?thesis
    proof (cases "j_id y = j_id r")
      case True
      then have "y = r" using assms(1,2) y(1) by (auto simp: leases_ok_def distinct_map inj_on_def)
      have "\<not> terminal (j_state r)" using assms(3) by (auto simp: claimable_def terminal_def)
      then have "row_ok (lease_to now w token r)" using ok(1) \<open>y = r\<close>
        unfolding row_ok_def jobs_target_check_kept by (auto simp: lease_to_def terminal_def)
      moreover have "held_by_newest ((w, job) # claims q) (lease_to now w token r)"
        using assms(4) by (simp add: held_by_newest_def newest_claim_def lease_to_def claimed_def held_by_def snapshot_def)
      ultimately show ?thesis using y(2) \<open>y = r\<close> by simp
    next
      case False
      then have "held_by_newest ((w, job) # claims q) y = held_by_newest (claims q) y"
        using job by (simp add: held_by_newest_def newest_claim_def)
      then show ?thesis using ok y(2) False by simp
    qed
  qed
  have "distinct (map (\<lambda>c. c_lease_token (snd c)) ((w, job) # claims q))"
    using assms(1,5) job(2) by (auto simp: leases_ok_def image_image)
  then show ?thesis using assms(1) rows ids by (simp add: leases_ok_def)
qed

lemma written_tables:
  "jobs (s\<lparr>works := ws, jobs := js, requests := rs\<rparr>) = js" "works (s\<lparr>works := ws, jobs := js, requests := rs\<rparr>) = ws"
  "events (s\<lparr>works := ws, jobs := js, requests := rs\<rparr>) = events s"
  "projects (s\<lparr>works := ws, jobs := js, requests := rs\<rparr>) = projects s"
  by simp_all

lemma bindR_paired: "bindR r (\<lambda>x. Inr (c, x)) = Inr (b, y) \<Longrightarrow> r = Inr y"
  by (cases r) simp_all

lemma reconcile_rows:
  assumes "reconcile_reprocessing_event_jobs now skipped s = Inr (b, s')"
  obtains candidates where "jobs s' = update_where (\<lambda>j. list_ex (\<lambda>w. j_event j = Some (w_event w)) candidates
      \<and> j_type j = ''process_crash'' \<and> j_state j \<in> {Completed, Failed, Dead}) (fresh_pending now) (jobs s)"
    "events s' = events s" "projects s' = projects s" "\<forall>w \<in> set candidates. unserved s w"
    "works s' = update_where (\<lambda>w. w \<in> set candidates) (\<lambda>w. w\<lparr>w_state := Queued\<rparr>) (works s)"
proof -
  let ?c = "take reconciliation_batch (filter (\<lambda>w. unserved s w \<and> \<not> skipped w) (works s))"
  have unserved: "\<forall>w \<in> set ?c. unserved s w" by (auto dest: in_set_takeD)
  let ?s = "s\<lparr>works := update_where (\<lambda>w. w \<in> set ?c) (\<lambda>w. w\<lparr>w_state := Queued\<rparr>) (works s),
    jobs := update_where (\<lambda>j. list_ex (\<lambda>w. j_event j = Some (w_event w)) ?c
      \<and> j_type j = ''process_crash'' \<and> j_state j \<in> {Completed, Failed, Dead}) (fresh_pending now) (jobs s)\<rparr>"
  have "fold_result (refresh_reprocessing_request now) (dedup (sort (map w_request ?c))) ?s = Inr s'"
    by (rule bindR_paired [OF assms [unfolded reconcile_reprocessing_event_jobs_def Let_def]])
  from refresh_all_tables [OF this] show ?thesis
  proof (elim exE)
    fix rows assume s': "s' = ?s\<lparr>requests := rows\<rparr>"
    show ?thesis by (rule that [of ?c]) (unfold s' written_tables, rule refl, rule refl, rule refl, rule unserved, rule refl)
  qed
qed

definition generations :: "tables \<Rightarrow> (event_row \<times> job_row) list \<Rightarrow> uuid \<Rightarrow> int option" where
  "generations s chosen = map_of (map (\<lambda>(e, r). (e_id e, next_generation s e r)) chosen)"

lemma expand_rows:
  assumes "expand_reprocessing_request now w q page s = Inr s'"
  obtains chosen ids where "chosen = eligible q ids s" "set ids \<subseteq> set page"
    "jobs s' = update_where (\<lambda>r. list_ex (\<lambda>(e, r'). job_of_event (q_org q) (q_project q) (e_id e) r) chosen) (reactivate now) (jobs s)"
    "events s' = update_where (\<lambda>e. e_org e = q_org q \<and> e_project e = q_project q \<and> generations s chosen (e_id e) \<noteq> None)
       (\<lambda>e. e\<lparr>e_requested := the (generations s chosen (e_id e))\<rparr>) (events s)"
    "works s' = works s @ map (\<lambda>(e, r). new_work q e (next_generation s e r)) chosen" "projects s' = projects s"
proof -
  obtain limit s1 s2 where sched: "schedule_reprocessing_events now q (take limit page) s = Inr s1"
    and rel: "(if q_source q = ''automatic'' \<and> length page > limit
        then release_reprocessing_request_page now w q (if take limit page = [] then None else Some (last (take limit page))) s1
        else complete_reprocessing_selection w q (length page > limit)
          (if length page > limit then (if take limit page = [] then None else Some (last (take limit page))) else None) s1) = Inr s2"
    and fresh: "refresh_reprocessing_request now (q_id q) s2 = Inr s'"
    using assms unfolding expand_reprocessing_request_def Let_def bindR_eq_Inr by blast
  have "\<exists>rows. s2 = s1\<lparr>requests := rows\<rparr>"
    using rel by (auto simp: release_reprocessing_request_page_def complete_reprocessing_selection_def update_request_def split: if_splits)
  with refresh_tables [OF fresh] obtain rows where s': "s' = s1\<lparr>requests := rows\<rparr>" by auto
  let ?chosen = "eligible q (take limit page) s"
  have "list_ex (\<lambda>v. job_of_event (q_org q) (q_project q) (w_event v) r) (map (\<lambda>(e, r). new_work q e (next_generation s e r)) ?chosen)
      = list_ex (\<lambda>(e, r'). job_of_event (q_org q) (q_project q) (e_id e) r) ?chosen" for r
    by (simp add: list_ex_iff new_work_def case_prod_beta)
  then have s1: "jobs s1 = update_where (\<lambda>r. list_ex (\<lambda>(e, r'). job_of_event (q_org q) (q_project q) (e_id e) r) ?chosen) (reactivate now) (jobs s)
    \<and> events s1 = update_where (\<lambda>e. e_org e = q_org q \<and> e_project e = q_project q \<and> generations s ?chosen (e_id e) \<noteq> None)
       (\<lambda>e. e\<lparr>e_requested := the (generations s ?chosen (e_id e))\<rparr>) (events s)
    \<and> works s1 = works s @ map (\<lambda>(e, r). new_work q e (next_generation s e r)) ?chosen \<and> projects s1 = projects s"
    using sched unfolding schedule_reprocessing_events_def Let_def bindR_eq_Inr generations_def by auto
  show ?thesis using s' s1 by (intro that [of ?chosen "take limit page"]) (simp_all add: set_take_subset)
qed

lemma restarted_rows_ok:
  assumes "row_ok r"
  shows "row_ok (fresh_pending now r)"
    and "reactivate now r = r \<or> (j_id (reactivate now r) = j_id r \<and> row_ok (reactivate now r) \<and> j_state (reactivate now r) \<noteq> Leased)"
  using assms no_failure_code unfolding row_ok_def jobs_target_check_kept
  by (auto simp: fresh_pending_def reactivate_def queue_simps terminal_def)

lemma leases_ok_same:
  assumes "leases_ok q" and "jobs (tb q') = jobs (tb q)" and "claims q' = claims q"
  shows "leases_ok q'"
  using assms by (simp add: leases_ok_def)

lemma leases_ok_update:
  assumes "leases_ok q" and "jobs s' = update_where p f (jobs (tb q))"
    and "\<And>r. row_ok r \<Longrightarrow> f r = r \<or> (j_id (f r) = j_id r \<and> row_ok (f r) \<and> j_state (f r) \<noteq> Leased)"
  shows "leases_ok (q\<lparr>tb := s'\<rparr>)"
proof (rule leases_ok_map [OF assms(1)])
  show "jobs (tb (q\<lparr>tb := s'\<rparr>)) = map (\<lambda>r. if p r then f r else r) (jobs (tb q))"
    using assms(2) by (simp add: update_where_def)
next
  fix r assume "r \<in> set (jobs (tb q))"
  then have "row_ok r" using assms(1) by (simp add: leases_ok_def)
  from assms(3) [OF this]
  show "(if p r then f r else r) = r \<or> (\<exists>t. j_state r = Leased \<and> (if p r then f r else r) = renew t r)
    \<or> (j_id (if p r then f r else r) = j_id r \<and> row_ok (if p r then f r else r) \<and> j_state (if p r then f r else r) \<noteq> Leased)"
    by auto
qed simp

lemma leases_ok_new_row:
  assumes "leases_ok q" and "new_job r" and "j_id r \<notin> j_id ` set (jobs (tb q))"
    and "jobs (tb q') = r # jobs (tb q)" and "claims q' = claims q"
  shows "leases_ok q'"
proof -
  have "row_ok r" "j_state r \<noteq> Leased" using assms(2) by (simp_all add: new_job_def row_ok_def terminal_def no_failure_code)
  with assms show ?thesis by (auto simp: leases_ok_def)
qed

lemma step_leases_ok:
  assumes "step a q q'" and "leases_ok q"
  shows "leases_ok q'"
  using assms(1)
proof cases
  case (tick t s)
  then show ?thesis using assms(2) by (auto simp: elsewhere_def intro: leases_ok_same)
next
  case (claim worker limit token locked_projects locked_jobs job s)
  from claim_ok [OF claim(3)] obtain p r where "job = claimed (clock q) (tb q) token p r" "r \<in> set (jobs (tb q))"
    "claimable (clock q) r" "jobs s = update_where (\<lambda>r'. j_id r' = j_id r) (lease_to (clock q) worker token) (jobs (tb q))"
    by metis
  then show ?thesis using claim_leases_ok [OF assms(2)] claim(2,4) by blast
next
  case (beat worker job)
  then have "jobs (tb q') = map (\<lambda>r. if held_by worker job r then renew (clock q) r else r) (jobs (tb q))" "claims q' = claims q"
    by (simp_all add: heartbeat_def update_where_def)
  then show ?thesis by (rule leases_ok_map [OF assms(2)]) (auto simp: held_by_def)
next
  case (finish worker job outcome e)
  show ?thesis
    unfolding finish(2)
  proof (cases rule: finish_result_cases [of "clock q" worker job "Inl e" "tb q"])
    case (released code delay resource dependency s')
    then show "leases_ok (q\<lparr>tb := finish_result (clock q) worker job (Inl e) (tb q)\<rparr>)"
      using release_leases_ok [OF assms(2) finish(3) released(1)] finish(5) by simp
  next
    case (failed code qn rf s')
    then show "leases_ok (q\<lparr>tb := finish_result (clock q) worker job (Inl e) (tb q)\<rparr>)"
      using finish_failure_leases_ok [OF assms(2) finish(3) failed(1)] finish(5) by simp
  qed (use assms(2) in simp)
next
  case (publish_crash worker job event result state reason)
  show ?thesis
    unfolding publish_crash(2)
  proof (cases rule: apply_tables_cases [of "publish_settled (clock q) worker job event result state reason" "tb q"])
    case (committed s')
    from serves_leases_ok [OF assms(2) publish_crash(3) publish_settled_serves [OF committed(1) publish_crash(5,6)]]
    show "leases_ok (q\<lparr>tb := apply_tables (publish_settled (clock q) worker job event result state reason) (tb q)\<rparr>)"
      by (simp add: committed(2) ended_rows_ok queue_simps no_failure_code)
  qed (use assms(2) in simp)
next
  case (publish_other worker job code)
  show ?thesis
    unfolding publish_other(2)
  proof (cases rule: apply_tables_cases [of "publish_completed (clock q) worker job code" "tb q"])
    case (committed s')
    from serves_leases_ok [OF assms(2) publish_other(3) publish_completed_serves [OF committed(1) publish_other(5)]]
    show "leases_ok (q\<lparr>tb := apply_tables (publish_completed (clock q) worker job code) (tb q)\<rparr>)"
      by (simp add: committed(2) ended_rows_ok queue_simps publish_other(6))
  qed (use assms(2) in simp)
next
  case (cancel worker job)
  show ?thesis
    unfolding cancel(2)
  proof (cases rule: apply_tables_cases [of "cancel_job (clock q) worker job" "tb q"])
    case (committed s')
    then show "leases_ok (q\<lparr>tb := apply_tables (cancel_job (clock q) worker job) (tb q)\<rparr>)"
      using release_leases_ok [OF assms(2) cancel(3) committed(1) [unfolded cancel_job_def]] literal_codes(2) by simp
  qed (use assms(2) in simp)
next
  case (ingest r e)
  then show ?thesis using leases_ok_new_row [OF assms(2), of r q'] by simp
next
  case (enqueue r)
  then show ?thesis using leases_ok_new_row [OF assms(2), of r q'] by simp
next
  case (request rows)
  then show ?thesis using leases_ok_same [OF assms(2), of q'] by simp
next
  case (schedule page worker request)
  show ?thesis
    unfolding schedule(2)
  proof (cases rule: apply_tables_cases [of "expand_reprocessing_request (clock q) worker request page" "tb q"])
    case (committed s')
    obtain p where rows: "jobs s' = update_where p (reactivate (clock q)) (jobs (tb q))"
      by (rule expand_rows [OF committed(1)]) (erule that)
    have "leases_ok (q\<lparr>tb := s'\<rparr>)" by (rule leases_ok_update [OF assms(2) rows]) (rule restarted_rows_ok(2))
    then show "leases_ok (q\<lparr>tb := apply_tables (expand_reprocessing_request (clock q) worker request page) (tb q)\<rparr>)"
      by (simp add: committed(2))
  qed (use assms(2) in simp)
next
  case (reconcile skipped)
  show ?thesis
  proof (cases "reconcile_reprocessing_event_jobs (clock q) skipped (tb q)")
    case (Inl e)
    then show ?thesis using assms(2) reconcile(2) by (simp add: commit_def)
  next
    case (Inr v)
    then obtain b s' where v: "reconcile_reprocessing_event_jobs (clock q) skipped (tb q) = Inr (b, s')" by (cases v) simp
    obtain p where rows: "jobs s' = update_where p (fresh_pending (clock q)) (jobs (tb q))"
      by (rule reconcile_rows [OF v]) (erule that)
    have "leases_ok (q\<lparr>tb := s'\<rparr>)"
      by (rule leases_ok_update [OF assms(2) rows]) (simp add: queue_simps restarted_rows_ok(1))
    then show ?thesis using reconcile(2) v by (simp add: commit_def)
  qed
qed

lemma reachable_leases_ok: "reachable_by allowed q \<Longrightarrow> leases_ok q"
proof (induction rule: reachable_by.induct)
  case (initial ps t)
  then show ?case by (simp add: leases_ok_def empty_tables_def)
qed (rule step_leases_ok)

end
