(* ===== verification/Queue_Work.thy ===== *)
theory Queue_Work
  imports Queue_Invariant
begin

section \<open>Requested work is not lost\<close>

text \<open>
  Every event has exactly one job that processes it. The invariant relates the generations that were requested
  for an event, the one that its job has completed and the open rows of the requests: a job has ended exactly
  when nothing that was requested is left to do.
\<close>

definition job_view :: "job_row \<Rightarrow> uuid \<times> uuid \<times> uuid \<times> uuid option \<times> string" where
  "job_view r = (j_id r, j_org r, j_project r, j_event r, j_type r)"

definition claim_view :: "job \<Rightarrow> uuid \<times> uuid \<times> uuid \<times> uuid option \<times> string" where
  "claim_view job = (c_id job, c_org job, c_project job, c_event job, c_kind job)"

definition event_view :: "event_row \<Rightarrow> uuid \<times> uuid \<times> uuid" where
  "event_view e = (e_id e, e_org e, e_project e)"

definition serves_event :: "event_row \<Rightarrow> job_row \<Rightarrow> bool" where
  "serves_event e r \<longleftrightarrow> job_of_event (e_org e) (e_project e) (e_id e) r"

definition work_of_event :: "event_row \<Rightarrow> work_row \<Rightarrow> bool" where
  "work_of_event e w \<longleftrightarrow> w_event w = e_id e \<and> w_org w = e_org e \<and> w_project w = e_project e"

text \<open>The keys: which jobs and events there are never changes but by inserts.\<close>

definition keys_ok :: "queue \<Rightarrow> bool" where
  "keys_ok q \<longleftrightarrow> distinct (map e_id (events (tb q)))
     \<and> (\<forall>e \<in> set (events (tb q)). \<exists>i. (i, e_org e, e_project e, Some (e_id e), ''process_crash'') \<in> job_view ` set (jobs (tb q)))
     \<and> (\<forall>r \<in> set (jobs (tb q)). \<forall>r' \<in> set (jobs (tb q)).
          j_type r = ''process_crash'' \<and> j_type r' = ''process_crash'' \<and> j_event r = j_event r' \<longrightarrow> j_id r = j_id r')
     \<and> (\<forall>r \<in> set (jobs (tb q)). j_type r = ''process_crash'' \<longrightarrow> (\<exists>e \<in> set (events (tb q)). serves_event e r))
     \<and> claim_view ` snd ` set (claims q) \<subseteq> job_view ` set (jobs (tb q))"

definition job_due :: "event_row \<Rightarrow> job_row \<Rightarrow> bool" where
  "job_due e r \<longleftrightarrow> (if terminal (j_state r) then e_completed e = e_requested e
     else e_requested e > 0 \<longrightarrow> e_completed e < e_requested e)"

definition due_ok :: "queue \<Rightarrow> bool" where
  "due_ok q \<longleftrightarrow> (\<forall>e \<in> set (events (tb q)). 0 \<le> e_completed e \<and> e_completed e \<le> e_requested e
       \<and> (\<forall>r \<in> set (jobs (tb q)). serves_event e r \<longrightarrow> job_due e r)
       \<and> (\<forall>c \<in> set (claims q). c_event (snd c) = Some (e_id e) \<longrightarrow> c_target_generation (snd c) \<le> e_requested e))
     \<and> (\<forall>c \<in> set (claims q). 0 \<le> c_target_generation (snd c))
     \<and> (\<forall>w \<in> set (works (tb q)). open_work w \<longrightarrow>
          (\<exists>e \<in> set (events (tb q)). work_of_event e w \<and> e_completed e < w_generation w \<and> w_generation w \<le> e_requested e))"

definition work_ok :: "queue \<Rightarrow> bool" where
  "work_ok q \<longleftrightarrow> leases_ok q \<and> keys_ok q \<and> due_ok q"

lemma due_okD:
  assumes "due_ok q"
  shows "e \<in> set (events (tb q)) \<Longrightarrow> 0 \<le> e_completed e \<and> e_completed e \<le> e_requested e"
    and "e \<in> set (events (tb q)) \<Longrightarrow> r \<in> set (jobs (tb q)) \<Longrightarrow> serves_event e r \<Longrightarrow> job_due e r"
    and "e \<in> set (events (tb q)) \<Longrightarrow> (w, job) \<in> set (claims q) \<Longrightarrow> c_event job = Some (e_id e)
      \<Longrightarrow> c_target_generation job \<le> e_requested e"
    and "(w, job) \<in> set (claims q) \<Longrightarrow> 0 \<le> c_target_generation job"
    and "v \<in> set (works (tb q)) \<Longrightarrow> open_work v
      \<Longrightarrow> \<exists>e \<in> set (events (tb q)). work_of_event e v \<and> e_completed e < w_generation v \<and> w_generation v \<le> e_requested e"
proof -
  show "c_target_generation job \<le> e_requested e"
    if "e \<in> set (events (tb q))" "(w, job) \<in> set (claims q)" "c_event job = Some (e_id e)"
    using assms that(1) bspec [OF _ that(2), of "\<lambda>c. c_event (snd c) = Some (e_id e) \<longrightarrow> c_target_generation (snd c) \<le> e_requested e"]
      that(3) by (simp add: due_ok_def)
  show "0 \<le> c_target_generation job" if "(w, job) \<in> set (claims q)"
    using assms bspec [OF _ that, of "\<lambda>c. 0 \<le> c_target_generation (snd c)"] by (simp add: due_ok_def)
qed (use assms in \<open>auto simp: due_ok_def\<close>)

lemma keys_okD:
  assumes "keys_ok q"
  shows "distinct (map e_id (events (tb q)))"
    and "e \<in> set (events (tb q))
      \<Longrightarrow> \<exists>i. (i, e_org e, e_project e, Some (e_id e), ''process_crash'') \<in> job_view ` set (jobs (tb q))"
    and "r \<in> set (jobs (tb q)) \<Longrightarrow> r' \<in> set (jobs (tb q)) \<Longrightarrow> j_type r = ''process_crash'' \<Longrightarrow> j_type r' = ''process_crash''
      \<Longrightarrow> j_event r = j_event r' \<Longrightarrow> j_id r = j_id r'"
    and "r \<in> set (jobs (tb q)) \<Longrightarrow> j_type r = ''process_crash'' \<Longrightarrow> \<exists>e \<in> set (events (tb q)). serves_event e r"
    and "claim_view ` snd ` set (claims q) \<subseteq> job_view ` set (jobs (tb q))"
  using assms unfolding keys_ok_def by blast+

lemma due_ok_map:
  assumes "events (tb q') = map f (events (tb q))" and "jobs (tb q') = map g (jobs (tb q))" and "claims q' = claims q"
    and "\<And>e. e \<in> set (events (tb q)) \<Longrightarrow> 0 \<le> e_completed (f e) \<and> e_completed (f e) \<le> e_requested (f e)"
    and "\<And>e r. e \<in> set (events (tb q)) \<Longrightarrow> r \<in> set (jobs (tb q)) \<Longrightarrow> serves_event (f e) (g r) \<Longrightarrow> job_due (f e) (g r)"
    and "\<And>e w job. e \<in> set (events (tb q)) \<Longrightarrow> (w, job) \<in> set (claims q) \<Longrightarrow> c_event job = Some (e_id (f e))
      \<Longrightarrow> c_target_generation job \<le> e_requested (f e)"
    and "\<And>w job. (w, job) \<in> set (claims q) \<Longrightarrow> 0 \<le> c_target_generation job"
    and "\<And>v. v \<in> set (works (tb q')) \<Longrightarrow> open_work v \<Longrightarrow> \<exists>e \<in> set (events (tb q')).
      work_of_event e v \<and> e_completed e < w_generation v \<and> w_generation v \<le> e_requested e"
  shows "due_ok q'"
proof -
  have "0 \<le> e_completed x \<and> e_completed x \<le> e_requested x \<and> (\<forall>r \<in> set (jobs (tb q')). serves_event x r \<longrightarrow> job_due x r)
      \<and> (\<forall>c \<in> set (claims q'). c_event (snd c) = Some (e_id x) \<longrightarrow> c_target_generation (snd c) \<le> e_requested x)"
    if "x \<in> set (events (tb q'))" for x
  proof -
    obtain e where "e \<in> set (events (tb q))" "x = f e" using \<open>x \<in> _\<close> assms(1) by auto
    then show ?thesis using assms(4-6) by (auto simp: assms(2,3))
  qed
  then show ?thesis using assms(7,8) unfolding due_ok_def by (auto simp: assms(3))
qed

subsection \<open>Keys\<close>

lemma serves_views: "event_view e = event_view e' \<Longrightarrow> job_view r = job_view r' \<Longrightarrow> serves_event e r = serves_event e' r'"
  by (simp add: job_view_def event_view_def serves_event_def job_of_event_def)

lemma serves_view: "job_view r = job_view r' \<Longrightarrow> serves_event e r = serves_event e r'"
  by (rule serves_views [OF refl])

lemma job_viewD:
  assumes "job_view r = job_view r'"
  shows "j_id r = j_id r'" "j_org r = j_org r'" "j_project r = j_project r'" "j_event r = j_event r'" "j_type r = j_type r'"
  using assms by (simp_all add: job_view_def)

lemma image_cover: "v ` A = v ` B \<Longrightarrow> x \<in> A \<Longrightarrow> \<exists>y \<in> B. v y = v x"
  by (metis imageE imageI)

lemma keys_ok_same:
  assumes "keys_ok q" and "map job_view (jobs (tb q')) = map job_view (jobs (tb q))"
    and "map event_view (events (tb q')) = map event_view (events (tb q))"
    and "claim_view ` snd ` set (claims q') \<subseteq> job_view ` set (jobs (tb q))"
  shows "keys_ok q'"
proof -
  have jobs: "job_view ` set (jobs (tb q')) = job_view ` set (jobs (tb q))"
    using arg_cong [OF assms(2), of set] by simp
  have events: "event_view ` set (events (tb q')) = event_view ` set (events (tb q))"
    using arg_cong [OF assms(3), of set] by simp
  have ids: "map e_id (events (tb q')) = map e_id (events (tb q))"
  proof -
    from assms(3) have "map fst (map event_view (events (tb q'))) = map fst (map event_view (events (tb q)))" by (rule arg_cong)
    then show ?thesis unfolding map_map by (simp only: event_view_def comp_def fst_conv)
  qed
  have job: "\<exists>r' \<in> set (jobs (tb q)). job_view r' = job_view r" if "r \<in> set (jobs (tb q'))" for r
    by (rule image_cover [OF jobs that])
  have event: "\<exists>e' \<in> set (events (tb q)). event_view e' = event_view e" if "e \<in> set (events (tb q'))" for e
    by (rule image_cover [OF events that])
  have event': "\<exists>e' \<in> set (events (tb q')). event_view e' = event_view e" if "e \<in> set (events (tb q))" for e
    by (rule image_cover [OF events [symmetric] that])
  have a: "\<exists>i. (i, e_org e, e_project e, Some (e_id e), ''process_crash'') \<in> job_view ` set (jobs (tb q'))"
    if "e \<in> set (events (tb q'))" for e
  proof -
    obtain e' where "e' \<in> set (events (tb q))" "event_view e' = event_view e" using event [OF \<open>e \<in> _\<close>] by blast
    then show ?thesis using keys_okD(2) [OF assms(1)] unfolding jobs event_view_def by (metis prod.inject)
  qed
  have b: "j_id r = j_id r'" if r: "r \<in> set (jobs (tb q'))" "r' \<in> set (jobs (tb q'))" and types: "j_type r = ''process_crash''"
    "j_type r' = ''process_crash''" "j_event r = j_event r'" for r r'
  proof -
    obtain x where x: "x \<in> set (jobs (tb q))" "job_view x = job_view r" using job [OF r(1)] by blast
    obtain x' where x': "x' \<in> set (jobs (tb q))" "job_view x' = job_view r'" using job [OF r(2)] by blast
    have "j_type x = ''process_crash''" "j_type x' = ''process_crash''"
      using job_viewD(5) [OF x(2)] job_viewD(5) [OF x'(2)] types(1,2) by (simp_all only:)
    moreover have "j_event x = j_event x'" using job_viewD(4) [OF x(2)] job_viewD(4) [OF x'(2)] types(3) by (simp only:)
    ultimately have "j_id x = j_id x'" using keys_okD(3) [OF assms(1) x(1) x'(1)] by blast
    then show ?thesis using job_viewD(1) [OF x(2)] job_viewD(1) [OF x'(2)] by (simp only:)
  qed
  have c: "\<exists>e \<in> set (events (tb q')). serves_event e r"
    if r: "r \<in> set (jobs (tb q'))" "j_type r = ''process_crash''" for r
  proof -
    obtain x where x: "x \<in> set (jobs (tb q))" "job_view x = job_view r" using job [OF r(1)] by blast
    then obtain e where "e \<in> set (events (tb q))" "serves_event e x"
      using keys_okD(4) [OF assms(1) x(1)] job_viewD(5) [OF x(2)] r(2) by auto
    then obtain e' where e': "e' \<in> set (events (tb q'))" "event_view e' = event_view e" "serves_event e x" using event' by blast
    have "serves_event e' r" using serves_views [OF e'(2) x(2) [symmetric]] e'(3) by blast
    with e'(1) show ?thesis by blast
  qed
  show ?thesis
    unfolding keys_ok_def ids
  proof (intro conjI ballI impI)
    fix r r'
    assume "r \<in> set (jobs (tb q'))" "r' \<in> set (jobs (tb q'))"
      and "j_type r = ''process_crash'' \<and> j_type r' = ''process_crash'' \<and> j_event r = j_event r'"
    then show "j_id r = j_id r'" by (elim conjE) (rule b)
  qed (fact keys_okD(1) [OF assms(1)] | rule a c | assumption | rule assms(4) [folded jobs])+
qed

lemma row_views [queue_simps]:
  "job_view (renew t r) = job_view r" "job_view (lease_to now w token r) = job_view r"
  "job_view (complete_row now code r) = job_view r" "job_view (fresh_pending now r) = job_view r"
  "job_view (terminal_row now st code' b r) = job_view r"
  "job_view (release_row now code' delay resource dependency r) = job_view r" "job_view (reactivate now r) = job_view r"
  by (simp_all add: job_view_def renew_def lease_to_def complete_row_def fresh_pending_def terminal_row_def release_row_def
      reactivate_def queue_simps)

lemma update_where_view:
  assumes "\<And>r. v (f r) = v r"
  shows "map v (update_where p f rows) = map v rows"
  using assms by (simp add: update_where_def)

text \<open>An event is served by one job, a job by one event.\<close>

lemma event_by_id:
  assumes "keys_ok q" and "e \<in> set (events (tb q))" and "e' \<in> set (events (tb q))" and "e_id e = e_id e'"
  shows "e = e'"
  using keys_okD(1) [OF assms(1)] assms(2-4) by (auto simp: distinct_map dest: inj_onD)

lemma job_by_id:
  assumes "leases_ok q" and "r \<in> set (jobs (tb q))" and "r' \<in> set (jobs (tb q))" and "j_id r = j_id r'"
  shows "r = r'"
  using assms by (auto simp: leases_ok_def distinct_map dest: inj_onD)

lemma one_job:
  assumes "work_ok q" and "r \<in> set (jobs (tb q))" and "r' \<in> set (jobs (tb q))" and "serves_event e r" and "serves_event e r'"
  shows "r = r'"
proof -
  have "j_id r = j_id r'"
    using assms by (intro keys_okD(3) [of q]) (simp_all add: work_ok_def serves_event_def job_of_event_def)
  then show ?thesis using assms(1-3) job_by_id by (auto simp: work_ok_def)
qed

subsection \<open>Steps that end no attempt\<close>

lemma due_kept:
  assumes "work_ok q" and "claims q' = claims q"
    and "jobs (tb q') = map f (jobs (tb q))" and "events (tb q') = events (tb q)"
    and "map work_view (works (tb q')) = map work_view (works (tb q))"
    and "\<And>r. r \<in> set (jobs (tb q)) \<Longrightarrow> job_view (f r) = job_view r"
    and "\<And>r. r \<in> set (jobs (tb q)) \<Longrightarrow> j_type r = ''process_crash'' \<Longrightarrow> terminal (j_state (f r)) = terminal (j_state r)"
  shows "due_ok q'"
proof (rule due_ok_map [where q = q and f = "\<lambda>e. e" and g = f])
  have due: "due_ok q" using assms(1) by (simp add: work_ok_def)
  show "0 \<le> e_completed e \<and> e_completed e \<le> e_requested e" if "e \<in> set (events (tb q))" for e
    by (rule due_okD(1) [OF due that])
  show "job_due e (f r)" if "e \<in> set (events (tb q))" "r \<in> set (jobs (tb q))" "serves_event e (f r)" for e r
  proof -
    have "serves_event e r" using that(3) serves_view [OF assms(6) [OF that(2)]] by simp
    then have "job_due e r" "j_type r = ''process_crash''" using due_okD(2) [OF due that(1,2)]
      by (auto simp: serves_event_def job_of_event_def)
    then show ?thesis using assms(7) [OF that(2)] by (simp add: job_due_def)
  qed
  show "c_target_generation job \<le> e_requested e" if "e \<in> set (events (tb q))" "(w, job) \<in> set (claims q)"
    "c_event job = Some (e_id e)" for e w job by (rule due_okD(3) [OF due that])
  show "0 \<le> c_target_generation job" if "(w, job) \<in> set (claims q)" for w job by (rule due_okD(4) [OF due that])
  show "\<exists>e \<in> set (events (tb q')). work_of_event e w \<and> e_completed e < w_generation w \<and> w_generation w \<le> e_requested e"
    if w: "w \<in> set (works (tb q'))" "open_work w" for w
  proof -
    have "work_view w \<in> work_view ` set (works (tb q))" using w(1) arg_cong [OF assms(5), of set] by (metis imageI list.set_map)
    then obtain v where v: "v \<in> set (works (tb q))" "work_view v = work_view w" by auto
    then have "open_work v" using w(2) by (simp add: work_view_def)
    then obtain e where "e \<in> set (events (tb q))" "work_of_event e v" "e_completed e < w_generation v" "w_generation v \<le> e_requested e"
      using due_okD(5) [OF due v(1)] by blast
    moreover have "w_event v = w_event w" "w_org v = w_org w" "w_project v = w_project w" "w_generation v = w_generation w"
      using v(2) by (simp_all add: work_view_def)
    ultimately show ?thesis unfolding work_of_event_def assms(4) by metis
  qed
qed (use assms in simp_all)

lemma work_kept:
  assumes "work_ok q" and "leases_ok q'" and "claims q' = claims q"
    and "jobs (tb q') = map f (jobs (tb q))" and "events (tb q') = events (tb q)"
    and "map work_view (works (tb q')) = map work_view (works (tb q))"
    and "\<And>r. r \<in> set (jobs (tb q)) \<Longrightarrow> job_view (f r) = job_view r"
    and "\<And>r. r \<in> set (jobs (tb q)) \<Longrightarrow> j_type r = ''process_crash'' \<Longrightarrow> terminal (j_state (f r)) = terminal (j_state r)"
  shows "work_ok q'"
proof -
  have keys: "keys_ok q" using assms(1) by (simp add: work_ok_def)
  have "map job_view (jobs (tb q')) = map job_view (jobs (tb q))" using assms(7) by (simp add: assms(4))
  moreover have "claim_view ` snd ` set (claims q') \<subseteq> job_view ` set (jobs (tb q))"
    unfolding assms(3) by (rule keys_okD(5) [OF keys])
  ultimately have "keys_ok q'" by (intro keys_ok_same [OF keys]) (simp_all add: assms(5))
  moreover have "due_ok q'"
    by (rule due_kept [OF assms(1,3-6)]) (rule assms(7), assumption, rule assms(8), assumption, assumption)
  ultimately show ?thesis using assms(2) unfolding work_ok_def by blast
qed

text \<open>An update of rows that keeps the events, as \<open>work_kept\<close> for \<^verbatim>\<open>UPDATE ... WHERE\<close>.\<close>

lemma work_kept_update:
  assumes "work_ok q" and "leases_ok (q\<lparr>tb := s'\<rparr>)" and "jobs s' = update_where p f (jobs (tb q))"
    and "events s' = events (tb q)" and "map work_view (works s') = map work_view (works (tb q))"
    and "\<And>r. job_view (f r) = job_view r"
    and "\<And>r. r \<in> set (jobs (tb q)) \<Longrightarrow> p r \<Longrightarrow> j_type r = ''process_crash'' \<Longrightarrow> terminal (j_state (f r)) = terminal (j_state r)"
  shows "work_ok (q\<lparr>tb := s'\<rparr>)"
  by (rule work_kept [OF assms(1,2), where f = "\<lambda>r. if p r then f r else r"]) (simp_all add: assms update_where_def)

lemma held_row:
  assumes "held_by w job r"
  shows "j_state r = Leased" and "j_org r = c_org job" and "j_project r = c_project job" and "\<not> terminal (j_state r)"
  using assms by (simp_all add: held_by_def terminal_def)

subsection \<open>Steps that serve a generation\<close>

lemma work_served:
  assumes ok: "work_ok q" and claim: "(w, job) \<in> set (claims q)" and serves: "serves now w job end_row (tb q) s'"
    and "leases_ok (q\<lparr>tb := s'\<rparr>)" and ends: "\<And>r. terminal (j_state (end_row r))"
    and view: "\<And>r. job_view (end_row r) = job_view r"
  shows "work_ok (q\<lparr>tb := s'\<rparr>)"
proof (cases "c_kind job = ''process_crash''")
  case False
  have "\<not> (held_by w job r \<and> j_type r = ''process_crash'')" if "r \<in> set (jobs (tb q))" for r
    using held_is_newest(2) [of q w job r] ok claim that False by (auto simp: work_ok_def snapshot_def)
  then show ?thesis
    using serves False
    by (intro work_kept_update [OF ok assms(4), where f = end_row and p = "held_by w job"]) (auto simp: serves_def view)
next
  case True
  have leases: "leases_ok q" and keys: "keys_ok q" and due: "due_ok q" using ok by (simp_all add: work_ok_def)
  let ?t = "c_target_generation job"
  obtain event e f g where event: "c_event job = Some event" and e: "e \<in> set (events (tb q))" "event_matches job event e"
    and events: "events s' = update_where (event_matches job event) f (events (tb q))"
    and f': "\<forall>e. e_id (f e) = e_id e \<and> e_org (f e) = e_org e \<and> e_project (f e) = e_project e \<and> e_requested (f e) = e_requested e
      \<and> e_completed (f e) = max (e_completed e) ?t"
    and works: "?t \<le> 0 \<and> works s' = works (tb q)
      \<or> works s' = update_where (work_of job event [Queued, Running]) g (works (tb q))"
    and g: "\<forall>w. \<not> open_work (g w)"
    and jobs: "jobs s' = update_where (held_by w job) (if e_requested e > ?t then fresh_pending now else end_row) (jobs (tb q))"
    using serves unfolding serves_def if_P [OF True] by blast
  have f: "event_view (f e) = event_view e" "e_requested (f e) = e_requested e" "e_completed (f e) = max (e_completed e) ?t" for e
    using f' by (simp_all add: event_view_def)
  obtain r where r: "r \<in> set (jobs (tb q))" "held_by w job r" using serves unfolding serves_def list_ex_iff by blast
  have snap: "snapshot job r" by (rule held_is_newest(2) [OF leases claim r])
  have re: "serves_event e r"
    using snap e(2) event True held_row [OF r(2)] by (auto simp: snapshot_def event_matches_def serves_event_def job_of_event_def)
  have only_e: "event_matches job event x \<longleftrightarrow> x = e" if "x \<in> set (events (tb q))" for x
    using event_by_id [OF keys that e(1)] e(2) by (auto simp: event_matches_def)
  have only_r: "held_by w job x \<longleftrightarrow> x = r" if "x \<in> set (jobs (tb q))" for x
    using job_by_id [OF leases that r(1)] r(2) by (auto simp: held_by_def)
  have bounds: "0 \<le> e_completed e" "e_completed e \<le> e_requested e" "0 \<le> ?t" "?t \<le> e_requested e"
    "e_requested e > 0 \<longrightarrow> e_completed e < e_requested e"
    using due_okD(1,3) [OF due e(1)] due_okD(4) [OF due claim] due_okD(2) [OF due e(1) r(1) re] claim event e(2)
      held_row(4) [OF r(2)] by (auto simp: event_matches_def job_due_def)
  let ?f = "\<lambda>x. if x = e then f e else x"
  let ?g = "\<lambda>x. if x = r then (if e_requested e > ?t then fresh_pending now r else end_row r) else x"
  have events': "events s' = map ?f (events (tb q))"
    using only_e by (simp add: events update_where_def)
  have jobs': "jobs s' = map ?g (jobs (tb q))"
    using only_r by (simp add: jobs update_where_def)
  have "map job_view (jobs s') = map job_view (jobs (tb q))"
    by (simp add: jobs' view queue_simps)
  moreover have "map event_view (events s') = map event_view (events (tb q))"
    by (simp add: events' f(1))
  ultimately have "keys_ok (q\<lparr>tb := s'\<rparr>)"
    using keys_okD(5) [OF keys] by (intro keys_ok_same [OF keys]) simp_all
  moreover have "due_ok (q\<lparr>tb := s'\<rparr>)"
  proof -
    have same_event: "y = e" if "y \<in> set (events (tb q))" "serves_event y r" for y
      using event_by_id [OF keys that(1) e(1)] that(2) re by (simp add: serves_event_def job_of_event_def)
    have due_e: "job_due (f e) (?g r)"
      using bounds ends [of r] by (auto simp: job_due_def f queue_simps terminal_def)
    have due_jobs: "job_due (?f y) (?g z)"
      if "y \<in> set (events (tb q))" "z \<in> set (jobs (tb q))" "serves_event (?f y) (?g z)" for y z
    proof -
      have "job_view (?g z) = job_view z" "event_view (?f y) = event_view y" by (simp_all add: view queue_simps f(1))
      then have yz: "serves_event y z" using serves_views [of "?f y" y "?g z" z] that(3) by blast
      show ?thesis
      proof (cases "y = e")
        case True
        then have "z = r" using one_job [OF ok that(2) r(1) _ re] yz by simp
        with True due_e show ?thesis by simp
      next
        case False
        then have "z \<noteq> r" using same_event that(1) yz by auto
        with False due_okD(2) [OF due that(1,2) yz] show ?thesis by simp
      qed
    qed
    have due_works: "\<exists>x \<in> set (events s'). work_of_event x v \<and> e_completed x < w_generation v \<and> w_generation v \<le> e_requested x"
      if v: "v \<in> set (works s')" "open_work v" for v
    proof -
      have v': "v \<in> set (works (tb q)) \<and> (?t \<le> 0 \<or> \<not> work_of job event [Queued, Running] v)"
        using works
      proof
        assume "works s' = update_where (work_of job event [Queued, Running]) g (works (tb q))"
        then have "v \<in> (\<lambda>w. if work_of job event [Queued, Running] w then g w else w) ` set (works (tb q))"
          using v(1) by (simp add: queue_simps)
        then obtain u where "u \<in> set (works (tb q))" "v = (if work_of job event [Queued, Running] u then g u else u)" by (rule imageE)
        then show ?thesis using v(2) g by (cases "work_of job event [Queued, Running] u") auto
      qed (use v in simp)
      then obtain y where y: "y \<in> set (events (tb q))" "work_of_event y v" "e_completed y < w_generation v"
        "w_generation v \<le> e_requested y" using due_okD(5) [OF due _ v(2)] by blast
      have "e_completed (?f y) < w_generation v"
      proof (cases "y = e")
        case True
        have "w_generation v > ?t"
        proof (rule ccontr)
          assume low: "\<not> w_generation v > ?t"
          then have "\<not> ?t \<le> 0" using y(3) bounds(1) True by simp
          then have "\<not> work_of job event [Queued, Running] v" using v' by simp
          then show False
            using low True y(2) v(2) e(2) by (auto simp: work_of_def work_of_event_def event_matches_def open_work_def)
        qed
        then show ?thesis using True y(3) by (simp add: f)
      qed (use y in simp)
      moreover have "?f y \<in> set (events s')" unfolding events' list.set_map by (rule imageI) (rule y(1))
      moreover have "work_of_event (?f y) v" "w_generation v \<le> e_requested (?f y)"
        using y(2,4) f(1) [of e] f(2) [of e] by (cases "y = e"; simp add: work_of_event_def event_view_def)+
      ultimately show ?thesis by blast
    qed
    have "0 \<le> e_completed (?f y) \<and> e_completed (?f y) \<le> e_requested (?f y)" if "y \<in> set (events (tb q))" for y
      using due_okD(1) [OF due that] bounds by (cases "y = e") (simp_all add: f max_def)
    moreover have "c_target_generation c \<le> e_requested (?f y)"
      if "y \<in> set (events (tb q))" "(v, c) \<in> set (claims q)" "c_event c = Some (e_id (?f y))" for y c v
    proof -
      have "e_id (?f y) = e_id y" "e_requested (?f y) = e_requested y" using f(1) [of e] f(2) [of e] by (simp_all add: event_view_def)
      then show ?thesis using due_okD(3) [OF due that(1,2)] that(3) by simp
    qed
    ultimately show ?thesis
      by (intro due_ok_map [where q = q and f = ?f and g = ?g])
        (use events' jobs' due_jobs due_works due_okD(4) [OF due] in \<open>simp_all del: if_split\<close>)
  qed
  ultimately show ?thesis using assms(4) by (simp add: work_ok_def)
qed

subsection \<open>Claims and inserts\<close>

lemma target_of_claim:
  assumes "keys_ok q" and "job = claimed now (tb q) token p r" and "due_ok q"
  shows "0 \<le> c_target_generation job"
    and "e \<in> set (events (tb q)) \<Longrightarrow> c_event job = Some (e_id e) \<Longrightarrow> c_target_generation job \<le> e_requested e"
proof -
  have target: "c_target_generation job = (case event_of (tb q) r of None \<Rightarrow> 0 | Some e \<Rightarrow> e_requested e)" "c_event job = j_event r"
    using assms(2) by (simp_all add: claimed_def)
  have found: "e \<in> set (events (tb q)) \<and> j_event r = Some (e_id e)" if "event_of (tb q) r = Some e" for e
    using that by (auto simp: event_of_def find_Some_iff bind_eq_Some_conv)
  show "0 \<le> c_target_generation job"
    using found due_okD(1) [OF assms(3)] by (force simp: target(1) split: option.splits)
  show "c_target_generation job \<le> e_requested e" if "e \<in> set (events (tb q))" "c_event job = Some (e_id e)"
  proof (cases "event_of (tb q) r")
    case None
    then show ?thesis using due_okD(1) [OF assms(3) that(1)] by (simp add: target(1))
  next
    case (Some x)
    then have "x = e" using found [OF Some] event_by_id [OF assms(1) _ that(1), of x] that(2) target(2) by simp
    then show ?thesis using Some by (simp add: target(1))
  qed
qed

lemma work_claimed:
  assumes ok: "work_ok q" and r: "r \<in> set (jobs (tb q))" "claimable now r" and job: "job = claimed now (tb q) token p r"
    and "leases_ok (q\<lparr>tb := s', claims := (w, job) # claims q\<rparr>)"
    and jobs: "jobs s' = update_where (\<lambda>r'. j_id r' = j_id r) (lease_to now w token) (jobs (tb q))"
    and "events s' = events (tb q)" and works: "map work_view (works s') = map work_view (works (tb q))"
  shows "work_ok (q\<lparr>tb := s', claims := (w, job) # claims q\<rparr>)"
proof -
  have leases: "leases_ok q" and keys: "keys_ok q" and due: "due_ok q" using ok by (simp_all add: work_ok_def)
  have "\<not> terminal (j_state r)" using r(2) by (auto simp: claimable_def terminal_def)
  then have states: "terminal (j_state (lease_to now w token x)) = terminal (j_state x)"
    if "x \<in> set (jobs (tb q))" "j_id x = j_id r" for x
    using job_by_id [OF leases that(1) r(1) that(2)] by (simp add: lease_to_def terminal_def)
  have kept: "keys_ok (q\<lparr>tb := s'\<rparr>) \<and> due_ok (q\<lparr>tb := s'\<rparr>)"
  proof -
    have view: "map job_view (jobs s') = map job_view (jobs (tb q))" by (simp add: jobs update_where_view queue_simps)
    have "keys_ok (q\<lparr>tb := s'\<rparr>)"
      using keys_okD(5) [OF keys] view assms(7) by (intro keys_ok_same [OF keys]) simp_all
    moreover have "due_ok (q\<lparr>tb := s'\<rparr>)"
      by (rule due_kept [OF ok, where f = "\<lambda>x. if j_id x = j_id r then lease_to now w token x else x"])
        (use states assms(7) works in \<open>simp_all add: jobs update_where_def queue_simps\<close>)
    ultimately show ?thesis ..
  qed
  have "claim_view job = job_view r" by (simp add: job claimed_def claim_view_def job_view_def)
  moreover have "job_view r \<in> job_view ` set (jobs s')"
  proof -
    have "job_view ` set (jobs s') = job_view ` set (jobs (tb q))"
      using arg_cong [where f = set, OF update_where_view [of job_view "lease_to now w token" "\<lambda>r'. j_id r' = j_id r" "jobs (tb q)"]]
      by (simp add: jobs queue_simps)
    then show ?thesis using r(1) by simp
  qed
  ultimately have "claim_view job \<in> job_view ` set (jobs s')" by (simp only:)
  moreover have "keys_ok (q\<lparr>tb := s'\<rparr>)" using kept ..
  ultimately have "keys_ok (q\<lparr>tb := s', claims := (w, job) # claims q\<rparr>)"
    using keys_okD(5) [of "q\<lparr>tb := s'\<rparr>"] by - (rule keys_ok_same [of "q\<lparr>tb := s'\<rparr>"], simp_all)
  moreover have "due_ok (q\<lparr>tb := s', claims := (w, job) # claims q\<rparr>)"
    using kept target_of_claim [OF keys job due] assms(7) unfolding due_ok_def by simp
  ultimately show ?thesis using assms(5) by (simp add: work_ok_def)
qed

lemma work_new_job:
  assumes ok: "work_ok q" and r: "new_job r" "j_id r \<notin> j_id ` set (jobs (tb q))" "j_type r \<noteq> ''process_crash''"
  shows "work_ok (q\<lparr>tb := (tb q)\<lparr>jobs := r # jobs (tb q)\<rparr>\<rparr>)"
proof -
  have leases: "leases_ok q" and keys: "keys_ok q" and due: "due_ok q" using ok by (simp_all add: work_ok_def)
  have other: "\<not> serves_event e r" for e using r(3) by (simp add: serves_event_def job_of_event_def)
  have "leases_ok (q\<lparr>tb := (tb q)\<lparr>jobs := r # jobs (tb q)\<rparr>\<rparr>)" by (rule leases_ok_new_row [OF leases r(1,2)]) simp_all
  moreover have "keys_ok (q\<lparr>tb := (tb q)\<lparr>jobs := r # jobs (tb q)\<rparr>\<rparr>)"
    unfolding keys_ok_def
  proof (intro conjI ballI impI, goal_cases)
    case (2 e)
    then show ?case using keys_okD(2) [OF keys, of e] by auto
  next
    case (3 x x')
    then show ?case using keys_okD(3) [OF keys, of x x'] r(3) by auto
  next
    case (4 x)
    then show ?case using keys_okD(4) [OF keys, of x] r(3) by auto
  qed (use keys_okD(1,5) [OF keys] in auto)
  moreover have "due_ok (q\<lparr>tb := (tb q)\<lparr>jobs := r # jobs (tb q)\<rparr>\<rparr>)"
    using due other by (simp add: due_ok_def)
  ultimately show ?thesis by (simp add: work_ok_def)
qed

lemma work_ingested:
  assumes ok: "work_ok q" and r: "new_job r" "j_id r \<notin> j_id ` set (jobs (tb q))" "j_type r = ''process_crash''"
    and e: "j_event r = Some (e_id e)" "j_org r = e_org e" "j_project r = e_project e"
      "e_id e \<notin> e_id ` set (events (tb q))" "Some (e_id e) \<notin> j_event ` set (jobs (tb q))" "e_requested e = 0" "e_completed e = 0"
  shows "work_ok (q\<lparr>tb := (tb q)\<lparr>events := e # events (tb q), jobs := r # jobs (tb q)\<rparr>\<rparr>)"
    (is "work_ok ?q")
proof -
  have leases: "leases_ok q" and keys: "keys_ok q" and due: "due_ok q" using ok by (simp_all add: work_ok_def)
  have er: "serves_event e r" using r(3) e(1-3) by (simp add: serves_event_def job_of_event_def)
  have not_e: "\<not> serves_event e x" if "x \<in> set (jobs (tb q))" for x
    using that e(5) by (force simp: serves_event_def job_of_event_def)
  have not_r: "\<not> serves_event y r" if "y \<in> set (events (tb q))" for y
    using that e(1,4) by (force simp: serves_event_def job_of_event_def)
  have no_claim: "c_event (snd c) \<noteq> Some (e_id e)" if "c \<in> set (claims q)" for c
  proof -
    have "claim_view (snd c) \<in> job_view ` set (jobs (tb q))" using keys_okD(5) [OF keys] that by auto
    then obtain x where "x \<in> set (jobs (tb q))" "j_event x = c_event (snd c)" by (auto simp: claim_view_def job_view_def)
    then show ?thesis using e(5) by (metis image_eqI)
  qed
  have "leases_ok ?q" by (rule leases_ok_new_row [OF leases r(1,2)]) simp_all
  moreover have "keys_ok ?q"
    unfolding keys_ok_def
  proof (intro conjI ballI impI, goal_cases)
    case (2 x)
    show ?case
    proof (cases "x = e")
      case True
      then show ?thesis using r(3) e by (auto simp: job_view_def)
    qed (use 2 keys_okD(2) [OF keys, of x] in auto)
  next
    case (3 x x')
    then show ?case using keys_okD(3) [OF keys, of x x'] e(1,5) by (auto simp: image_iff)
  next
    case (4 x)
    then show ?case using keys_okD(4) [OF keys, of x] er by auto
  qed (use keys_okD(1,5) [OF keys] e(4) in auto)
  moreover have "due_ok ?q"
    unfolding due_ok_def
  proof (intro conjI ballI impI, goal_cases)
    case (3 x z)
    have pending: "job_due e r" using r(1) e(6) by (simp add: job_due_def new_job_def terminal_def)
    show ?case
    proof (cases "x = e")
      case True
      then have "z = r" using 3 not_e by auto
      then show ?thesis using True pending by simp
    next
      case False
      then have "x \<in> set (events (tb q))" using 3(1) by simp
      moreover have "z \<in> set (jobs (tb q))" using 3(2,3) not_r [OF calculation] by auto
      ultimately show ?thesis using due_okD(2) [OF due] 3(3) by blast
    qed
  next
    case (4 x c)
    show ?case
    proof (cases "x = e")
      case True
      then show ?thesis using 4 no_claim by auto
    next
      case False
      then show ?thesis using 4 due_okD(3) [OF due, of x "fst c" "snd c"] by auto
    qed
  next
    case (6 v)
    then show ?case using due_okD(5) [OF due, of v] by auto
  qed (use due_okD(1) [OF due] due_okD(4) [OF due] e(6,7) in auto)
  ultimately show ?thesis by (simp add: work_ok_def)
qed

subsection \<open>Scheduling and reconciliation\<close>

lemma eligible_mem:
  "(e, r) \<in> set (eligible rq ids s) \<longleftrightarrow> e \<in> set (events s) \<and> e_org e = q_org rq \<and> e_project e = q_project rq \<and> e_id e \<in> set ids
     \<and> \<not> list_ex (\<lambda>w. w_request w = q_id rq \<and> w_event w = e_id e) (works s) \<and> r \<in> set (jobs s) \<and> serves_event e r"
  by (auto simp: eligible_def serves_event_def)

lemma running_generation_nonneg: "0 \<le> running_generation s e"
  by (simp add: running_generation_def)

text \<open>The generation that is given to a new request is still to be completed.\<close>

lemma next_generation_new:
  assumes "due_ok q" and "e \<in> set (events (tb q))" and "r \<in> set (jobs (tb q))" and "serves_event e r"
  shows "e_completed e < next_generation (tb q) e r" and "e_requested e \<le> next_generation (tb q) e r"
proof -
  have "job_due e r" by (rule due_okD(2) [OF assms])
  then show "e_completed e < next_generation (tb q) e r" "e_requested e \<le> next_generation (tb q) e r"
    using due_okD(1) [OF assms(1,2)] running_generation_nonneg [of "tb q" e]
    by (auto simp: next_generation_def job_due_def terminal_def split: if_splits)
qed

lemma generations_Some:
  assumes "generations s chosen i = Some g"
  shows "\<exists>e r. (e, r) \<in> set chosen \<and> e_id e = i \<and> g = next_generation s e r"
  using map_of_SomeD [OF assms [unfolded generations_def]] by auto

lemma generation_of_chosen:
  assumes "work_ok q" and "chosen = eligible rq ids (tb q)" and "(e, r) \<in> set chosen"
  shows "generations (tb q) chosen (e_id e) = Some (next_generation (tb q) e r)"
proof -
  have keys: "keys_ok q" using assms(1) by (simp add: work_ok_def)
  have "generations (tb q) chosen (e_id e) \<noteq> None"
    using assms(3) unfolding generations_def by (auto simp: map_of_eq_None_iff image_iff intro!: bexI [of _ "(e, r)"])
  then obtain g where g: "generations (tb q) chosen (e_id e) = Some g" by auto
  then obtain e' r' where er': "(e', r') \<in> set chosen" "e_id e' = e_id e" "g = next_generation (tb q) e' r'"
    using generations_Some by blast
  have "e' = e" using event_by_id [OF keys, of e' e] er' assms(2,3) by (simp add: eligible_mem)
  moreover have "r' = r" using one_job [OF assms(1), of r' r e] er'(1) assms(2,3) calculation by (simp add: eligible_mem)
  ultimately show ?thesis using g er'(3) by simp
qed

lemma work_scheduled:
  assumes ok: "work_ok q" and chosen: "chosen = eligible rq ids (tb q)" and leases: "leases_ok (q\<lparr>tb := s'\<rparr>)"
    and jobs: "jobs s' = update_where (\<lambda>r. list_ex (\<lambda>(e, r'). job_of_event (q_org rq) (q_project rq) (e_id e) r) chosen)
      (reactivate now) (jobs (tb q))"
    and events: "events s' = update_where (\<lambda>e. e_org e = q_org rq \<and> e_project e = q_project rq
        \<and> generations (tb q) chosen (e_id e) \<noteq> None)
      (\<lambda>e. e\<lparr>e_requested := the (generations (tb q) chosen (e_id e))\<rparr>) (events (tb q))"
    and works: "works s' = works (tb q) @ map (\<lambda>(e, r). new_work rq e (next_generation (tb q) e r)) chosen"
  shows "work_ok (q\<lparr>tb := s'\<rparr>)"
proof -
  have keys: "keys_ok q" and due: "due_ok q" using ok by (simp_all add: work_ok_def)
  define f where "f e = (if e_org e = q_org rq \<and> e_project e = q_project rq \<and> generations (tb q) chosen (e_id e) \<noteq> None
    then e\<lparr>e_requested := the (generations (tb q) chosen (e_id e))\<rparr> else e)" for e :: event_row
  define g where "g r = (if list_ex (\<lambda>(e, r'). job_of_event (q_org rq) (q_project rq) (e_id e) r) chosen
    then reactivate now r else r)" for r :: job_row
  have events': "events s' = map f (events (tb q))" and jobs': "jobs s' = map g (jobs (tb q))"
    using events jobs by (simp_all add: update_where_def f_def [abs_def] g_def [abs_def])
  have views: "event_view (f e) = event_view e" "job_view (g r) = job_view r" "e_completed (f e) = e_completed e" for e r
    by (simp_all add: f_def g_def event_view_def row_views(7))
  have f: "f e = e \<or> (\<exists>r. (e, r) \<in> set chosen \<and> f e = e\<lparr>e_requested := next_generation (tb q) e r\<rparr>)"
    if e: "e \<in> set (events (tb q))" for e
  proof (cases "f e = e")
    case False
    then obtain v where "generations (tb q) chosen (e_id e) = Some v" by (auto simp: f_def split: if_splits)
    then obtain e' r where er: "(e', r) \<in> set chosen" "e_id e' = e_id e" using generations_Some by blast
    then have "e' = e" using event_by_id [OF keys, of e' e] e chosen by (simp add: eligible_mem)
    then show ?thesis using er generation_of_chosen [OF ok chosen, of e r] False by (auto simp: f_def split: if_splits)
  qed simp
  have f_chosen: "f e = e\<lparr>e_requested := next_generation (tb q) e r\<rparr>" if "(e, r) \<in> set chosen" for e r
    using generation_of_chosen [OF ok chosen that] that chosen by (simp add: f_def eligible_mem)
  have grows: "e_requested e \<le> e_requested (f e)" if "e \<in> set (events (tb q))" for e
    using f [OF that] next_generation_new(2) [OF due that] chosen by (auto simp: eligible_mem)
  have state: "g r = r \<or> \<not> terminal (j_state (g r))" for r
    by (auto simp: g_def reactivate_def terminal_def queue_simps)
  have "keys_ok (q\<lparr>tb := s'\<rparr>)"
    by (rule keys_ok_same [OF keys]) (use keys_okD(5) [OF keys] in \<open>simp_all add: events' jobs' views\<close>)
  moreover have "due_ok (q\<lparr>tb := s'\<rparr>)"
  proof (rule due_ok_map [where q = q and f = f and g = g])
    show "0 \<le> e_completed (f e) \<and> e_completed (f e) \<le> e_requested (f e)" if "e \<in> set (events (tb q))" for e
      using due_okD(1) [OF due that] grows [OF that] by (simp add: views)
    show "job_due (f e) (g r)" if e: "e \<in> set (events (tb q))" and r: "r \<in> set (jobs (tb q))" and s: "serves_event (f e) (g r)" for e r
    proof -
      have er: "serves_event e r" using s serves_views [OF views(1,2)] by blast
      show ?thesis
      proof (cases "\<exists>r'. (e, r') \<in> set chosen")
        case True
        then obtain r' where r': "(e, r') \<in> set chosen" ..
        then have "r' = r" using one_job [OF ok _ r _ er] chosen by (simp add: eligible_mem)
        then have "\<not> terminal (j_state (g r))"
          using r' er chosen by (auto simp: g_def list_ex_iff eligible_mem serves_event_def reactivate_def terminal_def queue_simps)
        then show ?thesis
          using f_chosen [OF r'] next_generation_new(1) [OF due e r er] \<open>r' = r\<close> by (simp add: job_due_def)
      next
        case False
        then have "f e = e" using f [OF e] by blast
        moreover have "g r = r"
        proof (rule ccontr)
          assume "g r \<noteq> r"
          then obtain e' r' where e': "(e', r') \<in> set chosen" "job_of_event (q_org rq) (q_project rq) (e_id e') r"
            by (auto simp: g_def list_ex_iff split: if_splits)
          then have "e_id e' = e_id e" using er by (simp add: serves_event_def job_of_event_def)
          then have "e' = e" using event_by_id [OF keys, of e' e] e e'(1) chosen by (simp add: eligible_mem)
          with False e'(1) show False by blast
        qed
        ultimately show ?thesis using due_okD(2) [OF due e r er] by simp
      qed
    qed
    show "c_target_generation job \<le> e_requested (f e)" if "e \<in> set (events (tb q))" "(w, job) \<in> set (claims q)"
      "c_event job = Some (e_id (f e))" for e w job
      using due_okD(3) [OF due that(1,2)] that(3) views(1) [of e] grows [OF that(1)] by (simp add: event_view_def)
    show "0 \<le> c_target_generation job" if "(w, job) \<in> set (claims q)" for w job by (rule due_okD(4) [OF due that])
    show "\<exists>e \<in> set (events (tb (q\<lparr>tb := s'\<rparr>))). work_of_event e v \<and> e_completed e < w_generation v \<and> w_generation v \<le> e_requested e"
      if v: "v \<in> set (works (tb (q\<lparr>tb := s'\<rparr>)))" "open_work v" for v
    proof (cases "v \<in> set (works (tb q))")
      case True
      then obtain e where e: "e \<in> set (events (tb q))" "work_of_event e v" "e_completed e < w_generation v" "w_generation v \<le> e_requested e"
        using due_okD(5) [OF due _ v(2)] by blast
      have "work_of_event (f e) v" using e(2) views(1) [of e] by (simp add: work_of_event_def event_view_def)
      then show ?thesis using e grows [OF e(1)] by (intro bexI [of _ "f e"]) (simp_all add: events' views)
    next
      case False
      then obtain e r where er: "(e, r) \<in> set chosen" "v = new_work rq e (next_generation (tb q) e r)"
        using v(1) by (auto simp: works)
      then have e: "e \<in> set (events (tb q))" "r \<in> set (jobs (tb q))" "serves_event e r" "e_org e = q_org rq" "e_project e = q_project rq"
        using chosen by (simp_all add: eligible_mem)
      have "f e \<in> set (events s')" using e(1) by (simp add: events')
      moreover have "work_of_event (f e) v \<and> e_completed (f e) < w_generation v \<and> w_generation v \<le> e_requested (f e)"
        using f_chosen [OF er(1)] next_generation_new(1) [OF due e(1-3)] er(2) e(4,5) by (simp add: work_of_event_def new_work_def)
      ultimately show ?thesis by auto
    qed
  qed (simp_all add: events' jobs')
  ultimately show ?thesis using leases by (simp add: work_ok_def)
qed

text \<open>There is never anything to reconcile: no job has ended before it served what was requested.\<close>

lemma nothing_unserved:
  assumes "work_ok q" and "w \<in> set (works (tb q))"
  shows "\<not> unserved (tb q) w"
proof
  assume unserved: "unserved (tb q) w"
  have keys: "keys_ok q" and due: "due_ok q" using assms(1) by (simp_all add: work_ok_def)
  obtain r where r: "r \<in> set (jobs (tb q))" "job_of_event (w_org w) (w_project w) (w_event w) r" "terminal (j_state r)"
    using unserved by (auto simp: unserved_def list_ex_iff terminal_def)
  obtain e where e: "e \<in> set (events (tb q))" "work_of_event e w" "e_completed e < w_generation w" "w_generation w \<le> e_requested e"
    using due_okD(5) [OF due assms(2)] unserved by (auto simp: unserved_def open_work_def)
  have "serves_event e r" using r(2) e(2) by (simp add: serves_event_def work_of_event_def)
  then have "job_due e r" by (rule due_okD(2) [OF due e(1) r(1)])
  with e r(3) show False by (simp add: job_due_def)
qed

lemma no_update: "update_where (\<lambda>_. False) f rows = rows" "affected (\<lambda>_. False) rows = 0"
  by (simp_all add: update_where_def affected_def)

lemma terminal_states: "\<not> terminal Pending" "\<not> terminal Leased" "terminal Completed" "terminal Failed" "terminal Dead"
  by (simp_all add: terminal_def)

lemma reconcile_idle:
  assumes "work_ok q" and "reconcile_reprocessing_event_jobs now skipped (tb q) = Inr (b, s')"
  shows "s' = tb q \<and> \<not> b"
proof -
  have "filter (\<lambda>w. unserved (tb q) w \<and> \<not> skipped w) (works (tb q)) = []"
    using nothing_unserved [OF assms(1)] by (simp add: filter_empty_conv)
  with assms(2) show ?thesis
    by (auto simp: reconcile_reprocessing_event_jobs_def Let_def no_update)
qed

lemma reconcile_commit:
  assumes "work_ok q"
  shows "snd (commit (reconcile_reprocessing_event_jobs now skipped) (tb q)) = tb q"
proof (cases "reconcile_reprocessing_event_jobs now skipped (tb q)")
  case (Inr v)
  then show ?thesis using reconcile_idle [OF assms, of now skipped "fst v" "snd v"] by (simp add: commit_def case_prod_beta)
qed (simp add: commit_def)

lemma work_applied:
  assumes "work_ok q" and "\<And>s'. t (tb q) = Inr s' \<Longrightarrow> work_ok (q\<lparr>tb := s'\<rparr>)"
  shows "work_ok (q\<lparr>tb := apply_tables t (tb q)\<rparr>)"
  by (rule apply_tables_cases [of t "tb q"]) (use assms in simp_all)

lemma work_released:
  assumes ok: "work_ok q" and claim: "(w, job) \<in> set (claims q)"
    and rel: "release_job now w job code delay resource dependency (tb q) = Inr s'" and "resource \<Longrightarrow> c_resource_failures job = 0"
    and code: "jobs_failure_code_check (Some code)"
  shows "work_ok (q\<lparr>tb := s'\<rparr>)"
proof -
  have "leases_ok q" using ok by (simp add: work_ok_def)
  note leases = release_leases_ok [OF this claim rel assms(4) code]
  show ?thesis
    using release_job_ok [OF rel]
    by (intro work_kept_update [OF ok leases, where f = "release_row now code delay resource dependency" and p = "held_by w job"])
      (auto simp: queue_simps held_row(4) terminal_states)
qed

lemma work_failed:
  assumes ok: "work_ok q" and claim: "(w, job) \<in> set (claims q)" and fails: "finish_failure now w job code qn rf (tb q) = Inr s'"
    and code: "jobs_failure_code_check (Some code)"
  shows "work_ok (q\<lparr>tb := s'\<rparr>)"
proof -
  have "leases_ok q" using ok by (simp add: work_ok_def)
  from finish_failure_leases_ok [OF this claim fails code] show ?thesis
    by (rule work_served [OF ok claim finish_failure_serves [OF fails]]) (simp_all add: queue_simps terminal_def)
qed

lemma work_published:
  assumes ok: "work_ok q" and claim: "(w, job) \<in> set (claims q)" and serves: "serves now w job (complete_row now code) (tb q) s'"
    and code: "jobs_failure_code_check code"
  shows "work_ok (q\<lparr>tb := s'\<rparr>)"
proof -
  have "leases_ok q" using ok by (simp add: work_ok_def)
  then have "leases_ok (q\<lparr>tb := s'\<rparr>)"
    by (rule serves_leases_ok [OF _ claim serves]) (simp_all add: queue_simps ended_rows_ok code)
  then show ?thesis by (rule work_served [OF ok claim serves]) (simp_all add: queue_simps terminal_def)
qed

lemma step_work_ok:
  assumes "step a q q'" and ok: "work_ok q"
  shows "work_ok q'"
proof -
  have leases: "leases_ok q'" using step_leases_ok [OF assms(1)] ok by (simp add: work_ok_def)
  show ?thesis
    using assms(1)
  proof cases
    case (tick t s)
    then show ?thesis
      by (intro work_kept [OF ok leases, where f = "\<lambda>r. r"]) (simp_all add: elsewhere_def)
  next
    case (claim worker limit token locked_projects locked_jobs job s)
    show ?thesis
    proof (rule claim_ok [OF claim(3)])
      fix p r
      assume "job = claimed (clock q) (tb q) token p r" "r \<in> set (jobs (tb q))" "claimable (clock q) r"
        "jobs s = update_where (\<lambda>r'. j_id r' = j_id r) (lease_to (clock q) worker token) (jobs (tb q))" "events s = events (tb q)"
        "map work_view (works s) = map work_view (works (tb q))"
      then show ?thesis using work_claimed [OF ok] leases claim(2) by blast
    qed
  next
    case (beat worker job)
    show ?thesis
      by (rule work_kept [OF ok leases, where f = "\<lambda>r. if held_by worker job r then renew (clock q) r else r"])
        (simp_all add: beat heartbeat_def update_where_def queue_simps, simp_all add: renew_def)
  next
    case (finish worker job outcome e)
    show ?thesis
      unfolding finish(2)
      by (rule finish_result_cases [of "clock q" worker job "Inl e" "tb q"])
        (use ok finish(5) work_released [OF ok finish(3)] work_failed [OF ok finish(3)] in auto)
  next
    case (publish_crash worker job event result state reason)
    show ?thesis
      unfolding publish_crash(2)
      by (rule work_applied [OF ok]) (rule work_published [OF ok publish_crash(3) publish_settled_serves [OF _ publish_crash(5,6)] no_failure_code])
  next
    case (publish_other worker job code)
    show ?thesis
      unfolding publish_other(2)
      by (rule work_applied [OF ok]) (rule work_published [OF ok publish_other(3) publish_completed_serves [OF _ publish_other(5)] publish_other(6)])
  next
    case (cancel worker job)
    show ?thesis
      unfolding cancel(2) cancel_job_def
      by (rule work_applied [OF ok]) (rule work_released [OF ok cancel(3) _ _ literal_codes(2)], assumption, simp)
  next
    case (ingest r e)
    show ?thesis unfolding ingest(2) by (rule work_ingested [OF ok]) (rule ingest)+
  next
    case (enqueue r)
    show ?thesis unfolding enqueue(2) by (rule work_new_job [OF ok]) (rule enqueue)+
  next
    case (request rows)
    then show ?thesis by (intro work_kept [OF ok leases, where f = "\<lambda>r. r"]) simp_all
  next
    case (schedule page worker request)
    show ?thesis
      unfolding schedule(2)
    proof (rule work_applied [OF ok])
      fix s' assume expand: "expand_reprocessing_request (clock q) worker request page (tb q) = Inr s'"
      have "leases_ok q" using ok by (simp add: work_ok_def)
      note kept = leases_ok_update [OF this _ restarted_rows_ok(2)]
      show "work_ok (q\<lparr>tb := s'\<rparr>)"
        by (rule expand_rows [OF expand]) (rule work_scheduled [OF ok], assumption, rule kept, assumption+)
    qed
  next
    case (reconcile skipped)
    then show ?thesis using ok by (simp add: reconcile_commit)
  qed
qed

lemma reachable_work_ok: "reachable_by allowed q \<Longrightarrow> work_ok q"
proof (induction rule: reachable_by.induct)
  case (initial ps t)
  then show ?case by (simp add: work_ok_def leases_ok_def keys_ok_def due_ok_def empty_tables_def)
qed (rule step_work_ok)

end
