(* ===== verification/Queue_Facts.thy ===== *)
theory Queue_Facts
  imports Queue_Work
begin

section \<open>Properties of the job queue\<close>

text \<open>
  What a claim takes, that a lease is exclusive, and that no requested generation is dropped, each with a
  concrete run of the queue as its witness.
\<close>

subsection \<open>Claims\<close>

lemma live_after_lease:
  assumes "distinct (map j_id (jobs s))" and "r \<in> set (jobs s)" and "claimable now r"
    and "jobs s' = update_where (\<lambda>r'. j_id r' = j_id r) (lease_to now w token) (jobs s)"
  shows "active_jobs now s' p = active_jobs now s p + (if in_project p r then 1 else 0)"
proof -
  let ?live = "\<lambda>r. in_project p r \<and> j_state r = Leased \<and> unexpired now r"
  obtain as bs where split: "jobs s = as @ r # bs" using split_list [OF assms(2)] by blast
  have "j_id r \<notin> j_id ` (set as \<union> set bs)" using assms(1) by (simp add: split image_Un)
  then have others: "j_id x \<noteq> j_id r" if "x \<in> set as \<union> set bs" for x
    using that by (metis imageI)
  have "jobs s' = as @ lease_to now w token r # bs"
    using others by (simp add: assms(4) split update_where_def map_idI)
  moreover have "\<not> ?live r" using assms(3) by (auto simp: claimable_def unexpired_def is_some_and_iff)
  moreover have "?live (lease_to now w token r) = in_project p r"
    by (auto simp: lease_to_def in_project_def unexpired_def is_some_and_iff seconds_def lease_seconds_def)
  ultimately show ?thesis by (auto simp: active_jobs_def affected_def split)
qed

lemma candidate_project_facts:
  assumes "candidate_project now limit locked s = Some p"
  obtains r where "r \<in> set (jobs s)" "p = (j_project r, j_org r)" "claimable now r" "p \<in> set (projects s)" "p \<notin> set locked"
    "active_jobs now s p < limit"
    "\<forall>r' \<in> set (jobs s). (j_project r', j_org r') \<in> set (projects s) \<and> (j_project r', j_org r') \<notin> set locked \<and> claimable now r'
       \<and> active_jobs now s (j_project r', j_org r') < limit \<longrightarrow> claim_order r \<le> claim_order r'"
proof -
  obtain r where r: "first_in_order (filter (\<lambda>r. (j_project r, j_org r) \<in> set (projects s) \<and> (j_project r, j_org r) \<notin> set locked
      \<and> claimable now r \<and> active_jobs now s (j_project r, j_org r) < limit) (jobs s)) = Some r" "p = (j_project r, j_org r)"
    using assms by (auto simp: candidate_project_def)
  from first_in_order_Some [OF r(1)] r(2) show ?thesis by (intro that [of r]) auto
qed

text \<open>C30: A claim leases one claimable job for the lease time and counts its attempt. The job comes first, in the order of
  priority, time and age, among the claimable jobs of its project that no other transaction has locked; the
  project has the first claimable job of all projects below the limit; and after the claim the
  project has at most as many live leases as the limit allows, every other project as many as before.\<close>

theorem claim_fair_and_limited:
  assumes "claim_job_with_project_limit now w limit token locked_projects locked_jobs s = (Inr (Some job), s')"
    and "distinct (map j_id (jobs s))"
  shows "\<exists>r \<in> set (jobs s). c_id job = j_id r \<and> claimable now r \<and> j_id r \<notin> set locked_jobs \<and> c_attempt job = j_attempt r + 1
    \<and> jobs s' = map (\<lambda>x. if j_id x = j_id r then lease_to now w token x else x) (jobs s)
    \<and> list_all (\<lambda>x. in_project (c_project job, c_org job) x \<and> claimable now x \<and> j_id x \<notin> set locked_jobs
         \<longrightarrow> claim_order r \<le> claim_order x) (jobs s)
    \<and> list_ex (\<lambda>first. in_project (c_project job, c_org job) first \<and> claimable now first
         \<and> list_all (\<lambda>x. (j_project x, j_org x) \<in> set (projects s) \<and> (j_project x, j_org x) \<notin> set locked_projects
              \<and> claimable now x \<and> active_jobs now s (j_project x, j_org x) < limit \<longrightarrow> claim_order first \<le> claim_order x) (jobs s)) (jobs s)
    \<and> active_jobs now s' (c_project job, c_org job) \<le> limit
    \<and> (\<forall>p. p \<noteq> (c_project job, c_org job) \<longrightarrow> active_jobs now s' p = active_jobs now s p)"
proof (rule claim_ok [OF assms(1)])
  fix p r
  assume p: "candidate_project now limit locked_projects s = Some p" and c: "candidate now locked_jobs p s = Some r"
    and job: "job = claimed now s token p r" and r: "r \<in> set (jobs s)" "in_project p r" "claimable now r"
    and jobs: "jobs s' = update_where (\<lambda>r'. j_id r' = j_id r) (lease_to now w token) (jobs s)"
  obtain first where first: "first \<in> set (jobs s)" "p = (j_project first, j_org first)" "claimable now first"
    "active_jobs now s p < limit"
    "\<forall>x \<in> set (jobs s). (j_project x, j_org x) \<in> set (projects s) \<and> (j_project x, j_org x) \<notin> set locked_projects \<and> claimable now x
       \<and> active_jobs now s (j_project x, j_org x) < limit \<longrightarrow> claim_order first \<le> claim_order x"
    by (rule candidate_project_facts [OF p]) blast
  have pj: "(c_project job, c_org job) = p" using r(2) by (simp add: job claimed_def in_project_def)
  have "list_all (\<lambda>x. in_project p x \<and> claimable now x \<and> j_id x \<notin> set locked_jobs \<longrightarrow> claim_order r \<le> claim_order x) (jobs s)"
    using first_in_order_Some [OF c [unfolded candidate_def]] by (simp add: list_all_iff)
  moreover have "j_id r \<notin> set locked_jobs" using first_in_order_Some [OF c [unfolded candidate_def]] by simp
  moreover have "in_project p first" using first(2) by (simp add: in_project_def)
  moreover have "active_jobs now s' p \<le> limit"
    using live_after_lease [OF assms(2) r(1,3) jobs, of p] first(4) r(2) by simp
  moreover have "active_jobs now s' p' = active_jobs now s p'" if "p' \<noteq> p" for p'
    using live_after_lease [OF assms(2) r(1,3) jobs, of p'] r(2) that by (cases p; cases p') (auto simp: in_project_def)
  ultimately show ?thesis
    unfolding pj using r first jobs
    by (intro bexI [of _ r]) (auto simp: job claimed_def update_where_def list_all_iff list_ex_iff)
qed

subsection \<open>Exclusive leases\<close>

lemma newest_not_older:
  assumes "distinct (map (\<lambda>c. c_lease_token (snd c)) (newer @ (w', job') # between @ (w, job) # older))"
    and "c_id job' = c_id job"
  shows "newest_claim (newer @ (w', job') # between @ (w, job) # older) (c_id job) \<noteq> Some (w, job)"
proof -
  have "\<exists>c \<in> set (newer @ [(w', job')]). newest_claim (newer @ (w', job') # between @ (w, job) # older) (c_id job) = Some c"
    using assms(2) by (induction newer) (auto simp: newest_claim_def)
  then show ?thesis using assms(1) by (force simp: image_iff)
qed

lemma superseded_holds_nothing:
  assumes "leases_ok q" and "claims q = newer @ (w', job') # between @ (w, job) # older" and "c_id job' = c_id job"
    and "r \<in> set (jobs (tb q))"
  shows "\<not> held_by w job r" and "\<not> (j_id r = c_id job \<and> j_state r = Leased \<and> j_lease_token r = Some (c_lease_token job))"
proof -
  have distinct: "distinct (map (\<lambda>c. c_lease_token (snd c)) (claims q))" using assms(1) by (simp add: leases_ok_def)
  have newest: "newest_claim (claims q) (c_id job) \<noteq> Some (w, job)"
    using newest_not_older [OF _ assms(3)] distinct assms(2) by metis
  have mem: "(w, job) \<in> set (claims q)" by (simp add: assms(2))
  show "\<not> held_by w job r" using held_is_newest(1) [OF assms(1) mem assms(4)] newest by (auto simp: held_by_def)
  show "\<not> (j_id r = c_id job \<and> j_state r = Leased \<and> j_lease_token r = Some (c_lease_token job))"
  proof
    assume r: "j_id r = c_id job \<and> j_state r = Leased \<and> j_lease_token r = Some (c_lease_token job)"
    then obtain w0 job0 where c: "newest_claim (claims q) (c_id job) = Some (w0, job0)" "held_by w0 job0 r"
      using assms(1,4) by (auto simp: leases_ok_def held_by_newest_def is_some_and_iff)
    then have "c_lease_token job0 = c_lease_token job" using r by (simp add: held_by_def)
    then have "(w0, job0) = (w, job)" using claim_of_token [OF distinct _ mem] newest_claim_mem [OF c(1)] by blast
    with c newest show False by simp
  qed
qed

lemma powerless:
  assumes "\<And>r. r \<in> set (jobs s) \<Longrightarrow> \<not> held_by w job r"
  shows "lock_lease now w job s = Inl LostLease" and "heartbeat now w job s = (False, s)"
    and "finish_failure now w job code qn rf s = Inl LostLease"
    and "release_job now w job code delay resource dependency s = Inl LostLease"
    and "finish_result now w job outcome s = s"
proof -
  have none: "affected (held_by w job) (jobs s) = 0" "affected (\<lambda>r. held_by w job r \<and> unexpired now r) (jobs s) = 0"
    using assms by (auto simp: affected_0)
  show lock: "lock_lease now w job s = Inl LostLease" by (simp add: lock_lease_def none)
  show "heartbeat now w job s = (False, s)" by (simp add: heartbeat_def none update_none)
  show fails: "finish_failure now w job code qn rf s = Inl LostLease" for code qn rf by (simp add: finish_failure_def lock)
  show rel: "release_job now w job code delay resource dependency s = Inl LostLease" for code delay resource dependency
    by (simp add: release_job_def update_held_def none)
  show "finish_result now w job outcome s = s"
    by (rule finish_result_cases [of now w job outcome s]) (simp_all add: fails rel)
qed

text \<open>C11: In every state of the queue each row satisfies all the checks of the jobs table (states, counters, lease
  columns, completion, failure codes, types and targets), in the stronger form of \<open>row_ok\<close>, and a leased row
  is held by the newest claim of its job, which remembers its attempt and its failures.\<close>

theorem leased_rows_held_by_newest_claim:
  assumes "reachable q" and "r \<in> set (jobs (tb q))"
  shows "row_ok r \<and> (j_state r = Leased \<longrightarrow> held_by_newest (claims q) r)"
  using reachable_leases_ok [OF assms(1)] assms(2) by (simp add: leases_ok_def)

text \<open>C6: Once a job has been claimed again, the worker of the earlier claim can do nothing to it: its heartbeat stops, its
  publications, failures, releases and cancellations lose the lease, and none of them changes a row.\<close>

theorem superseded_claim_powerless:
  assumes "reachable q" and "claims q = newer @ (w', job') # between @ (w, job) # older" and "c_id job' = c_id job"
  shows "lock_lease now w job (tb q) = Inl LostLease \<and> heartbeat now w job (tb q) = (False, tb q)
    \<and> publish_settled now w job event result state reason (tb q) = Inl LostLease
    \<and> publish_completed now w job code (tb q) = Inl LostLease \<and> cancel_job now w job (tb q) = Inl LostLease
    \<and> finish_result now w job outcome (tb q) = tb q \<and> \<not> lease_is_active now (c_id job) (c_lease_token job) (tb q)"
proof -
  note none = superseded_holds_nothing [OF reachable_leases_ok [OF assms(1)] assms(2,3)]
  note no = powerless [of "tb q" w job, OF none(1)]
  have "\<not> lease_is_active now (c_id job) (c_lease_token job) (tb q)"
    using none(2) by (auto simp: lease_is_active_def list_ex_iff)
  then show ?thesis
    by (simp add: publish_settled_def publish_completed_def cancel_job_def no)
qed

subsection \<open>Requested generations\<close>

lemma open_work_due:
  assumes "work_ok q" and "v \<in> set (works (tb q))" and "open_work v"
  shows "\<exists>e \<in> set (events (tb q)). \<exists>r \<in> set (jobs (tb q)). work_of_event e v \<and> serves_event e r
    \<and> e_completed e < w_generation v \<and> w_generation v \<le> e_requested e \<and> \<not> terminal (j_state r)"
proof -
  have keys: "keys_ok q" and due: "due_ok q" using assms(1) by (simp_all add: work_ok_def)
  obtain e where e: "e \<in> set (events (tb q))" "work_of_event e v" "e_completed e < w_generation v" "w_generation v \<le> e_requested e"
    using due_okD(5) [OF due assms(2,3)] by blast
  obtain r where r: "r \<in> set (jobs (tb q))" "serves_event e r"
    using keys_okD(2) [OF keys e(1)] by (auto simp: job_view_def serves_event_def job_of_event_def)
  have "\<not> terminal (j_state r)" using due_okD(2) [OF due e(1) r] e(3,4) by (auto simp: job_due_def)
  with e r show ?thesis by blast
qed

text \<open>C3: No requested reprocessing is lost, in whatever order workers claim, renew, publish, fail, cancel and lose jobs
  and requests are scheduled: an event that a request still waits for has not completed the generation
  that serves the request, its job is pending or leased, and the reconciliation finds nothing to repair.\<close>

theorem requested_work_never_lost:
  assumes "reachable q" and "v \<in> set (works (tb q))" and "open_work v"
  shows "(\<exists>e \<in> set (events (tb q)). \<exists>r \<in> set (jobs (tb q)). work_of_event e v \<and> serves_event e r
      \<and> e_completed e < w_generation v \<and> w_generation v \<le> e_requested e \<and> j_state r \<in> {Pending, Leased})
    \<and> (\<forall>now skipped. snd (commit (reconcile_reprocessing_event_jobs now skipped) (tb q)) = tb q)"
proof -
  have ok: "work_ok q" by (rule reachable_work_ok [OF assms(1)])
  have live: "st \<in> {Pending, Leased}" if "\<not> terminal st" for st using that by (cases st) (simp_all add: terminal_states)
  show ?thesis using open_work_due [OF ok assms(2,3)] live reconcile_commit [OF ok] by blast
qed

subsection \<open>A concrete queue\<close>

text \<open>One event of one project with its job; two workers claim the job one after the other.\<close>

definition sample_row :: job_row where
  "sample_row = \<lparr>j_id = [1], j_org = [2], j_project = [3], j_event = Some [4], j_upload = None, j_cache = None,
     j_type = ''process_crash'', j_state = Pending, j_priority = 100, j_attempt = 0, j_max_attempt = 5, j_resource_failures = 0,
     j_available_at = 0, j_created_at = 0, j_lease_owner = None, j_lease_token = None, j_lease_expires_at = None,
     j_heartbeat_at = None, j_failure_code = None, j_completed_at = None\<rparr>"

definition sample_event :: event_row where
  "sample_event = \<lparr>e_id = [4], e_org = [2], e_project = [3], e_current_result = None, e_processing_state = ''received'',
     e_state_reason = None, e_retryable = False, e_retry_at = None, e_requested = 0, e_completed = 0\<rparr>"

definition sample_tables :: tables where
  "sample_tables = (empty_tables [([3], [2])])\<lparr>jobs := [sample_row], events := [sample_event]\<rparr>"

definition sample_queue :: queue where
  "sample_queue = \<lparr>tb = sample_tables, clock = 0, claims = []\<rparr>"

lemmas sample_simps = sample_queue_def sample_tables_def sample_row_def sample_event_def empty_tables_def

lemma sample_reachable: "allowed Ingest \<Longrightarrow> reachable_by allowed sample_queue"
proof -
  assume allowed: "allowed Ingest"
  let ?q = "\<lparr>tb = empty_tables [([3], [2])], clock = 0, claims = []\<rparr>"
  have "step Ingest ?q (?q\<lparr>tb := (tb ?q)\<lparr>events := sample_event # events (tb ?q), jobs := sample_row # jobs (tb ?q)\<rparr>\<rparr>)"
    by (rule step.ingest) (simp_all add: sample_simps new_job_def known_kinds_def no_failure_code jobs_target_check_def)
  moreover have "(?q\<lparr>tb := (tb ?q)\<lparr>events := sample_event # events (tb ?q), jobs := sample_row # jobs (tb ?q)\<rparr>\<rparr>) = sample_queue"
    by (simp add: sample_simps)
  ultimately show ?thesis
    using reachable_by.next_step [OF reachable_by.initial, of Ingest "[([3], [2])]" 0 sample_queue allowed] allowed by simp
qed

text \<open>The claim of the sample job at any time, from any row that can be claimed.\<close>

definition one_job_tables :: "job_row \<Rightarrow> tables" where
  "one_job_tables r = sample_tables\<lparr>jobs := [r]\<rparr>"

lemmas claim_simps = claim_job_with_project_limit_def claim_body_def commit_def candidate_project_def candidate_def
  first_in_order_def in_project_def active_jobs_def affected_def event_of_def mark_reprocessing_events_running_def update_where_def

lemma sample_claim:
  assumes "claimable now r" and "j_id r = [1]" and "j_org r = [2]" and "j_project r = [3]" and "j_event r = Some [4]"
    and "\<not> (j_state r = Leased \<and> unexpired now r)"
  shows "claim_job_with_project_limit now w 1 token [] [] (one_job_tables r)
    = (Inr (Some (claimed now (one_job_tables r) token ([3], [2]) r)), one_job_tables (lease_to now w token r))"
  using assms by (simp add: claim_simps one_job_tables_def sample_simps claimed_def Let_def)

text \<open>The job is claimed again whenever its lease has expired; \<open>nth_row n\<close> is its row after \<open>n\<close> claims.\<close>

definition nth_time :: "nat \<Rightarrow> micros" where "nth_time n = seconds (300 * int n)"

primrec nth_row :: "nat \<Rightarrow> job_row" where
  "nth_row 0 = sample_row"
| "nth_row (Suc n) = lease_to (nth_time n) [11] [n] (nth_row n)"

definition nth_claim :: "nat \<Rightarrow> job" where
  "nth_claim n = claimed (nth_time n) (one_job_tables (nth_row n)) [n] ([3], [2]) (nth_row n)"

primrec nth_claims :: "nat \<Rightarrow> (uuid \<times> job) list" where
  "nth_claims 0 = []"
| "nth_claims (Suc n) = ([11], nth_claim n) # nth_claims n"

definition claimed_times :: "nat \<Rightarrow> queue" where
  "claimed_times n = \<lparr>tb = one_job_tables (nth_row n), clock = nth_time n, claims = nth_claims n\<rparr>"

lemma nth_row_facts:
  "j_id (nth_row n) = [1]" "j_org (nth_row n) = [2]" "j_project (nth_row n) = [3]" "j_event (nth_row n) = Some [4]"
  "j_type (nth_row n) = ''process_crash''" "j_attempt (nth_row n) = int n" "j_max_attempt (nth_row n) = 5"
  "j_resource_failures (nth_row n) = 0"
  by (induction n) (simp_all add: sample_row_def lease_to_def)

lemma nth_row_state: "j_state (nth_row n) = (if n = 0 then Pending else Leased)"
  by (cases n) (simp_all add: sample_row_def lease_to_def)

lemma nth_row_claimable: "claimable (nth_time n) (nth_row n)" "\<not> (j_state (nth_row n) = Leased \<and> unexpired (nth_time n) (nth_row n))"
proof -
  show "claimable (nth_time n) (nth_row n)"
    by (cases n) (simp_all add: claimable_def nth_time_def sample_row_def lease_to_def is_some_and_def seconds_def lease_seconds_def)
  show "\<not> (j_state (nth_row n) = Leased \<and> unexpired (nth_time n) (nth_row n))"
    by (cases n) (simp_all add: unexpired_def nth_time_def sample_row_def lease_to_def is_some_and_def seconds_def lease_seconds_def)
qed

lemma nth_claims_tokens: "c_lease_token ` snd ` set (nth_claims n) = (\<lambda>k. [k]) ` {..<n}"
  by (induction n) (auto simp: nth_claim_def claimed_def lessThan_Suc)

lemma claim_step:
  assumes "claimable now r" "j_id r = [1]" "j_org r = [2]" "j_project r = [3]" "j_event r = Some [4]"
    "\<not> (j_state r = Leased \<and> unexpired now r)" "token \<notin> c_lease_token ` snd ` set cs"
    and "job = claimed now (one_job_tables r) token ([3], [2]) r"
  shows "step (Claim job) \<lparr>tb = one_job_tables r, clock = now, claims = cs\<rparr>
    \<lparr>tb = one_job_tables (lease_to now w token r), clock = now, claims = (w, job) # cs\<rparr>"
proof -
  let ?q = "\<lparr>tb = one_job_tables r, clock = now, claims = cs\<rparr>"
  have "claim_job_with_project_limit (clock ?q) w 1 token [] [] (tb ?q) = (Inr (Some job), one_job_tables (lease_to now w token r))"
    using sample_claim [OF assms(1-6)] assms(8) by simp
  from step.claim [OF this] assms(7) show ?thesis by simp
qed

lemma claimed_times_step:
  "step (Claim (nth_claim n)) (claimed_times n)
     \<lparr>tb = one_job_tables (nth_row (Suc n)), clock = nth_time n, claims = nth_claims (Suc n)\<rparr>"
  unfolding claimed_times_def nth_row.simps nth_claims.simps
  by (rule claim_step)
    (use nth_row_claimable [of n] nth_claims_tokens [of n] in \<open>simp_all add: nth_row_facts nth_claim_def image_iff\<close>)

lemma claimed_times_reachable:
  assumes "allowed Ingest" and "allowed Tick" and "\<And>job. allowed (Claim job)"
  shows "reachable_by allowed (claimed_times n)"
proof (induction n)
  case 0
  have "claimed_times 0 = sample_queue"
    by (simp add: claimed_times_def sample_queue_def one_job_tables_def sample_tables_def nth_time_def seconds_def)
  then show ?case using sample_reachable [of allowed, OF assms(1)] by simp
next
  case (Suc n)
  let ?q = "\<lparr>tb = one_job_tables (nth_row (Suc n)), clock = nth_time n, claims = nth_claims (Suc n)\<rparr>"
  have "reachable_by allowed ?q" by (rule reachable_by.next_step [OF Suc claimed_times_step assms(3)])
  moreover have "step Tick ?q (claimed_times (Suc n))"
    using step.tick [of ?q "nth_time (Suc n)" "tb ?q"] by (simp add: elsewhere_def claimed_times_def nth_time_def seconds_def)
  ultimately show ?case by (rule reachable_by.next_step) (rule assms(2))
qed

lemma reach_step: "reachable q \<Longrightarrow> step a q q' \<Longrightarrow> reachable q'"
  by (rule reachable_by.next_step) simp_all

theorem claim_fair_and_limited_witness:
  "\<exists>r \<in> set (jobs (one_job_tables sample_row)). c_id (nth_claim 0) = j_id r \<and> claimable 0 r"
proof -
  have claim: "claim_job_with_project_limit 0 [11] 1 [0] [] [] (one_job_tables sample_row)
      = (Inr (Some (nth_claim 0)), one_job_tables (lease_to 0 [11] [0] sample_row))"
    using sample_claim [OF nth_row_claimable(1) [of 0], of "[11]" "[0]"]
    by (simp add: nth_claim_def nth_time_def seconds_def sample_row_def)
  have "distinct (map j_id (jobs (one_job_tables sample_row)))" by (simp add: one_job_tables_def)
  from claim_fair_and_limited [OF claim this] show ?thesis by blast
qed

theorem leased_rows_held_by_newest_claim_witness:
  "row_ok (nth_row 2) \<and> held_by_newest (claims (claimed_times 2)) (nth_row 2)"
proof -
  have "nth_row 2 \<in> set (jobs (tb (claimed_times 2)))" by (simp add: claimed_times_def one_job_tables_def)
  moreover have "j_state (nth_row 2) = Leased" by (simp add: nth_row_state)
  ultimately show ?thesis
    using leased_rows_held_by_newest_claim [OF claimed_times_reachable [of "\<lambda>_. True" 2]] by simp
qed

theorem superseded_claim_powerless_witness:
  "heartbeat 0 [11] (nth_claim 0) (tb (claimed_times 2)) = (False, tb (claimed_times 2))
   \<and> cancel_job 0 [11] (nth_claim 0) (tb (claimed_times 2)) = Inl LostLease"
proof -
  have claims: "claims (claimed_times 2) = [] @ ([11], nth_claim 1) # [] @ ([11], nth_claim 0) # []"
    by (simp add: claimed_times_def numeral_2_eq_2)
  have "c_id (nth_claim 1) = c_id (nth_claim 0)" by (simp add: nth_claim_def claimed_def nth_row_facts del: nth_row.simps)
  from superseded_claim_powerless [OF claimed_times_reachable [of "\<lambda>_. True" 2, simplified] claims this] show ?thesis by blast
qed

text \<open>A request for the event, scheduled while the job waits.\<close>

definition sample_schedule_request :: request_row where
  "sample_schedule_request = \<lparr>r_id = [5], r_org = [2], r_project = [3], r_source = ''automatic'', r_state = Scheduling, r_attempt = 1,
     r_max_attempt = 5, r_available_at = 0, r_created_at = 0, r_lease_owner = Some [11], r_lease_token = Some [31],
     r_lease_expires_at = Some 60, r_selection_complete = False, r_selection_truncated = False, r_selection_cursor = None,
     r_next_cursor = None, r_selected = 0, r_queued = 0, r_running = 0, r_completed = 0, r_failed = 0, r_failure_code = None,
     r_completed_at = None\<rparr>"

definition request_claim :: reprocessing_request where
  "request_claim = \<lparr>q_id = [5], q_org = [2], q_project = [3], q_source = ''automatic'', q_request_limit = None, q_attempt = 1,
     q_max_attempt = 5, q_lease_token = [31], q_exhausted = False\<rparr>"

definition requested_queue :: queue where
  "requested_queue = sample_queue\<lparr>tb := (tb sample_queue)\<lparr>requests := [sample_schedule_request]\<rparr>\<rparr>"

lemma sample_scheduled:
  "works (apply_tables (expand_reprocessing_request 0 [11] request_claim [[4]]) (tb requested_queue)) = [new_work request_claim sample_event 1]"
proof -
  have "\<exists>s'. expand_reprocessing_request 0 [11] request_claim [[4]] (tb requested_queue) = Inr s'
      \<and> works s' = [new_work request_claim sample_event 1]"
    by (simp add: requested_queue_def sample_simps expand_reprocessing_request_def lock_reprocessing_request_def request_held_def
        sample_schedule_request_def request_claim_def is_some_and_def automatic_reprocessing_batch_def schedule_reprocessing_events_def
        affected_def job_of_event_def eligible_def next_generation_def complete_reprocessing_selection_def update_request_def
        refresh_reprocessing_request_def update_where_def unlease_request_def Let_def new_work_def)
  then show ?thesis by (auto simp: apply_tables_def commit_def unit_body_def)
qed

theorem requested_work_never_lost_witness:
  "\<exists>(q :: queue) v. v \<in> set (works (tb q)) \<and> open_work v \<and> (\<exists>e \<in> set (events (tb q)). e_completed e < w_generation v)"
proof -
  let ?s = "apply_tables (expand_reprocessing_request 0 [11] request_claim [[4]]) (tb requested_queue)"
  let ?q = "requested_queue\<lparr>tb := ?s\<rparr>"
  have "step Request sample_queue requested_queue" unfolding requested_queue_def by (rule step.request)
  moreover have "step (Schedule [[4]]) requested_queue ?q"
    using step.schedule [of "[[4]]" requested_queue "[11]" request_claim] by (simp add: requested_queue_def sample_queue_def)
  ultimately have q: "reachable ?q" using sample_reachable [of "\<lambda>_. True"] reach_step by blast
  have v: "new_work request_claim sample_event 1 \<in> set (works (tb ?q))" by (simp add: sample_scheduled)
  have opened: "open_work (new_work request_claim sample_event 1)" by (simp add: open_work_def new_work_def)
  obtain e where "e \<in> set (events (tb ?q))" "e_completed e < w_generation (new_work request_claim sample_event 1)"
    using requested_work_never_lost [OF q v opened] by blast
  with v opened show ?thesis by (intro exI [of _ ?q] exI [of _ "new_work request_claim sample_event 1"] conjI bexI [of _ e])
qed

end
