(* ===== verification/Queue_Progress.thy ===== *)
theory Queue_Progress
  imports Queue_Facts
begin

section \<open>Every job ends\<close>

text \<open>
  How a step may change the row of a job, and what follows: as long as no attempt is given back, a job has at
  most one attempt more than its limit before it ends, and until then it can be claimed again. One action
  breaks this: a shutdown that cancels an attempt beyond the limit leaves a job that no worker ever claims.
\<close>

inductive moves :: "action \<Rightarrow> job_row \<Rightarrow> job_row \<Rightarrow> bool" where
  same: "moves a r r"
| leased: "claimable now r \<Longrightarrow> moves (Claim job) r (lease_to now w token r)"
| renewed: "j_state r = Leased \<Longrightarrow> moves (Beat job) r (renew now r)"
| completed: "held_by w job r \<Longrightarrow> snapshot job r \<Longrightarrow> moves (Publish job) r (complete_row now code r)"
| failed: "held_by w job r \<Longrightarrow> snapshot job r \<Longrightarrow> st \<in> {Failed, Dead} \<Longrightarrow> moves (Finish job e) r (terminal_row now st code' b r)"
| requeued: "held_by w job r \<Longrightarrow> a \<in> {Publish job, Finish job e} \<Longrightarrow> moves a r (fresh_pending now r)"
| retried: "held_by w job r \<Longrightarrow> snapshot job r \<Longrightarrow> attempt_allowed job \<Longrightarrow> resource \<longrightarrow> c_resource_failures job = 0
    \<Longrightarrow> resource \<or> c_attempt job < c_max_attempt job \<Longrightarrow> moves (Finish job e) r (release_row now code' delay resource False r)"
| returned: "held_by w job r \<Longrightarrow> snapshot job r \<Longrightarrow> (a = Finish job Dependency \<and> attempt_allowed job) \<or> a = Cancel job
    \<Longrightarrow> moves a r (release_row now code' delay False True r)"
| restarted: "moves (Schedule page) r (reactivate now r)"

definition row_steps :: "action \<Rightarrow> queue \<Rightarrow> queue \<Rightarrow> bool" where
  "row_steps a q q' \<longleftrightarrow> (\<exists>f. jobs (tb q') = map f (jobs (tb q)) \<and> (\<forall>r \<in> set (jobs (tb q)). j_id (f r) = j_id r \<and> moves a r (f r)))
     \<or> (\<exists>r. new_job r \<and> j_id r \<notin> j_id ` set (jobs (tb q)) \<and> jobs (tb q') = r # jobs (tb q))"

lemma row_steps_update:
  assumes "jobs (tb q') = update_where p f (jobs (tb q))" and "\<And>r. r \<in> set (jobs (tb q)) \<Longrightarrow> p r \<Longrightarrow> moves a r (f r)"
    and "\<And>r. j_id (f r) = j_id r"
  shows "row_steps a q q'"
proof -
  have "j_id (if p r then f r else r) = j_id r \<and> moves a r (if p r then f r else r)" if "r \<in> set (jobs (tb q))" for r
    using assms(2) [OF that] assms(3) by (auto intro: moves.same)
  then show ?thesis using assms(1) unfolding row_steps_def update_where_def by blast
qed

lemma row_steps_same: "jobs (tb q') = jobs (tb q) \<Longrightarrow> row_steps a q q'"
  by (rule row_steps_update [where p = "\<lambda>_. False" and f = "\<lambda>r. r"]) (simp_all add: no_update)

lemma row_steps_served:
  assumes "leases_ok q" and "(w, job) \<in> set (claims q)" and "serves now w job end_row (tb q) s'"
    and "\<And>r. held_by w job r \<Longrightarrow> snapshot job r \<Longrightarrow> moves a r (end_row r)" and "\<And>r. j_id (end_row r) = j_id r"
    and "\<And>r. held_by w job r \<Longrightarrow> moves a r (fresh_pending now r)"
  shows "row_steps a q (q\<lparr>tb := s'\<rparr>)"
proof (rule serves_rows [OF assms(3)])
  assume "jobs s' = update_where (held_by w job) end_row (jobs (tb q))"
  then show ?thesis
    by (intro row_steps_update [where p = "held_by w job" and f = end_row])
      (use assms(4,5) held_is_newest(2) [OF assms(1,2)] in simp_all)
next
  assume "jobs s' = update_where (held_by w job) (fresh_pending now) (jobs (tb q))"
  then show ?thesis
    by (intro row_steps_update [where p = "held_by w job" and f = "fresh_pending now"]) (simp_all add: assms(6) queue_simps)
qed

lemma row_steps_released:
  assumes "leases_ok q" and "(w, job) \<in> set (claims q)"
    and "release_job now w job code' delay resource dependency (tb q) = Inr s'"
    and "\<And>r. held_by w job r \<Longrightarrow> snapshot job r \<Longrightarrow> moves a r (release_row now code' delay resource dependency r)"
  shows "row_steps a q (q\<lparr>tb := s'\<rparr>)"
  using release_job_ok [OF assms(3)] assms(4) held_is_newest(2) [OF assms(1,2)]
  by (intro row_steps_update [where p = "held_by w job" and f = "release_row now code' delay resource dependency"])
    (simp_all add: queue_simps)

lemma row_steps_applied:
  assumes "\<And>s'. t (tb q) = Inr s' \<Longrightarrow> row_steps a q (q\<lparr>tb := s'\<rparr>)"
  shows "row_steps a q (q\<lparr>tb := apply_tables t (tb q)\<rparr>)"
proof (rule apply_tables_cases [of t "tb q"])
  assume "apply_tables t (tb q) = tb q"
  then show ?thesis by (intro row_steps_same) simp
qed (use assms in simp)

lemma restarted_id: "j_id (reactivate now r) = j_id r"
  by (simp add: reactivate_def queue_simps)

lemma step_row_steps:
  assumes "step a q q'" and ok: "work_ok q"
  shows "row_steps a q q'"
proof -
  have leases: "leases_ok q" using ok by (simp add: work_ok_def)
  show ?thesis
    using assms(1)
  proof cases
    case (claim worker limit token locked_projects locked_jobs job s)
    show ?thesis
    proof (rule claim_ok [OF claim(3)])
      fix p r
      assume r: "r \<in> set (jobs (tb q))" "claimable (clock q) r"
        and jobs: "jobs s = update_where (\<lambda>r'. j_id r' = j_id r) (lease_to (clock q) worker token) (jobs (tb q))"
      show ?thesis
      proof (rule row_steps_update)
        show "jobs (tb q') = update_where (\<lambda>r'. j_id r' = j_id r) (lease_to (clock q) worker token) (jobs (tb q))"
          using claim(2) jobs by simp
        show "moves a x (lease_to (clock q) worker token x)" if "x \<in> set (jobs (tb q))" "j_id x = j_id r" for x
          unfolding claim(1) by (rule moves.leased) (use job_by_id [OF leases that(1) r(1) that(2)] r(2) in simp)
      qed (simp add: lease_to_def)
    qed
  next
    case (beat worker job)
    show ?thesis
      unfolding beat(1)
      by (rule row_steps_update [where p = "held_by worker job" and f = "renew (clock q)"])
        (use held_row(1) in \<open>auto simp: beat(2) heartbeat_def renew_def intro!: moves.renewed [unfolded renew_def]\<close>)
  next
    case (finish worker job outcome e)
    have allowed: "attempt_allowed job \<or> (e = Transient ''retry_exhausted'' \<and> \<not> c_attempt job < c_max_attempt job)"
      using finish(4) by (auto simp: run_result_def attempt_allowed_def split: if_splits)
    show ?thesis
      unfolding finish(1,2)
    proof (rule finish_result_cases [of "clock q" worker job "Inl e" "tb q"])
      assume "finish_result (clock q) worker job (Inl e) (tb q) = tb q"
      then show "row_steps (Finish job e) q (q\<lparr>tb := finish_result (clock q) worker job (Inl e) (tb q)\<rparr>)"
        by (intro row_steps_same) simp
    next
      fix code delay resource dependency s'
      assume rel: "release_job (clock q) worker job code delay resource dependency (tb q) = Inr s'"
        and s': "finish_result (clock q) worker job (Inl e) (tb q) = s'"
        and res: "resource \<Longrightarrow> c_resource_failures job = 0 \<and> \<not> dependency
            \<and> (\<exists>c. (Inl e :: (job_error, unit) result) = Inl (Resource c))"
          "resource \<or> dependency \<or> c_attempt job < c_max_attempt job"
          "dependency \<longleftrightarrow> (Inl e :: (job_error, unit) result) = Inl Dependency"
      have "moves (Finish job e) r (release_row (clock q) code delay resource dependency r)"
        if "held_by worker job r" "snapshot job r" for r
      proof (cases dependency)
        case True
        then show ?thesis using that res allowed by (cases resource) (auto intro: moves.returned)
      next
        case False
        have "attempt_allowed job"
        proof (cases resource)
          case True
          with res(1) allowed show ?thesis by auto
        qed (use False res(2) allowed in auto)
        with False show ?thesis using that res by (auto intro: moves.retried)
      qed
      then show "row_steps (Finish job e) q (q\<lparr>tb := finish_result (clock q) worker job (Inl e) (tb q)\<rparr>)"
        unfolding s' by (rule row_steps_released [OF leases finish(3) rel])
    next
      fix code qn rf s'
      assume fails: "finish_failure (clock q) worker job code qn rf (tb q) = Inr s'"
        and s': "finish_result (clock q) worker job (Inl e) (tb q) = s'"
      show "row_steps (Finish job e) q (q\<lparr>tb := finish_result (clock q) worker job (Inl e) (tb q)\<rparr>)"
        unfolding s'
        by (rule row_steps_served [OF leases finish(3) finish_failure_serves [OF fails]])
          (auto simp: queue_simps intro: moves.failed moves.requeued)
    qed
  next
    case (publish_crash worker job event result state reason)
    show ?thesis
      unfolding publish_crash(1,2)
      by (rule row_steps_applied, rule row_steps_served [OF leases publish_crash(3) publish_settled_serves [OF _ publish_crash(5,6)]])
        (auto simp: queue_simps intro: moves.completed moves.requeued)
  next
    case (publish_other worker job code)
    show ?thesis
      unfolding publish_other(1,2)
      by (rule row_steps_applied, rule row_steps_served [OF leases publish_other(3) publish_completed_serves [OF _ publish_other(5)]])
        (auto simp: queue_simps intro: moves.completed moves.requeued)
  next
    case (cancel worker job)
    show ?thesis
      unfolding cancel(1,2) cancel_job_def
      by (rule row_steps_applied, rule row_steps_released [OF leases cancel(3)]) (auto intro: moves.returned)
  next
    case (schedule page worker request)
    show ?thesis
      unfolding schedule(1,2)
    proof (rule row_steps_applied)
      fix s' assume expand: "expand_reprocessing_request (clock q) worker request page (tb q) = Inr s'"
      obtain p where "jobs s' = update_where p (reactivate (clock q)) (jobs (tb q))"
        by (rule expand_rows [OF expand]) (erule that)
      then show "row_steps (Schedule page) q (q\<lparr>tb := s'\<rparr>)"
        by (intro row_steps_update [where p = p and f = "reactivate (clock q)"])
          (simp_all add: moves.restarted restarted_id)
    qed
  next
    case (ingest r e)
    then show ?thesis by (auto simp: row_steps_def)
  next
    case (enqueue r)
    then show ?thesis by (auto simp: row_steps_def)
  qed (auto simp: elsewhere_def reconcile_commit [OF ok] intro!: row_steps_same)
qed

subsection \<open>No job is left behind\<close>

definition startable :: "job_row \<Rightarrow> bool" where
  "startable r \<longleftrightarrow> (j_state r = Pending \<longrightarrow>
     j_attempt r < j_max_attempt r \<or> j_attempt r = j_max_attempt r \<and> j_resource_failures r = 1)"

text \<open>Workers that cancel only attempts within the limit.\<close>

definition careful :: "action \<Rightarrow> bool" where
  "careful a \<longleftrightarrow> (case a of Cancel job \<Rightarrow> attempt_allowed job | _ \<Rightarrow> True)"

lemma allowed_row:
  assumes "attempt_allowed job" and "snapshot job r" and "row_ok r"
  shows "j_attempt r \<le> j_max_attempt r \<or> j_resource_failures r = 1 \<and> j_attempt r = j_max_attempt r + 1"
  using assms by (auto simp: attempt_allowed_def snapshot_def row_ok_def min_def split: if_splits)

lemma moves_startable:
  assumes "moves a r r'" and "careful a" and "row_ok r" and "startable r"
  shows "startable r'"
  using assms
proof cases
  case (retried w job resource e now code' delay)
  then show ?thesis using allowed_row [OF retried(5,4) assms(3)]
    by (auto simp: startable_def release_row_def queue_simps snapshot_def)
next
  case (returned w job now code' delay)
  then have "attempt_allowed job" using assms(2) by (auto simp: careful_def)
  from allowed_row [OF this returned(3) assms(3)] returned(1) show ?thesis
    by (auto simp: startable_def release_row_def queue_simps)
qed (auto simp: startable_def lease_to_def renew_def queue_simps fresh_pending_def reactivate_def row_ok_def)

lemma reachable_startable:
  assumes "reachable_by careful q" and "r \<in> set (jobs (tb q))"
  shows "startable r"
proof -
  have "\<forall>r \<in> set (jobs (tb q)). startable r"
    using assms(1)
  proof (induction rule: reachable_by.induct)
    case (next_step q a q')
    have ok: "work_ok q" by (rule reachable_work_ok [OF next_step(1)])
    then have rows: "row_ok r" if "r \<in> set (jobs (tb q))" for r using that by (simp add: work_ok_def leases_ok_def)
    from step_row_steps [OF next_step(2) ok] show ?case
      unfolding row_steps_def
    proof (elim disjE exE conjE)
      fix f assume f: "jobs (tb q') = map f (jobs (tb q))" "\<forall>r \<in> set (jobs (tb q)). j_id (f r) = j_id r \<and> moves a r (f r)"
      then show ?thesis using moves_startable [OF _ next_step(3) rows] next_step(4) by auto
    next
      fix r assume "new_job r" "jobs (tb q') = r # jobs (tb q)"
      then show ?thesis using next_step(4) by (auto simp: startable_def new_job_def)
    qed
  qed (simp add: empty_tables_def)
  then show ?thesis using assms(2) by blast
qed

subsection \<open>Attempts are bounded\<close>

definition row_of :: "uuid \<Rightarrow> queue \<Rightarrow> job_row option" where
  "row_of i q = find (\<lambda>r. j_id r = i) (jobs (tb q))"

text \<open>The number of steps that end an attempt of a job, on a run that gives no attempt of it back.\<close>

inductive attempts :: "uuid \<Rightarrow> queue \<Rightarrow> nat \<Rightarrow> queue \<Rightarrow> bool" for i :: uuid and q :: queue where
  none: "attempts i q 0 q"
| more: "attempts i q n q' \<Longrightarrow> step a q' q'' \<Longrightarrow> careful a \<Longrightarrow> row_of i q' = Some r \<Longrightarrow> row_of i q'' = Some r'
    \<Longrightarrow> j_attempt r \<le> j_attempt r'
    \<Longrightarrow> attempts i q (if j_state r = Leased \<and> j_state r' \<noteq> Leased then n + 1 else n) q''"

text \<open>The attempts that a row may still end.\<close>

definition budget :: "job_row \<Rightarrow> nat" where
  "budget r = (if terminal (j_state r) then 0
     else if j_state r = Leased then max 1 (nat (j_max_attempt r + 2 - j_attempt r))
     else nat (j_max_attempt r + 1 - j_attempt r))"

lemma moves_budget:
  assumes "moves a r r'" and "row_ok r" and "startable r" and "j_attempt r \<le> j_attempt r'"
  shows "(if j_state r = Leased \<and> j_state r' \<noteq> Leased then 1 else 0) + budget r' \<le> budget r"
  using assms
proof cases
  case (leased now job w token)
  have "j_state r = Pending \<or> j_state r = Leased" using leased(3) by (auto simp: claimable_def)
  then show ?thesis using leased assms(3) by (auto simp: budget_def lease_to_def terminal_def startable_def)
next
  case (retried w job resource e now code' delay)
  have "j_attempt r \<le> j_max_attempt r"
    using retried allowed_row [OF retried(5,4) assms(2)] by (auto simp: snapshot_def)
  then show ?thesis using retried(2) held_row(1) [OF retried(3)] by (auto simp: budget_def release_row_def queue_simps terminal_def)
next
  case (completed w job now code)
  then show ?thesis by (auto simp: budget_def queue_simps terminal_def held_by_def)
next
  case (failed w job st e now code' b)
  then show ?thesis by (auto simp: budget_def queue_simps terminal_def held_by_def)
next
  case (requeued w job e now)
  then have "j_attempt r' = 0" "j_state r = Leased" by (simp_all add: fresh_pending_def queue_simps held_by_def)
  then show ?thesis using assms(2,4) by (simp add: row_ok_def)
next
  case (returned w job now code' delay)
  then show ?thesis using assms(4) by (simp add: release_row_def queue_simps)
next
  case (restarted page now)
  show ?thesis
  proof (cases "j_state r = Leased")
    case True
    then show ?thesis using restarted by (simp add: reactivate_def)
  next
    case False
    then have "j_attempt r' = 0" "j_state r' = Pending" "j_max_attempt r' = j_max_attempt r"
      using restarted by (simp_all add: reactivate_def queue_simps)
    moreover have "j_attempt r = 0" "j_state r = Pending" using calculation(1) assms(2,4) by (auto simp: row_ok_def)
    ultimately show ?thesis by (simp add: budget_def terminal_def)
  qed
qed (auto simp: budget_def renew_def)

lemma attempts_budget:
  assumes "attempts i q n q'" and "reachable_by careful q" and "row_of i q = Some r"
  shows "reachable_by careful q' \<and> (\<exists>r'. row_of i q' = Some r' \<and> n + budget r' \<le> budget r)"
  using assms
proof (induction rule: attempts.induct)
  case (more n q' a q'' x y)
  then have q': "reachable_by careful q'" and x: "n + budget x \<le> budget r" by auto
  have q'': "reachable_by careful q''" by (rule reachable_by.next_step [OF q' more(2,3)])
  have ok: "work_ok q'" "leases_ok q''" using reachable_work_ok [OF q'] reachable_work_ok [OF q''] by (simp_all add: work_ok_def)
  have mem: "x \<in> set (jobs (tb q'))" "j_id x = i" "y \<in> set (jobs (tb q''))" "j_id y = i"
    using more(4,5) by (auto simp: row_of_def find_Some_iff)
  have "moves a x y"
    using step_row_steps [OF more(2) ok(1)] unfolding row_steps_def
  proof (elim disjE exE conjE)
    fix f assume f: "jobs (tb q'') = map f (jobs (tb q'))" "\<forall>r \<in> set (jobs (tb q')). j_id (f r) = j_id r \<and> moves a r (f r)"
    then have "f x = y" using mem job_by_id [OF ok(2), of "f x" y] by auto
    then show ?thesis using f(2) mem(1) by blast
  next
    fix r assume r: "j_id r \<notin> j_id ` set (jobs (tb q'))" "jobs (tb q'') = r # jobs (tb q')"
    then have "x = y" using mem job_by_id [OF ok(2), of x y] by auto
    then show ?thesis by (auto intro: moves.same)
  qed
  moreover have "row_ok x" using ok(1) mem(1) by (simp add: work_ok_def leases_ok_def)
  ultimately have "(if j_state x = Leased \<and> j_state y \<noteq> Leased then 1 else 0) + budget y \<le> budget x"
    using moves_budget reachable_startable [OF q' mem(1)] more(6) by blast
  then show ?case using q'' more(5) x by (auto split: if_splits)
qed auto

lemma row_of_mem: "row_of i q = Some r \<Longrightarrow> r \<in> set (jobs (tb q)) \<and> j_id r = i"
  by (auto simp: row_of_def find_Some_iff)

lemma claimable_again:
  assumes "row_ok r" and "startable r" and "\<not> terminal (j_state r)"
  shows "\<exists>t. claimable t r"
proof (cases "j_state r = Leased")
  case True
  then obtain t where "j_lease_expires_at r = Some t" using assms(1) by (auto simp: row_ok_def)
  then have "claimable t r" using True by (simp add: claimable_def is_some_and_def)
  then show ?thesis ..
next
  case False
  then have "j_state r = Pending" using assms(3) by (cases "j_state r") (simp_all add: terminal_def)
  then have "claimable (j_available_at r) r" using assms(2) by (simp add: claimable_def startable_def)
  then show ?thesis ..
qed

text \<open>C8: the attempts of a job end. It is about runs of any workers that cancel no attempt beyond the limit (\<open>careful\<close>;
  \<open>cancelled_exhausted_job_stranded\<close> shows what such a cancellation does) and that give no attempt of the job back
  (by a missing dependency, a cancellation or a new request). On them a pending job with \<open>a\<close> counted attempts ends
  at most \<open>max_attempt + 1 - a\<close> attempts, whatever the attempts return and however many leases expire. When it has
  ended that many it is in a terminal state, and as long as it is in none, there is a time from which it can be
  claimed again.\<close>

theorem job_attempts_end:
  assumes "reachable_by careful q" and "attempts i q n q'" and "row_of i q = Some r" and "j_state r = Pending"
  shows "int n \<le> j_max_attempt r + 1 - j_attempt r \<and> (\<exists>r'. row_of i q' = Some r'
    \<and> (if int n = j_max_attempt r + 1 - j_attempt r then terminal (j_state r')
       else terminal (j_state r') \<or> (\<exists>t. claimable t r')))"
proof -
  obtain r' where q': "reachable_by careful q'" and r': "row_of i q' = Some r'" "n + budget r' \<le> budget r"
    using attempts_budget [OF assms(2,1,3)] by blast
  have start: "startable r" "startable r'"
    using reachable_startable [OF assms(1)] reachable_startable [OF q'] row_of_mem [OF assms(3)] row_of_mem [OF r'(1)] by blast+
  have ok: "row_ok r'" using reachable_leases_ok [OF q'] row_of_mem [OF r'(1)] by (simp add: leases_ok_def)
  have budget: "int (budget r) = j_max_attempt r + 1 - j_attempt r"
    using start(1) assms(4) by (auto simp: budget_def startable_def terminal_def)
  have "terminal (j_state r')" if "budget r' = 0"
    using that start(2) by (cases "j_state r'") (auto simp: budget_def startable_def terminal_def)
  then have "terminal (j_state r')" if "int n = j_max_attempt r + 1 - j_attempt r"
    using r'(2) budget that by simp
  moreover have "int n \<le> j_max_attempt r + 1 - j_attempt r" using r'(2) budget by simp
  ultimately show ?thesis using claimable_again [OF ok start(2)] r'(1) by auto
qed

text \<open>C31: A shutdown can strand a job: cancelling an attempt that is beyond the limit gives it back, which leaves the job
  pending with all its attempts used, so that no worker can claim it at any time.\<close>

theorem cancelled_exhausted_job_stranded:
  assumes "reachable q" and "(w, job) \<in> set (claims q)" and "r \<in> set (jobs (tb q))" and "held_by w job r"
    and "\<not> attempt_allowed job" and "cancel_job now w job (tb q) = Inr s'"
  shows "\<exists>r' \<in> set (jobs s'). j_id r' = c_id job \<and> j_state r' = Pending \<and> (\<forall>t. \<not> claimable t r')"
proof -
  have leases: "leases_ok q" by (rule reachable_leases_ok [OF assms(1)])
  note snap = held_is_newest(2,3) [OF leases assms(2-4)]
  let ?r = "release_row now ''processing_cancelled'' 0 False True r"
  have "?r \<in> set (jobs s')"
    using release_job_ok [OF assms(6) [unfolded cancel_job_def]] assms(3,4) by (force simp: queue_simps)
  moreover have "j_max_attempt r < j_attempt r"
    "\<not> (j_resource_failures r = 1 \<and> j_attempt r = j_max_attempt r + 1)"
    using assms(5) snap by (auto simp: attempt_allowed_def snapshot_def row_ok_def)
  then have "\<not> claimable t ?r" for t
    by (auto simp: claimable_def release_row_def queue_simps)
  ultimately show ?thesis using assms(4) by (intro bexI [of _ ?r]) (simp_all add: queue_simps held_by_def)
qed

theorem cancelled_exhausted_job_stranded_witness:
  "\<exists>s'. cancel_job 0 [11] (nth_claim 5) (tb (claimed_times 6)) = Inr s'
     \<and> (\<exists>r' \<in> set (jobs s'). j_state r' = Pending \<and> (\<forall>t. \<not> claimable t r'))"
proof -
  have claims: "nth_claims 6 = ([11], nth_claim 5) # nth_claims 5" "nth_row 6 = lease_to (nth_time 5) [11] [5] (nth_row 5)"
    using nth_claims.simps(2) [of 5] nth_row.simps(2) [of 5] by (simp_all del: nth_claims.simps nth_row.simps)
  have claim: "([11], nth_claim 5) \<in> set (claims (claimed_times 6))"
    by (simp add: claimed_times_def claims(1) del: nth_claims.simps)
  have row: "nth_row 6 \<in> set (jobs (tb (claimed_times 6)))" by (simp add: claimed_times_def one_job_tables_def)
  have job: "c_id (nth_claim 5) = [1]" "c_org (nth_claim 5) = [2]" "c_project (nth_claim 5) = [3]" "c_lease_token (nth_claim 5) = [5]"
    "c_attempt (nth_claim 5) = 6" "c_max_attempt (nth_claim 5) = 5" "c_resource_failures (nth_claim 5) = 0"
    "c_target_generation (nth_claim 5) = 0" "c_event (nth_claim 5) = Some [4]"
    by (simp_all add: nth_claim_def claimed_def nth_row_facts event_of_def one_job_tables_def sample_simps del: nth_row.simps)
  have held: "held_by [11] (nth_claim 5) (nth_row 6)"
    unfolding claims(2) by (simp add: held_by_def job lease_to_def nth_row_facts del: nth_row.simps)
  have "\<not> attempt_allowed (nth_claim 5)" by (simp add: attempt_allowed_def job)
  moreover obtain s' where s': "cancel_job 0 [11] (nth_claim 5) (tb (claimed_times 6)) = Inr s'"
    by (simp add: cancel_job_def release_job_def update_held_def affected_def claimed_times_def one_job_tables_def held
        job del: nth_row.simps nth_claims.simps)
  ultimately show ?thesis
    using cancelled_exhausted_job_stranded [OF claimed_times_reachable [of "\<lambda>_. True" 6, simplified] claim row held _ s'] by blast
qed

text \<open>The sample job from its first claim to the sixth: no attempt of it ends, since every lease expires.\<close>

theorem job_attempts_end_witness:
  "\<exists>r'. row_of [1] (claimed_times 1) = Some r' \<and> (terminal (j_state r') \<or> (\<exists>t. claimable t r'))"
proof -
  have careful: "careful Ingest" "careful Tick" "\<And>job. careful (Claim job)" by (simp_all add: careful_def)
  have rows: "row_of [1] (claimed_times n) = Some (nth_row n)" for n
    by (simp add: row_of_def claimed_times_def one_job_tables_def nth_row_facts del: nth_row.simps)
  let ?q = "\<lparr>tb = one_job_tables (nth_row (Suc 0)), clock = nth_time 0, claims = nth_claims (Suc 0)\<rparr>"
  have row: "row_of [1] ?q = Some (nth_row (Suc 0))"
    by (simp add: row_of_def one_job_tables_def nth_row_facts del: nth_row.simps)
  have "attempts [1] (claimed_times 0) (if j_state (nth_row 0) = Leased \<and> j_state (nth_row (Suc 0)) \<noteq> Leased then 0 + 1 else 0) ?q"
    by (rule attempts.more [OF attempts.none claimed_times_step [of 0] careful(3) rows row])
      (simp add: nth_row_facts del: nth_row.simps)
  then have one: "attempts [1] (claimed_times 0) 0 ?q" by (simp add: nth_row_state del: nth_row.simps)
  have tick: "step Tick ?q (claimed_times 1)"
    using step.tick [of ?q "nth_time 1" "tb ?q"] by (simp add: elsewhere_def claimed_times_def nth_time_def seconds_def)
  have "attempts [1] (claimed_times 0) (if j_state (nth_row (Suc 0)) = Leased \<and> j_state (nth_row 1) \<noteq> Leased then 0 + 1 else 0) (claimed_times 1)"
    by (rule attempts.more [OF one tick careful(2) row rows]) simp
  then have path: "attempts [1] (claimed_times 0) 0 (claimed_times 1)" by (simp add: nth_row_state del: nth_row.simps)
  have "j_state (nth_row 0) = Pending" by (simp add: nth_row_state del: nth_row.simps)
  from job_attempts_end [OF claimed_times_reachable [of careful 0, OF careful] path rows this]
  show ?thesis by (auto split: if_splits simp del: nth_row.simps)
qed

end
