(* ===== verification/Alert_Rules.thy ===== *)
theory Alert_Rules
  imports Utf8
begin

section \<open>Alert rules and destinations (apps/server/src/alerts.rs)\<close>

text \<open>
  What an alert rule and a destination may be: the validators of the requests beside the constraints of the table
  \<^verbatim>\<open>alert_rules\<close>, the delay that quiet hours put on a notice, and the filter that keeps webhooks from addresses
  that are not public. A constraint of a table has three values, because a comparison with \<^verbatim>\<open>NULL\<close> is unknown,
  and a row passes unless it is false. The parser of URLs (\<^verbatim>\<open>url\<close>) and the resolver of names are parameters:
  the fields of a parsed URL and the addresses that a lookup returned.
\<close>

datatype alert_error = InvalidRequest | Unauthorized | Forbidden | NotFound | Conflict | Unavailable | Internal

definition max_name_bytes :: nat where "max_name_bytes = 80"
definition max_environment_bytes :: nat where "max_environment_bytes = 32"
definition max_endpoint_bytes :: nat where "max_endpoint_bytes = 2048"

subsection \<open>Requests\<close>

definition valid_name :: "ustring \<Rightarrow> (alert_error, ustring) result" where
  "valid_name value =
     (let value = trim value in
      if value = [] \<or> str_len value > max_name_bytes \<or> list_ex is_control value then Inl InvalidRequest else Inr value)"

definition valid_kind :: "string \<Rightarrow> (alert_error, string) result" where
  "valid_kind value = (if value \<in> {''email'', ''discord'', ''slack'', ''webhook''} then Inr value else Inl InvalidRequest)"

definition valid_condition :: "string \<Rightarrow> (alert_error, string) result" where
  "valid_condition value =
     (if value \<in> {''first_seen'', ''regression'', ''volume'', ''missing_symbols'', ''processing_failure'',
        ''ingest_silence'', ''quota''} then Inr value else Inl InvalidRequest)"

text \<open>The bytes of a text that has one which is not ASCII are never all in the ranges of the check.\<close>

definition environment_char :: "nat \<times> uchar \<Rightarrow> bool" where
  "environment_char = (\<lambda>(index, c). is_ascii_lowercase c \<or> is_ascii_digit c \<or> index > 0 \<and> (c = ch CHR ''_'' \<or> c = ch CHR ''-''))"

definition valid_environment :: "ustring \<Rightarrow> (alert_error, ustring) result" where
  "valid_environment value =
     (if value \<noteq> [] \<and> str_len value \<le> max_environment_bytes \<and> list_all environment_char (enumerate 0 value)
      then Inr value else Inl InvalidRequest)"

definition condition_valid :: "string \<Rightarrow> int option \<Rightarrow> int option \<Rightarrow> bool" where
  "condition_valid condition threshold window =
     (if condition = ''volume'' then
        is_some_and threshold (\<lambda>v. 1 \<le> v \<and> v \<le> 1000000) \<and> is_some_and window (\<lambda>v. 60 \<le> v \<and> v \<le> 86400)
      else if condition = ''ingest_silence'' then
        threshold = None \<and> is_some_and window (\<lambda>v. 60 \<le> v \<and> v \<le> 604800)
      else if condition = ''quota'' then
        is_some_and threshold (\<lambda>v. v \<in> {70, 90, 100, 101}) \<and> window = None
      else if condition \<in> {''first_seen'', ''regression'', ''missing_symbols'', ''processing_failure''} then
        threshold = None \<and> window = None
      else False)"

fun quiet_valid :: "int option \<Rightarrow> int option \<Rightarrow> bool" where
  "quiet_valid None None \<longleftrightarrow> True"
| "quiet_valid (Some start) (Some stop) \<longleftrightarrow> 0 \<le> start \<and> start \<le> 1439 \<and> 0 \<le> stop \<and> stop \<le> 1439 \<and> start \<noteq> stop"
| "quiet_valid _ _ \<longleftrightarrow> False"

definition validate_rule_fields ::
  "string \<Rightarrow> int option \<Rightarrow> int option \<Rightarrow> int option \<Rightarrow> int option \<Rightarrow> (alert_error, unit) result" where
  "validate_rule_fields condition threshold window quiet_start quiet_end =
     (if condition_valid condition threshold window \<and> quiet_valid quiet_start quiet_end then Inr () else Inl InvalidRequest)"

text \<open>The fields of a changed rule (\<^verbatim>\<open>update_rule\<close>): those of the request, else the stored ones.\<close>

record rule_fields =
  f_threshold :: "int option"
  f_window :: "int option"
  f_quiet_start :: "int option"
  f_quiet_end :: "int option"

record update_rule_request = rule_fields +
  u_enabled :: "bool option"
  u_clear_quiet_hours :: bool

definition merged_fields :: "update_rule_request \<Rightarrow> rule_fields \<Rightarrow> rule_fields" where
  "merged_fields request current =
     \<lparr>f_threshold = or_else (f_threshold request) (f_threshold current),
      f_window = or_else (f_window request) (f_window current),
      f_quiet_start = (if u_clear_quiet_hours request then None
        else or_else (f_quiet_start request) (f_quiet_start current)),
      f_quiet_end = (if u_clear_quiet_hours request then None
        else or_else (f_quiet_end request) (f_quiet_end current))\<rparr>"

definition updated_fields ::
  "update_rule_request \<Rightarrow> string \<Rightarrow> rule_fields \<Rightarrow> (alert_error, rule_fields) result" where
  "updated_fields request condition current =
     (if u_enabled request = None \<and> f_threshold request = None \<and> f_window request = None
        \<and> f_quiet_start request = None \<and> f_quiet_end request = None \<and> \<not> u_clear_quiet_hours request
      then Inl InvalidRequest
      else let fields = merged_fields request current in
        bindR (validate_rule_fields condition (f_threshold fields) (f_window fields) (f_quiet_start fields) (f_quiet_end fields))
          (\<lambda>_. Inr fields))"

subsection \<open>The constraints of the table\<close>

text \<open>SQL's logic with the unknown value, \<open>None\<close>; \<open>passes\<close> is what a \<^verbatim>\<open>CHECK\<close> asks for.\<close>

type_synonym tri = "bool option"

definition sql_and :: "tri \<Rightarrow> tri \<Rightarrow> tri" where
  "sql_and a b = (if a = Some False \<or> b = Some False then Some False
     else if a = Some True \<and> b = Some True then Some True else None)"

definition sql_or :: "tri \<Rightarrow> tri \<Rightarrow> tri" where
  "sql_or a b = (if a = Some True \<or> b = Some True then Some True
     else if a = Some False \<and> b = Some False then Some False else None)"

definition sql_between :: "int option \<Rightarrow> int \<Rightarrow> int \<Rightarrow> tri" where
  "sql_between v a b = map_option (\<lambda>v. a \<le> v \<and> v \<le> b) v"

definition sql_in :: "'a option \<Rightarrow> 'a list \<Rightarrow> tri" where
  "sql_in v xs = map_option (\<lambda>v. v \<in> set xs) v"

definition sql_neq :: "int option \<Rightarrow> int option \<Rightarrow> tri" where
  "sql_neq v w = (case (v, w) of (Some a, Some b) \<Rightarrow> Some (a \<noteq> b) | _ \<Rightarrow> None)"

definition passes :: "tri \<Rightarrow> bool" where "passes t \<longleftrightarrow> t \<noteq> Some False"

definition condition_check :: "string \<Rightarrow> int option \<Rightarrow> int option \<Rightarrow> tri" where
  "condition_check condition threshold window =
     sql_or (sql_or (sql_or
       (sql_and (sql_and (Some (condition = ''volume'')) (sql_between threshold 1 1000000)) (sql_between window 60 86400))
       (sql_and (sql_and (Some (condition = ''ingest_silence'')) (Some (threshold = None))) (sql_between window 60 604800)))
       (sql_and (sql_and (Some (condition = ''quota'')) (sql_in threshold [70, 90, 100, 101])) (Some (window = None))))
       (sql_and (sql_and
          (sql_in (Some condition) [''first_seen'', ''regression'', ''missing_symbols'', ''processing_failure''])
          (Some (threshold = None))) (Some (window = None)))"

definition quiet_check :: "int option \<Rightarrow> int option \<Rightarrow> tri" where
  "quiet_check quiet_start quiet_end =
     sql_or (sql_and (Some (quiet_start = None)) (Some (quiet_end = None)))
       (sql_and (sql_and (sql_between quiet_start 0 1439) (sql_between quiet_end 0 1439)) (sql_neq quiet_start quiet_end))"

lemma sql_true [simp]:
  "sql_and a b = Some True \<longleftrightarrow> a = Some True \<and> b = Some True"
  "sql_or a b = Some True \<longleftrightarrow> a = Some True \<or> b = Some True"
  by (auto simp: sql_and_def sql_or_def)

lemma condition_check_true: "condition_check condition threshold window = Some True \<longleftrightarrow> condition_valid condition threshold window"
  by (simp add: condition_check_def condition_valid_def sql_between_def sql_in_def is_some_and_iff)

lemma quiet_check_true: "quiet_check a b = Some True \<longleftrightarrow> quiet_valid a b"
  by (cases "(a, b)" rule: quiet_valid.cases) (auto simp: quiet_check_def sql_between_def sql_neq_def)

subsection \<open>Quiet hours\<close>

record clock_time =
  t_hour :: int
  t_minute :: int
  t_second :: int

definition quiet_delay_seconds :: "clock_time \<Rightarrow> int option \<Rightarrow> int option \<Rightarrow> int" where
  "quiet_delay_seconds now start stop =
     (case (start, stop) of
        (Some start, Some stop) \<Rightarrow>
          let minute = t_hour now * 60 + t_minute now;
              quiet = (if start < stop then minute \<ge> start \<and> minute < stop else minute \<ge> start \<or> minute < stop)
          in if \<not> quiet then 0
             else (if minute < stop then stop - minute else 1440 - minute + stop) * 60 - t_second now
      | _ \<Rightarrow> 0)"

text \<open>The specification: the quiet minutes of the day, and the time of day after some seconds.\<close>

definition clock_ok :: "clock_time \<Rightarrow> bool" where
  "clock_ok now \<longleftrightarrow> 0 \<le> t_hour now \<and> t_hour now < 24 \<and> 0 \<le> t_minute now \<and> t_minute now < 60
     \<and> 0 \<le> t_second now \<and> t_second now < 60"

definition minute_after :: "clock_time \<Rightarrow> int \<Rightarrow> int" where
  "minute_after now k = ((t_hour now * 60 + t_minute now) * 60 + t_second now + k) div 60 mod 1440"

definition in_quiet_hours :: "int option \<Rightarrow> int option \<Rightarrow> int \<Rightarrow> bool" where
  "in_quiet_hours start stop minute \<longleftrightarrow>
     (case (start, stop) of
        (Some start, Some stop) \<Rightarrow> (minute - start) mod 1440 < (stop - start) mod 1440
      | _ \<Rightarrow> False)"

subsection \<open>The validator and the constraints agree\<close>

text \<open>C35: The fields of a rule that the validator accepts are exactly those for which both constraints of the table
  are true. The constraints do not enforce it: half of the quiet hours alone passes the second one, because the
  comparison with the missing half is unknown, and the validator refuses it.\<close>

theorem alert_rule_accepted_iff_table_check:
  "(validate_rule_fields condition threshold window quiet_start quiet_end = Inr ()
      \<longleftrightarrow> condition_check condition threshold window = Some True \<and> quiet_check quiet_start quiet_end = Some True)
   \<and> (passes (quiet_check quiet_start quiet_end) \<and> quiet_check quiet_start quiet_end \<noteq> Some True
      \<longleftrightarrow> (\<exists>v. 0 \<le> v \<and> v \<le> 1439 \<and> (quiet_start = None \<and> quiet_end = Some v \<or> quiet_start = Some v \<and> quiet_end = None)))"
proof
  show "validate_rule_fields condition threshold window quiet_start quiet_end = Inr ()
      \<longleftrightarrow> condition_check condition threshold window = Some True \<and> quiet_check quiet_start quiet_end = Some True"
    by (simp add: validate_rule_fields_def condition_check_true quiet_check_true)
next
  show "passes (quiet_check quiet_start quiet_end) \<and> quiet_check quiet_start quiet_end \<noteq> Some True
      \<longleftrightarrow> (\<exists>v. 0 \<le> v \<and> v \<le> 1439 \<and> (quiet_start = None \<and> quiet_end = Some v \<or> quiet_start = Some v \<and> quiet_end = None))"
    by (cases quiet_start; cases quiet_end)
      (auto simp: passes_def quiet_check_def sql_and_def sql_or_def sql_between_def sql_neq_def split: if_splits)
qed

subsection \<open>The delay ends with the quiet hours\<close>

lemma mod_day:
  assumes "- 1440 < x" "x < (1440 :: int)"
  shows "x mod 1440 = (if x < 0 then x + 1440 else x)"
proof (cases "x < 0")
  case True
  then have "(x + 1440) mod 1440 = x + 1440" using assms by (intro mod_pos_pos_trivial) auto
  with True show ?thesis by simp
qed (use assms in \<open>simp add: mod_pos_pos_trivial\<close>)

lemma in_quiet_hours_iff:
  assumes "0 \<le> start" "start < 1440" "0 \<le> stop" "stop < 1440" "0 \<le> m" "m < 1440" "start \<noteq> stop"
  shows "in_quiet_hours (Some start) (Some stop) m
    \<longleftrightarrow> (if start < stop then m \<ge> start \<and> m < stop else m \<ge> start \<or> m < stop)"
  using assms by (auto simp: in_quiet_hours_def mod_day)

text \<open>Inside quiet hours, the minutes until they end.\<close>

definition minutes_left :: "int \<Rightarrow> int \<Rightarrow> int" where
  "minutes_left minute stop = (if minute < stop then stop - minute else 1440 - minute + stop)"

lemma quiet_until_end:
  assumes "0 \<le> start" "start < 1440" "0 \<le> stop" "stop < 1440" "0 \<le> m" "m < 1440"
    "in_quiet_hours (Some start) (Some stop) m"
  shows "0 < minutes_left m stop" "minutes_left m stop \<le> 1440" "(m + minutes_left m stop) mod 1440 = stop"
    "0 \<le> j \<Longrightarrow> j < minutes_left m stop \<Longrightarrow> in_quiet_hours (Some start) (Some stop) ((m + j) mod 1440)"
proof -
  define u where "u = (m - start) mod 1440"
  define D where "D = (stop - start) mod 1440"
  have u: "0 \<le> u" "u < D" "D < 1440" using assms by (auto simp: u_def D_def in_quiet_hours_def)
  have ml: "minutes_left m stop = D - u"
    using assms u unfolding u_def D_def minutes_left_def by (auto simp: mod_day split: if_splits)
  then show "0 < minutes_left m stop" "minutes_left m stop \<le> 1440" using u by auto
  show "(m + minutes_left m stop) mod 1440 = stop"
    using assms by (cases "m < stop") (auto simp: minutes_left_def mod_day)
  assume j: "0 \<le> j" "j < minutes_left m stop"
  have "((m + j) mod 1440 - start) mod 1440 = (u + j) mod 1440"
    unfolding u_def by (simp add: mod_simps algebra_simps)
  also have "\<dots> = u + j" using j u ml by (intro mod_pos_pos_trivial) auto
  finally show "in_quiet_hours (Some start) (Some stop) ((m + j) mod 1440)"
    using j ml by (simp add: in_quiet_hours_def D_def)
qed

lemma minute_after_eq:
  "minute_after now k = (t_hour now * 60 + t_minute now + (t_second now + k) div 60) mod 1440"
proof -
  have "(x * 60 + s + k) div 60 = x + (s + k) div 60" for x s :: int
    using div_mult_self3 [of 60 "x" "s + k"] by (simp add: algebra_simps)
  then show ?thesis unfolding minute_after_def by (simp only:)
qed

text \<open>C34: The delay that quiet hours put on a notice.\<close>

theorem quiet_delay_exact:
  assumes "validate_rule_fields condition threshold window start stop = Inr ()" "clock_ok now"
  defines "delay \<equiv> quiet_delay_seconds now start stop"
  shows "0 \<le> delay \<and> delay \<le> 86400 \<and> \<not> in_quiet_hours start stop (minute_after now delay)
    \<and> (0 \<le> k \<longrightarrow> k < delay \<longrightarrow> in_quiet_hours start stop (minute_after now k))"
proof -
  let ?m = "t_hour now * 60 + t_minute now" and ?s = "t_second now"
  have m: "0 \<le> ?m" "?m < 1440" "0 \<le> ?s" "?s < 60" using assms(2) by (auto simp: clock_ok_def)
  have now: "minute_after now 0 = ?m" using m by (simp add: minute_after_eq)
  have valid: "quiet_valid start stop" using assms(1) by (simp add: validate_rule_fields_def split: if_splits)
  show ?thesis
  proof (cases "in_quiet_hours start stop ?m")
    case True
    then obtain a b where ab: "start = Some a" "stop = Some b" by (auto simp: in_quiet_hours_def split: option.splits)
    with valid have r: "0 \<le> a" "a < 1440" "0 \<le> b" "b < 1440" "a \<noteq> b" by auto
    note left = quiet_until_end [OF r(1-4) m(1,2) True [unfolded ab]]
    have d: "delay = minutes_left ?m b * 60 - ?s"
      using True in_quiet_hours_iff [OF r(1-4) m(1,2) r(5)]
      by (simp add: delay_def ab quiet_delay_seconds_def minutes_left_def Let_def)
    have "minute_after now delay = b" using left(3) by (simp add: minute_after_eq d)
    moreover have "in_quiet_hours start stop (minute_after now k)" if "0 \<le> k" "k < delay"
    proof -
      have "0 \<le> (?s + k) div 60" "(?s + k) div 60 < minutes_left ?m b" using that m by (auto simp: d)
      from left(4) [OF this] show ?thesis by (simp add: minute_after_eq ab)
    qed
    ultimately show ?thesis using left(1,2) m by (auto simp: d ab in_quiet_hours_def)
  next
    case False
    have "delay = 0"
    proof (cases "(start, stop)" rule: quiet_valid.cases)
      case (2 a b)
      with valid False in_quiet_hours_iff [of a b ?m] m show ?thesis
        by (auto simp: delay_def quiet_delay_seconds_def Let_def)
    qed (use valid in \<open>auto simp: delay_def quiet_delay_seconds_def\<close>)
    with False show ?thesis by (simp add: now)
  qed
qed

text \<open>At 23:30:15, with quiet hours from 22:00 to 7:00, the notice waits until 7:00.\<close>

definition late_evening :: clock_time where "late_evening = \<lparr>t_hour = 23, t_minute = 30, t_second = 15\<rparr>"

lemma quiet_delay_exact_witness:
  "quiet_delay_seconds late_evening (Some 1320) (Some 420) = 26985
   \<and> \<not> in_quiet_hours (Some 1320) (Some 420) (minute_after late_evening 26985)
   \<and> in_quiet_hours (Some 1320) (Some 420) (minute_after late_evening 26984)"
proof -
  have fields: "validate_rule_fields ''volume'' (Some 5) (Some 3600) (Some 1320) (Some 420) = Inr ()" by code_simp
  have ok: "clock_ok late_evening" by (simp add: clock_ok_def late_evening_def)
  have delay: "quiet_delay_seconds late_evening (Some 1320) (Some 420) = 26985"
    by (simp add: quiet_delay_seconds_def late_evening_def Let_def)
  with quiet_delay_exact [OF fields ok, of 26984] show ?thesis by simp
qed

end
