(* ===== verification/Alert_Destinations.thy ===== *)
theory Alert_Destinations
  imports Alert_Rules
begin

section \<open>Destinations of alerts (apps/server/src/alerts.rs)\<close>

text \<open>
  Where a notice may be sent: the shape of the URL for each kind of integration, and the filter on the addresses
  its host resolves to. An address is its 32 or 128 bits. The specification of the filter is a table of network
  prefixes.
\<close>

unbundle bit_operations_syntax

subsection \<open>Addresses\<close>

datatype ip_addr = V4 "32 word" | V6 "128 word"

text \<open>The order of \<^verbatim>\<open>SocketAddr\<close>: by version, then by the bits.\<close>

instantiation ip_addr :: linorder
begin

fun less_eq_ip_addr :: "ip_addr \<Rightarrow> ip_addr \<Rightarrow> bool" where
  "less_eq_ip_addr (V4 a) (V4 b) \<longleftrightarrow> a \<le> b"
| "less_eq_ip_addr (V4 _) (V6 _) \<longleftrightarrow> True"
| "less_eq_ip_addr (V6 _) (V4 _) \<longleftrightarrow> False"
| "less_eq_ip_addr (V6 a) (V6 b) \<longleftrightarrow> a \<le> b"

definition less_ip_addr :: "ip_addr \<Rightarrow> ip_addr \<Rightarrow> bool" where
  "less_ip_addr a b \<longleftrightarrow> a \<le> b \<and> \<not> b \<le> a"

instance
proof
  fix a b c :: ip_addr
  show "a < b \<longleftrightarrow> a \<le> b \<and> \<not> b \<le> a" by (simp add: less_ip_addr_def)
  show "a \<le> a" by (cases a) auto
  show "a \<le> b \<Longrightarrow> b \<le> c \<Longrightarrow> a \<le> c" by (cases a; cases b; cases c) auto
  show "a \<le> b \<Longrightarrow> b \<le> a \<Longrightarrow> a = b" by (cases a; cases b) auto
  show "a \<le> b \<or> b \<le> a" by (cases a; cases b) auto
qed

end

text \<open>\<^verbatim>\<open>Ipv4Addr::octets\<close> and \<^verbatim>\<open>Ipv6Addr::segments\<close>.\<close>

definition octet :: "32 word \<Rightarrow> nat \<Rightarrow> nat" where
  "octet a i = unat (ucast (drop_bit (24 - 8 * i) a) :: byte)"

definition segment :: "128 word \<Rightarrow> nat \<Rightarrow> 16 word" where
  "segment a i = ucast (drop_bit (112 - 16 * i) a)"

definition public_ipv4 :: "32 word \<Rightarrow> bool" where
  "public_ipv4 address =
     (let a = octet address 0; b = octet address 1; c = octet address 2 in
      \<not> (a = 0
        \<or> a = 10
        \<or> a = 127
        \<or> a = 100 \<and> 64 \<le> b \<and> b \<le> 127
        \<or> a = 169 \<and> b = 254
        \<or> a = 172 \<and> 16 \<le> b \<and> b \<le> 31
        \<or> a = 192 \<and> b = 0 \<and> c = 0
        \<or> a = 192 \<and> b = 0 \<and> c = 2
        \<or> a = 192 \<and> b = 88 \<and> c = 99
        \<or> a = 192 \<and> b = 168
        \<or> a = 198 \<and> b \<in> {18, 19}
        \<or> a = 198 \<and> b = 51 \<and> c = 100
        \<or> a = 203 \<and> b = 0 \<and> c = 113
        \<or> a \<ge> 224))"

text \<open>\<^verbatim>\<open>Ipv6Addr::to_ipv4_mapped\<close>, \<^verbatim>\<open>is_unspecified\<close>, \<^verbatim>\<open>is_loopback\<close> and \<^verbatim>\<open>is_multicast\<close> of the standard library.\<close>

definition to_ipv4_mapped :: "128 word \<Rightarrow> 32 word option" where
  "to_ipv4_mapped a =
     (if (\<forall>i < 5. segment a i = 0) \<and> segment a 5 = 0xffff then Some (ucast a) else None)"

definition is_unspecified :: "128 word \<Rightarrow> bool" where "is_unspecified a \<longleftrightarrow> a = 0"
definition is_loopback :: "128 word \<Rightarrow> bool" where "is_loopback a \<longleftrightarrow> a = 1"
definition is_multicast :: "128 word \<Rightarrow> bool" where "is_multicast a \<longleftrightarrow> segment a 0 AND 0xff00 = 0xff00"

definition public_ipv6 :: "128 word \<Rightarrow> bool" where
  "public_ipv6 address =
     (case to_ipv4_mapped address of
        Some mapped \<Rightarrow> public_ipv4 mapped
      | None \<Rightarrow>
          \<not> (is_unspecified address
            \<or> is_loopback address
            \<or> is_multicast address
            \<or> segment address 0 AND 0xfe00 = 0xfc00
            \<or> segment address 0 AND 0xffc0 = 0xfe80
            \<or> segment address 0 = 0x2001 \<and> segment address 1 = 0x0db8)
          \<and> \<not> (segment address 0 = 0x2001 \<and> segment address 1 = 0x0002)
          \<and> \<not> (segment address 0 = 0x0064 \<and> segment address 1 = 0xff9b)
          \<and> segment address 0 AND 0xffc0 \<noteq> 0xfec0)"

fun public_ip :: "ip_addr \<Rightarrow> bool" where
  "public_ip (V4 address) = public_ipv4 address"
| "public_ip (V6 address) = public_ipv6 address"

subsection \<open>Networks\<close>

text \<open>A network is the prefix of a length; the tables list those that are not public.\<close>

definition in_network :: "'a :: len word \<Rightarrow> 'a word \<times> nat \<Rightarrow> bool" where
  "in_network a = (\<lambda>(net, n). drop_bit (LENGTH('a) - n) a = drop_bit (LENGTH('a) - n) net)"

definition ipv4 :: "nat \<Rightarrow> nat \<Rightarrow> nat \<Rightarrow> nat \<Rightarrow> 32 word" where
  "ipv4 a b c d = word_of_nat (((a * 256 + b) * 256 + c) * 256 + d)"

text \<open>A network whose first two segments are given, and the rest zero.\<close>

definition ipv6_prefix :: "nat \<Rightarrow> nat \<Rightarrow> 128 word" where
  "ipv6_prefix a b = word_of_nat ((a * 65536 + b) * 2 ^ 96)"

definition reserved_ipv4 :: "(32 word \<times> nat) list" where
  "reserved_ipv4 = [(ipv4 0 0 0 0, 8), (ipv4 10 0 0 0, 8), (ipv4 127 0 0 0, 8), (ipv4 100 64 0 0, 10),
     (ipv4 169 254 0 0, 16), (ipv4 172 16 0 0, 12), (ipv4 192 0 0 0, 24), (ipv4 192 0 2 0, 24), (ipv4 192 88 99 0, 24),
     (ipv4 192 168 0 0, 16), (ipv4 198 18 0 0, 15), (ipv4 198 51 100 0, 24), (ipv4 203 0 113 0, 24), (ipv4 224 0 0 0, 3)]"

definition reserved_ipv6 :: "(128 word \<times> nat) list" where
  "reserved_ipv6 = [(0, 128), (1, 128), (ipv6_prefix 0xff00 0, 8), (ipv6_prefix 0xfc00 0, 7), (ipv6_prefix 0xfe80 0, 10),
     (ipv6_prefix 0x2001 0x0db8, 32), (ipv6_prefix 0x2001 2, 32), (ipv6_prefix 0x64 0xff9b, 32), (ipv6_prefix 0xfec0 0, 10)]"

text \<open>The networks of the addresses that stand for an IPv4 address: \<^verbatim>\<open>::ffff:0:0/96\<close>.\<close>

definition mapped_network :: "128 word \<times> nat" where "mapped_network = (0xffff00000000, 96)"

fun reserved :: "ip_addr \<Rightarrow> bool" where
  "reserved (V4 a) \<longleftrightarrow> list_ex (in_network a) reserved_ipv4"
| "reserved (V6 a) \<longleftrightarrow> (if in_network a mapped_network then list_ex (in_network (ucast a)) reserved_ipv4
     else list_ex (in_network a) reserved_ipv6)"

subsection \<open>The filter is the table\<close>

lemma unat_ipv4_less: "unat (a :: 32 word) < 4294967296"
  using unsigned_less [where 'a = nat, of a] by simp

lemma octet_nat:
  "octet a 0 = unat a div 2 ^ 24" "octet a 1 = unat a div 2 ^ 16 mod 256" "octet a 2 = unat a div 2 ^ 8 mod 256"
proof -
  have "octet a i = unat a div 2 ^ (24 - 8 * i) mod 256" for i
    by (simp add: octet_def unsigned_ucast_eq unat_drop_bit_eq take_bit_eq_mod) (simp add: drop_bit_eq_div)
  moreover have "unat a div 2 ^ 24 < 256" using unat_ipv4_less [of a] by simp
  ultimately show "octet a 0 = unat a div 2 ^ 24" "octet a 1 = unat a div 2 ^ 16 mod 256"
    "octet a 2 = unat a div 2 ^ 8 mod 256" by simp_all
qed

lemma in_network_nat: "in_network (a :: 'a :: len word) (net, n) \<longleftrightarrow>
    unat a div 2 ^ (LENGTH('a) - n) = unat net div 2 ^ (LENGTH('a) - n)"
  by (simp add: in_network_def word_unat_eq_iff unat_drop_bit_eq) (simp add: drop_bit_eq_div)

text \<open>Leading bits in terms of the bytes that hold them.\<close>

lemma split_16: "b < 256 \<Longrightarrow> x = a * 256 + b \<longleftrightarrow> x div 256 = a \<and> x mod 256 = (b :: nat)"
  by auto

lemma split_24: "b < 256 \<Longrightarrow> c < 256 \<Longrightarrow>
    y = (a * 256 + b) * 256 + c \<longleftrightarrow> y div 65536 = a \<and> y div 256 mod 256 = b \<and> y mod 256 = (c :: nat)"
  using split_16 [of c y "a * 256 + b"] split_16 [of b "y div 256" a] by (simp add: div_mult2_eq [of _ 256 256, simplified])

lemma div_between: "0 < k \<Longrightarrow> x div k = c \<longleftrightarrow> c * k \<le> x \<and> x < (c + 1) * (k :: nat)"
  by (metis Suc_eq_plus1 div_nat_eqI dividend_less_times_div div_times_less_eq_dividend mult.commute mult_Suc add.commute)

lemma in_byte_range:
  fixes x a lo hi :: nat
  assumes "hi \<le> 256"
  shows "256 * a + lo \<le> x \<and> x < 256 * a + hi \<longleftrightarrow> x div 256 = a \<and> lo \<le> x mod 256 \<and> x mod 256 < hi"
proof -
  define q r where "q = x div 256" and "r = x mod 256"
  have x: "x = 256 * q + r" "r < 256" by (simp_all add: q_def r_def)
  then show ?thesis using assms
    unfolding q_def [symmetric] r_def [symmetric] by (cases q a rule: linorder_cases) auto
qed

lemma split_others:
  "x div 64 = 401 \<longleftrightarrow> x div 256 = 100 \<and> 64 \<le> x mod 256 \<and> x mod 256 \<le> (127 :: nat)"
  "x div 16 = 2753 \<longleftrightarrow> x div 256 = 172 \<and> 16 \<le> x mod 256 \<and> x mod 256 \<le> (31 :: nat)"
  "x div 2 = 25353 \<longleftrightarrow> x div 256 = 198 \<and> (x mod 256 = 18 \<or> x mod 256 = (19 :: nat))"
  "x < 65536 \<Longrightarrow> x div 8192 = 7 \<longleftrightarrow> 224 \<le> x div (256 :: nat)"
proof -
  have "m < 128 \<longleftrightarrow> m \<le> 127" "m < 32 \<longleftrightarrow> m \<le> 31" "18 \<le> m \<and> m < 20 \<longleftrightarrow> m = 18 \<or> m = 19" for m :: nat
    by auto
  then show "x div 64 = 401 \<longleftrightarrow> x div 256 = 100 \<and> 64 \<le> x mod 256 \<and> x mod 256 \<le> (127 :: nat)"
    "x div 16 = 2753 \<longleftrightarrow> x div 256 = 172 \<and> 16 \<le> x mod 256 \<and> x mod 256 \<le> (31 :: nat)"
    "x div 2 = 25353 \<longleftrightarrow> x div 256 = 198 \<and> (x mod 256 = 18 \<or> x mod 256 = (19 :: nat))"
    using in_byte_range [of 128 100 64 x] in_byte_range [of 32 172 16 x] in_byte_range [of 20 198 18 x]
    by (simp_all add: div_between)
  show "x < 65536 \<Longrightarrow> x div 8192 = 7 \<longleftrightarrow> 224 \<le> x div (256 :: nat)"
    by (simp add: div_between less_eq_div_iff_mult_less_eq)
qed

lemma public_ipv4_table: "public_ipv4 a \<longleftrightarrow> \<not> list_ex (in_network a) reserved_ipv4"
proof -
  define y where "y = unat a div 256"
  define x where "x = y div 256"
  have x: "unat a div 65536 = x" "unat a div 16777216 = x div 256" "unat a div 4194304 = x div 64"
    "unat a div 1048576 = x div 16" "unat a div 131072 = x div 2" "unat a div 536870912 = x div 8192"
    "y div 65536 = x div 256" "y div 256 = x"
    by (simp_all add: x_def y_def div_mult2_eq [symmetric])
  have "x < 65536" using unat_ipv4_less [of a] by (simp add: x_def y_def)
  note split = split_others [of x] split_others(4) [OF this] split_16 [of 254 x 169] split_16 [of 168 x 192]
    split_24 [of 0 0 y 192] split_24 [of 0 2 y 192] split_24 [of 88 99 y 192] split_24 [of 51 100 y 198]
    split_24 [of 0 113 y 203]
  show ?thesis
    unfolding public_ipv4_def octet_nat Let_def
    using split by (simp add: reserved_ipv4_def in_network_nat ipv4_def x flip: y_def)
qed

lemma unat_ipv6_less: "unat (a :: 128 word) < 2 ^ 128"
  using unsigned_less [where 'a = nat, of a] by simp

lemma segment_nat: "unat (segment a i) = unat a div 2 ^ (112 - 16 * i) mod 65536"
  by (simp add: segment_def unsigned_ucast_eq unat_drop_bit_eq take_bit_eq_mod) (simp add: drop_bit_eq_div)

lemma segment_0_nat: "unat (segment a 0) = unat a div 2 ^ 112"
proof -
  have "unat a div 2 ^ 112 < 65536" using unat_ipv6_less [of a] by (simp add: less_mult_imp_div_less)
  then show ?thesis using segment_nat [of a 0] by simp
qed

text \<open>A mask of leading ones compares leading bits.\<close>

lemma and_not_mask_eq:
  fixes w c :: "'a :: len word"
  assumes "c AND NOT (mask k) = c"
  shows "w AND NOT (mask k) = c \<longleftrightarrow> drop_bit k w = drop_bit k c"
proof
  assume "w AND NOT (mask k) = c"
  moreover have "drop_bit k (w AND NOT (mask k)) = drop_bit k w"
    by (auto simp: bit_eq_iff bit_simps dest: bit_imp_le_length)
  ultimately show "drop_bit k w = drop_bit k c" by simp
next
  assume d: "drop_bit k w = drop_bit k c"
  have "bit w i = bit c i" if "k \<le> i" for i
    using that arg_cong [OF d, of "\<lambda>x. bit x (i - k)"] by (simp add: bit_simps)
  then have "w AND NOT (mask k) = c AND NOT (mask k)" by (auto simp: bit_eq_iff bit_simps)
  with assms show "w AND NOT (mask k) = c" by simp
qed

lemma segment_0_masked:
  fixes m c :: "16 word" and a :: "128 word"
  assumes "m = NOT (mask k)" "c AND m = c"
  shows "segment a 0 AND m = c \<longleftrightarrow> unat a div 2 ^ (112 + k) = unat c div 2 ^ k"
proof -
  have "drop_bit k (segment a 0) = drop_bit k c \<longleftrightarrow> unat a div 2 ^ (112 + k) = unat c div 2 ^ k"
    by (simp add: word_unat_eq_iff unat_drop_bit_eq) (simp add: drop_bit_eq_div segment_0_nat div_mult2_eq power_add)
  with and_not_mask_eq [of c k "segment a 0"] show ?thesis using assms by simp
qed

lemma segments_01:
  fixes a :: "128 word" and b c :: nat
  assumes "b < 65536"
  shows "segment a 0 = word_of_nat c \<and> segment a 1 = word_of_nat b \<longleftrightarrow> unat a div 2 ^ 96 = c mod 65536 * 65536 + b"
proof -
  have "unat a div 2 ^ 112 = unat a div 2 ^ 96 div 65536" by (simp add: div_mult2_eq [symmetric])
  moreover have "x = c * 65536 + b \<longleftrightarrow> x div 65536 = c \<and> x mod 65536 = b" for x c :: nat
    using assms by auto
  moreover have "unat a div 2 ^ 112 mod 65536 = unat a div 2 ^ 112" using segment_0_nat [of a] segment_nat [of a 0] by simp
  ultimately show ?thesis using assms
    by (auto simp: word_unat_eq_iff segment_0_nat segment_nat unat_of_nat take_bit_eq_mod)
qed

lemma all_less_5: "(\<forall>i < 5. P i) \<longleftrightarrow> P 0 \<and> P 1 \<and> P 2 \<and> P 3 \<and> P (4 :: nat)"
  by (simp add: eval_nat_numeral All_less_Suc conj_ac)

lemma mapped_network_iff:
  "to_ipv4_mapped a = (if in_network a mapped_network then Some (ucast a) else None)"
proof -
  define v where "v = unat a div 2 ^ 32"
  have seg: "unat (segment a i) = v div 2 ^ (80 - 16 * i) mod 65536" if "i \<le> 5" for i
  proof -
    have "(112 - 16 * i :: nat) = 32 + (80 - 16 * i)" using that by simp
    then show ?thesis unfolding segment_nat v_def by (simp only: power_add div_mult2_eq)
  qed
  have "v div 2 ^ 80 < 65536" using unat_ipv6_less [of a] by (simp add: v_def less_mult_imp_div_less)
  then have small: "v div 2 ^ 80 mod 65536 = v div 2 ^ 80" by simp
  have step: "x div 65536 = 0 \<and> x mod 65536 = 0 \<longleftrightarrow> x = 0" for x :: nat
    by (metis div_mult_mod_eq div_0 mod_0 mult_0 add_0)
  have e: "80 - 16 * i = 16 * (5 - i)" for i :: nat by simp
  define w where "w k = v div 2 ^ (16 * k)" for k
  have w: "w (Suc k) = w k div 65536" for k
    by (simp add: w_def power_add div_mult2_eq [symmetric] mult.commute)
  have "w (Suc k) = 0 \<and> w k mod 65536 = 0 \<longleftrightarrow> w k = 0" for k
    using step [of "w k"] by (simp add: w)
  note zero = this
  have w5: "w 5 mod 65536 = w 5" using small by (simp add: w_def)
  have "segment a i = 0 \<longleftrightarrow> w (5 - i) mod 65536 = 0" if "i < 5" for i
  proof -
    have "unat (segment a i) = w (5 - i) mod 65536" using seg [of i] that unfolding w_def e by linarith
    then show ?thesis unfolding word_unat_eq_iff unsigned_0 by (rule arg_cong)
  qed
  then have "(\<forall>i < 5. segment a i = 0) \<longleftrightarrow> (\<forall>i < 5. w (5 - i) mod 65536 = 0)" by (rule all_cong)
  also have "\<dots> \<longleftrightarrow> w 5 mod 65536 = 0 \<and> w 4 mod 65536 = 0 \<and> w 3 mod 65536 = 0 \<and> w 2 mod 65536 = 0 \<and> w 1 mod 65536 = 0"
    unfolding all_less_5 by simp
  also have "\<dots> \<longleftrightarrow> w 1 = 0"
  proof -
    have "w 2 = 0 \<and> w 1 mod 65536 = 0 \<longleftrightarrow> w 1 = 0" "w 3 = 0 \<and> w 2 mod 65536 = 0 \<longleftrightarrow> w 2 = 0"
      "w 4 = 0 \<and> w 3 mod 65536 = 0 \<longleftrightarrow> w 3 = 0" "w 5 = 0 \<and> w 4 mod 65536 = 0 \<longleftrightarrow> w 4 = 0"
      using zero [of 1] zero [of 2] zero [of 3] zero [of 4] by (simp_all flip: numeral_2_eq_2)
    then show ?thesis unfolding w5 by argo
  qed
  finally have head: "(\<forall>i < 5. segment a i = 0) \<longleftrightarrow> v div 65536 = 0" by (simp add: w_def)
  have "v = 65535 \<longleftrightarrow> v div 65536 = 0 \<and> v mod 65536 = 65535" by auto
  then have "(\<forall>i < 5. segment a i = 0) \<and> segment a 5 = 0xffff \<longleftrightarrow> v = 65535"
    using head seg [of 5] by (simp add: word_unat_eq_iff)
  then show ?thesis
    by (simp add: to_ipv4_mapped_def mapped_network_def in_network_nat v_def)
qed

lemma public_ipv6_table:
  assumes "\<not> in_network a mapped_network"
  shows "public_ipv6 a \<longleftrightarrow> \<not> list_ex (in_network a) reserved_ipv6"
proof -
  have masks: "(0xff00 :: 16 word) = NOT (mask 8)" "(0xfe00 :: 16 word) = NOT (mask 9)"
    "(0xffc0 :: 16 word) = NOT (mask 6)" by (simp_all add: mask_eq_exp_minus_1)
  note masked = segment_0_masked [of "0xff00" 8 "0xff00" a] segment_0_masked [of "0xfe00" 9 "0xfc00" a]
    segment_0_masked [of "0xffc0" 6 "0xfe80" a] segment_0_masked [of "0xffc0" 6 "0xfec0" a]
  note prefixes = segments_01 [of "0x0db8" a "0x2001"] segments_01 [of 2 a "0x2001"] segments_01 [of "0xff9b" a "0x64"]
  show ?thesis
    using assms masked prefixes masks
    by (simp add: public_ipv6_def mapped_network_iff reserved_ipv6_def in_network_nat ipv6_prefix_def
      is_unspecified_def is_loopback_def is_multicast_def word_unat_eq_iff [of a 0] word_unat_eq_iff [of a 1])
qed

lemma public_ipv6_mapped: "in_network a mapped_network \<Longrightarrow> public_ipv6 a = public_ipv4 (ucast a)"
  by (simp add: public_ipv6_def mapped_network_iff)

lemma public_ip_iff: "public_ip address \<longleftrightarrow> \<not> reserved address"
proof (cases address)
  case (V6 a)
  then show ?thesis by (cases "in_network a mapped_network") (simp_all add: public_ipv4_table public_ipv6_table public_ipv6_mapped)
qed (simp add: public_ipv4_table)

subsection \<open>Resolution\<close>

datatype resolution_error = Unsafe | Unresolved

text \<open>The host of a parsed URL, the address it denotes when it is one, and what the lookup returned: nothing after
  an error or five seconds. The addresses are returned in their order and without
  repetitions (\<^verbatim>\<open>BTreeSet\<close>).\<close>

definition resolve_public_destination ::
  "ustring option \<Rightarrow> (ustring \<Rightarrow> ip_addr option) \<Rightarrow> (ustring \<Rightarrow> ip_addr list option)
     \<Rightarrow> (resolution_error, ip_addr list) result" where
  "resolve_public_destination host_str parse_ip lookup_host =
     bindR (ok_or host_str Unsafe) (\<lambda>host.
     if is_some_and (parse_ip host) (\<lambda>address. \<not> public_ip address) then Inl Unsafe
     else bindR (ok_or (lookup_host host) Unresolved) (\<lambda>resolved.
       let addresses = dedup (sort resolved) in
       if addresses = [] then Inl Unresolved
       else if length addresses > 16 \<or> list_ex (\<lambda>address. \<not> public_ip address) addresses then Inl Unsafe
       else Inr addresses))"

text \<open>Resolution succeeds exactly when the host is not itself the text of a reserved address, the lookup returned
  between one and sixteen addresses, and none of them is reserved; it returns them.\<close>

lemma resolve_public_destination_iff:
  "resolve_public_destination host_str parse_ip lookup_host = Inr addresses
   \<longleftrightarrow> (\<exists>host resolved. host_str = Some host \<and> lookup_host host = Some resolved
         \<and> is_none_or (parse_ip host) (\<lambda>a. \<not> reserved a)
         \<and> addresses = dedup (sort resolved) \<and> 1 \<le> length addresses \<and> length addresses \<le> 16
         \<and> list_all (\<lambda>a. \<not> reserved a) resolved)"
proof -
  have "list_ex (\<lambda>a. \<not> public_ip a) (dedup (sort resolved)) \<longleftrightarrow> \<not> list_all (\<lambda>a. \<not> reserved a) resolved" for resolved
    by (simp add: list_ex_iff list_all_iff public_ip_iff)
  moreover have "is_some_and v (\<lambda>a. \<not> public_ip a) \<longleftrightarrow> \<not> is_none_or v (\<lambda>a. \<not> reserved a)" for v
    by (cases v) (simp_all add: public_ip_iff)
  moreover have "1 \<le> length (dedup (sort resolved)) \<longleftrightarrow> dedup (sort resolved) \<noteq> []" for resolved :: "ip_addr list"
    by (cases "dedup (sort resolved)") auto
  ultimately show ?thesis
    by (cases host_str; cases "lookup_host (the host_str)")
      (auto simp: resolve_public_destination_def Let_def not_less simp del: dedup_eq_Nil)
qed

lemma resolved_addresses:
  assumes "resolve_public_destination host_str parse_ip lookup_host = Inr addresses"
  shows "addresses \<noteq> [] \<and> list_all (\<lambda>a. \<not> reserved a) addresses"
  using assms unfolding resolve_public_destination_iff by (fastforce simp: list_all_iff)

end
