(* ===== verification/Alert_Conditions.thy ===== *)
theory Alert_Conditions
  imports Alert_Destinations Json_Value Queue_System
begin

section \<open>Conditions and notices (apps/server/src/alerts.rs)\<close>

text \<open>
  The evaluation of alert rules: the condition of a rule in a scope is active or not, every change gives it a new
  generation and one notice. The rows are those of \<^verbatim>\<open>alert_condition_states\<close> and \<^verbatim>\<open>alert_deliveries\<close>; the
  statements use the tables of the job queue's theory. The queries over crash events, issues and usage are
  arguments, the results they return; serializing a payload is a parameter that gives its length. Payloads are
  objects, as \<^verbatim>\<open>base_payload\<close> builds them and the table demands.
\<close>

definition max_payload_bytes :: nat where "max_payload_bytes = 16 * 1024"
definition alert_recovery_page_size :: nat where "alert_recovery_page_size = 1000"
definition i64_max :: int where "i64_max = 2 ^ 63 - 1"

definition i64_saturating :: "int \<Rightarrow> int" where
  "i64_saturating n = (if n > i64_max then i64_max else if n < - i64_max - 1 then - i64_max - 1 else n)"

subsection \<open>Tables\<close>

datatype scheduler_error = Database

datatype notice_kind = Triggered | Recovered

text \<open>The states \<^verbatim>\<open>pending\<close>, \<^verbatim>\<open>leased\<close>, \<^verbatim>\<open>delivered\<close>, \<^verbatim>\<open>failed\<close>, \<^verbatim>\<open>dead\<close>, \<^verbatim>\<open>suppressed\<close> and \<^verbatim>\<open>unknown\<close>.\<close>

datatype delivery_state = Unsent | Sending | Delivered | Retryable_Failure | Given_Up | Suppressed | Uncertain

text \<open>Organization, project, rule and scope: the key of a condition.\<close>

type_synonym condition_key = "uuid \<times> uuid \<times> uuid \<times> ustring"

record condition_row =
  k_key :: condition_key
  k_active :: bool
  k_generation :: int
  k_payload :: json_map

record delivery_row =
  v_id :: uuid
  v_key :: condition_key
  v_integration :: uuid
  v_generation :: int
  v_transition :: notice_kind
  v_payload :: json_map
  v_state :: delivery_state
  v_attempt :: int
  v_max_attempt :: int
  v_available_at :: micros
  v_created_at :: micros
  v_lease_owner :: "uuid option"
  v_lease_token :: "uuid option"
  v_lease_expires_at :: "micros option"
  v_failure_code :: "string option"
  v_delivered_at :: "micros option"

record alert_tables =
  conditions :: "condition_row list"
  deliveries :: "delivery_row list"

record rule_evaluation =
  ev_id :: uuid
  ev_org :: uuid
  ev_project :: uuid
  ev_project_name :: ustring
  ev_integration :: uuid
  ev_condition_kind :: string
  ev_environment :: ustring
  ev_threshold :: "int option"
  ev_window_seconds :: "int option"
  ev_quiet_start :: "int option"
  ev_quiet_end :: "int option"

record observation =
  ob_scope_key :: ustring
  ob_payload :: json_map

text \<open>What a transition takes from its surroundings: the clock of the database, the wall clock and its text, the
  length of a serialized payload and a random id.\<close>

record alert_env =
  en_now :: micros
  en_utc :: clock_time
  en_occurred_at :: ustring
  en_payload_size :: "json_map \<Rightarrow> nat"
  en_id :: uuid

subsection \<open>Payloads\<close>

definition int_json :: "int \<Rightarrow> json" where
  "int_json n = JNumber (if n \<ge> 0 then PosInt (nat n) else NegInt n)"

text \<open>\<^verbatim>\<open>trim_end_matches('/')\<close>.\<close>

definition trim_end_slashes :: "ustring \<Rightarrow> ustring" where
  "trim_end_slashes s = rev (dropWhile (\<lambda>c. c = ch CHR ''/'') (rev s))"

definition base_payload ::
  "ustring \<Rightarrow> rule_evaluation \<Rightarrow> ustring option \<Rightarrow> ustring option \<Rightarrow> int \<Rightarrow> json_map" where
  "base_payload public_base_url rule issue_id issue_title n =
     (let base = trim_end_slashes public_base_url;
          url = (case issue_id of
              None \<Rightarrow> base @ lit ''/projects/'' @ ev_project rule
            | Some issue_id \<Rightarrow> base @ lit ''/projects/'' @ ev_project rule @ lit ''/issues/'' @ issue_id)
      in struct_map [(''condition'', JString (lit (ev_condition_kind rule))), (''project_id'', JString (ev_project rule)),
        (''project_name'', JString (ev_project_name rule)), (''environment'', JString (ev_environment rule)),
        (''issue_id'', option_json JString issue_id), (''issue_title'', option_json JString issue_title),
        (''count'', int_json n), (''url'', JString url)])"

definition notice_text :: "notice_kind \<Rightarrow> ustring" where
  "notice_text n = (case n of Triggered \<Rightarrow> lit ''triggered'' | Recovered \<Rightarrow> lit ''recovered'')"

definition notice_payload :: "notice_kind \<Rightarrow> ustring \<Rightarrow> json_map \<Rightarrow> json_map" where
  "notice_payload transition occurred_at payload =
     om_insert (lit ''occurred_at'') (JString occurred_at)
       (om_insert (lit ''transition'') (JString (notice_text transition)) payload)"

subsection \<open>A transition of a condition\<close>

definition rule_key :: "rule_evaluation \<Rightarrow> ustring \<Rightarrow> condition_key" where
  "rule_key rule scope = (ev_org rule, ev_project rule, ev_id rule, scope)"

definition upsert_condition :: "condition_row \<Rightarrow> condition_row list \<Rightarrow> condition_row list" where
  "upsert_condition row rows =
     (if affected (\<lambda>k. k_key k = k_key row) rows > 0 then update_where (\<lambda>k. k_key k = k_key row) (\<lambda>_. row) rows
      else row # rows)"

text \<open>The triggered notice that quiet hours still hold back when its condition has ended.\<close>

definition held_back :: "micros \<Rightarrow> condition_key \<Rightarrow> int \<Rightarrow> delivery_row \<Rightarrow> bool" where
  "held_back now key generation d \<longleftrightarrow> v_key d = key \<and> v_generation d = generation \<and> v_transition d = Triggered
     \<and> v_state d = Unsent \<and> v_available_at d > now"

definition suppress_row :: "delivery_row \<Rightarrow> delivery_row" where
  "suppress_row d = d\<lparr>v_state := Suppressed, v_failure_code := Some ''quiet_recovered''\<rparr>"

definition new_delivery ::
  "alert_env \<Rightarrow> rule_evaluation \<Rightarrow> ustring \<Rightarrow> int \<Rightarrow> notice_kind \<Rightarrow> json_map \<Rightarrow> bool \<Rightarrow> delivery_row" where
  "new_delivery env rule scope generation transition payload suppressed =
     \<lparr>v_id = en_id env, v_key = rule_key rule scope, v_integration = ev_integration rule, v_generation = generation,
      v_transition = transition, v_payload = payload, v_state = (if suppressed then Suppressed else Unsent),
      v_attempt = 0, v_max_attempt = 3,
      v_available_at = en_now env + seconds (quiet_delay_seconds (en_utc env) (ev_quiet_start rule) (ev_quiet_end rule)),
      v_created_at = en_now env, v_lease_owner = None, v_lease_token = None, v_lease_expires_at = None,
      v_failure_code = (if suppressed then Some ''quiet_recovered'' else None), v_delivered_at = None\<rparr>"

text \<open>\<^verbatim>\<open>ON CONFLICT DO NOTHING\<close>: the id, and the key with the generation and the transition are unique.\<close>

definition insert_delivery :: "delivery_row \<Rightarrow> delivery_row list \<Rightarrow> delivery_row list" where
  "insert_delivery d rows =
     (if list_ex (\<lambda>d'. v_id d' = v_id d \<or> v_key d' = v_key d \<and> v_generation d' = v_generation d
          \<and> v_transition d' = v_transition d) rows then rows else d # rows)"

definition change_condition ::
  "alert_env \<Rightarrow> rule_evaluation \<Rightarrow> ustring \<Rightarrow> bool \<Rightarrow> json_map \<Rightarrow> int \<Rightarrow> alert_tables \<Rightarrow> alert_tables" where
  "change_condition env rule scope active payload generation s =
     (let key = rule_key rule scope;
          row = \<lparr>k_key = key, k_active = active, k_generation = generation, k_payload = payload\<rparr>;
          ended = held_back (en_now env) key (i64_saturating (generation - 1));
          suppressed_pair = (\<not> active \<and> affected ended (deliveries s) > 0);
          rows = (if active then deliveries s else update_where ended suppress_row (deliveries s));
          d = new_delivery env rule scope generation (if active then Triggered else Recovered) payload suppressed_pair
      in s\<lparr>conditions := upsert_condition row (conditions s), deliveries := insert_delivery d rows\<rparr>)"

definition transition_condition ::
  "alert_env \<Rightarrow> rule_evaluation \<Rightarrow> ustring \<Rightarrow> bool \<Rightarrow> json_map \<Rightarrow> alert_tables \<Rightarrow> (scheduler_error, alert_tables) result" where
  "transition_condition env rule scope active payload s =
     (if scope = [] \<or> str_len scope > 200 then Inl Database
      else let key = rule_key rule scope; previous = find (\<lambda>k. k_key k = key) (conditions s) in
        if is_some_and previous (\<lambda>k. k_active k = active)
        then Inr (s\<lparr>conditions := update_where (\<lambda>k. k_key k = key) (\<lambda>k. k\<lparr>k_payload := payload\<rparr>) (conditions s)\<rparr>)
        else if previous = None \<and> \<not> active then Inr s
        else
          let generation = (case previous of None \<Rightarrow> 1 | Some k \<Rightarrow> i64_saturating (k_generation k + 1));
              payload = notice_payload (if active then Triggered else Recovered) (en_occurred_at env) payload
          in if en_payload_size env payload > max_payload_bytes then Inl Database
             else Inr (change_condition env rule scope active payload generation s))"

subsection \<open>Observations\<close>

text \<open>The results of the queries: the number of events, whether the project has been silent, and the counters of its
  usage. An absent threshold or window of a stored rule is an error.\<close>

definition scope_of :: "string \<Rightarrow> rule_evaluation \<Rightarrow> ustring" where
  "scope_of start rule = lit start @ ev_environment rule"

definition observed :: "ustring \<Rightarrow> rule_evaluation \<Rightarrow> string \<Rightarrow> bool \<Rightarrow> int \<Rightarrow> observation list" where
  "observed url rule start active n =
     (if active then [\<lparr>ob_scope_key = scope_of start rule, ob_payload = base_payload url rule None None n\<rparr>] else [])"

definition volume_observation ::
  "ustring \<Rightarrow> rule_evaluation \<Rightarrow> int \<Rightarrow> (scheduler_error, observation list) result" where
  "volume_observation url rule n =
     bindR (ok_or (ev_window_seconds rule) Database) (\<lambda>_.
     bindR (ok_or (ev_threshold rule) Database) (\<lambda>threshold.
     Inr (observed url rule ''project:'' (n \<ge> threshold) n)))"

definition processing_observation ::
  "ustring \<Rightarrow> rule_evaluation \<Rightarrow> int \<Rightarrow> (scheduler_error, observation list) result" where
  "processing_observation url rule n = Inr (observed url rule ''project:'' (n > 0) n)"

definition silence_observation ::
  "ustring \<Rightarrow> rule_evaluation \<Rightarrow> bool \<Rightarrow> (scheduler_error, observation list) result" where
  "silence_observation url rule silent =
     bindR (ok_or (ev_window_seconds rule) Database) (\<lambda>window.
     Inr (observed url rule ''project:'' silent window))"

text \<open>The limit with the courtesy, with \<^verbatim>\<open>saturating_add\<close> and \<^verbatim>\<open>saturating_mul\<close>. The limit and the percentage of
  a policy are not negative.\<close>

definition over_courtesy :: "int \<Rightarrow> int \<Rightarrow> int \<Rightarrow> bool" where
  "over_courtesy accepted limit courtesy_percent \<longleftrightarrow>
     accepted > i64_saturating (limit + i64_saturating (limit * courtesy_percent) div 100)"

definition quota_active :: "int \<Rightarrow> int \<Rightarrow> int \<Rightarrow> int \<Rightarrow> bool" where
  "quota_active threshold accepted limit courtesy_percent \<longleftrightarrow>
     (if threshold = 101 then over_courtesy accepted limit courtesy_percent else accepted * 100 \<ge> limit * threshold)"

definition quota_observation ::
  "ustring \<Rightarrow> rule_evaluation \<Rightarrow> (int \<times> int \<times> int) option \<Rightarrow> (scheduler_error, observation list) result" where
  "quota_observation url rule row =
     bindR (ok_or row Database) (\<lambda>(accepted, limit, courtesy_percent).
     bindR (ok_or (ev_threshold rule) Database) (\<lambda>threshold.
     Inr (observed url rule ''quota:'' (quota_active threshold accepted limit courtesy_percent) accepted)))"

text \<open>An issue that the query of a rule over issues selects.\<close>

record issue_observation =
  io_sort_at :: micros
  io_issue_id :: uuid
  io_title :: ustring
  io_events :: int

text \<open>The last field has the issues that the query selects for regressions (\<open>True\<close>) and for first sightings. They are the
  same at every query of one evaluation.\<close>

record query_results =
  q_events :: int
  q_silent :: bool
  q_usage :: "(int \<times> int \<times> int) option"
  q_issues :: "bool \<Rightarrow> issue_observation list"

definition observations ::
  "ustring \<Rightarrow> rule_evaluation \<Rightarrow> query_results \<Rightarrow> (scheduler_error, observation list) result" where
  "observations url rule q =
     (if ev_condition_kind rule = ''volume'' then volume_observation url rule (q_events q)
      else if ev_condition_kind rule = ''missing_symbols'' then processing_observation url rule (q_events q)
      else if ev_condition_kind rule = ''processing_failure'' then processing_observation url rule (q_events q)
      else if ev_condition_kind rule = ''ingest_silence'' then silence_observation url rule (q_silent q)
      else if ev_condition_kind rule = ''quota'' then quota_observation url rule (q_usage q)
      else Inl Database)"

subsection \<open>Sequences of transitions\<close>

text \<open>Each transition is a transaction of its own: an error ends the evaluation and leaves what the earlier ones
  have committed. The surroundings of the \<open>n\<close>-th one are \<open>env n\<close>.\<close>

fun transitions ::
  "(nat \<Rightarrow> alert_env) \<Rightarrow> rule_evaluation \<Rightarrow> (ustring \<times> bool \<times> json_map) list \<Rightarrow> alert_tables
     \<Rightarrow> (scheduler_error, unit) result \<times> alert_tables" where
  "transitions env rule [] s = (Inr (), s)"
| "transitions env rule ((scope, active, payload) # rest) s =
     (case transition_condition (env 0) rule scope active payload s of
        Inl e \<Rightarrow> (Inl e, s)
      | Inr s' \<Rightarrow> transitions (\<lambda>n. env (Suc n)) rule rest s')"

definition scope_rows :: "rule_evaluation \<Rightarrow> (condition_row \<Rightarrow> bool) \<Rightarrow> alert_tables \<Rightarrow> (ustring \<times> bool \<times> json_map) list" where
  "scope_rows rule p s =
     map (\<lambda>k. (snd (snd (snd (k_key k))), False, k_payload k))
       (filter (\<lambda>k. k_active k \<and> k_key k = rule_key rule (snd (snd (snd (k_key k)))) \<and> p k) (conditions s))"

definition recover_absent_conditions ::
  "(nat \<Rightarrow> alert_env) \<Rightarrow> rule_evaluation \<Rightarrow> ustring list \<Rightarrow> alert_tables
     \<Rightarrow> (scheduler_error, unit) result \<times> alert_tables" where
  "recover_absent_conditions env rule active_scopes s =
     transitions env rule (scope_rows rule (\<lambda>k. snd (snd (snd (k_key k))) \<notin> set active_scopes) s) s"

subsection \<open>Rules over issues\<close>

text \<open>The issues that the query selects, in the order of its key: the time it sorts by and the id. A page holds
  those after the cursor.\<close>

definition alert_issue_page_size :: nat where "alert_issue_page_size = 1000"

definition io_key :: "issue_observation \<Rightarrow> micros \<times> uuid" where
  "io_key i = (io_sort_at i, io_issue_id i)"

definition issue_scope :: "ustring \<Rightarrow> rule_evaluation \<Rightarrow> issue_observation \<Rightarrow> ustring \<times> bool \<times> json_map" where
  "issue_scope url rule i = (lit ''issue:'' @ io_issue_id i, True,
     base_payload url rule (Some (io_issue_id i)) (Some (io_title i)) (io_events i))"

definition after_cursor :: "(micros \<times> uuid) option \<Rightarrow> issue_observation \<Rightarrow> bool" where
  "after_cursor cursor i \<longleftrightarrow> is_none_or cursor (\<lambda>c. io_key i > c)"

definition issue_observations_page ::
  "issue_observation list \<Rightarrow> (micros \<times> uuid) option \<Rightarrow> issue_observation list" where
  "issue_observations_page issues cursor =
     take alert_issue_page_size (filter (after_cursor cursor) (sort_key io_key issues))"

text \<open>\<^verbatim>\<open>payload ->> 'issue_id'\<close> of a condition. The active conditions of the rule whose issue is not selected any
  more recover, at most a page of them at a time, until there are none: the loop ends only if it makes progress.\<close>

definition payload_issue_id :: "json_map \<Rightarrow> uuid option" where
  "payload_issue_id payload = (case om_get payload (lit ''issue_id'') of Some (JString i) \<Rightarrow> Some i | _ \<Rightarrow> None)"

definition recovery_page :: "rule_evaluation \<Rightarrow> issue_observation list \<Rightarrow> alert_tables \<Rightarrow> (ustring \<times> bool \<times> json_map) list" where
  "recovery_page rule issues s =
     take alert_recovery_page_size (sort_key fst (scope_rows rule
       (\<lambda>k. \<not> list_ex (\<lambda>i. payload_issue_id (k_payload k) = Some (io_issue_id i)) issues) s))"

partial_function (option) recover_issue_conditions ::
  "rule_evaluation \<Rightarrow> issue_observation list \<Rightarrow> (nat \<Rightarrow> alert_env) \<Rightarrow> alert_tables
     \<Rightarrow> ((scheduler_error, unit) result \<times> alert_tables) option" where
  "recover_issue_conditions rule issues env s =
     (let rows = recovery_page rule issues s in
      if rows = [] then Some (Inr (), s)
      else case transitions env rule rows s of
        (Inl e, s') \<Rightarrow> Some (Inl e, s')
      | (Inr _, s') \<Rightarrow> recover_issue_conditions rule issues (\<lambda>n. env (length rows + n)) s')"

declare recover_issue_conditions.simps [code]

text \<open>\<^verbatim>\<open>call().await?; Ok(a)\<close>\<close>

definition then_ok :: "'a \<Rightarrow> (('e, 'b) result \<times> 's) option \<Rightarrow> (('e, 'a) result \<times> 's) option" where
  "then_ok a = map_option (\<lambda>(r, s). (bindR r (\<lambda>_. Inr a), s))"

text \<open>The loop over the pages; whether it reached the end is \<open>False\<close> only for a bounded number of pages.\<close>

function issue_pages ::
  "(nat \<Rightarrow> alert_env) \<Rightarrow> ustring \<Rightarrow> rule_evaluation \<Rightarrow> issue_observation list \<Rightarrow> nat option \<Rightarrow> nat
     \<Rightarrow> (micros \<times> uuid) option \<Rightarrow> alert_tables \<Rightarrow> ((scheduler_error, bool) result \<times> alert_tables) option" where
  "issue_pages env url rule issues maximum pages cursor s =
     (let page = issue_observations_page issues cursor in
      if page = [] then then_ok True (recover_issue_conditions rule issues env s)
      else case transitions env rule (map (issue_scope url rule) page) s of
        (Inl e, s') \<Rightarrow> Some (Inl e, s')
      | (Inr _, s') \<Rightarrow>
          if length page < alert_issue_page_size
          then then_ok True (recover_issue_conditions rule issues (\<lambda>n. env (length page + n)) s')
          else if is_some_and maximum (\<lambda>m. pages + 1 \<ge> m) then Some (Inr False, s')
          else issue_pages (\<lambda>n. env (length page + n)) url rule issues maximum (pages + 1)
                 (Some (io_key (last page))) s')"
  by pat_completeness auto

termination
proof (relation "measure (\<lambda>(_, _, _, issues, _, _, cursor, _). length (filter (after_cursor cursor) (sort_key io_key issues)))",
    goal_cases)
  case (2 env url rule issues maximum pages cursor s page)
  let ?rest = "filter (after_cursor cursor) (sort_key io_key issues)"
  have "last page \<in> set ?rest" using 2(1,2) in_set_takeD last_in_set unfolding issue_observations_page_def by metis
  moreover have "\<not> after_cursor (Some (io_key (last page))) (last page)" by (simp add: after_cursor_def)
  ultimately have "length (filter (after_cursor (Some (io_key (last page)))) ?rest) < length ?rest"
    by (intro length_filter_less) auto
  moreover have "filter (after_cursor (Some (io_key (last page)))) ?rest
      = filter (after_cursor (Some (io_key (last page)))) (sort_key io_key issues)"
  proof -
    have "after_cursor cursor i" if "after_cursor (Some (io_key (last page))) i" for i
      using that \<open>last page \<in> set ?rest\<close> by (cases cursor) (auto simp: after_cursor_def)
    then show ?thesis unfolding filter_filter by (intro filter_cong) auto
  qed
  ultimately show ?case by simp
qed simp

declare issue_pages.simps [simp del]

definition evaluate_issue_rule_pages ::
  "(nat \<Rightarrow> alert_env) \<Rightarrow> ustring \<Rightarrow> rule_evaluation \<Rightarrow> issue_observation list \<Rightarrow> alert_tables
     \<Rightarrow> ((scheduler_error, bool) result \<times> alert_tables) option" where
  "evaluate_issue_rule_pages env url rule issues s = issue_pages env url rule issues None 0 None s"

subsection \<open>The evaluation of a rule of any kind\<close>

definition evaluate_rule ::
  "(nat \<Rightarrow> alert_env) \<Rightarrow> ustring \<Rightarrow> rule_evaluation \<Rightarrow> query_results \<Rightarrow> alert_tables
     \<Rightarrow> ((scheduler_error, unit) result \<times> alert_tables) option" where
  "evaluate_rule env url rule q s =
     (if ev_condition_kind rule = ''first_seen''
      then then_ok () (evaluate_issue_rule_pages env url rule (q_issues q False) s)
      else if ev_condition_kind rule = ''regression''
      then then_ok () (evaluate_issue_rule_pages env url rule (q_issues q True) s)
      else Some (case observations url rule q of
        Inl e \<Rightarrow> (Inl e, s)
      | Inr obs \<Rightarrow>
          (case transitions env rule (map (\<lambda>ob. (ob_scope_key ob, True, ob_payload ob)) obs) s of
             (Inl e, s') \<Rightarrow> (Inl e, s')
           | (Inr _, s') \<Rightarrow>
               recover_absent_conditions (\<lambda>n. env (length obs + n)) rule (map ob_scope_key obs) s')))"

end
