(* ===== verification/Alert_Delivery.thy ===== *)
theory Alert_Delivery
  imports Alert_Conditions
begin

section \<open>Delivery of notices (apps/server/src/alerts.rs)\<close>

text \<open>
  The workers that send notices: the claim of a due notice, what is sent to each kind of integration, and the end
  of an attempt. Sending is a parameter, the outcome of the request; so are the cipher of the stored destinations,
  HMAC and the parser of URLs.
\<close>

definition delivery_lease_seconds :: int where "delivery_lease_seconds = 30"

datatype delivery_error = Retryable string | Permanent string | Unknown string

record claimed_delivery =
  cd_id :: uuid
  cd_org :: uuid
  cd_project :: uuid
  cd_integration :: uuid
  cd_attempt :: int
  cd_max_attempt :: int
  cd_lease_token :: uuid
  cd_payload :: json_map

subsection \<open>Claims\<close>

definition delivery_org :: "delivery_row \<Rightarrow> uuid" where "delivery_org d = fst (v_key d)"
definition delivery_project :: "delivery_row \<Rightarrow> uuid" where "delivery_project d = fst (snd (v_key d))"

definition same_delivery :: "delivery_row \<Rightarrow> delivery_row \<Rightarrow> bool" where
  "same_delivery c d \<longleftrightarrow> v_id d = v_id c \<and> delivery_org d = delivery_org c \<and> delivery_project d = delivery_project c"

definition due :: "micros \<Rightarrow> delivery_row \<Rightarrow> bool" where
  "due now d \<longleftrightarrow> v_state d \<in> {Unsent, Retryable_Failure} \<and> v_available_at d \<le> now"

definition lease_expired :: "micros \<Rightarrow> delivery_row \<Rightarrow> bool" where
  "lease_expired now d \<longleftrightarrow> v_state d = Sending \<and> is_some_and (v_lease_expires_at d) (\<lambda>t. t \<le> now)"

definition delivery_claimable :: "micros \<Rightarrow> delivery_row \<Rightarrow> bool" where
  "delivery_claimable now d \<longleftrightarrow> due now d \<and> v_attempt d < v_max_attempt d \<or> lease_expired now d"

text \<open>The first claimable row that no other transaction has locked, by time, creation and id.\<close>

definition delivery_candidate :: "micros \<Rightarrow> uuid list \<Rightarrow> delivery_row list \<Rightarrow> delivery_row option" where
  "delivery_candidate now locked rows =
     (case sort_key (\<lambda>d. (v_available_at d, v_created_at d, v_id d))
         (filter (\<lambda>d. delivery_claimable now d \<and> v_id d \<notin> set locked) rows) of
        [] \<Rightarrow> None
      | d # _ \<Rightarrow> Some d)"

definition unlease_delivery :: "delivery_row \<Rightarrow> delivery_row" where
  "unlease_delivery d = d\<lparr>v_lease_owner := None, v_lease_token := None, v_lease_expires_at := None\<rparr>"

definition bury :: "delivery_row \<Rightarrow> delivery_row" where
  "bury d = unlease_delivery (d\<lparr>v_state := Given_Up, v_failure_code := Some ''lease_expired_final''\<rparr>)"

definition lease_delivery :: "micros \<Rightarrow> uuid \<Rightarrow> uuid \<Rightarrow> delivery_row \<Rightarrow> delivery_row" where
  "lease_delivery now worker token d =
     d\<lparr>v_state := Sending, v_attempt := v_attempt d + 1, v_lease_owner := Some worker, v_lease_token := Some token,
       v_lease_expires_at := Some (now + seconds delivery_lease_seconds), v_failure_code := None\<rparr>"

definition claimed_row :: "uuid \<Rightarrow> delivery_row \<Rightarrow> claimed_delivery" where
  "claimed_row token d =
     \<lparr>cd_id = v_id d, cd_org = delivery_org d, cd_project = delivery_project d, cd_integration = v_integration d,
      cd_attempt = v_attempt d + 1, cd_max_attempt = v_max_attempt d, cd_lease_token = token, cd_payload = v_payload d\<rparr>"

datatype claim_outcome = Nothing_Due | Buried | Claimed claimed_delivery

text \<open>One round of the loop, a transaction. A row whose last attempt expired is ended and the loop goes on.\<close>

definition claim_round ::
  "micros \<Rightarrow> uuid \<Rightarrow> uuid \<Rightarrow> uuid list \<Rightarrow> alert_tables \<Rightarrow> (scheduler_error, claim_outcome \<times> alert_tables) result" where
  "claim_round now worker token locked s =
     (case delivery_candidate now locked (deliveries s) of
        None \<Rightarrow> Inr (Nothing_Due, s)
      | Some c \<Rightarrow>
          if v_state c = Sending \<and> v_attempt c \<ge> v_max_attempt c then
            let p = (\<lambda>d. same_delivery c d \<and> lease_expired now d \<and> v_attempt d \<ge> v_max_attempt d) in
            if affected p (deliveries s) \<noteq> 1 then Inl Database
            else Inr (Buried, s\<lparr>deliveries := update_where p bury (deliveries s)\<rparr>)
          else
            let p = (\<lambda>d. same_delivery c d \<and> v_attempt d < v_max_attempt d \<and> (due now d \<or> lease_expired now d)) in
            case find p (deliveries s) of
              None \<Rightarrow> Inl Database
            | Some d \<Rightarrow> Inr (Claimed (claimed_row token d),
                s\<lparr>deliveries := update_where p (lease_delivery now worker token) (deliveries s)\<rparr>))"

text \<open>The loop of \<^verbatim>\<open>claim_delivery\<close>; the surroundings of the \<open>n\<close>-th round are \<open>rounds n\<close>.\<close>

partial_function (option) claim_delivery ::
  "(nat \<Rightarrow> micros \<times> uuid \<times> uuid list) \<Rightarrow> uuid \<Rightarrow> nat \<Rightarrow> alert_tables
     \<Rightarrow> ((scheduler_error, claimed_delivery option) result \<times> alert_tables) option" where
  "claim_delivery rounds worker n s =
     (case rounds n of (now, token, locked) \<Rightarrow>
      case claim_round now worker token locked s of
        Inl e \<Rightarrow> Some (Inl e, s)
      | Inr (Nothing_Due, s') \<Rightarrow> Some (Inr None, s')
      | Inr (Claimed c, s') \<Rightarrow> Some (Inr (Some c), s')
      | Inr (Buried, s') \<Rightarrow> claim_delivery rounds worker (n + 1) s')"

subsection \<open>The end of an attempt\<close>

text \<open>State, failure code, seconds until the next attempt.\<close>

definition delivery_end ::
  "claimed_delivery \<Rightarrow> (delivery_error, unit) result \<Rightarrow> delivery_state \<times> string option \<times> int" where
  "delivery_end c result =
     (case result of
        Inr _ \<Rightarrow> (Delivered, None, 0)
      | Inl (Retryable code) \<Rightarrow>
          if cd_attempt c < cd_max_attempt c then (Retryable_Failure, Some code, cd_attempt c * 15)
          else (Given_Up, Some code, 0)
      | Inl (Permanent code) \<Rightarrow> (Given_Up, Some code, 0)
      | Inl (Unknown code) \<Rightarrow> (Uncertain, Some code, 0))"

definition end_row ::
  "micros \<Rightarrow> delivery_state \<times> string option \<times> int \<Rightarrow> delivery_row \<Rightarrow> delivery_row" where
  "end_row now = (\<lambda>(state, code, retry_seconds) d.
     unlease_delivery (d\<lparr>v_state := state, v_available_at := now + seconds retry_seconds, v_failure_code := code,
       v_delivered_at := (if state = Delivered then Some now else v_delivered_at d)\<rparr>))"

definition claim_holds :: "claimed_delivery \<Rightarrow> delivery_row \<Rightarrow> bool" where
  "claim_holds c d \<longleftrightarrow> v_id d = cd_id c \<and> delivery_org d = cd_org c \<and> delivery_project d = cd_project c
     \<and> v_lease_token d = Some (cd_lease_token c) \<and> v_state d = Sending"

definition finish_delivery ::
  "micros \<Rightarrow> claimed_delivery \<Rightarrow> (delivery_error, unit) result \<Rightarrow> alert_tables \<Rightarrow> (scheduler_error, alert_tables) result" where
  "finish_delivery now c result s =
     (if affected (claim_holds c) (deliveries s) \<noteq> 1 then Inl Database
      else Inr (s\<lparr>deliveries := update_where (claim_holds c) (end_row now (delivery_end c result)) (deliveries s)\<rparr>))"

text \<open>The outcome of a request: a failed connection, no response, or the status of one (\<^verbatim>\<open>send_request\<close>).\<close>

datatype send_outcome = Connect_Failed | No_Response | Status nat

definition send_result :: "send_outcome \<Rightarrow> (delivery_error, unit) result" where
  "send_result outcome =
     (case outcome of
        Connect_Failed \<Rightarrow> Inl (Retryable ''destination_connect_failed'')
      | No_Response \<Rightarrow> Inl (Unknown ''delivery_outcome_unknown'')
      | Status n \<Rightarrow>
          if 200 \<le> n \<and> n \<le> 299 then Inr ()
          else if n \<in> {408, 425, 429} \<or> 500 \<le> n \<and> n \<le> 599 then Inl (Retryable ''destination_retryable'')
          else Inl (Permanent ''destination_rejected''))"

subsection \<open>Texts and bodies\<close>

definition field_or :: "json_map \<Rightarrow> string \<Rightarrow> string \<Rightarrow> ustring" where
  "field_or payload key otherwise = unwrap_or (Option.bind (om_get payload (lit key)) as_str) (lit otherwise)"

definition alert_subject :: "json_map \<Rightarrow> ustring" where
  "alert_subject payload = lit ''FaultLane '' @ field_or payload ''condition'' ''project'' @ lit '' alert for ''
     @ field_or payload ''project_name'' ''project''"

definition alert_text :: "json_map \<Rightarrow> ustring" where
  "alert_text payload = field_or payload ''condition'' ''project'' @ lit '' '' @ field_or payload ''transition'' ''triggered''
     @ lit '' for '' @ field_or payload ''project_name'' ''project'' @ lit '' in ''
     @ field_or payload ''environment'' ''unknown'' @ lit ''. '' @ field_or payload ''url'' ''''"

definition signature_hex :: "byte list \<Rightarrow> ustring" where
  "signature_hex bytes = concat (map (\<lambda>b. [hex_lower (unat (drop_bit 4 b)), hex_lower (unat (b AND 0x0f))]) bytes)"

text \<open>The keyed hash is a parameter; HMAC takes keys of any length, so making it cannot fail.\<close>

definition webhook_signature :: "(byte list \<Rightarrow> byte list \<Rightarrow> byte list) \<Rightarrow> ustring \<Rightarrow> byte list \<Rightarrow> ustring" where
  "webhook_signature hmac secret body = lit ''v1='' @ signature_hex (hmac (utf8 secret) body)"

type_synonym delivery_header = "(string \<times> ustring) option"

definition destination_payload ::
  "(byte list \<Rightarrow> byte list \<Rightarrow> byte list) \<Rightarrow> (json_map \<Rightarrow> byte list) \<Rightarrow> string \<Rightarrow> ustring \<Rightarrow> json_map \<Rightarrow> ustring option
     \<Rightarrow> (delivery_error, json_map \<times> delivery_header) result" where
  "destination_payload hmac to_vec kind delivery_id payload signing_secret =
     (if kind = ''discord'' then Inr (struct_map [(''content'', JString (alert_text payload))], None)
      else if kind = ''slack'' then Inr (struct_map [(''text'', JString (alert_text payload))], None)
      else if kind = ''webhook'' then
        let body = struct_map [(''version'', nat_json 1), (''delivery_id'', JString delivery_id), (''event'', JObject payload)] in
        bindR (ok_or signing_secret (Permanent ''signing_secret_missing'')) (\<lambda>secret.
        Inr (body, Some (''x-faultlane-signature'', webhook_signature hmac secret (to_vec body))))
      else Inl (Permanent ''integration_kind_invalid''))"

end
