(* ===== verification/Alert_System.thy ===== *)
theory Alert_System
  imports Alert_Delivery
begin

section \<open>Alerts as a transition system\<close>

text \<open>
  Any number of schedulers and delivery workers run their transactions in any order. The scheduler's step is one
  transition of a condition, for any rule, scope and payload, whatever the queries returned. The state has the
  tables, the clock, and as a ghost every claim of a notice that was ever made. New ids and tokens are ones that
  were never used before (\<^verbatim>\<open>gen_random_uuid\<close>, \<^verbatim>\<open>random_uuid\<close>).
\<close>

record alerts =
  at :: alert_tables
  alert_clock :: micros
  delivery_claims :: "claimed_delivery list"

definition apply_alert :: "(scheduler_error, alert_tables) result \<Rightarrow> alert_tables \<Rightarrow> alert_tables" where
  "apply_alert r s = (case r of Inl _ \<Rightarrow> s | Inr s' \<Rightarrow> s')"

inductive alert_step :: "alerts \<Rightarrow> alerts \<Rightarrow> bool" where
  pass_time: "alert_clock q \<le> t \<Longrightarrow> alert_step q (q\<lparr>alert_clock := t\<rparr>)"
| transition: "en_now env = alert_clock q \<Longrightarrow> en_id env \<notin> v_id ` set (deliveries (at q))
    \<Longrightarrow> alert_step q (q\<lparr>at := apply_alert (transition_condition env rule scope active payload (at q)) (at q)\<rparr>)"
| bury_one: "claim_round (alert_clock q) worker token locked (at q) = Inr (Buried, s) \<Longrightarrow> alert_step q (q\<lparr>at := s\<rparr>)"
| claim_one: "claim_round (alert_clock q) worker token locked (at q) = Inr (Claimed c, s)
    \<Longrightarrow> token \<notin> cd_lease_token ` set (delivery_claims q)
    \<Longrightarrow> alert_step q (q\<lparr>at := s, delivery_claims := c # delivery_claims q\<rparr>)"
| finish_one: "c \<in> set (delivery_claims q)
    \<Longrightarrow> alert_step q (q\<lparr>at := apply_alert (finish_delivery (alert_clock q) c result (at q)) (at q)\<rparr>)"

inductive alert_reachable :: "alerts \<Rightarrow> bool" where
  alert_initial: "alert_reachable \<lparr>at = \<lparr>conditions = [], deliveries = []\<rparr>, alert_clock = t, delivery_claims = []\<rparr>"
| alert_next: "alert_reachable q \<Longrightarrow> alert_step q q' \<Longrightarrow> alert_reachable q'"

subsection \<open>What a transition does\<close>

text \<open>Keys of conditions are unique, and so are ids of notices.\<close>

definition rows_distinct :: "alert_tables \<Rightarrow> bool" where
  "rows_distinct s \<longleftrightarrow> distinct (map k_key (conditions s)) \<and> distinct (map v_id (deliveries s))"

text \<open>The three things a transition can do to the tables.\<close>

lemma transition_cases:
  assumes "transition_condition env rule scope active payload s = Inr s'"
  obtains (same) "\<not> active" "rule_key rule scope \<notin> k_key ` set (conditions s)" "s' = s"
  | (payload) k where "k \<in> set (conditions s)" "k_key k = rule_key rule scope" "k_active k = active"
      "s' = s\<lparr>conditions := update_where (\<lambda>k. k_key k = rule_key rule scope) (\<lambda>k. k\<lparr>k_payload := payload\<rparr>) (conditions s)\<rparr>"
  | (first) payload' where "active" "rule_key rule scope \<notin> k_key ` set (conditions s)"
      "s' = change_condition env rule scope active payload' 1 s"
      "payload' = notice_payload (if active then Triggered else Recovered) (en_occurred_at env) payload"
  | (again) k payload' where "k \<in> set (conditions s)" "k_key k = rule_key rule scope" "k_active k \<noteq> active"
      "s' = change_condition env rule scope active payload' (i64_saturating (k_generation k + 1)) s"
      "payload' = notice_payload (if active then Triggered else Recovered) (en_occurred_at env) payload"
proof (cases "find (\<lambda>k. k_key k = rule_key rule scope) (conditions s)")
  case None
  then have "rule_key rule scope \<notin> k_key ` set (conditions s)" by (auto simp: find_None_iff)
  with None assms that(1,3) show thesis
    by (cases active) (auto simp: transition_condition_def Let_def split: if_splits)
next
  case (Some k)
  then have k: "k \<in> set (conditions s)" "k_key k = rule_key rule scope" by (auto simp: find_Some_iff)
  show thesis
  proof (cases "k_active k = active")
    case True
    with Some assms that(2) [OF k] show thesis by (auto simp: transition_condition_def Let_def split: if_splits)
  next
    case False
    with Some assms k that(4) show thesis by (auto simp: transition_condition_def Let_def split: if_splits)
  qed
qed

lemma affected_pos: "affected p rows > 0 \<longleftrightarrow> (\<exists>r \<in> set rows. p r)"
  using affected_0 [of p rows] by auto

lemma upsert_set: "set (upsert_condition row rows) = insert row {k \<in> set rows. k_key k \<noteq> k_key row}"
  unfolding upsert_condition_def affected_pos update_where_def by auto

lemma upsert_distinct: "distinct (map k_key rows) \<Longrightarrow> distinct (map k_key (upsert_condition row rows))"
proof -
  assume d: "distinct (map k_key rows)"
  have "map k_key (update_where (\<lambda>k. k_key k = k_key row) (\<lambda>_. row) rows) = map k_key rows"
    by (simp add: update_where_def)
  with d show ?thesis unfolding upsert_condition_def affected_pos by auto
qed

subsection \<open>The history of a condition\<close>

text \<open>The specification: the notices of a condition, newest first, as generation, kind and whether it is withheld. A
  condition that starts gets a triggered notice; when it ends, the triggered notice may be withheld, and the
  recovered one is withheld exactly with it.\<close>

type_synonym notice = "int \<times> notice_kind \<times> bool"

inductive notice_history :: "int \<Rightarrow> notice list \<Rightarrow> bool" where
  no_notice: "notice_history 0 []"
| starts: "notice_history g v \<Longrightarrow> even g \<Longrightarrow> notice_history (g + 1) ((g + 1, Triggered, False) # v)"
| ends: "notice_history g ((g, Triggered, False) # v) \<Longrightarrow> odd g
    \<Longrightarrow> notice_history (g + 1) ((g + 1, Recovered, withheld) # (g, Triggered, withheld) # v)"

definition notice_of :: "delivery_row \<Rightarrow> notice" where
  "notice_of d = (v_generation d, v_transition d, v_state d = Suppressed)"

definition notices :: "condition_key \<Rightarrow> delivery_row list \<Rightarrow> notice list" where
  "notices key rows = map notice_of (filter (\<lambda>d. v_key d = key) rows)"

lemma history_generations: "notice_history g v \<Longrightarrow> 0 \<le> g \<and> (\<forall>n \<in> set v. fst n \<le> g)"
  by (induction rule: notice_history.induct) auto

lemma history_tail: "notice_history g ((g, Triggered, False) # v) \<Longrightarrow> n \<in> set v \<Longrightarrow> fst n < g"
  by (erule notice_history.cases) (auto dest!: history_generations)

lemma history_odd:
  assumes "notice_history g v" "odd g"
  obtains v' where "v = (g, Triggered, False) # v'"
  using assms by (cases rule: notice_history.cases) auto

definition condition_ok :: "delivery_row list \<Rightarrow> condition_row \<Rightarrow> bool" where
  "condition_ok rows k \<longleftrightarrow> (k_active k \<longleftrightarrow> odd (k_generation k)) \<and> notice_history (k_generation k) (notices (k_key k) rows)"

definition alerts_ok :: "alert_tables \<Rightarrow> bool" where
  "alerts_ok s \<longleftrightarrow> distinct (map k_key (conditions s))
     \<and> (\<forall>k \<in> set (conditions s). 1 \<le> k_generation k \<and> k_generation k \<le> i64_max
          \<and> (k_generation k < i64_max \<longrightarrow> condition_ok (deliveries s) k))
     \<and> v_key ` set (deliveries s) \<subseteq> k_key ` set (conditions s)"

subsection \<open>Steps keep the history\<close>

text \<open>Claims and their ends change neither what a notice says nor whether it is withheld.\<close>

lemma map_update_where:
  "(\<And>r. r \<in> set rows \<Longrightarrow> p r \<Longrightarrow> g (f r) = g r) \<Longrightarrow> map g (update_where p f rows) = map g rows"
  by (simp add: update_where_def)

lemma image_update_where:
  "(\<And>r. r \<in> set rows \<Longrightarrow> p r \<Longrightarrow> g (f r) = g r) \<Longrightarrow> g ` set (update_where p f rows) = g ` set rows"
  unfolding set_map [symmetric] by (simp only: map_update_where)

lemma notices_map:
  assumes "\<And>d. d \<in> set rows \<Longrightarrow> notice_of (f d) = notice_of d \<and> v_key (f d) = v_key d"
  shows "notices key (map f rows) = notices key rows"
  using assms by (induction rows) (auto simp: notices_def)

lemma alerts_ok_rows:
  assumes "alerts_ok s" "\<And>d. d \<in> set (deliveries s) \<Longrightarrow> p d \<Longrightarrow> notice_of (f d) = notice_of d \<and> v_key (f d) = v_key d"
  shows "alerts_ok (s\<lparr>deliveries := update_where p f (deliveries s)\<rparr>)"
proof -
  have n: "notices key (update_where p f (deliveries s)) = notices key (deliveries s)" for key
    unfolding update_where_def by (rule notices_map) (use assms(2) in auto)
  have "v_key ` set (update_where p f (deliveries s)) = v_key ` set (deliveries s)"
    by (rule image_update_where) (use assms(2) in blast)
  with n assms(1) show ?thesis by (simp add: alerts_ok_def condition_ok_def)
qed

lemma alerts_ok_payload:
  assumes "alerts_ok s"
  shows "alerts_ok (s\<lparr>conditions := update_where p (\<lambda>k. k\<lparr>k_payload := payload\<rparr>) (conditions s)\<rparr>)"
proof -
  let ?rows = "update_where p (\<lambda>k. k\<lparr>k_payload := payload\<rparr>) (conditions s)"
  have keys: "map k_key ?rows = map k_key (conditions s)" by (rule map_update_where) simp
  have "\<exists>k' \<in> set (conditions s). k_key k = k_key k' \<and> k_active k = k_active k' \<and> k_generation k = k_generation k'"
    if "k \<in> set ?rows" for k
    using that by (auto simp: update_where_def split: if_splits)
  then have "1 \<le> k_generation k \<and> k_generation k \<le> i64_max \<and> (k_generation k < i64_max \<longrightarrow> condition_ok (deliveries s) k)"
    if "k \<in> set ?rows" for k
    using that assms unfolding alerts_ok_def condition_ok_def by metis
  moreover have "k_key ` set ?rows = k_key ` set (conditions s)" using keys by (metis set_map)
  ultimately show ?thesis using assms keys by (simp add: alerts_ok_def)
qed

lemma notices_update_other:
  "key \<noteq> key' \<Longrightarrow> notices key (update_where (held_back now key' g) suppress_row rows) = notices key rows"
  unfolding notices_def update_where_def held_back_def
  by (induction rows) (auto simp: suppress_row_def)

lemma notices_insert_other:
  "key \<noteq> v_key d \<Longrightarrow> notices key (insert_delivery d rows) = notices key rows"
  by (simp add: notices_def insert_delivery_def)

lemma notices_change_other:
  "key \<noteq> rule_key rule scope
   \<Longrightarrow> notices key (deliveries (change_condition env rule scope active payload g s)) = notices key (deliveries s)"
  by (simp add: change_condition_def Let_def notices_update_other notices_insert_other new_delivery_def)

lemma change_ok:
  assumes ok: "alerts_ok s" and g: "1 \<le> g" "g \<le> i64_max" and new: "g < i64_max \<Longrightarrow> (active \<longleftrightarrow> odd g)
    \<and> notice_history g (notices (rule_key rule scope) (deliveries (change_condition env rule scope active payload g s)))"
  shows "alerts_ok (change_condition env rule scope active payload g s)" (is "alerts_ok ?s")
proof -
  let ?key = "rule_key rule scope"
  let ?row = "\<lparr>k_key = ?key, k_active = active, k_generation = g, k_payload = payload\<rparr>"
  have conds: "conditions ?s = upsert_condition ?row (conditions s)" by (simp add: change_condition_def Let_def)
  have other: "condition_ok (deliveries ?s) k \<longleftrightarrow> condition_ok (deliveries s) k" if "k_key k \<noteq> ?key" for k
    using notices_change_other [OF that] by (simp add: condition_ok_def)
  have row: "condition_ok (deliveries ?s) ?row" if "g < i64_max"
    using new [OF that] unfolding condition_ok_def condition_row.simps .
  have keys: "k_key ` set (conditions ?s) = insert ?key (k_key ` set (conditions s))"
    unfolding conds upsert_set by auto
  have inserted: "v_key ` set (deliveries ?s) \<subseteq> insert ?key (v_key ` set (deliveries s))"
  proof -
    have "v_key ` set (update_where p suppress_row rows) = v_key ` set rows" for p rows
      by (rule image_update_where) (simp add: suppress_row_def)
    then show ?thesis by (auto simp: change_condition_def Let_def insert_delivery_def new_delivery_def)
  qed
  have "v_key ` set (deliveries s) \<subseteq> k_key ` set (conditions s)" using ok by (simp add: alerts_ok_def)
  from subset_trans [OF inserted insert_mono [OF this]]
  have "v_key ` set (deliveries ?s) \<subseteq> k_key ` set (conditions ?s)" unfolding keys .
  moreover have "distinct (map k_key (conditions ?s))" using ok by (simp add: conds alerts_ok_def upsert_distinct)
  moreover have "1 \<le> k_generation k \<and> k_generation k \<le> i64_max \<and> (k_generation k < i64_max \<longrightarrow> condition_ok (deliveries ?s) k)"
    if "k \<in> set (conditions ?s)" for k
  proof (cases "k = ?row")
    case True
    then show ?thesis using g row by simp
  next
    case False
    with that have k: "k \<in> set (conditions s)" "k_key k \<noteq> ?key" unfolding conds upsert_set by auto
    show ?thesis unfolding other [OF k(2)] using ok k(1) unfolding alerts_ok_def by blast
  qed
  ultimately show ?thesis unfolding alerts_ok_def by blast
qed

text \<open>The new notice is not there yet.\<close>

lemma notices_insert_new:
  assumes "v_id d \<notin> v_id ` set rows" "\<And>n. n \<in> set (notices (v_key d) rows) \<Longrightarrow> fst n < v_generation d"
  shows "notices (v_key d) (insert_delivery d rows) = notice_of d # notices (v_key d) rows"
proof -
  have "\<not> (v_id d' = v_id d \<or> v_key d' = v_key d \<and> v_generation d' = v_generation d \<and> v_transition d' = v_transition d)"
    if "d' \<in> set rows" for d'
  proof -
    have "notice_of d' \<in> set (notices (v_key d) rows)" if "v_key d' = v_key d"
      using that \<open>d' \<in> set rows\<close> by (simp add: notices_def)
    moreover have "v_id d' \<noteq> v_id d" using assms(1) that by (metis image_eqI)
    ultimately show ?thesis using assms(2) [of "notice_of d'"] by (auto simp: notice_of_def)
  qed
  then show ?thesis by (auto simp: insert_delivery_def list_ex_iff notices_def)
qed

text \<open>Withholding the newest notice: the other ones have smaller generations.\<close>

lemma notices_suppress:
  assumes "notices key rows = (g, Triggered, False) # v" "\<And>n. n \<in> set v \<Longrightarrow> fst n < g"
  shows "notices key (update_where (held_back now key g) suppress_row rows)
    = (g, Triggered, affected (held_back now key g) rows > 0) # v"
proof -
  obtain d rest where rows: "filter (\<lambda>d. v_key d = key) rows = d # rest"
    and d: "notice_of d = (g, Triggered, False)" and rest: "map notice_of rest = v"
    using assms(1) by (auto simp: notices_def)
  have old: "\<not> held_back now key g d'" if "d' \<in> set rest" for d'
  proof -
    have "notice_of d' \<in> set v" using that rest by auto
    with assms(2) [of "notice_of d'"] show ?thesis by (auto simp: held_back_def notice_of_def)
  qed
  have "filter (\<lambda>d. v_key d = key) (update_where (held_back now key g) suppress_row rows)
      = update_where (held_back now key g) suppress_row (filter (\<lambda>d. v_key d = key) rows)"
    unfolding update_where_def by (induction rows) (auto simp: suppress_row_def)
  moreover have "held_back now key g d' \<Longrightarrow> v_key d' = key" for d' by (simp add: held_back_def)
  then have "(\<exists>d' \<in> set rows. held_back now key g d') \<longleftrightarrow> (\<exists>d' \<in> set (d # rest). held_back now key g d')"
    unfolding rows [symmetric] by auto
  then have "affected (held_back now key g) rows > 0 \<longleftrightarrow> held_back now key g d"
    using old by (auto simp: affected_pos)
  moreover have "map (\<lambda>r. if held_back now key g r then suppress_row r else r) rest = rest"
    using old by (simp add: map_idI)
  ultimately show ?thesis
    using d rest by (auto simp: notices_def rows update_where_def notice_of_def suppress_row_def)
qed

lemma suppressed_ids: "v_id ` set (update_where p suppress_row rows) = v_id ` set rows"
  by (rule image_update_where) (simp add: suppress_row_def)

lemma change_starts:
  assumes "notice_history g (notices (rule_key rule scope) (deliveries s))" "even g" "en_id env \<notin> v_id ` set (deliveries s)"
  shows "notice_history (g + 1)
    (notices (rule_key rule scope) (deliveries (change_condition env rule scope True payload (g + 1) s)))"
proof -
  let ?d = "new_delivery env rule scope (g + 1) Triggered payload False"
  have "notices (v_key ?d) (insert_delivery ?d (deliveries s)) = notice_of ?d # notices (v_key ?d) (deliveries s)"
    by (rule notices_insert_new) (use assms(1,3) history_generations in \<open>force simp: new_delivery_def\<close>)+
  with starts [OF assms(1,2)] show ?thesis
    by (simp add: change_condition_def Let_def notice_of_def new_delivery_def)
qed

lemma change_ends:
  assumes hist: "notice_history g (notices (rule_key rule scope) (deliveries s))" and odd: "odd g" "1 \<le> g" "g < i64_max"
    and fresh: "en_id env \<notin> v_id ` set (deliveries s)"
  shows "notice_history (g + 1)
    (notices (rule_key rule scope) (deliveries (change_condition env rule scope False payload (g + 1) s)))"
proof -
  let ?key = "rule_key rule scope" and ?p = "held_back (en_now env) (rule_key rule scope) g"
  let ?withheld = "affected ?p (deliveries s) > 0"
  let ?rows = "update_where ?p suppress_row (deliveries s)"
  let ?d = "new_delivery env rule scope (g + 1) Recovered payload ?withheld"
  obtain v where v: "notices ?key (deliveries s) = (g, Triggered, False) # v"
    using history_odd [OF hist odd(1)] by blast
  have less: "\<And>n. n \<in> set v \<Longrightarrow> fst n < g" using hist history_tail unfolding v by blast
  have rows: "notices ?key ?rows = (g, Triggered, ?withheld) # v" by (rule notices_suppress [OF v less])
  have key: "v_key ?d = ?key" by (simp add: new_delivery_def)
  have "notices (v_key ?d) (insert_delivery ?d ?rows) = notice_of ?d # notices (v_key ?d) ?rows"
  proof (rule notices_insert_new)
    show "v_id ?d \<notin> v_id ` set ?rows" using fresh by (simp add: suppressed_ids new_delivery_def)
    show "fst n < v_generation ?d" if "n \<in> set (notices (v_key ?d) ?rows)" for n
      using that less unfolding key rows by (fastforce simp: new_delivery_def)
  qed
  moreover have "i64_saturating g = g" using odd by (simp add: i64_saturating_def i64_max_def)
  moreover have "notice_of ?d = (g + 1, Recovered, ?withheld)" by (simp add: notice_of_def new_delivery_def)
  moreover have "deliveries (change_condition env rule scope False payload (g + 1) s) = insert_delivery ?d ?rows"
    using \<open>i64_saturating g = g\<close> by (simp add: change_condition_def Let_def)
  ultimately show ?thesis
    using ends [OF hist [unfolded v] odd(1), of ?withheld] unfolding key rows by (simp only: rows)
qed

lemma transition_ok:
  assumes ok: "alerts_ok s" and fresh: "en_id env \<notin> v_id ` set (deliveries s)"
    and t: "transition_condition env rule scope active payload s = Inr s'"
  shows "alerts_ok s'"
  using t
proof (cases rule: transition_cases)
  case same
  with ok show ?thesis by simp
next
  case payload
  with ok show ?thesis by (simp add: alerts_ok_payload)
next
  case (first payload')
  have "rule_key rule scope \<notin> v_key ` set (deliveries s)" using ok first(2) by (auto simp: alerts_ok_def)
  then have "notices (rule_key rule scope) (deliveries s) = []"
    unfolding notices_def filter_empty_conv map_is_Nil_conv by (metis image_eqI)
  with change_starts [of 0 rule scope s env payload'] no_notice fresh first show ?thesis
    by (auto intro!: change_ok [OF ok] simp: i64_max_def)
next
  case (again k payload')
  from ok again(1) have k: "1 \<le> k_generation k" "k_generation k \<le> i64_max"
    "k_generation k < i64_max \<Longrightarrow> condition_ok (deliveries s) k" by (auto simp: alerts_ok_def)
  let ?g = "i64_saturating (k_generation k + 1)"
  have g: "1 \<le> ?g" "?g \<le> i64_max" "?g < i64_max \<Longrightarrow> ?g = k_generation k + 1 \<and> k_generation k < i64_max"
    using k by (auto simp: i64_saturating_def i64_max_def split: if_splits)
  show ?thesis unfolding again(4)
  proof (rule change_ok [OF ok g(1,2)])
    assume "?g < i64_max"
    with g(3) have e: "?g = k_generation k + 1" and less: "k_generation k < i64_max" by auto
    from k(3) [OF less] have hist: "notice_history (k_generation k) (notices (rule_key rule scope) (deliveries s))"
      and act: "k_active k \<longleftrightarrow> odd (k_generation k)" by (simp_all add: condition_ok_def again(2))
    show "(active \<longleftrightarrow> odd ?g) \<and> notice_history ?g
        (notices (rule_key rule scope) (deliveries (change_condition env rule scope active payload' ?g s)))"
    proof (cases active)
      case True
      with act again(3) change_starts [OF hist _ fresh] show ?thesis unfolding e by simp
    next
      case False
      with act again(3) change_ends [OF hist _ k(1) less fresh] show ?thesis unfolding e by simp
    qed
  qed
qed

lemma claim_round_rows:
  assumes "claim_round now worker token locked s = Inr (outcome, s')"
  obtains "s' = s" "outcome = Nothing_Due"
  | p where "outcome = Buried" "s' = s\<lparr>deliveries := update_where p bury (deliveries s)\<rparr>"
      "\<And>d. p d \<Longrightarrow> lease_expired now d \<and> v_attempt d \<ge> v_max_attempt d"
  | p d where "outcome = Claimed (claimed_row token d)" "d \<in> set (deliveries s)" "p d"
      "s' = s\<lparr>deliveries := update_where p (lease_delivery now worker token) (deliveries s)\<rparr>"
      "\<And>d'. p d' \<Longrightarrow> (due now d' \<or> lease_expired now d') \<and> v_attempt d' < v_max_attempt d' \<and> v_id d' = v_id d"
proof (cases "delivery_candidate now locked (deliveries s)")
  case None
  with assms that(1) show thesis by (auto simp: claim_round_def)
next
  case (Some c)
  show thesis
  proof (cases "v_state c = Sending \<and> v_attempt c \<ge> v_max_attempt c")
    case True
    then show thesis
      using assms Some that(2) [of "\<lambda>d. same_delivery c d \<and> lease_expired now d \<and> v_attempt d \<ge> v_max_attempt d"]
      by (simp add: claim_round_def Let_def split: if_splits)
  next
    case False
    let ?p = "\<lambda>d. same_delivery c d \<and> v_attempt d < v_max_attempt d \<and> (due now d \<or> lease_expired now d)"
    from assms Some False obtain d where d: "find ?p (deliveries s) = Some d" "outcome = Claimed (claimed_row token d)"
      "s' = s\<lparr>deliveries := update_where ?p (lease_delivery now worker token) (deliveries s)\<rparr>"
      by (auto simp: claim_round_def Let_def split: option.splits)
    from d(1) have "d \<in> set (deliveries s)" "?p d" by (auto simp: find_Some_iff)
    then show thesis by (intro that(3) [of d ?p]) (auto simp: d same_delivery_def)
  qed
qed

lemma same_notice:
  "due now d \<or> lease_expired now d \<Longrightarrow> notice_of (lease_delivery t worker token d) = notice_of d"
  "lease_expired now d \<Longrightarrow> notice_of (bury d) = notice_of d"
  "claim_holds c d \<Longrightarrow> notice_of (end_row now (delivery_end c result) d) = notice_of d"
  by (auto simp: notice_of_def lease_delivery_def bury_def unlease_delivery_def due_def lease_expired_def claim_holds_def
    end_row_def delivery_end_def split: sum.splits delivery_error.splits)

lemma same_key:
  "v_key (lease_delivery t worker token d) = v_key d" "v_key (bury d) = v_key d"
  "v_key (end_row now e d) = v_key d"
  by (simp_all add: lease_delivery_def bury_def unlease_delivery_def end_row_def split: prod.splits)

lemma alert_step_ok:
  assumes "alert_step q q'" "alerts_ok (at q)"
  shows "alerts_ok (at q')"
  using assms(1)
proof cases
  case (transition env rule scope active payload)
  then show ?thesis using assms(2) transition_ok
    by (cases "transition_condition env rule scope active payload (at q)") (auto simp: apply_alert_def)
next
  case (bury_one worker token locked s)
  from bury_one(2) show ?thesis
  proof (rule claim_round_rows)
    fix p
    assume s: "s = at q\<lparr>deliveries := update_where p bury (deliveries (at q))\<rparr>"
      and p: "\<And>d. p d \<Longrightarrow> lease_expired (alert_clock q) d \<and> v_attempt d \<ge> v_max_attempt d"
    have "alerts_ok s" unfolding s
      by (rule alerts_ok_rows [OF assms(2)]) (simp add: same_key, metis p same_notice(2))
    with bury_one(1) show ?thesis by simp
  qed simp_all
next
  case (claim_one worker token locked c s)
  from claim_one(2) show ?thesis
  proof (rule claim_round_rows)
    fix p d
    assume s: "s = at q\<lparr>deliveries := update_where p (lease_delivery (alert_clock q) worker token) (deliveries (at q))\<rparr>"
      and p: "\<And>d'. p d' \<Longrightarrow> (due (alert_clock q) d' \<or> lease_expired (alert_clock q) d')
        \<and> v_attempt d' < v_max_attempt d' \<and> v_id d' = v_id d"
    have "alerts_ok s" unfolding s
      by (rule alerts_ok_rows [OF assms(2)]) (simp add: same_key, metis p same_notice(1))
    with claim_one(1) show ?thesis by simp
  qed simp_all
next
  case (finish_one c result)
  have "alerts_ok (at q\<lparr>deliveries := update_where (claim_holds c) (end_row t (delivery_end c result)) (deliveries (at q))\<rparr>)" for t
    by (rule alerts_ok_rows) (simp_all add: assms(2) same_notice same_key)
  with finish_one assms(2) show ?thesis by (simp add: apply_alert_def finish_delivery_def)
qed (use assms(2) in simp)

lemma reachable_alerts_ok: "alert_reachable q \<Longrightarrow> alerts_ok (at q)"
proof (induction rule: alert_reachable.induct)
  case (alert_next q q')
  then show ?case by (blast intro: alert_step_ok)
qed (simp add: alerts_ok_def)

subsection \<open>Attempts and outcomes\<close>

text \<open>The outcomes after which a notice is never sent again.\<close>

definition final :: "delivery_state \<Rightarrow> bool" where
  "final st \<longleftrightarrow> st \<in> {Delivered, Given_Up, Suppressed, Uncertain}"

definition claims_made :: "alerts \<Rightarrow> uuid \<Rightarrow> int" where
  "claims_made q i = int (length (filter (\<lambda>c. cd_id c = i) (delivery_claims q)))"

definition row_attempts :: "int \<Rightarrow> delivery_row \<Rightarrow> bool" where
  "row_attempts n d \<longleftrightarrow> v_attempt d = n \<and> n \<le> v_max_attempt d \<and> v_max_attempt d = 3"

definition attempts_ok :: "alerts \<Rightarrow> bool" where
  "attempts_ok q \<longleftrightarrow> distinct (map v_id (deliveries (at q)))
     \<and> cd_id ` set (delivery_claims q) \<subseteq> v_id ` set (deliveries (at q))
     \<and> (\<forall>d \<in> set (deliveries (at q)). row_attempts (claims_made q (v_id d)) d)"

lemma attempts_at: "claims_made (q\<lparr>at := s\<rparr>) i = claims_made q i" "claims_made (q\<lparr>alert_clock := t\<rparr>) i = claims_made q i"
  by (simp_all add: claims_made_def)

text \<open>Updates that leave the ids, the attempts and their limits.\<close>

definition keeps_attempts :: "(delivery_row \<Rightarrow> delivery_row) \<Rightarrow> bool" where
  "keeps_attempts f \<longleftrightarrow> (\<forall>d. v_id (f d) = v_id d \<and> v_attempt (f d) = v_attempt d \<and> v_max_attempt (f d) = v_max_attempt d)"

lemma keeps_attempts_simps:
  "keeps_attempts bury" "keeps_attempts suppress_row" "keeps_attempts (end_row now e)"
  by (simp_all add: keeps_attempts_def bury_def suppress_row_def end_row_def unlease_delivery_def split: prod.splits)

lemma attempts_update:
  assumes "attempts_ok q" "keeps_attempts f"
  shows "attempts_ok (q\<lparr>at := s\<lparr>deliveries := update_where p f (deliveries (at q))\<rparr>\<rparr>)"
proof -
  let ?rows = "update_where p f (deliveries (at q))"
  have "map v_id ?rows = map v_id (deliveries (at q))"
    by (rule map_update_where) (use assms(2) in \<open>simp add: keeps_attempts_def\<close>)
  then have "distinct (map v_id ?rows)" "v_id ` set ?rows = v_id ` set (deliveries (at q))"
    using assms(1) by (simp add: attempts_ok_def, metis set_map)
  moreover have "row_attempts (claims_made q (v_id d)) d" if "d \<in> set ?rows" for d
    using that assms by (auto simp: update_where_def attempts_ok_def row_attempts_def keeps_attempts_def split: if_splits)
  ultimately show ?thesis using assms(1) by (simp add: attempts_ok_def attempts_at)
qed

lemma attempts_conditions: "attempts_ok q \<Longrightarrow> deliveries s = deliveries (at q) \<Longrightarrow> attempts_ok (q\<lparr>at := s\<rparr>)"
  by (simp add: attempts_ok_def attempts_at)

lemma attempts_insert:
  assumes "attempts_ok q" "v_id d \<notin> v_id ` set (deliveries (at q))" "v_attempt d = 0" "v_max_attempt d = 3"
  shows "attempts_ok (q\<lparr>at := s\<lparr>deliveries := insert_delivery d (deliveries (at q))\<rparr>\<rparr>)"
proof -
  have "v_id d \<notin> cd_id ` set (delivery_claims q)" using assms(1,2) unfolding attempts_ok_def by blast
  then have "claims_made q (v_id d) = 0" by (force simp: claims_made_def filter_empty_conv)
  then have "row_attempts (claims_made q (v_id d)) d" using assms(3,4) by (simp add: row_attempts_def)
  moreover have "cd_id ` set (delivery_claims q) \<subseteq> v_id ` set (d # deliveries (at q))"
    using assms(1) by (auto simp: attempts_ok_def)
  ultimately have "attempts_ok (q\<lparr>at := s\<lparr>deliveries := d # deliveries (at q)\<rparr>\<rparr>)"
    using assms(1,2) by (simp add: attempts_ok_def attempts_at)
  moreover have "attempts_ok (q\<lparr>at := s\<lparr>deliveries := deliveries (at q)\<rparr>\<rparr>)"
    using assms(1) by (simp add: attempts_ok_def attempts_at)
  ultimately show ?thesis by (simp add: insert_delivery_def)
qed

lemma attempts_change:
  assumes "attempts_ok q" "en_id env \<notin> v_id ` set (deliveries (at q))"
  shows "attempts_ok (q\<lparr>at := change_condition env rule scope active payload g (at q)\<rparr>)"
proof -
  let ?p = "held_back (en_now env) (rule_key rule scope) (i64_saturating (g - 1))"
  define rows where "rows = (if active then deliveries (at q) else update_where ?p suppress_row (deliveries (at q)))"
  let ?q = "q\<lparr>at := (at q)\<lparr>deliveries := rows\<rparr>\<rparr>"
  have ok: "attempts_ok ?q" using assms(1) attempts_update [OF assms(1) keeps_attempts_simps(2)] by (simp add: rows_def)
  have "v_id ` set rows = v_id ` set (deliveries (at q))" by (simp add: rows_def suppressed_ids)
  with assms(2) attempts_insert [OF ok, of "new_delivery env rule scope g tr payload w" "s" for tr w s] show ?thesis
    by (simp add: change_condition_def Let_def rows_def new_delivery_def)
qed

end
