(* ===== verification/Alert_Facts.thy ===== *)
theory Alert_Facts
  imports Alert_System
begin

section \<open>What the alerts guarantee\<close>

text \<open>
  The invariants of the transition system as properties of its reachable states: the notices of a condition, the
  attempts of a notice, and the evaluation of a rule.
\<close>

subsection \<open>Attempts\<close>

lemma attempts_claim:
  assumes ok: "attempts_ok q" and d: "d \<in> set (deliveries (at q))" "p d"
    and p: "\<And>d'. p d' \<Longrightarrow> v_attempt d' < v_max_attempt d' \<and> v_id d' = v_id d"
  shows "attempts_ok (q\<lparr>at := (at q)\<lparr>deliveries := update_where p (lease_delivery now worker token) (deliveries (at q))\<rparr>,
    delivery_claims := claimed_row token d # delivery_claims q\<rparr>)" (is "attempts_ok ?q")
proof -
  let ?f = "lease_delivery now worker token" and ?rows = "update_where p (lease_delivery now worker token) (deliveries (at q))"
  have f: "v_id (?f d') = v_id d'" "v_attempt (?f d') = v_attempt d' + 1" "v_max_attempt (?f d') = v_max_attempt d'" for d'
    by (simp_all add: lease_delivery_def)
  have ids: "map v_id ?rows = map v_id (deliveries (at q))" by (rule map_update_where) (simp add: f)
  have dist: "distinct (map v_id (deliveries (at q)))" using ok by (simp add: attempts_ok_def)
  have n: "claims_made ?q i = claims_made q i + (if i = v_id d then 1 else 0)" for i
    by (simp add: claims_made_def claimed_row_def)
  have "row_attempts (claims_made ?q (v_id r)) r" if "r \<in> set ?rows" for r
  proof -
    from that obtain r0 where r0: "r0 \<in> set (deliveries (at q))" "r = (if p r0 then ?f r0 else r0)"
      by (auto simp: update_where_def)
    have old: "row_attempts (claims_made q (v_id r0)) r0" using ok r0(1) by (simp add: attempts_ok_def)
    show ?thesis
    proof (cases "p r0")
      case True
      with old p [OF True] r0(2) show ?thesis by (auto simp: row_attempts_def n f)
    next
      case False
      with d(2) have "r0 \<noteq> d" by auto
      with dist r0(1) d(1) have "v_id r0 \<noteq> v_id d" by (auto simp: distinct_map inj_on_def)
      with old False r0(2) show ?thesis by (simp add: n)
    qed
  qed
  moreover have "v_id ` set ?rows = v_id ` set (deliveries (at q))" using ids by (metis set_map)
  moreover have "cd_id ` set (delivery_claims q) \<subseteq> v_id ` set (deliveries (at q))" using ok by (simp add: attempts_ok_def)
  ultimately show ?thesis using ids dist d(1) by (simp add: attempts_ok_def claimed_row_def)
qed

lemma alert_step_attempts:
  assumes "alert_step q q'" "attempts_ok q"
  shows "attempts_ok q'"
  using assms(1)
proof cases
  case (pass_time t)
  with assms(2) show ?thesis by (simp add: attempts_ok_def attempts_at)
next
  case (transition env rule scope active payload)
  show ?thesis
  proof (cases "transition_condition env rule scope active payload (at q)")
    case (Inl e)
    with transition(1) assms(2) show ?thesis by (simp add: apply_alert_def)
  next
    case (Inr s)
    have "attempts_ok (q\<lparr>at := s\<rparr>)"
      using Inr assms(2) transition(3)
      by (elim transition_cases) (auto intro: attempts_change attempts_conditions)
    then show ?thesis unfolding transition(1) apply_alert_def Inr by simp
  qed
next
  case (bury_one worker token locked s)
  from bury_one(2) show ?thesis
    by (rule claim_round_rows)
      (use bury_one(1) attempts_update [OF assms(2) keeps_attempts_simps(1)] in simp_all)
next
  case (claim_one worker token locked c s)
  from claim_one(2) show ?thesis
  proof (rule claim_round_rows)
    fix p d
    assume *: "Claimed c = Claimed (claimed_row token d)" "d \<in> set (deliveries (at q))" "p d"
      "s = at q\<lparr>deliveries := update_where p (lease_delivery (alert_clock q) worker token) (deliveries (at q))\<rparr>"
      "\<And>d'. p d' \<Longrightarrow> (due (alert_clock q) d' \<or> lease_expired (alert_clock q) d')
        \<and> v_attempt d' < v_max_attempt d' \<and> v_id d' = v_id d"
    from *(1) have c: "c = claimed_row token d" by simp
    show ?thesis unfolding claim_one(1) *(4) c
      by (rule attempts_claim [where p = p, OF assms(2) *(2,3)]) (use *(5) in blast)
  qed simp_all
next
  case (finish_one c result)
  with assms(2) show ?thesis
    using attempts_update [OF assms(2) keeps_attempts_simps(3)] by (simp add: apply_alert_def finish_delivery_def)
qed

lemma reachable_attempts: "alert_reachable q \<Longrightarrow> attempts_ok q"
proof (induction rule: alert_reachable.induct)
  case (alert_next q q')
  then show ?case by (blast intro: alert_step_attempts)
qed (simp add: attempts_ok_def)

subsection \<open>Outcomes are final\<close>

lemma kept_row: "d \<in> set rows \<Longrightarrow> \<not> p d \<Longrightarrow> d \<in> set (update_where p f rows)"
  by (force simp: update_where_def)

lemma final_not:
  "final (v_state d) \<Longrightarrow> \<not> held_back now key g d"
  "final (v_state d) \<Longrightarrow> \<not> (due now d \<or> lease_expired now d)"
  "final (v_state d) \<Longrightarrow> \<not> claim_holds c d"
  by (auto simp: final_def held_back_def due_def lease_expired_def claim_holds_def)

lemma final_row_kept:
  assumes "alert_step q q'" "d \<in> set (deliveries (at q))" "final (v_state d)"
  shows "d \<in> set (deliveries (at q'))"
  using assms(1)
proof cases
  case (transition env rule scope active payload)
  show ?thesis
  proof (cases "transition_condition env rule scope active payload (at q)")
    case (Inl e)
    with transition(1) assms(2) show ?thesis by (simp add: apply_alert_def)
  next
    case (Inr s)
    have "d \<in> set (deliveries (change_condition env rule scope active payload' g (at q)))" for payload' g
      using assms(2,3) by (simp add: change_condition_def Let_def insert_delivery_def kept_row final_not(1))
    with Inr have "d \<in> set (deliveries s)" using assms(2) by (elim transition_cases) simp_all
    with transition(1) Inr show ?thesis by (simp add: apply_alert_def)
  qed
next
  case (bury_one worker token locked s)
  from bury_one(2) show ?thesis
    by (rule claim_round_rows) (use bury_one(1) assms(2) final_not(2) [OF assms(3)] in \<open>auto intro: kept_row\<close>)
next
  case (claim_one worker token locked c s)
  from claim_one(2) show ?thesis
    by (rule claim_round_rows) (use claim_one(1) assms(2) final_not(2) [OF assms(3)] in \<open>auto intro: kept_row\<close>)
next
  case (finish_one c result)
  with assms show ?thesis by (simp add: apply_alert_def finish_delivery_def kept_row final_not(3))
qed (use assms(2) in simp)

subsection \<open>The evaluation of a rule\<close>

definition condition_active :: "alert_tables \<Rightarrow> condition_key \<Rightarrow> bool" where
  "condition_active s key \<longleftrightarrow> list_ex (\<lambda>k. k_key k = key \<and> k_active k) (conditions s)"

abbreviation unique_conditions :: "alert_tables \<Rightarrow> bool" where
  "unique_conditions s \<equiv> distinct (map k_key (conditions s))"

text \<open>The active conditions, each with the issue its payload names.\<close>

definition active_issues :: "alert_tables \<Rightarrow> (condition_key \<times> uuid option) set" where
  "active_issues s = (\<lambda>k. (k_key k, payload_issue_id (k_payload k))) ` {k \<in> set (conditions s). k_active k}"

lemma condition_active_issues: "condition_active s key \<longleftrightarrow> key \<in> fst ` active_issues s"
  by (auto simp: condition_active_def active_issues_def list_ex_iff image_iff)

lemma active_issues_mem:
  "(key, i) \<in> active_issues s
     \<longleftrightarrow> (\<exists>k \<in> set (conditions s). k_key k = key \<and> k_active k \<and> payload_issue_id (k_payload k) = i)"
  by (auto simp: active_issues_def)

lemma finite_active_issues: "finite (active_issues s)"
  by (simp add: active_issues_def)

lemma same_condition:
  "unique_conditions s \<Longrightarrow> k \<in> set (conditions s) \<Longrightarrow> k' \<in> set (conditions s) \<Longrightarrow> k_key k = k_key k' \<Longrightarrow> k = k'"
  by (simp add: distinct_map inj_on_def)

lemma active_issues_unique:
  "unique_conditions s \<Longrightarrow> p \<in> active_issues s \<Longrightarrow> p' \<in> active_issues s \<Longrightarrow> fst p = fst p' \<Longrightarrow> p = p'"
  by (auto simp: active_issues_def dest: same_condition)

lemma rule_key_inject [simp]: "rule_key rule a = rule_key rule b \<longleftrightarrow> a = b"
  by (simp add: rule_key_def)

text \<open>A notice keeps the issue of its payload.\<close>

lemma om_wf_base_payload: "om_wf (base_payload url rule i t n)"
  by (simp add: base_payload_def Let_def struct_map_facts)

lemma payload_issue_id_base: "payload_issue_id (base_payload url rule i t n) = i"
  by (cases i) (simp_all add: payload_issue_id_def base_payload_def Let_def struct_map_facts option_json_def)

lemma payload_issue_id_notice:
  assumes "om_wf payload"
  shows "payload_issue_id (notice_payload n t payload) = payload_issue_id payload"
proof -
  have "om_wf (om_insert (lit ''transition'') (JString (notice_text n)) payload)" using assms by (simp add: om_wf_insert)
  then show ?thesis using assms by (simp add: payload_issue_id_def notice_payload_def om_get_insert)
qed

subsection \<open>Transitions and active conditions\<close>

lemma active_issues_other:
  "{p \<in> active_issues s. fst p \<noteq> key}
     = (\<lambda>k. (k_key k, payload_issue_id (k_payload k))) ` {k \<in> set (conditions s). k_active k \<and> k_key k \<noteq> key}"
  by (simp add: active_issues_def Compr_image_eq conj_assoc)

lemma filter_insert_set: "{x \<in> insert a {x \<in> A. Q x}. P x} = (if P a then {a} else {}) \<union> {x \<in> A. P x \<and> Q x}"
  by auto

lemma image_if_only:
  assumes "k \<in> A" "P k" "\<And>x. x \<in> A \<Longrightarrow> P x \<Longrightarrow> x = k"
  shows "(\<lambda>x. if P x then f x else x) ` A = insert (f k) {x \<in> A. \<not> P x}"
proof -
  have A: "A = insert k {x \<in> A. \<not> P x}" using assms by blast
  have "(\<lambda>x. if P x then f x else x) ` {x \<in> A. \<not> P x} = {x \<in> A. \<not> P x}" by auto
  then show ?thesis using assms(2) by (subst A) (simp only: image_insert if_True)
qed

lemma change_issues:
  "active_issues (change_condition env rule scope active payload g s)
     = (if active then {(rule_key rule scope, payload_issue_id payload)} else {}) \<union> {p \<in> active_issues s. fst p \<noteq> rule_key rule scope}"
proof -
  let ?row = "\<lparr>k_key = rule_key rule scope, k_active = active, k_generation = g, k_payload = payload\<rparr>"
  have "{k \<in> set (conditions (change_condition env rule scope active payload g s)). k_active k}
      = (if active then {?row} else {}) \<union> {k \<in> set (conditions s). k_active k \<and> k_key k \<noteq> rule_key rule scope}"
    by (auto simp: change_condition_def Let_def upsert_set)
  then show ?thesis unfolding active_issues_other by (simp add: active_issues_def)
qed

lemma transition_issues:
  assumes "transition_condition env rule scope active payload s = Inr s'" "unique_conditions s" "active \<longrightarrow> om_wf payload"
  shows "unique_conditions s'"
    and "active_issues s' = (if active then {(rule_key rule scope, payload_issue_id payload)} else {})
           \<union> {p \<in> active_issues s. fst p \<noteq> rule_key rule scope}"
proof -
  have "unique_conditions s' \<and> active_issues s' = (if active then {(rule_key rule scope, payload_issue_id payload)} else {})
           \<union> {p \<in> active_issues s. fst p \<noteq> rule_key rule scope}"
    using assms(1)
  proof (cases rule: transition_cases)
    case same
    then have "{k \<in> set (conditions s). k_active k \<and> k_key k \<noteq> rule_key rule scope} = {k \<in> set (conditions s). k_active k}"
      by (metis (mono_tags, lifting) image_eqI)
    with same assms(2) show ?thesis unfolding active_issues_other by (simp add: active_issues_def)
  next
    case (payload k)
    let ?f = "\<lambda>k. k\<lparr>k_payload := payload\<rparr>" and ?p = "\<lambda>k. k_key k = rule_key rule scope"
    have keys: "map k_key (update_where ?p ?f (conditions s)) = map k_key (conditions s)"
      by (rule map_update_where) simp
    have only: "k' = k" if "k' \<in> set (conditions s)" "k_key k' = rule_key rule scope" for k'
      using same_condition [OF assms(2) that(1) payload(1)] that(2) payload(2) by simp
    have "set (update_where ?p ?f (conditions s)) = insert (?f k) {k' \<in> set (conditions s). k_key k' \<noteq> rule_key rule scope}"
      unfolding update_where_simps by (rule image_if_only [of k "set (conditions s)" ?p ?f, OF payload(1,2) only])
    then have rows: "set (conditions s') = insert (?f k) {k' \<in> set (conditions s). k_key k' \<noteq> rule_key rule scope}"
      by (simp add: payload(4))
    have "{k' \<in> set (conditions s'). k_active k'} = (if active then {?f k} else {})
        \<union> {k' \<in> set (conditions s). k_active k' \<and> k_key k' \<noteq> rule_key rule scope}"
      unfolding rows filter_insert_set using payload(3) by simp
    then have "active_issues s' = (if active then {(rule_key rule scope, payload_issue_id payload)} else {})
        \<union> {p \<in> active_issues s. fst p \<noteq> rule_key rule scope}"
      unfolding active_issues_other using payload(2) by (simp add: active_issues_def)
    then show ?thesis using keys assms(2) payload(4) by simp
  next
    case (first payload')
    then show ?thesis
      using assms(2,3) by (simp add: change_issues payload_issue_id_notice) (simp add: change_condition_def Let_def upsert_distinct)
  next
    case (again k payload')
    show ?thesis unfolding again(4,5)
      using assms(2,3) by (simp add: change_issues payload_issue_id_notice) (simp add: change_condition_def Let_def upsert_distinct)
  qed
  then show "unique_conditions s'" "active_issues s' = (if active then {(rule_key rule scope, payload_issue_id payload)} else {})
           \<union> {p \<in> active_issues s. fst p \<noteq> rule_key rule scope}" by simp_all
qed

text \<open>Transitions that recover, whether or not one of them fails.\<close>

lemma recoveries_issues:
  assumes "transitions env rule items s = (r, s')" "unique_conditions s" "\<forall>(scope, a, payload) \<in> set items. \<not> a"
  shows "unique_conditions s' \<and> active_issues s' \<subseteq> active_issues s
    \<and> (r = Inr () \<longrightarrow> active_issues s' = {p \<in> active_issues s. fst p \<notin> rule_key rule ` fst ` set items})"
  using assms
proof (induction items arbitrary: env s)
  case (Cons item items)
  obtain scope payload where item: "item = (scope, False, payload)" using Cons.prems(3) by (cases item) auto
  show ?case
  proof (cases "transition_condition (env 0) rule scope False payload s")
    case (Inl e)
    then show ?thesis using Cons.prems(1,2) by (auto simp: item)
  next
    case (Inr s1)
    note one = transition_issues [OF Inr Cons.prems(2)]
    have "transitions (\<lambda>n. env (Suc n)) rule items s1 = (r, s')" using Cons.prems(1) Inr by (simp add: item)
    from Cons.IH [OF this] one Cons.prems(3) show ?thesis by (auto simp: item)
  qed
qed auto

lemma overwrite_insert:
  assumes "inj k"
  shows "(\<lambda>x. (k x, f x)) ` S \<union> {p \<in> insert (k a, f a) {p \<in> A. fst p \<noteq> k a}. fst p \<notin> k ` S}
    = (\<lambda>x. (k x, f x)) ` insert a S \<union> {p \<in> A. fst p \<notin> k ` insert a S}"
  using assms by (cases "a \<in> S") (auto simp: inj_eq)

text \<open>Transitions that observe: the issue of a payload is a function \<open>f\<close> of the scope.\<close>

lemma observations_issues:
  assumes "transitions env rule items s = (Inr (), s')" "unique_conditions s"
    "\<forall>(scope, a, payload) \<in> set items. a \<and> om_wf payload \<and> payload_issue_id payload = f scope"
  shows "unique_conditions s' \<and> active_issues s' = (\<lambda>scope. (rule_key rule scope, f scope)) ` fst ` set items
    \<union> {p \<in> active_issues s. fst p \<notin> rule_key rule ` fst ` set items}"
  using assms
proof (induction items arbitrary: env s)
  case (Cons item items)
  obtain scope payload where item: "item = (scope, True, payload)" and pay: "om_wf payload" "payload_issue_id payload = f scope"
    using Cons.prems(3) by (cases item) auto
  from Cons.prems(1) obtain s1 where s1: "transition_condition (env 0) rule scope True payload s = Inr s1"
    "transitions (\<lambda>n. env (Suc n)) rule items s1 = (Inr (), s')"
    unfolding item by (auto split: sum.splits)
  note one = transition_issues [OF s1(1) Cons.prems(2), simplified, OF pay(1)]
  from Cons.IH [OF s1(2) one(1)] Cons.prems(3) have "unique_conditions s'"
    "active_issues s' = (\<lambda>scope. (rule_key rule scope, f scope)) ` fst ` set items
      \<union> {p \<in> active_issues s1. fst p \<notin> rule_key rule ` fst ` set items}" by auto
  then show ?case
    using overwrite_insert [of "rule_key rule" f "fst ` set items" scope "active_issues s"]
    unfolding one(2) pay(2) item by (simp add: inj_def)
qed simp

text \<open>The scope of an active condition whose payload names an issue is the scope of that issue. It is so in the empty
  table, and every evaluation keeps it, also one that fails.\<close>

definition issue_payloads :: "alert_tables \<Rightarrow> bool" where
  "issue_payloads s \<longleftrightarrow> (\<forall>(key, i) \<in> active_issues s. is_none_or i (\<lambda>i. snd (snd (snd key)) = lit ''issue:'' @ i))"

lemma issue_payloads_subset: "issue_payloads s \<Longrightarrow> active_issues s' \<subseteq> active_issues s \<Longrightarrow> issue_payloads s'"
  by (auto simp: issue_payloads_def)

lemma transitions_payloads:
  assumes "transitions env rule items s = (r, s')" "unique_conditions s" "issue_payloads s"
    "\<forall>(scope, a, payload) \<in> set items. a \<longrightarrow> om_wf payload \<and> is_none_or (payload_issue_id payload) (\<lambda>i. scope = lit ''issue:'' @ i)"
  shows "unique_conditions s' \<and> issue_payloads s'"
  using assms
proof (induction items arbitrary: env s)
  case (Cons item items)
  obtain scope a payload where item: "item = (scope, a, payload)" by (cases item)
  show ?case
  proof (cases "transition_condition (env 0) rule scope a payload s")
    case (Inl e)
    then show ?thesis using Cons.prems(1-3) by (auto simp: item)
  next
    case (Inr s1)
    have pay: "a \<longrightarrow> om_wf payload" "a \<longrightarrow> is_none_or (payload_issue_id payload) (\<lambda>i. scope = lit ''issue:'' @ i)"
      using Cons.prems(4) by (simp_all add: item)
    note one = transition_issues [OF Inr Cons.prems(2) pay(1)]
    have "issue_payloads s1" using Cons.prems(3) pay(2) by (auto simp: issue_payloads_def one(2) rule_key_def)
    moreover have "transitions (\<lambda>n. env (Suc n)) rule items s1 = (r, s')" using Cons.prems(1) Inr by (simp add: item)
    ultimately show ?thesis using Cons.IH one(1) Cons.prems(4) by simp
  qed
qed auto

subsection \<open>Recovery\<close>

text \<open>The conditions of the rule that recover: those of no selected issue.\<close>

definition stale :: "rule_evaluation \<Rightarrow> uuid set \<Rightarrow> condition_key \<times> uuid option \<Rightarrow> bool" where
  "stale rule ids p \<longleftrightarrow> fst p \<in> range (rule_key rule) \<and> snd p \<notin> Some ` ids"

lemma scope_rows_key:
  "rule_key rule scope \<in> rule_key rule ` fst ` set (scope_rows rule p s)
     \<longleftrightarrow> (\<exists>k \<in> set (conditions s). k_key k = rule_key rule scope \<and> k_active k \<and> p k)"
  by (force simp: scope_rows_def rule_key_def image_iff)

lemma scope_rows_inactive: "\<forall>(scope, a, payload) \<in> set (scope_rows rule p s). \<not> a"
  by (auto simp: scope_rows_def)

abbreviation stale_rows :: "rule_evaluation \<Rightarrow> issue_observation list \<Rightarrow> alert_tables \<Rightarrow> (ustring \<times> bool \<times> json_map) list" where
  "stale_rows rule issues s \<equiv> scope_rows rule
     (\<lambda>k. \<not> list_ex (\<lambda>i. payload_issue_id (k_payload k) = Some (io_issue_id i)) issues) s"

lemma stale_rows_key:
  "key \<in> rule_key rule ` fst ` set (stale_rows rule issues s)
     \<longleftrightarrow> (\<exists>i. (key, i) \<in> active_issues s \<and> stale rule (io_issue_id ` set issues) (key, i))"
proof (cases "key \<in> range (rule_key rule)")
  case True
  then obtain scope where key: "key = rule_key rule scope" by auto
  show ?thesis unfolding key scope_rows_key active_issues_mem stale_def list_ex_iff by auto
qed (auto simp: stale_def)

lemma recovery_page_rows:
  "set (recovery_page rule issues s) \<subseteq> set (stale_rows rule issues s)"
  "recovery_page rule issues s = [] \<longleftrightarrow> stale_rows rule issues s = []"
  unfolding recovery_page_def alert_recovery_page_size_def
  by (use set_take_subset in force) (auto simp: length_0_conv [symmetric] simp del: length_0_conv)

text \<open>Every round recovers at least one condition, so the loop ends.\<close>

lemma recover_returns:
  assumes "unique_conditions s"
  shows "\<exists>r s'. recover_issue_conditions rule issues env s = Some (r, s') \<and> unique_conditions s'
    \<and> active_issues s' \<subseteq> active_issues s
    \<and> (r = Inr () \<longrightarrow> active_issues s' = {p \<in> active_issues s. \<not> stale rule (io_issue_id ` set issues) p})"
  using assms
proof (induction "card (active_issues s)" arbitrary: s env rule: less_induct)
  case less
  let ?rows = "recovery_page rule issues s"
  obtain r s1 where run: "transitions env rule ?rows s = (r, s1)" by fastforce
  have inactive: "\<forall>(scope, a, payload) \<in> set ?rows. \<not> a" using recovery_page_rows(1) scope_rows_inactive by fastforce
  note one = recoveries_issues [OF run less.prems inactive]
  note unfold = recover_issue_conditions.simps [of rule issues env s, unfolded Let_def run]
  consider "?rows = []" | e where "?rows \<noteq> []" "r = Inl e" | "?rows \<noteq> []" "r = Inr ()"
    by (cases r) auto
  then show ?case
  proof cases
    case 1
    then have "\<not> stale rule (io_issue_id ` set issues) p" if "p \<in> active_issues s" for p
      using that stale_rows_key [of "fst p" rule issues s] by (cases p) (auto simp: recovery_page_rows(2))
    then show ?thesis using 1 less.prems by (auto simp: unfold)
  next
    case 2
    then show ?thesis using one by (simp add: unfold)
  next
    case 3
    then have kept: "active_issues s1 = {p \<in> active_issues s. fst p \<notin> rule_key rule ` fst ` set ?rows}" using one by simp
    have gone: "\<exists>i. (key, i) \<in> active_issues s \<and> stale rule (io_issue_id ` set issues) (key, i)"
      if "key \<in> rule_key rule ` fst ` set ?rows" for key
      using that recovery_page_rows(1) [of rule issues s] stale_rows_key [of key rule issues s] by blast
    obtain row where "row \<in> set ?rows" using 3(1) by (cases ?rows) auto
    with gone obtain i where i: "(rule_key rule (fst row), i) \<in> active_issues s" by blast
    have "(rule_key rule (fst row), i) \<notin> active_issues s1" using kept \<open>row \<in> set ?rows\<close> by auto
    with i kept have "active_issues s1 \<subset> active_issues s" by blast
    then have "card (active_issues s1) < card (active_issues s)" by (rule psubset_card_mono [OF finite_active_issues])
    from less.hyps [OF this, of "\<lambda>n. env (length ?rows + n)"] one obtain r' s' where
      rest: "recover_issue_conditions rule issues (\<lambda>n. env (length ?rows + n)) s1 = Some (r', s')" "unique_conditions s'"
        "active_issues s' \<subseteq> active_issues s1"
        "r' = Inr () \<longrightarrow> active_issues s' = {p \<in> active_issues s1. \<not> stale rule (io_issue_id ` set issues) p}" by blast
    have "fst p \<notin> rule_key rule ` fst ` set ?rows" if p: "p \<in> active_issues s" "\<not> stale rule (io_issue_id ` set issues) p" for p
    proof
      assume "fst p \<in> rule_key rule ` fst ` set ?rows"
      then obtain i where i: "(fst p, i) \<in> active_issues s" "stale rule (io_issue_id ` set issues) (fst p, i)"
        using gone by blast
      have "p = (fst p, i)" using active_issues_unique [OF less.prems p(1) i(1)] by simp
      with i(2) p(2) show False by metis
    qed
    then have "{p \<in> active_issues s1. \<not> stale rule (io_issue_id ` set issues) p}
        = {p \<in> active_issues s. \<not> stale rule (io_issue_id ` set issues) p}" using kept by blast
    moreover have "recover_issue_conditions rule issues env s = Some (r', s')" using 3 rest(1) by (simp add: unfold)
    ultimately show ?thesis using rest kept by blast
  qed
qed

subsection \<open>The pages of a rule over issues\<close>

definition issue_pairs :: "rule_evaluation \<Rightarrow> uuid set \<Rightarrow> (condition_key \<times> uuid option) set" where
  "issue_pairs rule ids = (\<lambda>i. (rule_key rule (lit ''issue:'' @ i), Some i)) ` ids"

text \<open>The active conditions once the issues \<open>ids\<close> have been observed.\<close>

definition overwritten :: "rule_evaluation \<Rightarrow> uuid set \<Rightarrow> (condition_key \<times> uuid option) set \<Rightarrow> (condition_key \<times> uuid option) set" where
  "overwritten rule ids ps = issue_pairs rule ids \<union> {p \<in> ps. fst p \<notin> fst ` issue_pairs rule ids}"

lemma overwritten_union: "overwritten rule B (overwritten rule A ps) = overwritten rule (A \<union> B) ps"
  by (auto simp: overwritten_def issue_pairs_def)

lemma overwritten_none: "overwritten rule {} ps = ps"
  by (simp add: overwritten_def issue_pairs_def)

lemma page_observed:
  assumes "transitions env rule (map (issue_scope url rule) page) s = (Inr (), s')" "unique_conditions s"
  shows "unique_conditions s' \<and> active_issues s' = overwritten rule (io_issue_id ` set page) (active_issues s)"
proof -
  let ?items = "map (issue_scope url rule) page"
  have "\<forall>(scope, a, payload) \<in> set ?items. a \<and> om_wf payload \<and> payload_issue_id payload = Some (drop 6 scope)"
    by (auto simp: issue_scope_def om_wf_base_payload payload_issue_id_base lit_def)
  note obs = observations_issues [OF assms this]
  have scopes: "fst ` set ?items = (\<lambda>i. lit ''issue:'' @ i) ` io_issue_id ` set page"
    by (simp add: issue_scope_def image_image)
  show ?thesis
    using obs unfolding scopes overwritten_def issue_pairs_def by (simp add: image_image lit_def)
qed

lemma page_payloads:
  assumes "transitions env rule (map (issue_scope url rule) page) s = (r, s')" "unique_conditions s" "issue_payloads s"
  shows "unique_conditions s' \<and> issue_payloads s'"
  by (rule transitions_payloads [OF assms]) (auto simp: issue_scope_def om_wf_base_payload payload_issue_id_base)

text \<open>A full page leaves the issues after its last one.\<close>

lemma page_split:
  fixes issues cursor
  defines "page \<equiv> issue_observations_page issues cursor"
  defines "ids c \<equiv> io_issue_id ` set (filter (after_cursor c) issues)"
  shows "length page < alert_issue_page_size \<Longrightarrow> ids cursor = io_issue_id ` set page"
    and "page \<noteq> [] \<Longrightarrow> ids cursor = io_issue_id ` set page \<union> ids (Some (io_key (last page)))"
proof -
  let ?all = "filter (after_cursor cursor) (sort_key io_key issues)"
  have set_all: "set ?all = set (filter (after_cursor cursor) issues)" by simp
  show "ids cursor = io_issue_id ` set page" if "length page < alert_issue_page_size"
    using that set_all unfolding ids_def page_def issue_observations_page_def by simp
  assume ne: "page \<noteq> []"
  have page: "page = take alert_issue_page_size ?all" by (simp add: page_def issue_observations_page_def)
  have sorted: "sorted (map io_key ?all)" by (simp add: sorted_filter)
  have last: "last page \<in> set ?all" using ne in_set_takeD last_in_set unfolding page by metis
  have "io_key (last page) \<le> io_key i" if "i \<in> set ?all" "i \<notin> set page" for i
  proof -
    have "i \<in> set (drop alert_issue_page_size ?all)"
      using that unfolding page by (metis Un_iff append_take_drop_id set_append)
    moreover have "\<forall>x \<in> set (map io_key (take alert_issue_page_size ?all)). \<forall>y \<in> set (map io_key (drop alert_issue_page_size ?all)). x \<le> y"
      using sorted by (metis append_take_drop_id map_append sorted_append)
    ultimately show ?thesis using ne last_in_set [of page] unfolding page by auto
  qed
  moreover have "after_cursor cursor i" if "after_cursor (Some (io_key (last page))) i" for i
    using that last by (cases cursor) (auto simp: after_cursor_def)
  moreover have "io_issue_id i = io_issue_id (last page)" if "io_key i = io_key (last page)" for i
    using that by (simp add: io_key_def)
  moreover have "last page \<in> set page" using ne by simp
  moreover have "set page \<subseteq> set ?all" unfolding page by (rule set_take_subset)
  ultimately show "ids cursor = io_issue_id ` set page \<union> ids (Some (io_key (last page)))"
    unfolding ids_def set_all [symmetric] by (auto simp: after_cursor_def image_iff) (metis order_le_imp_less_or_eq)+
qed

text \<open>The whole evaluation of a rule over issues.\<close>

lemma issue_pages_return:
  assumes "unique_conditions s" "issue_payloads s"
  shows "\<exists>r s'. issue_pages env url rule issues None pages cursor s = Some (r, s') \<and> unique_conditions s' \<and> issue_payloads s'
    \<and> (\<forall>b. r = Inr b \<longrightarrow> active_issues s' = {p \<in> overwritten rule (io_issue_id ` set (filter (after_cursor cursor) issues)) (active_issues s).
          \<not> stale rule (io_issue_id ` set issues) p})"
  using assms
proof (induction env url rule issues "None :: nat option" pages cursor s rule: issue_pages.induct [case_names page])
  case (page env url rule issues pages cursor s)
  let ?page = "issue_observations_page issues cursor"
  let ?ids = "\<lambda>c. io_issue_id ` set (filter (after_cursor c) issues)"
  obtain r s1 where run: "transitions env rule (map (issue_scope url rule) ?page) s = (r, s1)" by fastforce
  note s1 = page_payloads [OF run page.prems]
  note unfold = issue_pages.simps [of env url rule issues None pages cursor s, unfolded Let_def run]
  have recovers: "\<exists>r' s'. then_ok True (recover_issue_conditions rule issues env' s2) = Some (r', s') \<and> unique_conditions s'
      \<and> issue_payloads s' \<and> (\<forall>b. r' = Inr b \<longrightarrow> active_issues s' = {p \<in> active_issues s2. \<not> stale rule (io_issue_id ` set issues) p})"
    if s2: "unique_conditions s2" "issue_payloads s2" for env' s2
  proof -
    obtain r2 s' where rec: "recover_issue_conditions rule issues env' s2 = Some (r2, s')" "unique_conditions s'"
      "active_issues s' \<subseteq> active_issues s2"
      "r2 = Inr () \<longrightarrow> active_issues s' = {p \<in> active_issues s2. \<not> stale rule (io_issue_id ` set issues) p}"
      using recover_returns [OF s2(1), of rule issues env'] by blast
    then show ?thesis using issue_payloads_subset [OF s2(2) rec(3)] by (cases r2) (simp_all add: then_ok_def)
  qed
  consider "?page = []" | e where "?page \<noteq> []" "r = Inl e" | "?page \<noteq> []" "r = Inr ()" "length ?page < alert_issue_page_size"
    | "?page \<noteq> []" "r = Inr ()" "\<not> length ?page < alert_issue_page_size"
    by (cases r) auto
  then show ?case
  proof cases
    case 1
    then have "?ids cursor = {}" using page_split(1) [of issues cursor] by (simp add: alert_issue_page_size_def)
    then show ?thesis using recovers [OF page.prems, of env] 1 by (simp add: unfold overwritten_none)
  next
    case 2
    then show ?thesis using s1 by (simp add: unfold)
  next
    case 3
    note obs = page_observed [OF run [unfolded 3(2)] page.prems(1)]
    show ?thesis
      using recovers [of s1 "\<lambda>n. env (length ?page + n)"] s1 3 obs page_split(1) [OF 3(3)] by (simp add: unfold)
  next
    case 4
    note obs = page_observed [OF run [unfolded 4(2)] page.prems(1)]
    have ids: "?ids cursor = io_issue_id ` set ?page \<union> ?ids (Some (io_key (last ?page)))" by (rule page_split(2) [OF 4(1)])
    have next_page: "issue_pages env url rule issues None pages cursor s
        = issue_pages (\<lambda>n. env (length ?page + n)) url rule issues None (pages + 1) (Some (io_key (last ?page))) s1"
      using 4 by (simp add: unfold)
    show ?thesis
      unfolding next_page ids overwritten_union [symmetric] obs [THEN conjunct2, symmetric]
      by (rule page.hyps [OF refl 4(1) run [symmetric] 4(2) 4(3)]) (use s1 in simp_all)
  qed
qed

lemma overwritten_active:
  assumes "issue_payloads s"
  shows "key \<in> fst ` {p \<in> overwritten rule ids (active_issues s). \<not> stale rule ids p}
    \<longleftrightarrow> (if key \<in> range (rule_key rule) then key \<in> (\<lambda>i. rule_key rule (lit ''issue:'' @ i)) ` ids else condition_active s key)"
proof -
  let ?new = "(\<lambda>i. rule_key rule (lit ''issue:'' @ i)) ` ids"
  have pairs: "fst ` issue_pairs rule ids = ?new" by (simp add: issue_pairs_def image_image)
  have "\<not> stale rule ids p" if "p \<in> issue_pairs rule ids" for p using that by (auto simp: issue_pairs_def stale_def)
  moreover have "stale rule ids p" if old: "p \<in> active_issues s" "fst p \<notin> ?new" "fst p \<in> range (rule_key rule)" for p
  proof -
    obtain scope i where p: "p = (rule_key rule scope, i)" using old(3) by (cases p) auto
    then have "is_none_or i (\<lambda>i. scope = lit ''issue:'' @ i)" using assms old(1) by (auto simp: issue_payloads_def rule_key_def)
    with p old(2) show ?thesis by (cases i) (auto simp: stale_def)
  qed
  moreover have "\<not> stale rule ids p" if "fst p \<notin> range (rule_key rule)" for p using that by (simp add: stale_def)
  ultimately have "{p \<in> overwritten rule ids (active_issues s). \<not> stale rule ids p}
      = issue_pairs rule ids \<union> {p \<in> active_issues s. fst p \<notin> range (rule_key rule)}"
    unfolding overwritten_def pairs by blast
  moreover have "fst ` {p \<in> active_issues s. fst p \<notin> range (rule_key rule)} = {key \<in> fst ` active_issues s. key \<notin> range (rule_key rule)}"
    by (simp add: Compr_image_eq)
  moreover have "?new \<subseteq> range (rule_key rule)" by auto
  ultimately have all: "fst ` {p \<in> overwritten rule ids (active_issues s). \<not> stale rule ids p}
      = ?new \<union> {key \<in> fst ` active_issues s. key \<notin> range (rule_key rule)}" and new: "?new \<subseteq> range (rule_key rule)"
    by (simp_all only: image_Un pairs)
  show ?thesis
  proof (cases "key \<in> range (rule_key rule)")
    case True
    then show ?thesis unfolding all if_P [OF True] by blast
  next
    case False
    with new show ?thesis unfolding all if_not_P [OF False] condition_active_issues by blast
  qed
qed

lemma evaluate_issue_rule_active:
  assumes "unique_conditions s" "issue_payloads s"
  shows "\<exists>r s'. then_ok () (evaluate_issue_rule_pages env url rule issues s) = Some (r, s') \<and> unique_conditions s' \<and> issue_payloads s'
    \<and> (r = Inr () \<longrightarrow> (\<forall>key. condition_active s' key \<longleftrightarrow>
         (if key \<in> range (rule_key rule) then key \<in> (\<lambda>i. rule_key rule (lit ''issue:'' @ io_issue_id i)) ` set issues
          else condition_active s key)))"
proof -
  have all: "filter (after_cursor None) issues = issues" by (simp add: after_cursor_def)
  obtain r s' where pages: "issue_pages env url rule issues None 0 None s = Some (r, s')" "unique_conditions s'" "issue_payloads s'"
    "\<forall>b. r = Inr b \<longrightarrow> active_issues s' = {p \<in> overwritten rule (io_issue_id ` set issues) (active_issues s).
          \<not> stale rule (io_issue_id ` set issues) p}"
    using issue_pages_return [OF assms, of env url rule issues 0 None] unfolding all by blast
  show ?thesis
  proof (cases r)
    case (Inr b)
    with pages(4) have "condition_active s' key \<longleftrightarrow>
         (if key \<in> range (rule_key rule) then key \<in> (\<lambda>i. rule_key rule (lit ''issue:'' @ io_issue_id i)) ` set issues
          else condition_active s key)" for key
      using overwritten_active [OF assms(2), of key rule "io_issue_id ` set issues"]
      by (simp add: condition_active_issues [of s'] image_image)
    with pages Inr show ?thesis by (simp add: evaluate_issue_rule_pages_def then_ok_def)
  qed (use pages in \<open>simp add: evaluate_issue_rule_pages_def then_ok_def\<close>)
qed

subsection \<open>Rules over the other observations\<close>

text \<open>They observe conditions without an issue.\<close>

lemma observations_plain:
  assumes "observations url rule q = Inr obs" "ob \<in> set obs"
  shows "om_wf (ob_payload ob) \<and> payload_issue_id (ob_payload ob) = None"
  using assms
  by (auto simp: observations_def volume_observation_def processing_observation_def silence_observation_def
      quota_observation_def observed_def result_simps om_wf_base_payload payload_issue_id_base split: if_splits)

abbreviation observe_all ::
  "(nat \<Rightarrow> alert_env) \<Rightarrow> rule_evaluation \<Rightarrow> observation list \<Rightarrow> alert_tables \<Rightarrow> (scheduler_error, unit) result \<times> alert_tables" where
  "observe_all env rule obs s \<equiv>
     (case transitions env rule (map (\<lambda>ob. (ob_scope_key ob, True, ob_payload ob)) obs) s of
        (Inl e, s') \<Rightarrow> (Inl e, s')
      | (Inr _, s') \<Rightarrow> recover_absent_conditions (\<lambda>n. env (length obs + n)) rule (map ob_scope_key obs) s')"

lemma observe_all_active:
  assumes "observations url rule q = Inr obs" "unique_conditions s" "issue_payloads s" "observe_all env rule obs s = (r, s')"
  shows "unique_conditions s' \<and> issue_payloads s' \<and> (r = Inr () \<longrightarrow> (\<forall>key. condition_active s' key \<longleftrightarrow>
    (if key \<in> range (rule_key rule) then key \<in> rule_key rule ` ob_scope_key ` set obs else condition_active s key)))"
proof -
  let ?items = "map (\<lambda>ob. (ob_scope_key ob, True, ob_payload ob)) obs"
  have plain: "om_wf (ob_payload ob)" "payload_issue_id (ob_payload ob) = None" if "ob \<in> set obs" for ob
    using observations_plain [OF assms(1) that] by simp_all
  obtain r1 s1 where s1: "transitions env rule ?items s = (r1, s1)" by fastforce
  have ok1: "unique_conditions s1 \<and> issue_payloads s1"
    by (rule transitions_payloads [OF s1 assms(2,3)]) (auto simp: plain)
  show ?thesis
  proof (cases r1)
    case (Inl e)
    then show ?thesis using ok1 s1 assms(4) by auto
  next
    case (Inr u)
    let ?p = "\<lambda>k :: condition_row. snd (snd (snd (k_key k))) \<notin> set (map ob_scope_key obs)"
    have s2: "transitions (\<lambda>n. env (length obs + n)) rule (scope_rows rule ?p s1) s1 = (r, s')"
      using assms(4) s1 Inr by (simp add: recover_absent_conditions_def)
    note two = recoveries_issues [OF s2 _ scope_rows_inactive] ok1
    have gone: "key \<in> rule_key rule ` fst ` set (scope_rows rule ?p s1)
        \<longleftrightarrow> key \<in> range (rule_key rule) \<and> condition_active s1 key \<and> key \<notin> rule_key rule ` ob_scope_key ` set obs" for key
    proof (cases "key \<in> range (rule_key rule)")
      case True
      then obtain scope where key: "key = rule_key rule scope" by auto
      show ?thesis unfolding key scope_rows_key by (auto simp: condition_active_def list_ex_iff rule_key_def)
    qed auto
    have s1': "transitions env rule ?items s = (Inr (), s1)" using s1 Inr by simp
    have "\<forall>(scope, a, payload) \<in> set ?items. a \<and> om_wf payload \<and> payload_issue_id payload = None" by (auto simp: plain)
    then have "active_issues s1 = (\<lambda>scope. (rule_key rule scope, None)) ` fst ` set ?items
        \<union> {p \<in> active_issues s. fst p \<notin> rule_key rule ` fst ` set ?items}"
      using observations_issues [OF s1' assms(2), of "\<lambda>_. None"] by blast
    then have one: "condition_active s1 key \<longleftrightarrow> key \<in> rule_key rule ` ob_scope_key ` set obs \<or> condition_active s key" for key
      by (auto simp: condition_active_issues image_Un image_image)
    have "condition_active s' key \<longleftrightarrow>
        (if key \<in> range (rule_key rule) then key \<in> rule_key rule ` ob_scope_key ` set obs else condition_active s key)"
      if "r = Inr ()" for key
    proof -
      have "active_issues s' = {p \<in> active_issues s1. fst p \<notin> rule_key rule ` fst ` set (scope_rows rule ?p s1)}"
        using two that by blast
      then have "condition_active s' key \<longleftrightarrow> condition_active s1 key \<and> key \<notin> rule_key rule ` fst ` set (scope_rows rule ?p s1)"
        by (auto simp: condition_active_issues)
      then show ?thesis unfolding gone one by auto
    qed
    then show ?thesis using two issue_payloads_subset by blast
  qed
qed

subsection \<open>A trace\<close>

text \<open>A volume rule with quiet hours from 22:00 to 7:00, evaluated at 23:30:15.\<close>

definition sample_rule :: rule_evaluation where
  "sample_rule = \<lparr>ev_id = [4], ev_org = [2], ev_project = [3], ev_project_name = lit ''Game'', ev_integration = [5],
     ev_condition_kind = ''volume'', ev_environment = lit ''prod'', ev_threshold = Some 5, ev_window_seconds = Some 3600,
     ev_quiet_start = Some 1320, ev_quiet_end = Some 420\<rparr>"

definition sample_env :: "nat \<Rightarrow> alert_env" where
  "sample_env n = \<lparr>en_now = 0, en_utc = late_evening, en_occurred_at = lit ''t'', en_payload_size = length, en_id = [20 + n]\<rparr>"

definition sample_queries :: "int \<Rightarrow> query_results" where
  "sample_queries n = \<lparr>q_events = n, q_silent = False, q_usage = None,
     q_issues = \<lambda>_. []\<rparr>"

definition no_alerts :: alert_tables where "no_alerts = \<lparr>conditions = [], deliveries = []\<rparr>"

definition transit :: "nat \<Rightarrow> bool \<Rightarrow> alert_tables \<Rightarrow> alert_tables" where
  "transit n active s = apply_alert (transition_condition (sample_env n) sample_rule (lit ''project:prod'') active [] s) s"

definition started :: alerts where
  "started = \<lparr>at = transit 1 True no_alerts, alert_clock = 0, delivery_claims = []\<rparr>"

definition recovered :: alerts where
  "recovered = started\<lparr>at := transit 2 False (at started)\<rparr>"

definition morning :: micros where "morning = 26985000000"

definition sample_claim :: claimed_delivery where
  "sample_claim = \<lparr>cd_id = [21], cd_org = [2], cd_project = [3], cd_integration = [5], cd_attempt = 1, cd_max_attempt = 3,
     cd_lease_token = [31], cd_payload = notice_payload Triggered (lit ''t'') []\<rparr>"

definition sent_tables :: alert_tables where
  "sent_tables = (case claim_round morning [6] [31] [] (at started) of Inr (_, s) \<Rightarrow> s | Inl _ \<Rightarrow> at started)"

definition delivered :: alerts where
  "delivered = \<lparr>at = apply_alert (finish_delivery morning sample_claim (Inr ()) sent_tables) sent_tables,
     alert_clock = morning, delivery_claims = [sample_claim]\<rparr>"

lemma started_reachable: "alert_reachable started"
proof -
  have "alert_reachable \<lparr>at = no_alerts, alert_clock = 0, delivery_claims = []\<rparr>"
    unfolding no_alerts_def by (rule alert_initial)
  moreover have "alert_step \<lparr>at = no_alerts, alert_clock = 0, delivery_claims = []\<rparr> started"
    using transition [of "sample_env 1" "\<lparr>at = no_alerts, alert_clock = 0, delivery_claims = []\<rparr>" sample_rule
        "lit ''project:prod''" True "[]"]
    by (simp add: started_def transit_def sample_env_def no_alerts_def)
  ultimately show ?thesis by (rule alert_next)
qed

lemma started_rows: "map v_id (deliveries (at started)) = [[21]]" "alert_clock started = 0" "delivery_claims started = []"
  by code_simp+

lemma recovered_reachable: "alert_reachable recovered"
proof -
  have "alert_step started recovered"
    using transition [of "sample_env 2" started sample_rule "lit ''project:prod''" False "[]"] started_rows
    by (simp add: recovered_def transit_def sample_env_def set_map [symmetric] del: set_map)
  with started_reachable show ?thesis by (rule alert_next)
qed

lemma sent_round: "claim_round morning [6] [31] [] (at started) = Inr (Claimed sample_claim, sent_tables)"
proof -
  have "(case claim_round morning [6] [31] [] (at started) of Inr (Claimed c, _) \<Rightarrow> c = sample_claim | _ \<Rightarrow> False)"
    by code_simp
  then show ?thesis by (auto simp: sent_tables_def split: sum.splits claim_outcome.splits)
qed

lemma delivered_reachable: "alert_reachable delivered"
proof -
  let ?q = "started\<lparr>alert_clock := morning\<rparr>"
  have "alert_step started ?q" by (rule pass_time) (simp add: started_rows morning_def)
  from alert_next [OF started_reachable this] have "alert_reachable ?q" .
  moreover have "alert_step ?q (?q\<lparr>at := sent_tables, delivery_claims := [sample_claim]\<rparr>)"
    using claim_one [of ?q "[6]" "[31]" "[]" sample_claim sent_tables] sent_round started_rows by simp
  ultimately have "alert_reachable (?q\<lparr>at := sent_tables, delivery_claims := [sample_claim]\<rparr>)" by (rule alert_next)
  moreover have "alert_step (?q\<lparr>at := sent_tables, delivery_claims := [sample_claim]\<rparr>) delivered"
    using finish_one [of sample_claim "?q\<lparr>at := sent_tables, delivery_claims := [sample_claim]\<rparr>" "Inr ()"]
    by (simp add: delivered_def started_def)
  ultimately show ?thesis by (rule alert_next)
qed

subsection \<open>Properties\<close>

text \<open>C4: In every interleaving of schedulers and delivery workers the notices of a condition form the history of the
  specification: one triggered notice each time it becomes active, one recovered notice each time it ends, none
  lost and none twice, the condition is active exactly when the last one is a triggered notice, and a recovered
  notice is withheld exactly when the triggered notice before it is. The counter of generations must not have
  reached the limit at which it saturates.\<close>

theorem alert_notices_paired:
  assumes "alert_reachable q" "k \<in> set (conditions (at q))" "k_generation k < i64_max"
  shows "(k_active k \<longleftrightarrow> odd (k_generation k))
    \<and> notice_history (k_generation k) (notices (k_key k) (deliveries (at q)))"
  using reachable_alerts_ok [OF assms(1)] assms(2,3) by (simp add: alerts_ok_def condition_ok_def)

text \<open>A condition that ends in quiet hours: both notices are withheld.\<close>

lemma alert_notices_paired_witness:
  "notice_history 2 [(2, Recovered, True), (1, Triggered, True)]"
proof -
  let ?key = "([2], [3], [4], lit ''project:prod'') :: condition_key"
  have "map (\<lambda>k. (k_key k, k_generation k)) (conditions (at recovered)) = [(?key, 2)]" by code_simp
  then obtain k where k: "k \<in> set (conditions (at recovered))" "k_key k = ?key" "k_generation k = 2"
    by (cases "conditions (at recovered)") auto
  have "notices ?key (deliveries (at recovered)) = [(2, Recovered, True), (1, Triggered, True)]" by code_simp
  with alert_notices_paired [OF recovered_reachable k(1)] k show ?thesis by (simp add: i64_max_def)
qed

text \<open>C32: A notice is claimed at most three times, its row counts the claims, and its outcome is final: when it has
  been delivered, given up, withheld or left uncertain, no later step of any worker or scheduler changes it.\<close>

theorem alert_attempts_bounded_outcome_final:
  assumes "alert_reachable q" "d \<in> set (deliveries (at q))"
  shows "int (length (filter (\<lambda>c. cd_id c = v_id d) (delivery_claims q))) = v_attempt d
    \<and> v_attempt d \<le> v_max_attempt d \<and> v_max_attempt d = 3
    \<and> (final (v_state d) \<and> alert_step q q' \<longrightarrow> d \<in> set (deliveries (at q')))"
proof -
  have "row_attempts (claims_made q (v_id d)) d" using reachable_attempts [OF assms(1)] assms(2) by (simp add: attempts_ok_def)
  moreover have "final (v_state d) \<and> alert_step q q' \<Longrightarrow> d \<in> set (deliveries (at q'))"
    using final_row_kept assms(2) by blast
  ultimately show ?thesis by (auto simp: row_attempts_def claims_made_def)
qed

text \<open>A delivered notice stays delivered when an hour passes.\<close>

lemma alert_attempts_bounded_outcome_final_witness:
  "length (filter (\<lambda>c. cd_id c = [21]) (delivery_claims delivered)) = 1
   \<and> (\<exists>d \<in> set (deliveries (at (delivered\<lparr>alert_clock := morning + seconds 3600\<rparr>))). v_state d = Delivered)"
proof -
  have "map (\<lambda>d. (v_id d, v_state d, v_attempt d)) (deliveries (at delivered)) = [([21], Delivered, 1)]" by code_simp
  then obtain d where d: "d \<in> set (deliveries (at delivered))" "v_id d = [21]" "v_state d = Delivered" "v_attempt d = 1"
    by (cases "deliveries (at delivered)") auto
  have "alert_step delivered (delivered\<lparr>alert_clock := morning + seconds 3600\<rparr>)"
    by (rule pass_time) (simp add: delivered_def seconds_def)
  with alert_attempts_bounded_outcome_final [OF delivered_reachable d(1), of "delivered\<lparr>alert_clock := morning + seconds 3600\<rparr>"]
  show ?thesis using d by (auto simp: final_def)
qed

text \<open>C33: Every evaluation of a rule, of any kind and whatever its queries return, comes to an end. When it ends without
  an error, the active conditions of the rule are exactly the observed ones: for the rules over issues
  (\<^verbatim>\<open>first_seen\<close>, \<^verbatim>\<open>regression\<close>) those of the issues that the query selects, on whatever page, and for the other
  rules those of their observations; the conditions of every other rule are as they were. What it assumes of the
  table, that keys are unique and that a payload naming an issue is the one of that issue's scope, it keeps, also
  when it ends with an error.\<close>

theorem evaluation_activates_exactly_observed:
  assumes "distinct (map k_key (conditions s))" "issue_payloads s"
  shows "\<exists>r s'. evaluate_rule env url rule q s = Some (r, s') \<and> distinct (map k_key (conditions s')) \<and> issue_payloads s'
    \<and> (r = Inr () \<longrightarrow>
        (\<forall>scope. condition_active s' (rule_key rule scope) \<longleftrightarrow>
           (if ev_condition_kind rule \<in> {''first_seen'', ''regression''}
            then \<exists>i \<in> set (q_issues q (ev_condition_kind rule = ''regression'')). scope = lit ''issue:'' @ io_issue_id i
            else \<exists>obs. observations url rule q = Inr obs \<and> scope \<in> ob_scope_key ` set obs))
        \<and> (\<forall>key. key \<notin> range (rule_key rule) \<longrightarrow> (condition_active s' key \<longleftrightarrow> condition_active s key)))"
proof -
  consider (issues) "ev_condition_kind rule \<in> {''first_seen'', ''regression''}"
    | (error) e where "ev_condition_kind rule \<notin> {''first_seen'', ''regression''}" "observations url rule q = Inl e"
    | (others) obs where "ev_condition_kind rule \<notin> {''first_seen'', ''regression''}" "observations url rule q = Inr obs"
    by (cases "observations url rule q") auto
  then show ?thesis
  proof cases
    case issues
    let ?issues = "q_issues q (ev_condition_kind rule = ''regression'')"
    have "evaluate_rule env url rule q s = then_ok () (evaluate_issue_rule_pages env url rule ?issues s)"
      using issues by (auto simp: evaluate_rule_def)
    moreover obtain r s' where run: "then_ok () (evaluate_issue_rule_pages env url rule ?issues s) = Some (r, s')"
      and kept: "unique_conditions s'" "issue_payloads s'"
      and active: "r = Inr () \<longrightarrow> (\<forall>key. condition_active s' key \<longleftrightarrow>
         (if key \<in> range (rule_key rule) then key \<in> (\<lambda>i. rule_key rule (lit ''issue:'' @ io_issue_id i)) ` set ?issues
          else condition_active s key))"
      using evaluate_issue_rule_active [OF assms, of env url rule ?issues] by blast
    moreover have "condition_active s' (rule_key rule scope) \<longleftrightarrow> (\<exists>i \<in> set ?issues. scope = lit ''issue:'' @ io_issue_id i)"
      if "r = Inr ()" for scope
      using active [THEN mp, OF that, THEN spec [of _ "rule_key rule scope"]] by (simp add: image_iff)
    ultimately show ?thesis unfolding if_P [OF issues] by (intro exI [of _ r] exI [of _ s']) simp
  next
    case error
    then show ?thesis using assms by (simp add: evaluate_rule_def)
  next
    case others
    obtain r s' where run: "observe_all env rule obs s = (r, s')" by fastforce
    have "evaluate_rule env url rule q s = Some (r, s')" using others run by (simp add: evaluate_rule_def)
    moreover note active = observe_all_active [OF others(2) assms run]
    moreover have "condition_active s' (rule_key rule scope)
        \<longleftrightarrow> (\<exists>obs. observations url rule q = Inr obs \<and> scope \<in> ob_scope_key ` set obs)"
      if "r = Inr ()" for scope
      using active [THEN conjunct2, THEN conjunct2, THEN mp, OF that, THEN spec [of _ "rule_key rule scope"]] others(2)
      by (simp add: image_iff)
    ultimately show ?thesis unfolding if_not_P [OF others(1)] by (intro exI [of _ r] exI [of _ s']) simp
  qed
qed

text \<open>Seven events activate the condition of the sample rule, and with two events it recovers; the same rule over
  regressions has the condition of the selected issue instead.\<close>

definition sample_issue_rule :: rule_evaluation where
  "sample_issue_rule = sample_rule\<lparr>ev_condition_kind := ''regression''\<rparr>"

definition sample_issue_queries :: query_results where
  "sample_issue_queries = (sample_queries 0)\<lparr>q_issues := \<lambda>regression.
     if regression then [\<lparr>io_sort_at = 1, io_issue_id = [9], io_title = [], io_events = 1\<rparr>] else []\<rparr>"

definition sample_evaluation :: "rule_evaluation \<Rightarrow> query_results \<Rightarrow> alert_tables \<Rightarrow> alert_tables" where
  "sample_evaluation rule q s = (case evaluate_rule sample_env [] rule q s of Some (_, s') \<Rightarrow> s' | None \<Rightarrow> s)"

lemma evaluation_activates_exactly_observed_witness:
  "condition_active (sample_evaluation sample_rule (sample_queries 7) no_alerts) (rule_key sample_rule (lit ''project:prod''))
   \<and> \<not> condition_active (sample_evaluation sample_rule (sample_queries 2) (sample_evaluation sample_rule (sample_queries 7) no_alerts))
         (rule_key sample_rule (lit ''project:prod''))
   \<and> condition_active (sample_evaluation sample_issue_rule sample_issue_queries
         (sample_evaluation sample_rule (sample_queries 7) no_alerts)) (rule_key sample_rule (lit ''issue:'' @ [9]))
   \<and> \<not> condition_active (sample_evaluation sample_issue_rule sample_issue_queries
         (sample_evaluation sample_rule (sample_queries 7) no_alerts)) (rule_key sample_rule (lit ''project:prod''))"
proof -
  let ?ok = "\<lambda>rule q s. case evaluate_rule sample_env [] rule q s of Some (r, _) \<Rightarrow> is_ok r | None \<Rightarrow> False"
  let ?active = "\<lambda>rule q s'. \<forall>scope. condition_active s' (rule_key rule scope) \<longleftrightarrow>
     (if ev_condition_kind rule \<in> {''first_seen'', ''regression''}
      then \<exists>i \<in> set (q_issues q (ev_condition_kind rule = ''regression'')). scope = lit ''issue:'' @ io_issue_id i
      else \<exists>obs. observations [] rule q = Inr obs \<and> scope \<in> ob_scope_key ` set obs)"
  define s1 where "s1 = sample_evaluation sample_rule (sample_queries 7) no_alerts"
  have ok: "?ok sample_rule (sample_queries 7) no_alerts" "?ok sample_rule (sample_queries 2) s1"
    "?ok sample_issue_rule sample_issue_queries s1"
    unfolding s1_def by code_simp+
  have step: "distinct (map k_key (conditions (sample_evaluation rule q s))) \<and> issue_payloads (sample_evaluation rule q s)
      \<and> ?active rule q (sample_evaluation rule q s)"
    if kept: "distinct (map k_key (conditions s))" "issue_payloads s" and ok: "?ok rule q s" for rule q s
  proof -
    obtain r s' where run: "evaluate_rule sample_env [] rule q s = Some (r, s')" "distinct (map k_key (conditions s'))" "issue_payloads s'"
      and active: "r = Inr () \<longrightarrow> ?active rule q s'"
      using evaluation_activates_exactly_observed [OF kept, of sample_env "[]" rule q] by blast
    moreover have "r = Inr ()" using ok run(1) by (simp add: is_ok_iff)
    ultimately show ?thesis by (simp add: sample_evaluation_def)
  qed
  have start: "distinct (map k_key (conditions no_alerts))" "issue_payloads no_alerts"
    by (simp_all add: no_alerts_def issue_payloads_def active_issues_def)
  note s1 = step [OF start ok(1), folded s1_def]
  note s2 = step [OF s1 [THEN conjunct1] s1 [THEN conjunct2, THEN conjunct1] ok(2)]
  note s3 = step [OF s1 [THEN conjunct1] s1 [THEN conjunct2, THEN conjunct1] ok(3)]
  have plain: "ev_condition_kind sample_rule \<notin> {''first_seen'', ''regression''}" by (simp add: sample_rule_def)
  have issue: "ev_condition_kind sample_issue_rule \<in> {''first_seen'', ''regression''}" "ev_condition_kind sample_issue_rule = ''regression''"
    by (simp_all add: sample_issue_rule_def)
  have obs: "observations [] sample_rule (sample_queries 7) = Inr
      [\<lparr>ob_scope_key = lit ''project:prod'', ob_payload = base_payload [] sample_rule None None 7\<rparr>]"
    "observations [] sample_rule (sample_queries 2) = Inr []"
    by (simp_all add: observations_def sample_rule_def sample_queries_def volume_observation_def observed_def scope_of_def lit_def)
  have same: "rule_key sample_issue_rule = rule_key sample_rule"
    by (simp add: fun_eq_iff rule_key_def sample_issue_rule_def)
  have "condition_active s1 (rule_key sample_rule (lit ''project:prod''))"
    using s1 [THEN conjunct2, THEN conjunct2] obs(1) unfolding if_not_P [OF plain] by simp
  moreover have "\<not> condition_active (sample_evaluation sample_rule (sample_queries 2) s1) (rule_key sample_rule (lit ''project:prod''))"
    using s2 [THEN conjunct2, THEN conjunct2] obs(2) unfolding if_not_P [OF plain] by simp
  moreover have "q_issues sample_issue_queries True = [\<lparr>io_sort_at = 1, io_issue_id = [9], io_title = [], io_events = 1\<rparr>]"
    by (simp add: sample_issue_queries_def)
  then have "condition_active (sample_evaluation sample_issue_rule sample_issue_queries s1) (rule_key sample_rule scope)
      \<longleftrightarrow> scope = lit ''issue:'' @ [9]" for scope
    using s3 [THEN conjunct2, THEN conjunct2] unfolding if_P [OF issue(1)] same issue(2) by simp
  ultimately show ?thesis unfolding s1_def [symmetric] by (simp add: lit_def)
qed

end
