(* ===== verification/Alert_Integrations.thy ===== *)
theory Alert_Integrations
  imports Alert_Delivery
begin

section \<open>Integrations (apps/server/src/alerts.rs)\<close>

text \<open>
  The destinations of integrations: which URLs are allowed, how their configuration is sealed, and the request that
  a worker builds for a claimed notice. The URL parser, the cipher, the parser of the stored configuration, name
  resolution and HMAC are parameters. A configuration is sealed for its organization, project, integration and kind.
\<close>

record parsed_url =
  url_scheme :: ustring
  url_host :: "ustring option"
  url_username :: ustring
  url_password :: "ustring option"
  url_query :: "ustring option"
  url_fragment :: "ustring option"
  url_port :: "nat option"
  url_path_segments :: "ustring list option"

datatype startup_error = Alerts_Configuration

definition validate_public_base_url :: "(ustring \<Rightarrow> parsed_url option) \<Rightarrow> ustring \<Rightarrow> (startup_error, ustring) result" where
  "validate_public_base_url parse value =
     bindR (ok_or (parse value) Alerts_Configuration) (\<lambda>url.
     let valid_scheme = url_scheme url = lit ''https''
           \<or> url_scheme url = lit ''http''
             \<and> is_some_and (url_host url) (\<lambda>h. h \<in> {lit ''127.0.0.1'', lit ''::1'', lit ''localhost''})
     in if \<not> valid_scheme \<or> url_host url = None \<or> url_username url \<noteq> [] \<or> url_password url \<noteq> None
          \<or> url_query url \<noteq> None \<or> url_fragment url \<noteq> None
        then Inl Alerts_Configuration
        else Inr (trim_end_slashes value))"

definition provider_valid :: "string \<Rightarrow> ustring \<Rightarrow> ustring list \<Rightarrow> bool" where
  "provider_valid kind host segments =
     (if kind = ''discord'' then
        host \<in> {lit ''discord.com'', lit ''discordapp.com''} \<and> length segments = 4 \<and> segments ! 0 = lit ''api''
        \<and> segments ! 1 = lit ''webhooks'' \<and> segments ! 2 \<noteq> [] \<and> segments ! 3 \<noteq> []
      else if kind = ''slack'' then
        host = lit ''hooks.slack.com'' \<and> length segments = 4 \<and> segments ! 0 = lit ''services''
        \<and> list_all (\<lambda>s. s \<noteq> []) (drop 1 segments)
      else if kind = ''webhook'' then segments \<noteq> []
      else False)"

definition validate_customer_destination ::
  "(ustring \<Rightarrow> parsed_url option) \<Rightarrow> string \<Rightarrow> ustring \<Rightarrow> (alert_error, parsed_url) result" where
  "validate_customer_destination parse kind value =
     (if str_len value > max_endpoint_bytes then Inl InvalidRequest
      else bindR (ok_or (parse value) InvalidRequest) (\<lambda>url.
        if url_scheme url \<noteq> lit ''https'' \<or> url_host url = None \<or> url_username url \<noteq> [] \<or> url_password url \<noteq> None
          \<or> url_fragment url \<noteq> None \<or> url_port url \<noteq> Some 443
        then Inl InvalidRequest
        else bindR (ok_or (map_option to_ascii_lowercase (url_host url)) InvalidRequest) (\<lambda>host.
        bindR (ok_or (url_path_segments url) InvalidRequest) (\<lambda>segments.
        if provider_valid kind host segments then Inr url else Inl InvalidRequest))))"

subsection \<open>Sealed configurations\<close>

record secret_scope =
  sc_org :: ustring
  sc_project :: ustring
  sc_integration :: ustring
  sc_kind :: string

definition aad :: "secret_scope \<Rightarrow> ustring" where
  "aad scope = lit ''faultlane-integration-v1:'' @ sc_org scope @ lit '':'' @ sc_project scope @ lit '':''
     @ sc_integration scope @ lit '':'' @ lit (sc_kind scope)"

text \<open>The cipher with its key: nonce, message and associated data to the sealed message, and back.\<close>

type_synonym seal = "byte list \<Rightarrow> byte list \<Rightarrow> byte list \<Rightarrow> byte list option"

definition encrypt :: "seal \<Rightarrow> byte list \<Rightarrow> secret_scope \<Rightarrow> byte list \<Rightarrow> (alert_error, byte list \<times> byte list) result" where
  "encrypt seal nonce scope plaintext =
     (if plaintext = [] \<or> length plaintext > max_endpoint_bytes + 512 then Inl InvalidRequest
      else bindR (ok_or (seal nonce plaintext (utf8 (aad scope))) Internal) (\<lambda>ciphertext. Inr (ciphertext, nonce)))"

definition decrypt :: "seal \<Rightarrow> secret_scope \<Rightarrow> byte list \<Rightarrow> byte list \<Rightarrow> (delivery_error, byte list) result" where
  "decrypt unseal scope ciphertext nonce =
     (if length nonce \<noteq> 24 \<or> length ciphertext < 17 \<or> length ciphertext > 8192
      then Inl (Permanent ''integration_config_invalid'')
      else ok_or (unseal nonce ciphertext (utf8 (aad scope))) (Permanent ''integration_decrypt_failed''))"

subsection \<open>The request for a notice\<close>

record delivery_integration =
  di_kind :: string
  di_enabled :: bool
  di_recipient_email :: "ustring option"
  di_encrypted_config :: "byte list option"
  di_config_nonce :: "byte list option"

record secret_config =
  cfg_url :: ustring
  cfg_signing_secret :: "ustring option"

text \<open>A request: the address texts it may connect to (none for the configured mail service), its body and header.\<close>

record delivery_request =
  rq_url :: "parsed_url option"
  rq_addresses :: "ip_addr list"
  rq_body :: json_map
  rq_header :: delivery_header

record outside =
  o_parse_url :: "ustring \<Rightarrow> parsed_url option"
  o_parse_ip :: "ustring \<Rightarrow> ip_addr option"
  o_lookup :: "ustring \<Rightarrow> ip_addr list option"
  o_unseal :: seal
  o_config :: "byte list \<Rightarrow> secret_config option"
  o_hmac :: "byte list \<Rightarrow> byte list \<Rightarrow> byte list"
  o_to_vec :: "json_map \<Rightarrow> byte list"
  o_email_token :: "ustring option"

definition email_request :: "outside \<Rightarrow> delivery_integration \<Rightarrow> json_map \<Rightarrow> (delivery_error, delivery_request) result" where
  "email_request out integration payload =
     bindR (ok_or (o_email_token out) (Permanent ''email_not_configured'')) (\<lambda>token.
     bindR (ok_or (di_recipient_email integration) (Permanent ''recipient_not_found'')) (\<lambda>recipient.
     Inr \<lparr>rq_url = None, rq_addresses = [],
       rq_body = struct_map [(''to'', JString recipient), (''subject'', JString (alert_subject payload)),
         (''text'', JString (alert_text payload))],
       rq_header = Some (''authorization'', lit ''Bearer '' @ token)\<rparr>))"

definition webhook_request ::
  "outside \<Rightarrow> claimed_delivery \<Rightarrow> delivery_integration \<Rightarrow> (delivery_error, delivery_request) result" where
  "webhook_request out delivery integration =
     (let scope = \<lparr>sc_org = cd_org delivery, sc_project = cd_project delivery, sc_integration = cd_integration delivery,
        sc_kind = di_kind integration\<rparr> in
     bindR (ok_or (di_encrypted_config integration) (Permanent ''integration_config_invalid'')) (\<lambda>ciphertext.
     bindR (ok_or (di_config_nonce integration) (Permanent ''integration_config_invalid'')) (\<lambda>nonce.
     bindR (decrypt (o_unseal out) scope ciphertext nonce) (\<lambda>plaintext.
     bindR (ok_or (o_config out plaintext) (Permanent ''integration_config_invalid'')) (\<lambda>config.
     bindR (map_err (\<lambda>_. Permanent ''destination_invalid'')
         (validate_customer_destination (o_parse_url out) (di_kind integration) (cfg_url config))) (\<lambda>url.
     bindR (map_err (\<lambda>e. case e of Unsafe \<Rightarrow> Permanent ''destination_invalid''
           | Unresolved \<Rightarrow> Retryable ''destination_resolution_failed'')
         (resolve_public_destination (url_host url) (o_parse_ip out) (o_lookup out))) (\<lambda>addresses.
     bindR (destination_payload (o_hmac out) (o_to_vec out) (di_kind integration) (cd_id delivery) (cd_payload delivery)
         (cfg_signing_secret config)) (\<lambda>(body, header).
     Inr \<lparr>rq_url = Some url, rq_addresses = addresses, rq_body = body, rq_header = header\<rparr>))))))))"

text \<open>The integration that the query returned, and the outcome of sending the request.\<close>

definition deliver_request ::
  "outside \<Rightarrow> delivery_integration option \<Rightarrow> claimed_delivery \<Rightarrow> (delivery_error, delivery_request) result" where
  "deliver_request out row delivery =
     bindR (ok_or row (Permanent ''integration_not_found'')) (\<lambda>integration.
     if \<not> di_enabled integration then Inl (Permanent ''integration_disabled'')
     else if di_kind integration = ''email'' then email_request out integration (cd_payload delivery)
     else webhook_request out delivery integration)"

definition deliver_claim ::
  "outside \<Rightarrow> (delivery_request \<Rightarrow> send_outcome) \<Rightarrow> delivery_integration option \<Rightarrow> claimed_delivery
     \<Rightarrow> (delivery_error, unit) result" where
  "deliver_claim out send row delivery =
     bindR (deliver_request out row delivery) (\<lambda>request. send_result (send request))"

text \<open>C12: Every request for a notice that carries a customer's URL goes to the host of an https URL on port 443 without
  credentials, of an enabled integration, and may connect only to addresses outside the reserved networks.\<close>

theorem customer_request_safe:
  assumes "deliver_request out row delivery = Inr request" "rq_url request = Some url"
  shows "url_scheme url = lit ''https'' \<and> url_port url = Some 443 \<and> url_username url = [] \<and> url_password url = None
    \<and> url_host url \<noteq> None \<and> rq_addresses request \<noteq> [] \<and> list_all (\<lambda>a. \<not> reserved a) (rq_addresses request)
    \<and> (\<exists>integration. row = Some integration \<and> di_enabled integration)"
proof -
  from assms(1) obtain integration where row: "row = Some integration" "di_enabled integration"
    by (cases row) (auto simp: deliver_request_def split: if_splits)
  have "di_kind integration \<noteq> ''email''"
    using assms row by (auto simp: deliver_request_def email_request_def result_simps)
  with assms(1) row have "webhook_request out delivery integration = Inr request" by (simp add: deliver_request_def)
  then obtain kind v where
    valid: "validate_customer_destination (o_parse_url out) kind v = Inr url"
    and res: "resolve_public_destination (url_host url) (o_parse_ip out) (o_lookup out) = Inr (rq_addresses request)"
    using assms(2) by (fastforce simp: webhook_request_def Let_def result_simps split: prod.splits)
  from valid have "url_scheme url = lit ''https'' \<and> url_port url = Some 443 \<and> url_username url = []
    \<and> url_password url = None \<and> url_host url \<noteq> None"
    by (auto simp: validate_customer_destination_def result_simps split: if_splits)
  moreover have "rq_addresses request \<noteq> [] \<and> list_all (\<lambda>a. \<not> reserved a) (rq_addresses request)"
    using resolved_addresses [OF res] by simp
  ultimately show ?thesis using row by blast
qed

text \<open>A webhook to \<^verbatim>\<open>example.com\<close>, which resolves to 93.184.216.34.\<close>

definition sample_url :: parsed_url where
  "sample_url = \<lparr>url_scheme = lit ''https'', url_host = Some (lit ''example.com''), url_username = [], url_password = None,
     url_query = None, url_fragment = None, url_port = Some 443, url_path_segments = Some [lit ''hook'']\<rparr>"

definition sample_outside :: outside where
  "sample_outside = \<lparr>o_parse_url = (\<lambda>_. Some sample_url), o_parse_ip = (\<lambda>_. None),
     o_lookup = (\<lambda>_. Some [V4 (ipv4 93 184 216 34)]), o_unseal = (\<lambda>_ c _. Some c),
     o_config = (\<lambda>_. Some \<lparr>cfg_url = lit ''https://example.com/hook'', cfg_signing_secret = Some (lit ''s'')\<rparr>),
     o_hmac = (\<lambda>_ _. []), o_to_vec = (\<lambda>_. []), o_email_token = None\<rparr>"

definition sample_integration :: delivery_integration where
  "sample_integration = \<lparr>di_kind = ''webhook'', di_enabled = True, di_recipient_email = None,
     di_encrypted_config = Some (replicate 17 0), di_config_nonce = Some (replicate 24 0)\<rparr>"

definition sample_delivery :: claimed_delivery where
  "sample_delivery = \<lparr>cd_id = [21], cd_org = [2], cd_project = [3], cd_integration = [5], cd_attempt = 1,
     cd_max_attempt = 3, cd_lease_token = [31], cd_payload = []\<rparr>"

lemma customer_request_safe_witness:
  "\<exists>request. deliver_request sample_outside (Some sample_integration) sample_delivery = Inr request
     \<and> rq_url request = Some sample_url \<and> list_all (\<lambda>a. \<not> reserved a) (rq_addresses request)"
proof -
  let ?o = sample_outside and ?scope = "\<lparr>sc_org = [2], sc_project = [3], sc_integration = [5], sc_kind = ''webhook''\<rparr>"
  have "public_ip (V4 (ipv4 93 184 216 34))" by (simp add: public_ipv4_def octet_nat ipv4_def Let_def)
  then have resolve: "resolve_public_destination (url_host sample_url) (\<lambda>_. None) (\<lambda>_. Some [V4 (ipv4 93 184 216 34)])
      = Inr [V4 (ipv4 93 184 216 34)]"
    by (simp add: resolve_public_destination_def sample_url_def Let_def)
  have valid: "validate_customer_destination (\<lambda>_. Some sample_url) ''webhook'' (lit ''https://example.com/hook'') = Inr sample_url"
    by code_simp
  have unsealed: "decrypt (\<lambda>_ c _. Some c) ?scope (replicate 17 0) (replicate 24 0) = Inr (replicate 17 0)"
    by (simp add: decrypt_def)
  have "deliver_request ?o (Some sample_integration) sample_delivery = webhook_request ?o sample_delivery sample_integration"
    by (simp add: deliver_request_def sample_integration_def)
  moreover have "\<exists>request. webhook_request ?o sample_delivery sample_integration = Inr request \<and> rq_url request = Some sample_url"
    unfolding webhook_request_def sample_outside_def sample_integration_def sample_delivery_def Let_def
    by (simp add: valid unsealed resolve destination_payload_def)
  ultimately obtain request where request:
    "deliver_request ?o (Some sample_integration) sample_delivery = Inr request" "rq_url request = Some sample_url" by auto
  from customer_request_safe [OF request] request show ?thesis by blast
qed

end
