(* ===== verification/Usage_Policy.thy ===== *)
theory Usage_Policy
  imports Alert_Conditions
begin

section \<open>Usage policies (apps/server/src/usage.rs)\<close>

text \<open>
  What a project may use: how an accepted event is classed against the limit of its policy, the courtesy and the
  paid overage, the threshold that is reported, the changes a policy admits, and the decision which raw crash files
  are kept when a project is over its limits. Numbers saturate at 64 bits as in the code. SHA-256 is a parameter.
\<close>

definition overage_block_events :: int where "overage_block_events = 100000"
definition overage_block_cents :: int where "overage_block_cents = 1500"
definition raw_reservoir_rate :: nat where "raw_reservoir_rate = 100"

record usage_policy =
  p_version :: int
  p_event_limit :: int
  p_artifact_storage_limit_bytes :: int
  p_project_limit :: int
  p_normalized_retention_limit_days :: int
  p_raw_retention_limit_days :: int
  p_normalized_retention_days :: int
  p_raw_retention_days :: int
  p_courtesy_percent :: int
  p_spend_cap_cents :: "int option"
  p_retain_all_raw :: bool

text \<open>The outcomes \<^verbatim>\<open>standard\<close>, \<^verbatim>\<open>overage\<close>, \<^verbatim>\<open>courtesy\<close> and \<^verbatim>\<open>sampling\<close>.\<close>

datatype outcome = Standard | Overage | Courtesy | Sampling

text \<open>The constraints of the table \<^verbatim>\<open>project_usage_policies\<close>.\<close>

definition policy_ok :: "usage_policy \<Rightarrow> bool" where
  "policy_ok p \<longleftrightarrow> 0 < p_version p \<and> 0 < p_event_limit p \<and> p_event_limit p \<le> i64_max
     \<and> 0 < p_artifact_storage_limit_bytes p \<and> 0 < p_project_limit p
     \<and> 1 \<le> p_normalized_retention_limit_days p \<and> p_normalized_retention_limit_days p \<le> 3650
     \<and> 1 \<le> p_raw_retention_limit_days p \<and> p_raw_retention_limit_days p \<le> 3650
     \<and> 1 \<le> p_normalized_retention_days p \<and> p_normalized_retention_days p \<le> p_normalized_retention_limit_days p
     \<and> 1 \<le> p_raw_retention_days p \<and> p_raw_retention_days p \<le> p_raw_retention_limit_days p
     \<and> 0 \<le> p_courtesy_percent p \<and> p_courtesy_percent p \<le> 100
     \<and> is_none_or (p_spend_cap_cents p) (\<lambda>c. 1500 \<le> c \<and> c \<le> 10000000)"

subsection \<open>Outcomes\<close>

definition courtesy_limit :: "usage_policy \<Rightarrow> int" where
  "courtesy_limit p =
     i64_saturating (p_event_limit p + i64_saturating (p_event_limit p * p_courtesy_percent p) div 100)"

definition overage_limit :: "usage_policy \<Rightarrow> int \<Rightarrow> int" where
  "overage_limit p cap = i64_saturating (p_event_limit p
     + i64_saturating (cap div overage_block_cents * overage_block_events))"

definition policy_outcome :: "int \<Rightarrow> usage_policy \<Rightarrow> outcome" where
  "policy_outcome n p =
     (if n \<le> p_event_limit p then Standard
      else if is_some_and (p_spend_cap_cents p) (\<lambda>cap. n \<le> overage_limit p cap) then Overage
      else if n \<le> courtesy_limit p then Courtesy
      else Sampling)"

definition admission_outcome :: "int \<Rightarrow> usage_policy \<Rightarrow> bool \<Rightarrow> outcome" where
  "admission_outcome n p enforcement_enabled = (if enforcement_enabled then policy_outcome n p else Standard)"

definition enforcement_from_env :: "ustring option \<Rightarrow> bool" where
  "enforcement_from_env v \<longleftrightarrow> is_some_and v (\<lambda>v. eq_ignore_ascii_case v (lit ''true''))"

definition retention_v2_from_env :: "ustring option \<Rightarrow> bool" where
  "retention_v2_from_env v \<longleftrightarrow> is_some_and v (\<lambda>v. eq_ignore_ascii_case v (lit ''true''))"

text \<open>The reported thresholds: 70, 90 and 100 percent, and the end of the courtesy.\<close>

datatype notice_threshold = Percent int | Courtesy_Exhausted

definition threshold :: "int \<Rightarrow> usage_policy \<Rightarrow> outcome \<Rightarrow> notice_threshold option" where
  "threshold n p outcome =
     (if outcome = Sampling then Some Courtesy_Exhausted
      else let percent = n * 100 div p_event_limit p in
        if percent \<ge> 100 then Some (Percent 100)
        else if percent \<ge> 90 then Some (Percent 90)
        else if percent \<ge> 70 then Some (Percent 70)
        else None)"

definition stable_outcome :: "string \<Rightarrow> outcome option" where
  "stable_outcome v =
     (if v = ''standard'' then Some Standard else if v = ''courtesy'' then Some Courtesy
      else if v = ''overage'' then Some Overage else if v = ''sampling'' then Some Sampling else None)"

definition reservoir_selected :: "(byte list \<Rightarrow> byte list) \<Rightarrow> ustring \<Rightarrow> bool" where
  "reservoir_selected sha256 event_id =
     (let digest = sha256 (utf8 event_id) in
      (unat (digest ! 0) * 256 + unat (digest ! 1)) mod raw_reservoir_rate = 0)"

subsection \<open>Changes of a policy\<close>

datatype usage_error = Invalid_Request | Not_Found | Not_Available | Internal_Error

record usage_settings =
  g_spend_cap_cents :: "int option"
  g_retain_all_raw :: bool
  g_normalized_retention_days :: int
  g_raw_retention_days :: int

definition settings_valid :: "usage_settings \<Rightarrow> bool" where
  "settings_valid body \<longleftrightarrow>
     is_none_or (g_spend_cap_cents body) (\<lambda>v. overage_block_cents \<le> v \<and> v \<le> 10000000)
     \<and> 1 \<le> g_normalized_retention_days body \<and> g_normalized_retention_days body \<le> 3650
     \<and> 1 \<le> g_raw_retention_days body \<and> g_raw_retention_days body \<le> 3650"

definition applied_settings :: "usage_settings \<Rightarrow> usage_policy \<Rightarrow> usage_policy" where
  "applied_settings body p =
     p\<lparr>p_version := p_version p + 1, p_spend_cap_cents := g_spend_cap_cents body, p_retain_all_raw := g_retain_all_raw body,
       p_normalized_retention_days := g_normalized_retention_days body, p_raw_retention_days := g_raw_retention_days body\<rparr>"

text \<open>The policy is locked until the end of the transaction, so its version is the one the update expects; \<open>retained\<close>
  is what the project stores.\<close>

definition update_usage :: "usage_settings \<Rightarrow> int \<Rightarrow> usage_policy \<Rightarrow> (usage_error, usage_policy) result" where
  "update_usage body retained p =
     (if \<not> settings_valid body then Inl Invalid_Request
      else if g_normalized_retention_days body > p_normalized_retention_limit_days p
        \<or> g_raw_retention_days body > p_raw_retention_limit_days p then Inl Invalid_Request
      else if g_retain_all_raw body \<and> retained \<ge> p_artifact_storage_limit_bytes p then Inl Invalid_Request
      else if p_spend_cap_cents p \<noteq> g_spend_cap_cents body \<or> p_retain_all_raw p \<noteq> g_retain_all_raw body
        \<or> p_normalized_retention_days p \<noteq> g_normalized_retention_days body
        \<or> p_raw_retention_days p \<noteq> g_raw_retention_days body
      then Inr (applied_settings body p)
      else Inr p)"

lemma update_usage_ok: "update_usage body retained p = Inr p' \<Longrightarrow> policy_ok p \<Longrightarrow> policy_ok p'"
  by (auto simp: update_usage_def settings_valid_def applied_settings_def policy_ok_def overage_block_cents_def
    split: if_splits)

subsection \<open>Limits and alerts agree\<close>

definition severity :: "outcome \<Rightarrow> nat" where
  "severity v = (case v of Standard \<Rightarrow> 0 | Overage \<Rightarrow> 1 | Courtesy \<Rightarrow> 2 | Sampling \<Rightarrow> 3)"

lemma i64_saturating_mono: "a \<le> b \<Longrightarrow> i64_saturating a \<le> i64_saturating b"
  by (simp add: i64_saturating_def i64_max_def)

lemma event_limit_le_courtesy: "policy_ok p \<Longrightarrow> p_event_limit p \<le> courtesy_limit p"
proof -
  assume ok: "policy_ok p"
  then have "0 \<le> p_event_limit p * p_courtesy_percent p" by (auto simp: policy_ok_def zero_le_mult_iff)
  then have "0 \<le> i64_saturating (p_event_limit p * p_courtesy_percent p)" by (simp add: i64_saturating_def i64_max_def)
  moreover have "0 < p_event_limit p" "p_event_limit p \<le> i64_max" using ok by (simp_all add: policy_ok_def)
  ultimately show ?thesis by (auto simp: courtesy_limit_def i64_saturating_def i64_max_def pos_imp_zdiv_nonneg_iff)
qed

lemma percent_reached:
  fixes a b t :: int
  assumes "0 < b"
  shows "a div b \<ge> t \<longleftrightarrow> a \<ge> b * t"
proof
  assume "a div b \<ge> t"
  then have "b * t \<le> b * (a div b)" using assms by simp
  also have "\<dots> \<le> a" using assms by (simp add: minus_mod_eq_mult_div [symmetric])
  finally show "a \<ge> b * t" .
next
  assume "a \<ge> b * t"
  then have "b * t div b \<le> a div b" using assms by (intro zdiv_mono1)
  then show "a div b \<ge> t" using assms by simp
qed

text \<open>The alerts on usage agree with the admission of events. For a valid policy, an alert rule for 70, 90 or 100
  percent is active for a number of events exactly when the admission of the last of them reports that threshold or
  a higher one, and without a paid overage the rule for the end of the courtesy is active exactly when the event is
  admitted for sampling. More events never get a milder outcome, and none is sampled within the limit.\<close>

theorem quota_alerts_agree_with_admission:
  assumes "policy_ok p"
  shows "(t \<in> {70, 90, 100} \<longrightarrow>
      (quota_active t n (p_event_limit p) (p_courtesy_percent p)
        \<longleftrightarrow> (\<exists>reported. threshold n p Standard = Some (Percent reported) \<and> reported \<ge> t)))
    \<and> (p_spend_cap_cents p = None \<longrightarrow>
      (quota_active 101 n (p_event_limit p) (p_courtesy_percent p) \<longleftrightarrow> policy_outcome n p = Sampling))
    \<and> (n \<le> m \<longrightarrow> severity (policy_outcome n p) \<le> severity (policy_outcome m p))
    \<and> (policy_outcome n p = Standard \<longleftrightarrow> n \<le> p_event_limit p)"
proof (intro conjI impI)
  have limit: "0 < p_event_limit p" using assms by (simp add: policy_ok_def)
  note reached = percent_reached [OF limit, of _ "n * 100"]
  show "quota_active t n (p_event_limit p) (p_courtesy_percent p)
        \<longleftrightarrow> (\<exists>reported. threshold n p Standard = Some (Percent reported) \<and> reported \<ge> t)" if "t \<in> {70, 90, 100}"
    using that reached [of 70] reached [of 90] reached [of 100] by (auto simp: quota_active_def threshold_def Let_def)
  have le: "p_event_limit p \<le> courtesy_limit p" by (rule event_limit_le_courtesy [OF assms])
  show "quota_active 101 n (p_event_limit p) (p_courtesy_percent p) \<longleftrightarrow> policy_outcome n p = Sampling"
    if "p_spend_cap_cents p = None"
    using that le by (auto simp: quota_active_def over_courtesy_def policy_outcome_def courtesy_limit_def)
  show "severity (policy_outcome n p) \<le> severity (policy_outcome m p)" if "n \<le> m"
    using that le by (cases "p_spend_cap_cents p") (auto simp: policy_outcome_def severity_def)
  show "policy_outcome n p = Standard \<longleftrightarrow> n \<le> p_event_limit p" by (auto simp: policy_outcome_def)
qed

text \<open>The default policy: 10000 events with a courtesy of twenty percent.\<close>

definition default_policy :: usage_policy where
  "default_policy = \<lparr>p_version = 1, p_event_limit = 10000, p_artifact_storage_limit_bytes = 25000000000,
     p_project_limit = 1, p_normalized_retention_limit_days = 30, p_raw_retention_limit_days = 7,
     p_normalized_retention_days = 30, p_raw_retention_days = 7, p_courtesy_percent = 20, p_spend_cap_cents = None,
     p_retain_all_raw = False\<rparr>"

lemma quota_alerts_agree_with_admission_witness:
  "quota_active 90 9500 10000 20 \<and> quota_active 101 12001 10000 20 \<and> policy_outcome 12001 default_policy = Sampling"
proof -
  have ok: "policy_ok default_policy" by (simp add: policy_ok_def default_policy_def i64_max_def)
  have "\<exists>reported. threshold 9500 default_policy Standard = Some (Percent reported) \<and> reported \<ge> 90"
    by (simp add: threshold_def default_policy_def Let_def)
  moreover have "policy_outcome 12001 default_policy = Sampling" by code_simp
  ultimately show ?thesis
    using quota_alerts_agree_with_admission [OF ok, of 90 9500 9500] quota_alerts_agree_with_admission [OF ok, of 90 12001 12001]
    by (simp add: default_policy_def)
qed

end
