(* ===== verification/Raw_Retention.thy ===== *)
theory Raw_Retention
  imports Usage_Policy
begin

section \<open>Retention of raw crash files (apps/server/src/usage.rs, worker.rs)\<close>

text \<open>
  Which raw crash files are kept, and how the others are deleted: the decision after a crash has been processed,
  the two schedulers of expired files, and the job that deletes a file or restores it when enforcement has been
  switched off meanwhile. The tables hold the columns that these statements use; a job row stands beside its
  idempotency key. Identifiers are unique. Deleting the object in the store is an outcome of the job.
\<close>

record raw_event =
  x_id :: uuid
  x_org :: uuid
  x_project :: uuid
  x_object :: uuid
  x_class :: string
  x_outcome :: outcome
  x_issue :: "uuid option"
  x_release :: "uuid option"
  x_variant :: "ustring option"
  x_received_at :: micros

record raw_object =
  y_id :: uuid
  y_org :: uuid
  y_project :: uuid
  y_state :: string
  y_delete_after :: "micros option"

record issue_row =
  i_id :: uuid
  i_org :: uuid
  i_project :: uuid
  i_event_count :: int
  i_representative :: "uuid option"

record raw_tables =
  raw_events :: "raw_event list"
  raw_objects :: "raw_object list"
  raw_issues :: "issue_row list"
  raw_jobs :: "(ustring \<times> job_row) list"

definition retention_batch_size :: nat where "retention_batch_size = 5000"

subsection \<open>Jobs that delete files\<close>

definition deletion_key :: "uuid \<Rightarrow> ustring" where "deletion_key object = lit ''delete_raw:'' @ object"

definition deletion_job :: "micros \<Rightarrow> uuid \<Rightarrow> uuid \<Rightarrow> uuid \<Rightarrow> uuid \<Rightarrow> job_row" where
  "deletion_job now i org project event =
     \<lparr>j_id = i, j_org = org, j_project = project, j_event = Some event, j_upload = None, j_cache = None,
      j_type = ''delete_raw'', j_state = Pending, j_priority = 50, j_attempt = 0, j_max_attempt = 5,
      j_resource_failures = 0, j_available_at = now, j_created_at = now, j_lease_owner = None, j_lease_token = None,
      j_lease_expires_at = None, j_heartbeat_at = None, j_failure_code = None, j_completed_at = None\<rparr>"

definition event_in_project :: "uuid \<Rightarrow> uuid \<Rightarrow> uuid \<Rightarrow> raw_event \<Rightarrow> bool" where
  "event_in_project org project i e \<longleftrightarrow> x_id e = i \<and> x_org e = org \<and> x_project e = project"

definition set_retention_class :: "uuid \<Rightarrow> uuid \<Rightarrow> uuid \<Rightarrow> string \<Rightarrow> raw_tables \<Rightarrow> raw_tables" where
  "set_retention_class org project event class s =
     s\<lparr>raw_events := update_where (event_in_project org project event) (\<lambda>e. e\<lparr>x_class := class\<rparr>) (raw_events s)\<rparr>"

definition stored_object :: "uuid \<Rightarrow> uuid \<Rightarrow> uuid \<Rightarrow> raw_object \<Rightarrow> bool" where
  "stored_object org project i y \<longleftrightarrow> y_id y = i \<and> y_org y = org \<and> y_project y = project \<and> y_state y = ''stored''"

text \<open>\<^verbatim>\<open>ON CONFLICT (idempotency_key) DO NOTHING\<close>.\<close>

definition enqueue_raw_deletion ::
  "micros \<Rightarrow> uuid \<Rightarrow> uuid \<Rightarrow> uuid \<Rightarrow> uuid \<Rightarrow> uuid \<Rightarrow> string \<Rightarrow> raw_tables \<Rightarrow> raw_tables" where
  "enqueue_raw_deletion now new_id org project event object class s =
     (let p = stored_object org project object in
      if affected p (raw_objects s) = 0 then s
      else
        let s = set_retention_class org project event class
              (s\<lparr>raw_objects := update_where p (\<lambda>y. y\<lparr>y_state := ''deleting''\<rparr>) (raw_objects s)\<rparr>)
        in if list_ex (\<lambda>(k, _). k = deletion_key object) (raw_jobs s) then s
           else s\<lparr>raw_jobs := (deletion_key object, deletion_job now new_id org project event) # raw_jobs s\<rparr>)"

subsection \<open>The decision after processing\<close>

text \<open>What the decision reads beside the row: the three newest kept files of the issue and release, and whether no
  event of the issue with the same variant came before.\<close>

definition stored :: "raw_tables \<Rightarrow> raw_event \<Rightarrow> bool" where
  "stored s e \<longleftrightarrow> list_ex (stored_object (x_org e) (x_project e) (x_object e)) (raw_objects s)"

definition arrival :: "raw_event \<Rightarrow> micros \<times> uuid" where "arrival e = (x_received_at e, x_id e)"

definition variant_first :: "raw_tables \<Rightarrow> raw_event \<Rightarrow> bool" where
  "variant_first s e \<longleftrightarrow>
     \<not> list_ex (\<lambda>prior. x_org prior = x_org e \<and> x_project prior = x_project e \<and> x_issue prior = x_issue e
          \<and> x_variant e \<noteq> None \<and> x_variant prior = x_variant e \<and> arrival prior < arrival e) (raw_events s)"

definition recent :: "raw_tables \<Rightarrow> raw_event \<Rightarrow> raw_event list" where
  "recent s e =
     take 3 (rev (sort_key arrival (filter (\<lambda>r. x_org r = x_org e \<and> x_project r = x_project e \<and> x_issue r = x_issue e
        \<and> x_release r = x_release e \<and> x_class r = ''recent'' \<and> stored s r) (raw_events s))))"

definition schedule_raw_retention ::
  "(byte list \<Rightarrow> byte list) \<Rightarrow> micros \<Rightarrow> uuid \<Rightarrow> bool \<Rightarrow> usage_policy \<Rightarrow> int \<Rightarrow> uuid \<Rightarrow> uuid \<Rightarrow> uuid \<Rightarrow> raw_tables
     \<Rightarrow> (usage_error, raw_tables) result" where
  "schedule_raw_retention sha256 now new_id enforce policy retained org project event s =
     bindR (ok_or (find (event_in_project org project event) (raw_events s)) Not_Found) (\<lambda>e.
     let keep = (\<lambda>class. Inr (set_retention_class org project event class s)) in
     if \<not> stored s e then Inr s
     else if x_class e \<noteq> ''pending'' then Inr s
     else if \<not> enforce \<or> x_outcome e \<noteq> Sampling then keep ''standard''
     else if p_retain_all_raw policy \<and> retained \<le> p_artifact_storage_limit_bytes policy then keep ''standard''
     else case x_issue e of
       None \<Rightarrow> keep ''novel''
     | Some issue \<Rightarrow>
         bindR (ok_or (find (\<lambda>i. i_id i = issue \<and> i_org i = org \<and> i_project i = project) (raw_issues s)) Not_Available) (\<lambda>i.
         if i_event_count i \<le> 1 then keep ''novel''
         else if i_representative i = Some event then keep ''representative''
         else if variant_first s e then keep ''variant''
         else if length (recent s e) < 3 then keep ''recent''
         else
           let oldest = last (recent s e);
               newer = arrival e > arrival oldest;
               aged = (if newer then oldest else e);
               s' = (if reservoir_selected sha256 (x_id aged)
                     then set_retention_class org project (x_id aged) ''reservoir'' s
                     else enqueue_raw_deletion now new_id org project (x_id aged) (x_object aged) ''deleting'' s)
           in Inr (if newer then set_retention_class org project event ''recent'' s' else s')))"

subsection \<open>The job\<close>

definition lifecycle :: "raw_tables \<Rightarrow> raw_event \<Rightarrow> string option" where
  "lifecycle s e = map_option y_state
     (find (\<lambda>y. y_id y = x_object e \<and> y_org y = x_org e \<and> y_project y = x_project e) (raw_objects s))"

text \<open>Its first transaction: a file that is to be deleted for the quota only is kept when enforcement is off. The
  lease of the job is a premise of its use here.\<close>

definition restore_raw :: "micros \<Rightarrow> uuid \<Rightarrow> raw_event \<Rightarrow> raw_tables \<Rightarrow> raw_tables option" where
  "restore_raw now job e s =
     (if lifecycle s e = Some ''deleting'' \<and> x_class e = ''deleting'' then
        Some (s\<lparr>raw_objects := update_where
              (\<lambda>y. y_id y = x_object e \<and> y_org y = x_org e \<and> y_project y = x_project e \<and> y_state y = ''deleting'')
              (\<lambda>y. y\<lparr>y_state := ''stored''\<rparr>) (raw_objects s),
            raw_events := update_where (\<lambda>r. event_in_project (x_org e) (x_project e) (x_id e) r \<and> x_class r = ''deleting'')
              (\<lambda>r. r\<lparr>x_class := ''standard''\<rparr>) (raw_events s),
            raw_jobs := map (\<lambda>(k, r). (k, if j_id r = job then complete_row now None r else r)) (raw_jobs s)\<rparr>)
      else None)"

text \<open>Its last one, for a file that has been deleted.\<close>

definition discard_raw :: "micros \<Rightarrow> uuid \<Rightarrow> raw_event \<Rightarrow> raw_tables \<Rightarrow> raw_tables" where
  "discard_raw now job e s =
     s\<lparr>raw_objects := update_where
         (\<lambda>y. y_id y = x_object e \<and> y_org y = x_org e \<and> y_project y = x_project e \<and> y_state y \<in> {''deleting'', ''discarded''})
         (\<lambda>y. y\<lparr>y_state := ''discarded''\<rparr>) (raw_objects s),
       raw_events := update_where (event_in_project (x_org e) (x_project e) (x_id e))
         (\<lambda>r. r\<lparr>x_class := (if x_class r = ''expired'' then ''expired'' else ''discarded'')\<rparr>) (raw_events s),
       raw_jobs := map (\<lambda>(k, r). (k, if j_id r = job then complete_row now None r else r)) (raw_jobs s)\<rparr>"

subsection \<open>Schedulers of expired files\<close>

definition expired_legacy :: "micros \<Rightarrow> (uuid \<times> uuid \<Rightarrow> int) \<Rightarrow> raw_tables \<Rightarrow> raw_event list" where
  "expired_legacy now retention_days s =
     take 100 (sort_key arrival (filter (\<lambda>e. stored s e
        \<and> x_received_at e < now - seconds (retention_days (x_org e, x_project e) * 86400)) (raw_events s)))"

definition schedule_expired_raw_legacy ::
  "micros \<Rightarrow> (uuid \<Rightarrow> uuid) \<Rightarrow> (uuid \<times> uuid \<Rightarrow> int) \<Rightarrow> raw_tables \<Rightarrow> raw_tables" where
  "schedule_expired_raw_legacy now new_id retention_days s =
     fold (\<lambda>e. enqueue_raw_deletion now (new_id (x_id e)) (x_org e) (x_project e) (x_id e) (x_object e) ''expired'')
       (expired_legacy now retention_days s) s"

text \<open>The constraint \<^verbatim>\<open>jobs_completion_check\<close>.\<close>

definition completion_check :: "job_row \<Rightarrow> bool" where
  "completion_check r \<longleftrightarrow>
     j_state r \<in> {Completed, Failed, Dead} \<and> j_completed_at r \<noteq> None
     \<or> j_state r \<in> {Pending, Leased} \<and> j_completed_at r = None"

definition due_objects :: "micros \<Rightarrow> nat \<Rightarrow> uuid list \<Rightarrow> raw_tables \<Rightarrow> raw_object list" where
  "due_objects now batch locked s =
     take batch (sort_key (\<lambda>y. (the (y_delete_after y), y_id y))
       (filter (\<lambda>y. y_state y = ''stored'' \<and> is_some_and (y_delete_after y) (\<lambda>t. t \<le> now) \<and> y_id y \<notin> set locked)
         (raw_objects s)))"

text \<open>The due objects of reconciled projects with their events; the statement claims these.\<close>

definition due_events :: "micros \<Rightarrow> nat \<Rightarrow> uuid list \<Rightarrow> (uuid \<times> uuid) list \<Rightarrow> raw_tables \<Rightarrow> raw_event list" where
  "due_events now batch locked reconciled s =
     filter (\<lambda>e. list_ex (\<lambda>y. y_id y = x_object e \<and> y_org y = x_org e \<and> y_project y = x_project e
         \<and> (y_org y, y_project y) \<in> set reconciled) (due_objects now batch locked s)) (raw_events s)"

definition requeue_deletion :: "micros \<Rightarrow> job_row \<Rightarrow> job_row" where
  "requeue_deletion now r = r\<lparr>j_state := Pending, j_attempt := 0, j_available_at := now, j_lease_owner := None,
     j_lease_token := None, j_lease_expires_at := None\<rparr>"

text \<open>The upsert of the job of one claimed event; a row that breaks the constraint is an error.\<close>

definition upsert_deletion ::
  "micros \<Rightarrow> (uuid \<Rightarrow> uuid) \<Rightarrow> raw_event \<Rightarrow> (ustring \<times> job_row) list \<Rightarrow> (scheduler_error, (ustring \<times> job_row) list) result" where
  "upsert_deletion now new_id e rows =
     (let key = deletion_key (x_object e) in
      if list_ex (\<lambda>(k, _). k = key) rows then
        let again = (\<lambda>(k, r). k = key \<and> j_event r = Some (x_id e) \<and> j_state r \<in> {Completed, Failed, Dead});
            rows' = update_where again (\<lambda>(k, r). (k, requeue_deletion now r)) rows
        in if list_all (\<lambda>(k, r). again (k, r) \<longrightarrow> completion_check (requeue_deletion now r)) rows
           then Inr rows' else Inl Database
      else Inr ((key, deletion_job now (new_id (x_id e)) (x_org e) (x_project e) (x_id e)) # rows))"

definition schedule_expired_raw_v2_batch ::
  "micros \<Rightarrow> (uuid \<Rightarrow> uuid) \<Rightarrow> nat \<Rightarrow> uuid list \<Rightarrow> (uuid \<times> uuid) list \<Rightarrow> raw_tables
     \<Rightarrow> (scheduler_error, nat \<times> raw_tables) result" where
  "schedule_expired_raw_v2_batch now new_id batch locked reconciled s =
     (let claimed = due_events now batch locked reconciled s in
      bindR (fold_result (upsert_deletion now new_id) claimed (raw_jobs s)) (\<lambda>rows.
      Inr (length claimed,
        s\<lparr>raw_objects := update_where (\<lambda>y. list_ex (\<lambda>e. y_id y = x_object e \<and> y_org y = x_org e \<and> y_project y = x_project e) claimed)
            (\<lambda>y. y\<lparr>y_state := ''deleting''\<rparr>) (raw_objects s),
          raw_events := update_where (\<lambda>r. list_ex (\<lambda>e. event_in_project (x_org e) (x_project e) (x_id e) r) claimed)
            (\<lambda>r. r\<lparr>x_class := ''expired''\<rparr>) (raw_events s),
          raw_jobs := rows\<rparr>)))"

subsection \<open>A restored file\<close>

lemma requeue_breaks_check:
  "j_state r \<in> {Completed, Failed, Dead} \<Longrightarrow> completion_check r \<Longrightarrow> \<not> completion_check (requeue_deletion now r)"
  by (auto simp: completion_check_def requeue_deletion_def)

definition ended_deletion :: "raw_event \<Rightarrow> ustring \<times> job_row \<Rightarrow> bool" where
  "ended_deletion e = (\<lambda>(k, r). k = deletion_key (x_object e) \<and> j_event r = Some (x_id e)
     \<and> j_state r \<in> {Completed, Failed, Dead} \<and> completion_check r)"

lemma upsert_ended:
  assumes "ended_deletion e kr" "kr \<in> set rows"
  shows "upsert_deletion now new_id e rows = Inl Database"
proof -
  obtain k r where kr: "kr = (k, r)" by (cases kr)
  with assms requeue_breaks_check [of r now] show ?thesis
    by (auto simp: upsert_deletion_def ended_deletion_def Let_def list_ex_iff list_all_iff)
qed

text \<open>An upsert that succeeds leaves the ended jobs as they are.\<close>

lemma upsert_keeps_ended:
  assumes "upsert_deletion now new_id e rows = Inr rows'" "(k, r) \<in> set rows" "completion_check r"
  shows "(k, r) \<in> set rows'"
proof -
  let ?key = "deletion_key (x_object e)"
  let ?again = "\<lambda>(k, r). k = ?key \<and> j_event r = Some (x_id e) \<and> j_state r \<in> {Completed, Failed, Dead}"
  consider "rows' = (?key, deletion_job now (new_id (x_id e)) (x_org e) (x_project e) (x_id e)) # rows"
    | "rows' = update_where ?again (\<lambda>(k, r). (k, requeue_deletion now r)) rows"
      "list_all (\<lambda>(k, r). ?again (k, r) \<longrightarrow> completion_check (requeue_deletion now r)) rows"
    using assms(1) by (auto simp: upsert_deletion_def Let_def split: if_splits)
  then show ?thesis
  proof cases
    case 2
    have "\<not> ?again (k, r)"
      using 2(2) assms(2,3) requeue_breaks_check [of r now] by (auto simp: list_all_iff)
    then show ?thesis unfolding 2(1) using assms(2) by (force simp: update_where_def)
  qed (use assms(2) in simp)
qed

lemma fold_upserts_ended:
  assumes "e \<in> set es" "(k, r) \<in> set rows" "ended_deletion e (k, r)"
  shows "fold_result (upsert_deletion now new_id) es rows = Inl Database"
  using assms
proof (induction es arbitrary: rows)
  case (Cons h es)
  have check: "completion_check r" using Cons.prems(3) by (simp add: ended_deletion_def)
  show ?case
  proof (cases "upsert_deletion now new_id h rows")
    case (Inl err)
    then show ?thesis by (cases err) simp
  next
    case (Inr rows')
    with upsert_ended [OF Cons.prems(3,2)] have "h \<noteq> e" by auto
    then have "e \<in> set es" using Cons.prems(1) by simp
    with Inr Cons.IH upsert_keeps_ended [OF Inr Cons.prems(2) check] Cons.prems(3) show ?thesis by simp
  qed
qed simp

text \<open>C36: The deletion of a raw file cannot be scheduled again once its job has ended, for instance because the file
  was restored. The scheduler's batch fails as a whole, whatever else is due in it, because putting the ended job
  back to pending keeps its time of completion, which breaks the constraint of the table; and the other path marks
  the file as being deleted without any job that deletes it.\<close>

theorem ended_deletion_never_rescheduled:
  assumes "e \<in> set (due_events now batch locked reconciled s)" "(k, r) \<in> set (raw_jobs s)" "ended_deletion e (k, r)"
  shows "schedule_expired_raw_v2_batch now new_id batch locked reconciled s = Inl Database
    \<and> raw_jobs (enqueue_raw_deletion now i (x_org e) (x_project e) (x_id e) (x_object e) class s) = raw_jobs s"
proof
  show "schedule_expired_raw_v2_batch now new_id batch locked reconciled s = Inl Database"
    using fold_upserts_ended [OF assms] by (simp add: schedule_expired_raw_v2_batch_def Let_def)
  have "list_ex (\<lambda>(k, _). k = deletion_key (x_object e)) (raw_jobs s)"
    using assms(2,3) by (force simp: list_ex_iff ended_deletion_def)
  then show "raw_jobs (enqueue_raw_deletion now i (x_org e) (x_project e) (x_id e) (x_object e) class s) = raw_jobs s"
    by (simp add: enqueue_raw_deletion_def set_retention_class_def Let_def)
qed

text \<open>A file is to be deleted for the quota, restored because enforcement was switched off, and due later.\<close>

definition sampled_event :: raw_event where
  "sampled_event = \<lparr>x_id = [1], x_org = [2], x_project = [3], x_object = [4], x_class = ''pending'', x_outcome = Sampling,
     x_issue = None, x_release = None, x_variant = None, x_received_at = 0\<rparr>"

definition sampled_tables :: raw_tables where
  "sampled_tables = \<lparr>raw_events = [sampled_event], raw_objects = [\<lparr>y_id = [4], y_org = [2], y_project = [3],
     y_state = ''stored'', y_delete_after = Some 100\<rparr>], raw_issues = [], raw_jobs = []\<rparr>"

definition restored_tables :: raw_tables where
  "restored_tables =
     the (restore_raw 50 [9] (sampled_event\<lparr>x_class := ''deleting''\<rparr>)
       (enqueue_raw_deletion 10 [9] [2] [3] [1] [4] ''deleting'' sampled_tables))"

lemma ended_deletion_never_rescheduled_witness:
  "schedule_expired_raw_v2_batch 200 id 5000 [] [([2], [3])] restored_tables = Inl Database"
proof -
  have due: "sampled_event\<lparr>x_class := ''standard''\<rparr> \<in> set (due_events 200 5000 [] [([2], [3])] restored_tables)" by code_simp
  have "map (\<lambda>(k, r). (k, j_event r, j_state r, j_completed_at r)) (raw_jobs restored_tables)
      = [(deletion_key [4], Some [1], Completed, Some 50)]" by code_simp
  then obtain r where r: "(deletion_key [4], r) \<in> set (raw_jobs restored_tables)" "j_event r = Some [1]"
    "j_state r = Completed" "j_completed_at r = Some 50"
    by (cases "raw_jobs restored_tables") auto
  have "ended_deletion (sampled_event\<lparr>x_class := ''standard''\<rparr>) (deletion_key [4], r)"
    using r by (simp add: ended_deletion_def sampled_event_def completion_check_def)
  from ended_deletion_never_rescheduled [OF due r(1) this] show ?thesis by simp
qed

end
