(* ===== verification/Issue_Rollups.thy ===== *)
theory Issue_Rollups
  imports Grouping Job_Lifecycle
begin

section \<open>Issues and their rollups (apps/server/src/worker.rs)\<close>

text \<open>
  The publication of a crash result assigns the event to an issue and keeps three rollups of the events of an
  issue: the counts of the issue itself, of its variants (\<^verbatim>\<open>issue_variants\<close>) and of its releases
  (\<^verbatim>\<open>issue_releases\<close>). Each is updated by the difference that one event makes; \<^verbatim>\<open>repair_issue\<close> computes them
  anew. The tables are those of one project: every statement names the organization and the project of its
  job. A transaction is a function from the tables to an error or the tables it commits; the transactions
  lock the rows of the issue and of the rollups they change and are steps of their own. The columns that are
  only written (\<^verbatim>\<open>updated_at\<close>, \<^verbatim>\<open>grouped_at\<close>) are left out.
\<close>

definition fingerprint_algorithm :: string where "fingerprint_algorithm = ''stack''"
definition fingerprint_version :: int where "fingerprint_version = 1"

subsection \<open>Tables\<close>

datatype mapping_state = MapPending | Matched | MissingRelease | Ambiguous
datatype grouping_state = GroupPending | GroupDisabled | GroupInsufficient | GroupDone

text \<open>The columns of \<^verbatim>\<open>crash_events\<close> that grouping reads and writes.\<close>

record crash_row =
  ce_id :: uuid
  ce_received :: micros
  ce_release :: "uuid option"
  ce_mapping :: mapping_state
  ce_grouping :: grouping_state
  ce_algorithm :: "string option"
  ce_version :: "int option"
  ce_fingerprint :: "ustring option"
  ce_variant :: "ustring option"
  ce_quality :: "int option"
  ce_issue :: "uuid option"

datatype issue_status = Open | Resolved
datatype regression = NewIssue | Ongoing | ResolvedIn | Regressed | Unknown

record issue_rec =
  i_id :: uuid
  i_algorithm :: string
  i_version :: int
  i_fingerprint :: ustring
  i_title :: ustring
  i_status :: issue_status
  i_regression :: regression
  i_first_seen :: micros
  i_last_seen :: micros
  i_count :: int
  i_representative :: "uuid option"
  i_first_release :: "uuid option"
  i_last_release :: "uuid option"
  i_resolved_in :: "uuid option"
  i_resolved_at :: "micros option"

text \<open>A row of \<^verbatim>\<open>issue_variants\<close> or \<^verbatim>\<open>issue_releases\<close>, which have the same columns; the key is the fingerprint of
  the variant or the release.\<close>

record member_row =
  u_issue :: uuid
  u_key :: ustring
  u_first :: micros
  u_last :: micros
  u_count :: int
  u_representative :: uuid

record release_rec =
  rel_id :: uuid
  rel_version :: ustring
  rel_platform :: ustring
  rel_architecture :: ustring
  rel_configuration :: ustring
  rel_built :: "micros option"

record issue_tables =
  crashes :: "crash_row list"
  issues :: "issue_rec list"
  variants :: "member_row list"
  memberships :: "member_row list"
  releases :: "release_rec list"
  release_candidates :: "(uuid \<times> uuid) list"

type_synonym 'a issue_transaction = "issue_tables \<Rightarrow> (job_error, 'a \<times> issue_tables) result"

subsection \<open>Aggregates\<close>

text \<open>\<^verbatim>\<open>ORDER BY grouping_quality DESC, received_at, id\<close>; nulls come first in descending order.\<close>

definition rank :: "crash_row \<Rightarrow> (nat \<times> int) \<times> micros \<times> uuid" where
  "rank e = (case ce_quality e of None \<Rightarrow> (0, 0) | Some q \<Rightarrow> (1, - q), ce_received e, ce_id e)"

text \<open>The identifier of the first event in this order (\<^verbatim>\<open>LIMIT 1\<close>, and \<^verbatim>\<open>(array_agg(...))[1]\<close>).\<close>

definition representative :: "crash_row list \<Rightarrow> uuid" where
  "representative es = snd (snd (Min (set (map rank es))))"

definition first_seen :: "crash_row list \<Rightarrow> micros" where "first_seen es = Min (set (map ce_received es))"
definition last_seen :: "crash_row list \<Rightarrow> micros" where "last_seen es = Max (set (map ce_received es))"

subsection \<open>Events, releases\<close>

definition crash_of :: "uuid \<Rightarrow> issue_tables \<Rightarrow> crash_row option" where
  "crash_of event s = find (\<lambda>e. ce_id e = event) (crashes s)"

definition update_crash ::
  "(crash_row \<Rightarrow> bool) \<Rightarrow> (crash_row \<Rightarrow> crash_row) \<Rightarrow> issue_tables \<Rightarrow> (job_error, issue_tables) result" where
  "update_crash p f s =
     (if affected p (crashes s) = 1 then Inr (s\<lparr>crashes := update_where p f (crashes s)\<rparr>) else Inl LostLease)"

text \<open>\<^verbatim>\<open>struct ExistingGrouping\<close> is the row of the event.\<close>

definition lock_event :: "uuid \<Rightarrow> issue_tables \<Rightarrow> (job_error, crash_row) result" where
  "lock_event event s = ok_or (crash_of event s) LostLease"

text \<open>\<^verbatim>\<open>ReleaseResolution\<close>, given by its candidates.\<close>

definition resolution_state :: "uuid list \<Rightarrow> mapping_state" where
  "resolution_state cs = (case length cs of 0 \<Rightarrow> MissingRelease | Suc 0 \<Rightarrow> Matched | _ \<Rightarrow> Ambiguous)"

fun matched_id :: "uuid list \<Rightarrow> uuid option" where
  "matched_id [release] = Some release"
| "matched_id _ = None"

definition record_release_mapping :: "uuid \<Rightarrow> uuid list \<Rightarrow> issue_tables \<Rightarrow> (job_error, issue_tables) result" where
  "record_release_mapping event cs s =
     (let kept = filter (\<lambda>(e, _). e \<noteq> event) (release_candidates s)
      in update_crash (\<lambda>e. ce_id e = event)
           (\<lambda>e. e\<lparr>ce_release := matched_id cs, ce_mapping := resolution_state cs\<rparr>)
           (s\<lparr>release_candidates := kept @ map (Pair event) (remdups cs)\<rparr>))"

subsection \<open>Rollups\<close>

definition member_key :: "member_row \<Rightarrow> uuid \<times> ustring" where
  "member_key m = (u_issue m, u_key m)"

text \<open>The row that is inserted for one event.\<close>

definition single_member :: "uuid \<Rightarrow> ustring \<Rightarrow> crash_row \<Rightarrow> member_row" where
  "single_member issue key e =
     \<lparr>u_issue = issue, u_key = key, u_first = ce_received e, u_last = ce_received e, u_count = 1, u_representative = ce_id e\<rparr>"

text \<open>\<^verbatim>\<open>ON CONFLICT ... DO UPDATE\<close>: the representative is the first of the stored and the new one.\<close>

definition merge_member :: "crash_row list \<Rightarrow> member_row \<Rightarrow> member_row \<Rightarrow> member_row" where
  "merge_member es new m =
     m\<lparr>u_first := min (u_first m) (u_first new), u_last := max (u_last m) (u_last new), u_count := u_count m + 1,
       u_representative := representative (filter (\<lambda>e. ce_id e \<in> {u_representative m, u_representative new}) es)\<rparr>"

definition upsert_member :: "crash_row list \<Rightarrow> member_row \<Rightarrow> member_row list \<Rightarrow> member_row list" where
  "upsert_member es new ms =
     (if list_ex (\<lambda>m. member_key m = member_key new) ms
      then update_where (\<lambda>m. member_key m = member_key new) (merge_member es new) ms
      else ms @ [new])"

subsection \<open>Assignment to an issue\<close>

text \<open>\<^verbatim>\<open>enum GroupingPublication\<close>.\<close>

datatype grouping_choice = Disabled | TooLittle | GroupedAs fingerprint_data

definition grouping_publication ::
  "(byte list \<Rightarrow> byte list) \<Rightarrow> (uchar \<Rightarrow> bool) \<Rightarrow> bool \<Rightarrow> json \<Rightarrow> (job_error, grouping_choice) result" where
  "grouping_publication sha256 is_punctuation enabled result =
     (if \<not> enabled then Inr Disabled
      else case fingerprint sha256 is_punctuation result of
        Inl _ \<Rightarrow> Inl (Deterministic ''processor_output_invalid'')
      | Inr (Grouped f) \<Rightarrow> Inr (GroupedAs f)
      | Inr Insufficient \<Rightarrow> Inr TooLittle)"

record grouping_assignment =
  ga_issue :: uuid
  ga_first_assignment :: bool
  ga_previous_release :: "uuid option"
  ga_received :: micros

definition issue_key :: "issue_rec \<Rightarrow> string \<times> int \<times> ustring" where
  "issue_key i = (i_algorithm i, i_version i, i_fingerprint i)"

definition new_issue :: "uuid \<Rightarrow> fingerprint_data \<Rightarrow> crash_row \<Rightarrow> issue_rec" where
  "new_issue fresh f e =
     \<lparr>i_id = fresh, i_algorithm = fingerprint_algorithm, i_version = fingerprint_version,
      i_fingerprint = issue_fingerprint f, i_title = fp_title f, i_status = Open, i_regression = Unknown,
      i_first_seen = ce_received e, i_last_seen = ce_received e, i_count = 1, i_representative = Some (ce_id e),
      i_first_release = None, i_last_release = None, i_resolved_in = None, i_resolved_at = None\<rparr>"

text \<open>\<^verbatim>\<open>COALESCE(..., true)\<close> of the comparison: unknown when a quality is null.\<close>

definition better :: "crash_row \<Rightarrow> crash_row \<Rightarrow> bool" where
  "better e r = (case (ce_quality e, ce_quality r) of
     (Some a, Some b) \<Rightarrow> a > b \<or> (a = b \<and> (ce_received e < ce_received r
        \<or> (ce_received e = ce_received r \<and> ce_id e < ce_id r)))
   | _ \<Rightarrow> True)"

definition count_event :: "crash_row list \<Rightarrow> crash_row \<Rightarrow> issue_rec \<Rightarrow> issue_rec" where
  "count_event es e i =
     i\<lparr>i_first_seen := min (i_first_seen i) (ce_received e), i_last_seen := max (i_last_seen i) (ce_received e),
       i_count := i_count i + 1,
       i_representative :=
         (case i_representative i of
            None \<Rightarrow> Some (ce_id e)
          | Some r \<Rightarrow> (case find (\<lambda>x. ce_id x = r) es of
               None \<Rightarrow> Some (ce_id e)
             | Some x \<Rightarrow> if better e x then Some (ce_id e) else Some r))\<rparr>"

definition group_crash :: "uuid \<Rightarrow> fingerprint_data \<Rightarrow> crash_row \<Rightarrow> crash_row" where
  "group_crash issue f e =
     e\<lparr>ce_issue := Some issue, ce_grouping := GroupDone, ce_algorithm := Some fingerprint_algorithm,
       ce_version := Some fingerprint_version, ce_fingerprint := Some (issue_fingerprint f),
       ce_variant := Some (variant_fingerprint f), ce_quality := Some (quality f)\<rparr>"

definition update_issue ::
  "uuid \<Rightarrow> (issue_rec \<Rightarrow> issue_rec) \<Rightarrow> issue_tables \<Rightarrow> (job_error, issue_tables) result" where
  "update_issue issue f s =
     (if affected (\<lambda>i. i_id i = issue) (issues s) = 1
      then Inr (s\<lparr>issues := update_where (\<lambda>i. i_id i = issue) f (issues s)\<rparr>)
      else Inl (Deterministic ''issue_missing''))"

text \<open>The first two statements: the issue with the fingerprint, inserted with the fresh identifier unless it exists;
  the flag tells whether it was.\<close>

definition issue_for :: "uuid \<Rightarrow> fingerprint_data \<Rightarrow> crash_row \<Rightarrow> issue_tables \<Rightarrow> uuid \<times> bool \<times> issue_tables" where
  "issue_for fresh f e s =
     (case find (\<lambda>i. issue_key i = (fingerprint_algorithm, fingerprint_version, issue_fingerprint f)) (issues s) of
        Some i \<Rightarrow> (i_id i, False, s)
      | None \<Rightarrow> (fresh, True, s\<lparr>issues := issues s @ [new_issue fresh f e]\<rparr>))"

definition assign_issue :: "uuid \<Rightarrow> uuid \<Rightarrow> fingerprint_data \<Rightarrow> micros \<Rightarrow> grouping_assignment issue_transaction" where
  "assign_issue fresh event f received s =
     bindR (ok_or (crash_of event s) LostLease) (\<lambda>e.
     let (issue, new, s) = issue_for fresh f e s in
     bindR (update_crash (\<lambda>e. ce_id e = event \<and> ce_grouping e \<noteq> GroupDone) (group_crash issue f) s) (\<lambda>s.
     let e = group_crash issue f e in
     bindR (if new then Inr s else update_issue issue (count_event (crashes s) e) s) (\<lambda>s.
     let s = s\<lparr>variants := upsert_member (crashes s) (single_member issue (variant_fingerprint f) e) (variants s)\<rparr> in
     Inr (\<lparr>ga_issue = issue, ga_first_assignment = True, ga_previous_release = None, ga_received = received\<rparr>, s))))"

definition ungroup_crash :: "grouping_state \<Rightarrow> crash_row \<Rightarrow> crash_row" where
  "ungroup_crash state e =
     e\<lparr>ce_grouping := state, ce_algorithm := Some fingerprint_algorithm, ce_version := Some fingerprint_version,
       ce_issue := None, ce_fingerprint := None, ce_variant := None, ce_quality := None\<rparr>"

text \<open>An event that has been grouped stays in its issue.\<close>

definition apply_grouping ::
  "uuid \<Rightarrow> uuid \<Rightarrow> crash_row \<Rightarrow> grouping_choice \<Rightarrow> grouping_assignment option issue_transaction" where
  "apply_grouping fresh event existing grouping s =
     (if ce_grouping existing = GroupDone then
        bindR (ok_or (ce_issue existing) (Deterministic ''grouping_state_invalid'')) (\<lambda>issue.
        Inr (Some \<lparr>ga_issue = issue, ga_first_assignment = False, ga_previous_release = ce_release existing,
          ga_received = ce_received existing\<rparr>, s))
      else
        let unassigned = (\<lambda>state.
          bindR (update_crash (\<lambda>e. ce_id e = event \<and> ce_grouping e \<noteq> GroupDone) (ungroup_crash state) s) (\<lambda>s.
          Inr (None, s))) in
        case grouping of
          Disabled \<Rightarrow> unassigned GroupDisabled
        | TooLittle \<Rightarrow> unassigned GroupInsufficient
        | GroupedAs f \<Rightarrow>
            bindR (assign_issue fresh event f (ce_received existing) s) (\<lambda>(a, s). Inr (Some a, s)))"

subsection \<open>Releases of an issue\<close>

definition rollup_invalid :: job_error where "rollup_invalid = Deterministic ''issue_rollup_invalid''"

definition add_release_membership :: "uuid \<Rightarrow> uuid \<Rightarrow> uuid \<Rightarrow> issue_tables \<Rightarrow> (job_error, issue_tables) result" where
  "add_release_membership event issue release s =
     (case filter (\<lambda>e. ce_id e = event \<and> ce_issue e = Some issue \<and> ce_release e = Some release \<and> ce_mapping e = Matched)
        (crashes s) of
        [e] \<Rightarrow> Inr (s\<lparr>memberships := upsert_member (crashes s) (single_member issue release e) (memberships s)\<rparr>)
      | _ \<Rightarrow> Inl rollup_invalid)"

text \<open>The events that the statements of a removal select.\<close>

definition release_members :: "uuid \<Rightarrow> uuid \<Rightarrow> issue_tables \<Rightarrow> crash_row list" where
  "release_members issue release s =
     filter (\<lambda>e. ce_issue e = Some issue \<and> ce_release e = Some release \<and> ce_grouping e = GroupDone
       \<and> ce_mapping e = Matched) (crashes s)"

definition remove_release_membership ::
  "uuid \<Rightarrow> uuid \<Rightarrow> uuid \<Rightarrow> micros \<Rightarrow> issue_tables \<Rightarrow> (job_error, issue_tables) result" where
  "remove_release_membership event issue release received s =
     (let here = (\<lambda>m. member_key m = (issue, release)) in
      if list_ex (\<lambda>m. here m \<and> u_count m = 1) (memberships s)
      then Inr (s\<lparr>memberships := filter (\<lambda>m. \<not> (here m \<and> u_count m = 1)) (memberships s)\<rparr>)
      else bindR (ok_or (find (\<lambda>m. here m \<and> u_count m > 1) (memberships s)) rollup_invalid) (\<lambda>m.
        let s = s\<lparr>memberships := update_where (\<lambda>m. here m \<and> u_count m > 1) (\<lambda>m. m\<lparr>u_count := u_count m - 1\<rparr>)
                   (memberships s)\<rparr>;
            es = release_members issue release s in
        if u_representative m \<noteq> event \<and> u_first m \<noteq> received \<and> u_last m \<noteq> received then Inr s
        else
          bindR (if u_representative m = event
                 then if es = [] then Inl rollup_invalid else Inr (representative es)
                 else Inr (u_representative m)) (\<lambda>replacement.
          bindR (if u_first m = received \<or> u_last m = received
                 then if es = [] then Inl rollup_invalid else Inr (first_seen es, last_seen es)
                 else Inr (u_first m, u_last m)) (\<lambda>(first, last).
          if affected here (memberships s) = 1
          then Inr (s\<lparr>memberships := update_where here
                 (\<lambda>m. m\<lparr>u_first := first, u_last := last, u_representative := replacement\<rparr>) (memberships s)\<rparr>)
          else Inl rollup_invalid))))"

text \<open>Whether the releases of the issue may have changed.\<close>

definition apply_release_delta ::
  "uuid \<Rightarrow> grouping_assignment \<Rightarrow> uuid option \<Rightarrow> bool issue_transaction" where
  "apply_release_delta event a release s =
     (if \<not> ga_first_assignment a \<and> ga_previous_release a = release then Inr (False, s)
      else
        bindR (case ga_previous_release a of
            Some previous \<Rightarrow>
              if ga_first_assignment a then Inr s
              else remove_release_membership event (ga_issue a) previous (ga_received a) s
          | None \<Rightarrow> Inr s) (\<lambda>s.
        bindR (case release of
            Some r \<Rightarrow> add_release_membership event (ga_issue a) r s
          | None \<Rightarrow> Inr s) (\<lambda>s.
        Inr (True, s))))"

subsection \<open>Status\<close>

record release_chronology =
  rc_first :: "uuid option"
  rc_last :: "uuid option"
  rc_last_timestamp :: "micros option"
  rc_count :: nat
  rc_valid :: bool

definition timestamped :: "(uuid \<times> micros option) list \<Rightarrow> (micros \<times> uuid) list" where
  "timestamped evidence = List.map_filter (\<lambda>(id, t). map_option (\<lambda>t. (t, id)) t) evidence"

fun adjacent_equal :: "(micros \<times> uuid) list \<Rightarrow> bool" where
  "adjacent_equal (a # b # xs) \<longleftrightarrow> fst a = fst b \<or> adjacent_equal (b # xs)"
| "adjacent_equal _ \<longleftrightarrow> False"

definition release_chronology_of :: "(uuid \<times> micros option) list \<Rightarrow> release_chronology" where
  "release_chronology_of evidence =
     (let ordered = sort (timestamped evidence);
          valid = (ordered \<noteq> [] \<and> length ordered = length evidence \<and> \<not> adjacent_equal ordered)
      in if \<not> valid
         then \<lparr>rc_first = None, rc_last = None, rc_last_timestamp = None, rc_count = length evidence, rc_valid = False\<rparr>
         else \<lparr>rc_first = Some (snd (hd ordered)), rc_last = Some (snd (last ordered)),
            rc_last_timestamp = Some (fst (last ordered)), rc_count = length ordered, rc_valid = True\<rparr>)"

definition release_of :: "uuid \<Rightarrow> issue_tables \<Rightarrow> release_rec option" where
  "release_of release s = find (\<lambda>r. rel_id r = release) (releases s)"

text \<open>The join of the releases of an issue with their build times. The order of the query has no effect, as the
  result is sorted.\<close>

definition release_evidence :: "uuid \<Rightarrow> issue_tables \<Rightarrow> (uuid \<times> micros option) list" where
  "release_evidence issue s =
     List.map_filter (\<lambda>m. map_option (\<lambda>r. (rel_id r, rel_built r)) (release_of (u_key m) s))
       (filter (\<lambda>m. u_issue m = issue) (memberships s))"

definition load_release_chronology :: "uuid \<Rightarrow> issue_tables \<Rightarrow> release_chronology" where
  "load_release_chronology issue s = release_chronology_of (release_evidence issue s)"

definition update_issue_chronology ::
  "uuid \<Rightarrow> release_chronology \<Rightarrow> issue_status \<Rightarrow> regression \<Rightarrow> issue_tables \<Rightarrow> (job_error, issue_tables) result" where
  "update_issue_chronology issue c status regression =
     update_issue issue (\<lambda>i. i\<lparr>i_first_release := rc_first c, i_last_release := rc_last c, i_status := status,
       i_regression := regression\<rparr>)"

definition next_transition :: "release_chronology \<Rightarrow> bool \<Rightarrow> issue_rec \<Rightarrow> issue_status \<times> regression" where
  "next_transition c later i =
     (if i_status i = Resolved then (if later then (Open, Regressed) else (Resolved, ResolvedIn))
      else if i_resolved_in i \<noteq> None then (if later then (Open, Regressed) else (Open, Unknown))
      else if \<not> rc_valid c then (Open, Unknown)
      else if rc_count c = 1 then (Open, NewIssue)
      else (Open, Ongoing))"

definition resolution_timestamp :: "issue_rec \<Rightarrow> issue_tables \<Rightarrow> micros option" where
  "resolution_timestamp i s =
     Option.bind (i_resolved_in i) (\<lambda>release. Option.bind (release_of release s) rel_built)"

definition later_release :: "release_chronology \<Rightarrow> micros option \<Rightarrow> bool" where
  "later_release c resolved \<longleftrightarrow> rc_valid c
     \<and> (case (resolved, rc_last_timestamp c) of (Some r, Some l) \<Rightarrow> l > r | _ \<Rightarrow> False)"

definition update_issue_transitions :: "uuid \<Rightarrow> bool \<Rightarrow> issue_tables \<Rightarrow> (job_error, issue_tables) result" where
  "update_issue_transitions issue transitions_enabled s =
     bindR (ok_or (find (\<lambda>i. i_id i = issue) (issues s)) (Deterministic ''issue_missing'')) (\<lambda>i.
     let c = load_release_chronology issue s in
     if \<not> transitions_enabled then update_issue_chronology issue c (i_status i) (i_regression i) s
     else
       let (status, regression) = next_transition c (later_release c (resolution_timestamp i s)) i
       in update_issue_chronology issue c status regression s)"

subsection \<open>Publication\<close>

text \<open>The part of \<^verbatim>\<open>publish_crash_result\<close> on releases and issues: the event is locked, its releases are recorded, it
  is assigned to an issue and the rollups follow.\<close>

definition publish_grouping ::
  "bool \<Rightarrow> uuid \<Rightarrow> uuid \<Rightarrow> grouping_choice \<Rightarrow> uuid list \<Rightarrow> uuid option issue_transaction" where
  "publish_grouping grouping_enabled fresh event grouping cs s =
     bindR (lock_event event s) (\<lambda>existing.
     bindR (record_release_mapping event cs s) (\<lambda>s.
     bindR (apply_grouping fresh event existing grouping s) (\<lambda>(assignment, s).
     case assignment of
       None \<Rightarrow> Inr (None, s)
     | Some a \<Rightarrow>
         bindR (apply_release_delta event a (matched_id cs) s) (\<lambda>(rollup_changed, s).
         bindR (if rollup_changed then update_issue_transitions (ga_issue a) grouping_enabled s else Inr s) (\<lambda>s.
         Inr (Some (ga_issue a), s))))))"

subsection \<open>Repair\<close>

text \<open>\<^verbatim>\<open>INSERT ... SELECT ... GROUP BY\<close> over the events of an issue: one row per key. The columns of the key are not
  null, so a null key fails the statement.\<close>

definition aggregate_members ::
  "(crash_row \<Rightarrow> ustring option) \<Rightarrow> uuid \<Rightarrow> crash_row list \<Rightarrow> (job_error, member_row list) result" where
  "aggregate_members key issue es =
     (if list_ex (\<lambda>e. key e = None) es then Inl db_unavailable
      else Inr (map (\<lambda>k. let ms = filter (\<lambda>e. key e = Some k) es in
          \<lparr>u_issue = issue, u_key = k, u_first = first_seen ms, u_last = last_seen ms, u_count = int (length ms),
           u_representative = representative ms\<rparr>) (remdups (List.map_filter key es))))"

definition aggregate_issue :: "crash_row list \<Rightarrow> issue_rec \<Rightarrow> issue_rec" where
  "aggregate_issue es i =
     i\<lparr>i_first_seen := first_seen es, i_last_seen := last_seen es, i_count := int (length es),
       i_representative := Some (representative es)\<rparr>"

definition refresh_issue_memberships :: "uuid \<Rightarrow> issue_tables \<Rightarrow> (job_error, issue_tables) result" where
  "refresh_issue_memberships issue s =
     (let es = filter (\<lambda>e. ce_issue e = Some issue) (crashes s) in
      bindR (aggregate_members ce_variant issue es) (\<lambda>vs.
      bindR (aggregate_members ce_release issue (filter (\<lambda>e. ce_mapping e = Matched) es)) (\<lambda>rs.
      let s = s\<lparr>variants := filter (\<lambda>m. u_issue m \<noteq> issue) (variants s) @ vs,
                memberships := filter (\<lambda>m. u_issue m \<noteq> issue) (memberships s) @ rs\<rparr> in
      if es = [] then Inl (Deterministic ''issue_missing'')
      else update_issue issue (aggregate_issue es) s)))"

datatype repair_error = RepairInvalidIdentifier | RepairNotFound | RepairDatabase

definition map_repair_error :: "job_error \<Rightarrow> repair_error" where
  "map_repair_error e = (if e = Deterministic ''issue_missing'' then RepairNotFound else RepairDatabase)"

text \<open>The report: events, variants and releases. The checks of the identifiers come before it.\<close>

definition repair_issue :: "uuid \<Rightarrow> issue_tables \<Rightarrow> (repair_error, (int \<times> nat \<times> nat) \<times> issue_tables) result" where
  "repair_issue issue s =
     (if \<not> list_ex (\<lambda>i. i_id i = issue) (issues s) then Inl RepairNotFound
      else bindR (map_err map_repair_error (refresh_issue_memberships issue s)) (\<lambda>s.
        bindR (map_err map_repair_error (update_issue_transitions issue True s)) (\<lambda>s.
        bindR (ok_or (find (\<lambda>i. i_id i = issue) (issues s)) RepairDatabase) (\<lambda>i.
        Inr ((i_count i, affected (\<lambda>m. u_issue m = issue) (variants s), affected (\<lambda>m. u_issue m = issue) (memberships s)), s)))))"

subsection \<open>Resolving and reopening (apps/server/src/issues.rs)\<close>

datatype issue_error = IssueNotFound | IssueInternal

text \<open>The counts that the statements take over the releases of an issue.\<close>

definition built_times :: "uuid \<Rightarrow> issue_tables \<Rightarrow> micros list" where
  "built_times issue s = List.map_filter snd (release_evidence issue s)"

definition has_provably_later_release :: "uuid \<Rightarrow> micros \<Rightarrow> issue_tables \<Rightarrow> bool" where
  "has_provably_later_release issue resolution s \<longleftrightarrow>
     (let releases = length (release_evidence issue s); times = built_times issue s
      in releases > 0 \<and> releases = length times \<and> releases = card (set times)
         \<and> (times \<noteq> [] \<and> Max (set times) > resolution))"

definition retained_regression_state :: "uuid \<Rightarrow> issue_tables \<Rightarrow> regression" where
  "retained_regression_state issue s =
     (let releases = length (release_evidence issue s); times = built_times issue s
      in if releases = 0 \<or> length times \<noteq> releases \<or> card (set times) \<noteq> releases then Unknown
         else if releases = 1 then NewIssue else Ongoing)"

definition update_found_issue ::
  "uuid \<Rightarrow> (issue_rec \<Rightarrow> issue_rec) \<Rightarrow> issue_tables \<Rightarrow> (issue_error, issue_tables) result" where
  "update_found_issue issue f s = map_err (\<lambda>_. IssueInternal) (update_issue issue f s)"

definition resolve_issue :: "micros \<Rightarrow> uuid \<Rightarrow> uuid \<Rightarrow> issue_tables \<Rightarrow> (issue_error, issue_tables) result" where
  "resolve_issue now issue release s =
     bindR (require (list_ex (\<lambda>i. i_id i = issue) (issues s)) IssueNotFound) (\<lambda>_.
     bindR (ok_or (Option.bind (release_of release s) rel_built) IssueNotFound) (\<lambda>resolution.
     let (status, regression) =
       (if has_provably_later_release issue resolution s then (Open, Regressed) else (Resolved, ResolvedIn)) in
     update_found_issue issue (\<lambda>i. i\<lparr>i_status := status, i_regression := regression, i_resolved_in := Some release,
       i_resolved_at := Some now\<rparr>) s))"

definition reopen_issue :: "uuid \<Rightarrow> issue_tables \<Rightarrow> (issue_error, issue_tables) result" where
  "reopen_issue issue s =
     bindR (require (list_ex (\<lambda>i. i_id i = issue) (issues s)) IssueNotFound) (\<lambda>_.
     update_found_issue issue (\<lambda>i. i\<lparr>i_status := Open, i_regression := retained_regression_state issue s,
       i_resolved_in := None, i_resolved_at := None\<rparr>) s)"

end
