(* ===== verification/Issue_Invariant.thy ===== *)
theory Issue_Invariant
  imports Issue_Rollups
begin

section \<open>Rollups agree with the events\<close>

text \<open>
  A rollup tracks the events when it has one row per key that occurs among them, with the aggregates of the
  events of that key. The lemmas show that adding and removing one event by the statements of the worker
  keeps this.
\<close>

subsection \<open>Tables with a key\<close>

definition lookup_member :: "member_row list \<Rightarrow> uuid \<times> ustring \<Rightarrow> member_row option" where
  "lookup_member ms g = find (\<lambda>m. member_key m = g) ms"

lemma lookup_member_None: "lookup_member ms g = None \<longleftrightarrow> g \<notin> member_key ` set ms"
  by (auto simp: lookup_member_def find_None_iff)

lemma lookup_member_Some: "lookup_member ms g = Some m \<Longrightarrow> m \<in> set ms \<and> member_key m = g"
  by (auto simp: lookup_member_def find_Some_iff)

lemma lookup_member_mem: "distinct (map member_key ms) \<Longrightarrow> m \<in> set ms \<Longrightarrow> lookup_member ms (member_key m) = Some m"
  by (induction ms) (auto simp: lookup_member_def image_iff)

lemma lookup_member_append:
  "lookup_member (ms @ ns) g = (case lookup_member ms g of None \<Rightarrow> lookup_member ns g | Some m \<Rightarrow> Some m)"
  by (induction ms) (auto simp: lookup_member_def)

lemma lookup_member_single: "lookup_member [m] g = (if g = member_key m then Some m else None)"
  by (auto simp: lookup_member_def)

text \<open>A statement that changes the row of one key.\<close>

lemma lookup_update_key:
  assumes "\<And>m. member_key (f m) = member_key m"
  shows "lookup_member (update_where (\<lambda>m. member_key m = g) f ms) g'
    = (if g' = g then map_option f (lookup_member ms g) else lookup_member ms g')"
  using assms by (induction ms) (auto simp: lookup_member_def update_where_def)

lemma keys_update_key:
  assumes "\<And>m. member_key (f m) = member_key m"
  shows "map member_key (update_where p f ms) = map member_key ms"
  using assms by (simp add: update_where_def comp_def if_distrib [of member_key] cong: if_cong)

lemma lookup_filter_key:
  "lookup_member (filter (\<lambda>m. member_key m \<noteq> g) ms) g' = (if g' = g then None else lookup_member ms g')"
  by (induction ms) (auto simp: lookup_member_def)

text \<open>A condition on the row of a key is decided by the one row with that key.\<close>

lemma where_key_unique:
  assumes "distinct (map member_key ms)" and "lookup_member ms g = Some m"
  shows "x \<in> set ms \<Longrightarrow> member_key x = g \<and> p x \<longleftrightarrow> member_key x = g \<and> p m"
  using lookup_member_mem [OF assms(1), of x] assms(2) by auto

lemma affected_key:
  assumes "distinct (map member_key ms)"
  shows "affected (\<lambda>m. member_key m = g) ms = (if lookup_member ms g = None then 0 else 1)"
  using assms by (induction ms) (auto simp: affected_def lookup_member_def find_None_iff filter_empty_conv)

lemma find_key_where:
  assumes "distinct (map member_key ms)" and "lookup_member ms g = Some m" and "p m"
  shows "find (\<lambda>x. member_key x = g \<and> p x) ms = Some m"
  using assms by (induction ms) (auto simp: lookup_member_def image_iff find_Some_iff split: if_splits)

lemma update_key_where:
  assumes "distinct (map member_key ms)" and "lookup_member ms g = Some m" and "p m"
  shows "update_where (\<lambda>x. member_key x = g \<and> p x) f ms = update_where (\<lambda>x. member_key x = g) f ms"
  using where_key_unique [OF assms(1,2), of _ p] assms(3) by (auto simp: update_where_def)

lemma filter_key_where:
  assumes "distinct (map member_key ms)" and "lookup_member ms g = Some m" and "p m"
  shows "filter (\<lambda>x. \<not> (member_key x = g \<and> p x)) ms = filter (\<lambda>x. member_key x \<noteq> g) ms"
  using where_key_unique [OF assms(1,2), of _ p] assms(3) by (auto intro: filter_cong)

subsection \<open>Aggregates of a group\<close>

definition group_row :: "uuid \<times> ustring \<Rightarrow> crash_row list \<Rightarrow> member_row option" where
  "group_row g es = (if es = [] then None else
     Some \<lparr>u_issue = fst g, u_key = snd g, u_first = first_seen es, u_last = last_seen es, u_count = int (length es),
       u_representative = representative es\<rparr>)"

lemma group_row_key: "group_row g es = Some m \<Longrightarrow> member_key m = g"
  by (auto simp: group_row_def member_key_def split: if_splits)

lemma representative_mem:
  assumes "es \<noteq> []"
  obtains r where "r \<in> set es" and "rank r = Min (rank ` set es)" and "representative es = ce_id r"
proof -
  have "Min (rank ` set es) \<in> rank ` set es" using assms by (intro Min_in) auto
  then obtain r where "r \<in> set es" "rank r = Min (rank ` set es)" by auto
  moreover from this have "representative es = ce_id r"
    by (auto simp: representative_def rank_def [of r] prod_eq_iff dest: sym)
  ultimately show ?thesis by (rule that)
qed

lemma representative_set: "set es = set es' \<Longrightarrow> representative es = representative es'"
  by (simp add: representative_def)

lemma first_seen_insert:
  "set es' = insert e (set es) \<Longrightarrow> es \<noteq> [] \<Longrightarrow> first_seen es' = min (first_seen es) (ce_received e)"
  by (simp add: first_seen_def min.commute)

lemma last_seen_insert:
  "set es' = insert e (set es) \<Longrightarrow> es \<noteq> [] \<Longrightarrow> last_seen es' = max (last_seen es) (ce_received e)"
  by (simp add: last_seen_def max.commute)

text \<open>The representative after one more event: the first of the old one and the event.\<close>

lemma representative_insert:
  assumes "es \<noteq> []" and "set es' = insert e (set es)" and "r \<in> set es" and "rank r = Min (rank ` set es)"
  shows "representative es' = (if rank e < rank r then ce_id e else ce_id r)"
proof -
  have "Min (rank ` set es') = min (rank e) (rank r)" using assms by simp
  then show ?thesis by (auto simp: representative_def min_def rank_def [of e] rank_def [of r])
qed

lemma rank_inj: "rank e = rank e' \<Longrightarrow> ce_id e = ce_id e'"
  by (simp add: rank_def)

lemma distinct_id_eq:
  "distinct (map ce_id es) \<Longrightarrow> x \<in> set es \<Longrightarrow> y \<in> set es \<Longrightarrow> ce_id x = ce_id y \<longleftrightarrow> x = y"
  by (auto simp: distinct_map inj_on_def)

lemma filter_pair_ids:
  assumes "distinct (map ce_id es)" and "r \<in> set es" and "e \<in> set es"
  shows "set (filter (\<lambda>x. ce_id x \<in> {ce_id r, ce_id e}) es) = insert e (set [r])"
  using assms(2,3) distinct_id_eq [OF assms(1)] by auto

definition tracks :: "(crash_row \<Rightarrow> (uuid \<times> ustring) option) \<Rightarrow> member_row list \<Rightarrow> crash_row list \<Rightarrow> bool" where
  "tracks key ms es \<longleftrightarrow> distinct (map member_key ms)
     \<and> (\<forall>g. lookup_member ms g = group_row g (filter (\<lambda>e. key e = Some g) es))"

lemma tracks_lookup: "tracks key ms es \<Longrightarrow> lookup_member ms g = group_row g (filter (\<lambda>e. key e = Some g) es)"
  unfolding tracks_def by blast

lemma tracks_distinct: "tracks key ms es \<Longrightarrow> distinct (map member_key ms)"
  by (simp add: tracks_def)

text \<open>An event without a key does not count.\<close>

lemma tracks_skip: "key e = None \<Longrightarrow> tracks key ms (xs @ e # ys) \<longleftrightarrow> tracks key ms (xs @ ys)"
  by (simp add: tracks_def)

text \<open>Nothing but the columns that the aggregates read matters.\<close>

lemma tracks_same:
  assumes "key e' = key e" and "ce_id e' = ce_id e" and "ce_received e' = ce_received e" and "ce_quality e' = ce_quality e"
    and "tracks key ms (xs @ e # ys)"
  shows "tracks key ms (xs @ e' # ys)"
proof -
  have "rank e' = rank e" using assms by (simp add: rank_def)
  then have "group_row g (filter (\<lambda>x. key x = Some g) (xs @ e' # ys)) = group_row g (filter (\<lambda>x. key x = Some g) (xs @ e # ys))" for g
    using assms by (simp add: group_row_def first_seen_def last_seen_def representative_def)
  then show ?thesis using assms(5) by (simp add: tracks_def)
qed

subsection \<open>Adding an event\<close>

lemma group_row_Some:
  "es \<noteq> [] \<Longrightarrow> group_row (i, k) es = Some \<lparr>u_issue = i, u_key = k, u_first = first_seen es, u_last = last_seen es,
     u_count = int (length es), u_representative = representative es\<rparr>"
  by (simp add: group_row_def)

text \<open>One more event \<open>e\<close> in a group of the table \<open>es\<close>.\<close>

lemma group_row_insert:
  assumes ids: "distinct (map ce_id es)" and sub: "set old \<subseteq> set es" and mem: "e \<in> set es"
    and new: "set new = insert e (set old)" "length new = Suc (length old)"
    and m: "group_row (i, k) old = Some m"
  shows "group_row (i, k) new = Some (merge_member es (single_member i k e) m)"
proof -
  have old: "old \<noteq> []" using m by (auto simp: group_row_def)
  obtain r where r: "r \<in> set old" "rank r = Min (rank ` set old)" "representative old = ce_id r"
    using representative_mem [OF old] .
  have pair: "set (filter (\<lambda>x. ce_id x \<in> {ce_id r, ce_id e}) es) = insert e (set [r])"
    using r(1) sub mem by (intro filter_pair_ids [OF ids]) auto
  have "representative (filter (\<lambda>x. ce_id x \<in> {ce_id r, ce_id e}) es) = (if rank e < rank r then ce_id e else ce_id r)"
    by (rule representative_insert [OF _ pair]) simp_all
  then have rep: "representative (filter (\<lambda>x. ce_id x \<in> {representative old, ce_id e}) es) = representative new"
    unfolding r(3) representative_insert [OF old new(1) r(1,2)] .
  have "m = \<lparr>u_issue = i, u_key = k, u_first = first_seen old, u_last = last_seen old,
      u_count = int (length old), u_representative = representative old\<rparr>"
    using m group_row_Some [OF old] by simp
  moreover have "new \<noteq> []" using new(2) by auto
  moreover have "int (length new) = int (length old) + 1" using new(2) by simp
  ultimately show ?thesis
    by (simp add: group_row_Some merge_member_def single_member_def rep [simplified] first_seen_insert [OF new(1) old]
        last_seen_insert [OF new(1) old])
qed

lemma group_row_merge:
  assumes ids: "distinct (map ce_id (xs @ e # ys))" and key: "key e = Some (i, k)"
    and m: "group_row (i, k) (filter (\<lambda>x. key x = Some (i, k)) (xs @ ys)) = Some m"
  shows "group_row (i, k) (filter (\<lambda>x. key x = Some (i, k)) (xs @ e # ys))
    = Some (merge_member (xs @ e # ys) (single_member i k e) m)"
  by (rule group_row_insert [OF ids _ _ _ _ m]) (use key in auto)

lemma group_row_single:
  assumes "key e = Some (i, k)" and "filter (\<lambda>x. key x = Some (i, k)) (xs @ ys) = []"
  shows "group_row (i, k) (filter (\<lambda>x. key x = Some (i, k)) (xs @ e # ys)) = Some (single_member i k e)"
proof -
  have "filter (\<lambda>x. key x = Some (i, k)) (xs @ e # ys) = [e]" using assms by simp
  then show ?thesis
    by (simp add: group_row_def single_member_def first_seen_def last_seen_def representative_def rank_def)
qed

lemma merge_member_key: "member_key (merge_member es new m) = member_key m"
  by (simp add: merge_member_def member_key_def)

lemma single_member_key [simp]: "member_key (single_member i k e) = (i, k)"
  by (simp add: single_member_def member_key_def)

lemma tracks_upsert:
  assumes t: "tracks key ms (xs @ ys)" and ids: "distinct (map ce_id (xs @ e # ys))" and key: "key e = Some (i, k)"
  shows "tracks key (upsert_member (xs @ e # ys) (single_member i k e) ms) (xs @ e # ys)"
proof -
  let ?new = "single_member i k e"
  have others: "filter (\<lambda>x. key x = Some g) (xs @ e # ys) = filter (\<lambda>x. key x = Some g) (xs @ ys)" if "g \<noteq> (i, k)" for g
    using key that by simp
  show ?thesis
  proof (cases "lookup_member ms (i, k)")
    case None
    have step: "upsert_member (xs @ e # ys) ?new ms = ms @ [?new]"
      using None unfolding upsert_member_def lookup_member_None list_ex_iff by (auto simp: image_iff)
    have "filter (\<lambda>x. key x = Some (i, k)) (xs @ ys) = []"
      using None tracks_lookup [OF t, of "(i, k)"] by (simp add: group_row_def split: if_splits)
    note here = group_row_single [OF key this]
    have "lookup_member (ms @ [?new]) g = group_row g (filter (\<lambda>x. key x = Some g) (xs @ e # ys))" for g
    proof (cases "g = (i, k)")
      case True
      then show ?thesis using here None by (simp add: lookup_member_append lookup_member_single)
    next
      case False
      then show ?thesis using others [OF False] tracks_lookup [OF t, of g]
        by (simp add: lookup_member_append lookup_member_single split: option.splits)
    qed
    then show ?thesis using step None tracks_distinct [OF t] by (simp add: tracks_def lookup_member_None)
  next
    case (Some m)
    have step: "upsert_member (xs @ e # ys) ?new ms
        = update_where (\<lambda>m. member_key m = (i, k)) (merge_member (xs @ e # ys) ?new) ms"
      using lookup_member_Some [OF Some] by (auto simp: upsert_member_def list_ex_iff)
    have "lookup_member (update_where (\<lambda>m. member_key m = (i, k)) (merge_member (xs @ e # ys) ?new) ms) g
        = group_row g (filter (\<lambda>x. key x = Some g) (xs @ e # ys))" for g
    proof (cases "g = (i, k)")
      case True
      have "group_row (i, k) (filter (\<lambda>x. key x = Some (i, k)) (xs @ ys)) = Some m"
        using Some tracks_lookup [OF t] by simp
      from group_row_merge [OF ids key this] show ?thesis
        using True Some by (simp add: lookup_update_key merge_member_key)
    next
      case False
      then show ?thesis using others [OF False] tracks_lookup [OF t, of g]
        by (simp add: lookup_update_key merge_member_key)
    qed
    then show ?thesis using step tracks_distinct [OF t]
      by (simp add: tracks_def keys_update_key merge_member_key)
  qed
qed

subsection \<open>Removing an event\<close>

definition decremented :: "crash_row list \<Rightarrow> crash_row \<Rightarrow> member_row \<Rightarrow> member_row" where
  "decremented new e m =
     m\<lparr>u_count := u_count m - 1,
       u_first := (if u_first m = ce_received e \<or> u_last m = ce_received e then first_seen new else u_first m),
       u_last := (if u_first m = ce_received e \<or> u_last m = ce_received e then last_seen new else u_last m),
       u_representative := (if u_representative m = ce_id e then representative new else u_representative m)\<rparr>"

lemma group_row_remove:
  assumes old: "set old = insert e (set new)" "length old = Suc (length new)" "e \<notin> set new"
    and ids: "distinct (map ce_id es)" "set old \<subseteq> set es"
    and m: "group_row (i, k) old = Some m"
  shows "if new = [] then u_count m = 1 else u_count m > 1 \<and> group_row (i, k) new = Some (decremented new e m)"
proof -
  have ne: "old \<noteq> []" using old(2) by auto
  have meq: "m = \<lparr>u_issue = i, u_key = k, u_first = first_seen old, u_last = last_seen old,
      u_count = int (length old), u_representative = representative old\<rparr>"
    using m group_row_Some [OF ne] by simp
  show ?thesis
  proof (cases "new = []")
    case True
    then show ?thesis using meq old(2) by simp
  next
    case False
    have first: "first_seen old = min (first_seen new) (ce_received e)" and last: "last_seen old = max (last_seen new) (ce_received e)"
      by (rule first_seen_insert [OF old(1) False], rule last_seen_insert [OF old(1) False])
    obtain r where r: "r \<in> set new" "rank r = Min (rank ` set new)" "representative new = ce_id r"
      using representative_mem [OF False] .
    have "ce_id r \<noteq> ce_id e"
      using distinct_id_eq [OF ids(1), of r e] r(1) old ids(2) by auto
    then have rep: "(if representative old = ce_id e then representative new else representative old) = representative new"
      using representative_insert [OF False old(1) r(1,2)] r(3) by simp
    have bounds: "(if first_seen old = ce_received e \<or> last_seen old = ce_received e then first_seen new else first_seen old)
        = first_seen new"
      "(if first_seen old = ce_received e \<or> last_seen old = ce_received e then last_seen new else last_seen old)
        = last_seen new"
      using first last by (auto simp: min_def max_def split: if_splits)
    have count: "int (length old) - 1 = int (length new)" "int (length old) > 1"
      using old(2) False by (simp_all add: length_greater_0_conv [symmetric] del: length_greater_0_conv)
    have "decremented new e m = \<lparr>u_issue = i, u_key = k, u_first = first_seen new, u_last = last_seen new,
        u_count = int (length new), u_representative = representative new\<rparr>"
      by (simp only: decremented_def meq member_row.simps rep bounds count(1))
    then show ?thesis using False count(2) by (simp add: group_row_Some meq)
  qed
qed

lemma decremented_key: "member_key (decremented new e m) = member_key m"
  by (simp add: decremented_def member_key_def)

lemma release_members_update [simp]:
  "release_members i k (s\<lparr>memberships := ms\<rparr>) = release_members i k s"
  by (simp add: release_members_def)

lemma update_where_twice:
  assumes "\<And>x. p x \<Longrightarrow> q (f x)" and "\<And>x. \<not> p x \<Longrightarrow> \<not> q x"
  shows "update_where q g (update_where p f xs) = update_where p (g \<circ> f) xs"
  using assms by (auto simp: update_where_def)

text \<open>A removal deletes the row of a group that becomes empty, and otherwise stores its new aggregates.\<close>

lemma remove_last_member:
  assumes "distinct (map member_key (memberships s))" and "lookup_member (memberships s) (i, k) = Some m" and "u_count m = 1"
  shows "remove_release_membership event i k received s
    = Inr (s\<lparr>memberships := filter (\<lambda>m. member_key m \<noteq> (i, k)) (memberships s)\<rparr>)"
proof -
  have "list_ex (\<lambda>m. member_key m = (i, k) \<and> u_count m = 1) (memberships s)"
    using lookup_member_Some [OF assms(2)] assms(3) by (auto simp: list_ex_iff)
  then show ?thesis
    using filter_key_where [where p = "\<lambda>m. u_count m = 1", OF assms] by (simp add: remove_release_membership_def)
qed

lemma remove_one_member:
  assumes d: "distinct (map member_key (memberships s))" and m: "lookup_member (memberships s) (i, k) = Some m"
    and c: "u_count m > 1" and new: "release_members i k s = new" "new \<noteq> []"
  shows "remove_release_membership (ce_id e) i k (ce_received e) s
    = Inr (s\<lparr>memberships := update_where (\<lambda>m. member_key m = (i, k)) (\<lambda>_. decremented new e m) (memberships s)\<rparr>)"
proof -
  let ?here = "\<lambda>m. member_key m = (i, k)"
  let ?dec = "\<lambda>m :: member_row. m\<lparr>u_count := u_count m - 1\<rparr>"
  let ?ms = "update_where ?here ?dec (memberships s)"
  have only: "x = m" if "x \<in> set (memberships s)" "?here x" for x
    using lookup_member_mem [OF d that(1)] that(2) m by simp
  have none: "\<not> list_ex (\<lambda>m. ?here m \<and> u_count m = 1) (memberships s)"
    using only c by (fastforce simp: list_ex_iff)
  have found: "find (\<lambda>m. ?here m \<and> u_count m > 1) (memberships s) = Some m"
    by (rule find_key_where [OF d m]) (rule c)
  have dec: "update_where (\<lambda>m. ?here m \<and> u_count m > 1) ?dec (memberships s) = ?ms"
    by (rule update_key_where [OF d m]) (rule c)
  have keep: "member_key (?dec x) = member_key x" for x by (simp add: member_key_def)
  have one: "affected ?here ?ms = 1"
    using m d by (simp add: affected_key keys_update_key [where f = ?dec, OF keep] lookup_update_key [where f = ?dec, OF keep])
  have final: "update_where ?here g ?ms = update_where ?here (\<lambda>_. g (?dec m)) (memberships s)" for g
    using only by (auto simp: update_where_def keep)
  have same: "?ms = update_where ?here (\<lambda>_. ?dec m) (memberships s)"
    using only by (auto simp: update_where_def)
  show ?thesis
    using new(2) by (simp add: remove_release_membership_def Let_def none [simplified] found [simplified] dec [simplified]
        new(1) one [simplified] final [simplified] decremented_def) (simp add: same)
qed

lemma tracks_remove:
  assumes t: "tracks key (memberships s) (xs @ e # ys)" and ids: "distinct (map ce_id (xs @ e # ys))"
    and key: "key e = Some (i, k)"
    and new: "release_members i k s = filter (\<lambda>x. key x = Some (i, k)) (xs @ ys)"
  shows "\<exists>ms. remove_release_membership (ce_id e) i k (ce_received e) s = Inr (s\<lparr>memberships := ms\<rparr>) \<and> tracks key ms (xs @ ys)"
proof -
  let ?old = "filter (\<lambda>x. key x = Some (i, k)) (xs @ e # ys)" and ?new = "filter (\<lambda>x. key x = Some (i, k)) (xs @ ys)"
  have others: "filter (\<lambda>x. key x = Some g) (xs @ e # ys) = filter (\<lambda>x. key x = Some g) (xs @ ys)" if "g \<noteq> (i, k)" for g
    using key that by simp
  have "?old \<noteq> []" using key by auto
  then obtain m where m: "group_row (i, k) ?old = Some m" by (simp add: group_row_def)
  then have look: "lookup_member (memberships s) (i, k) = Some m" using tracks_lookup [OF t] by simp
  note d = tracks_distinct [OF t]
  have removed: "if ?new = [] then u_count m = 1 else u_count m > 1 \<and> group_row (i, k) ?new = Some (decremented ?new e m)"
    by (rule group_row_remove [OF _ _ _ ids _ m]) (use key ids in auto)
  show ?thesis
  proof (cases "?new = []")
    case True
    with removed have "u_count m = 1" by simp
    moreover have "lookup_member (filter (\<lambda>m. member_key m \<noteq> (i, k)) (memberships s)) g
        = group_row g (filter (\<lambda>e. key e = Some g) (xs @ ys))" for g
      using True others [of g] tracks_lookup [OF t, of g] by (cases "g = (i, k)") (simp_all add: lookup_filter_key group_row_def)
    then have "tracks key (filter (\<lambda>m. member_key m \<noteq> (i, k)) (memberships s)) (xs @ ys)"
      using d by (simp add: tracks_def distinct_map_filter)
    ultimately show ?thesis using remove_last_member [OF d look] by blast
  next
    case False
    have m': "u_count m > 1" "group_row (i, k) ?new = Some (decremented ?new e m)"
      using removed unfolding if_not_P [OF False] by blast+
    let ?ms = "update_where (\<lambda>m. member_key m = (i, k)) (\<lambda>_. decremented ?new e m) (memberships s)"
    have keep: "member_key m = (i, k)" using group_row_key [OF m] .
    have same: "?ms = update_where (\<lambda>m. member_key m = (i, k)) (\<lambda>x. if member_key x = (i, k) then decremented ?new e m else x) (memberships s)"
      by (auto simp: update_where_def)
    have kept: "member_key (if member_key x = (i, k) then decremented ?new e m else x) = member_key x" for x
      using keep by (simp add: decremented_key)
    have "lookup_member ?ms g = group_row g (filter (\<lambda>e. key e = Some g) (xs @ ys))" for g
      unfolding same lookup_update_key [OF kept]
      using m'(2) look keep others [of g] tracks_lookup [OF t, of g] by auto
    moreover have "distinct (map member_key ?ms)" unfolding same keys_update_key [OF kept] by (rule d)
    ultimately have "tracks key ?ms (xs @ ys)" unfolding tracks_def by blast
    then show ?thesis using remove_one_member [OF d look m'(1) new False] by blast
  qed
qed

end
