(* ===== verification/Issue_System.thy ===== *)
theory Issue_System
  imports Issue_Invariant
begin

section \<open>Any order of publications, uploads and decisions\<close>

text \<open>
  A step relation over the tables of a project: crashes are received, releases uploaded, results published,
  issues resolved, reopened and repaired, each as one transaction and in any order. The invariant says that
  the tables satisfy their constraints and that the rollups are the aggregates of the events.
\<close>

text \<open>The row of a crash that has been received, with the defaults of its columns.\<close>

definition received_crash :: "uuid \<Rightarrow> micros \<Rightarrow> crash_row" where
  "received_crash event now =
     \<lparr>ce_id = event, ce_received = now, ce_release = None, ce_mapping = MapPending, ce_grouping = GroupPending,
      ce_algorithm = None, ce_version = None, ce_fingerprint = None, ce_variant = None, ce_quality = None,
      ce_issue = None\<rparr>"

text \<open>\<^verbatim>\<open>upsert_release\<close> of the symbol upload: a build time that is known stays.\<close>

definition same_release :: "ustring \<Rightarrow> ustring \<Rightarrow> ustring \<Rightarrow> ustring \<Rightarrow> release_rec \<Rightarrow> bool" where
  "same_release vers plat arch conf r \<longleftrightarrow> rel_version r = vers \<and> rel_platform r = plat \<and> rel_architecture r = arch
     \<and> rel_configuration r = conf"

definition upsert_release ::
  "uuid \<Rightarrow> ustring \<Rightarrow> ustring \<Rightarrow> ustring \<Rightarrow> ustring \<Rightarrow> micros option \<Rightarrow> issue_tables \<Rightarrow> issue_tables" where
  "upsert_release fresh vers plat arch conf built s =
     (let same = same_release vers plat arch conf in
      if list_ex same (releases s)
      then s\<lparr>releases := update_where same
             (\<lambda>r. r\<lparr>rel_built := case rel_built r of None \<Rightarrow> built | Some t \<Rightarrow> Some t\<rparr>) (releases s)\<rparr>
      else s\<lparr>releases := releases s @ [\<lparr>rel_id = fresh, rel_version = vers, rel_platform = plat,
             rel_architecture = arch, rel_configuration = conf, rel_built = built\<rparr>]\<rparr>)"

definition no_issues :: issue_tables where
  "no_issues = \<lparr>crashes = [], issues = [], variants = [], memberships = [], releases = [], release_candidates = []\<rparr>"

inductive issue_step :: "issue_tables \<Rightarrow> issue_tables \<Rightarrow> bool" where
  received: "event \<notin> ce_id ` set (crashes s) \<Longrightarrow> issue_step s (s\<lparr>crashes := crashes s @ [received_crash event now]\<rparr>)"
| uploaded: "fresh \<notin> rel_id ` set (releases s)
    \<Longrightarrow> issue_step s (upsert_release fresh vers plat arch conf built s)"
| published: "fresh \<notin> i_id ` set (issues s) \<Longrightarrow> set cs \<subseteq> rel_id ` set (releases s)
    \<Longrightarrow> publish_grouping enabled fresh event grouping cs s = Inr (issue, s') \<Longrightarrow> issue_step s s'"
| resolved: "resolve_issue now issue release s = Inr s' \<Longrightarrow> issue_step s s'"
| reopened: "reopen_issue issue s = Inr s' \<Longrightarrow> issue_step s s'"
| repaired: "repair_issue issue s = Inr (report, s') \<Longrightarrow> issue_step s s'"

inductive issue_reachable :: "issue_tables \<Rightarrow> bool" where
  empty: "issue_reachable no_issues"
| step: "issue_reachable s \<Longrightarrow> issue_step s s' \<Longrightarrow> issue_reachable s'"

subsection \<open>The invariant\<close>

definition variant_key :: "crash_row \<Rightarrow> (uuid \<times> ustring) option" where
  "variant_key e = (case (ce_issue e, ce_variant e) of (Some i, Some v) \<Rightarrow> Some (i, v) | _ \<Rightarrow> None)"

definition release_key :: "crash_row \<Rightarrow> (uuid \<times> ustring) option" where
  "release_key e = (if ce_mapping e = Matched
     then case (ce_issue e, ce_release e) of (Some i, Some r) \<Rightarrow> Some (i, r) | _ \<Rightarrow> None else None)"

definition in_issue :: "issue_rec \<Rightarrow> crash_row \<Rightarrow> bool" where
  "in_issue i e \<longleftrightarrow> ce_issue e = Some (i_id i) \<and> ce_algorithm e = Some (i_algorithm i) \<and> ce_version e = Some (i_version i)
     \<and> ce_fingerprint e = Some (i_fingerprint i) \<and> ce_variant e \<noteq> None \<and> ce_quality e \<noteq> None"

definition crash_ok :: "issue_tables \<Rightarrow> crash_row \<Rightarrow> bool" where
  "crash_ok s e \<longleftrightarrow> (ce_mapping e = Matched \<longleftrightarrow> ce_release e \<noteq> None)
     \<and> (\<forall>r. ce_release e = Some r \<longrightarrow> r \<in> rel_id ` set (releases s))
     \<and> (if ce_grouping e = GroupDone then \<exists>i \<in> set (issues s). in_issue i e else ce_issue e = None)"

definition issue_members :: "uuid \<Rightarrow> crash_row list \<Rightarrow> crash_row list" where
  "issue_members issue es = filter (\<lambda>e. ce_issue e = Some issue) es"

definition counted :: "crash_row list \<Rightarrow> issue_rec \<Rightarrow> bool" where
  "counted es i \<longleftrightarrow> issue_members (i_id i) es \<noteq> [] \<and> aggregate_issue (issue_members (i_id i) es) i = i"

lemma counted_iff:
  "counted es i \<longleftrightarrow> issue_members (i_id i) es \<noteq> [] \<and> i_first_seen i = first_seen (issue_members (i_id i) es)
     \<and> i_last_seen i = last_seen (issue_members (i_id i) es) \<and> i_count i = int (length (issue_members (i_id i) es))
     \<and> i_representative i = Some (representative (issue_members (i_id i) es))"
  by (cases i) (auto simp: counted_def aggregate_issue_def)

text \<open>The constraints of the table on the status.\<close>

definition status_ok :: "issue_rec \<Rightarrow> bool" where
  "status_ok i \<longleftrightarrow> (i_status i = Resolved \<longrightarrow> i_resolved_in i \<noteq> None \<and> i_resolved_at i \<noteq> None)
     \<and> (i_regression i = ResolvedIn \<longrightarrow> i_status i = Resolved)
     \<and> (i_regression i = Regressed \<longrightarrow> i_status i = Open \<and> i_resolved_in i \<noteq> None \<and> i_resolved_at i \<noteq> None)
     \<and> (i_resolved_in i = None \<longleftrightarrow> i_resolved_at i = None)"

definition base_ok :: "issue_tables \<Rightarrow> bool" where
  "base_ok s \<longleftrightarrow> distinct (map ce_id (crashes s)) \<and> distinct (map i_id (issues s)) \<and> distinct (map issue_key (issues s))
     \<and> distinct (map rel_id (releases s)) \<and> (\<forall>e \<in> set (crashes s). crash_ok s e)
     \<and> (\<forall>i \<in> set (issues s). counted (crashes s) i \<and> status_ok i) \<and> tracks variant_key (variants s) (crashes s)"

definition issues_ok :: "issue_tables \<Rightarrow> bool" where
  "issues_ok s \<longleftrightarrow> base_ok s \<and> tracks release_key (memberships s) (crashes s)"

subsection \<open>Rows of one event\<close>

lemma crash_split:
  assumes "distinct (map ce_id (crashes s))" and "crash_of event s = Some e"
  obtains xs ys where "crashes s = xs @ e # ys" and "ce_id e = event" and "event \<notin> ce_id ` set (xs @ ys)"
proof -
  have e: "e \<in> set (crashes s)" "ce_id e = event" using assms(2) by (auto simp: crash_of_def find_Some_iff)
  then obtain xs ys where "crashes s = xs @ e # ys" by (meson split_list)
  with assms(1) e(2) show ?thesis by (intro that) auto
qed

lemma only_event:
  assumes "event \<notin> ce_id ` set (xs @ ys)"
  shows "\<forall>x \<in> set xs. ce_id x \<noteq> event" and "\<forall>x \<in> set ys. ce_id x \<noteq> event"
  using assms by auto

lemma update_where_split:
  assumes "ce_id e = event" and "event \<notin> ce_id ` set (xs @ ys)" and "p e"
  shows "update_where (\<lambda>x. ce_id x = event \<and> p x) f (xs @ e # ys) = xs @ f e # ys"
proof -
  have "map (\<lambda>x. if ce_id x = event \<and> p x then f x else x) zs = zs" if "\<forall>x \<in> set zs. ce_id x \<noteq> event" for zs
    using that by (intro map_idI) auto
  then show ?thesis using only_event [OF assms(2)] assms(1,3) by (simp add: update_where_def)
qed

lemma affected_split:
  assumes "ce_id e = event" and "event \<notin> ce_id ` set (xs @ ys)" and "p e"
  shows "affected (\<lambda>x. ce_id x = event \<and> p x) (xs @ e # ys) = 1"
proof -
  have "filter (\<lambda>x. ce_id x = event \<and> p x) zs = []" if "\<forall>x \<in> set zs. ce_id x \<noteq> event" for zs
    using that by (auto simp: filter_empty_conv)
  then show ?thesis using only_event [OF assms(2)] assms(1,3) by (simp add: affected_def)
qed

lemma update_crash_split:
  assumes "crashes s = xs @ e # ys" and "ce_id e = event" and "event \<notin> ce_id ` set (xs @ ys)" and "p e"
  shows "update_crash (\<lambda>x. ce_id x = event \<and> p x) f s = Inr (s\<lparr>crashes := xs @ f e # ys\<rparr>)"
  using assms by (simp add: update_crash_def update_where_split affected_split)

lemma find_crash:
  "distinct (map ce_id es) \<Longrightarrow> e \<in> set es \<Longrightarrow> find (\<lambda>x. ce_id x = ce_id e) es = Some e"
  by (induction es) (auto simp: image_iff)

lemma issue_members_split:
  "issue_members i (xs @ e # ys)
    = issue_members i xs @ (if ce_issue e = Some i then [e] else []) @ issue_members i ys"
  by (simp add: issue_members_def)

text \<open>Changing columns that the aggregates do not read.\<close>

lemma counted_same:
  assumes "ce_issue e' = ce_issue e" and "ce_id e' = ce_id e" and "ce_received e' = ce_received e" and "ce_quality e' = ce_quality e"
  shows "counted (xs @ e' # ys) i = counted (xs @ e # ys) i"
proof -
  have "rank e' = rank e" using assms by (simp add: rank_def)
  then show ?thesis
    using assms by (simp add: counted_def issue_members_split aggregate_issue_def first_seen_def last_seen_def representative_def)
qed

text \<open>An event that joins no issue does not count.\<close>

lemma counted_skip: "ce_issue e = None \<Longrightarrow> counted (xs @ e # ys) i = counted (xs @ ys) i"
  by (simp add: counted_def issue_members_def)

subsection \<open>Counting one more event\<close>

lemma better_rank:
  "ce_quality e \<noteq> None \<Longrightarrow> ce_quality r \<noteq> None \<Longrightarrow> better e r \<longleftrightarrow> rank e < rank r"
  by (auto simp: better_def rank_def)

lemma count_event_aggregate:
  assumes ids: "distinct (map ce_id es)" and sub: "set old \<subseteq> set es" and old: "old \<noteq> []"
    and new: "set new = insert e (set old)" "length new = Suc (length old)"
    and q: "\<forall>x \<in> set new. ce_quality x \<noteq> None"
    and i: "aggregate_issue old i = i"
  shows "count_event es e i = aggregate_issue new i"
proof -
  obtain r where r: "r \<in> set old" "rank r = Min (rank ` set old)" "representative old = ce_id r"
    using representative_mem [OF old] .
  have fields: "i_first_seen i = first_seen old" "i_last_seen i = last_seen old" "i_count i = int (length old)"
    "i_representative i = Some (ce_id r)"
    using arg_cong [OF i, of i_first_seen] arg_cong [OF i, of i_last_seen] arg_cong [OF i, of i_count]
      arg_cong [OF i, of i_representative] r(3) by (simp_all add: aggregate_issue_def)
  have found: "find (\<lambda>x. ce_id x = ce_id r) es = Some r" using r(1) sub by (intro find_crash [OF ids]) auto
  have "better e r \<longleftrightarrow> rank e < rank r" using q r(1) new(1) by (intro better_rank) auto
  then have rep: "Some (representative new) = (if better e r then Some (ce_id e) else Some (ce_id r))"
    using representative_insert [OF old new(1) r(1,2)] by simp
  show ?thesis
    using new(2) by (simp add: count_event_def aggregate_issue_def fields found rep first_seen_insert [OF new(1) old]
        last_seen_insert [OF new(1) old])
qed

subsection \<open>Updates of one issue\<close>

lemma update_issue_ok:
  assumes "distinct (map i_id (issues s))" and "i \<in> set (issues s)"
  shows "update_issue (i_id i) f s = Inr (s\<lparr>issues := update_where (\<lambda>j. i_id j = i_id i) f (issues s)\<rparr>)"
proof -
  have "affected (\<lambda>j. i_id j = i_id i) is = 1" if "distinct (map i_id is)" "i \<in> set is" for "is"
    using that by (induction "is") (auto simp: affected_def image_iff filter_empty_conv)
  then show ?thesis using assms by (simp add: update_issue_def)
qed

lemma find_issue: "distinct (map i_id is) \<Longrightarrow> i \<in> set is \<Longrightarrow> find (\<lambda>j. i_id j = i_id i) is = Some i"
  by (induction "is") (auto simp: image_iff)

lemma set_update_issue:
  assumes "distinct (map i_id is)" and "i \<in> set is"
  shows "set (update_where (\<lambda>j. i_id j = i_id i) f is) = insert (f i) (set is - {i})"
proof -
  have "i_id j = i_id i \<longleftrightarrow> j = i" if "j \<in> set is" for j
    using assms that by (auto simp: distinct_map inj_on_def)
  then have "update_where (\<lambda>j. i_id j = i_id i) f is = map (\<lambda>j. if j = i then f i else j) is"
    by (simp add: update_where_def)
  then show ?thesis using assms(2) by auto
qed

lemma map_update_issue:
  assumes "\<And>j. g (f j) = g j"
  shows "map g (update_where p f is) = map g is"
  using assms by (simp add: update_where_def)

lemma in_issue_same:
  "i_id j = i_id i \<Longrightarrow> issue_key j = issue_key i \<Longrightarrow> in_issue j e = in_issue i e"
  by (simp add: in_issue_def issue_key_def)

lemma some_issue_updated:
  assumes "distinct (map i_id is)" and "i \<in> set is" and "i_id (f i) = i_id i" and "issue_key (f i) = issue_key i"
  shows "(\<exists>j \<in> set (update_where (\<lambda>j. i_id j = i_id i) f is). in_issue j e) = (\<exists>j \<in> set is. in_issue j e)"
  unfolding set_update_issue [OF assms(1,2)] using assms(2) in_issue_same [OF assms(3,4)] by auto

text \<open>An update that keeps identity, key and aggregates.\<close>

lemma base_ok_update_issue:
  assumes ok: "base_ok s" and i: "i \<in> set (issues s)"
    and keep: "\<And>j. i_id (f j) = i_id j" "\<And>j. issue_key (f j) = issue_key j"
    and counted: "\<And>es j. counted es (f j) = counted es j" and status: "status_ok (f i)"
  shows "base_ok (s\<lparr>issues := update_where (\<lambda>j. i_id j = i_id i) f (issues s)\<rparr>)"
proof -
  let ?is = "update_where (\<lambda>j. i_id j = i_id i) f (issues s)"
  have d: "distinct (map i_id (issues s))" using ok by (simp add: base_ok_def)
  have "crash_ok (s\<lparr>issues := ?is\<rparr>) e = crash_ok s e" for e
    by (simp add: crash_ok_def some_issue_updated [where f = f, OF d i keep(1) keep(2)])
  moreover have "\<forall>j \<in> set ?is. counted (crashes s) j \<and> status_ok j"
    using ok i counted status by (auto simp: set_update_issue [OF d i] base_ok_def)
  ultimately show ?thesis
    using ok unfolding base_ok_def
    by (simp add: map_update_issue [where g = i_id, OF keep(1)] map_update_issue [where g = issue_key, OF keep(2)])
qed

lemma base_ok_memberships [simp]: "base_ok (s\<lparr>memberships := ms\<rparr>) = base_ok s"
  by (simp add: base_ok_def crash_ok_def)

lemma base_ok_candidates [simp]: "base_ok (s\<lparr>release_candidates := cs\<rparr>) = base_ok s"
  by (simp add: base_ok_def crash_ok_def)

text \<open>An update of one event that the aggregates do not see.\<close>

lemma crash_ok_crashes [simp]: "crash_ok (s\<lparr>crashes := es\<rparr>) e = crash_ok s e"
  by (simp add: crash_ok_def)

lemma crash_ok_candidates [simp]: "crash_ok (s\<lparr>release_candidates := c\<rparr>) e = crash_ok s e"
  by (simp add: crash_ok_def)

lemma base_ok_crash:
  assumes ok: "base_ok s" and es: "crashes s = xs @ e # ys" and id: "ce_id e' = ce_id e" and row: "crash_ok s e'"
    and same: "ce_issue e' = ce_issue e \<and> ce_received e' = ce_received e \<and> ce_quality e' = ce_quality e
        \<and> ce_variant e' = ce_variant e \<or> ce_issue e = None \<and> ce_issue e' = None"
  shows "base_ok (s\<lparr>crashes := xs @ e' # ys\<rparr>)"
proof -
  have t: "tracks variant_key (variants s) (xs @ e # ys)" using ok es by (simp add: base_ok_def)
  have "tracks variant_key (variants s) (xs @ e' # ys) \<and> (\<forall>i. counted (xs @ e' # ys) i = counted (xs @ e # ys) i)"
    using same
  proof
    assume *: "ce_issue e' = ce_issue e \<and> ce_received e' = ce_received e \<and> ce_quality e' = ce_quality e
        \<and> ce_variant e' = ce_variant e"
    then have "variant_key e' = variant_key e" by (simp add: variant_key_def)
    then show ?thesis using * tracks_same [OF _ id _ _ t] counted_same [OF _ id] by blast
  next
    assume *: "ce_issue e = None \<and> ce_issue e' = None"
    then have "variant_key e = None" "variant_key e' = None" by (simp_all add: variant_key_def)
    then show ?thesis using * t by (simp add: tracks_skip counted_skip)
  qed
  then show ?thesis using ok row id unfolding base_ok_def by (simp add: es)
qed

subsection \<open>Recording the releases of an event\<close>

definition mapped :: "uuid list \<Rightarrow> crash_row \<Rightarrow> crash_row" where
  "mapped cs e = e\<lparr>ce_release := matched_id cs, ce_mapping := resolution_state cs\<rparr>"

lemma matched_iff: "resolution_state cs = Matched \<longleftrightarrow> matched_id cs \<noteq> None"
  by (cases cs rule: matched_id.cases) (auto simp: resolution_state_def)

lemma matched_mem: "matched_id cs = Some r \<Longrightarrow> r \<in> set cs"
  by (cases cs rule: matched_id.cases) auto

lemma mapped_simps [simp]:
  "ce_id (mapped cs e) = ce_id e" "ce_issue (mapped cs e) = ce_issue e" "ce_received (mapped cs e) = ce_received e"
  "ce_quality (mapped cs e) = ce_quality e" "ce_variant (mapped cs e) = ce_variant e"
  "ce_grouping (mapped cs e) = ce_grouping e" "ce_release (mapped cs e) = matched_id cs"
  "ce_mapping (mapped cs e) = resolution_state cs" "in_issue i (mapped cs e) = in_issue i e"
  by (simp_all add: mapped_def in_issue_def)

lemma mapping_ok:
  assumes ok: "base_ok s" and es: "crashes s = xs @ e # ys" and id: "ce_id e = event" "event \<notin> ce_id ` set (xs @ ys)"
    and cs: "set cs \<subseteq> rel_id ` set (releases s)"
  shows "\<exists>c. record_release_mapping event cs s = Inr (s\<lparr>release_candidates := c, crashes := xs @ mapped cs e # ys\<rparr>)
    \<and> base_ok (s\<lparr>release_candidates := c, crashes := xs @ mapped cs e # ys\<rparr>)"
proof -
  have "crash_ok s e" using ok es by (simp add: base_ok_def)
  then have "crash_ok s (mapped cs e)" using cs matched_mem by (auto simp: crash_ok_def matched_iff)
  then have "base_ok (s\<lparr>release_candidates := c, crashes := xs @ mapped cs e # ys\<rparr>)" for c
    by (intro base_ok_crash [where e = e]) (simp_all add: ok es)
  moreover have "update_crash (\<lambda>x. ce_id x = event) (mapped cs) (s\<lparr>release_candidates := c\<rparr>)
      = Inr (s\<lparr>release_candidates := c, crashes := xs @ mapped cs e # ys\<rparr>)" for c
    using update_crash_split [where p = "\<lambda>_. True", of "s\<lparr>release_candidates := c\<rparr>"] es id by simp
  ultimately show ?thesis by (auto simp: record_release_mapping_def mapped_def [abs_def] Let_def)
qed

subsection \<open>Assigning an event to an issue\<close>

lemma group_crash_simps [simp]:
  "ce_id (group_crash i f e) = ce_id e" "ce_received (group_crash i f e) = ce_received e"
  "ce_issue (group_crash i f e) = Some i" "ce_quality (group_crash i f e) = Some (quality f)"
  "ce_variant (group_crash i f e) = Some (variant_fingerprint f)" "ce_grouping (group_crash i f e) = GroupDone"
  "ce_release (group_crash i f e) = ce_release e" "ce_mapping (group_crash i f e) = ce_mapping e"
  "variant_key (group_crash i f e) = Some (i, variant_fingerprint f)"
  by (simp_all add: group_crash_def variant_key_def)

lemma count_event_simps [simp]:
  "i_id (count_event es e i) = i_id i" "issue_key (count_event es e i) = issue_key i"
  "status_ok (count_event es e i) = status_ok i"
  by (simp_all add: count_event_def issue_key_def status_ok_def)

lemma aggregate_issue_simps [simp]:
  "i_id (aggregate_issue es i) = i_id i" "issue_key (aggregate_issue es i) = issue_key i"
  "aggregate_issue es (aggregate_issue es' i) = aggregate_issue es i"
  by (simp_all add: aggregate_issue_def issue_key_def)

lemma new_issue_simps [simp]:
  "i_id (new_issue fresh f e) = fresh" "status_ok (new_issue fresh f e)"
  "issue_key (new_issue fresh f e) = (fingerprint_algorithm, fingerprint_version, issue_fingerprint f)"
  by (simp_all add: new_issue_def issue_key_def status_ok_def)

lemma in_issue_grouped:
  "issue_key i = (fingerprint_algorithm, fingerprint_version, issue_fingerprint f) \<Longrightarrow> in_issue i (group_crash (i_id i) f e)"
  by (simp add: in_issue_def issue_key_def group_crash_def)

lemma members_have_issue:
  assumes "\<forall>e \<in> set es. crash_ok s e" and "x \<in> set es" and "ce_issue x = Some i"
  shows "\<exists>j \<in> set (issues s). i_id j = i \<and> in_issue j x"
proof -
  have "\<exists>j \<in> set (issues s). in_issue j x" using assms by (cases "ce_grouping x = GroupDone") (auto simp: crash_ok_def)
  then show ?thesis using assms(3) by (auto simp: in_issue_def)
qed

lemma counted_other:
  "ce_issue e = None \<Longrightarrow> i_id j \<noteq> i \<Longrightarrow> counted (xs @ group_crash i f e # ys) j = counted (xs @ e # ys) j"
  by (simp add: counted_def issue_members_def)

text \<open>The invariant for the tables after the event has joined the issue and its variant.\<close>

lemma base_ok_grouped:
  assumes ok: "base_ok s" and es: "crashes s = xs @ e # ys" and new: "ce_grouping e \<noteq> GroupDone"
    and ids: "distinct (map i_id is)" "distinct (map issue_key is)"
    and kept: "\<And>x. (\<exists>j \<in> set (issues s). in_issue j x) \<Longrightarrow> \<exists>j \<in> set is. in_issue j x"
    and here: "\<exists>j \<in> set is. in_issue j (group_crash issue f e)"
    and rows: "\<forall>j \<in> set is. counted (xs @ group_crash issue f e # ys) j \<and> status_ok j"
  shows "base_ok (s\<lparr>crashes := xs @ group_crash issue f e # ys, issues := is,
    variants := upsert_member (xs @ group_crash issue f e # ys)
      (single_member issue (variant_fingerprint f) (group_crash issue f e)) (variants s)\<rparr>)"
proof -
  let ?e = "group_crash issue f e"
  have none: "ce_issue e = None" and e: "crash_ok s e" using ok es new by (auto simp: base_ok_def crash_ok_def)
  have d: "distinct (map ce_id (xs @ ?e # ys))" using ok es by (simp add: base_ok_def)
  have "variant_key e = None" using none by (simp add: variant_key_def)
  then have "tracks variant_key (variants s) (xs @ ys)" using ok es by (simp add: base_ok_def tracks_skip)
  note t = tracks_upsert [OF this d group_crash_simps(9)]
  have "crash_ok s' x" if "crash_ok s x" "releases s' = releases s" "issues s' = is" for s' :: issue_tables and x
    using that kept [of x] by (auto simp: crash_ok_def split: if_splits)
  moreover have "crash_ok s' ?e" if "releases s' = releases s" "issues s' = is" for s' :: issue_tables
    using that e here by (auto simp: crash_ok_def)
  ultimately show ?thesis
    using ok es ids rows d t unfolding base_ok_def by auto
qed

lemma counted_new_issue:
  assumes "\<forall>x \<in> set (xs @ ys). ce_issue x \<noteq> Some fresh"
  shows "counted (xs @ group_crash fresh f e # ys) (new_issue fresh f e)"
proof -
  have "issue_members fresh (xs @ group_crash fresh f e # ys) = [group_crash fresh f e]"
    using assms by (simp add: issue_members_def filter_empty_conv)
  then show ?thesis
    by (simp add: counted_def aggregate_issue_def new_issue_def first_seen_def last_seen_def representative_def rank_def)
qed

lemma counted_joined:
  assumes ok: "base_ok s" and es: "crashes s = xs @ e # ys" and none: "ce_issue e = None" and i: "i \<in> set (issues s)"
  shows "counted (xs @ group_crash (i_id i) f e # ys)
    (count_event (xs @ group_crash (i_id i) f e # ys) (group_crash (i_id i) f e) i)"
proof -
  let ?e = "group_crash (i_id i) f e"
  let ?old = "issue_members (i_id i) (xs @ e # ys)" and ?new = "issue_members (i_id i) (xs @ ?e # ys)"
  have old: "?old \<noteq> []" "aggregate_issue ?old i = i" using ok es i by (auto simp: base_ok_def counted_def)
  have sets: "set ?new = insert ?e (set ?old)" "length ?new = Suc (length ?old)"
    using none by (auto simp: issue_members_def)
  have "ce_quality x \<noteq> None" if "x \<in> set ?old" for x
  proof -
    have "x \<in> set (crashes s)" "ce_issue x = Some (i_id i)" using that unfolding es issue_members_def by (auto split: if_splits)
    then show ?thesis using ok members_have_issue [of "crashes s" s x "i_id i"] by (auto simp: base_ok_def in_issue_def)
  qed
  then have q: "\<forall>x \<in> set ?new. ce_quality x \<noteq> None" using sets(1) by auto
  have "set ?old \<subseteq> set (xs @ ?e # ys)" using none by (auto simp: issue_members_def)
  moreover have "distinct (map ce_id (xs @ ?e # ys))" using ok es by (simp add: base_ok_def)
  ultimately have "count_event (xs @ ?e # ys) ?e i = aggregate_issue ?new i"
    by (intro count_event_aggregate [where old = ?old]) (use old sets q in auto)
  moreover have "?new \<noteq> []" using sets by auto
  ultimately show ?thesis by (simp add: counted_def)
qed

lemma assign_ok:
  assumes ok: "base_ok s" and es: "crashes s = xs @ e # ys" and id: "ce_id e = event" "event \<notin> ce_id ` set (xs @ ys)"
    and new: "ce_grouping e \<noteq> GroupDone" and fresh: "fresh \<notin> i_id ` set (issues s)"
  shows "\<exists>a s'. assign_issue fresh event f received s = Inr (a, s') \<and> ga_first_assignment a
    \<and> crashes s' = xs @ group_crash (ga_issue a) f e # ys \<and> memberships s' = memberships s \<and> releases s' = releases s
    \<and> (\<exists>i \<in> set (issues s'). i_id i = ga_issue a) \<and> base_ok s' \<and> ga_previous_release a = None"
proof -
  have d: "distinct (map i_id (issues s))" "distinct (map issue_key (issues s))"
    and none: "ce_issue e = None" and rows: "\<forall>x \<in> set (crashes s). crash_ok s x"
    and old: "\<forall>i \<in> set (issues s). counted (xs @ e # ys) i \<and> status_ok i"
    using ok es new by (auto simp: base_ok_def crash_ok_def)
  have found: "crash_of event s = Some e"
    using find_crash [of "crashes s" e] ok es id(1) by (simp add: crash_of_def base_ok_def)
  have grouped: "update_crash (\<lambda>x. ce_id x = event \<and> ce_grouping x \<noteq> GroupDone) (group_crash i f) t
      = Inr (t\<lparr>crashes := xs @ group_crash i f e # ys\<rparr>)" if "crashes t = crashes s" for i t
    by (rule update_crash_split) (use that es id new in simp_all)
  let ?key = "(fingerprint_algorithm, fingerprint_version, issue_fingerprint f)"
  show ?thesis
  proof (cases "find (\<lambda>i. issue_key i = ?key) (issues s)")
    case None
    then have absent: "\<forall>i \<in> set (issues s). issue_key i \<noteq> ?key" by (auto simp: find_None_iff)
    have "\<forall>x \<in> set (xs @ ys). ce_issue x \<noteq> Some fresh"
      using members_have_issue [OF rows] fresh es by fastforce
    note counted = counted_new_issue [OF this]
    have "counted (xs @ group_crash fresh f e # ys) j" if "j \<in> set (issues s)" for j
    proof -
      have "i_id j \<noteq> fresh" using that fresh by auto
      then show ?thesis using counted_other [OF none, of j fresh] that old by simp
    qed
    then have "base_ok (s\<lparr>crashes := xs @ group_crash fresh f e # ys, issues := issues s @ [new_issue fresh f e],
        variants := upsert_member (xs @ group_crash fresh f e # ys)
          (single_member fresh (variant_fingerprint f) (group_crash fresh f e)) (variants s)\<rparr>)"
      using d fresh absent counted old in_issue_grouped [of "new_issue fresh f e" f e]
      by (intro base_ok_grouped [OF ok es new]) auto
    moreover have swap: "s\<lparr>issues := is, crashes := es, variants := vs\<rparr> = s\<lparr>crashes := es, issues := is, variants := vs\<rparr>"
      for "is" es vs by simp
    ultimately show ?thesis
      by (simp add: assign_issue_def found issue_for_def None grouped) (subst swap, assumption)
  next
    case (Some i)
    then have i: "i \<in> set (issues s)" "issue_key i = ?key" by (auto simp: find_Some_iff)
    let ?es = "xs @ group_crash (i_id i) f e # ys"
    let ?is = "update_where (\<lambda>j. i_id j = i_id i) (count_event ?es (group_crash (i_id i) f e)) (issues s)"
    note upd = some_issue_updated [where f = "count_event ?es (group_crash (i_id i) f e)", OF d(1) i(1) count_event_simps(1,2)]
    have "counted ?es j" if "j \<in> set (issues s) - {i}" for j
    proof -
      have "i_id j \<noteq> i_id i" using that d(1) i(1) by (auto simp: distinct_map inj_on_def)
      then show ?thesis using counted_other [OF none, of j "i_id i"] that old by simp
    qed
    then have rows: "\<forall>j \<in> set ?is. counted ?es j \<and> status_ok j"
      unfolding set_update_issue [OF d(1) i(1)] using counted_joined [OF ok es none i(1)] old i(1) by auto
    have "\<exists>j \<in> set ?is. in_issue j (group_crash (i_id i) f e)"
      unfolding upd using i(1) in_issue_grouped [OF i(2)] by auto
    then have "base_ok (s\<lparr>crashes := ?es, issues := ?is,
        variants := upsert_member ?es (single_member (i_id i) (variant_fingerprint f) (group_crash (i_id i) f e)) (variants s)\<rparr>)"
      by (intro base_ok_grouped [OF ok es new _ _ _ _ rows])
        (simp_all add: d map_update_issue [where g = i_id] map_update_issue [where g = issue_key] upd)
    moreover have "update_issue (i_id i) (count_event ?es (group_crash (i_id i) f e)) (s\<lparr>crashes := ?es\<rparr>)
        = Inr (s\<lparr>crashes := ?es, issues := ?is\<rparr>)"
      using update_issue_ok [of "s\<lparr>crashes := ?es\<rparr>" i] d(1) i(1) by simp
    moreover have "\<exists>j \<in> set ?is. i_id j = i_id i" unfolding set_update_issue [OF d(1) i(1)] by simp
    ultimately show ?thesis
      by (simp add: assign_issue_def found issue_for_def Some grouped Let_def)
  qed
qed

subsection \<open>The releases of the issue follow\<close>

lemma add_release_ok:
  assumes es: "crashes s = xs @ e # ys" and ids: "distinct (map ce_id (crashes s))" and e: "ce_issue e = Some i" "ce_mapping e = Matched"
    "ce_release e = Some r"
    and t: "tracks release_key (memberships s) (xs @ ys)"
  shows "\<exists>ms. add_release_membership (ce_id e) i r s = Inr (s\<lparr>memberships := ms\<rparr>) \<and> tracks release_key ms (crashes s)"
proof -
  have "ce_id e \<notin> ce_id ` set (xs @ ys)" using ids es by auto
  note no = only_event [OF this]
  have "filter (\<lambda>x. ce_id x = ce_id e \<and> ce_issue x = Some i \<and> ce_release x = Some r \<and> ce_mapping x = Matched) (crashes s) = [e]"
    using no e unfolding es by (auto simp: filter_empty_conv)
  moreover have "release_key e = Some (i, r)" using e by (simp add: release_key_def)
  ultimately show ?thesis
    using tracks_upsert [OF t, of e i r] ids es
    by (intro exI [of _ "upsert_member (crashes s) (single_member i r e) (memberships s)"]) (simp add: add_release_membership_def)
qed

lemma release_key_iff:
  "release_key e = Some (i, r) \<longleftrightarrow> ce_issue e = Some i \<and> ce_release e = Some r \<and> ce_mapping e = Matched"
  by (auto simp: release_key_def split: option.splits)

text \<open>The selections of a removal are the other events of the release.\<close>

lemma release_members_eq:
  assumes ok: "base_ok s" and es: "crashes s = xs @ e # ys" and key: "release_key e \<noteq> Some (i, r)"
  shows "release_members i r s = filter (\<lambda>x. release_key x = Some (i, r)) (xs @ ys)"
proof -
  have "ce_grouping x = GroupDone" if "x \<in> set (crashes s)" "ce_issue x = Some i" for x
  proof -
    have "crash_ok s x" using that(1) ok by (simp add: base_ok_def)
    then show ?thesis using that(2) by (auto simp: crash_ok_def split: if_splits)
  qed
  then have "release_members i r s = filter (\<lambda>x. release_key x = Some (i, r)) (crashes s)"
    by (auto simp: release_members_def release_key_iff intro!: filter_cong)
  then show ?thesis using key by (simp add: es)
qed

definition exists_issue :: "uuid \<Rightarrow> issue_tables \<Rightarrow> bool" where
  "exists_issue i s \<longleftrightarrow> (\<exists>j \<in> set (issues s). i_id j = i)"

text \<open>An event that was in the issue before: its old release gives way to its new one.\<close>

lemma moved_delta_ok:
  assumes ok: "base_ok s" and es: "crashes s = xs @ mapped cs e # ys" and e: "ce_issue e = Some i"
    and old: "ce_mapping e = Matched \<longleftrightarrow> ce_release e \<noteq> None"
    and t: "tracks release_key (memberships s) (xs @ e # ys)"
    and a: "a = \<lparr>ga_issue = i, ga_first_assignment = False, ga_previous_release = ce_release e, ga_received = ce_received e\<rparr>"
  shows "\<exists>b ms. apply_release_delta (ce_id e) a (matched_id cs) s = Inr (b, s\<lparr>memberships := ms\<rparr>)
    \<and> tracks release_key ms (crashes s)"
proof (cases "ce_release e = matched_id cs")
  case True
  then have "release_key (mapped cs e) = release_key e" using old by (simp add: release_key_def matched_iff)
  then have "tracks release_key (memberships s) (crashes s)"
    using tracks_same [OF _ _ _ _ t, of "mapped cs e"] by (simp add: es)
  moreover have "s = s\<lparr>memberships := memberships s\<rparr>" by simp
  moreover have "apply_release_delta (ce_id e) a (matched_id cs) s = Inr (False, s)" using True by (simp add: apply_release_delta_def a)
  ultimately show ?thesis by metis
next
  case False
  have ids: "distinct (map ce_id (xs @ e # ys))" "distinct (map ce_id (crashes s))" using ok es by (auto simp: base_ok_def)
  have removed: "\<exists>ms. (case ce_release e of Some r \<Rightarrow> remove_release_membership (ce_id e) i r (ce_received e) s | None \<Rightarrow> Inr s)
      = Inr (s\<lparr>memberships := ms\<rparr>) \<and> tracks release_key ms (xs @ ys)"
  proof (cases "ce_release e")
    case None
    then have "release_key e = None" using old by (simp add: release_key_def)
    then have "tracks release_key (memberships s) (xs @ ys)" using t by (simp add: tracks_skip)
    then show ?thesis using None by (intro exI [of _ "memberships s"]) simp
  next
    case (Some r)
    then have key: "release_key e = Some (i, r)" using e old by (simp add: release_key_iff)
    have "release_key (mapped cs e) \<noteq> Some (i, r)" using False Some by (simp add: release_key_iff)
    from tracks_remove [OF t ids(1) key release_members_eq [OF ok es this]] show ?thesis using Some by simp
  qed
  then obtain ms where ms: "(case ce_release e of Some r \<Rightarrow> remove_release_membership (ce_id e) i r (ce_received e) s | None \<Rightarrow> Inr s)
      = Inr (s\<lparr>memberships := ms\<rparr>)" "tracks release_key ms (xs @ ys)"
    by blast
  have "\<exists>ms'. (case matched_id cs of Some r \<Rightarrow> add_release_membership (ce_id e) i r (s\<lparr>memberships := ms\<rparr>) | None \<Rightarrow> Inr (s\<lparr>memberships := ms\<rparr>))
      = Inr (s\<lparr>memberships := ms'\<rparr>) \<and> tracks release_key ms' (crashes s)"
  proof (cases "matched_id cs")
    case None
    then have "release_key (mapped cs e) = None" by (simp add: release_key_def matched_iff)
    then have "tracks release_key ms (crashes s)" using ms(2) by (simp add: es tracks_skip)
    then show ?thesis using None by auto
  next
    case (Some r)
    then show ?thesis
      using add_release_ok [of "s\<lparr>memberships := ms\<rparr>" xs "mapped cs e" ys i r] es ids(2) e ms(2) matched_iff [of cs] by simp
  qed
  then obtain ms' where "(case matched_id cs of Some r \<Rightarrow> add_release_membership (ce_id e) i r (s\<lparr>memberships := ms\<rparr>) | None \<Rightarrow> Inr (s\<lparr>memberships := ms\<rparr>))
      = Inr (s\<lparr>memberships := ms'\<rparr>)" "tracks release_key ms' (crashes s)" by blast
  then show ?thesis using False ms(1) by (auto simp: apply_release_delta_def a cong: option.case_cong)
qed

text \<open>An event that has just joined the issue.\<close>

lemma joined_delta_ok:
  assumes ok: "base_ok s" and es: "crashes s = xs @ e' # ys" and e': "ce_id e' = event" "ce_issue e' = Some i"
      "ce_release e' = matched_id cs" "ce_mapping e' = resolution_state cs"
    and t: "tracks release_key (memberships s) (xs @ ys)"
    and a: "ga_issue a = i" "ga_first_assignment a" "ga_previous_release a = None"
  shows "\<exists>ms. apply_release_delta event a (matched_id cs) s = Inr (True, s\<lparr>memberships := ms\<rparr>)
    \<and> tracks release_key ms (crashes s)"
proof (cases "matched_id cs")
  case None
  then have "release_key e' = None" using e' by (simp add: release_key_def matched_iff)
  then have "tracks release_key (memberships s) (crashes s)" using t by (simp add: es tracks_skip)
  moreover have "s = s\<lparr>memberships := memberships s\<rparr>" by simp
  moreover have "apply_release_delta event a (matched_id cs) s = Inr (True, s)"
    using None a by (simp add: apply_release_delta_def)
  ultimately show ?thesis by metis
next
  case (Some r)
  have "distinct (map ce_id (crashes s))" using ok by (simp add: base_ok_def)
  from add_release_ok [OF es this e'(2) _ _ t, of r] show ?thesis
    using Some a e' matched_iff [of cs] by (auto simp: apply_release_delta_def)
qed

subsection \<open>Status and the remaining steps\<close>

lemma find_exists_issue:
  assumes "distinct (map i_id (issues s))" and "exists_issue issue s"
  obtains i where "i \<in> set (issues s)" and "i_id i = issue" and "find (\<lambda>j. i_id j = issue) (issues s) = Some i"
  using assms find_issue by (auto simp: exists_issue_def)

lemma next_transition_ok:
  assumes "status_ok i" and "next_transition c later i = (st, reg)" and "later \<Longrightarrow> i_resolved_in i \<noteq> None"
  shows "status_ok (i\<lparr>i_first_release := f, i_last_release := l, i_status := st, i_regression := reg\<rparr>)"
  using assms by (auto simp: status_ok_def next_transition_def split: if_splits)

lemma later_resolved: "later_release c (resolution_timestamp i s) \<Longrightarrow> i_resolved_in i \<noteq> None"
  by (auto simp: later_release_def resolution_timestamp_def bind_eq_Some_conv split: option.splits)

text \<open>A transition changes the status and the chronology of one issue.\<close>

lemma transitions_ok:
  assumes ok: "base_ok s" and i: "exists_issue issue s"
  shows "\<exists>f. update_issue_transitions issue enabled s = Inr (s\<lparr>issues := update_where (\<lambda>j. i_id j = issue) f (issues s)\<rparr>)
    \<and> base_ok (s\<lparr>issues := update_where (\<lambda>j. i_id j = issue) f (issues s)\<rparr>)
    \<and> (\<forall>j. i_id (f j) = i_id j)"
proof -
  have d: "distinct (map i_id (issues s))" using ok by (simp add: base_ok_def)
  obtain i where i: "i \<in> set (issues s)" "i_id i = issue" "find (\<lambda>j. i_id j = issue) (issues s) = Some i"
    using find_exists_issue [OF d i] .
  let ?f = "\<lambda>c st reg j. j\<lparr>i_first_release := rc_first c, i_last_release := rc_last c, i_status := st, i_regression := reg\<rparr>"
  have keep: "i_id (?f c st reg j) = i_id j" "issue_key (?f c st reg j) = issue_key j"
    "counted es (?f c st reg j) = counted es j" for c st reg j es
    by (simp_all add: issue_key_def counted_iff)
  have status: "status_ok i" using ok i(1) by (simp add: base_ok_def)
  have step: "update_issue_chronology issue c st reg s = Inr (s\<lparr>issues := update_where (\<lambda>j. i_id j = issue) (?f c st reg) (issues s)\<rparr>)
      \<and> base_ok (s\<lparr>issues := update_where (\<lambda>j. i_id j = issue) (?f c st reg) (issues s)\<rparr>)"
    if "status_ok (?f c st reg i)" for c st reg
    using update_issue_ok [OF d i(1), of "?f c st reg"] base_ok_update_issue [where f = "?f c st reg", OF ok i(1) keep that] i(2)
    by (simp add: update_issue_chronology_def)
  let ?c = "load_release_chronology issue s"
  obtain st reg where step_to: "next_transition ?c (later_release ?c (resolution_timestamp i s)) i = (st, reg)" by fastforce
  have "status_ok (?f ?c (i_status i) (i_regression i) i)" using status by (simp add: status_ok_def)
  moreover have "status_ok (?f ?c st reg i)"
    using next_transition_ok [OF status step_to] later_resolved by blast
  ultimately have "status_ok (?f ?c (if enabled then st else i_status i) (if enabled then reg else i_regression i) i)"
    by (cases enabled) simp_all
  note done_step = step [OF this]
  have "update_issue_transitions issue enabled s
      = update_issue_chronology issue ?c (if enabled then st else i_status i) (if enabled then reg else i_regression i) s"
    by (simp add: update_issue_transitions_def i(3) Let_def step_to)
  with done_step keep(1) show ?thesis by metis
qed

lemma base_ok_parts:
  assumes "base_ok s" and "crash_of event s = Some e"
  obtains xs ys where "crashes s = xs @ e # ys" and "ce_id e = event" and "event \<notin> ce_id ` set (xs @ ys)" and "crash_ok s e"
proof -
  have "distinct (map ce_id (crashes s))" and rows: "\<forall>x \<in> set (crashes s). crash_ok s x" using assms(1) by (auto simp: base_ok_def)
  then obtain xs ys where "crashes s = xs @ e # ys" "ce_id e = event" "event \<notin> ce_id ` set (xs @ ys)"
    using crash_split assms(2) by metis
  with rows show ?thesis by (intro that) auto
qed

lemma transitions_issues_ok:
  assumes "issues_ok s" and "exists_issue issue s"
  shows "\<exists>s'. update_issue_transitions issue enabled s = Inr s' \<and> issues_ok s'"
  using transitions_ok [of s issue enabled] assms by (auto simp: issues_ok_def)

lemma ungroup_crash_simps [simp]:
  "ce_id (ungroup_crash st e) = ce_id e" "ce_issue (ungroup_crash st e) = None"
  "ce_release (ungroup_crash st e) = ce_release e" "ce_mapping (ungroup_crash st e) = ce_mapping e"
  "ce_grouping (ungroup_crash st e) = st"
  by (simp_all add: ungroup_crash_def)

lemma no_issue_keys: "ce_issue e = None \<Longrightarrow> variant_key e = None \<and> release_key e = None"
  by (simp add: variant_key_def release_key_def)

text \<open>After the event has been mapped, the rest of a publication succeeds in each case.\<close>

lemma grouped_rest_ok:
  assumes ok: "base_ok s" and es: "crashes s = xs @ mapped cs e # ys" and row: "crash_ok s e" and done': "ce_grouping e = GroupDone"
    and t: "tracks release_key (memberships s) (xs @ e # ys)"
  shows "\<exists>a b s'. apply_grouping fresh event e grouping s = Inr (Some a, s)
    \<and> apply_release_delta (ce_id e) a (matched_id cs) s = Inr (b, s') \<and> issues_ok s' \<and> exists_issue (ga_issue a) s'"
proof -
  obtain j where j: "j \<in> set (issues s)" "in_issue j e" using row done' by (auto simp: crash_ok_def)
  then have i: "ce_issue e = Some (i_id j)" by (simp add: in_issue_def)
  have "ce_mapping e = Matched \<longleftrightarrow> ce_release e \<noteq> None" using row by (simp add: crash_ok_def)
  from moved_delta_ok [OF ok es i this t refl] obtain b ms
    where "apply_release_delta (ce_id e) \<lparr>ga_issue = i_id j, ga_first_assignment = False, ga_previous_release = ce_release e,
        ga_received = ce_received e\<rparr> (matched_id cs) s = Inr (b, s\<lparr>memberships := ms\<rparr>)" "tracks release_key ms (crashes s)"
    by blast
  moreover have "apply_grouping fresh event e grouping s = Inr (Some \<lparr>ga_issue = i_id j, ga_first_assignment = False,
      ga_previous_release = ce_release e, ga_received = ce_received e\<rparr>, s)"
    using done' i by (simp add: apply_grouping_def)
  ultimately show ?thesis using ok j(1) by (auto simp: issues_ok_def exists_issue_def)
qed

lemma joined_rest_ok:
  assumes ok: "base_ok s" and es: "crashes s = xs @ mapped cs e # ys" and id: "ce_id e = event" "event \<notin> ce_id ` set (xs @ ys)"
    and new: "ce_grouping e \<noteq> GroupDone" and fresh: "fresh \<notin> i_id ` set (issues s)" and none: "ce_issue e = None"
    and t: "tracks release_key (memberships s) (xs @ e # ys)"
  shows "\<exists>a s1 s'. apply_grouping fresh event e (GroupedAs f) s = Inr (Some a, s1)
    \<and> apply_release_delta event a (matched_id cs) s1 = Inr (True, s') \<and> issues_ok s' \<and> exists_issue (ga_issue a) s'"
proof -
  have "ce_grouping (mapped cs e) \<noteq> GroupDone" "ce_id (mapped cs e) = event" using new id by simp_all
  from assign_ok [OF ok es this(2) id(2) this(1) fresh] obtain a s1 where
    a: "assign_issue fresh event f (ce_received e) s = Inr (a, s1)" "ga_first_assignment a" "ga_previous_release a = None"
    and s1: "crashes s1 = xs @ group_crash (ga_issue a) f (mapped cs e) # ys" "memberships s1 = memberships s" "base_ok s1"
      "\<exists>i \<in> set (issues s1). i_id i = ga_issue a"
    by blast
  have "tracks release_key (memberships s1) (xs @ ys)" using t s1(2) no_issue_keys [OF none] by (simp add: tracks_skip)
  from joined_delta_ok [OF s1(3,1) _ _ _ _ this refl a(2,3), of event cs] obtain ms where
    "apply_release_delta event a (matched_id cs) s1 = Inr (True, s1\<lparr>memberships := ms\<rparr>)" "tracks release_key ms (crashes s1)"
    using id(1) by auto
  moreover have "apply_grouping fresh event e (GroupedAs f) s = Inr (Some a, s1)" using new a(1) by (simp add: apply_grouping_def)
  ultimately show ?thesis using s1 by (auto simp: issues_ok_def exists_issue_def)
qed

lemma unassigned_rest_ok:
  assumes ok: "base_ok s" and es: "crashes s = xs @ mapped cs e # ys" and id: "ce_id e = event" "event \<notin> ce_id ` set (xs @ ys)"
    and new: "ce_grouping e \<noteq> GroupDone" and row: "crash_ok s e" and not: "\<forall>f. grouping \<noteq> GroupedAs f"
    and cs: "set cs \<subseteq> rel_id ` set (releases s)" and t: "tracks release_key (memberships s) (xs @ e # ys)"
  shows "\<exists>s'. apply_grouping fresh event e grouping s = Inr (None, s') \<and> issues_ok s'"
proof -
  have none: "ce_issue e = None" using row new by (simp add: crash_ok_def)
  have "update_crash (\<lambda>x. ce_id x = event \<and> ce_grouping x \<noteq> GroupDone) (ungroup_crash st) s
      = Inr (s\<lparr>crashes := xs @ ungroup_crash st (mapped cs e) # ys\<rparr>)" for st
    by (rule update_crash_split [OF es _ id(2)]) (use id new in simp_all)
  moreover have "issues_ok (s\<lparr>crashes := xs @ ungroup_crash st (mapped cs e) # ys\<rparr>)" if "st \<noteq> GroupDone" for st
  proof -
    have "crash_ok s (ungroup_crash st (mapped cs e))"
      using that cs matched_mem by (auto simp: crash_ok_def matched_iff)
    then have "base_ok (s\<lparr>crashes := xs @ ungroup_crash st (mapped cs e) # ys\<rparr>)"
      by (intro base_ok_crash [OF ok es]) (simp_all add: none)
    then show ?thesis
      using t no_issue_keys [OF none] no_issue_keys [of "ungroup_crash st (mapped cs e)"] by (simp add: issues_ok_def tracks_skip)
  qed
  ultimately show ?thesis using new not by (cases grouping) (auto simp: apply_grouping_def)
qed

lemma publish_ok:
  assumes ok: "issues_ok s" and found: "crash_of event s = Some e" and fresh: "fresh \<notin> i_id ` set (issues s)"
    and cs: "set cs \<subseteq> rel_id ` set (releases s)"
  shows "\<exists>r s'. publish_grouping enabled fresh event grouping cs s = Inr (r, s') \<and> issues_ok s'"
proof -
  have base: "base_ok s" and t: "tracks release_key (memberships s) (crashes s)" using ok by (simp_all add: issues_ok_def)
  obtain xs ys where es: "crashes s = xs @ e # ys" and id: "ce_id e = event" "event \<notin> ce_id ` set (xs @ ys)" and row: "crash_ok s e"
    using base_ok_parts [OF base found] .
  obtain c where m: "record_release_mapping event cs s = Inr (s\<lparr>release_candidates := c, crashes := xs @ mapped cs e # ys\<rparr>)"
    "base_ok (s\<lparr>release_candidates := c, crashes := xs @ mapped cs e # ys\<rparr>)"
    using mapping_ok [OF base es id cs] by blast
  let ?s = "s\<lparr>release_candidates := c, crashes := xs @ mapped cs e # ys\<rparr>"
  have locked: "lock_event event s = Inr e" by (simp add: lock_event_def found)
  have t': "tracks release_key (memberships ?s) (xs @ e # ys)" using t es by simp
  have row': "crash_ok ?s e" using row by simp
  show ?thesis
  proof (cases "ce_grouping e = GroupDone \<or> (\<exists>f. grouping = GroupedAs f)")
    case True
    have "\<exists>a s1 b s'. apply_grouping fresh event e grouping ?s = Inr (Some a, s1)
        \<and> apply_release_delta event a (matched_id cs) s1 = Inr (b, s') \<and> issues_ok s' \<and> exists_issue (ga_issue a) s'"
    proof (cases "ce_grouping e = GroupDone")
      case True
      then show ?thesis using grouped_rest_ok [OF m(2) _ row' _ t', of cs fresh event grouping] id(1) by auto
    next
      case new: False
      with True obtain f where f: "grouping = GroupedAs f" by blast
      have "ce_issue e = None" using row new by (simp add: crash_ok_def)
      from joined_rest_ok [OF m(2) _ id new _ this t', of cs fresh f] fresh show ?thesis unfolding f by simp blast
    qed
    then obtain a s1 b s2 where a: "apply_grouping fresh event e grouping ?s = Inr (Some a, s1)"
      "apply_release_delta event a (matched_id cs) s1 = Inr (b, s2)" and s2: "issues_ok s2" "exists_issue (ga_issue a) s2"
      by blast
    have "\<exists>s'. (if b then update_issue_transitions (ga_issue a) enabled s2 else Inr s2) = Inr s' \<and> issues_ok s'"
      using transitions_issues_ok [OF s2] s2(1) by simp
    then show ?thesis by (auto simp: publish_grouping_def locked m(1) a)
  next
    case False
    then have "\<exists>s'. apply_grouping fresh event e grouping ?s = Inr (None, s') \<and> issues_ok s'"
      using unassigned_rest_ok [OF m(2) _ id _ row' _ _ t', of cs grouping fresh] cs by auto
    then show ?thesis by (auto simp: publish_grouping_def locked m(1))
  qed
qed

subsection \<open>Repair\<close>

text \<open>Tables that track the same events have the same rows.\<close>

lemma tracks_same_rows:
  assumes "tracks key ms es" and "tracks key ms' es"
  shows "mset ms = mset ms'"
proof -
  have "m \<in> set ns \<longleftrightarrow> group_row (member_key m) (filter (\<lambda>e. key e = Some (member_key m)) es) = Some m"
    if "tracks key ns es" for ns m
    using lookup_member_mem [OF tracks_distinct [OF that], of m] lookup_member_Some [of ns "member_key m" m]
      tracks_lookup [OF that, of "member_key m"] by auto
  then have "set ms = set ms'" using assms by blast
  moreover have "distinct ms" "distinct ms'" using assms by (auto dest!: tracks_distinct simp: distinct_map)
  ultimately show ?thesis by (simp add: set_eq_iff_mset_eq_distinct)
qed

definition aggregate_row :: "(crash_row \<Rightarrow> ustring option) \<Rightarrow> uuid \<Rightarrow> crash_row list \<Rightarrow> ustring \<Rightarrow> member_row" where
  "aggregate_row key issue es k =
     (let ms = filter (\<lambda>e. key e = Some k) es in
      \<lparr>u_issue = issue, u_key = k, u_first = first_seen ms, u_last = last_seen ms, u_count = int (length ms),
       u_representative = representative ms\<rparr>)"

lemma aggregate_members_rows:
  assumes "\<forall>e \<in> set es. key e \<noteq> None"
  shows "aggregate_members key issue es = Inr (map (aggregate_row key issue es) (remdups (List.map_filter key es)))"
  using assms by (auto simp: aggregate_members_def aggregate_row_def [abs_def] list_ex_iff Let_def)

lemma aggregate_row_key: "member_key (aggregate_row key issue es k) = (issue, k)"
  by (simp add: aggregate_row_def member_key_def Let_def)

lemma lookup_rows:
  assumes "distinct ks"
  shows "lookup_member (map (aggregate_row key issue es) ks) (i, k)
    = (if i = issue \<and> k \<in> set ks then Some (aggregate_row key issue es k) else None)"
  using assms by (induction ks) (auto simp: lookup_member_def aggregate_row_key)

lemma lookup_other_issues:
  "lookup_member (filter (\<lambda>m. u_issue m \<noteq> issue) ms) (i, k) = (if i = issue then None else lookup_member ms (i, k))"
  by (induction ms) (auto simp: lookup_member_def member_key_def)

lemma aggregate_tracks:
  assumes t: "tracks gk ms cs" and some: "\<forall>e \<in> set es. key e \<noteq> None"
    and groups: "\<And>k. filter (\<lambda>e. gk e = Some (issue, k)) cs = filter (\<lambda>e. key e = Some k) es"
  shows "tracks gk (filter (\<lambda>m. u_issue m \<noteq> issue) ms @ map (aggregate_row key issue es) (remdups (List.map_filter key es))) cs"
proof -
  let ?ks = "remdups (List.map_filter key es)"
  let ?new = "filter (\<lambda>m. u_issue m \<noteq> issue) ms @ map (aggregate_row key issue es) ?ks"
  have mem: "k \<in> set ?ks \<longleftrightarrow> filter (\<lambda>e. key e = Some k) es \<noteq> []" for k
    by (force simp: List.map_filter_def filter_empty_conv)
  have "lookup_member ?new (i, k) = group_row (i, k) (filter (\<lambda>e. gk e = Some (i, k)) cs)" for i k
  proof (cases "i = issue")
    case True
    then show ?thesis using mem [of k] groups [of k]
      by (simp add: lookup_member_append lookup_other_issues lookup_rows group_row_def aggregate_row_def Let_def)
  next
    case False
    then show ?thesis using tracks_lookup [OF t, of "(i, k)"]
      by (simp add: lookup_member_append lookup_other_issues lookup_rows split: option.split)
  qed
  moreover have "distinct (map member_key ?new)"
  proof -
    have "distinct (map member_key (map (aggregate_row key issue es) ?ks))"
      by (simp add: distinct_map inj_on_def aggregate_row_key)
    moreover have "distinct (map member_key (filter (\<lambda>m. u_issue m \<noteq> issue) ms))"
      using tracks_distinct [OF t] by (rule distinct_map_filter)
    moreover have "member_key ` set (filter (\<lambda>m. u_issue m \<noteq> issue) ms) \<inter> member_key ` set (map (aggregate_row key issue es) ?ks) = {}"
      by (auto simp: member_key_def aggregate_row_def Let_def)
    ultimately show ?thesis unfolding map_append distinct_append set_map by blast
  qed
  ultimately show ?thesis by (auto simp: tracks_def)
qed

lemma refresh_ok:
  assumes ok: "issues_ok s" and i: "exists_issue issue s"
  shows "\<exists>vs rs. refresh_issue_memberships issue s = Inr (s\<lparr>variants := vs, memberships := rs\<rparr>)
    \<and> tracks variant_key vs (crashes s) \<and> tracks release_key rs (crashes s)"
proof -
  let ?es = "issue_members issue (crashes s)" and ?rel = "filter (\<lambda>e. ce_mapping e = Matched) (issue_members issue (crashes s))"
  have base: "base_ok s" and t: "tracks variant_key (variants s) (crashes s)" "tracks release_key (memberships s) (crashes s)"
    using ok by (simp_all add: issues_ok_def base_ok_def)
  have d: "distinct (map i_id (issues s))" using base by (simp add: base_ok_def)
  obtain j where j: "j \<in> set (issues s)" "i_id j = issue" using find_exists_issue [OF d i] by metis
  have row: "in_some \<and> ce_variant e \<noteq> None \<and> (ce_mapping e = Matched \<longleftrightarrow> ce_release e \<noteq> None)"
    if "e \<in> set ?es" "in_some = (ce_issue e = Some issue)" for e in_some
  proof -
    have "crash_ok s e" "ce_issue e = Some issue" using that base by (auto simp: issue_members_def base_ok_def)
    then show ?thesis using that(2) by (auto simp: crash_ok_def in_issue_def split: if_splits)
  qed
  have "filter (\<lambda>e. variant_key e = Some (issue, k)) (crashes s) = filter (\<lambda>e. ce_variant e = Some k) ?es" for k
    by (auto simp: issue_members_def variant_key_def intro!: filter_cong split: option.splits)
  from aggregate_tracks [OF t(1) _ this] row have vs: "tracks variant_key (filter (\<lambda>m. u_issue m \<noteq> issue) (variants s)
      @ map (aggregate_row ce_variant issue ?es) (remdups (List.map_filter ce_variant ?es))) (crashes s)"
    by blast
  have "filter (\<lambda>e. release_key e = Some (issue, k)) (crashes s) = filter (\<lambda>e. ce_release e = Some k) ?rel" for k
    by (auto simp: issue_members_def release_key_iff intro!: filter_cong)
  from aggregate_tracks [OF t(2) _ this] row have rs: "tracks release_key (filter (\<lambda>m. u_issue m \<noteq> issue) (memberships s)
      @ map (aggregate_row ce_release issue ?rel) (remdups (List.map_filter ce_release ?rel))) (crashes s)"
    by auto
  have counted: "?es \<noteq> []" "aggregate_issue ?es j = j" using base j by (auto simp: base_ok_def counted_def)
  have "i_id k = issue \<longleftrightarrow> k = j" if "k \<in> set (issues s)" for k
    using that d j by (auto simp: distinct_map inj_on_def)
  then have "update_where (\<lambda>k. i_id k = issue) (aggregate_issue ?es) (issues s) = issues s"
    using counted(2) by (auto simp: update_where_def intro!: map_idI)
  then have "update_issue issue (aggregate_issue ?es) (s\<lparr>variants := v, memberships := r\<rparr>) = Inr (s\<lparr>variants := v, memberships := r\<rparr>)" for v r
    using update_issue_ok [of "s\<lparr>variants := v, memberships := r\<rparr>" j "aggregate_issue ?es"] d j by simp
  moreover have "aggregate_members ce_variant issue ?es
      = Inr (map (aggregate_row ce_variant issue ?es) (remdups (List.map_filter ce_variant ?es)))"
    by (rule aggregate_members_rows) (use row in blast)
  moreover have "aggregate_members ce_release issue ?rel
      = Inr (map (aggregate_row ce_release issue ?rel) (remdups (List.map_filter ce_release ?rel)))"
    by (rule aggregate_members_rows) (use row in auto)
  ultimately have "refresh_issue_memberships issue s = Inr (s\<lparr>
      variants := filter (\<lambda>m. u_issue m \<noteq> issue) (variants s)
        @ map (aggregate_row ce_variant issue ?es) (remdups (List.map_filter ce_variant ?es)),
      memberships := filter (\<lambda>m. u_issue m \<noteq> issue) (memberships s)
        @ map (aggregate_row ce_release issue ?rel) (remdups (List.map_filter ce_release ?rel))\<rparr>)"
    using counted(1) unfolding refresh_issue_memberships_def Let_def issue_members_def [symmetric] by simp
  then show ?thesis using vs rs by blast
qed

subsection \<open>Every step keeps the invariant\<close>

lemma received_ok:
  assumes ok: "issues_ok s" and new: "event \<notin> ce_id ` set (crashes s)"
  shows "issues_ok (s\<lparr>crashes := crashes s @ [received_crash event now]\<rparr>)"
proof -
  have none: "ce_issue (received_crash event now) = None" by (simp add: received_crash_def)
  have "crash_ok s (received_crash event now)" by (simp add: crash_ok_def received_crash_def)
  moreover have "counted (crashes s @ [received_crash event now]) i = counted (crashes s) i" for i
    using counted_skip [OF none, of "crashes s" "[]"] by simp
  moreover have "tracks key ms (crashes s @ [received_crash event now]) = tracks key ms (crashes s)"
    if "key (received_crash event now) = None" for key ms
    using tracks_skip [where key = key, OF that, of ms "crashes s" "[]"] by simp
  ultimately show ?thesis
    using ok new no_issue_keys [OF none] by (auto simp: issues_ok_def base_ok_def received_crash_def)
qed

lemma uploaded_ok:
  assumes ok: "issues_ok s" and new: "fresh \<notin> rel_id ` set (releases s)"
  shows "issues_ok (upsert_release fresh vers plat arch conf built s)"
proof -
  obtain rs where s': "upsert_release fresh vers plat arch conf built s = s\<lparr>releases := rs\<rparr>"
    and rs: "rel_id ` set (releases s) \<subseteq> rel_id ` set rs" "distinct (map rel_id rs)"
  proof (cases "list_ex (same_release vers plat arch conf) (releases s)")
    case True
    let ?f = "\<lambda>r :: release_rec. r\<lparr>rel_built := case rel_built r of None \<Rightarrow> built | Some t \<Rightarrow> Some t\<rparr>"
    let ?rs = "update_where (same_release vers plat arch conf) ?f (releases s)"
    have m: "map rel_id ?rs = map rel_id (releases s)" by (simp add: update_where_def)
    show ?thesis
    proof (rule that [of ?rs])
      show "rel_id ` set (releases s) \<subseteq> rel_id ` set ?rs" using arg_cong [OF m, of set] by simp
      show "distinct (map rel_id ?rs)" unfolding m using ok by (simp add: issues_ok_def base_ok_def)
    qed (use True in \<open>simp add: upsert_release_def Let_def\<close>)
  next
    case False
    show ?thesis
      by (rule that [of "releases s @ [\<lparr>rel_id = fresh, rel_version = vers, rel_platform = plat,
             rel_architecture = arch, rel_configuration = conf, rel_built = built\<rparr>]"])
        (use False new ok in \<open>auto simp: upsert_release_def Let_def issues_ok_def base_ok_def\<close>)
  qed
  have "crash_ok (s\<lparr>releases := rs\<rparr>) e" if "crash_ok s e" for e using that rs(1) by (auto simp: crash_ok_def)
  then show ?thesis using ok rs(2) by (auto simp: s' issues_ok_def base_ok_def)
qed

lemma decided_ok:
  assumes ok: "issues_ok s" and s': "update_issue issue f s = Inr s'"
    and keep: "\<And>j. i_id (f j) = i_id j" "\<And>j. issue_key (f j) = issue_key j" "\<And>es j. counted es (f j) = counted es j"
    and status: "\<And>j. status_ok (f j)"
  shows "issues_ok s'"
proof -
  have base: "base_ok s" using ok by (simp add: issues_ok_def)
  have "affected (\<lambda>i. i_id i = issue) (issues s) = 1" using s' by (auto simp: update_issue_def split: if_splits)
  then obtain i where "i \<in> set (filter (\<lambda>i. i_id i = issue) (issues s))"
    by (cases "filter (\<lambda>i. i_id i = issue) (issues s)") (auto simp: affected_def)
  then have i: "i \<in> set (issues s)" "i_id i = issue" by auto
  have "s' = s\<lparr>issues := update_where (\<lambda>j. i_id j = i_id i) f (issues s)\<rparr>"
    using s' i(2) by (auto simp: update_issue_def split: if_splits)
  then show ?thesis
    using base_ok_update_issue [OF base i(1) keep status] ok by (simp add: issues_ok_def)
qed

lemma resolve_issue_ok:
  assumes "issues_ok s" and "resolve_issue now issue release s = Inr s'"
  shows "issues_ok s'"
proof -
  obtain st reg where sr: "(if has_provably_later_release issue (the (Option.bind (release_of release s) rel_built)) s
      then (Open, Regressed) else (Resolved, ResolvedIn)) = (st, reg)" by fastforce
  then have "update_issue issue (\<lambda>i. i\<lparr>i_status := st, i_regression := reg, i_resolved_in := Some release,
      i_resolved_at := Some now\<rparr>) s = Inr s'"
    using assms(2) by (auto simp: resolve_issue_def bindR_eq_Inr ok_or_eq update_found_issue_def map_err_eq)
  then show ?thesis
    by (rule decided_ok [OF assms(1)]) (use sr in \<open>auto simp: issue_key_def counted_iff status_ok_def split: if_splits\<close>)
qed

lemma retained_not_decided: "retained_regression_state issue s \<noteq> ResolvedIn" "retained_regression_state issue s \<noteq> Regressed"
  by (simp_all add: retained_regression_state_def Let_def)

lemma reopen_issue_ok:
  assumes "issues_ok s" and "reopen_issue issue s = Inr s'"
  shows "issues_ok s'"
proof -
  have "update_issue issue (\<lambda>i. i\<lparr>i_status := Open, i_regression := retained_regression_state issue s,
       i_resolved_in := None, i_resolved_at := None\<rparr>) s = Inr s'"
    using assms(2) by (auto simp: reopen_issue_def bindR_eq_Inr update_found_issue_def map_err_eq)
  then show ?thesis
    by (rule decided_ok [OF assms(1)]) (auto simp: issue_key_def counted_iff status_ok_def retained_not_decided)
qed

lemma repair_issue_ok:
  assumes ok: "issues_ok s" and r: "repair_issue issue s = Inr (report, s')"
  shows "issues_ok s'"
proof -
  have i: "exists_issue issue s" using r by (auto simp: repair_issue_def exists_issue_def list_ex_iff split: if_splits)
  obtain vs rs where rf: "refresh_issue_memberships issue s = Inr (s\<lparr>variants := vs, memberships := rs\<rparr>)"
    "tracks variant_key vs (crashes s)" "tracks release_key rs (crashes s)"
    using refresh_ok [OF ok i] by blast
  have "crash_ok (s\<lparr>variants := vs, memberships := rs\<rparr>) e = crash_ok s e" for e by (simp add: crash_ok_def)
  then have ok': "issues_ok (s\<lparr>variants := vs, memberships := rs\<rparr>)" using ok rf by (simp add: issues_ok_def base_ok_def)
  have "exists_issue issue (s\<lparr>variants := vs, memberships := rs\<rparr>)" using i by (simp add: exists_issue_def)
  from transitions_issues_ok [OF ok' this, of True] show ?thesis
    using r rf(1) by (auto simp: repair_issue_def bindR_eq_Inr split: if_splits)
qed

lemma no_issues_ok: "issues_ok no_issues"
  by (simp add: issues_ok_def base_ok_def no_issues_def tracks_def lookup_member_def group_row_def)

lemma publish_found: "publish_grouping enabled fresh event grouping cs s = Inr r \<Longrightarrow> \<exists>e. crash_of event s = Some e"
  by (auto simp: publish_grouping_def lock_event_def bindR_eq_Inr ok_or_eq)

lemma issue_step_ok: "issue_step s s' \<Longrightarrow> issues_ok s \<Longrightarrow> issues_ok s'"
proof (induction rule: issue_step.induct)
  case (published fresh s cs enabled event grouping issue s')
  then obtain e where "crash_of event s = Some e" using publish_found by blast
  from publish_ok [OF published.prems this published.hyps(1,2), of enabled grouping] published.hyps(3) show ?case by auto
qed (auto intro: received_ok uploaded_ok resolve_issue_ok reopen_issue_ok repair_issue_ok)

lemma reachable_issues_ok: "issue_reachable s \<Longrightarrow> issues_ok s"
  by (induction rule: issue_reachable.induct) (auto intro: no_issues_ok issue_step_ok)

end
