(* ===== verification/Issue_Facts.thy ===== *)
theory Issue_Facts
  imports Issue_System
begin

section \<open>What the rollups promise\<close>

text \<open>
  Properties of the reachable tables of a project: publications commit, repair finds nothing to change, issues
  are the fingerprints of the events, and the state of an issue against the releases of its events. The two ways
  in which the code decides on a regression, SQL counts for users and a chronology in the worker, are compared.
\<close>

subsection \<open>Chronologies\<close>

lemma adjacent_equal_distinct: "sorted xs \<Longrightarrow> \<not> adjacent_equal xs \<longleftrightarrow> distinct (map fst xs)"
proof (induction xs rule: adjacent_equal.induct)
  case (1 a b xs)
  have le: "fst b \<le> fst x" if "x \<in> set xs" for x using 1(2) that by (auto simp: less_eq_prod_def)
  have "fst a \<le> fst b" using 1(2) by (auto simp: less_eq_prod_def)
  with le have "fst a \<noteq> fst b \<Longrightarrow> fst a \<notin> fst ` set xs" by fastforce
  with 1 show ?case by auto
qed auto

lemma sort_distinct_fst: "distinct (map fst (sort xs)) = distinct (map fst xs)"
  by (rule mset_eq_imp_distinct_iff) simp

lemma timestamped_times: "map fst (timestamped ev) = List.map_filter snd ev"
  by (induction ev) (auto simp: timestamped_def List.map_filter_def)

lemma length_timestamped: "length (timestamped ev) = length (List.map_filter snd ev)"
  using arg_cong [OF timestamped_times, of length ev] by simp

lemma all_timestamped: "length (List.map_filter snd ev) = length ev \<longleftrightarrow> (\<forall>x \<in> set ev. snd x \<noteq> None)"
proof (induction ev)
  case (Cons x ev)
  have "length (List.map_filter snd ev) \<le> length ev" by (simp add: List.map_filter_def)
  with Cons show ?case by (cases "snd x") (auto simp: List.map_filter_simps)
qed (simp add: List.map_filter_def)

lemma last_sort_fst: "xs \<noteq> [] \<Longrightarrow> fst (last (sort xs)) = Max (fst ` set xs)" for xs :: "(micros \<times> uuid) list"
proof -
  assume ne: "xs \<noteq> []"
  then have ne': "sort xs \<noteq> []" by (metis set_empty set_sort)
  have "y \<le> last zs" if "sorted zs" "y \<in> set zs" for zs and y :: "micros \<times> uuid"
    using that by (induction zs) auto
  then have "y \<le> last (sort xs)" if "y \<in> set xs" for y using that by simp
  then have "fst y \<le> fst (last (sort xs))" if "y \<in> set xs" for y using that unfolding less_eq_prod_def by fastforce
  moreover have "last (sort xs) \<in> set xs" using last_in_set [OF ne'] by simp
  ultimately show ?thesis by (intro Max_eqI [symmetric]) auto
qed

text \<open>A chronology is valid when there is a release and all their build times are known and different.\<close>

definition orderable :: "(uuid \<times> micros option) list \<Rightarrow> bool" where
  "orderable ev \<longleftrightarrow> ev \<noteq> [] \<and> (\<forall>x \<in> set ev. snd x \<noteq> None) \<and> distinct (List.map_filter snd ev)"

lemma orderable_lengths:
  "orderable ev \<longleftrightarrow> ev \<noteq> [] \<and> length (List.map_filter snd ev) = length ev \<and> distinct (List.map_filter snd ev)"
  unfolding orderable_def all_timestamped ..

lemma chronology_valid: "rc_valid (release_chronology_of ev) \<longleftrightarrow> orderable ev"
proof -
  have "sort (timestamped ev) \<noteq> [] \<longleftrightarrow> List.map_filter snd ev \<noteq> []"
    using length_timestamped [of ev] by (metis length_0_conv length_sort)
  then show ?thesis
    using adjacent_equal_distinct [OF sorted_sort, of "timestamped ev"]
    by (auto simp: release_chronology_of_def orderable_lengths Let_def sort_distinct_fst timestamped_times length_timestamped)
qed

lemma chronology_last:
  assumes "orderable ev"
  shows "rc_last_timestamp (release_chronology_of ev) = Some (Max (set (List.map_filter snd ev)))"
    and "rc_count (release_chronology_of ev) = length ev"
proof -
  have valid: "rc_valid (release_chronology_of ev)" using assms by (simp add: chronology_valid)
  then have c: "release_chronology_of ev = \<lparr>rc_first = Some (snd (hd (sort (timestamped ev)))),
      rc_last = Some (snd (last (sort (timestamped ev)))), rc_last_timestamp = Some (fst (last (sort (timestamped ev)))),
      rc_count = length (sort (timestamped ev)), rc_valid = True\<rparr>"
    by (auto simp: release_chronology_of_def Let_def split: if_splits)
  have all: "length (List.map_filter snd ev) = length ev" using assms all_timestamped by (auto simp: orderable_def)
  then have "timestamped ev \<noteq> []" using assms length_timestamped [of ev] by (auto simp: orderable_def)
  from last_sort_fst [OF this] show "rc_last_timestamp (release_chronology_of ev) = Some (Max (set (List.map_filter snd ev)))"
    unfolding c using arg_cong [OF timestamped_times, of set ev] by simp
  show "rc_count (release_chronology_of ev) = length ev" unfolding c by (simp add: length_timestamped all)
qed

text \<open>The statements of \<^verbatim>\<open>issues.rs\<close> decide by the same chronology.\<close>

lemma counts_orderable:
  "length ev > 0 \<and> length ev = length (List.map_filter snd ev) \<and> length ev = card (set (List.map_filter snd ev)) \<longleftrightarrow> orderable ev"
proof -
  have "distinct xs \<longleftrightarrow> length xs = card (set xs)" for xs :: "micros list" using card_distinct distinct_card by metis
  then show ?thesis using all_timestamped [of ev] by (auto simp: orderable_def)
qed

lemma provably_later_iff:
  "has_provably_later_release issue t s \<longleftrightarrow> later_release (load_release_chronology issue s) (Some t)"
proof -
  let ?ev = "release_evidence issue s"
  have "orderable ?ev \<Longrightarrow> built_times issue s \<noteq> []"
    using all_timestamped [of ?ev] by (auto simp: orderable_def built_times_def)
  then show ?thesis
    using counts_orderable [of ?ev] chronology_last(1) [of ?ev]
    by (auto simp: has_provably_later_release_def later_release_def load_release_chronology_def chronology_valid built_times_def Let_def)
qed

lemma retained_iff:
  "next_transition (load_release_chronology issue s) later i = (Open, retained_regression_state issue s)"
  if "i_status i = Open" and "i_resolved_in i = None"
proof -
  let ?ev = "release_evidence issue s"
  have "(length ?ev = 0 \<or> length (built_times issue s) \<noteq> length ?ev \<or> card (set (built_times issue s)) \<noteq> length ?ev) \<longleftrightarrow> \<not> orderable ?ev"
    using counts_orderable [of ?ev] by (auto simp: built_times_def)
  then show ?thesis
    using that chronology_last(2) [of ?ev]
    by (auto simp: next_transition_def retained_regression_state_def load_release_chronology_def chronology_valid Let_def)
qed

subsection \<open>The releases of an issue by its events\<close>

definition issue_releases :: "uuid \<Rightarrow> issue_tables \<Rightarrow> release_rec list" where
  "issue_releases issue s =
     filter (\<lambda>r. list_ex (\<lambda>e. ce_issue e = Some issue \<and> ce_release e = Some (rel_id r)) (crashes s)) (releases s)"

text \<open>An event of the issue was seen in a release built after \<open>t\<close>, and the releases of the issue have an order.\<close>

definition seen_after :: "uuid \<Rightarrow> micros \<Rightarrow> issue_tables \<Rightarrow> bool" where
  "seen_after issue t s \<longleftrightarrow> list_all (\<lambda>r. rel_built r \<noteq> None) (issue_releases issue s)
     \<and> distinct (map rel_built (issue_releases issue s))
     \<and> list_ex (\<lambda>r. is_some_and (rel_built r) (\<lambda>b. t < b)) (issue_releases issue s)"

lemma release_of_id:
  "distinct (map rel_id (releases s)) \<Longrightarrow> r \<in> set (releases s) \<Longrightarrow> release_of (rel_id r) s = Some r"
proof -
  have "find (\<lambda>x. rel_id x = rel_id r) rs = Some r" if "distinct (map rel_id rs)" "r \<in> set rs" for rs
    using that by (induction rs) (auto simp: image_iff)
  then show "distinct (map rel_id (releases s)) \<Longrightarrow> r \<in> set (releases s) \<Longrightarrow> release_of (rel_id r) s = Some r"
    by (simp add: release_of_def)
qed

lemma release_of_key: "release_of k s = Some r \<Longrightarrow> rel_id r = k"
  by (auto simp: release_of_def find_Some_iff)

lemma map_filter_mset: "mset xs = mset ys \<Longrightarrow> mset (List.map_filter f xs) = mset (List.map_filter f ys)"
  by (simp add: List.map_filter_def)

lemma map_filter_built: "List.map_filter snd (map (\<lambda>r. (rel_id r, rel_built r)) rs) = List.map_filter rel_built rs"
  by (simp add: List.map_filter_def filter_map comp_def)

lemma evidence_mem:
  assumes ok: "issues_ok s"
  shows "(k, b) \<in> set (release_evidence issue s) \<longleftrightarrow> (\<exists>r \<in> set (issue_releases issue s). rel_id r = k \<and> rel_built r = b)"
proof -
  have t: "tracks release_key (memberships s) (crashes s)" and d: "distinct (map rel_id (releases s))"
    and rows: "\<forall>e \<in> set (crashes s). crash_ok s e" using ok by (auto simp: issues_ok_def base_ok_def)
  have member: "(\<exists>m \<in> set (memberships s). u_issue m = issue \<and> u_key m = k) \<longleftrightarrow> (\<exists>e \<in> set (crashes s). release_key e = Some (issue, k))"
  proof -
    have "(\<exists>m \<in> set (memberships s). u_issue m = issue \<and> u_key m = k) \<longleftrightarrow> lookup_member (memberships s) (issue, k) \<noteq> None"
      unfolding lookup_member_None by (auto simp: member_key_def image_iff)
    then show ?thesis unfolding tracks_lookup [OF t] by (auto simp: group_row_def filter_empty_conv)
  qed
  have seen: "release_key e = Some (issue, k) \<longleftrightarrow> ce_issue e = Some issue \<and> ce_release e = Some k" if "e \<in> set (crashes s)" for e
  proof -
    have "crash_ok s e" using rows that by blast
    then show ?thesis by (auto simp: release_key_iff crash_ok_def)
  qed
  have "(k, b) \<in> set (release_evidence issue s)
      \<longleftrightarrow> (\<exists>m \<in> set (memberships s). u_issue m = issue \<and> (\<exists>r. release_of (u_key m) s = Some r \<and> rel_id r = k \<and> rel_built r = b))"
    by (auto simp: release_evidence_def List.map_filter_def image_iff)
  also have "\<dots> \<longleftrightarrow> (\<exists>m \<in> set (memberships s). u_issue m = issue \<and> u_key m = k) \<and> (\<exists>r \<in> set (releases s). rel_id r = k \<and> rel_built r = b)"
  proof -
    have found: "release_of q s = Some r \<longleftrightarrow> r \<in> set (releases s) \<and> rel_id r = q" for q r
      using release_of_id [OF d, of r] by (auto simp: release_of_def find_Some_iff)
    show ?thesis unfolding found by auto
  qed
  also have "\<dots> \<longleftrightarrow> (\<exists>r \<in> set (issue_releases issue s). rel_id r = k \<and> rel_built r = b)"
    unfolding member using seen by (auto simp: issue_releases_def list_ex_iff)
  finally show ?thesis .
qed

lemma evidence_mset:
  assumes ok: "issues_ok s"
  shows "mset (release_evidence issue s) = mset (map (\<lambda>r. (rel_id r, rel_built r)) (issue_releases issue s))"
proof -
  let ?ms = "filter (\<lambda>m. u_issue m = issue) (memberships s)"
  have d: "distinct (map member_key (memberships s))" "distinct (map rel_id (releases s))"
    using ok tracks_distinct by (auto simp: issues_ok_def base_ok_def)
  have keys_distinct: "distinct (map u_key ?ms)"
    using d(1) by (auto simp: distinct_map inj_on_def member_key_def)
  have keys: "map fst (List.map_filter (\<lambda>m. map_option (\<lambda>r. (rel_id r, rel_built r)) (release_of (u_key m) s)) ms)
      = filter (\<lambda>k. release_of k s \<noteq> None) (map u_key ms)" for ms
  proof (induction ms)
    case (Cons m ms)
    then show ?case
      by (cases "release_of (u_key m) s") (auto simp: List.map_filter_simps dest: release_of_key)
  qed (simp add: List.map_filter_simps)
  have "distinct (map fst (release_evidence issue s))"
    unfolding release_evidence_def keys using keys_distinct by (rule distinct_filter)
  then have "distinct (release_evidence issue s)" by (simp add: distinct_map)
  moreover have "distinct (map (\<lambda>r. (rel_id r, rel_built r)) (issue_releases issue s))"
    using d(2) by (auto simp: issue_releases_def distinct_map inj_on_def)
  moreover have "set (release_evidence issue s) = set (map (\<lambda>r. (rel_id r, rel_built r)) (issue_releases issue s))"
    using evidence_mem [OF ok] by auto
  ultimately show ?thesis by (rule set_eq_iff_mset_eq_distinct [THEN iffD1])
qed

lemma later_release_seen:
  assumes ok: "issues_ok s"
  shows "later_release (load_release_chronology issue s) (Some t) \<longleftrightarrow> seen_after issue t s"
proof -
  let ?ev = "release_evidence issue s" and ?rs = "issue_releases issue s"
  have m: "mset ?ev = mset (map (\<lambda>r. (rel_id r, rel_built r)) ?rs)" by (rule evidence_mset [OF ok])
  have sets: "set ?ev = (\<lambda>r. (rel_id r, rel_built r)) ` set ?rs" using mset_eq_setD [OF m] by simp
  have times: "mset (List.map_filter snd ?ev) = mset (List.map_filter rel_built ?rs)"
    using map_filter_mset [OF m, of snd] unfolding map_filter_built .
  have all: "(\<forall>x \<in> set ?ev. snd x \<noteq> None) \<longleftrightarrow> list_all (\<lambda>r. rel_built r \<noteq> None) ?rs"
    unfolding sets by (auto simp: list_all_iff)
  have built: "map Some (List.map_filter rel_built rs) = map rel_built rs" if "list_all (\<lambda>r. rel_built r \<noteq> None) rs" for rs
    using that by (induction rs) (auto simp: List.map_filter_simps)
  have "distinct (map rel_built ?rs) \<longleftrightarrow> distinct (List.map_filter snd ?ev)" if "list_all (\<lambda>r. rel_built r \<noteq> None) ?rs"
    unfolding built [OF that, symmetric] mset_eq_imp_distinct_iff [OF times] by (simp add: distinct_map)
  moreover have "t < Max (set (List.map_filter snd ?ev)) \<longleftrightarrow> list_ex (\<lambda>r. is_some_and (rel_built r) (\<lambda>b. t < b)) ?rs"
    if "List.map_filter snd ?ev \<noteq> []"
  proof -
    have "t < Max (set (List.map_filter snd ?ev)) \<longleftrightarrow> (\<exists>b \<in> set (List.map_filter rel_built ?rs). t < b)"
      unfolding mset_eq_setD [OF times, symmetric] using that by (simp add: Max_gr_iff)
    then show ?thesis by (force simp: list_ex_iff is_some_and_iff List.map_filter_def)
  qed
  moreover have "list_ex (\<lambda>r. is_some_and (rel_built r) (\<lambda>b. t < b)) ?rs \<Longrightarrow> ?ev \<noteq> []" using sets by (auto simp: list_ex_iff)
  moreover have "orderable ?ev \<Longrightarrow> List.map_filter snd ?ev \<noteq> []" by (auto simp: orderable_lengths)
  ultimately show ?thesis
    using all chronology_last(1) [of ?ev]
    by (auto simp: later_release_def load_release_chronology_def chronology_valid seen_after_def orderable_def)
qed

subsection \<open>Properties\<close>

text \<open>What resolving and reopening write, and that a transition writes it again.\<close>

lemma decided_form:
  assumes "resolve_issue now issue release s = Inr s' \<or> reopen_issue issue s = Inr s'"
    and d: "distinct (map i_id (issues s))" and i: "i \<in> set (issues s)" "i_id i = issue"
  shows "\<exists>g. s' = s\<lparr>issues := update_where (\<lambda>j. i_id j = i_id i) g (issues s)\<rparr> \<and> (\<forall>j. i_id (g j) = i_id j)
    \<and> (\<forall>j. next_transition (load_release_chronology issue s)
        (later_release (load_release_chronology issue s) (resolution_timestamp (g j) s)) (g j) = (i_status (g j), i_regression (g j)))"
  using assms(1)
proof
  assume r: "resolve_issue now issue release s = Inr s'"
  then obtain t where t: "Option.bind (release_of release s) rel_built = Some t"
    by (auto simp: resolve_issue_def bindR_eq_Inr ok_or_eq)
  obtain st reg where sr: "(if has_provably_later_release issue t s then (Open, Regressed) else (Resolved, ResolvedIn)) = (st, reg)"
    by fastforce
  let ?g = "\<lambda>j. j\<lparr>i_status := st, i_regression := reg, i_resolved_in := Some release, i_resolved_at := Some now\<rparr>"
  have "update_issue issue ?g s = Inr s'"
    using r sr t by (auto simp: resolve_issue_def bindR_eq_Inr update_found_issue_def map_err_eq)
  then have "s' = s\<lparr>issues := update_where (\<lambda>j. i_id j = i_id i) ?g (issues s)\<rparr>"
    using update_issue_ok [OF d i(1), of ?g] i(2) by simp
  moreover have "resolution_timestamp (?g j) s = Some t" for j using t by (simp add: resolution_timestamp_def)
  moreover have "later_release (load_release_chronology issue s) (Some t) \<longleftrightarrow> st = Open" "(st, reg) \<in> {(Open, Regressed), (Resolved, ResolvedIn)}"
    using sr by (auto simp: provably_later_iff split: if_splits)
  ultimately show ?thesis by (intro exI [of _ ?g]) (auto simp: next_transition_def)
next
  assume r: "reopen_issue issue s = Inr s'"
  let ?g = "\<lambda>j. j\<lparr>i_status := Open, i_regression := retained_regression_state issue s, i_resolved_in := None, i_resolved_at := None\<rparr>"
  have "update_issue issue ?g s = Inr s'"
    using r by (auto simp: reopen_issue_def bindR_eq_Inr update_found_issue_def map_err_eq)
  then have "s' = s\<lparr>issues := update_where (\<lambda>j. i_id j = i_id i) ?g (issues s)\<rparr>"
    using update_issue_ok [OF d i(1), of ?g] i(2) by simp
  then show ?thesis by (intro exI [of _ ?g]) (simp add: retained_iff)
qed

lemma exists_issue_ex: "list_ex (\<lambda>i. i_id i = issue) (issues s) \<longleftrightarrow> exists_issue issue s"
  by (simp add: exists_issue_def list_ex_iff)

text \<open>C2: after any sequence of uploads, publications, decisions and repairs, the rollups that publications
  keep by differences are the ones that a repair computes from the events: recomputing an issue leaves it and
  the rows of its variants and releases as they are.\<close>

theorem repair_changes_no_rollup:
  assumes "issue_reachable s" and "list_ex (\<lambda>i. i_id i = issue) (issues s)"
  shows "\<exists>s'. refresh_issue_memberships issue s = Inr s' \<and> crashes s' = crashes s \<and> issues s' = issues s
    \<and> mset (variants s') = mset (variants s) \<and> mset (memberships s') = mset (memberships s)"
proof -
  have ok: "issues_ok s" using assms(1) by (rule reachable_issues_ok)
  then have old: "tracks variant_key (variants s) (crashes s)" "tracks release_key (memberships s) (crashes s)"
    by (simp_all add: issues_ok_def base_ok_def)
  obtain vs rs where rf: "refresh_issue_memberships issue s = Inr (s\<lparr>variants := vs, memberships := rs\<rparr>)"
    and new: "tracks variant_key vs (crashes s)" "tracks release_key rs (crashes s)"
    using refresh_ok [OF ok] assms(2) unfolding exists_issue_ex by blast
  have "mset vs = mset (variants s)" "mset rs = mset (memberships s)"
    by (rule tracks_same_rows [OF new(1) old(1)], rule tracks_same_rows [OF new(2) old(2)])
  with rf show ?thesis by simp
qed

text \<open>C37: a publication for a known event always commits: none of its checks for a missing issue, an invalid
  grouping state or an invalid rollup ever fails.\<close>

theorem publication_commits:
  assumes "issue_reachable s" and "crash_of event s \<noteq> None" and "fresh \<notin> set (map i_id (issues s))"
    and "list_all (\<lambda>c. release_of c s \<noteq> None) cs"
  shows "\<exists>issue s'. publish_grouping enabled fresh event grouping cs s = Inr (issue, s')"
proof -
  obtain e where e: "crash_of event s = Some e" using assms(2) by auto
  have "set cs \<subseteq> rel_id ` set (releases s)"
  proof
    fix c assume "c \<in> set cs"
    then obtain r where "release_of c s = Some r" using assms(4) by (auto simp: list_all_iff)
    then show "c \<in> rel_id ` set (releases s)" by (auto simp: release_of_def find_Some_iff)
  qed
  moreover have "fresh \<notin> i_id ` set (issues s)" using assms(3) by simp
  ultimately show ?thesis using publish_ok [OF reachable_issues_ok [OF assms(1)] e] by blast
qed

text \<open>C38: two grouped events are in the same issue exactly when they have the same fingerprint, computed by the
  same version of the same algorithm.\<close>

theorem issues_are_fingerprints:
  assumes "issue_reachable s" and "{e, e'} \<subseteq> set (crashes s)" and "ce_grouping e = GroupDone" and "ce_grouping e' = GroupDone"
  shows "ce_issue e = ce_issue e' \<longleftrightarrow> (ce_algorithm e, ce_version e, ce_fingerprint e) = (ce_algorithm e', ce_version e', ce_fingerprint e')"
proof -
  have ok: "issues_ok s" using assms(1) by (rule reachable_issues_ok)
  then have rows: "crash_ok s e" "crash_ok s e'" using assms(2) by (auto simp: issues_ok_def base_ok_def)
  then obtain i i' where i: "i \<in> set (issues s)" "in_issue i e" and i': "i' \<in> set (issues s)" "in_issue i' e'"
    using assms(3,4) by (auto simp: crash_ok_def)
  have "i_id i = i_id i' \<longleftrightarrow> i = i'" "issue_key i = issue_key i' \<longleftrightarrow> i = i'"
    using ok i(1) i'(1) by (auto simp: issues_ok_def base_ok_def distinct_map inj_on_def)
  then show ?thesis using i(2) i'(2) by (auto simp: in_issue_def issue_key_def)
qed

text \<open>C39: what an enabled transition stores. Publications that change the releases of an issue, and repairs, run it
  (\<open>update_issue_transitions\<close> with transitions enabled); between two runs the stored state can be out of date
  (\<open>late_build_time_unnoticed\<close> below). In every reachable state a run commits, and after it the issue is
  regressed exactly if it has been resolved in a release of known build time and, the releases of its matched
  events having known and different build times, one of them was built later; an issue is resolved after it
  exactly if it was before and is not regressed.\<close>

theorem regressed_iff_seen_later:
  assumes "issue_reachable s" and "i \<in> set (issues s)"
  shows "\<exists>s' i'. update_issue_transitions (i_id i) True s = Inr s' \<and> find (\<lambda>j. i_id j = i_id i) (issues s') = Some i'
    \<and> (i_regression i' = Regressed \<longleftrightarrow> is_some_and (resolution_timestamp i s) (\<lambda>t. seen_after (i_id i) t s))
    \<and> (i_status i' = Resolved \<longleftrightarrow> i_status i = Resolved \<and> i_regression i' \<noteq> Regressed)"
proof -
  have ok: "issues_ok s" using assms(1) by (rule reachable_issues_ok)
  then have d: "distinct (map i_id (issues s))" by (simp add: issues_ok_def base_ok_def)
  let ?c = "load_release_chronology (i_id i) s"
  let ?later = "later_release ?c (resolution_timestamp i s)"
  obtain st reg where tr: "next_transition ?c ?later i = (st, reg)" by fastforce
  let ?f = "\<lambda>j. j\<lparr>i_first_release := rc_first ?c, i_last_release := rc_last ?c, i_status := st, i_regression := reg\<rparr>"
  have "update_issue_transitions (i_id i) True s = Inr (s\<lparr>issues := update_where (\<lambda>j. i_id j = i_id i) ?f (issues s)\<rparr>)"
    by (simp add: update_issue_transitions_def find_issue [OF d assms(2)] tr Let_def update_issue_chronology_def
        update_issue_ok [OF d assms(2)])
  moreover have "find (\<lambda>j. i_id j = i_id i) (update_where (\<lambda>j. i_id j = i_id i) ?f (issues s)) = Some (?f i)"
    using find_issue [of "update_where (\<lambda>j. i_id j = i_id i) ?f (issues s)" "?f i"] d
    by (simp add: map_update_issue [where g = i_id] set_update_issue [OF d assms(2)])
  moreover have "?later \<longleftrightarrow> is_some_and (resolution_timestamp i s) (\<lambda>t. seen_after (i_id i) t s)"
    using later_release_seen [OF ok, of "i_id i"]
    by (cases "resolution_timestamp i s") (simp_all add: later_release_def)
  moreover have "reg = Regressed \<longleftrightarrow> ?later" "st = Resolved \<longleftrightarrow> i_status i = Resolved \<and> \<not> ?later"
    using tr later_resolved [of ?c i s] by (auto simp: next_transition_def split: if_splits)
  ultimately show ?thesis by simp
qed

text \<open>C40: the dashboard and the workers decide alike: the state that resolving or reopening an issue stores is the
  one that the transition of a publication right after it stores again.\<close>

theorem decisions_agree:
  assumes "issue_reachable s" and "resolve_issue now issue release s = Inr s' \<or> reopen_issue issue s = Inr s'"
  shows "\<exists>s''. update_issue_transitions issue True s' = Inr s''
    \<and> map (\<lambda>i. (i_id i, i_status i, i_regression i)) (issues s'') = map (\<lambda>i. (i_id i, i_status i, i_regression i)) (issues s')"
proof -
  have ok: "issues_ok s" using assms(1) by (rule reachable_issues_ok)
  then have ok': "issues_ok s'" using assms(2) resolve_issue_ok reopen_issue_ok by blast
  then have d': "distinct (map i_id (issues s'))" by (simp add: issues_ok_def base_ok_def)
  have "exists_issue issue s" using assms(2)
    by (auto simp: resolve_issue_def reopen_issue_def exists_issue_ex bindR_eq_Inr require_eq)
  then obtain i where i: "i \<in> set (issues s)" "i_id i = issue" by (auto simp: exists_issue_def)
  have d: "distinct (map i_id (issues s))" using ok by (simp add: issues_ok_def base_ok_def)
  obtain g where s': "s' = s\<lparr>issues := update_where (\<lambda>j. i_id j = i_id i) g (issues s)\<rparr>" and g: "\<And>j. i_id (g j) = i_id j"
    and stable: "\<And>j. i_id j = issue \<Longrightarrow> next_transition (load_release_chronology issue s)
        (later_release (load_release_chronology issue s) (resolution_timestamp (g j) s)) (g j) = (i_status (g j), i_regression (g j))"
    using decided_form [OF assms(2) d i] by blast
  have c: "load_release_chronology issue s' = load_release_chronology issue s" "resolution_timestamp j s' = resolution_timestamp j s" for j
    by (simp_all add: s' load_release_chronology_def release_evidence_def release_of_def resolution_timestamp_def)
  have mem: "g i \<in> set (issues s')" "i_id (g i) = issue"
    using set_update_issue [OF d i(1), of g] i(2) g by (simp_all add: s')
  let ?f = "\<lambda>j. j\<lparr>i_first_release := rc_first (load_release_chronology issue s'),
      i_last_release := rc_last (load_release_chronology issue s'), i_status := i_status (g i), i_regression := i_regression (g i)\<rparr>"
  have "update_issue_transitions issue True s' = Inr (s'\<lparr>issues := update_where (\<lambda>j. i_id j = i_id (g i)) ?f (issues s')\<rparr>)"
    using find_issue [OF d' mem(1)] update_issue_ok [OF d' mem(1), of ?f] stable [OF i(2)] mem(2)
    by (simp add: update_issue_transitions_def c Let_def update_issue_chronology_def)
  moreover have "map (\<lambda>i. (i_id i, i_status i, i_regression i)) (update_where (\<lambda>j. i_id j = i_id (g i)) ?f (issues s'))
      = map (\<lambda>i. (i_id i, i_status i, i_regression i)) (issues s')"
  proof -
    have "i_id j = i_id (g i) \<longleftrightarrow> j = g i" if "j \<in> set (issues s')" for j
      using that mem(1) d' by (auto simp: distinct_map inj_on_def)
    then show ?thesis by (auto simp: update_where_def)
  qed
  ultimately show ?thesis by auto
qed

subsection \<open>A project with a regression\<close>

text \<open>Two releases, a crash of the first one, resolved there; then the crash is mapped to the second one. The identifiers
  are texts of one character.\<close>

definition committed :: "('e, 'a \<times> issue_tables) result \<Rightarrow> issue_tables" where
  "committed r = (case r of Inl _ \<Rightarrow> no_issues | Inr (_, s) \<Rightarrow> s)"

definition sample_fingerprint :: fingerprint_data where
  "sample_fingerprint = \<lparr>issue_fingerprint = [0], variant_fingerprint = [0], fp_title = [], quality = 100\<rparr>"

definition sample_releases :: issue_tables where
  "sample_releases = upsert_release [2] [2] [] [] [] (Some 20)
     (upsert_release [1] [1] [] [] [] (Some 10) no_issues)"

definition sample_received :: issue_tables where
  "sample_received = sample_releases\<lparr>crashes := crashes sample_releases @ [received_crash [0] 5]\<rparr>"

definition sample_publication :: "issue_tables \<Rightarrow> ustring \<Rightarrow> (job_error, uuid option \<times> issue_tables) result" where
  "sample_publication s release = publish_grouping True [0] [0] (GroupedAs sample_fingerprint) [release] s"

definition sample_published :: issue_tables where
  "sample_published = committed (sample_publication sample_received [1])"

definition sample_resolved :: issue_tables where
  "sample_resolved = committed (bindR (resolve_issue 30 [0] [1] sample_published) (\<lambda>s. Inr ((), s)))"

lemma sample_published_step:
  "sample_publication sample_received [1] = Inr (Some [0], sample_published)"
  "resolve_issue 30 [0] [1] sample_published = Inr sample_resolved"
  by code_simp+

lemma sample_received_reachable: "issue_reachable sample_received"
proof -
  let ?r1 = "upsert_release [1] [1] [] [] [] (Some 10) no_issues"
  have "issue_step no_issues ?r1" by (rule issue_step.uploaded) (simp add: no_issues_def)
  then have "issue_reachable ?r1" using issue_reachable.step issue_reachable.empty by blast
  moreover have "[2] \<notin> rel_id ` set (releases ?r1)" by code_simp
  then have "issue_step ?r1 sample_releases" unfolding sample_releases_def by (rule issue_step.uploaded)
  ultimately have "issue_reachable sample_releases" by (rule issue_reachable.step)
  moreover have "[0] \<notin> ce_id ` set (crashes sample_releases)" by code_simp
  then have "issue_step sample_releases sample_received" unfolding sample_received_def by (rule issue_step.received)
  ultimately show ?thesis by (rule issue_reachable.step)
qed

lemma sample_published_reachable: "issue_reachable sample_published"
proof -
  have "[0] \<notin> i_id ` set (issues sample_received)" "set [[1]] \<subseteq> rel_id ` set (releases sample_received)"
    by code_simp+
  then have "issue_step sample_received sample_published"
    using sample_published_step(1) unfolding sample_publication_def by (rule issue_step.published)
  with sample_received_reachable show ?thesis by (rule issue_reachable.step)
qed

lemma sample_resolved_reachable: "issue_reachable sample_resolved"
  using sample_published_reachable issue_step.resolved [OF sample_published_step(2)] by (rule issue_reachable.step)

lemma sample_issue: "list_ex (\<lambda>i. i_id i = [0] \<and> i_count i = 1 \<and> i_resolved_in i = Some [1]) (issues sample_resolved)"
  "map i_id (issues sample_published) = [[0]]"
  by code_simp+

theorem repair_changes_no_rollup_witness:
  "\<exists>s'. refresh_issue_memberships [0] sample_published = Inr s' \<and> issues s' = issues sample_published
    \<and> mset (memberships s') = mset (memberships sample_published)"
proof -
  have "list_ex (\<lambda>i. i_id i = [0]) (issues sample_published)" by code_simp
  from repair_changes_no_rollup [OF sample_published_reachable this] show ?thesis by blast
qed

theorem publication_commits_witness:
  "\<exists>issue s'. publish_grouping True [1] [0] Disabled [[2]] sample_resolved = Inr (issue, s')"
proof -
  have "crash_of [0] sample_resolved \<noteq> None" "[1] \<notin> set (map i_id (issues sample_resolved))"
    "list_all (\<lambda>c. release_of c sample_resolved \<noteq> None) [[2]]"
    by code_simp+
  from publication_commits [OF sample_resolved_reachable this] show ?thesis by blast
qed

text \<open>A second crash with the same fingerprint.\<close>

definition sample_second :: issue_tables where
  "sample_second = sample_published\<lparr>crashes := crashes sample_published @ [received_crash [1] 7]\<rparr>"

definition sample_two :: issue_tables where
  "sample_two = committed (publish_grouping True [1] [1] (GroupedAs sample_fingerprint) [] sample_second)"

lemma sample_two_reachable: "issue_reachable sample_two"
proof -
  have "[1] \<notin> ce_id ` set (crashes sample_published)" by code_simp
  then have "issue_step sample_published sample_second" unfolding sample_second_def by (rule issue_step.received)
  with sample_published_reachable have "issue_reachable sample_second" by (rule issue_reachable.step)
  moreover have "publish_grouping True [1] [1] (GroupedAs sample_fingerprint) [] sample_second = Inr (Some [0], sample_two)"
    "[1] \<notin> i_id ` set (issues sample_second)" "set [] \<subseteq> rel_id ` set (releases sample_second)"
    by code_simp+
  then have "issue_step sample_second sample_two" using issue_step.published by blast
  ultimately show ?thesis by (rule issue_reachable.step)
qed

theorem issues_are_fingerprints_witness:
  "\<exists>e e'. crashes sample_two = [e, e'] \<and> ce_id e = [0] \<and> ce_id e' = [1] \<and> ce_issue e = ce_issue e'"
proof -
  let ?row = "\<lambda>e. (ce_id e, ce_grouping e, ce_algorithm e, ce_version e, ce_fingerprint e)"
  have "map ?row (crashes sample_two)
      = [([0], GroupDone, Some fingerprint_algorithm, Some fingerprint_version, Some [0]),
         ([1], GroupDone, Some fingerprint_algorithm, Some fingerprint_version, Some [0])]"
    by code_simp
  then obtain e e' where es: "crashes sample_two = [e, e']"
    and e: "?row e = ([0], GroupDone, Some fingerprint_algorithm, Some fingerprint_version, Some [0])"
      "?row e' = ([1], GroupDone, Some fingerprint_algorithm, Some fingerprint_version, Some [0])"
    by (auto simp: map_eq_Cons_conv)
  have "{e, e'} \<subseteq> set (crashes sample_two)" using es by simp
  from issues_are_fingerprints [OF sample_two_reachable this] e es show ?thesis by simp
qed

text \<open>The first crash again, now mapped to the second release.\<close>

definition sample_moved :: issue_tables where
  "sample_moved = committed (sample_publication sample_resolved [2])"

lemma sample_moved_reachable: "issue_reachable sample_moved"
proof -
  have "publish_grouping True [1] [0] (GroupedAs sample_fingerprint) [[2]] sample_resolved
      = Inr (Some [0], sample_moved)"
    "[1] \<notin> i_id ` set (issues sample_resolved)" "set [[2]] \<subseteq> rel_id ` set (releases sample_resolved)"
    by code_simp+
  then have "issue_step sample_resolved sample_moved" using issue_step.published by blast
  with sample_resolved_reachable show ?thesis by (rule issue_reachable.step)
qed

theorem regressed_iff_seen_later_witness:
  "\<exists>s' i'. update_issue_transitions [0] True sample_moved = Inr s'
    \<and> find (\<lambda>j. i_id j = [0]) (issues s') = Some i' \<and> i_regression i' = Regressed"
proof -
  let ?i = "hd (issues sample_moved)"
  have i: "length (issues sample_moved) = 1" "i_id ?i = [0]"
    "is_some_and (resolution_timestamp ?i sample_moved) (\<lambda>t. seen_after (i_id ?i) t sample_moved)"
    by code_simp+
  then have "?i \<in> set (issues sample_moved)" by (cases "issues sample_moved") auto
  from regressed_iff_seen_later [OF sample_moved_reachable this] show ?thesis unfolding i(2) using i(3) [unfolded i(2)] by blast
qed

theorem decisions_agree_witness:
  "\<exists>s''. update_issue_transitions [0] True sample_resolved = Inr s'' \<and> map i_status (issues s'') = [Resolved]"
proof -
  have "map (\<lambda>i. (i_id i, i_status i, i_regression i)) (issues sample_resolved) = [([0], Resolved, ResolvedIn)]"
    by code_simp
  with decisions_agree [OF sample_published_reachable disjI1 [OF sample_published_step(2)]]
  obtain s'' where s'': "update_issue_transitions [0] True sample_resolved = Inr s''"
    "map (\<lambda>i. (i_id i, i_status i, i_regression i)) (issues s'') = [([0], Resolved, ResolvedIn)]"
    by auto
  then have "map (\<lambda>p. fst (snd p)) (map (\<lambda>i. (i_id i, i_status i, i_regression i)) (issues s'')) = [Resolved]" by simp
  with s''(1) show ?thesis by (auto simp: comp_def)
qed

subsection \<open>Where the stored state differs\<close>

text \<open>Runs of steps that are possible, as functions to evaluate.\<close>

definition sample_receive :: "uuid \<Rightarrow> issue_tables \<Rightarrow> issue_tables" where
  "sample_receive event s = s\<lparr>crashes := crashes s @ [received_crash event 5]\<rparr>"

definition sample_publish :: "uuid \<Rightarrow> uuid list \<Rightarrow> issue_tables \<Rightarrow> issue_tables" where
  "sample_publish event cs s = committed (publish_grouping True [9] event (GroupedAs sample_fingerprint) cs s)"

definition can_publish :: "uuid \<Rightarrow> uuid list \<Rightarrow> issue_tables \<Rightarrow> bool" where
  "can_publish event cs s \<longleftrightarrow> is_ok (publish_grouping True [9] event (GroupedAs sample_fingerprint) cs s)
     \<and> list_all (\<lambda>i. i_id i \<noteq> [9]) (issues s) \<and> list_all (\<lambda>c. c \<in> set (map rel_id (releases s))) cs"

lemma sample_receive_reachable:
  "issue_reachable s \<Longrightarrow> list_all (\<lambda>e. ce_id e \<noteq> event) (crashes s) \<Longrightarrow> issue_reachable (sample_receive event s)"
  unfolding sample_receive_def
  by (erule issue_reachable.step, rule issue_step.received) (auto simp: list_all_iff)

lemma sample_publish_reachable:
  assumes "issue_reachable s" and "can_publish event cs s"
  shows "issue_reachable (sample_publish event cs s)"
proof -
  obtain issue s' where "publish_grouping True [9] event (GroupedAs sample_fingerprint) cs s = Inr (issue, s')"
    using assms(2) by (auto simp: can_publish_def is_ok_iff)
  moreover from this have "sample_publish event cs s = s'" by (simp add: sample_publish_def committed_def)
  moreover have "[9] \<notin> i_id ` set (issues s)" "set cs \<subseteq> rel_id ` set (releases s)"
    using assms(2) by (auto simp: can_publish_def list_all_iff)
  ultimately show ?thesis using issue_reachable.step [OF assms(1) issue_step.published] by blast
qed

lemma sample_upload_reachable:
  "issue_reachable s \<Longrightarrow> list_all (\<lambda>r. rel_id r \<noteq> fresh) (releases s) \<Longrightarrow>
     issue_reachable (upsert_release fresh v p a c built s)"
  by (erule issue_reachable.step, rule issue_step.uploaded) (auto simp: list_all_iff)

text \<open>The issue is resolved in the first release; a second crash is matched to a release whose build time is not known
  yet, so nothing can be said; then an upload fills the build time in. The issue stays resolved, although a later
  release was seen.\<close>

definition late_event :: issue_tables where
  "late_event = sample_publish [1] [[3]] (sample_receive [1] (upsert_release [3] [3] [] [] [] None sample_resolved))"

definition late_upload :: issue_tables where
  "late_upload = upsert_release [4] [3] [] [] [] (Some 20) late_event"

lemma late_build_time_unnoticed:
  "\<exists>s i. issue_reachable s \<and> i \<in> set (issues s) \<and> i_status i = Resolved \<and> i_regression i = ResolvedIn
     \<and> is_some_and (resolution_timestamp i s) (\<lambda>t. seen_after (i_id i) t s)"
proof -
  let ?s1 = "upsert_release [3] [3] [] [] [] None sample_resolved"
  have "list_all (\<lambda>r. rel_id r \<noteq> [3]) (releases sample_resolved)" "list_all (\<lambda>e. ce_id e \<noteq> [1]) (crashes ?s1)"
    "can_publish [1] [[3]] (sample_receive [1] ?s1)" "list_all (\<lambda>r. rel_id r \<noteq> [4]) (releases late_event)"
    by code_simp+
  then have "issue_reachable late_upload"
    unfolding late_upload_def late_event_def
    by (intro sample_upload_reachable sample_publish_reachable sample_receive_reachable sample_resolved_reachable)
  moreover have "list_ex (\<lambda>i. i_status i = Resolved \<and> i_regression i = ResolvedIn
      \<and> is_some_and (resolution_timestamp i late_upload) (\<lambda>t. seen_after (i_id i) t late_upload)) (issues late_upload)"
    by code_simp
  ultimately show ?thesis unfolding list_ex_iff by blast
qed

text \<open>The releases of three crashes, two of them built at the same time, have no order. When a publication finds the
  third one's release missing, the others have one, and this publication reopens the issue as regressed.\<close>

definition tied_events :: issue_tables where
  "tied_events = sample_publish [2] [[3]] (sample_receive [2] (sample_publish [1] [[2]] (sample_receive [1]
     (upsert_release [3] [3] [] [] [] (Some 20) sample_published))))"

definition tied_resolved :: issue_tables where
  "tied_resolved = committed (bindR (resolve_issue 30 [0] [1] tied_events) (\<lambda>s. Inr ((), s)))"

lemma missing_event_reopens:
  "\<exists>s s' i i'. issue_reachable s \<and> issues s = [i] \<and> i_status i = Resolved
     \<and> publish_grouping True [9] [2] (GroupedAs sample_fingerprint) [] s = Inr (Some (i_id i), s')
     \<and> list_all (\<lambda>e. ce_id e = [2] \<longrightarrow> ce_mapping e = MissingRelease) (crashes s')
     \<and> issues s' = [i'] \<and> i_status i' = Open \<and> i_regression i' = Regressed"
proof -
  let ?s1 = "upsert_release [3] [3] [] [] [] (Some 20) sample_published"
  let ?s2 = "sample_publish [1] [[2]] (sample_receive [1] ?s1)"
  have "list_all (\<lambda>r. rel_id r \<noteq> [3]) (releases sample_published)" "list_all (\<lambda>e. ce_id e \<noteq> [1]) (crashes ?s1)"
    "can_publish [1] [[2]] (sample_receive [1] ?s1)" "list_all (\<lambda>e. ce_id e \<noteq> [2]) (crashes ?s2)"
    "can_publish [2] [[3]] (sample_receive [2] ?s2)"
    by code_simp+
  then have "issue_reachable tied_events"
    unfolding tied_events_def
    by (intro sample_upload_reachable sample_publish_reachable sample_receive_reachable sample_published_reachable)
  moreover have "resolve_issue 30 [0] [1] tied_events = Inr tied_resolved" by code_simp
  ultimately have s: "issue_reachable tied_resolved" using issue_reachable.step issue_step.resolved by blast
  let ?s' = "sample_publish [2] [] tied_resolved"
  have "map (\<lambda>i. (i_id i, i_status i)) (issues tied_resolved) = [([0], Resolved)]"
    "publish_grouping True [9] [2] (GroupedAs sample_fingerprint) [] tied_resolved = Inr (Some [0], ?s')"
    "list_all (\<lambda>e. ce_id e = [2] \<longrightarrow> ce_mapping e = MissingRelease) (crashes ?s')"
    "map (\<lambda>i. (i_status i, i_regression i)) (issues ?s') = [(Open, Regressed)]"
    by code_simp+
  with s show ?thesis by (auto simp: map_eq_Cons_conv)
qed

end
