(* ===== verification/Spec2Isabelle.thy ===== *)
theory Spec2Isabelle
  imports Pipeline Grouping_Evidence Redaction Queue_Progress Alert_Facts Alert_Integrations Raw_Retention Issue_Facts
begin

text \<open>
  FaultLane: a verification development of the crash pipeline and the server around it.

  \<^bold>\<open>The program.\<close> FaultLane receives crash requests of Unreal Engine games, symbolicates their
  minidumps against uploaded artifacts, writes one JSON processing result per crash and groups crashes into
  issues. Its core is a set of Rust crates: \<^verbatim>\<open>crates/domain\<close> (crash types and normalized values),
  \<^verbatim>\<open>crates/unreal\<close> (the crash context, the project log tail and the CR1 request format),
  \<^verbatim>\<open>crates/symbols\<close> (artifact identities, the scan of a symbol directory, symbolication and symbol caches),
  \<^verbatim>\<open>crates/processing\<close> (the composition of these steps and the result contract) and \<^verbatim>\<open>crates/grouping\<close>
  (the fingerprints of a result). The server \<^verbatim>\<open>apps/server\<close> runs this core as jobs: workers claim jobs from
  a table under a lease, publish results after the rules of the project have redacted them, assign events
  to issues with their rollups, serve requests for reprocessing, send alerts and delete raw files.

  \<^bold>\<open>The theories of the crates.\<close> Source files are named as in the repository.
  \<^item> \<open>FL_Prelude\<close>, \<open>Rust_Text\<close>, \<open>Utf8\<close>, \<open>Rust_Path\<close>: what the code uses of Rust's standard library:
    results as sums (\<open>Inl\<close> the error), checked arithmetic against \<open>u32_max\<close> and \<open>u64_max\<close>, slices that
    fail out of range, strings as lists of scalar values with \<open>trim\<close> and \<open>to_ascii_lowercase\<close>, the
    UTF-8 codec with its lossy variant, and path components.
  \<^item> \<open>Ordered_Map\<close>: \<open>BTreeMap\<close> as a sorted association list, its laws in the locale \<open>entry_map\<close>.
  \<^item> \<open>Domain\<close> (\<^verbatim>\<open>crates/domain/src/lib.rs\<close>): \<open>NormalizedValue\<close> and \<open>CrashType\<close>.
  \<^item> \<open>Crash_Context\<close>, \<open>Log_Tail\<close> (\<^verbatim>\<open>crates/unreal/src/lib.rs\<close>): \<open>CrashContextParser\<close> with its
    classification, and \<open>ProjectLogTail::extract\<close>. The XML library \<^verbatim>\<open>roxmltree\<close> is the record \<open>roxml\<close>.
  \<^item> \<open>Bounded_Readers\<close>, \<open>Crash_Request\<close> (\<^verbatim>\<open>crates/unreal/src/request.rs\<close>): the readers that count and
    limit bytes as state-passing functions over any source, and the decoder of the CR1 envelope. The
    locales \<open>limited_reader\<close> (what every read keeps of the limits) and \<open>byte_stream\<close> (what a reader
    delivers) are proved once for the decoder and interpreted on the readers. The decompressor is the
    record \<open>zlib\<close>. The test encoder of \<^verbatim>\<open>crates/unreal/tests/request.rs\<close> states the round trip.
  \<^item> \<open>Artifacts\<close>, \<open>Pdb_Reader\<close>, \<open>Artifact_Scan\<close> (\<^verbatim>\<open>crates/symbols/src/lib.rs\<close>): debug identities and the
    pairing of executables with program databases; the bounded reader of a program database; the scan
    of a directory. The file system and the \<^verbatim>\<open>object\<close> and \<^verbatim>\<open>pdb\<close> crates are records of functions.
  \<^item> \<open>Symbolication\<close> (\<^verbatim>\<open>crates/symbols/src/symbolicate.rs\<close>) and \<open>Symcache\<close> (\<^verbatim>\<open>symcache.rs\<close>): the checks of
    a dump, the choice of artifacts, the modules handed to the unwinder, the bounded result, and the
    frames that symbol caches resolve. The minidump and symbolic crates are records of functions.
  \<^item> \<open>Json_Value\<close>, \<open>Result_Json\<close>: \<^verbatim>\<open>serde_json::Value\<close> and the derived serializers.
  \<^item> \<open>Processing\<close> (\<^verbatim>\<open>crates/processing/src/lib.rs\<close>): every validator, the history and
    \<open>process_crash_request\<close>; \<open>Processing_Valid\<close> shows serialized values valid, \<open>Processing_History\<close>
    treats the history through the locale \<open>bounded_history\<close>, \<open>Pipeline\<close> composes the components.
  \<^item> \<open>Templates\<close>, \<open>Grouping\<close> (\<^verbatim>\<open>crates/grouping/src/lib.rs\<close>): the normalization of texts and the
    fingerprints; \<open>Grouping_Facts\<close> has their bounds and failures, \<open>Grouping_Evidence\<close> what they depend on.
    SHA-256 and the Unicode tables are parameters.

  \<^bold>\<open>The theories of the server.\<close> A table is a list of rows with the columns that the statements use, a
  statement a function on tables, a transaction one step. Identifiers, tokens and the clock of the database
  are inputs of the steps, fresh or increasing as their documentation says.
  \<^item> \<open>Data_Rules\<close> (\<^verbatim>\<open>data_rules.rs\<close>): the rules of a project and the in-place redaction of a result;
    \<open>Redaction\<close> shows the traversals equal to one over a list of paths.
  \<^item> \<open>Job_Queue\<close>, \<open>Job_Lifecycle\<close>, \<open>Reprocessing\<close> (\<^verbatim>\<open>worker.rs\<close>): the statements and the transactions of
    workers and of reprocessing requests. \<open>Queue_System\<close> lets any number of workers interleave them, with
    every claim ever made kept as a ghost, so that a stale worker may act at any time; \<open>Queue_Invariant\<close>
    and \<open>Queue_Work\<close> are its invariants, \<open>Queue_Facts\<close> and \<open>Queue_Progress\<close> the properties. The step that
    publishes stands for the end of a publication of any kind of job.
  \<^item> \<open>Issue_Rollups\<close>, \<open>Issue_System\<close> (\<^verbatim>\<open>worker.rs\<close>, \<^verbatim>\<open>issues.rs\<close>, \<^verbatim>\<open>symbol_upload.rs\<close>): the part of a
    publication that assigns an event to its issue, variant and release and decides on a regression, and
    what users and uploads do to the same tables. \<open>Issue_Invariant\<close> shows the incremental rollups to be the
    aggregates of the events, \<open>Issue_Facts\<close> has the properties.
  \<^item> \<open>Alert_Rules\<close>, \<open>Alert_Destinations\<close>, \<open>Alert_Integrations\<close> (\<^verbatim>\<open>alerts.rs\<close>): which rules, hours and
    destinations are accepted, and the request that leaves for a customer. \<open>Alert_Conditions\<close> evaluates rules
    and changes conditions, \<open>Alert_Delivery\<close> claims and ends notices, \<open>Alert_System\<close> interleaves both;
    \<open>Alert_Facts\<close> has the properties. What the queries select is an argument of the evaluation.
  \<^item> \<open>Usage_Policy\<close>, \<open>Raw_Retention\<close> (\<^verbatim>\<open>usage.rs\<close>, \<^verbatim>\<open>worker.rs\<close>): outcomes and thresholds of a project's
    policy, and the life of a raw crash file up to its deletion.

  \<^bold>\<open>What the lemmas show.\<close> The properties, numbered C1 onwards, stand after a text that states them.
  Of the crates they say that resource limits hold for whatever is accepted, that optimised routines (streaming
  log tail, in-place matching, bounded history) refine their plain specifications, that what the reference
  encoders write is read back, that no path leaves the symbol root, that the command line has no influence on
  results, that each result of the pipeline passes its own validator, and that fingerprints depend on the stable
  evidence only. Of the server they say, for every reachable state, that leases are exclusive and requested work is
  kept, how many attempts a job and a notice may have, that notices of a condition alternate, that an evaluation
  activates what it observed, that rollups and regressions agree with the events, and that redaction leaves no
  pattern without brackets and keeps the contract. A few properties state where the code departs from what it
  means to do: a job that is stranded by a cancel in its last attempt, a raw file whose deletion is not scheduled
  again, the table check that lets NULL pass.

  \<^bold>\<open>Bounds, termination and fuel.\<close> Loops that read until the end of a source, the loop of a delivery worker over
  due notices and the recovery of issue conditions page by page are \<open>partial_function (option)\<close>, where \<open>None\<close> is
  not returning; the properties about them state \<open>Some\<close>, for the recovery because each page leaves fewer active
  conditions. The other loops are functions with a measure: the entries still allowed and the directories still on
  the stack for the discovery, the pages left for an evaluation, the characters left for templates. Machine
  integers are numbers with the checked or saturating operations of the code; CRCs, bit masks and bytes are words.

  \<^bold>\<open>Not modelled.\<close> Third-party crates are parameters, whose documented behaviour is a named hypothesis where a
  property needs it. Left out are the command line, the HTTP handlers with their queries and pagination
  (authentication, sessions, projects, onboarding, dashboard, the APIs of issues, uploads, ingest and reprocessing),
  the moves of files between object storage and containers (\<open>index_artifact\<close>, \<open>generate_symcache\<close>,
  \<open>process_crash\<close> and what they publish), the main loop of the worker, counters and ledger of usage, the choice of
  the alert rules to evaluate, the web client, and the texts of error messages.
\<close>

end
